(* ===== verification/Prelude.thy ===== *)
theory Prelude
  imports Complex_Main "HOL-Library.Char_ord" "HOL-Library.List_Lexorder"
begin

text \<open>
  Shared vocabulary of the development: exceptions as values, results, and the few generic facts
  about lists and sums that every component uses.  A Python function that may raise is a function
  into \<^typ>\<open>'e + 'a\<close> whose left values are the exceptions of \<open>exceptions.py\<close> and of the language;
  a raise inside a SQLite transaction therefore loses the updated database, which is the rollback of
  \<open>RunStore._connection\<close>.
\<close>

section \<open>Exceptions and results\<close>

text \<open>What a budget refusal ran out of (\<open>BudgetExhaustedError.limit\<close>).\<close>

datatype budget_limit = LimitCost | LimitCalls | LimitTime

text \<open>
  The exceptions the modelled code raises: the application's own classes of \<open>exceptions.py\<close>,
  the subclass \<open>_ManifestArtifactSyncError\<close> of the store, SQLite's constraint violation and the
  built-in exceptions.  The string is the message.
\<close>

datatype error =
    StateError string
  | PolicyError string
  | BudgetExhaustedError string budget_limit
  | ConfigurationError string
  | ModelError string
  | SandboxError string
  | RepositoryError string
  | ManifestArtifactSyncError string
  | IntegrityError string
  | ValueError string
  | TypeError string
  | IndexError
  | OverflowError

type_synonym 'a result = "error + 'a"

text \<open>Whether a call returned, for statements that do not need its value.\<close>

definition returns :: "'a result \<Rightarrow> bool" where
  "returns r = (case r of Inl _ \<Rightarrow> False | Inr _ \<Rightarrow> True)"

lemma returns_simps [simp]: "returns (Inr x)" "\<not> returns (Inl e)"
  by (simp_all add: returns_def)

lemma returns_iff: "returns r \<longleftrightarrow> (\<exists>x. r = Inr x)"
  by (cases r) auto

text \<open>
  Sequencing: the rest of a function runs on the value of a call, unless the call raised.
\<close>

fun bind_r :: "'a result \<Rightarrow> ('a \<Rightarrow> 'b result) \<Rightarrow> 'b result" where
  "bind_r (Inl e) f = Inl e"
| "bind_r (Inr x) f = f x"

lemma bind_r_Inr_iff: "bind_r m f = Inr y \<longleftrightarrow> (\<exists>x. m = Inr x \<and> f x = Inr y)"
  by (cases m) auto

lemma bind_r_Inl_iff: "bind_r m f = Inl e \<longleftrightarrow> m = Inl e \<or> (\<exists>x. m = Inr x \<and> f x = Inl e)"
  by (cases m) auto

lemma bind_r_split:
  "P (bind_r m f) \<longleftrightarrow> (\<forall>e. m = Inl e \<longrightarrow> P (Inl e)) \<and> (\<forall>x. m = Inr x \<longrightarrow> P (f x))"
  by (cases m) auto

lemma bind_r_cong [fundef_cong]:
  "m = m' \<Longrightarrow> (\<And>x. m' = Inr x \<Longrightarrow> f x = g x) \<Longrightarrow> bind_r m f = bind_r m' g"
  by (cases m') auto

text \<open>
  The facts that take the outcome of a modelled handler apart, and the collections for the small
  checks (identity texts, generations, stored values) that handlers share and for what an
  operation leaves unchanged.
\<close>

lemmas branch_splits = sum.splits option.splits if_splits prod.splits

lemmas result_simps = bind_r_Inr_iff bind_r_Inl_iff

named_theorems checks \<open>definitions of the input and stored-value checks\<close>

named_theorems frames \<open>what an operation leaves unchanged\<close>

section \<open>Lists\<close>

text \<open>\<open>next(...)\<close> over a generator is \<^const>\<open>List.find\<close>; these are its elimination facts.\<close>

lemma find_SomeD: "List.find P xs = Some x \<Longrightarrow> x \<in> set xs \<and> P x"
  by (auto simp: find_Some_iff in_set_conv_nth)

lemma find_None: "List.find P xs = None \<longleftrightarrow> (\<forall>x\<in>set xs. \<not> P x)"
  by (auto simp: find_None_iff)

text \<open>The loop that checks every element and raises at the first bad one.\<close>

fun check_all :: "('a \<Rightarrow> unit result) \<Rightarrow> 'a list \<Rightarrow> unit result" where
  "check_all f [] = Inr ()"
| "check_all f (x # xs) = bind_r (f x) (\<lambda>_. check_all f xs)"

lemma check_all_Inr: "check_all f xs = Inr u \<longleftrightarrow> (\<forall>x\<in>set xs. f x = Inr ())"
  by (induction xs) (auto simp: result_simps)

text \<open>The loop that computes one value per element and raises at the first that fails.\<close>

fun map_result :: "('a \<Rightarrow> 'b result) \<Rightarrow> 'a list \<Rightarrow> 'b list result" where
  "map_result f [] = Inr []"
| "map_result f (x # xs) =
     bind_r (f x) (\<lambda>y. bind_r (map_result f xs) (\<lambda>ys. Inr (y # ys)))"

lemma map_result_Inr: "map_result f xs = Inr ys \<longleftrightarrow> list_all2 (\<lambda>x y. f x = Inr y) xs ys"
  by (induction xs arbitrary: ys) (auto simp: result_simps list_all2_Cons1)

lemma map_result_source:
  assumes "map_result f xs = Inr ys" and "y \<in> set ys"
  shows "\<exists>x\<in>set xs. f x = Inr y"
  using assms by (fastforce simp: map_result_Inr list_all2_conv_all_nth in_set_conv_nth)

lemma map_result_image:
  assumes "map_result f xs = Inr ys" and "x \<in> set xs"
  shows "\<exists>y\<in>set ys. f x = Inr y"
  using assms by (fastforce simp: map_result_Inr list_all2_conv_all_nth in_set_conv_nth)

text \<open>The loop that threads a state through a list of calls.\<close>

fun fold_result :: "('s \<Rightarrow> 'a \<Rightarrow> 's result) \<Rightarrow> 's \<Rightarrow> 'a list \<Rightarrow> 's result" where
  "fold_result f s [] = Inr s"
| "fold_result f s (x # xs) = bind_r (f s x) (\<lambda>s'. fold_result f s' xs)"

section \<open>Append-only logs\<close>

text \<open>
  The interface of a log whose \<open>append\<close> keeps an integrity condition and only extends the history;
  whoever appends a list of entries in a transaction relies on these two laws.
\<close>

locale append_only_log =
  fixes append :: "'s \<Rightarrow> 'x \<Rightarrow> 's result"
    and sound :: "'s \<Rightarrow> bool"
    and history :: "'s \<Rightarrow> 'e list"
  assumes append_sound: "append s x = Inr s' \<Longrightarrow> sound s \<Longrightarrow> sound s'"
    and append_history: "append s x = Inr s' \<Longrightarrow> sound s \<Longrightarrow> \<exists>e. history s' = history s @ [e]"
begin

lemma appends_sound: "fold_result append s xs = Inr s' \<Longrightarrow> sound s \<Longrightarrow> sound s'"
  by (induction xs arbitrary: s) (auto simp: result_simps intro: append_sound)

lemma appends_history:
  "fold_result append s xs = Inr s' \<Longrightarrow> sound s \<Longrightarrow>
     \<exists>es. length es = length xs \<and> history s' = history s @ es"
proof (induction xs arbitrary: s)
  case (Cons x xs)
  from Cons.prems obtain t where t: "append s x = Inr t" "fold_result append t xs = Inr s'"
    by (auto simp: result_simps)
  with Cons.prems have "sound t" by (blast intro: append_sound)
  with Cons.IH t obtain es where "length es = length xs" "history s' = history t @ es" by blast
  moreover obtain e where "history t = history s @ [e]"
    using append_history [OF t(1) Cons.prems(2)] by blast
  ultimately show ?case by (intro exI [of _ "e # es"]) simp
qed simp

end

end
