(* ===== verification/PyText.thy ===== *)
theory PyText
  imports Prelude
begin

text \<open>
  The operations of Python's \<open>str\<close> and \<open>json\<close> that the source uses.  A \<open>str\<close> is a
  \<^typ>\<open>string\<close>: one character per code point, code points 0 to 255.  Character classes are Python's
  on that range.
\<close>

section \<open>Characters\<close>

abbreviation code :: "char \<Rightarrow> nat" where
  "code c \<equiv> of_char c"

text \<open>\<open>str.isspace\<close>, which is also what \<open>strip\<close> removes.\<close>

definition is_space :: "char \<Rightarrow> bool" where
  "is_space c \<longleftrightarrow> 9 \<le> code c \<and> code c \<le> 13 \<or> 28 \<le> code c \<and> code c \<le> 32 \<or> code c = 133 \<or> code c = 160"

definition is_printable :: "char \<Rightarrow> bool" where
  "is_printable c \<longleftrightarrow> 32 \<le> code c \<and> code c \<le> 126 \<or> 161 \<le> code c \<and> code c \<noteq> 173"

definition is_digit :: "char \<Rightarrow> bool" where
  "is_digit c \<longleftrightarrow> 48 \<le> code c \<and> code c \<le> 57"

definition is_lower_hex :: "char \<Rightarrow> bool" where
  "is_lower_hex c \<longleftrightarrow> is_digit c \<or> 97 \<le> code c \<and> code c \<le> 102"

text \<open>The class \<open>[A-Za-z0-9_.-]\<close> of GitHub owner and repository names.\<close>

definition is_name_char :: "char \<Rightarrow> bool" where
  "is_name_char c \<longleftrightarrow> is_digit c \<or> 65 \<le> code c \<and> code c \<le> 90 \<or> 97 \<le> code c \<and> code c \<le> 122
     \<or> c = CHR ''_'' \<or> c = CHR ''.'' \<or> c = CHR ''-''"

text \<open>
  \<open>str.casefold\<close> on the range: the capital letters are lowered and the sharp s folds to two
  letters (the micro sign, which folds outside the range, is left alone).
\<close>

definition fold_char :: "char \<Rightarrow> string" where
  "fold_char c = (let n = code c in
     if 65 \<le> n \<and> n \<le> 90 \<or> 192 \<le> n \<and> n \<le> 222 \<and> n \<noteq> 215 then [char_of (n + 32)]
     else if n = 223 then ''ss'' else [c])"

definition casefold :: "string \<Rightarrow> string" where
  "casefold s = concat (map fold_char s)"

text \<open>SQLite's \<open>NOCASE\<close> collation folds the ASCII capitals only.\<close>

definition nocase :: "string \<Rightarrow> string" where
  "nocase s = map (\<lambda>c. if 65 \<le> code c \<and> code c \<le> 90 then char_of (code c + 32) else c) s"

section \<open>Strings\<close>

definition newline :: char where
  "newline = char_of (10 :: nat)"

definition carriage_return :: char where
  "carriage_return = char_of (13 :: nat)"

definition nul :: char where
  "nul = char_of (0 :: nat)"

definition rstrip :: "string \<Rightarrow> string" where
  "rstrip s = rev (dropWhile is_space (rev s))"

definition strip :: "string \<Rightarrow> string" where
  "strip s = rstrip (dropWhile is_space s)"

text \<open>\<open>str.capitalize\<close> of an ASCII text.\<close>

definition capitalize :: "string \<Rightarrow> string" where
  "capitalize s = (case s of [] \<Rightarrow> []
     | c # cs \<Rightarrow> (if 97 \<le> code c \<and> code c \<le> 122 then char_of (code c - 32) else c)
         # map (\<lambda>c. if 65 \<le> code c \<and> code c \<le> 90 then char_of (code c + 32) else c) cs)"

text \<open>\<open>s.rstrip(c)\<close> for one character.\<close>

definition rstrip_char :: "char \<Rightarrow> string \<Rightarrow> string" where
  "rstrip_char c s = rev (dropWhile (\<lambda>x. x = c) (rev s))"

fun startswith :: "string \<Rightarrow> string \<Rightarrow> bool" where
  "startswith s [] = True"
| "startswith [] (p # ps) = False"
| "startswith (c # s) (p # ps) = (c = p \<and> startswith s ps)"

definition endswith :: "string \<Rightarrow> string \<Rightarrow> bool" where
  "endswith s p = startswith (rev s) (rev p)"

text \<open>\<open>p in s\<close> for strings.\<close>

fun contains :: "string \<Rightarrow> string \<Rightarrow> bool" where
  "contains [] p = (p = [])"
| "contains (c # s) p = (startswith (c # s) p \<or> contains s p)"

text \<open>\<open>s.split(c)\<close> for one character, and \<open>sep.join(xs)\<close>.\<close>

fun split_on :: "char \<Rightarrow> string \<Rightarrow> string list" where
  "split_on c [] = [[]]"
| "split_on c (x # xs) =
     (if x = c then [] # split_on c xs
      else case split_on c xs of [] \<Rightarrow> [[x]] | y # ys \<Rightarrow> (x # y) # ys)"

fun join :: "string \<Rightarrow> string list \<Rightarrow> string" where
  "join sep [] = []"
| "join sep [x] = x"
| "join sep (x # y # ys) = x @ sep @ join sep (y # ys)"

definition count_char :: "char \<Rightarrow> string \<Rightarrow> nat" where
  "count_char c s = length (filter (\<lambda>x. x = c) s)"

section \<open>Dictionaries\<close>

text \<open>
  A \<open>dict[str, str]\<close> is an association list with distinct keys; assignment, and equality of
  dictionaries, which ignores the insertion order.
\<close>

fun dict_set :: "string \<Rightarrow> 'v \<Rightarrow> (string \<times> 'v) list \<Rightarrow> (string \<times> 'v) list" where
  "dict_set k v [] = [(k, v)]"
| "dict_set k v ((k', v') # kvs) = (if k' = k then (k, v) # kvs else (k', v') # dict_set k v kvs)"

definition dict_eq :: "(string \<times> 'v) list \<Rightarrow> (string \<times> 'v) list \<Rightarrow> bool" where
  "dict_eq xs ys \<longleftrightarrow> sort_key fst xs = sort_key fst ys"

lemma map_of_dict_set: "map_of (dict_set k v kvs) = (map_of kvs)(k \<mapsto> v)"
  by (induction k v kvs rule: dict_set.induct) auto

section \<open>Lemmas on texts\<close>

lemma startswith_iff: "startswith s p \<longleftrightarrow> (\<exists>r. s = p @ r)"
  by (induction s p rule: startswith.induct) auto

lemma startswith_append [simp]: "startswith (p @ r) p"
  by (auto simp: startswith_iff)

lemma split_on_not_Nil [simp]: "split_on c s \<noteq> []"
  by (induction s) (auto split: list.splits)

lemma join_Cons: "ys \<noteq> [] \<Longrightarrow> join sep (x # ys) = x @ sep @ join sep ys"
  by (cases ys) auto

text \<open>Joining the pieces of a split gives the text back.\<close>

lemma join_split_on [simp]: "join [c] (split_on c s) = s"
proof (induction s)
  case Nil
  then show ?case by simp
next
  case (Cons x s)
  obtain y ys where "split_on c s = y # ys"
    by (cases "split_on c s") auto
  with Cons show ?case by (cases ys) auto
qed

lemma split_on_no_sep: "c \<notin> set s \<Longrightarrow> split_on c s = [s]"
  by (induction s) auto

lemma split_on_append_sep: "c \<notin> set x \<Longrightarrow> split_on c (x @ c # s) = x # split_on c s"
  by (induction x) auto

lemma split_on_pieces: "x \<in> set (split_on c s) \<Longrightarrow> c \<notin> set x"
  by (induction s arbitrary: x) (auto split: if_splits list.splits)

text \<open>Splitting a join of separator-free pieces gives the pieces back.\<close>

lemma split_on_join:
  "xs \<noteq> [] \<Longrightarrow> (\<And>x. x \<in> set xs \<Longrightarrow> c \<notin> set x) \<Longrightarrow> split_on c (join [c] xs) = xs"
proof (induction xs rule: induct_list012)
  case (3 x y zs)
  then show ?case by (auto simp: split_on_append_sep)
qed (auto simp: split_on_no_sep)

lemma nul_char: "nul = CHR 0x00"
  by (simp add: nul_def char_of_def)

lemma strip_Nil [simp]: "strip [] = []" "rstrip [] = []"
  by (simp_all add: strip_def rstrip_def)

lemma strip_strip [simp]: "strip (strip s) = strip s"
proof -
  have "dropWhile is_space (rev (dropWhile is_space (rev (dropWhile is_space s)))) =
      rev (dropWhile is_space (rev (dropWhile is_space s)))"
  proof (cases "dropWhile is_space s")
    case Nil
    then show ?thesis by (simp del: dropWhile_eq_Nil_conv)
  next
    case (Cons a as)
    then have "\<not> is_space a" by (metis dropWhile_eq_Cons_conv)
    then show ?thesis by (simp add: Cons dropWhile_append)
  qed
  then show ?thesis
    by (simp add: strip_def rstrip_def)
qed

section \<open>Decimal numerals\<close>

definition digit_char :: "nat \<Rightarrow> char" where
  "digit_char n = ''0123456789'' ! n"

fun nat_text :: "nat \<Rightarrow> string" where
  "nat_text n = (if n < 10 then [digit_char n] else nat_text (n div 10) @ [digit_char (n mod 10)])"

declare nat_text.simps [simp del]

definition int_text :: "int \<Rightarrow> string" where
  "int_text i = (if i < 0 then ''-'' @ nat_text (nat (- i)) else nat_text (nat i))"

lemma replicate_numeral: "replicate (numeral k) x = x # replicate (pred_numeral k) x"
  by (simp add: numeral_eq_Suc)

text \<open>\<open>f"{n:0wd}"\<close> for a nonnegative number.\<close>

definition padded :: "nat \<Rightarrow> nat \<Rightarrow> string" where
  "padded w n = (let s = nat_text n in replicate (w - length s) (CHR ''0'') @ s)"

section \<open>JSON\<close>

datatype json =
    JNull
  | JBool bool
  | JInt int
  | JStr string
  | JList "json list"
  | JObj "(string \<times> json) list"

definition hex_char :: "nat \<Rightarrow> char" where
  "hex_char n = ''0123456789abcdef'' ! n"

text \<open>
  One character of a JSON string with \<open>ensure_ascii=True\<close>: the short escapes, and \<open>\u00xx\<close> for
  everything outside the printable ASCII range.
\<close>

definition json_char :: "char \<Rightarrow> string" where
  "json_char c = (let n = code c in
     if n = 34 then [CHR 0x5C, CHR 0x22]
     else if n = 92 then [CHR 0x5C, CHR 0x5C]
     else if n = 10 then CHR 0x5C # ''n''
     else if n = 13 then CHR 0x5C # ''r''
     else if n = 9 then CHR 0x5C # ''t''
     else if n = 12 then CHR 0x5C # ''f''
     else if n = 8 then CHR 0x5C # ''b''
     else if 32 \<le> n \<and> n \<le> 126 then [c]
     else CHR 0x5C # ''u00'' @ [hex_char (n div 16), hex_char (n mod 16)])"

definition json_string :: "string \<Rightarrow> string" where
  "json_string s = [CHR 0x22] @ concat (map json_char s) @ [CHR 0x22]"

text \<open>
  \<open>json.dumps(value, sort_keys=True, separators=(",", ":"))\<close>.  An object is an association list
  in insertion order; its keys are sorted by code point.
\<close>

function dumps :: "json \<Rightarrow> string" where
  "dumps JNull = ''null''"
| "dumps (JBool b) = (if b then ''true'' else ''false'')"
| "dumps (JInt i) = int_text i"
| "dumps (JStr s) = json_string s"
| "dumps (JList xs) = ''['' @ join '','' (map dumps xs) @ '']''"
| "dumps (JObj kvs) =
     ''{'' @ join '','' (map (\<lambda>kv. json_string (fst kv) @ '':'' @ dumps (snd kv)) (sort_key fst kvs)) @ ''}''"
  by pat_completeness auto
termination
proof (relation "measure size", goal_cases)
  case 1
  show ?case by simp
next
  case (2 xs x)
  then show ?case by (induction xs) auto
next
  case (3 kvs kv)
  then have "kv \<in> set kvs" by simp
  then show ?case by (induction kvs) (auto simp: size_prod_simp)
qed

text \<open>An object whose values are all strings, as event details are.\<close>

definition text_object :: "(string \<times> string) list \<Rightarrow> json" where
  "text_object kvs = JObj (map (\<lambda>(k, v). (k, JStr v)) kvs)"

text \<open>
  Canonical JSON of such an object determines the object up to the order of its keys: the escapes
  are a prefix code, so the text can be read back entry by entry.
\<close>

definition hex_value :: "char \<Rightarrow> nat" where
  "hex_value c = (if is_digit c then code c - 48 else code c - 87)"

fun json_unchar :: "string \<Rightarrow> (char \<times> string) option" where
  "json_unchar [] = None"
| "json_unchar (c # s) =
     (if c = CHR 0x22 then None
      else if c \<noteq> CHR 0x5C then Some (c, s)
      else case s of
        [] \<Rightarrow> None
      | x # r \<Rightarrow>
          if x = CHR ''u'' then
            (case r of a # b # h # l # r' \<Rightarrow> Some (char_of (16 * hex_value h + hex_value l), r') | _ \<Rightarrow> None)
          else if x = CHR ''n'' then Some (char_of (10 :: nat), r)
          else if x = CHR ''r'' then Some (char_of (13 :: nat), r)
          else if x = CHR ''t'' then Some (char_of (9 :: nat), r)
          else if x = CHR ''f'' then Some (char_of (12 :: nat), r)
          else if x = CHR ''b'' then Some (char_of (8 :: nat), r)
          else Some (x, r))"

lemma hex_value_hex_char: "n < 16 \<Longrightarrow> hex_value (hex_char n) = n"
proof -
  have "\<forall>m\<in>set [0..<16]. hex_value (hex_char m) = m"
    by (simp add: upt_rec hex_value_def hex_char_def is_digit_def)
  moreover assume "n < 16"
  ultimately show ?thesis by simp
qed

lemma code_less: "code c < 256"
  by (metis of_char_mod_256 mod_less_divisor zero_less_numeral)

lemma code_eqD: "code c = n \<Longrightarrow> c = char_of n"
  by (metis char_of_char)

lemma quote_slash_codes: "code c = 34 \<Longrightarrow> c = CHR 0x22" "code c = 92 \<Longrightarrow> c = CHR 0x5C"
proof -
  have "code c = code (CHR 0x22) \<Longrightarrow> c = CHR 0x22" "code c = code (CHR 0x5C) \<Longrightarrow> c = CHR 0x5C"
    by (simp_all only: of_char_eq_iff)
  then show "code c = 34 \<Longrightarrow> c = CHR 0x22" "code c = 92 \<Longrightarrow> c = CHR 0x5C"
    by simp_all
qed

lemma json_unchar_json_char [simp]: "json_unchar (json_char c @ r) = Some (c, r)"
proof -
  have d: "code c div 16 < 16" "code c mod 16 < 16"
    using code_less [of c] by (simp_all add: less_mult_imp_div_less)
  have h: "char_of (16 * hex_value (hex_char (code c div 16)) + hex_value (hex_char (code c mod 16))) = c"
    by (simp add: hex_value_hex_char d)
  consider (quote) "c = CHR 0x22" | (slash) "c = CHR 0x5C" | (other) "code c \<noteq> 34" "code c \<noteq> 92"
    using quote_slash_codes [of c] by blast
  then show ?thesis
  proof cases
    case other
    then have "c \<noteq> CHR 0x22 \<and> c \<noteq> CHR 0x5C" by auto
    with other h show ?thesis by (auto simp: json_char_def Let_def dest: code_eqD)
  qed (simp_all add: json_char_def)
qed

lemma json_char_first: "json_char c @ r \<noteq> CHR 0x22 # r'"
proof
  assume "json_char c @ r = CHR 0x22 # r'"
  then have "json_unchar (json_char c @ r) = None" by simp
  then show False by simp
qed

lemma json_body_inj:
  "concat (map json_char s) @ CHR 0x22 # r = concat (map json_char s') @ CHR 0x22 # r'
     \<Longrightarrow> s = s' \<and> r = r'"
proof (induction s arbitrary: s')
  case Nil
  then show ?case
    by (cases s') (auto simp: json_char_first dest: sym)
next
  case (Cons c s)
  then obtain d t where s': "s' = d # t"
    by (cases s') (auto simp: json_char_first)
  with Cons.prems have
    "json_unchar (json_char c @ concat (map json_char s) @ CHR 0x22 # r)
      = json_unchar (json_char d @ concat (map json_char t) @ CHR 0x22 # r')"
    by simp
  then have "c = d" and "concat (map json_char s) @ CHR 0x22 # r = concat (map json_char t) @ CHR 0x22 # r'"
    by simp_all
  with Cons.IH s' show ?case by blast
qed

lemma json_string_inj: "json_string s @ r = json_string s' @ r' \<Longrightarrow> s = s' \<and> r = r'"
  using json_body_inj [of s r s' r'] by (simp add: json_string_def)

definition json_entry :: "string \<times> string \<Rightarrow> string" where
  "json_entry kv = json_string (fst kv) @ '':'' @ json_string (snd kv)"

lemma json_entry_inj: "json_entry kv @ r = json_entry kv' @ r' \<Longrightarrow> kv = kv' \<and> r = r'"
  by (auto simp: json_entry_def prod_eq_iff dest!: json_string_inj)

lemma json_entry_first: "json_entry kv @ r \<noteq> ''}'' @ r'"
  by (simp add: json_entry_def json_string_def)

lemma insort_key_map: "map g (insort_key (\<lambda>a. f (g a)) x xs) = insort_key f (g x) (map g xs)"
  by (induction xs) auto

lemma sort_key_map: "sort_key f (map g xs) = map g (sort_key (f \<circ> g) xs)"
  by (induction xs) (simp_all add: insort_key_map comp_def)

lemma dumps_text_object:
  "dumps (text_object kvs) = ''{'' @ join '','' (map json_entry (sort_key fst kvs)) @ ''}''"
proof -
  have "fst \<circ> (\<lambda>(k :: string, v). (k, JStr v)) = fst"
    by (auto simp: fun_eq_iff)
  then show ?thesis
    by (simp add: text_object_def sort_key_map comp_def case_prod_beta json_entry_def [abs_def])
qed

text \<open>What follows the first entry of an object.\<close>

definition json_rest :: "(string \<times> string) list \<Rightarrow> string \<Rightarrow> string" where
  "json_rest xs r = (if xs = [] then [] else CHR '','' # join '','' (map json_entry xs)) @ ''}'' @ r"

lemma join_entries_Cons:
  "join '','' (map json_entry (x # xs)) @ ''}'' @ r = json_entry x @ json_rest xs r"
  by (cases xs) (simp_all add: json_rest_def)

lemma join_entries_inj:
  "join '','' (map json_entry xs) @ ''}'' @ r = join '','' (map json_entry ys) @ ''}'' @ r' \<Longrightarrow> xs = ys \<and> r = r'"
proof (induction xs arbitrary: ys)
  case Nil
  show ?case
  proof (cases ys)
    case (Cons y zs)
    with Nil have "''}'' @ r = json_entry y @ json_rest zs r'"
      using join_entries_Cons [of y zs] by simp
    then show ?thesis using json_entry_first [of y "json_rest zs r'" r] by simp
  qed (use Nil in simp)
next
  case (Cons x xs)
  show ?case
  proof (cases ys)
    case Nil
    with Cons.prems have "json_entry x @ json_rest xs r = ''}'' @ r'"
      using join_entries_Cons [of x xs] by simp
    then show ?thesis using json_entry_first [of x "json_rest xs r" r'] by simp
  next
    case ys: (Cons y zs)
    with Cons.prems have "json_entry x @ json_rest xs r = json_entry y @ json_rest zs r'"
      by (simp only: join_entries_Cons)
    then have "x = y" and t: "json_rest xs r = json_rest zs r'"
      using json_entry_inj by blast+
    from t have "xs = zs \<and> r = r'"
      using Cons.IH [of zs] by (cases "xs = []"; cases "zs = []") (auto simp: json_rest_def)
    with \<open>x = y\<close> ys show ?thesis by simp
  qed
qed

lemma dumps_text_object_prefix:
  "dumps (text_object kvs) @ r = dumps (text_object kvs') @ r' \<Longrightarrow> sort_key fst kvs = sort_key fst kvs' \<and> r = r'"
  using join_entries_inj [of "sort_key fst kvs" r "sort_key fst kvs'" r'] by (simp add: dumps_text_object)

lemma dumps_text_object_inj:
  "dumps (text_object kvs) = dumps (text_object kvs') \<Longrightarrow> sort_key fst kvs = sort_key fst kvs'"
  using dumps_text_object_prefix [of kvs "[]" kvs' "[]"] by simp

text \<open>An array of such objects determines every object in it.\<close>

lemma dumps_text_object_head: "\<exists>r. dumps (text_object kvs) = CHR ''{'' # r"
  by (simp add: dumps_text_object)

lemma dumps_text_objects_inj:
  assumes "dumps (JList (map text_object xs)) = dumps (JList (map text_object ys))"
  shows "map (sort_key fst) xs = map (sort_key fst) ys"
proof -
  define rest where "rest = (\<lambda>zs. (if zs = [] then [] else
    CHR '','' # join '','' (map (\<lambda>z. dumps (text_object z)) zs)) @ '']'')"
  have cons: "join '','' (map (\<lambda>z. dumps (text_object z)) (x # zs)) @ '']'' = dumps (text_object x) @ rest zs" for x zs
    by (cases zs) (simp_all add: rest_def)
  have main: "map (sort_key fst) xs = map (sort_key fst) ys"
    if "join '','' (map (\<lambda>z. dumps (text_object z)) xs) @ '']'' =
        join '','' (map (\<lambda>z. dumps (text_object z)) ys) @ '']''" for xs ys
    using that
  proof (induction xs arbitrary: ys)
    case Nil
    show ?case
    proof (cases ys)
      case (Cons y zs)
      with Nil cons [of y zs] dumps_text_object_head [of y] show ?thesis by auto
    qed simp
  next
    case (Cons x xs)
    show ?case
    proof (cases ys)
      case Nil
      with Cons.prems cons [of x xs] dumps_text_object_head [of x] show ?thesis by auto
    next
      case ys: (Cons y zs)
      with Cons.prems have "dumps (text_object x) @ rest xs = dumps (text_object y) @ rest zs"
        by (simp only: cons)
      then have x: "sort_key fst x = sort_key fst y" and t: "rest xs = rest zs"
        using dumps_text_object_prefix by blast+
      from t have "map (sort_key fst) xs = map (sort_key fst) zs"
        by (cases "xs = []"; cases "zs = []") (auto simp: rest_def intro!: Cons.IH)
      with x ys show ?thesis by simp
    qed
  qed
  show ?thesis
    by (rule main) (use assms in \<open>simp add: comp_def\<close>)
qed

end
