(* ===== verification/Timestamps.thy ===== *)
theory Timestamps
  imports PyText
begin

text \<open>
  Python's aware UTC datetimes and timedeltas.  An instant is the number of microseconds since
  0001-01-01T00:00:00Z, a timedelta a number of microseconds; the datetime range ends with the year
  9999.  \<open>isoformat\<close> is the text the store writes into its tables and its event payloads.
\<close>

section \<open>Instants and differences\<close>

type_synonym instant = int
type_synonym timedelta = int

definition microsecond :: timedelta where
  "microsecond = 1"

definition second :: timedelta where
  "second = 1000000"

definition day :: timedelta where
  "day = 86400 * second"

text \<open>\<open>datetime.max\<close>: the last microsecond of the 3,652,059 days of the years 1 to 9999.\<close>

definition max_instant :: instant where
  "max_instant = 3652059 * day - 1"

text \<open>\<open>t + d\<close> and \<open>t - d\<close>, which raise \<open>OverflowError\<close> outside the range.\<close>

definition shift :: "instant \<Rightarrow> timedelta \<Rightarrow> instant result" where
  "shift t d = (if 0 \<le> t + d \<and> t + d \<le> max_instant then Inr (t + d) else Inl OverflowError)"

text \<open>A \<open>datetime\<close> argument: naive, or aware with the instant it denotes.\<close>

datatype datetime = Naive int | Aware instant

text \<open>\<open>_aware_utc\<close> of \<open>store.py\<close>.\<close>

definition aware_utc :: "datetime \<Rightarrow> string \<Rightarrow> instant result" where
  "aware_utc v field = (case v of
     Naive _ \<Rightarrow> Inl (ValueError (field @ '' must be timezone-aware''))
   | Aware t \<Rightarrow> Inr t)"

text \<open>\<open>now or utc_now()\<close>: the argument, or the clock's reading.\<close>

definition now_or :: "datetime option \<Rightarrow> instant \<Rightarrow> datetime" where
  "now_or now clock = (case now of None \<Rightarrow> Aware clock | Some t \<Rightarrow> t)"

lemma aware_utc_simps [simp]:
  "aware_utc (Aware t) field = Inr t"
  "aware_utc (now_or None clock) field = Inr clock"
  "aware_utc (now_or (Some (Aware t)) clock) field = Inr t"
  by (simp_all add: aware_utc_def now_or_def)

text \<open>\<open>t.replace(hour=0, minute=0, second=0, microsecond=0)\<close>.\<close>

definition midnight :: "instant \<Rightarrow> instant" where
  "midnight t = t - t mod day"

lemma day_pos: "0 < day"
  by (simp add: day_def second_def)

lemma midnight_bounds: "midnight t \<le> t" "t < midnight t + day"
  using pos_mod_sign [OF day_pos, of t] pos_mod_bound [OF day_pos, of t]
  by (simp_all add: midnight_def)

text \<open>Two instants have the same UTC date exactly when one lies in the other's day window.\<close>

lemma same_day_iff: "midnight t \<le> u \<and> u < midnight t + day \<longleftrightarrow> u div day = t div day"
proof -
  have t: "midnight t = day * (t div day)"
    by (simp add: midnight_def minus_mod_eq_mult_div)
  have u: "u = day * (u div day) + u mod day" by simp
  have r: "0 \<le> u mod day" "u mod day < day"
    using day_pos by simp_all
  show ?thesis
  proof
    assume "u div day = t div day"
    then show "midnight t \<le> u \<and> u < midnight t + day"
      using t u r by (metis add_less_cancel_left le_add_same_cancel1)
  next
    assume a: "midnight t \<le> u \<and> u < midnight t + day"
    then have "day * (t div day) \<le> u" "u < day * (t div day) + day"
      using t by simp_all
    then have "(u - day * (t div day)) div day = 0"
      by simp
    moreover have "(u - day * (t div day)) div day = u div day - t div day"
      using div_mult_self2 [of day u "- (t div day)"] day_pos by simp
    ultimately show "u div day = t div day" by simp
  qed
qed

section \<open>The calendar and isoformat\<close>

text \<open>
  \<open>datetime\<close>'s conversion of a day number (0 is the first of January of year 1) into year, month
  and day, in cycles of 400, 100, 4 and 1 years.
\<close>

fun month_day :: "nat \<Rightarrow> nat list \<Rightarrow> nat \<Rightarrow> nat \<times> nat" where
  "month_day m [] d = (m, d + 1)"
| "month_day m (l # ls) d = (if d < l \<or> ls = [] then (m, d + 1) else month_day (m + 1) ls (d - l))"

definition month_lengths :: "bool \<Rightarrow> nat list" where
  "month_lengths leap = [31, if leap then 29 else 28, 31, 30, 31, 30, 31, 31, 30, 31, 30, 31]"

definition civil :: "nat \<Rightarrow> nat \<times> nat \<times> nat" where
  "civil n = (let
     n400 = n div 146097; a = n mod 146097;
     n100 = a div 36524; b = a mod 36524;
     n4 = b div 1461; c = b mod 1461;
     n1 = c div 365; d = c mod 365;
     year = n400 * 400 + n100 * 100 + n4 * 4 + n1 + 1
   in if n1 = 4 \<or> n100 = 4 then (year - 1, 12, 31)
      else let leap = (n1 = 3 \<and> (n4 \<noteq> 24 \<or> n100 = 3))
           in (year, month_day 1 (month_lengths leap) d))"

definition iso_seconds :: "instant \<Rightarrow> string" where
  "iso_seconds t = (let
     n = nat (t div day); s = nat (t mod day div second);
     (y, m, d) = civil n
   in padded 4 y @ ''-'' @ padded 2 m @ ''-'' @ padded 2 d @ ''T'' @ padded 2 (s div 3600)
      @ '':'' @ padded 2 (s div 60 mod 60) @ '':'' @ padded 2 (s mod 60))"

definition isoformat :: "instant \<Rightarrow> string" where
  "isoformat t = (let us = nat (t mod second)
   in iso_seconds t @ (if us = 0 then '''' else ''.'' @ padded 6 us) @ ''+00:00'')"

text \<open>\<open>_canonical_timestamp\<close> of \<open>issue_revision.py\<close>: always microseconds, and \<open>Z\<close>.\<close>

definition canonical_timestamp :: "instant \<Rightarrow> string" where
  "canonical_timestamp t = iso_seconds t @ ''.'' @ padded 6 (nat (t mod second)) @ ''Z''"

lemma isoformat_samples:
  "isoformat 0 = ''0001-01-01T00:00:00+00:00''"
  "isoformat max_instant = ''9999-12-31T23:59:59.999999+00:00''"
  "isoformat (739674 * day + 86399 * second + 7) = ''2026-02-28T23:59:59.000007+00:00''"
  by (simp_all add: isoformat_def iso_seconds_def civil_def month_lengths_def padded_def nat_text.simps
      digit_char_def day_def second_def max_instant_def Let_def replicate_numeral)

end
