(* ===== verification/Pricing.thy ===== *)
theory Pricing
  imports PyText
begin

text \<open>
  \<open>pricing.py\<close>: the built-in model table, the choice of each role's model, and the price of a
  request.  \<open>Decimal\<close> amounts are rationals; the prices have at most three decimals and the token
  counts fit the default context's 28 digits, so the decimal arithmetic is exact.
\<close>

section \<open>The model table\<close>

datatype provider = Openai | Anthropic

datatype role = Agent | Critic | Setup | Triage

datatype effort = Effort_low | Effort_medium | Effort_high | Effort_xhigh | Effort_max

record model_usage =
  usage_input_tokens :: int
  usage_cached_input_tokens :: int
  usage_cache_write_tokens :: int
  usage_output_tokens :: int
  usage_reasoning_tokens :: int
  usage_total_tokens :: int

text \<open>USD per million tokens.\<close>

record rates =
  rate_input :: rat
  rate_cached_input :: rat
  rate_cache_write :: rat
  rate_output :: rat

record long_context_tier =
  above_input_tokens :: int
  tier_rates_of :: rates

record model_spec =
  spec_id :: string
  spec_provider :: provider
  spec_context_tokens :: int
  spec_max_output_tokens :: int
  spec_efforts :: "effort set"
  spec_response_models :: "string set"
  spec_standard :: rates
  spec_long_context :: "long_context_tier option"

definition usd :: "rat \<Rightarrow> rat \<Rightarrow> rat \<Rightarrow> rat \<Rightarrow> rates" where
  "usd i ci cw out = \<lparr>rate_input = i, rate_cached_input = ci, rate_cache_write = cw, rate_output = out\<rparr>"

definition all_efforts :: "effort set" where
  "all_efforts = {Effort_low, Effort_medium, Effort_high, Effort_xhigh, Effort_max}"

definition gpt_sol :: model_spec where
  "gpt_sol = \<lparr>spec_id = ''gpt-5.6-sol'', spec_provider = Openai, spec_context_tokens = 1050000,
     spec_max_output_tokens = 128000, spec_efforts = all_efforts,
     spec_response_models = {''gpt-5.6-sol''}, spec_standard = usd 5 (1/2) (25/4) 30,
     spec_long_context = Some \<lparr>above_input_tokens = 272000, tier_rates_of = usd 10 1 (25/2) 45\<rparr>\<rparr>"

definition gpt_terra :: model_spec where
  "gpt_terra = \<lparr>spec_id = ''gpt-5.6-terra'', spec_provider = Openai, spec_context_tokens = 1050000,
     spec_max_output_tokens = 128000, spec_efforts = all_efforts,
     spec_response_models = {''gpt-5.6-terra''}, spec_standard = usd 2 (1/5) (5/2) 12,
     spec_long_context = Some \<lparr>above_input_tokens = 272000, tier_rates_of = usd 4 (2/5) 5 18\<rparr>\<rparr>"

definition gpt_luna :: model_spec where
  "gpt_luna = \<lparr>spec_id = ''gpt-5.6-luna'', spec_provider = Openai, spec_context_tokens = 400000,
     spec_max_output_tokens = 128000, spec_efforts = all_efforts,
     spec_response_models = {''gpt-5.6-luna''}, spec_standard = usd (1/5) (1/50) (1/4) (6/5),
     spec_long_context = Some \<lparr>above_input_tokens = 272000,
       tier_rates_of = usd (2/5) (1/25) (1/2) (9/5)\<rparr>\<rparr>"

definition gpt_5_5 :: model_spec where
  "gpt_5_5 = \<lparr>spec_id = ''gpt-5.5'', spec_provider = Openai, spec_context_tokens = 1050000,
     spec_max_output_tokens = 128000,
     spec_efforts = {Effort_low, Effort_medium, Effort_high, Effort_xhigh},
     spec_response_models = {''gpt-5.5'', ''gpt-5.5-2026-04-23''}, spec_standard = usd 5 (1/2) 5 30,
     spec_long_context = Some \<lparr>above_input_tokens = 272000, tier_rates_of = usd 10 1 10 45\<rparr>\<rparr>"

definition claude_opus :: model_spec where
  "claude_opus = \<lparr>spec_id = ''claude-opus-5-5'', spec_provider = Anthropic,
     spec_context_tokens = 1000000, spec_max_output_tokens = 128000, spec_efforts = all_efforts,
     spec_response_models = {''claude-opus-5-5''}, spec_standard = usd 4 (1/5) 5 20,
     spec_long_context = None\<rparr>"

definition claude_sonnet :: model_spec where
  "claude_sonnet = \<lparr>spec_id = ''claude-sonnet-5-5'', spec_provider = Anthropic,
     spec_context_tokens = 1000000, spec_max_output_tokens = 128000, spec_efforts = all_efforts,
     spec_response_models = {''claude-sonnet-5-5''}, spec_standard = usd 2 (1/5) (5/2) 10,
     spec_long_context = None\<rparr>"

definition claude_haiku :: model_spec where
  "claude_haiku = \<lparr>spec_id = ''claude-haiku-5-5'', spec_provider = Anthropic,
     spec_context_tokens = 1000000, spec_max_output_tokens = 128000, spec_efforts = all_efforts,
     spec_response_models = {''claude-haiku-5-5''},
     spec_standard = usd (1/10) (1/100) (1/8) (1/2),
     spec_long_context = Some \<lparr>above_input_tokens = 100000,
       tier_rates_of = usd (1/2) (1/20) (5/8) (5/2)\<rparr>\<rparr>"

definition specs :: "model_spec list" where
  "specs = [gpt_sol, gpt_terra, gpt_luna, gpt_5_5, claude_opus, claude_sonnet, claude_haiku]"

definition models_table :: "string \<Rightarrow> model_spec option" where
  "models_table name = map_of (map (\<lambda>s. (spec_id s, s)) specs) name"

lemmas spec_defs = gpt_sol_def gpt_terra_def gpt_luna_def gpt_5_5_def claude_opus_def
  claude_sonnet_def claude_haiku_def usd_def

lemma models_table_Some: "models_table name = Some s \<Longrightarrow> s \<in> set specs \<and> spec_id s = name"
  by (auto simp: models_table_def dest!: map_of_SomeD)

section \<open>Roles, defaults and caps\<close>

fun api_key_env :: "provider \<Rightarrow> string" where
  "api_key_env Openai = ''OPENAI_API_KEY''"
| "api_key_env Anthropic = ''ANTHROPIC_API_KEY''"

text \<open>\<open>ROLE_MODELS\<close>, for the tier roles agent, setup and triage (the critic follows the agent).\<close>

fun role_model :: "provider \<Rightarrow> role \<Rightarrow> string" where
  "role_model Openai Setup = ''gpt-5.6-terra''"
| "role_model Openai Triage = ''gpt-5.6-luna''"
| "role_model Openai _ = ''gpt-5.6-sol''"
| "role_model Anthropic Setup = ''claude-sonnet-5-5''"
| "role_model Anthropic Triage = ''claude-haiku-5-5''"
| "role_model Anthropic _ = ''claude-opus-5-5''"

fun default_effort :: "role \<Rightarrow> effort" where
  "default_effort Agent = Effort_high"
| "default_effort Critic = Effort_high"
| "default_effort Setup = Effort_medium"
| "default_effort Triage = Effort_low"

fun turn_output_cap :: "provider \<Rightarrow> role \<Rightarrow> int" where
  "turn_output_cap Openai Agent = 32000"
| "turn_output_cap Openai Critic = 32000"
| "turn_output_cap Anthropic Agent = 64000"
| "turn_output_cap Anthropic Critic = 64000"
| "turn_output_cap _ Setup = 16000"
| "turn_output_cap _ Triage = 4000"

fun role_name :: "role \<Rightarrow> string" where
  "role_name Agent = ''agent''"
| "role_name Critic = ''critic''"
| "role_name Setup = ''setup''"
| "role_name Triage = ''triage''"

text \<open>The environment: \<open>environ.get(key)\<close> is true for a nonempty value.\<close>

type_synonym environ = "string \<Rightarrow> string option"

definition key_set :: "environ \<Rightarrow> provider \<Rightarrow> bool" where
  "key_set environ p = (case environ (api_key_env p) of None \<Rightarrow> False | Some v \<Rightarrow> v \<noteq> [])"

definition table_model :: "string \<Rightarrow> role \<Rightarrow> model_spec result" where
  "table_model name r = (case models_table name of
     None \<Rightarrow> Inl (ConfigurationError (''models.'' @ role_name r @
       '' is not a known model; use auto or one of: '' @ join '', '' (map spec_id specs)))
   | Some s \<Rightarrow> Inr s)"

text \<open>
  \<open>MODELS[name]\<close> for a name of \<open>ROLE_MODELS\<close>; a missing key would raise, so the lookup is
  shared with \<^const>\<open>table_model\<close> and never fails on those names.
\<close>

definition role_spec :: "provider \<Rightarrow> role \<Rightarrow> model_spec result" where
  "role_spec p r = table_model (role_model p r) r"

definition resolve_model :: "string \<Rightarrow> role \<Rightarrow> environ \<Rightarrow> model_spec result" where
  "resolve_model name r environ =
     (if name = ''auto'' then
        (case List.find (key_set environ) [Anthropic, Openai] of
           Some p \<Rightarrow> role_spec p r
         | None \<Rightarrow> Inl (ConfigurationError (''models.'' @ role_name r @
             '' is auto, but no model API key is set; set '' @ api_key_env Anthropic @ '' or ''
             @ api_key_env Openai)))
      else table_model name r)"

fun other_provider :: "provider \<Rightarrow> provider" where
  "other_provider Anthropic = Openai"
| "other_provider Openai = Anthropic"

definition resolve_critic :: "string \<Rightarrow> model_spec \<Rightarrow> environ \<Rightarrow> model_spec result" where
  "resolve_critic name agent environ =
     (if name \<noteq> ''auto'' then table_model name Critic
      else let other = other_provider (spec_provider agent)
           in if key_set environ (spec_provider agent) \<and> key_set environ other
              then role_spec other Agent else Inr agent)"

lemma role_spec_provider: "role_spec p r = Inr s \<Longrightarrow> spec_provider s = p"
  by (cases "(p, r)" rule: role_model.cases)
     (auto simp: role_spec_def table_model_def models_table_def specs_def spec_defs)

lemma role_spec_defined: "\<exists>s. role_spec p r = Inr s"
  by (cases "(p, r)" rule: role_model.cases)
     (auto simp: role_spec_def table_model_def models_table_def specs_def spec_defs)

section \<open>The price of a request\<close>

definition tier_rates :: "model_spec \<Rightarrow> int \<Rightarrow> rates" where
  "tier_rates s input_tokens = (case spec_long_context s of
     None \<Rightarrow> spec_standard s
   | Some tier \<Rightarrow> if above_input_tokens tier < input_tokens then tier_rates_of tier else spec_standard s)"

definition tokens_per_price_unit :: rat where
  "tokens_per_price_unit = 1000000"

definition cost :: "model_spec \<Rightarrow> model_usage \<Rightarrow> rat result" where
  "cost s u =
     (let regular = usage_input_tokens u - usage_cached_input_tokens u - usage_cache_write_tokens u;
          r = tier_rates s (usage_input_tokens u)
      in if regular < 0 then Inl (ValueError ''cached and cache-write tokens cannot exceed input tokens'')
         else Inr ((of_int regular * rate_input r
                    + of_int (usage_cached_input_tokens u) * rate_cached_input r
                    + of_int (usage_cache_write_tokens u) * rate_cache_write r
                    + of_int (usage_output_tokens u) * rate_output r) / tokens_per_price_unit))"

definition upper_bound_cost :: "model_spec \<Rightarrow> int \<Rightarrow> int \<Rightarrow> rat" where
  "upper_bound_cost s input_tokens output_tokens =
     (let r = tier_rates s input_tokens;
          input_rate = max (rate_input r) (max (rate_cached_input r) (rate_cache_write r))
      in (of_int input_tokens * input_rate + of_int output_tokens * rate_output r)
         / tokens_per_price_unit)"

end
