(* ===== verification/Domain.thy ===== *)
theory Domain
  imports Timestamps Pricing
begin

text \<open>
  \<open>domain.py\<close> and the safety-event types of \<open>exceptions.py\<close>: the run states and their transitions,
  the issue and run records with their validators, and where a run's branch lives.  USD amounts
  (\<open>Decimal\<close>) and seconds (\<open>float\<close>) are rationals.
\<close>

section \<open>Run states\<close>

datatype run_status =
    QUEUED | DISCOVERING | CANDIDATE_SELECTED | ELIGIBILITY_CHECKED | SETTING_UP | IMPLEMENTING
  | VALIDATING | CRITIQUING | READY_FOR_APPROVAL | APPROVED | SUBMITTING | PR_OPEN
  | SKIPPED | REJECTED | FAILED | CANCELLED

fun status_value :: "run_status \<Rightarrow> string" where
  "status_value QUEUED = ''queued''"
| "status_value DISCOVERING = ''discovering''"
| "status_value CANDIDATE_SELECTED = ''candidate_selected''"
| "status_value ELIGIBILITY_CHECKED = ''eligibility_checked''"
| "status_value SETTING_UP = ''setting_up''"
| "status_value IMPLEMENTING = ''implementing''"
| "status_value VALIDATING = ''validating''"
| "status_value CRITIQUING = ''critiquing''"
| "status_value READY_FOR_APPROVAL = ''ready_for_approval''"
| "status_value APPROVED = ''approved''"
| "status_value SUBMITTING = ''submitting''"
| "status_value PR_OPEN = ''pr_open''"
| "status_value SKIPPED = ''skipped''"
| "status_value REJECTED = ''rejected''"
| "status_value FAILED = ''failed''"
| "status_value CANCELLED = ''cancelled''"

lemma status_value_inject [simp]: "status_value s = status_value t \<longleftrightarrow> s = t"
  by (cases s; cases t; simp)

text \<open>Statuses sort by their values, as \<open>sorted\<close> sorts the status texts.\<close>

instantiation run_status :: linorder
begin

definition less_eq_run_status :: "run_status \<Rightarrow> run_status \<Rightarrow> bool" where
  "less_eq_run_status s t \<longleftrightarrow> status_value s \<le> status_value t"

definition less_run_status :: "run_status \<Rightarrow> run_status \<Rightarrow> bool" where
  "less_run_status s t \<longleftrightarrow> status_value s < status_value t"

instance
proof
  fix s t :: run_status
  show "s \<le> t \<Longrightarrow> t \<le> s \<Longrightarrow> s = t"
    by (metis less_eq_run_status_def order_antisym status_value_inject)
qed (auto simp: less_eq_run_status_def less_run_status_def intro: le_neq_trans)

end

definition terminal_statuses :: "run_status set" where
  "terminal_statuses = {PR_OPEN, SKIPPED, REJECTED, FAILED, CANCELLED}"

text \<open>\<open>ALLOWED_TRANSITIONS.get(status, set())\<close>.\<close>

fun allowed_transitions :: "run_status \<Rightarrow> run_status set" where
  "allowed_transitions QUEUED = {DISCOVERING, CANCELLED, FAILED}"
| "allowed_transitions DISCOVERING = {CANDIDATE_SELECTED, SKIPPED, FAILED}"
| "allowed_transitions CANDIDATE_SELECTED = {ELIGIBILITY_CHECKED, SKIPPED, FAILED}"
| "allowed_transitions ELIGIBILITY_CHECKED = {SETTING_UP, SKIPPED, FAILED}"
| "allowed_transitions SETTING_UP = {IMPLEMENTING, SKIPPED, FAILED}"
| "allowed_transitions IMPLEMENTING = {VALIDATING, SKIPPED, REJECTED, FAILED}"
| "allowed_transitions VALIDATING = {CRITIQUING, IMPLEMENTING, REJECTED, FAILED}"
| "allowed_transitions CRITIQUING = {IMPLEMENTING, READY_FOR_APPROVAL, REJECTED, FAILED}"
| "allowed_transitions READY_FOR_APPROVAL = {APPROVED, CANCELLED}"
| "allowed_transitions APPROVED = {SUBMITTING, CANCELLED}"
| "allowed_transitions SUBMITTING = {PR_OPEN, READY_FOR_APPROVAL, FAILED}"
| "allowed_transitions _ = {}"

text \<open>The status graph as a step relation, for properties of whole runs.\<close>

inductive status_step :: "run_status \<Rightarrow> run_status \<Rightarrow> bool" where
  allowed: "t \<in> allowed_transitions s \<Longrightarrow> status_step s t"

inductive_simps status_step_iff: "status_step s t"

inductive_cases from_terminal: "status_step PR_OPEN t" "status_step SKIPPED t"
  "status_step REJECTED t" "status_step FAILED t" "status_step CANCELLED t"

lemma terminal_no_transition: "s \<in> terminal_statuses \<Longrightarrow> allowed_transitions s = {}"
  by (auto simp: terminal_statuses_def)

lemma no_transition_terminal: "allowed_transitions s = {} \<Longrightarrow> s \<in> terminal_statuses"
  by (cases s) (auto simp: terminal_statuses_def)

text \<open>
  The status sets the store works with: a released attempt no longer blocks its issue, a
  suppressed one blocks the unchanged issue, and the recoverable ones may be failed after a crash.
\<close>

definition candidate_released_statuses :: "run_status set" where
  "candidate_released_statuses = {SKIPPED, REJECTED, FAILED, CANCELLED}"

definition candidate_suppressed_statuses :: "run_status set" where
  "candidate_suppressed_statuses = {SKIPPED, REJECTED, CANCELLED}"

definition recoverable_in_flight_statuses :: "run_status set" where
  "recoverable_in_flight_statuses = {QUEUED, DISCOVERING, CANDIDATE_SELECTED, ELIGIBILITY_CHECKED,
     SETTING_UP, IMPLEMENTING, VALIDATING, CRITIQUING}"

text \<open>A prepared change comes after every check: each way into approval passes the critic.\<close>

lemma ready_only_after_critique:
  "READY_FOR_APPROVAL \<in> allowed_transitions s \<Longrightarrow> s = CRITIQUING \<or> s = SUBMITTING"
  by (cases s) auto

lemma publication_only_after_approval: "SUBMITTING \<in> allowed_transitions s \<Longrightarrow> s = APPROVED"
  by (cases s) auto

section \<open>Issues and repositories\<close>

record repository_info =
  repo_full_name :: string
  repo_html_url :: string
  repo_clone_url :: string
  repo_default_branch :: string
  repo_stars :: int
  repo_archived :: bool
  repo_disabled :: bool
  repo_private :: bool
  repo_pushed_at :: "instant option"
  repo_license_spdx :: "string option"
  repo_has_pull_requests :: bool
  repo_pull_request_creation_policy :: "string option"

record issue_comment =
  comment_author :: string
  comment_author_association :: string
  comment_body :: string
  comment_html_url :: string
  comment_created_at :: instant
  comment_updated_at :: instant

record issue_candidate =
  issue_repository :: string
  issue_number :: int
  issue_title :: string
  issue_body :: string
  issue_html_url :: string
  issue_state :: string
  issue_locked :: bool
  issue_author :: string
  issue_labels :: "string list"
  issue_assignees :: "string list"
  issue_comments :: int
  issue_discussion :: "issue_comment list"
  issue_created_at :: instant
  issue_updated_at :: instant
  issue_score :: int
  issue_score_evidence :: "(string \<times> string) list"

definition issue_reference :: "issue_candidate \<Rightarrow> string" where
  "issue_reference i = issue_repository i @ ''#'' @ int_text (issue_number i)"

section \<open>What a run prepared\<close>

record eligibility_result =
  elig_eligible :: bool
  elig_score :: int
  elig_evidence :: "(string \<times> string) list"
  elig_blockers :: "string list"

record patch_proposal =
  prop_summary :: string
  prop_commit_message :: string
  prop_pull_request_title :: string
  prop_pull_request_body :: string
  prop_test_files :: "string list"
  prop_test_command :: "string option"
  prop_disclosure :: string

record command_result =
  cmd_command :: string
  cmd_exit_code :: int
  cmd_duration_seconds :: rat
  cmd_stdout :: string
  cmd_stderr :: string
  cmd_timed_out :: bool

definition cmd_passed :: "command_result \<Rightarrow> bool" where
  "cmd_passed r \<longleftrightarrow> cmd_exit_code r = 0 \<and> \<not> cmd_timed_out r"

record gate_result =
  gate_gate :: string
  gate_passed :: bool
  gate_evidence :: string

record quality_report =
  qual_ready :: bool
  qual_gates :: "gate_result list"
  qual_review_rounds :: int
  qual_review_summary :: string
  qual_review_notes :: "string list"

datatype attention_kind = Changes_requested | Ci_failed | Maintainer_push | Observation_failed

record pull_request_attention =
  att_kind :: attention_kind
  att_reason :: string
  att_source_url :: string
  att_evidence_hash :: string
  att_observed_at :: instant

record approval_record =
  appr_actor :: string
  appr_approved_at :: instant
  appr_expires_at :: instant
  appr_manifest_hash :: string
  appr_attestation :: string

record budget_reservation =
  res_call :: int
  res_role :: role
  res_input_tokens :: int
  res_output_tokens :: int
  res_cost_usd :: rat
  res_timeout_seconds :: rat
  res_started_at :: instant

record run_models =
  models_agent :: string
  models_critic :: string
  models_setup :: string
  models_triage :: string

datatype recipe_source = From_config | From_cache | From_detection | From_agent

record run_environment =
  env_recipe_source :: recipe_source
  env_image_id :: string
  env_base_image :: string
  env_base_digest :: string
  env_test_command :: string

datatype compensation_reason =
  Pre_pr_base_moved | Pre_pr_policy_stale | Pre_pr_creation_refused | Created_pr_base_moved

datatype pull_request_state = Pull_open | Pull_merged | Pull_closed

section \<open>The run manifest\<close>

record run_manifest =
  schema_version :: int
  run_id :: string
  status :: run_status
  created_at :: instant
  updated_at :: instant
  candidate :: "issue_candidate option"
  eligibility :: "eligibility_result option"
  repository :: "repository_info option"
  base_sha :: "string option"
  models :: "run_models option"
  autocontribute_version :: "string option"
  environment :: "run_environment option"
  proposal :: "patch_proposal option"
  quality :: "quality_report option"
  validation_sha256 :: "string option"
  preparation_config_fingerprint :: "string option"
  preparation_fingerprint :: "string option"
  approval :: "approval_record option"
  publishing_login :: "string option"
  publishing_api_origin :: "string option"
  commit_author_name :: "string option"
  commit_author_email :: "string option"
  commit_committer_name :: "string option"
  commit_committer_email :: "string option"
  publication_draft :: "bool option"
  publication_ready_for_review :: "bool option"
  upstream_repository_id :: "int option"
  upstream_repository_node_id :: "string option"
  fork_repository_id :: "int option"
  fork_repository_node_id :: "string option"
  head_repository :: "string option"
  branch_name :: "string option"
  commit_sha :: "string option"
  pull_request_creation_started :: bool
  pull_request_ready_started :: bool
  pull_request_ready_completed :: bool
  publication_compensation_reason :: "compensation_reason option"
  pull_request_url :: "string option"
  pull_request_node_id :: "string option"
  pull_request_state :: "pull_request_state option"
  pull_request_merged_at :: "instant option"
  pull_request_attention :: "pull_request_attention list"
  skip_reason :: "string option"
  reject_reason :: "string option"
  error_text :: "string option"
  model_calls :: int
  model_input_tokens :: int
  model_output_tokens :: int
  model_cost_usd :: rat
  model_seconds :: rat
  model_reservation :: "budget_reservation option"

text \<open>\<open>RunManifest(run_id=..., status=..., created_at=..., updated_at=...)\<close>: every other field at its default.\<close>

definition new_manifest :: "string \<Rightarrow> run_status \<Rightarrow> instant \<Rightarrow> instant \<Rightarrow> run_manifest" where
  "new_manifest rid st created updated = \<lparr>
     schema_version = 1, run_id = rid, status = st, created_at = created, updated_at = updated,
     candidate = None, eligibility = None, repository = None, base_sha = None, models = None,
     autocontribute_version = None, environment = None, proposal = None, quality = None,
     validation_sha256 = None, preparation_config_fingerprint = None, preparation_fingerprint = None,
     approval = None, publishing_login = None, publishing_api_origin = None,
     commit_author_name = None, commit_author_email = None, commit_committer_name = None,
     commit_committer_email = None, publication_draft = None, publication_ready_for_review = None,
     upstream_repository_id = None, upstream_repository_node_id = None, fork_repository_id = None,
     fork_repository_node_id = None, head_repository = None, branch_name = None, commit_sha = None,
     pull_request_creation_started = False, pull_request_ready_started = False,
     pull_request_ready_completed = False, publication_compensation_reason = None,
     pull_request_url = None, pull_request_node_id = None, pull_request_state = None,
     pull_request_merged_at = None, pull_request_attention = [], skip_reason = None,
     reject_reason = None, error_text = None, model_calls = 0, model_input_tokens = 0,
     model_output_tokens = 0, model_cost_usd = 0, model_seconds = 0, model_reservation = None \<rparr>"

lemma new_manifest_simps [simp]:
  "run_id (new_manifest rid st c u) = rid" "status (new_manifest rid st c u) = st"
  "created_at (new_manifest rid st c u) = c" "updated_at (new_manifest rid st c u) = u"
  "candidate (new_manifest rid st c u) = None" "repository (new_manifest rid st c u) = None"
  "pull_request_state (new_manifest rid st c u) = None" "model_reservation (new_manifest rid st c u) = None"
  "model_cost_usd (new_manifest rid st c u) = 0"
  by (simp_all add: new_manifest_def)

section \<open>Validation of a manifest\<close>

text \<open>Patterns of the fields: a lowercase SHA-256, a version, an owner/name pair.\<close>

definition is_sha256 :: "string \<Rightarrow> bool" where
  "is_sha256 s \<longleftrightarrow> length s = 64 \<and> list_all is_lower_hex s"

definition is_version :: "string \<Rightarrow> bool" where
  "is_version s = (case s of
     [] \<Rightarrow> False
   | c # r \<Rightarrow> is_digit c \<and> length r \<le> 63 \<and>
       list_all (\<lambda>x. is_name_char x \<and> x \<noteq> CHR ''_'' \<or> x = CHR ''+'' \<or> x = CHR ''!'') r)"

text \<open>\<open>^[A-Za-z0-9_.-]+/[A-Za-z0-9_.-]+$\<close> as a full match.\<close>

definition is_owner_name :: "string \<Rightarrow> bool" where
  "is_owner_name s = (case split_on (CHR ''/'') s of
     [a, b] \<Rightarrow> a \<noteq> [] \<and> b \<noteq> [] \<and> list_all is_name_char a \<and> list_all is_name_char b
   | _ \<Rightarrow> False)"

text \<open>\<open>Field(min_length=1, max_length=256)\<close> and \<open>immutable_github_node_id\<close>.\<close>

definition is_node_id :: "string \<Rightarrow> bool" where
  "is_node_id s \<longleftrightarrow> 1 \<le> length s \<and> length s \<le> 256 \<and> s = strip s \<and> list_all is_printable s"

definition opt_all :: "('a \<Rightarrow> bool) \<Rightarrow> 'a option \<Rightarrow> bool" where
  "opt_all P x = (case x of None \<Rightarrow> True | Some v \<Rightarrow> P v)"

definition valid_reservation :: "budget_reservation \<Rightarrow> bool" where
  "valid_reservation r \<longleftrightarrow> 1 \<le> res_call r \<and> 1 \<le> res_input_tokens r \<and> 1 \<le> res_output_tokens r
     \<and> 0 \<le> res_cost_usd r \<and> 0 < res_timeout_seconds r"

text \<open>\<open>RunModels.model_is_in_the_table\<close> on its four fields.\<close>

definition valid_models :: "run_models \<Rightarrow> bool" where
  "valid_models m \<longleftrightarrow> list_all (\<lambda>name. models_table name \<noteq> None)
     [models_agent m, models_critic m, models_setup m, models_triage m]"

text \<open>\<open>immutable_remote_identity_is_complete\<close>, in the order of its checks.\<close>

definition remote_identity_complete :: "run_manifest \<Rightarrow> unit result" where
  "remote_identity_complete m =
     (if (upstream_repository_id m = None) \<noteq> (upstream_repository_node_id m = None) then
        Inl (ValueError ''upstream repository immutable identity must be complete'')
      else if (fork_repository_id m = None) \<noteq> (fork_repository_node_id m = None) then
        Inl (ValueError ''fork repository immutable identity must be complete'')
      else if fork_repository_id m \<noteq> None \<and> upstream_repository_id m = None then
        Inl (ValueError ''fork immutable identity requires upstream immutable identity'')
      else if pull_request_node_id m \<noteq> None \<and> pull_request_url m = None then
        Inl (ValueError ''pull-request node identity requires its canonical URL'')
      else Inr ())"

text \<open>
  \<open>RunManifest.model_validate\<close>: the field constraints, then the model validator.  Which field
  failed is not part of the model, so every field failure is one \<open>ValidationError\<close>.
\<close>

definition fields_valid :: "run_manifest \<Rightarrow> bool" where
  "fields_valid m \<longleftrightarrow>
     opt_all (\<lambda>e. 0 \<le> elig_score e \<and> elig_score e \<le> 100) (eligibility m)
   \<and> opt_all valid_models (models m)
   \<and> opt_all is_version (autocontribute_version m)
   \<and> opt_all (\<lambda>q. 1 \<le> qual_review_rounds q) (quality m)
   \<and> opt_all is_sha256 (validation_sha256 m)
   \<and> opt_all is_sha256 (preparation_config_fingerprint m)
   \<and> opt_all is_sha256 (preparation_fingerprint m)
   \<and> opt_all (\<lambda>i. 0 < i) (upstream_repository_id m)
   \<and> opt_all is_node_id (upstream_repository_node_id m)
   \<and> opt_all (\<lambda>i. 0 < i) (fork_repository_id m)
   \<and> opt_all is_node_id (fork_repository_node_id m)
   \<and> opt_all is_owner_name (head_repository m)
   \<and> opt_all is_node_id (pull_request_node_id m)
   \<and> list_all (\<lambda>a. is_sha256 (att_evidence_hash a)) (pull_request_attention m)
   \<and> 0 \<le> model_input_tokens m \<and> 0 \<le> model_output_tokens m
   \<and> 0 \<le> model_cost_usd m \<and> 0 \<le> model_seconds m
   \<and> opt_all valid_reservation (model_reservation m)"

definition validate_manifest :: "run_manifest \<Rightarrow> run_manifest result" where
  "validate_manifest m =
     (if \<not> fields_valid m then Inl (ValueError ''validation error for RunManifest'')
      else bind_r (remote_identity_complete m) (\<lambda>_. Inr m))"

lemma validate_manifest_Inr: "validate_manifest m = Inr m' \<Longrightarrow> m' = m"
  by (auto simp: validate_manifest_def result_simps split: if_splits)

lemma validate_new_manifest [simp]:
  "validate_manifest (new_manifest rid st c u) = Inr (new_manifest rid st c u)"
  by (simp add: validate_manifest_def fields_valid_def remote_identity_complete_def
      new_manifest_def opt_all_def)

section \<open>Where a run's branch lives\<close>

text \<open>The parts of \<open>s.split('/', 1)\<close>; the second is missing when there is no slash.\<close>

definition before_slash :: "string \<Rightarrow> string" where
  "before_slash s = takeWhile (\<lambda>c. c \<noteq> CHR ''/'') s"

definition after_slash :: "string \<Rightarrow> string result" where
  "after_slash s = (case dropWhile (\<lambda>c. c \<noteq> CHR ''/'') s of [] \<Rightarrow> Inl IndexError | _ # r \<Rightarrow> Inr r)"

record publication_head_t =
  head_repository_of :: string
  head_label :: string
  head_same_repository :: bool

definition publication_head :: "run_manifest \<Rightarrow> publication_head_t result" where
  "publication_head m = (case (candidate m, branch_name m) of
     (Some c, Some branch) \<Rightarrow>
       bind_r (case head_repository m of
           Some r \<Rightarrow> Inr r
         | None \<Rightarrow> (case publishing_login m of
             None \<Rightarrow> Inl (StateError ''Publication head needs the run's publishing login'')
           | Some login \<Rightarrow> bind_r (after_slash (issue_repository c)) (\<lambda>name. Inr (login @ ''/'' @ name))))
         (\<lambda>r. Inr \<lparr>head_repository_of = r, head_label = before_slash r @ '':'' @ branch,
            head_same_repository = (casefold r = casefold (issue_repository c))\<rparr>)
   | _ \<Rightarrow> Inl (StateError ''Publication head needs the run's repository and branch''))"

section \<open>Safety events (exceptions.py)\<close>

datatype stop_scope = Scope_global | Scope_publication | Scope_repository | Scope_pull_request

fun scope_value :: "stop_scope \<Rightarrow> string" where
  "scope_value Scope_global = ''global''"
| "scope_value Scope_publication = ''publication''"
| "scope_value Scope_repository = ''repository''"
| "scope_value Scope_pull_request = ''pull_request''"

text \<open>\<open>CircuitBreakerTrigger\<close>: credential-free evidence of one safety event.\<close>

record trigger =
  trig_source :: string
  trig_reason :: string
  trig_hash :: string
  trig_scope :: stop_scope
  trig_scope_key :: string
  trig_expires_at :: "datetime option"
  trig_counts_toward_escalation :: bool

text \<open>\<open>CircuitBreakerTrigger(source=..., reason=..., trigger_hash=...)\<close>, the rest at its defaults.\<close>

definition global_trigger :: "string \<Rightarrow> string \<Rightarrow> string \<Rightarrow> trigger" where
  "global_trigger source reason hash = \<lparr>trig_source = source, trig_reason = reason, trig_hash = hash,
     trig_scope = Scope_global, trig_scope_key = [], trig_expires_at = None,
     trig_counts_toward_escalation = False\<rparr>"

end
