(* ===== verification/Tables.thy ===== *)
theory Tables
  imports Domain
begin

text \<open>
  The SQLite schema of \<open>RunStore._create_schema\<close> as data: one record per table row, one record for
  the state database, and the constraints SQLite enforces on every write.  A table with a primary
  key that is only looked up by key is a map; a table whose order or whole content is read is a list
  (\<open>AUTOINCREMENT\<close> ids are positions).  Stored texts that the code parses on reading (a manifest, a
  timestamp, a status) are kept as the parsed value; texts that enter a hash stay texts.
\<close>

section \<open>Rows\<close>

record run_row =
  row_run_id :: string
  row_status :: run_status
  row_repository :: "string option"
  row_issue_number :: "int option"
  row_created_at :: instant
  row_updated_at :: instant
  row_manifest :: run_manifest
  row_event_count :: int
  row_event_head :: string
  row_issue_revision :: "string option"

record event_row =
  ev_run_id :: string
  ev_occurred_at :: string
  ev_type :: string
  ev_details :: string
  ev_previous_hash :: string
  ev_hash :: string

record lease_row =
  lrow_owner :: string
  lrow_generation :: int
  lrow_acquired_at :: instant
  lrow_heartbeat_at :: instant
  lrow_expires_at :: instant

record breaker_row =
  br_is_tripped :: bool
  br_epoch :: int
  br_changed_at :: instant
  br_source :: "string option"
  br_reason :: "string option"
  br_trigger_hash :: "string option"

datatype breaker_event_type = Trip | Resume

record breaker_event =
  be_epoch :: int
  be_occurred_at :: instant
  be_type :: breaker_event_type
  be_source :: string
  be_reason :: string
  be_trigger_hash :: string

record reservation_row =
  pres_run_id :: string
  pres_repository :: string
  pres_reserved_at :: string

record sync_row =
  sync_updated_at :: instant
  sync_manifest_sha256 :: string

record retry_row =
  retry_authorization_id :: string
  retry_run_id :: string
  retry_repository :: string
  retry_issue_number :: int
  retry_issue_revision :: string
  retry_prior_run_id :: string
  retry_prior_status :: run_status
  retry_actor :: string
  retry_reason :: string
  retry_authorized_at :: instant

record hold_row =
  hold_id :: int
  hold_scope :: stop_scope
  hold_scope_key :: string
  hold_source :: string
  hold_reason :: string
  hold_trigger_hash :: string
  hold_counts_toward_escalation :: bool
  hold_created_at :: instant
  hold_expires_at :: "instant option"
  hold_released :: "(instant \<times> string \<times> string) option"

record streak_row =
  consecutive_runs :: int
  streak_started_at :: "string option"

text \<open>
  The state root: the tables, and beside them the manifest files \<open>runs/<id>/manifest.json\<close> and the
  directories under \<open>workspaces/\<close>, which no transaction covers.
\<close>

record db =
  runs :: "run_row list"
  events :: "event_row list"
  leases :: "string \<Rightarrow> lease_row option"
  lease_generations :: "string \<Rightarrow> int option"
  circuit_breaker :: breaker_row
  circuit_breaker_events :: "breaker_event list"
  publication_reservations :: "reservation_row list"
  manifest_artifact_sync :: "string \<Rightarrow> sync_row option"
  candidate_retry_authorizations :: "retry_row list"
  holds :: "hold_row list"
  secondary_rate_limit_streak :: streak_row
  manifest_files :: "string \<Rightarrow> run_manifest option"
  workspaces :: "string set"

definition zeros :: string where
  "zeros = replicate 64 (CHR ''0'')"

text \<open>The database right after \<open>_create_schema\<close>, whose three singleton rows it inserts.\<close>

definition create_schema :: "instant \<Rightarrow> db" where
  "create_schema clock = \<lparr>runs = [], events = [], leases = Map.empty, lease_generations = Map.empty,
     circuit_breaker = \<lparr>br_is_tripped = False, br_epoch = 1, br_changed_at = clock,
       br_source = None, br_reason = None, br_trigger_hash = None\<rparr>,
     circuit_breaker_events = [], publication_reservations = [], manifest_artifact_sync = Map.empty,
     candidate_retry_authorizations = [], holds = [],
     secondary_rate_limit_streak = \<lparr>consecutive_runs = 0, streak_started_at = None\<rparr>,
     manifest_files = Map.empty, workspaces = {}\<rparr>"

section \<open>Constraints of the runs and events tables\<close>

text \<open>The checks of one row, and the partial unique index \<open>runs_active_candidate_idx\<close>.\<close>

definition run_row_ok :: "run_row \<Rightarrow> bool" where
  "run_row_ok r \<longleftrightarrow> 0 \<le> row_event_count r \<and> is_sha256 (row_event_head r)
     \<and> opt_all is_sha256 (row_issue_revision r)"

definition is_active :: "run_row \<Rightarrow> bool" where
  "is_active r \<longleftrightarrow> row_status r \<notin> candidate_released_statuses"

fun active_key :: "run_row \<Rightarrow> (string \<times> int) list" where
  "active_key r = (case (row_repository r, row_issue_number r) of
     (Some repo, Some n) \<Rightarrow> if is_active r then [(nocase repo, n)] else []
   | _ \<Rightarrow> [])"

declare active_key.simps [simp del]

definition active_keys :: "run_row list \<Rightarrow> (string \<times> int) list" where
  "active_keys rs = concat (map active_key rs)"

definition runs_ok :: "run_row list \<Rightarrow> bool" where
  "runs_ok rs \<longleftrightarrow> distinct (map row_run_id rs) \<and> list_all run_row_ok rs \<and> distinct (active_keys rs)"

definition events_ok :: "event_row list \<Rightarrow> bool" where
  "events_ok es \<longleftrightarrow> distinct (map ev_hash es)"

text \<open>Every statement that writes the runs or the events table commits only within its constraints.\<close>

definition write_runs :: "db \<Rightarrow> run_row list \<Rightarrow> db result" where
  "write_runs d rs = (if runs_ok rs then Inr (d\<lparr>runs := rs\<rparr>)
     else Inl (IntegrityError ''runs''))"

definition insert_event :: "db \<Rightarrow> event_row \<Rightarrow> db result" where
  "insert_event d e =
     (if events_ok (events d @ [e]) \<and> ev_run_id e \<in> row_run_id ` set (runs d)
      then Inr (d\<lparr>events := events d @ [e]\<rparr>) else Inl (IntegrityError ''events''))"

section \<open>Reading and updating the runs table\<close>

text \<open>\<open>SELECT ... FROM runs WHERE run_id = ?\<close>.\<close>

definition find_run :: "db \<Rightarrow> string \<Rightarrow> run_row option" where
  "find_run d rid = List.find (\<lambda>r. row_run_id r = rid) (runs d)"

text \<open>
  \<open>UPDATE runs SET ... WHERE run_id = ? AND guard\<close>: the new rows and \<open>rowcount\<close>.
\<close>

definition update_run :: "run_row list \<Rightarrow> string \<Rightarrow> (run_row \<Rightarrow> bool) \<Rightarrow> (run_row \<Rightarrow> run_row)
    \<Rightarrow> run_row list \<times> nat" where
  "update_run rs rid guard f =
     (map (\<lambda>r. if row_run_id r = rid \<and> guard r then f r else r) rs,
      length (filter (\<lambda>r. row_run_id r = rid \<and> guard r) rs))"

lemma find_run_SomeD: "find_run d rid = Some r \<Longrightarrow> r \<in> set (runs d) \<and> row_run_id r = rid"
  by (auto simp: find_run_def dest: find_SomeD)

lemma find_distinct:
  "distinct (map row_run_id rs) \<Longrightarrow> r \<in> set rs \<Longrightarrow> List.find (\<lambda>x. row_run_id x = row_run_id r) rs = Some r"
  by (induction rs) auto

lemma find_run_Some_iff:
  assumes "runs_ok (runs d)"
  shows "find_run d rid = Some r \<longleftrightarrow> r \<in> set (runs d) \<and> row_run_id r = rid"
  using assms find_distinct [of "runs d" r]
  by (auto simp: find_run_def runs_ok_def dest: find_SomeD)

lemma find_run_None: "find_run d rid = None \<longleftrightarrow> rid \<notin> row_run_id ` set (runs d)"
  by (auto simp: find_run_def find_None)

lemma length_filter_key:
  assumes "distinct (map row_run_id rs)" and "r \<in> set rs"
  shows "length (filter (\<lambda>x. row_run_id x = row_run_id r \<and> g x) rs) = (if g r then 1 else 0)"
  using assms
proof (induction rs)
  case (Cons x rs)
  show ?case
  proof (cases "x = r")
    case True
    with Cons.prems have "row_run_id y \<noteq> row_run_id r" if "y \<in> set rs" for y
      using that by (simp, metis imageI)
    then have "filter (\<lambda>y. row_run_id y = row_run_id r \<and> g y) rs = []"
      by (simp add: filter_empty_conv)
    with True show ?thesis by simp
  next
    case False
    with Cons show ?thesis by auto
  qed
qed simp

lemma find_map_same_key:
  assumes "\<And>r. row_run_id (f r) = row_run_id r"
  shows "List.find (\<lambda>r. row_run_id r = rid) (map f rs) = map_option f (List.find (\<lambda>r. row_run_id r = rid) rs)"
  by (induction rs) (auto simp: assms)

lemma update_run_find:
  assumes "\<And>r. row_run_id (f r) = row_run_id r" and "update_run (runs d) rid g f = (rs, n)"
  shows "List.find (\<lambda>r. row_run_id r = k) rs =
    map_option (\<lambda>r. if k = rid \<and> g r then f r else r) (find_run d k)"
proof -
  have "rs = map (\<lambda>r. if row_run_id r = rid \<and> g r then f r else r) (runs d)"
    using assms(2) by (simp add: update_run_def)
  then have "List.find (\<lambda>r. row_run_id r = k) rs
      = map_option (\<lambda>r. if row_run_id r = rid \<and> g r then f r else r) (find_run d k)"
    by (simp add: find_map_same_key assms(1) find_run_def)
  also have "\<dots> = map_option (\<lambda>r. if k = rid \<and> g r then f r else r) (find_run d k)"
    by (cases "find_run d k") (auto dest: find_run_SomeD)
  finally show ?thesis .
qed

lemma update_run_ids:
  assumes "\<And>r. row_run_id (f r) = row_run_id r" and "update_run rs rid g f = (rs', n)"
  shows "map row_run_id rs' = map row_run_id rs"
  using assms by (auto simp: update_run_def)

end
