(* ===== verification/Leases.thy ===== *)
theory Leases
  imports Tables
begin

text \<open>
  The fenced leases of \<open>store.py\<close>: \<open>acquire_lease\<close>, \<open>heartbeat_lease\<close>, \<open>release_lease\<close>,
  \<open>release_all_leases\<close>, \<open>get_lease\<close>, \<open>assert_lease\<close> and the fence of a candidate claim.  A lease name
  has at most one live row and a generation counter that survives the row.
\<close>

section \<open>Identities and times\<close>

definition max_generation :: int where
  "max_generation = 2 ^ 63 - 1"

text \<open>\<open>_lease_identity\<close>: the stripped text, 1 to 255 characters without NUL.\<close>

definition lease_identity :: "string \<Rightarrow> string \<Rightarrow> string result" where
  "lease_identity v field = (let normalized = strip v in
     if normalized = [] \<or> nul \<in> set normalized \<or> 255 < length normalized then
       Inl (ValueError (field @ '' must be 1-255 non-NUL characters''))
     else Inr normalized)"

definition generation_arg :: "int \<Rightarrow> int result" where
  "generation_arg v = (if 1 \<le> v \<and> v \<le> max_generation then Inr v
     else Inl (ValueError ''lease generation is outside the supported range''))"

definition stored_generation :: "int \<Rightarrow> string \<Rightarrow> int result" where
  "stored_generation v field = (if 1 \<le> v \<and> v \<le> max_generation then Inr v
     else Inl (StateError (''Stored '' @ field @ '' is invalid'')))"

definition lease_expiry :: "instant \<Rightarrow> timedelta \<Rightarrow> instant result" where
  "lease_expiry now ttl =
     (if ttl \<le> 0 then Inl (ValueError ''lease ttl must be positive'')
      else case shift now ttl of
        Inl _ \<Rightarrow> Inl (ValueError ''lease ttl exceeds the supported datetime range'')
      | Inr t \<Rightarrow> Inr t)"

lemma lease_identity_Inr [checks]:
  "lease_identity v f = Inr w \<longleftrightarrow> w = strip v \<and> w \<noteq> [] \<and> nul \<notin> set w \<and> length w \<le> 255"
  by (auto simp: lease_identity_def Let_def)

lemma generation_arg_Inr [checks]: "generation_arg v = Inr w \<longleftrightarrow> w = v \<and> 1 \<le> v \<and> v \<le> max_generation"
  by (auto simp: generation_arg_def)

lemma stored_generation_Inr [checks]:
  "stored_generation v f = Inr w \<longleftrightarrow> w = v \<and> 1 \<le> v \<and> v \<le> max_generation"
  by (auto simp: stored_generation_def)

lemma lease_expiry_Inr [checks]:
  "lease_expiry now ttl = Inr t \<longleftrightarrow> 0 < ttl \<and> t = now + ttl \<and> 0 \<le> t \<and> t \<le> max_instant"
  by (auto simp: lease_expiry_def shift_def split: sum.splits)

lemma aware_utc_Inr [checks]: "aware_utc v f = Inr t \<longleftrightarrow> v = Aware t"
  by (auto simp: aware_utc_def split: datetime.splits)

section \<open>The operations\<close>

record lease =
  lease_name :: string
  lease_owner :: string
  lease_generation :: int
  lease_expires_at :: instant

text \<open>
  The fencing check that every operation on a live row makes: the counter exists, is valid and
  agrees with the row's generation.
\<close>

definition check_fence :: "db \<Rightarrow> string \<Rightarrow> int \<Rightarrow> unit result" where
  "check_fence d n current = (case lease_generations d n of
     None \<Rightarrow> Inl (StateError (''Lease '' @ n @ '' fencing counter is inconsistent''))
   | Some g \<Rightarrow> bind_r (stored_generation g ''generation counter'') (\<lambda>g.
       if g \<noteq> current then Inl (StateError (''Lease '' @ n @ '' fencing counter is inconsistent''))
       else Inr ()))"

text \<open>The first part of \<open>acquire_lease\<close>: no live row, so a fresh generation.\<close>

definition acquire_fresh :: "db \<Rightarrow> string \<Rightarrow> string \<Rightarrow> instant \<Rightarrow> instant \<Rightarrow> (db \<times> lease option) result" where
  "acquire_fresh d n owner acquired requested =
     bind_r (case lease_generations d n of
         None \<Rightarrow> Inr 1
       | Some v \<Rightarrow> bind_r (stored_generation v ''generation counter'') (\<lambda>prior.
           if prior \<ge> max_generation then
             Inl (StateError (''Lease '' @ n @ '' exhausted its fencing generations''))
           else Inr (prior + 1)))
       (\<lambda>g. Inr (d\<lparr>lease_generations := (lease_generations d)(n \<mapsto> g),
                leases := (leases d)(n \<mapsto> \<lparr>lrow_owner = owner, lrow_generation = g,
                  lrow_acquired_at = acquired, lrow_heartbeat_at = acquired, lrow_expires_at = requested\<rparr>)\<rparr>,
            Some \<lparr>lease_name = n, lease_owner = owner, lease_generation = g, lease_expires_at = requested\<rparr>))"

text \<open>The second part: a live row is renewed by its owner or taken over once it has expired.\<close>

definition acquire_live :: "db \<Rightarrow> string \<Rightarrow> string \<Rightarrow> instant \<Rightarrow> instant \<Rightarrow> lease_row
    \<Rightarrow> (db \<times> lease option) result" where
  "acquire_live d n owner acquired requested row =
     bind_r (stored_generation (lrow_generation row) ''generation'') (\<lambda>current.
     bind_r (check_fence d n current) (\<lambda>_.
     if lrow_owner row \<noteq> owner \<and> lrow_expires_at row > acquired then Inr (d, None)
     else
       let takeover = (lrow_expires_at row \<le> acquired) in
       if takeover \<and> current \<ge> max_generation then
         Inl (StateError (''Lease '' @ n @ '' exhausted its fencing generations''))
       else if \<not> takeover \<and> (lrow_owner row \<noteq> owner \<or> acquired < lrow_heartbeat_at row) then Inr (d, None)
       else
         let g = (if takeover then current + 1 else current);
             acq = (if takeover then acquired else lrow_acquired_at row);
             expiry = (if takeover then requested else max (lrow_expires_at row) requested);
             d1 = (if takeover then d\<lparr>lease_generations := (lease_generations d)(n \<mapsto> g)\<rparr> else d)
         in Inr (d1\<lparr>leases := (leases d)(n \<mapsto> \<lparr>lrow_owner = owner, lrow_generation = g,
                  lrow_acquired_at = acq, lrow_heartbeat_at = acquired, lrow_expires_at = expiry\<rparr>)\<rparr>,
              Some \<lparr>lease_name = n, lease_owner = owner, lease_generation = g, lease_expires_at = expiry\<rparr>)))"

definition acquire_lease :: "db \<Rightarrow> string \<Rightarrow> string \<Rightarrow> timedelta \<Rightarrow> datetime option \<Rightarrow> instant
    \<Rightarrow> (db \<times> lease option) result" where
  "acquire_lease d name owner ttl now clock =
     bind_r (lease_identity name ''lease name'') (\<lambda>n.
     bind_r (lease_identity owner ''lease owner'') (\<lambda>owner'.
     bind_r (aware_utc (now_or now clock) ''lease acquisition time'') (\<lambda>acquired.
     bind_r (lease_expiry acquired ttl) (\<lambda>requested.
     case leases d n of
       None \<Rightarrow> acquire_fresh d n owner' acquired requested
     | Some row \<Rightarrow> acquire_live d n owner' acquired requested row))))"

definition heartbeat_lease :: "db \<Rightarrow> string \<Rightarrow> string \<Rightarrow> int \<Rightarrow> timedelta \<Rightarrow> datetime option \<Rightarrow> instant
    \<Rightarrow> (db \<times> lease option) result" where
  "heartbeat_lease d name owner gen ttl now clock =
     bind_r (lease_identity name ''lease name'') (\<lambda>n.
     bind_r (lease_identity owner ''lease owner'') (\<lambda>owner'.
     bind_r (generation_arg gen) (\<lambda>g.
     bind_r (aware_utc (now_or now clock) ''lease heartbeat time'') (\<lambda>beat.
     bind_r (lease_expiry beat ttl) (\<lambda>requested.
     case leases d n of
       None \<Rightarrow> Inr (d, None)
     | Some row \<Rightarrow>
       bind_r (stored_generation (lrow_generation row) ''generation'') (\<lambda>current.
       bind_r (check_fence d n current) (\<lambda>_.
       if lrow_owner row \<noteq> owner' \<or> current \<noteq> g then Inr (d, None)
       else if lrow_expires_at row \<le> beat then Inr (d, None)
       else if beat < lrow_heartbeat_at row then Inr (d, None)
       else
         let expiry = max (lrow_expires_at row) requested
         in Inr (d\<lparr>leases := (leases d)(n \<mapsto> row\<lparr>lrow_heartbeat_at := beat, lrow_expires_at := expiry\<rparr>)\<rparr>,
              Some \<lparr>lease_name = n, lease_owner = owner', lease_generation = g, lease_expires_at = expiry\<rparr>))))))))"

definition release_lease :: "db \<Rightarrow> string \<Rightarrow> string \<Rightarrow> int \<Rightarrow> (db \<times> bool) result" where
  "release_lease d name owner gen =
     bind_r (lease_identity name ''lease name'') (\<lambda>n.
     bind_r (lease_identity owner ''lease owner'') (\<lambda>owner'.
     bind_r (generation_arg gen) (\<lambda>g.
     case leases d n of
       None \<Rightarrow> Inr (d, False)
     | Some row \<Rightarrow>
       bind_r (stored_generation (lrow_generation row) ''generation'') (\<lambda>current.
       bind_r (check_fence d n current) (\<lambda>_.
       if lrow_owner row \<noteq> owner' \<or> current \<noteq> g then Inr (d, False)
       else Inr (d\<lparr>leases := (leases d)(n := None)\<rparr>, True))))))"

text \<open>\<open>DELETE FROM leases\<close>; the counters stay, so a surviving holder is still fenced out.\<close>

definition release_all_leases :: "db \<Rightarrow> db" where
  "release_all_leases d = d\<lparr>leases := Map.empty\<rparr>"

definition get_lease :: "db \<Rightarrow> string \<Rightarrow> lease option result" where
  "get_lease d name =
     bind_r (lease_identity name ''lease name'') (\<lambda>n.
     case leases d n of
       None \<Rightarrow> Inr None
     | Some row \<Rightarrow>
       bind_r (stored_generation (lrow_generation row) ''generation'') (\<lambda>g.
       bind_r (check_fence d n g) (\<lambda>_.
       Inr (Some \<lparr>lease_name = n, lease_owner = lrow_owner row, lease_generation = g,
         lease_expires_at = lrow_expires_at row\<rparr>))))"

definition assert_lease :: "db \<Rightarrow> string \<Rightarrow> string \<Rightarrow> int \<Rightarrow> datetime option \<Rightarrow> instant \<Rightarrow> lease result" where
  "assert_lease d name owner gen now clock =
     bind_r (lease_identity name ''lease name'') (\<lambda>n.
     bind_r (lease_identity owner ''lease owner'') (\<lambda>owner'.
     bind_r (generation_arg gen) (\<lambda>g.
     bind_r (aware_utc (now_or now clock) ''lease check time'') (\<lambda>checked.
     bind_r (get_lease d n) (\<lambda>found. case found of
       None \<Rightarrow> Inl (StateError (''Lease '' @ n @ '' is no longer owned by this worker''))
     | Some l \<Rightarrow>
       if lease_owner l \<noteq> owner' \<or> lease_generation l \<noteq> g \<or> lease_expires_at l \<le> checked then
         Inl (StateError (''Lease '' @ n @ '' is no longer owned by this worker''))
       else Inr l)))))"

text \<open>\<open>_assert_candidate_claim_lease\<close>: the fence inside the transaction of a candidate claim.\<close>

definition candidate_claim_lease_name :: string where
  "candidate_claim_lease_name = ''autocontribute.run''"

definition assert_candidate_claim_lease :: "db \<Rightarrow> lease \<Rightarrow> instant \<Rightarrow> unit result" where
  "assert_candidate_claim_lease d l checked =
     (if lease_name l \<noteq> candidate_claim_lease_name then
        Inl (StateError ''Candidate claim uses the wrong lease'')
      else case leases d (lease_name l) of
        None \<Rightarrow> Inl (StateError ''Candidate claim lease is no longer active'')
      | Some row \<Rightarrow>
        bind_r (stored_generation (lrow_generation row) ''candidate claim lease generation'') (\<lambda>stored.
        bind_r (case lease_generations d (lease_name l) of
            None \<Rightarrow> Inl (StateError ''Stored candidate claim lease generation counter is invalid'')
          | Some c \<Rightarrow> stored_generation c ''candidate claim lease generation counter'') (\<lambda>counter.
        if lrow_owner row \<noteq> lease_owner l \<or> stored \<noteq> lease_generation l \<or> counter \<noteq> lease_generation l
           \<or> lrow_expires_at row \<le> checked then
          Inl (StateError ''Candidate claim lease ownership was lost'')
        else Inr ())))"

section \<open>Invariant\<close>

text \<open>The counter of a live row exists and is the row's generation; every counter is in range.\<close>

definition lease_wf :: "db \<Rightarrow> bool" where
  "lease_wf d \<longleftrightarrow> (\<forall>n row. leases d n = Some row \<longrightarrow> lease_generations d n = Some (lrow_generation row))
     \<and> (\<forall>n g. lease_generations d n = Some g \<longrightarrow> 1 \<le> g \<and> g \<le> max_generation)"

lemma lease_wf_create [simp]: "lease_wf (create_schema t)"
  by (simp add: lease_wf_def create_schema_def)

lemma check_fence_Inr [checks]:
  "check_fence d n g = Inr u \<longleftrightarrow> lease_generations d n = Some g \<and> 1 \<le> g \<and> g \<le> max_generation"
  by (auto simp: check_fence_def result_simps checks split: option.splits if_splits)

text \<open>
  When a lease may be granted: over no row with the next generation, over an expired row with the
  next generation, or to the owner of a live row again, never with an earlier expiry.
\<close>

definition grant_allowed :: "db \<Rightarrow> lease \<Rightarrow> instant \<Rightarrow> bool" where
  "grant_allowed d l t \<longleftrightarrow> (case leases d (lease_name l) of
     None \<Rightarrow> (case lease_generations d (lease_name l) of
         None \<Rightarrow> lease_generation l = 1
       | Some g \<Rightarrow> lease_generation l = g + 1)
   | Some row \<Rightarrow> lease_generations d (lease_name l) = Some (lrow_generation row) \<and>
       (if lrow_expires_at row \<le> t then lease_generation l = lrow_generation row + 1
        else lease_generation l = lrow_generation row \<and> lrow_owner row = lease_owner l
          \<and> lrow_heartbeat_at row \<le> t \<and> lrow_expires_at row \<le> lease_expires_at l))"

text \<open>The two ways an acquisition can return, and the state it leaves.\<close>

lemma acquire_lease_cases:
  assumes "acquire_lease d name owner ttl now clock = Inr (d', r)"
  obtains (declined) row t where "r = None" and "d' = d" and "leases d (strip name) = Some row"
      and "now_or now clock = Aware t"
      and "lrow_owner row \<noteq> strip owner \<and> t < lrow_expires_at row \<or> t < lrow_heartbeat_at row"
  | (granted) l t acq where "r = Some l" and "lease_name l = strip name" and "lease_owner l = strip owner"
      and "now_or now clock = Aware t" and "grant_allowed d l t"
      and "1 \<le> lease_generation l" and "lease_generation l \<le> max_generation"
      and "t + ttl \<le> lease_expires_at l" and "0 < ttl"
      and "d' = d\<lparr>lease_generations := (lease_generations d)(lease_name l \<mapsto> lease_generation l),
         leases := (leases d)(lease_name l \<mapsto> \<lparr>lrow_owner = lease_owner l,
           lrow_generation = lease_generation l, lrow_acquired_at = acq, lrow_heartbeat_at = t,
           lrow_expires_at = lease_expires_at l\<rparr>)\<rparr>"
proof (cases "leases d (strip name)")
  case None
  show thesis
  proof (cases "lease_generations d (strip name)")
    case n: None
    with assms None show thesis
      by (auto simp: acquire_lease_def acquire_fresh_def result_simps checks max_generation_def
          grant_allowed_def intro!: granted)
  next
    case s: (Some g)
    with assms None show thesis
      by (auto simp: acquire_lease_def acquire_fresh_def result_simps checks
          grant_allowed_def split: if_splits intro!: granted)
  qed
next
  case (Some row)
  from assms Some obtain t requested where t: "now_or now clock = Aware t" "requested = t + ttl" "0 < ttl"
    and a: "acquire_live d (strip name) (strip owner) t requested row = Inr (d', r)"
    by (auto simp: acquire_lease_def result_simps checks)
  from a have g: "lease_generations d (strip name) = Some (lrow_generation row)"
    "1 \<le> lrow_generation row" "lrow_generation row \<le> max_generation"
    by (auto simp: acquire_live_def result_simps checks)
  show thesis
  proof (cases "lrow_expires_at row \<le> t")
    case True
    with a g Some t show thesis
      by (auto simp: acquire_live_def result_simps checks Let_def grant_allowed_def
          split: if_splits intro!: granted)
  next
    case False
    with a g have "r = None \<and> d' = d \<and>
        (lrow_owner row \<noteq> strip owner \<and> t < lrow_expires_at row \<or> t < lrow_heartbeat_at row)
      \<or> \<not> (lrow_owner row \<noteq> strip owner \<or> t < lrow_heartbeat_at row)"
      by (auto simp: acquire_live_def result_simps checks Let_def split: if_splits)
    then show thesis
    proof
      assume "r = None \<and> d' = d \<and>
        (lrow_owner row \<noteq> strip owner \<and> t < lrow_expires_at row \<or> t < lrow_heartbeat_at row)"
      with declined Some t show thesis by blast
    next
      assume own: "\<not> (lrow_owner row \<noteq> strip owner \<or> t < lrow_heartbeat_at row)"
      have gens: "(lease_generations d)(strip name \<mapsto> lrow_generation row) = lease_generations d"
        using g(1) by (rule map_upd_triv)
      from own False a g Some t show thesis
        by (intro granted [of "\<lparr>lease_name = strip name, lease_owner = strip owner,
              lease_generation = lrow_generation row, lease_expires_at = max (lrow_expires_at row) requested\<rparr>" t
              "lrow_acquired_at row"])
           (auto simp: acquire_live_def result_simps checks Let_def grant_allowed_def gens)
    qed
  qed
qed

lemma heartbeat_leaseD:
  assumes "heartbeat_lease d name owner gen ttl now clock = Inr (d', r)"
  shows "(r = None \<and> d' = d) \<or> (\<exists>row l t. leases d (strip name) = Some row \<and> r = Some l \<and> now_or now clock = Aware t
      \<and> lrow_owner row = strip owner \<and> lrow_generation row = gen \<and> lease_generations d (strip name) = Some gen
      \<and> t < lrow_expires_at row \<and> lrow_expires_at row \<le> lease_expires_at l
      \<and> lease_name l = strip name \<and> lease_owner l = strip owner \<and> lease_generation l = gen
      \<and> d' = d\<lparr>leases := (leases d)(strip name \<mapsto>
           row\<lparr>lrow_heartbeat_at := t, lrow_expires_at := lease_expires_at l\<rparr>)\<rparr>)"
  using assms
  by (auto simp: heartbeat_lease_def result_simps checks Let_def split: option.splits if_splits)

lemma release_leaseD:
  assumes "release_lease d name owner gen = Inr (d', b)"
  shows "(\<not> b \<and> d' = d) \<or> (b \<and> d' = d\<lparr>leases := (leases d)(strip name := None)\<rparr>
      \<and> (\<exists>row. leases d (strip name) = Some row \<and> lrow_owner row = strip owner \<and> lrow_generation row = gen))"
  using assms
  by (auto simp: release_lease_def result_simps checks split: option.splits if_splits)

lemma acquire_lease_wf:
  assumes "acquire_lease d name owner ttl now clock = Inr (d', r)" and "lease_wf d"
  shows "lease_wf d'"
  using assms(1) assms(2)
  by (cases rule: acquire_lease_cases)
     (auto simp: lease_wf_def split: if_splits)

lemma heartbeat_lease_wf:
  assumes "heartbeat_lease d name owner gen ttl now clock = Inr (d', r)" and "lease_wf d"
  shows "lease_wf d'"
  using heartbeat_leaseD [OF assms(1)] assms(2)
  by (auto simp: lease_wf_def split: if_splits)

lemma release_lease_wf:
  assumes "release_lease d name owner gen = Inr (d', b)" and "lease_wf d"
  shows "lease_wf d'"
  using release_leaseD [OF assms(1)] assms(2)
  by (auto simp: lease_wf_def split: if_splits)

section \<open>Histories\<close>

text \<open>
  One step of some process on the lease tables, with the lease it was granted, if any.  Every other
  operation of the store leaves these tables alone.
\<close>

inductive lease_step :: "db \<Rightarrow> lease option \<Rightarrow> db \<Rightarrow> bool" where
  acquire: "acquire_lease d name owner ttl now clock = Inr (d', r) \<Longrightarrow> lease_step d r d'"
| heartbeat: "heartbeat_lease d name owner gen ttl now clock = Inr (d', r) \<Longrightarrow> lease_step d r d'"
| release: "release_lease d name owner gen = Inr (d', b) \<Longrightarrow> lease_step d None d'"
| release_all: "lease_step d None (release_all_leases d)"
| other: "leases d' = leases d \<Longrightarrow> lease_generations d' = lease_generations d \<Longrightarrow> lease_step d None d'"

text \<open>A history from a state, with the leases granted in it, newest first.\<close>

inductive lease_history :: "db \<Rightarrow> lease list \<Rightarrow> db \<Rightarrow> bool" where
  empty: "lease_history d [] d"
| refused: "lease_history d gs d1 \<Longrightarrow> lease_step d1 None d2 \<Longrightarrow> lease_history d gs d2"
| granted: "lease_history d gs d1 \<Longrightarrow> lease_step d1 (Some l) d2 \<Longrightarrow> lease_history d (l # gs) d2"

lemma lease_step_wf: "lease_step d r d' \<Longrightarrow> lease_wf d \<Longrightarrow> lease_wf d'"
proof (induction rule: lease_step.induct)
  case (other d' d)
  then show ?case by (simp add: lease_wf_def)
next
  case (release_all d)
  then show ?case by (simp add: lease_wf_def release_all_leases_def)
qed (rule acquire_lease_wf heartbeat_lease_wf release_lease_wf; assumption)+

lemma lease_history_wf: "lease_history d gs d' \<Longrightarrow> lease_wf d \<Longrightarrow> lease_wf d'"
  by (induction rule: lease_history.induct) (auto intro: lease_step_wf)

text \<open>Counters never go back.\<close>

lemma lease_step_counter:
  assumes "lease_step d r d'" and "lease_wf d" and "lease_generations d n = Some g"
  shows "\<exists>g'. lease_generations d' n = Some g' \<and> g \<le> g'"
  using assms
proof (induction rule: lease_step.induct)
  case (acquire d name owner ttl now clock d' r)
  from acquire.hyps acquire.prems show ?case
    by (cases rule: acquire_lease_cases) (auto simp: grant_allowed_def lease_wf_def split: option.splits if_splits)
next
  case (heartbeat d name owner gen ttl now clock d' r)
  from heartbeat_leaseD [OF heartbeat.hyps] heartbeat.prems show ?case by auto
next
  case (release d name owner gen d' b)
  from release_leaseD [OF release.hyps] release.prems show ?case by auto
qed (auto simp: release_all_leases_def)

lemma lease_history_counter:
  assumes "lease_history d gs d'" and "lease_wf d" and "lease_generations d n = Some g"
  shows "\<exists>g'. lease_generations d' n = Some g' \<and> g \<le> g'"
  using assms
proof (induction rule: lease_history.induct)
  case (refused d gs d1 d2)
  then show ?case
    using lease_step_counter [OF refused.hyps(2) lease_history_wf [OF refused.hyps(1)]] by force
next
  case (granted d gs d1 l d2)
  then show ?case
    using lease_step_counter [OF granted.hyps(2) lease_history_wf [OF granted.hyps(1)]] by force
qed simp

text \<open>What every grant of a history has established about the state it ends in.\<close>

definition grant_seen :: "db \<Rightarrow> lease \<Rightarrow> bool" where
  "grant_seen d l \<longleftrightarrow> (\<exists>c. lease_generations d (lease_name l) = Some c \<and> lease_generation l \<le> c)
     \<and> (\<forall>row. leases d (lease_name l) = Some row \<longrightarrow> lrow_generation row = lease_generation l
          \<longrightarrow> lrow_owner row = lease_owner l)"

definition same_owner :: "lease \<Rightarrow> lease \<Rightarrow> bool" where
  "same_owner l m \<longleftrightarrow> (lease_name l = lease_name m \<and> lease_generation l = lease_generation m
     \<longrightarrow> lease_owner l = lease_owner m)"

definition grants_ok :: "lease list \<Rightarrow> db \<Rightarrow> bool" where
  "grants_ok gs d \<longleftrightarrow> (\<forall>l\<in>set gs. grant_seen d l) \<and> (\<forall>l\<in>set gs. \<forall>m\<in>set gs. same_owner l m)"

lemma same_owner_refl [simp]: "same_owner l l" and same_owner_sym: "same_owner l m \<Longrightarrow> same_owner m l"
  by (auto simp: same_owner_def)

lemma acquire_lease_grant:
  assumes "acquire_lease d name owner ttl now clock = Inr (d', Some l)"
  shows "\<exists>row. leases d' (lease_name l) = Some row \<and> lrow_owner row = lease_owner l
      \<and> lrow_generation row = lease_generation l"
  using assms by (cases rule: acquire_lease_cases) auto

text \<open>
  A step keeps what the earlier grants have established; the row of a lease only ever changes owner
  together with its generation.
\<close>

lemma lease_step_row:
  assumes "lease_step d r d'" and "lease_wf d" and "leases d' n = Some row'"
  shows "(\<exists>row. leases d n = Some row \<and> lrow_owner row' = lrow_owner row \<and> lrow_generation row' = lrow_generation row)
    \<or> (case lease_generations d n of None \<Rightarrow> True | Some c \<Rightarrow> c < lrow_generation row')"
  using assms
proof (induction rule: lease_step.induct)
  case (acquire d name owner ttl now clock d' r)
  from acquire.hyps acquire.prems show ?case
    by (cases rule: acquire_lease_cases) (auto simp: grant_allowed_def split: option.splits if_splits)
next
  case (heartbeat d name owner gen ttl now clock d' r)
  from heartbeat_leaseD [OF heartbeat.hyps] heartbeat.prems show ?case by (auto split: if_splits)
next
  case (release d name owner gen d' b)
  from release_leaseD [OF release.hyps] release.prems show ?case by (auto split: if_splits)
next
  case (release_all d)
  then show ?case by (simp add: release_all_leases_def)
qed simp

lemma lease_step_grant:
  assumes "lease_step d (Some l) d'" and "lease_wf d"
  shows "\<exists>row. leases d' (lease_name l) = Some row \<and> lrow_owner row = lease_owner l
      \<and> lrow_generation row = lease_generation l"
  using assms
proof (cases rule: lease_step.cases)
  case (acquire name owner ttl now clock)
  then show ?thesis using acquire_lease_grant by blast
next
  case (heartbeat name owner gen ttl now clock)
  then show ?thesis by (auto dest!: heartbeat_leaseD)
qed

lemma grant_seen_step:
  assumes g: "grant_seen d l" and s: "lease_step d r d'" and wf: "lease_wf d"
  shows "grant_seen d' l"
  unfolding grant_seen_def
proof (intro conjI allI impI)
  obtain c where c: "lease_generations d (lease_name l) = Some c" "lease_generation l \<le> c"
    using g by (auto simp: grant_seen_def)
  with lease_step_counter [OF s wf c(1)]
  show "\<exists>c. lease_generations d' (lease_name l) = Some c \<and> lease_generation l \<le> c" by force
  fix row assume row: "leases d' (lease_name l) = Some row" "lrow_generation row = lease_generation l"
  from lease_step_row [OF s wf row(1)] c row(2) obtain row0 where
    "leases d (lease_name l) = Some row0" "lrow_owner row = lrow_owner row0" "lrow_generation row0 = lease_generation l"
    by auto
  then show "lrow_owner row = lease_owner l" using g by (simp add: grant_seen_def)
qed

lemma grant_seen_new:
  assumes s: "lease_step d (Some l) d'" and wf: "lease_wf d"
  shows "grant_seen d' l" and "grant_seen d' m \<Longrightarrow> same_owner l m"
proof -
  obtain row where row: "leases d' (lease_name l) = Some row" "lrow_owner row = lease_owner l"
    "lrow_generation row = lease_generation l"
    using lease_step_grant [OF s wf] by blast
  with lease_step_wf [OF s wf] show "grant_seen d' l"
    by (auto simp: lease_wf_def grant_seen_def)
  from row show "same_owner l m" if "grant_seen d' m"
    using that by (auto simp: grant_seen_def same_owner_def)
qed

lemma lease_history_grants:
  "lease_history d gs d' \<Longrightarrow> lease_wf d \<Longrightarrow> grants_ok gs d'"
proof (induction rule: lease_history.induct)
  case (refused d gs d1 d2)
  have "lease_wf d1" by (rule lease_history_wf [OF refused.hyps(1) refused.prems])
  with refused show ?case by (auto simp: grants_ok_def intro: grant_seen_step)
next
  case (granted d gs d1 l d2)
  have wf: "lease_wf d1" by (rule lease_history_wf [OF granted.hyps(1) granted.prems])
  have seen: "grant_seen d2 m" if "m \<in> set gs" for m
    using granted that wf by (auto simp: grants_ok_def intro: grant_seen_step)
  then have "same_owner l m" if "m \<in> set gs" for m
    using grant_seen_new(2) [OF granted.hyps(2) wf] that by blast
  with seen grant_seen_new(1) [OF granted.hyps(2) wf] granted show ?case
    by (auto simp: grants_ok_def intro: same_owner_sym)
qed (simp add: grants_ok_def)

section \<open>Properties\<close>

text \<open>
  A later state is one reached by any history.  Once a counter has moved past a generation, that
  generation is dead for good.
\<close>

lemma get_lease_fence:
  assumes "get_lease d name = Inr (Some l)"
  shows "lease_generations d (strip name) = Some (lease_generation l)"
    and "\<exists>row. leases d (strip name) = Some row \<and> lrow_generation row = lease_generation l
      \<and> lrow_owner row = lease_owner l \<and> lrow_expires_at row = lease_expires_at l"
  using assms by (auto simp: get_lease_def result_simps checks split: option.splits)

lemma assert_lease_fence:
  assumes "assert_lease d name owner g now clock = Inr l"
  shows "lease_generations d (strip name) = Some g"
    and "\<exists>row t. leases d (strip name) = Some row \<and> lrow_owner row = strip owner
       \<and> lrow_generation row = g \<and> now_or now clock = Aware t \<and> t < lrow_expires_at row"
proof -
  from assms obtain found t where f: "get_lease d (strip name) = Inr (Some found)"
    "lease_owner found = strip owner" "lease_generation found = g" "now_or now clock = Aware t"
    "t < lease_expires_at found"
    by (auto simp: assert_lease_def result_simps checks split: option.splits if_splits)
  from get_lease_fence [OF f(1)] f show "lease_generations d (strip name) = Some g"
    and "\<exists>row t. leases d (strip name) = Some row \<and> lrow_owner row = strip owner
       \<and> lrow_generation row = g \<and> now_or now clock = Aware t \<and> t < lrow_expires_at row"
    by auto
qed

text \<open>Concrete states for the examples: one lease on the name \<open>run\<close>.\<close>

definition sample_db :: "string \<Rightarrow> int \<Rightarrow> instant \<Rightarrow> instant \<Rightarrow> db" where
  "sample_db owner g t e = (create_schema 0)\<lparr>leases := [''run'' \<mapsto> \<lparr>lrow_owner = owner, lrow_generation = g,
     lrow_acquired_at = t, lrow_heartbeat_at = t, lrow_expires_at = e\<rparr>], lease_generations := [''run'' \<mapsto> g]\<rparr>"

abbreviation sample_lease :: "string \<Rightarrow> int \<Rightarrow> instant \<Rightarrow> lease" where
  "sample_lease owner g e \<equiv>
     \<lparr>lease_name = ''run'', lease_owner = owner, lease_generation = g, lease_expires_at = e\<rparr>"

lemmas lease_eval = lease_identity_def strip_def rstrip_def is_space_def nul_char now_or_def aware_utc_def
  lease_expiry_def shift_def create_schema_def sample_db_def max_instant_def max_generation_def
  stored_generation_def check_fence_def day_def second_def

lemma sample_strip [simp]: "strip ''run'' = ''run''" "strip ''w1'' = ''w1''" "strip ''w2'' = ''w2''"
  by (simp_all add: lease_eval)

lemma sample_acquire:
  "acquire_lease (create_schema 0) ''run'' ''w1'' 10 (Some (Aware 0)) 0
     = Inr (sample_db ''w1'' 1 0 10, Some (sample_lease ''w1'' 1 10))"
  by (simp add: acquire_lease_def acquire_fresh_def lease_eval)

lemma sample_takeover:
  "acquire_lease (sample_db ''w1'' 1 0 10) ''run'' ''w2'' 10 (Some (Aware 10)) 0
     = Inr (sample_db ''w2'' 2 10 20, Some (sample_lease ''w2'' 2 20))"
  by (simp add: acquire_lease_def acquire_live_def lease_eval)

lemma sample_renewal:
  "acquire_lease (sample_db ''w1'' 1 0 10) ''run'' ''w1'' 10 (Some (Aware 5)) 0
     = Inr ((sample_db ''w1'' 1 0 10)\<lparr>leases := [''run'' \<mapsto> \<lparr>lrow_owner = ''w1'', lrow_generation = 1,
         lrow_acquired_at = 0, lrow_heartbeat_at = 5, lrow_expires_at = 15\<rparr>]\<rparr>, Some (sample_lease ''w1'' 1 15))"
  by (simp add: acquire_lease_def acquire_live_def lease_eval)

lemma sample_history:
  "lease_history (create_schema 0) [sample_lease ''w2'' 2 20, sample_lease ''w1'' 1 10] (sample_db ''w2'' 2 10 20)"
  by (rule lease_history.granted [OF lease_history.granted [OF lease_history.empty]])
     (rule lease_step.acquire [OF sample_acquire] lease_step.acquire [OF sample_takeover])+

text \<open>
  In every history of lease operations from an empty database, a fencing generation of a
  lease name belongs to one owner only.
\<close>

theorem lease_generation_unique:
  assumes "lease_history (create_schema t) gs d" and "l \<in> set gs" and "m \<in> set gs"
    and "lease_name l = lease_name m" and "lease_generation l = lease_generation m"
  shows "lease_owner l = lease_owner m"
proof -
  have "grants_ok gs d" by (rule lease_history_grants [OF assms(1) lease_wf_create])
  then have "same_owner l m" using assms(2,3) by (simp add: grants_ok_def)
  with assms(4,5) show ?thesis by (simp add: same_owner_def)
qed

lemma lease_generation_unique_witness:
  "lease_owner (sample_lease ''w1'' 1 15) = lease_owner (sample_lease ''w1'' 1 10)"
  by (rule lease_generation_unique [OF lease_history.granted [OF lease_history.granted
        [OF lease_history.empty lease_step.acquire [OF sample_acquire]]
        lease_step.acquire [OF sample_renewal]]]) simp_all

text \<open>
  Once the fencing counter of a name has passed a generation, no later state of any history
  lets a holder of that generation pass assert_lease, extend the lease by a heartbeat or release
  it.
\<close>

theorem lease_fenced_out:
  assumes "lease_history d gs d'" and "lease_wf d"
    and "lease_generations d (strip name) = Some c" and "g < c"
  shows "assert_lease d' name owner g now clock \<noteq> Inr l
    \<and> heartbeat_lease d' name owner g ttl now clock \<noteq> Inr (d2, Some l)
    \<and> release_lease d' name owner g \<noteq> Inr (d2, True)"
proof -
  obtain c' where c': "lease_generations d' (strip name) = Some c'" "c \<le> c'"
    using lease_history_counter [OF assms(1-3)] by blast
  have wf: "lease_wf d'" by (rule lease_history_wf [OF assms(1,2)])
  have "assert_lease d' name owner g now clock \<noteq> Inr l"
    using assert_lease_fence(1) c' assms(4) by fastforce
  moreover have "heartbeat_lease d' name owner g ttl now clock \<noteq> Inr (d2, Some l)"
    using c' assms(4) by (auto dest!: heartbeat_leaseD)
  moreover have "release_lease d' name owner g \<noteq> Inr (d2, True)"
    using c' assms(4) wf by (auto dest!: release_leaseD simp: lease_wf_def)
  ultimately show ?thesis by blast
qed

lemma lease_fenced_out_witness:
  "assert_lease (sample_db ''w2'' 2 10 20) ''run'' ''w1'' 1 None 11 \<noteq> Inr (sample_lease ''w1'' 1 10)
    \<and> heartbeat_lease (sample_db ''w2'' 2 10 20) ''run'' ''w1'' 1 10 None 11
         \<noteq> Inr (create_schema 0, Some (sample_lease ''w1'' 1 10))
    \<and> release_lease (sample_db ''w2'' 2 10 20) ''run'' ''w1'' 1 \<noteq> Inr (create_schema 0, True)"
proof (rule lease_fenced_out [OF lease_history.empty])
  show "lease_wf (sample_db ''w2'' 2 10 20)"
    by (rule lease_history_wf [OF sample_history lease_wf_create])
  show "lease_generations (sample_db ''w2'' 2 10 20) (strip ''run'') = Some 2"
    by (simp add: sample_db_def)
qed simp

text \<open>
  What other processes may do while a lease of \<open>owner\<close> on \<open>n\<close> runs until \<open>e\<close>: anything but a
  release by that owner, the removal of all leases, or an acquisition dated after \<open>e\<close>.
\<close>

inductive during_lease :: "string \<Rightarrow> string \<Rightarrow> instant \<Rightarrow> db \<Rightarrow> db \<Rightarrow> bool" for n holder e where
  start: "during_lease n holder e d d"
| acquire: "during_lease n holder e d d1 \<Longrightarrow> acquire_lease d1 name owner ttl now clock = Inr (d2, r)
    \<Longrightarrow> now_or now clock = Aware t \<Longrightarrow> t < e \<Longrightarrow> during_lease n holder e d d2"
| heartbeat: "during_lease n holder e d d1 \<Longrightarrow> heartbeat_lease d1 name owner gen ttl now clock = Inr (d2, r)
    \<Longrightarrow> during_lease n holder e d d2"
| release: "during_lease n holder e d d1 \<Longrightarrow> release_lease d1 name owner gen = Inr (d2, b)
    \<Longrightarrow> strip owner \<noteq> holder \<Longrightarrow> during_lease n holder e d d2"
| other: "during_lease n holder e d d1 \<Longrightarrow> leases d2 = leases d1 \<Longrightarrow> lease_generations d2 = lease_generations d1
    \<Longrightarrow> during_lease n holder e d d2"

definition held_by :: "db \<Rightarrow> lease \<Rightarrow> bool" where
  "held_by d l \<longleftrightarrow> (\<exists>row. leases d (lease_name l) = Some row \<and> lrow_owner row = lease_owner l
     \<and> lrow_generation row = lease_generation l \<and> lease_expires_at l \<le> lrow_expires_at row)
     \<and> lease_generations d (lease_name l) = Some (lease_generation l)"

lemma held_during:
  assumes "during_lease (lease_name l) (lease_owner l) (lease_expires_at l) d d'" and "held_by d l"
  shows "held_by d' l"
  using assms
proof (induction rule: during_lease.induct)
  case (acquire d d1 name owner ttl now clock d2 r t)
  then have h: "held_by d1 l" by simp
  from acquire.hyps(2) show ?case
  proof (cases rule: acquire_lease_cases)
    case (granted m t' acq)
    with acquire.hyps h show ?thesis
      by (auto simp: held_by_def grant_allowed_def split: if_splits)
  qed (use h in simp)
next
  case (heartbeat d d1 name owner gen ttl now clock d2 r)
  then show ?case by (auto dest!: heartbeat_leaseD simp: held_by_def)
next
  case (release d d1 name owner gen d2 b)
  then show ?case by (auto dest!: release_leaseD simp: held_by_def)
qed (simp_all add: held_by_def)

lemma acquired_held: "acquire_lease d name owner ttl now clock = Inr (d', Some l) \<Longrightarrow> held_by d' l"
  by (erule acquire_lease_cases) (auto simp: held_by_def)

lemma acquired_names:
  "acquire_lease d name owner ttl now clock = Inr (d', Some l) \<Longrightarrow>
     lease_name l = strip name \<and> lease_owner l = strip owner"
  by (erule acquire_lease_cases) auto

text \<open>
  C1. While a lease granted by acquire_lease runs (until its expiry, and unless its owner
  releases it or all leases are dropped), no other owner can acquire the name or pass
  assert_lease, and the owner itself always passes assert_lease, whatever acquisitions,
  heartbeats and releases other processes make meanwhile.
\<close>

theorem lease_exclusive:
  assumes "acquire_lease d name owner ttl now clock = Inr (d1, Some l)"
    and "during_lease (strip name) (strip owner) (lease_expires_at l) d1 d2"
    and "t < lease_expires_at l" and "strip other \<noteq> strip owner"
  shows "acquire_lease d2 name other ttl' (Some (Aware t)) clock' \<noteq> Inr (d3, Some m)
    \<and> assert_lease d2 name other g (Some (Aware t)) clock' \<noteq> Inr m'
    \<and> returns (assert_lease d2 name owner (lease_generation l) (Some (Aware t)) clock')"
proof -
  have h: "held_by d2 l"
    using held_during acquired_held [OF assms(1)] assms(2) acquired_names [OF assms(1)] by metis
  then obtain row where row: "leases d2 (strip name) = Some row" "lrow_owner row = strip owner"
    "lrow_generation row = lease_generation l" "lease_expires_at l \<le> lrow_expires_at row"
    "lease_generations d2 (strip name) = Some (lease_generation l)"
    using acquired_names [OF assms(1)] by (auto simp: held_by_def)
  have ok: "lease_identity name ''lease name'' = Inr (strip name)"
    "lease_identity owner ''lease owner'' = Inr (strip owner)"
    using assms(1) by (auto simp: acquire_lease_def result_simps checks)
  have gen: "1 \<le> lease_generation l" "lease_generation l \<le> max_generation"
    using assms(1) by (auto elim!: acquire_lease_cases)
  have "acquire_lease d2 name other ttl' (Some (Aware t)) clock' \<noteq> Inr (d3, Some m)"
    using row assms(3,4) by (auto simp: now_or_def grant_allowed_def elim!: acquire_lease_cases split: if_splits)
  moreover have "assert_lease d2 name other g (Some (Aware t)) clock' \<noteq> Inr m'"
    using row assms(4) by (auto dest: assert_lease_fence(2))
  moreover have "get_lease d2 (strip name) = Inr (Some \<lparr>lease_name = strip name, lease_owner = strip owner,
      lease_generation = lease_generation l, lease_expires_at = lrow_expires_at row\<rparr>)"
    using row ok gen by (auto simp: get_lease_def result_simps checks)
  then have "returns (assert_lease d2 name owner (lease_generation l) (Some (Aware t)) clock')"
    using row ok gen assms(3) by (auto simp: assert_lease_def generation_arg_def now_or_def aware_utc_def)
  ultimately show ?thesis by blast
qed

lemma lease_exclusive_witness:
  "acquire_lease (sample_db ''w1'' 1 0 10) ''run'' ''w2'' 5 (Some (Aware 9)) 0
       \<noteq> Inr (create_schema 0, Some (sample_lease ''w2'' 2 14))
    \<and> assert_lease (sample_db ''w1'' 1 0 10) ''run'' ''w2'' 1 (Some (Aware 9)) 0 \<noteq> Inr (sample_lease ''w2'' 1 14)
    \<and> returns (assert_lease (sample_db ''w1'' 1 0 10) ''run'' ''w1'' (lease_generation (sample_lease ''w1'' 1 10))
         (Some (Aware 9)) 0)"
  by (rule lease_exclusive [OF sample_acquire during_lease.start]) simp_all

end
