(* ===== verification/Coordination.thy ===== *)
theory Coordination
  imports Leases
begin

text \<open>
  \<open>coordination.py\<close>: the guard that owns one fenced lease, renews it from a background thread and
  reports the loss of ownership at the next work boundary.  Its four operations and one iteration of
  the thread are steps on the pair of the store and the guard; they call the lease operations of the
  store, which are the parameters of the definitions and the interface \<open>lease_service\<close>.
\<close>

section \<open>The guard\<close>

record guard =
  guard_name :: string
  guard_owner :: string
  guard_ttl :: timedelta
  guard_interval :: timedelta
  guard_stop :: bool
  guard_thread :: bool
  guard_lease :: "lease option"
  guard_lost :: "string option"

text \<open>\<open>__init__\<close>; \<open>fresh\<close> is the owner text made of a new uuid, used when none is given.\<close>

definition new_guard :: "string \<Rightarrow> timedelta \<Rightarrow> timedelta \<Rightarrow> string option \<Rightarrow> string \<Rightarrow> guard result" where
  "new_guard name ttl interval owner fresh =
     (if ttl \<le> 0 then Inl (ValueError ''lease ttl must be positive'')
      else if \<not> (0 < interval \<and> interval < ttl) then
        Inl (ValueError ''heartbeat interval must be positive and shorter than the lease ttl'')
      else Inr \<lparr>guard_name = name,
        guard_owner = (case owner of None \<Rightarrow> fresh | Some x \<Rightarrow> if x = [] then fresh else x),
        guard_ttl = ttl, guard_interval = interval, guard_stop = False, guard_thread = False,
        guard_lease = None, guard_lost = None\<rparr>)"

text \<open>\<open>_mark_lost\<close>: the first reason stays, and the thread is told to stop.\<close>

definition mark_lost :: "guard \<Rightarrow> string \<Rightarrow> guard" where
  "mark_lost g reason = g\<lparr>guard_lost := (case guard_lost g of None \<Rightarrow> Some reason | Some r \<Rightarrow> Some r),
     guard_stop := True\<rparr>"

text \<open>
  \<open>__enter__\<close>.  An acquisition that raises or is refused leaves the reset guard behind.
\<close>

definition enter_guard :: "('s \<Rightarrow> string \<Rightarrow> string \<Rightarrow> timedelta \<Rightarrow> instant \<Rightarrow> ('s \<times> lease option) result)
    \<Rightarrow> 's \<Rightarrow> guard \<Rightarrow> instant \<Rightarrow> 's \<times> guard \<times> unit result" where
  "enter_guard acquire s g clock =
     (if guard_lease g \<noteq> None \<or> guard_thread g then
        (s, g, Inl (StateError (''Lease guard '' @ guard_name g @ '' is already active'')))
      else
        let g1 = g\<lparr>guard_lost := None, guard_stop := False\<rparr>
        in case acquire s (guard_name g) (guard_owner g) (guard_ttl g) clock of
             Inl e \<Rightarrow> (s, g1, Inl e)
           | Inr p \<Rightarrow> (case snd p of
               None \<Rightarrow> (fst p, g1, Inl (StateError (''Lease '' @ guard_name g @ '' is held by another worker'')))
             | Some l \<Rightarrow> (fst p, g1\<lparr>guard_lease := Some l, guard_thread := True\<rparr>, Inr ())))"

text \<open>One iteration of \<open>_heartbeat_loop\<close>, when the stop event did not end the wait.\<close>

definition heartbeat_tick :: "('s \<Rightarrow> string \<Rightarrow> string \<Rightarrow> int \<Rightarrow> timedelta \<Rightarrow> instant \<Rightarrow> ('s \<times> lease option) result)
    \<Rightarrow> 's \<Rightarrow> guard \<Rightarrow> instant \<Rightarrow> 's \<times> guard" where
  "heartbeat_tick heartbeat s g clock =
     (if guard_stop g \<or> \<not> guard_thread g then (s, g)
      else case guard_lease g of
        None \<Rightarrow> (s, g)
      | Some l \<Rightarrow>
        (case heartbeat s (guard_name g) (guard_owner g) (lease_generation l) (guard_ttl g) clock of
           Inl e \<Rightarrow> (s, mark_lost g (''Lease '' @ guard_name g @ '' heartbeat failed''))
         | Inr p \<Rightarrow> (case snd p of
             None \<Rightarrow> (fst p, mark_lost g (''Lease '' @ guard_name g @ '' ownership was lost''))
           | Some l' \<Rightarrow> (fst p, g\<lparr>guard_lease := Some l'\<rparr>))))"

text \<open>\<open>assert_owned\<close>: only a \<open>StateError\<close> of the store marks the lease as lost.\<close>

definition assert_owned :: "('s \<Rightarrow> string \<Rightarrow> string \<Rightarrow> int \<Rightarrow> instant \<Rightarrow> lease result)
    \<Rightarrow> 's \<Rightarrow> guard \<Rightarrow> instant \<Rightarrow> guard \<times> lease result" where
  "assert_owned check s g clock =
     (case guard_lease g of
        None \<Rightarrow> (g, Inl (StateError (''Lease '' @ guard_name g @ '' is not active'')))
      | Some l \<Rightarrow>
        (case guard_lost g of
           Some reason \<Rightarrow> (g, Inl (StateError reason))
         | None \<Rightarrow>
           (case check s (guard_name g) (guard_owner g) (lease_generation l) clock of
              Inr current \<Rightarrow> (g\<lparr>guard_lease := Some current\<rparr>, Inr current)
            | Inl (StateError m) \<Rightarrow>
                (mark_lost g (''Lease '' @ guard_name g @ '' ownership was lost''), Inl (StateError m))
            | Inl e \<Rightarrow> (g, Inl e))))"

text \<open>\<open>close\<close>: the thread is joined first, so no heartbeat comes after it.\<close>

definition close_guard :: "('s \<Rightarrow> string \<Rightarrow> string \<Rightarrow> int \<Rightarrow> ('s \<times> bool) result)
    \<Rightarrow> 's \<Rightarrow> guard \<Rightarrow> 's \<times> guard \<times> unit result" where
  "close_guard release s g =
     (let g1 = g\<lparr>guard_stop := True, guard_thread := False, guard_lease := None\<rparr>
      in case guard_lease g of
           None \<Rightarrow> (s, g1, Inr ())
         | Some l \<Rightarrow>
           (case release s (guard_name g) (guard_owner g) (lease_generation l) of
              Inl e \<Rightarrow> (s, g1, Inl e)
            | Inr p \<Rightarrow>
              (case guard_lost g of
                 Some reason \<Rightarrow> (fst p, g1,
                   Inl (StateError (if reason = [] then ''Lease '' @ guard_name g @ '' ownership was lost'' else reason)))
               | None \<Rightarrow> if snd p then (fst p, g1, Inr ())
                   else (fst p, g1, Inl (StateError (''Lease '' @ guard_name g @ '' ownership was lost''))))))"

section \<open>Sessions\<close>

text \<open>
  What happens between an \<open>__enter__\<close> and a \<open>close\<close>: heartbeats of the thread, checks at work
  boundaries, and anything other processes do to the store.
\<close>

inductive guard_step :: "('s \<Rightarrow> string \<Rightarrow> string \<Rightarrow> int \<Rightarrow> timedelta \<Rightarrow> instant \<Rightarrow> ('s \<times> lease option) result)
    \<Rightarrow> ('s \<Rightarrow> string \<Rightarrow> string \<Rightarrow> int \<Rightarrow> instant \<Rightarrow> lease result) \<Rightarrow> 's \<times> guard \<Rightarrow> 's \<times> guard \<Rightarrow> bool"
  for heartbeat check where
  tick: "guard_step heartbeat check (s, g) (heartbeat_tick heartbeat s g clock)"
| work: "guard_step heartbeat check (s, g) (s, fst (assert_owned check s g clock))"
| other: "guard_step heartbeat check (s, g) (s', g)"

abbreviation guard_session ::
    "('s \<Rightarrow> string \<Rightarrow> string \<Rightarrow> int \<Rightarrow> timedelta \<Rightarrow> instant \<Rightarrow> ('s \<times> lease option) result)
    \<Rightarrow> ('s \<Rightarrow> string \<Rightarrow> string \<Rightarrow> int \<Rightarrow> instant \<Rightarrow> lease result) \<Rightarrow> 's \<times> guard \<Rightarrow> 's \<times> guard \<Rightarrow> bool" where
  "guard_session heartbeat check \<equiv> (guard_step heartbeat check)\<^sup>*\<^sup>*"

text \<open>A lost reason stays for the rest of the session, with whatever interface.\<close>

lemma mark_lost_simps [simp]:
  "guard_lost (mark_lost g r) \<noteq> None" "guard_lost g = Some x \<Longrightarrow> guard_lost (mark_lost g r) = Some x"
  "guard_name (mark_lost g r) = guard_name g" "guard_owner (mark_lost g r) = guard_owner g"
  "guard_lease (mark_lost g r) = guard_lease g"
  by (auto simp: mark_lost_def split: option.splits)

lemma tick_lost: "guard_lost g = Some r \<Longrightarrow> guard_lost (snd (heartbeat_tick hb s g c)) = Some r"
  by (auto simp: heartbeat_tick_def split: option.splits sum.splits)

lemma owned_lost: "guard_lost g = Some r \<Longrightarrow> fst (assert_owned ck s g c) = g"
  by (auto simp: assert_owned_def split: option.splits)

lemma step_lost: "guard_step hb ck p q \<Longrightarrow> guard_lost (snd p) = Some r \<Longrightarrow> guard_lost (snd q) = Some r"
  by (induction rule: guard_step.induct) (auto simp: tick_lost owned_lost)

lemma session_lost: "guard_session hb ck p q \<Longrightarrow> guard_lost (snd p) = Some r \<Longrightarrow> guard_lost (snd q) = Some r"
  by (induction rule: rtranclp_induct) (auto intro: step_lost)

section \<open>The interface to the lease store\<close>

text \<open>
  What the guard relies on: \<open>holder s n o g\<close> says that the store's row of \<open>n\<close> belongs to owner \<open>o\<close>
  with generation \<open>g\<close>.  A grant makes the caller the holder, a heartbeat and a check succeed only
  for the holder, a release removes only the holder's own row.
\<close>

locale lease_service =
  fixes acquire :: "'s \<Rightarrow> string \<Rightarrow> string \<Rightarrow> timedelta \<Rightarrow> instant \<Rightarrow> ('s \<times> lease option) result"
    and heartbeat :: "'s \<Rightarrow> string \<Rightarrow> string \<Rightarrow> int \<Rightarrow> timedelta \<Rightarrow> instant \<Rightarrow> ('s \<times> lease option) result"
    and check :: "'s \<Rightarrow> string \<Rightarrow> string \<Rightarrow> int \<Rightarrow> instant \<Rightarrow> lease result"
    and release :: "'s \<Rightarrow> string \<Rightarrow> string \<Rightarrow> int \<Rightarrow> ('s \<times> bool) result"
    and holder :: "'s \<Rightarrow> string \<Rightarrow> string \<Rightarrow> int \<Rightarrow> bool"
  assumes acquire_holder: "acquire s n ow ttl c = Inr (s', Some l) \<Longrightarrow> holder s' n ow (lease_generation l)"
    and heartbeat_holder: "heartbeat s n ow gen ttl c = Inr (s', Some l) \<Longrightarrow>
          lease_generation l = gen \<and> holder s n ow gen"
    and check_holder: "check s n ow gen c = Inr l \<Longrightarrow> lease_generation l = gen \<and> holder s n ow gen"
    and release_holder: "release s n ow gen = Inr (s', True) \<Longrightarrow> holder s n ow gen \<and> \<not> holder s' n ow gen"
begin

text \<open>The generation a session works under is the one it acquired.\<close>

definition same_session :: "guard \<Rightarrow> guard \<Rightarrow> bool" where
  "same_session g g' \<longleftrightarrow> guard_name g' = guard_name g \<and> guard_owner g' = guard_owner g
     \<and> map_option lease_generation (guard_lease g') = map_option lease_generation (guard_lease g)"

lemma tick_session: "same_session g (snd (heartbeat_tick heartbeat s g c))"
  by (auto simp: heartbeat_tick_def same_session_def split: option.splits sum.splits
      dest: heartbeat_holder)

lemma owned_session: "same_session g (fst (assert_owned check s g c))"
  by (auto simp: assert_owned_def same_session_def split: option.splits sum.splits error.splits
      dest: check_holder)

lemma session_generation: "guard_session heartbeat check p q \<Longrightarrow> same_session (snd p) (snd q)"
proof (induction rule: rtranclp_induct)
  case (step q r)
  from step.hyps(2) have "same_session (snd q) (snd r)"
    by (induction rule: guard_step.induct) (simp_all add: tick_session owned_session, simp add: same_session_def)
  with step.IH show ?case by (simp add: same_session_def)
qed (simp add: same_session_def)

text \<open>A check that returns vouches for the acquired generation at that moment.\<close>

lemma session_check:
  assumes "enter_guard acquire s g c = (s1, g1, Inr ())"
    and "guard_session heartbeat check (s1, g1) (s2, g2)"
    and "assert_owned check s2 g2 c2 = (g3, Inr l)"
  shows "(\<exists>l0. acquire s (guard_name g) (guard_owner g) (guard_ttl g) c = Inr (s1, Some l0)
            \<and> lease_generation l = lease_generation l0)
    \<and> check s2 (guard_name g) (guard_owner g) (lease_generation l) c2 = Inr l
    \<and> holder s1 (guard_name g) (guard_owner g) (lease_generation l)
    \<and> holder s2 (guard_name g) (guard_owner g) (lease_generation l) \<and> guard_lost g2 = None"
proof -
  from assms(1) obtain l0 where l0: "acquire s (guard_name g) (guard_owner g) (guard_ttl g) c = Inr (s1, Some l0)"
    and g1: "guard_lease g1 = Some l0" "guard_name g1 = guard_name g" "guard_owner g1 = guard_owner g"
    by (auto simp: enter_guard_def Let_def split: sum.splits option.splits if_splits)
  from session_generation [OF assms(2)] g1 obtain l2 where l2: "guard_lease g2 = Some l2"
    "lease_generation l2 = lease_generation l0" "guard_name g2 = guard_name g" "guard_owner g2 = guard_owner g"
    by (auto simp: same_session_def)
  with assms(3) have "check s2 (guard_name g) (guard_owner g) (lease_generation l0) c2 = Inr l" "guard_lost g2 = None"
    by (auto simp: assert_owned_def split: option.splits sum.splits error.splits)
  with check_holder [OF this(1)] acquire_holder [OF l0] l0 show ?thesis by auto
qed

text \<open>What a session with nothing lost tells of its past: every heartbeat renewed, no check was refused.\<close>

definition lost_if_stopped :: "guard \<Rightarrow> bool" where
  "lost_if_stopped g \<longleftrightarrow> guard_thread g \<and> guard_lease g \<noteq> None \<and> (guard_stop g \<longrightarrow> guard_lost g \<noteq> None)"

lemma tick_stopped: "lost_if_stopped g \<Longrightarrow> lost_if_stopped (snd (heartbeat_tick heartbeat s g c))"
  by (auto simp: heartbeat_tick_def lost_if_stopped_def mark_lost_def split: option.splits sum.splits)

lemma owned_stopped: "lost_if_stopped g \<Longrightarrow> lost_if_stopped (fst (assert_owned check s g c))"
  by (auto simp: assert_owned_def lost_if_stopped_def mark_lost_def split: option.splits sum.splits error.splits)

lemma session_stopped: "guard_session heartbeat check p q \<Longrightarrow> lost_if_stopped (snd p) \<Longrightarrow> lost_if_stopped (snd q)"
proof (induction rule: rtranclp_induct)
  case (step q r)
  from step.hyps(2) show ?case
    using step by (induction rule: guard_step.induct) (simp_all add: tick_stopped owned_stopped)
qed simp

lemma session_renewed:
  assumes "lost_if_stopped (snd p)" and "guard_session heartbeat check p (sa, ga)"
    and "guard_session heartbeat check (heartbeat_tick heartbeat sa ga c) q" and "guard_lost (snd q) = None"
  shows "\<exists>s' l l'. guard_lease ga = Some l
    \<and> heartbeat sa (guard_name ga) (guard_owner ga) (lease_generation l) (guard_ttl ga) c = Inr (s', Some l')
    \<and> heartbeat_tick heartbeat sa ga c = (s', ga\<lparr>guard_lease := Some l'\<rparr>)"
proof -
  have k: "guard_lost (snd (heartbeat_tick heartbeat sa ga c)) = None"
    using session_lost [OF assms(3)] assms(4) by (cases "guard_lost (snd (heartbeat_tick heartbeat sa ga c))") auto
  then have "guard_lost ga = None" using tick_lost [of ga _ heartbeat sa c] by (cases "guard_lost ga") auto
  with session_stopped [OF assms(2,1)] have "\<not> guard_stop ga" "guard_thread ga" "guard_lease ga \<noteq> None"
    by (auto simp: lost_if_stopped_def)
  with k show ?thesis by (auto simp: heartbeat_tick_def split: option.splits sum.splits)
qed

lemma session_unrefused:
  assumes "guard_session heartbeat check (sa, fst (assert_owned check sa ga c)) q" and "guard_lost (snd q) = None" and "guard_lease ga \<noteq> None"
  shows "snd (assert_owned check sa ga c) \<noteq> Inl (StateError m)"
proof -
  have "guard_lost (fst (assert_owned check sa ga c)) = None"
    using session_lost [OF assms(1)] assms(2) by (cases "guard_lost (fst (assert_owned check sa ga c))") auto
  then show ?thesis using assms(3) by (auto simp: assert_owned_def split: option.splits sum.splits error.splits)
qed

lemma entered_guard: "enter_guard acquire s g c = (s1, g1, Inr ()) \<Longrightarrow> lost_if_stopped g1"
  by (auto simp: enter_guard_def lost_if_stopped_def Let_def split: sum.splits option.splits if_splits)

text \<open>A clean close has released the acquired generation, and nothing was lost before.\<close>

lemma close_clean:
  assumes "close_guard release s g = (s', g', Inr ())" and "guard_lease g = Some l"
  shows "guard_lost g = None \<and> holder s (guard_name g) (guard_owner g) (lease_generation l)
    \<and> \<not> holder s' (guard_name g) (guard_owner g) (lease_generation l)"
  using assms
  by (auto simp: close_guard_def Let_def split: option.splits sum.splits if_splits dest: release_holder)

end

section \<open>The store as lease service\<close>

definition row_holder :: "db \<Rightarrow> string \<Rightarrow> string \<Rightarrow> int \<Rightarrow> bool" where
  "row_holder d n ow gen \<longleftrightarrow> (\<exists>row. leases d (strip n) = Some row \<and> lrow_owner row = strip ow
     \<and> lrow_generation row = gen)"

abbreviation store_acquire :: "db \<Rightarrow> string \<Rightarrow> string \<Rightarrow> timedelta \<Rightarrow> instant \<Rightarrow> (db \<times> lease option) result" where
  "store_acquire d n ow ttl clock \<equiv> acquire_lease d n ow ttl None clock"

abbreviation store_heartbeat ::
    "db \<Rightarrow> string \<Rightarrow> string \<Rightarrow> int \<Rightarrow> timedelta \<Rightarrow> instant \<Rightarrow> (db \<times> lease option) result" where
  "store_heartbeat d n ow gen ttl clock \<equiv> heartbeat_lease d n ow gen ttl None clock"

abbreviation store_check :: "db \<Rightarrow> string \<Rightarrow> string \<Rightarrow> int \<Rightarrow> instant \<Rightarrow> lease result" where
  "store_check d n ow gen clock \<equiv> assert_lease d n ow gen None clock"

lemma assert_lease_generation:
  "assert_lease d n ow gen now clock = Inr l \<Longrightarrow> lease_generation l = gen"
  by (auto simp: assert_lease_def result_simps checks split: option.splits if_splits)

interpretation store: lease_service store_acquire store_heartbeat store_check release_lease row_holder
proof (unfold_locales, goal_cases)
  case (1 d n ow ttl c d' l)
  then show ?case by (cases rule: acquire_lease_cases) (auto simp: row_holder_def)
next
  case (2 d n ow gen ttl c d' l)
  then show ?case by (auto simp: row_holder_def dest!: heartbeat_leaseD)
next
  case (3 d n ow gen c l)
  then show ?case using assert_lease_fence(2) assert_lease_generation by (fastforce simp: row_holder_def)
next
  case (4 d n ow gen d')
  then show ?case by (auto simp: row_holder_def dest!: release_leaseD)
qed

section \<open>Properties\<close>

text \<open>
  C37. When a lease guard that was entered passes assert_owned at any point of its session, the
  store row of its lease belongs to its owner with the generation acquired on entry and is
  unexpired at that moment; every heartbeat of the session before it was renewed by the store,
  and no check before it was refused because the lease was stopped or lost.
\<close>

theorem guard_vouches:
  assumes "enter_guard store_acquire d g c = (d1, g1, Inr ())"
    and "guard_session store_heartbeat store_check (d1, g1) (d2, g2)"
    and "assert_owned store_check d2 g2 c2 = (g3, Inr l)"
  shows "row_holder d1 (guard_name g) (guard_owner g) (lease_generation l)
    \<and> row_holder d2 (guard_name g) (guard_owner g) (lease_generation l)
    \<and> (\<exists>row. leases d2 (strip (guard_name g)) = Some row \<and> c2 < lrow_expires_at row)
    \<and> (\<forall>da ga ca. guard_session store_heartbeat store_check (d1, g1) (da, ga)
        \<and> guard_session store_heartbeat store_check (heartbeat_tick store_heartbeat da ga ca) (d2, g2) \<longrightarrow>
        (\<exists>d' l0 l'. guard_lease ga = Some l0
          \<and> store_heartbeat da (guard_name ga) (guard_owner ga) (lease_generation l0) (guard_ttl ga) ca = Inr (d', Some l')
          \<and> heartbeat_tick store_heartbeat da ga ca = (d', ga\<lparr>guard_lease := Some l'\<rparr>)))
    \<and> (\<forall>da ga ca. guard_session store_heartbeat store_check (d1, g1) (da, ga)
        \<and> guard_session store_heartbeat store_check (da, fst (assert_owned store_check da ga ca)) (d2, g2) \<longrightarrow>
        (\<forall>m. snd (assert_owned store_check da ga ca) \<noteq> Inl (StateError m)))"
proof -
  note s = store.session_check [OF assms] and e = store.entered_guard [OF assms(1)]
  then have "store_check d2 (guard_name g) (guard_owner g) (lease_generation l) c2 = Inr l" by blast
  from assert_lease_fence(2) [OF this] s
  have now: "row_holder d1 (guard_name g) (guard_owner g) (lease_generation l)
    \<and> row_holder d2 (guard_name g) (guard_owner g) (lease_generation l)
    \<and> (\<exists>row. leases d2 (strip (guard_name g)) = Some row \<and> c2 < lrow_expires_at row)"
    by (auto simp: now_or_def)
  have lost: "guard_lost (snd (d2, g2)) = None" using s by simp
  have lost_if_stopped: "store.lost_if_stopped (snd (d1, g1))" using e by simp
  have active: "guard_lease ga \<noteq> None" if "guard_session store_heartbeat store_check (d1, g1) (da, ga)" for da ga
    using store.session_stopped [OF that lost_if_stopped] by (simp add: store.lost_if_stopped_def)
  show ?thesis
    using now store.session_renewed [OF lost_if_stopped _ _ lost] store.session_unrefused [OF _ lost active] by blast
qed

text \<open>
  Once a guard has recorded the loss of its lease, no later check of the session succeeds
  and closing it raises.
\<close>

theorem guard_fails_closed:
  assumes "guard_lost g = Some reason" and "guard_session store_heartbeat store_check (d, g) (d', g')"
  shows "\<not> returns (snd (assert_owned store_check d' g' c))
    \<and> (guard_lease g' \<noteq> None \<longrightarrow> \<not> returns (snd (snd (close_guard release_lease d' g'))))"
proof -
  have "guard_lost g' = Some reason"
    using session_lost [OF assms(2)] assms(1) by simp
  then show ?thesis
    by (auto simp: assert_owned_def close_guard_def Let_def split: option.splits sum.splits)
qed

text \<open>
  A close that returns normally has released the lease row of the generation the guard
  acquired, which it still owned, and leaves the guard without thread and lease.
\<close>

theorem guard_close_releases:
  assumes "close_guard release_lease d g = (d', g', Inr ())" and "guard_lease g = Some l"
  shows "row_holder d (guard_name g) (guard_owner g) (lease_generation l)
    \<and> leases d' (strip (guard_name g)) = None \<and> guard_lease g' = None \<and> \<not> guard_thread g'"
proof -
  from assms have "release_lease d (guard_name g) (guard_owner g) (lease_generation l) = Inr (d', True)"
    by (auto simp: close_guard_def Let_def split: option.splits sum.splits if_splits)
  moreover have "guard_lease g' = None" "\<not> guard_thread g'"
    using assms by (auto simp: close_guard_def Let_def split: option.splits sum.splits if_splits)
  ultimately show ?thesis
    using store.close_clean [OF assms] by (auto dest!: release_leaseD)
qed

section \<open>Examples\<close>

definition sample_guard :: guard where
  "sample_guard = \<lparr>guard_name = ''run'', guard_owner = ''w1'', guard_ttl = 10, guard_interval = 1,
     guard_stop = False, guard_thread = False, guard_lease = None, guard_lost = None\<rparr>"

definition sample_entered :: guard where
  "sample_entered = sample_guard\<lparr>guard_thread := True, guard_lease := Some (sample_lease ''w1'' 1 10)\<rparr>"

lemma sample_enter:
  "enter_guard store_acquire (create_schema 0) sample_guard 0 = (sample_db ''w1'' 1 0 10, sample_entered, Inr ())"
proof -
  have "store_acquire (create_schema 0) ''run'' ''w1'' 10 0 = Inr (sample_db ''w1'' 1 0 10, Some (sample_lease ''w1'' 1 10))"
    using sample_acquire by (simp add: acquire_lease_def now_or_def)
  then show ?thesis by (simp add: enter_guard_def sample_guard_def sample_entered_def)
qed

lemma sample_owned:
  "assert_owned store_check (sample_db ''w1'' 1 0 10) sample_entered 5 = (sample_entered, Inr (sample_lease ''w1'' 1 10))"
  by (simp add: assert_owned_def sample_entered_def sample_guard_def assert_lease_def get_lease_def
      generation_arg_def lease_eval)

lemma sample_close:
  "\<exists>d' g'. close_guard release_lease (sample_db ''w1'' 1 0 10) sample_entered = (d', g', Inr ())"
  by (simp add: close_guard_def Let_def sample_entered_def sample_guard_def release_lease_def generation_arg_def lease_eval)

definition renewed_db :: db where
  "renewed_db = (create_schema 0)\<lparr>leases := [''run'' \<mapsto> \<lparr>lrow_owner = ''w1'', lrow_generation = 1, lrow_acquired_at = 0,
     lrow_heartbeat_at = 4, lrow_expires_at = 14\<rparr>], lease_generations := [''run'' \<mapsto> 1]\<rparr>"

lemma sample_tick:
  "heartbeat_tick store_heartbeat (sample_db ''w1'' 1 0 10) sample_entered 4
    = (renewed_db, sample_entered\<lparr>guard_lease := Some (sample_lease ''w1'' 1 14)\<rparr>)"
  by (simp add: heartbeat_tick_def sample_entered_def sample_guard_def heartbeat_lease_def generation_arg_def lease_eval renewed_db_def)

lemma sample_owned_later:
  "assert_owned store_check renewed_db (sample_entered\<lparr>guard_lease := Some (sample_lease ''w1'' 1 14)\<rparr>) 12
    = (sample_entered\<lparr>guard_lease := Some (sample_lease ''w1'' 1 14)\<rparr>, Inr (sample_lease ''w1'' 1 14))"
  by (simp add: assert_owned_def sample_entered_def sample_guard_def assert_lease_def get_lease_def
      generation_arg_def lease_eval renewed_db_def)

text \<open>A session with one heartbeat, which the conclusion shows to have renewed the lease.\<close>

lemma guard_vouches_witness:
  "row_holder renewed_db (guard_name sample_guard) (guard_owner sample_guard) 1
    \<and> (\<exists>d' l'. store_heartbeat (sample_db ''w1'' 1 0 10) ''run'' ''w1'' 1 10 4 = Inr (d', Some l'))"
proof -
  have session: "guard_session store_heartbeat store_check (sample_db ''w1'' 1 0 10, sample_entered)
      (heartbeat_tick store_heartbeat (sample_db ''w1'' 1 0 10) sample_entered 4)"
    by (rule r_into_rtranclp, rule guard_step.tick)
  note v = guard_vouches [OF sample_enter session [unfolded sample_tick] sample_owned_later]
  have "lease_generation (sample_lease ''w1'' 1 14) = 1" by simp
  moreover from v have "\<exists>d' l0 l'. guard_lease sample_entered = Some l0 \<and> store_heartbeat (sample_db ''w1'' 1 0 10)
      (guard_name sample_entered) (guard_owner sample_entered) (lease_generation l0) (guard_ttl sample_entered) 4 = Inr (d', Some l')"
    using sample_tick by (metis rtranclp.rtrancl_refl)
  ultimately show ?thesis using v by (auto simp: sample_entered_def sample_guard_def)
qed

lemma guard_fails_closed_witness:
  "\<not> returns (snd (assert_owned store_check (create_schema 0) (mark_lost sample_entered ''gone'') 5))
    \<and> \<not> returns (snd (snd (close_guard release_lease (create_schema 0) (mark_lost sample_entered ''gone''))))"
proof -
  have "guard_lost (mark_lost sample_entered ''gone'') = Some ''gone''"
    by (simp add: mark_lost_def sample_entered_def sample_guard_def)
  from guard_fails_closed [OF this rtranclp.rtrancl_refl, of "create_schema 0" 5] show ?thesis
    by (simp add: sample_entered_def)
qed

lemma guard_close_releases_witness:
  "\<exists>d' :: db. \<exists>g' :: guard. row_holder (sample_db ''w1'' 1 0 10) (guard_name sample_entered) (guard_owner sample_entered)
       (lease_generation (sample_lease ''w1'' 1 10))
    \<and> leases d' (strip (guard_name sample_entered)) = None \<and> guard_lease g' = None \<and> \<not> guard_thread g'"
proof -
  obtain d' g' where "close_guard release_lease (sample_db ''w1'' 1 0 10) sample_entered = (d', g', Inr ())"
    using sample_close by blast
  from guard_close_releases [OF this, of "sample_lease ''w1'' 1 10"] show ?thesis
    by (auto simp: sample_entered_def)
qed

end
