(* ===== verification/Ledger.thy ===== *)
theory Ledger
  imports Tables
begin

text \<open>
  The event ledger of \<open>store.py\<close>: \<open>_append_event_to_ledger\<close>, \<open>_verified_event_heads\<close> and
  \<open>_verify_event_anchors\<close>.  Each run's events form a hash chain whose length and head are anchored in
  the run's row.  \<open>hashlib.sha256\<close> is a parameter \<open>H\<close> from texts to hexadecimal digests; nothing is
  assumed of it except, where a theorem says so, that the payloads at hand do not collide.
\<close>

section \<open>Stored values and payloads\<close>

definition stored_event_count :: "int \<Rightarrow> string \<Rightarrow> int result" where
  "stored_event_count v field =
     (if v < 0 then Inl (StateError (''Stored '' @ field @ '' is invalid'')) else Inr v)"

definition stored_event_hash :: "string \<Rightarrow> string \<Rightarrow> string result" where
  "stored_event_hash v field =
     (if is_sha256 v then Inr v else Inl (StateError (''Stored '' @ field @ '' is invalid'')))"

lemma stored_event_count_Inr [checks]: "stored_event_count v f = Inr w \<longleftrightarrow> 0 \<le> v \<and> w = v"
  by (auto simp: stored_event_count_def)

lemma stored_event_hash_Inr [checks]: "stored_event_hash v f = Inr w \<longleftrightarrow> is_sha256 v \<and> w = v"
  by (auto simp: stored_event_hash_def)

lemma is_sha256_zeros [simp]: "is_sha256 zeros"
  by (simp add: is_sha256_def zeros_def list_all_iff is_lower_hex_def is_digit_def)

text \<open>\<open>_canonical_json(details)\<close> and the canonical payload an event's hash covers.\<close>

definition canonical_details :: "(string \<times> string) list \<Rightarrow> string" where
  "canonical_details details = dumps (text_object details)"

definition event_payload :: "string \<Rightarrow> string \<Rightarrow> string \<Rightarrow> string \<Rightarrow> string \<Rightarrow> string" where
  "event_payload rid occurred etype details previous = dumps (text_object
     [(''run_id'', rid), (''occurred_at'', occurred), (''event_type'', etype),
      (''details'', details), (''previous_hash'', previous)])"

definition payload_of :: "event_row \<Rightarrow> string" where
  "payload_of e = event_payload (ev_run_id e) (ev_occurred_at e) (ev_type e) (ev_details e) (ev_previous_hash e)"

lemma payload_keys_sorted:
  "sort_key fst [(''run_id'', a), (''occurred_at'', b), (''event_type'', c), (''details'', d),
      (''previous_hash'', p)]
    = [(''details'', d), (''event_type'', c), (''occurred_at'', b), (''previous_hash'', p), (''run_id'', a)]"
  by (simp add: less_eq_char_def less_char_def)

text \<open>The payload text determines every field of the event.\<close>

lemma event_payload_inj:
  "event_payload a b c d p = event_payload a' b' c' d' p' \<Longrightarrow>
     a = a' \<and> b = b' \<and> c = c' \<and> d = d' \<and> p = p'"
  unfolding event_payload_def
  by (drule dumps_text_object_inj) (simp only: payload_keys_sorted list.inject prod.inject simp_thms)

section \<open>Appending\<close>

definition run_events :: "db \<Rightarrow> string \<Rightarrow> event_row list" where
  "run_events d rid = filter (\<lambda>e. ev_run_id e = rid) (events d)"

definition ledger_head :: "event_row list \<Rightarrow> string result" where
  "ledger_head es = (if es = [] then Inr zeros else stored_event_hash (ev_hash (last es)) ''ledger event head'')"

definition append_event :: "(string \<Rightarrow> string) \<Rightarrow> db \<Rightarrow> string \<Rightarrow> string \<Rightarrow> (string \<times> string) list
    \<Rightarrow> instant option \<Rightarrow> instant \<Rightarrow> db result" where
  "append_event H d rid etype details occurred_at clock = (case find_run d rid of
     None \<Rightarrow> Inl (StateError (''Unknown run: '' @ rid))
   | Some r \<Rightarrow>
     bind_r (stored_event_count (row_event_count r) ''event count'') (\<lambda>stored_count.
     bind_r (stored_event_hash (row_event_head r) ''event head'') (\<lambda>stored_head.
     bind_r (ledger_head (run_events d rid)) (\<lambda>actual_head.
     if stored_count \<noteq> int (length (run_events d rid)) \<or> stored_head \<noteq> actual_head then
       Inl (StateError (''Event ledger anchor mismatch for run '' @ rid))
     else
       let occurred = isoformat (case occurred_at of None \<Rightarrow> clock | Some t \<Rightarrow> t);
           details_json = canonical_details details;
           h = H (event_payload rid occurred etype details_json stored_head)
       in bind_r (insert_event d \<lparr>ev_run_id = rid, ev_occurred_at = occurred, ev_type = etype,
              ev_details = details_json, ev_previous_hash = stored_head, ev_hash = h\<rparr>) (\<lambda>d'.
          let (rs, rowcount) = update_run (runs d') rid
                (\<lambda>r. row_event_count r = stored_count \<and> row_event_head r = stored_head)
                (\<lambda>r. r\<lparr>row_event_count := stored_count + 1, row_event_head := h\<rparr>)
          in if rowcount \<noteq> 1 then
               Inl (StateError (''Event ledger anchor changed while appending to run '' @ rid))
             else write_runs d' rs)))))"

text \<open>A sequence of events appended in one transaction.\<close>

fun append_events :: "(string \<Rightarrow> string) \<Rightarrow> db \<Rightarrow> string \<Rightarrow> (string \<times> (string \<times> string) list) list
    \<Rightarrow> instant \<Rightarrow> db result" where
  "append_events H d rid [] clock = Inr d"
| "append_events H d rid ((etype, details) # evs) clock =
     bind_r (append_event H d rid etype details None clock) (\<lambda>d'. append_events H d' rid evs clock)"

section \<open>Verifying\<close>

type_synonym heads = "string \<Rightarrow> (int \<times> string) option"

fun init_heads :: "run_row list \<Rightarrow> heads \<Rightarrow> heads result" where
  "init_heads [] h = Inr h"
| "init_heads (r # rs) h =
     (if row_run_id r = [] then Inl (StateError ''Run ledger contains an invalid run ID'')
      else if h (row_run_id r) \<noteq> None then
        Inl (StateError (''Run ledger contains duplicate run ID '' @ row_run_id r))
      else init_heads rs (h(row_run_id r \<mapsto> (0, zeros))))"

fun walk_events :: "(string \<Rightarrow> string) \<Rightarrow> event_row list \<Rightarrow> heads \<Rightarrow> heads result" where
  "walk_events H [] h = Inr h"
| "walk_events H (e # es) h = (case h (ev_run_id e) of
     None \<Rightarrow> Inl (StateError (''Event ledger references unknown run '' @ ev_run_id e))
   | Some (n, expected_previous) \<Rightarrow>
     bind_r (stored_event_hash (ev_hash e) ''event hash'') (\<lambda>event_hash.
     bind_r (stored_event_hash (ev_previous_hash e) ''event predecessor'') (\<lambda>previous_hash.
     if previous_hash \<noteq> expected_previous then
       Inl (StateError (''Event predecessor mismatch for run '' @ ev_run_id e))
     else if event_hash \<noteq> H (payload_of e) then
       Inl (StateError (''Event hash mismatch for run '' @ ev_run_id e))
     else walk_events H es (h(ev_run_id e \<mapsto> (n + 1, event_hash))))))"

definition verified_event_heads :: "(string \<Rightarrow> string) \<Rightarrow> run_row list \<Rightarrow> event_row list \<Rightarrow> heads result" where
  "verified_event_heads H rs es =
     bind_r (init_heads rs Map.empty) (\<lambda>h0.
     bind_r (walk_events H es h0) (\<lambda>h.
     bind_r (check_all (\<lambda>r. case h (row_run_id r) of
         Some (n, _) \<Rightarrow> if n = 0 then
             Inl (StateError (''Run '' @ row_run_id r @ '' is missing its event chain'')) else Inr ()
       | None \<Rightarrow> Inr ()) rs) (\<lambda>_. Inr h)))"

definition check_anchor :: "heads \<Rightarrow> run_row \<Rightarrow> unit result" where
  "check_anchor h r =
     bind_r (stored_event_count (row_event_count r) ''event count'') (\<lambda>stored_count.
     bind_r (stored_event_hash (row_event_head r) ''event head'') (\<lambda>stored_head.
     if h (row_run_id r) \<noteq> Some (stored_count, stored_head) then
       Inl (StateError (''Event ledger anchor mismatch for run '' @ row_run_id r))
     else Inr ()))"

definition verify_event_anchors :: "(string \<Rightarrow> string) \<Rightarrow> db \<Rightarrow> string option \<Rightarrow> unit result" where
  "verify_event_anchors H d selected =
     (let run_rows = (case selected of
            None \<Rightarrow> sort_key row_run_id (runs d)
          | Some rid \<Rightarrow> filter (\<lambda>r. row_run_id r = rid) (runs d));
          event_rows = (case selected of
            None \<Rightarrow> sort_key ev_run_id (events d)
          | Some rid \<Rightarrow> run_events d rid)
      in if selected \<noteq> None \<and> run_rows = [] then
           Inl (StateError (''Unknown run: '' @ the selected))
         else bind_r (verified_event_heads H run_rows event_rows) (\<lambda>h. check_all (check_anchor h) run_rows))"

section \<open>The specification: one chain per run\<close>

text \<open>The head of a chain that starts after \<open>p\<close>, if every link is right.\<close>

fun chain_head :: "(string \<Rightarrow> string) \<Rightarrow> string \<Rightarrow> event_row list \<Rightarrow> string option" where
  "chain_head H p [] = Some p"
| "chain_head H p (e # es) =
     (if is_sha256 (ev_hash e) \<and> is_sha256 (ev_previous_hash e) \<and> ev_previous_hash e = p
         \<and> ev_hash e = H (payload_of e)
      then chain_head H (ev_hash e) es else None)"

definition anchored :: "(string \<Rightarrow> string) \<Rightarrow> db \<Rightarrow> run_row \<Rightarrow> bool" where
  "anchored H d r \<longleftrightarrow> run_events d (row_run_id r) \<noteq> []
     \<and> chain_head H zeros (run_events d (row_run_id r)) = Some (row_event_head r)
     \<and> row_event_count r = int (length (run_events d (row_run_id r)))
     \<and> is_sha256 (row_event_head r)"

definition ledger_sound :: "(string \<Rightarrow> string) \<Rightarrow> db \<Rightarrow> bool" where
  "ledger_sound H d \<longleftrightarrow> distinct (map row_run_id (runs d)) \<and> [] \<notin> row_run_id ` set (runs d)
     \<and> ev_run_id ` set (events d) \<subseteq> row_run_id ` set (runs d) \<and> (\<forall>r\<in>set (runs d). anchored H d r)"

lemma chain_head_append:
  "chain_head H p (xs @ ys) = (case chain_head H p xs of None \<Rightarrow> None | Some q \<Rightarrow> chain_head H q ys)"
  by (induction xs arbitrary: p) auto

lemma chain_head_last:
  "chain_head H p es = Some q \<Longrightarrow> es \<noteq> [] \<Longrightarrow> ev_hash (last es) = q \<and> is_sha256 q"
proof (induction es arbitrary: p)
  case (Cons e es)
  then show ?case by (cases "es = []") (auto split: if_splits)
qed simp

text \<open>Walking the events in any order that keeps each run's own order computes every chain's head.\<close>

lemma walk_events_Inr:
  "walk_events H es h = Inr h' \<longleftrightarrow>
     (\<forall>e\<in>set es. h (ev_run_id e) \<noteq> None) \<and>
     (\<forall>k. case h k of None \<Rightarrow> h' k = None
        | Some (n, p) \<Rightarrow> \<exists>q. chain_head H p (filter (\<lambda>e. ev_run_id e = k) es) = Some q
            \<and> h' k = Some (n + int (length (filter (\<lambda>e. ev_run_id e = k) es)), q))"
proof (induction es arbitrary: h)
  case Nil
  show ?case
    by (auto simp: fun_eq_iff split: option.splits) (metis option.exhaust surj_pair)+
next
  case (Cons e es)
  show ?case
  proof (cases "h (ev_run_id e)")
    case None
    then show ?thesis by auto
  next
    case (Some np)
    obtain n p where np: "h (ev_run_id e) = Some (n, p)"
      using Some by (cases np) auto
    let ?ok = "is_sha256 (ev_hash e) \<and> is_sha256 (ev_previous_hash e) \<and> ev_previous_hash e = p
        \<and> ev_hash e = H (payload_of e)"
    let ?h = "h(ev_run_id e \<mapsto> (n + 1, ev_hash e))"
    have walk: "walk_events H (e # es) h = Inr h' \<longleftrightarrow> ?ok \<and> walk_events H es ?h = Inr h'"
      by (auto simp: np result_simps checks split: if_splits)
    show ?thesis
    proof (cases ?ok)
      case True
      have dom: "(\<forall>x\<in>set es. ?h (ev_run_id x) \<noteq> None) \<longleftrightarrow> (\<forall>x\<in>set (e # es). h (ev_run_id x) \<noteq> None)"
        by (auto simp: np)
      have chain: "(case ?h k of None \<Rightarrow> h' k = None
          | Some (m, q) \<Rightarrow> \<exists>r. chain_head H q (filter (\<lambda>x. ev_run_id x = k) es) = Some r
            \<and> h' k = Some (m + int (length (filter (\<lambda>x. ev_run_id x = k) es)), r))
        = (case h k of None \<Rightarrow> h' k = None
          | Some (m, q) \<Rightarrow> \<exists>r. chain_head H q (filter (\<lambda>x. ev_run_id x = k) (e # es)) = Some r
            \<and> h' k = Some (m + int (length (filter (\<lambda>x. ev_run_id x = k) (e # es))), r))" for k
        using True by (cases "k = ev_run_id e") (auto simp: np algebra_simps split: option.splits)
      show ?thesis
        unfolding walk Cons.IH dom chain using True by blast
    next
      case False
      then have "chain_head H p (filter (\<lambda>x. ev_run_id x = ev_run_id e) (e # es)) = None"
        by auto
      moreover have "walk_events H (e # es) h \<noteq> Inr h'"
        using walk False by blast
      ultimately show ?thesis
        using np by (auto dest!: spec [of _ "ev_run_id e"])
    qed
  qed
qed

section \<open>Verification is the specification\<close>

lemma init_heads_Inr:
  "init_heads rs h = Inr h' \<longleftrightarrow>
     distinct (map row_run_id rs) \<and> [] \<notin> row_run_id ` set rs \<and> (\<forall>r\<in>set rs. h (row_run_id r) = None) \<and>
     h' = (\<lambda>k. if k \<in> row_run_id ` set rs then Some (0, zeros) else h k)"
proof (induction rs arbitrary: h)
  case Nil
  show ?case by auto
next
  case (Cons r rs)
  have "(\<lambda>k. if k \<in> row_run_id ` set rs then Some (0, zeros) else (h(row_run_id r \<mapsto> (0, zeros))) k)
      = (\<lambda>k. if k \<in> row_run_id ` set (r # rs) then Some (0 :: int, zeros) else h k)"
    by (auto simp: fun_eq_iff)
  moreover have "(\<forall>x\<in>set rs. (h(row_run_id r \<mapsto> (0, zeros))) (row_run_id x) = None)
      \<longleftrightarrow> row_run_id r \<notin> row_run_id ` set rs \<and> (\<forall>x\<in>set rs. h (row_run_id x) = None)"
    by (auto simp: image_iff split: if_splits)
  ultimately show ?case
    by (auto simp: Cons.IH split: if_splits)
qed

lemma filter_sort_events:
  "filter (\<lambda>e. ev_run_id e = k) (sort_key ev_run_id es) = filter (\<lambda>e. ev_run_id e = k) es"
  by (rule sort_key_stable)

lemma check_anchor_Inr:
  "check_anchor h r = Inr () \<longleftrightarrow> 0 \<le> row_event_count r \<and> is_sha256 (row_event_head r)
     \<and> h (row_run_id r) = Some (row_event_count r, row_event_head r)"
  by (auto simp: check_anchor_def result_simps checks split: if_splits)

text \<open>The heads that a successful walk over the rows of \<open>d\<close> has computed.\<close>

lemma verified_heads_value:
  assumes "verified_event_heads H rs es = Inr h" and "r \<in> set rs"
  shows "\<exists>q. chain_head H zeros (filter (\<lambda>e. ev_run_id e = row_run_id r) es) = Some q
      \<and> h (row_run_id r) = Some (int (length (filter (\<lambda>e. ev_run_id e = row_run_id r) es)), q)
      \<and> filter (\<lambda>e. ev_run_id e = row_run_id r) es \<noteq> []"
proof -
  from assms(1) obtain h0 where h0: "init_heads rs Map.empty = Inr h0"
    and w: "walk_events H es h0 = Inr h"
    and c: "\<forall>r\<in>set rs. case h (row_run_id r) of Some (n, _) \<Rightarrow> n \<noteq> 0 | None \<Rightarrow> True"
    by (fastforce simp: verified_event_heads_def result_simps check_all_Inr split: option.splits if_splits)
  from h0 assms(2) have "h0 (row_run_id r) = Some (0, zeros)"
    by (auto simp: init_heads_Inr)
  with w obtain q where "chain_head H zeros (filter (\<lambda>e. ev_run_id e = row_run_id r) es) = Some q"
    and "h (row_run_id r) = Some (int (length (filter (\<lambda>e. ev_run_id e = row_run_id r) es)), q)"
    by (auto simp: walk_events_Inr dest!: spec [of _ "row_run_id r"])
  moreover from this c assms(2) have "filter (\<lambda>e. ev_run_id e = row_run_id r) es \<noteq> []"
    by fastforce
  ultimately show ?thesis by blast
qed

lemma verify_sound:
  assumes "verify_event_anchors H d None = Inr ()"
  shows "ledger_sound H d"
proof -
  from assms obtain h where h: "verified_event_heads H (sort_key row_run_id (runs d)) (sort_key ev_run_id (events d)) = Inr h"
    and a: "\<forall>r\<in>set (runs d). check_anchor h r = Inr ()"
    by (auto simp: verify_event_anchors_def result_simps check_all_Inr Let_def)
  from h obtain h0 where h0: "init_heads (sort_key row_run_id (runs d)) Map.empty = Inr h0"
    and w: "walk_events H (sort_key ev_run_id (events d)) h0 = Inr h"
    by (auto simp: verified_event_heads_def result_simps)
  from h0 have ids: "distinct (map row_run_id (runs d))" "[] \<notin> row_run_id ` set (runs d)"
    by (auto simp: init_heads_Inr distinct_map)
  have known: "ev_run_id ` set (events d) \<subseteq> row_run_id ` set (runs d)"
    using w h0 by (fastforce simp: walk_events_Inr init_heads_Inr split: if_splits)
  have "anchored H d r" if "r \<in> set (runs d)" for r
  proof -
    have "r \<in> set (sort_key row_run_id (runs d))" using that by simp
    from verified_heads_value [OF h this] a that show ?thesis
      by (auto simp: anchored_def run_events_def filter_sort_events check_anchor_Inr)
  qed
  with ids known show ?thesis by (simp add: ledger_sound_def)
qed

lemma sound_verify:
  assumes "ledger_sound H d"
  shows "verify_event_anchors H d None = Inr ()"
proof -
  define h0 where "h0 = (\<lambda>k. if k \<in> row_run_id ` set (runs d) then Some (0 :: int, zeros) else None)"
  define h where "h = (\<lambda>k. if k \<in> row_run_id ` set (runs d)
      then Some (int (length (run_events d k)), the (chain_head H zeros (run_events d k))) else None)"
  have "init_heads (sort_key row_run_id (runs d)) Map.empty = Inr h0"
    using assms by (auto simp: init_heads_Inr h0_def ledger_sound_def distinct_map)
  moreover have "walk_events H (sort_key ev_run_id (events d)) h0 = Inr h"
  proof (subst walk_events_Inr, intro conjI allI)
    show "\<forall>e\<in>set (sort_key ev_run_id (events d)). h0 (ev_run_id e) \<noteq> None"
      using assms by (auto simp: h0_def ledger_sound_def)
  next
    fix k
    show "case h0 k of None \<Rightarrow> h k = None
        | Some (n, p) \<Rightarrow> \<exists>q. chain_head H p (filter (\<lambda>e. ev_run_id e = k) (sort_key ev_run_id (events d))) = Some q
          \<and> h k = Some (n + int (length (filter (\<lambda>e. ev_run_id e = k) (sort_key ev_run_id (events d)))), q)"
      using assms
      by (auto simp: h0_def h_def filter_sort_events ledger_sound_def anchored_def run_events_def)
  qed
  moreover have "check_all (\<lambda>r. case h (row_run_id r) of
         Some (n, _) \<Rightarrow> if n = 0 then
             Inl (StateError (''Run '' @ row_run_id r @ '' is missing its event chain'')) else Inr ()
       | None \<Rightarrow> Inr ()) (sort_key row_run_id (runs d)) = Inr ()"
    using assms by (auto simp: check_all_Inr h_def ledger_sound_def anchored_def)
  moreover have "check_all (check_anchor h) (sort_key row_run_id (runs d)) = Inr ()"
    using assms by (auto simp: check_all_Inr check_anchor_Inr h_def ledger_sound_def anchored_def)
  ultimately show ?thesis
    by (simp add: verify_event_anchors_def verified_event_heads_def)
qed

text \<open>
  C7. Verifying all event chains succeeds exactly when every run has a non-empty chain of
  correctly hashed, correctly linked events of known runs whose length and head are the ones
  anchored in its row.
\<close>

theorem verify_event_anchors_iff:
  "verify_event_anchors H d None = Inr () \<longleftrightarrow> ledger_sound H d"
  using verify_sound sound_verify by blast

section \<open>Appending keeps every chain\<close>

text \<open>
  What a successful append has done.  A run just inserted has no events yet, so the precondition
  allows the run itself an empty chain.
\<close>

definition chained :: "(string \<Rightarrow> string) \<Rightarrow> db \<Rightarrow> run_row \<Rightarrow> bool" where
  "chained H d r \<longleftrightarrow> chain_head H zeros (run_events d (row_run_id r)) = Some (row_event_head r)
     \<and> row_event_count r = int (length (run_events d (row_run_id r))) \<and> is_sha256 (row_event_head r)"

definition appendable :: "(string \<Rightarrow> string) \<Rightarrow> db \<Rightarrow> string \<Rightarrow> bool" where
  "appendable H d rid \<longleftrightarrow> distinct (map row_run_id (runs d)) \<and> [] \<notin> row_run_id ` set (runs d)
     \<and> ev_run_id ` set (events d) \<subseteq> row_run_id ` set (runs d)
     \<and> (\<forall>r\<in>set (runs d). if row_run_id r = rid then chained H d r else anchored H d r)"

lemma sound_appendable: "ledger_sound H d \<Longrightarrow> appendable H d rid"
  by (auto simp: ledger_sound_def appendable_def anchored_def chained_def)

definition new_event :: "(string \<Rightarrow> string) \<Rightarrow> string \<Rightarrow> string \<Rightarrow> string \<Rightarrow> (string \<times> string) list
    \<Rightarrow> instant \<Rightarrow> event_row" where
  "new_event H previous rid etype details tm = \<lparr>ev_run_id = rid, ev_occurred_at = isoformat tm,
     ev_type = etype, ev_details = canonical_details details, ev_previous_hash = previous,
     ev_hash = H (event_payload rid (isoformat tm) etype (canonical_details details) previous)\<rparr>"

lemma new_event_simps [simp]:
  "ev_run_id (new_event H p rid etype details tm) = rid"
  "ev_type (new_event H p rid etype details tm) = etype"
  "ev_occurred_at (new_event H p rid etype details tm) = isoformat tm"
  "ev_details (new_event H p rid etype details tm) = canonical_details details"
  "ev_previous_hash (new_event H p rid etype details tm) = p"
  "ev_hash (new_event H p rid etype details tm) = H (payload_of (new_event H p rid etype details tm))"
  by (simp_all add: new_event_def payload_of_def)

text \<open>The row of a run after its event: one more event, and that event's hash at the head.\<close>

definition advance :: "string \<Rightarrow> string \<Rightarrow> run_row \<Rightarrow> run_row" where
  "advance rid h r = (if row_run_id r = rid
     then r\<lparr>row_event_count := row_event_count r + 1, row_event_head := h\<rparr> else r)"

lemma advance_id [simp]: "row_run_id (advance rid h r) = row_run_id r"
  by (simp add: advance_def)

lemma append_eventD:
  assumes "append_event H d rid etype details occurred_at clock = Inr d'"
    and ids: "distinct (map row_run_id (runs d))"
  shows "\<exists>r e. r \<in> set (runs d) \<and> row_run_id r = rid
    \<and> e = new_event H (row_event_head r) rid etype details (case occurred_at of None \<Rightarrow> clock | Some t \<Rightarrow> t)
    \<and> d' = d\<lparr>events := events d @ [e], runs := map (advance rid (ev_hash e)) (runs d)\<rparr>
    \<and> runs_ok (runs d') \<and> events_ok (events d')
    \<and> row_event_count r = int (length (run_events d rid))
    \<and> ledger_head (run_events d rid) = Inr (row_event_head r) \<and> is_sha256 (row_event_head r)"
proof -
  define tm where "tm = (case occurred_at of None \<Rightarrow> clock | Some t \<Rightarrow> t)"
  from assms(1) obtain r where f: "find_run d rid = Some r"
    by (auto simp: append_event_def split: option.splits)
  define e where "e = new_event H (row_event_head r) rid etype details tm"
  define g where "g = (\<lambda>x :: run_row. row_event_count x = row_event_count r \<and> row_event_head x = row_event_head r)"
  define u where "u = (\<lambda>x :: run_row. x\<lparr>row_event_count := row_event_count r + 1, row_event_head := ev_hash e\<rparr>)"
  from f have r: "r \<in> set (runs d)" "row_run_id r = rid"
    by (auto dest: find_run_SomeD)
  from assms(1) f have c: "row_event_count r = int (length (run_events d rid))"
    and hd: "ledger_head (run_events d rid) = Inr (row_event_head r)" and sha: "is_sha256 (row_event_head r)"
    by (auto simp: append_event_def result_simps checks split: if_splits)
  have step: "bind_r (insert_event d e) (\<lambda>d1. let (rs, rowcount) = update_run (runs d1) rid g u
      in if rowcount \<noteq> 1 then Inl (StateError (''Event ledger anchor changed while appending to run '' @ rid))
         else write_runs d1 rs) = Inr d'"
    using assms(1) f c hd sha
    by (simp add: append_event_def Let_def e_def new_event_def tm_def g_def u_def
        stored_event_count_def stored_event_hash_def)
  have same: "(if row_run_id x = rid \<and> g x then u x else x) = advance rid (ev_hash e) x" if "x \<in> set (runs d)" for x
  proof (cases "row_run_id x = rid")
    case True
    with that r ids have "x = r" by (metis distinct_map inj_onD)
    with r show ?thesis by (simp add: g_def u_def advance_def)
  qed (simp add: advance_def)
  have upd: "map (\<lambda>x. if row_run_id x = rid \<and> g x then u x else x) (runs d) = map (advance rid (ev_hash e)) (runs d)"
    by (rule map_cong [OF refl same])
  from step have "d' = d\<lparr>events := events d @ [e], runs := map (advance rid (ev_hash e)) (runs d)\<rparr>"
    and "runs_ok (runs d')" and "events_ok (events d')"
    by (auto simp: insert_event_def write_runs_def update_run_def upd split: if_splits)
  with r c hd sha e_def show ?thesis unfolding tm_def by blast
qed

lemma run_events_append:
  "run_events (d\<lparr>events := events d @ [e], runs := rs\<rparr>) k =
     (if ev_run_id e = k then run_events d k @ [e] else run_events d k)"
  by (simp add: run_events_def)

lemma append_event_sound:
  assumes "append_event H d rid etype details occurred_at clock = Inr d'" and "appendable H d rid"
  shows "ledger_sound H d'"
proof -
  have ids: "distinct (map row_run_id (runs d))"
    using assms(2) by (simp add: appendable_def)
  from append_eventD [OF assms(1) ids] obtain r e where r: "r \<in> set (runs d)" "row_run_id r = rid"
    and e: "ev_run_id e = rid" "ev_previous_hash e = row_event_head r" "ev_hash e = H (payload_of e)"
    and d': "d' = d\<lparr>events := events d @ [e], runs := map (advance rid (ev_hash e)) (runs d)\<rparr>"
    and ok: "runs_ok (runs d')" and sha: "is_sha256 (row_event_head r)"
    by force
  have id: "row_run_id ` set (runs d') = row_run_id ` set (runs d)"
    by (auto simp: d' image_image)
  have "anchored H d' x" if "x \<in> set (runs d')" for x
  proof -
    from that obtain y where y: "y \<in> set (runs d)" "x = advance rid (ev_hash e) y"
      by (auto simp: d')
    have hx: "is_sha256 (row_event_head x)"
      using ok that by (auto simp: runs_ok_def run_row_ok_def list_all_iff)
    show ?thesis
    proof (cases "row_run_id y = rid")
      case True
      with y(1) r ids have [simp]: "y = r" by (metis distinct_map inj_onD)
      from assms(2) r have "chained H d r" by (auto simp: appendable_def)
      with hx y(2) r e sha show ?thesis
        by (simp add: anchored_def chained_def d' run_events_append chain_head_append advance_def)
    next
      case False
      with assms(2) y(1) have "anchored H d y" by (auto simp: appendable_def)
      with False y(2) e(1) show ?thesis
        by (simp add: anchored_def d' run_events_append advance_def)
    qed
  qed
  moreover have "distinct (map row_run_id (runs d'))"
    using ids by (simp add: d' comp_def)
  moreover have "ev_run_id ` set (events d') \<subseteq> row_run_id ` set (runs d')"
    using assms(2) r e(1) unfolding id by (auto simp: d' appendable_def)
  ultimately show ?thesis
    using assms(2) id by (simp add: ledger_sound_def appendable_def)
qed

text \<open>An appended event is the last of its run; every other run's history is untouched.\<close>

lemma append_event_history:
  assumes "append_event H d rid etype details occurred_at clock = Inr d'"
    and "distinct (map row_run_id (runs d))"
  shows "\<exists>e. run_events d' rid = run_events d rid @ [e] \<and> ev_type e = etype
      \<and> ev_details e = canonical_details details \<and> (\<forall>k. k \<noteq> rid \<longrightarrow> run_events d' k = run_events d k)"
proof -
  obtain r :: run_row and e where e: "e = new_event H (row_event_head r) rid etype details
      (case occurred_at of None \<Rightarrow> clock | Some t \<Rightarrow> t)"
    and d': "d' = d\<lparr>events := events d @ [e], runs := map (advance rid (ev_hash e)) (runs d)\<rparr>"
    using append_eventD [OF assms] by metis
  have "run_events d' k = (if k = rid then run_events d k @ [e] else run_events d k)" for k
    using e by (simp add: d' run_events_append)
  moreover have "ev_type e = etype" "ev_details e = canonical_details details"
    using e by (simp_all only: new_event_simps)
  ultimately show ?thesis by metis
qed

interpretation run_log: append_only_log
  "\<lambda>d (etype, details). append_event H d rid etype details None clock" "ledger_sound H"
  "\<lambda>d. run_events d rid"
  for H rid clock
proof (unfold_locales, goal_cases)
  case (1 d x d')
  then show ?case by (auto simp: sound_appendable intro: append_event_sound split: prod.splits)
next
  case (2 d x d')
  then show ?case
    by (auto simp: ledger_sound_def dest!: append_event_history split: prod.splits)
qed

lemma append_events_fold:
  "append_events H d rid evs clock =
     fold_result (\<lambda>d (etype, details). append_event H d rid etype details None clock) d evs"
  by (induction H d rid evs clock rule: append_events.induct) (auto intro: bind_r_cong)

lemma append_events_sound:
  "append_events H d rid evs clock = Inr d' \<Longrightarrow> ledger_sound H d \<Longrightarrow> ledger_sound H d'"
  unfolding append_events_fold by (rule run_log.appends_sound)

lemma append_events_history:
  "append_events H d rid evs clock = Inr d' \<Longrightarrow> ledger_sound H d \<Longrightarrow>
     \<exists>es. length es = length evs \<and> run_events d' rid = run_events d rid @ es"
  unfolding append_events_fold by (rule run_log.appends_history)

text \<open>Appending touches the two tables of the ledger and nothing else.\<close>

definition same_outside_ledger :: "db \<Rightarrow> db \<Rightarrow> bool" where
  "same_outside_ledger d d' \<longleftrightarrow> d' = d\<lparr>runs := runs d', events := events d'\<rparr>"

lemma same_outside_ledger_trans:
  "same_outside_ledger d d1 \<Longrightarrow> same_outside_ledger d1 d2 \<Longrightarrow> same_outside_ledger d d2"
  unfolding same_outside_ledger_def by (metis (no_types, lifting) db.surjective db.update_convs(1,2))

lemma append_event_frame:
  "append_event H d rid etype details oc clock = Inr d' \<Longrightarrow> same_outside_ledger d d'"
  by (auto simp: append_event_def insert_event_def write_runs_def same_outside_ledger_def
      result_simps Let_def update_run_def split: option.splits if_splits)

section \<open>Tamper evidence\<close>

lemma chain_head_inj:
  assumes "chain_head H p es = Some q" and "chain_head H p' es' = Some q" and "length es = length es'"
    and "inj_on H (payload_of ` (set es \<union> set es'))"
  shows "es = es'"
  using assms
proof (induction es arbitrary: es' q rule: rev_induct)
  case Nil
  then show ?case by simp
next
  case (snoc e es)
  from snoc.prems(3) obtain ds f where es': "es' = ds @ [f]" "length es = length ds"
    by (cases es' rule: rev_cases) auto
  from snoc.prems(1) have e: "chain_head H p es = Some (ev_previous_hash e)" "q = ev_hash e"
    "ev_hash e = H (payload_of e)"
    by (auto simp: chain_head_append split: option.splits if_splits)
  from snoc.prems(2) have f: "chain_head H p' ds = Some (ev_previous_hash f)" "q = ev_hash f"
    "ev_hash f = H (payload_of f)"
    by (auto simp: es' chain_head_append split: option.splits if_splits)
  from e f have "H (payload_of e) = H (payload_of f)" by simp
  then have "payload_of e = payload_of f"
    by (rule inj_onD [OF snoc.prems(4)]) (simp_all add: es')
  then have ef: "e = f"
    using e(2,3) f(2,3) unfolding payload_of_def
    by (auto dest!: event_payload_inj intro!: event_row.equality)
  with e(1) f(1) have "chain_head H p es = Some (ev_previous_hash f)"
    "chain_head H p' ds = Some (ev_previous_hash f)" by simp_all
  moreover have "inj_on H (payload_of ` (set es \<union> set ds))"
    by (rule inj_on_subset [OF snoc.prems(4)]) (auto simp: es')
  ultimately have "es = ds" using snoc.IH es'(2) by blast
  with ef es' show ?case by simp
qed

lemma verify_run_chain:
  assumes "verify_event_anchors H d (Some rid) = Inr ()" and "find_run d rid = Some r"
  shows "chain_head H zeros (run_events d rid) = Some (row_event_head r)"
    and "row_event_count r = int (length (run_events d rid))"
proof -
  from assms(2) have r: "r \<in> set (filter (\<lambda>r. row_run_id r = rid) (runs d))"
    by (auto dest: find_run_SomeD)
  from assms(1) obtain h where h: "verified_event_heads H (filter (\<lambda>r. row_run_id r = rid) (runs d)) (run_events d rid) = Inr h"
    and a: "\<forall>r\<in>set (filter (\<lambda>r. row_run_id r = rid) (runs d)). check_anchor h r = Inr ()"
    by (auto simp: verify_event_anchors_def result_simps check_all_Inr Let_def split: if_splits)
  have f: "filter (\<lambda>e. ev_run_id e = row_run_id r) (run_events d rid) = run_events d rid"
    using r by (simp add: run_events_def)
  from verified_heads_value [OF h r] a r show "chain_head H zeros (run_events d rid) = Some (row_event_head r)"
    and "row_event_count r = int (length (run_events d rid))"
    by (auto simp: f check_anchor_Inr)
qed

end
