(* ===== verification/Safety.thy ===== *)
theory Safety
  imports Leases
begin

text \<open>
  The persistent safety stops of \<open>store.py\<close>: the circuit breaker with its audit log of trips and
  resumes, the scoped holds, the escalation of maintainer stops, and the streak of runs that ended
  on a secondary rate limit.
\<close>

section \<open>Bounded texts and hold keys\<close>

definition bounded_text :: "string \<Rightarrow> string \<Rightarrow> nat \<Rightarrow> string result" where
  "bounded_text v field maximum = (let normalized = strip v in
     if normalized = [] \<or> nul \<in> set normalized \<or> maximum < length normalized then
       Inl (ValueError (field @ '' must be 1-'' @ nat_text maximum @ '' non-NUL characters''))
     else Inr normalized)"

lemma bounded_text_Inr [checks]:
  "bounded_text v f n = Inr w \<longleftrightarrow> w = strip v \<and> w \<noteq> [] \<and> nul \<notin> set w \<and> length w \<le> n"
  by (auto simp: bounded_text_def Let_def)

text \<open>\<open>_HTTPS_KEY\<close>, the full match of \<open>^https://[^\s/]+(?:/\S*)?$\<close>.\<close>

definition is_https_key :: "string \<Rightarrow> bool" where
  "is_https_key s = (startswith s ''https://'' \<and>
     (let host_char = (\<lambda>c. \<not> is_space c \<and> c \<noteq> CHR ''/'');
          rest = drop 8 s;
          path = dropWhile host_char rest
      in takeWhile host_char rest \<noteq> [] \<and>
         (path = [] \<or> (hd path = CHR ''/'' \<and> list_all (\<lambda>c. \<not> is_space c) (tl path)))))"

fun hold_key_ok :: "stop_scope \<Rightarrow> string \<Rightarrow> bool" where
  "hold_key_ok Scope_repository k = is_owner_name k"
| "hold_key_ok Scope_pull_request k = is_https_key k"
| "hold_key_ok Scope_publication k = is_https_key k"
| "hold_key_ok Scope_global k = False"

definition hold_key :: "stop_scope \<Rightarrow> string \<Rightarrow> string result" where
  "hold_key scope v =
     bind_r (lease_identity v (scope_value scope @ '' hold key'')) (\<lambda>key.
     if key \<noteq> v \<or> \<not> hold_key_ok scope key then
       Inl (ValueError (scope_value scope @ '' hold key is not canonical: '' @ v))
     else Inr key)"

lemma hold_key_Inr [checks]:
  "hold_key sc v = Inr k \<longleftrightarrow> k = v \<and> strip v = v \<and> v \<noteq> [] \<and> nul \<notin> set v \<and> length v \<le> 255 \<and> hold_key_ok sc v"
  by (auto simp: hold_key_def result_simps checks)

section \<open>The circuit breaker\<close>

definition max_active_triggers :: nat where
  "max_active_triggers = 10000"

text \<open>\<open>_active_circuit_breaker_triggers\<close>: the trips of the current epoch, oldest first.\<close>

definition epoch_trips :: "db \<Rightarrow> int \<Rightarrow> breaker_event list" where
  "epoch_trips d epoch = filter (\<lambda>e. be_epoch e = epoch \<and> be_type e = Trip) (circuit_breaker_events d)"

definition active_triggers :: "db \<Rightarrow> int \<Rightarrow> trigger list result" where
  "active_triggers d epoch = (let es = epoch_trips d epoch in
     if max_active_triggers < length es then
       Inl (StateError ''Circuit-breaker active evidence exceeds the safe bound'')
     else Inr (map (\<lambda>e. global_trigger (be_source e) (be_reason e) (be_trigger_hash e)) es))"

definition trigger_json :: "trigger \<Rightarrow> json" where
  "trigger_json t = text_object [(''reason'', trig_reason t), (''source'', trig_source t),
     (''trigger_hash'', trig_hash t)]"

definition breaker_revision :: "(string \<Rightarrow> string) \<Rightarrow> trigger list \<Rightarrow> string result" where
  "breaker_revision H ts = (if ts = [] then Inl (StateError ''Circuit-breaker active evidence is missing'')
     else Inr (H (dumps (JList (map trigger_json ts)))))"

text \<open>
  \<open>_trip_circuit_breaker\<close>.  The insertion conflicts with an event of the same type and hash, in any
  epoch; the same evidence again changes nothing, different evidence under the hash is refused.
\<close>

definition trip_circuit_breaker :: "db \<Rightarrow> string \<Rightarrow> string \<Rightarrow> string \<Rightarrow> instant \<Rightarrow> (db \<times> bool) result" where
  "trip_circuit_breaker d source reason trigger_hash clock =
     bind_r (bounded_text source ''circuit-breaker source'' 255) (\<lambda>src.
     bind_r (bounded_text reason ''circuit-breaker reason'' 2000) (\<lambda>rsn.
     bind_r (lease_identity trigger_hash ''circuit-breaker trigger hash'') (\<lambda>hash.
     bind_r (stored_generation (br_epoch (circuit_breaker d)) ''circuit-breaker epoch'') (\<lambda>epoch.
     case List.find (\<lambda>e. be_type e = Trip \<and> be_trigger_hash e = hash) (circuit_breaker_events d) of
       Some e \<Rightarrow>
         if be_source e \<noteq> src \<or> be_reason e \<noteq> rsn then
           Inl (StateError ''Circuit-breaker trigger hash was reused for different evidence'')
         else Inr (d, False)
     | None \<Rightarrow>
         Inr (d\<lparr>circuit_breaker_events := circuit_breaker_events d @
                [\<lparr>be_epoch = epoch, be_occurred_at = clock, be_type = Trip, be_source = src,
                  be_reason = rsn, be_trigger_hash = hash\<rparr>],
              circuit_breaker := \<lparr>br_is_tripped = True, br_epoch = epoch, br_changed_at = clock,
                br_source = Some src, br_reason = Some rsn, br_trigger_hash = Some hash\<rparr>\<rparr>, True)))))"

record breaker_status =
  bs_is_tripped :: bool
  bs_epoch :: int
  bs_source :: "string option"
  bs_reason :: "string option"
  bs_trigger_hash :: "string option"
  bs_active_revision :: "string option"
  bs_active_triggers :: "trigger list"

definition circuit_breaker_status :: "(string \<Rightarrow> string) \<Rightarrow> db \<Rightarrow> breaker_status result" where
  "circuit_breaker_status H d = (let row = circuit_breaker d in
     bind_r (stored_generation (br_epoch row) ''circuit-breaker epoch'') (\<lambda>epoch.
     bind_r (active_triggers d epoch) (\<lambda>active.
     let evidence = [br_source row, br_reason row, br_trigger_hash row] in
     if (br_is_tripped row \<and> \<not> list_all (\<lambda>x. x \<noteq> None) evidence)
        \<or> (\<not> br_is_tripped row \<and> list_ex (\<lambda>x. x \<noteq> None) evidence) then
       Inl (StateError ''Circuit-breaker state is internally inconsistent'')
     else if br_is_tripped row \<noteq> (active \<noteq> []) then
       Inl (StateError ''Circuit-breaker active evidence is internally inconsistent'')
     else
       bind_r (if active = [] then Inr None
               else bind_r (breaker_revision H active) (\<lambda>r. Inr (Some r))) (\<lambda>revision.
       Inr \<lparr>bs_is_tripped = br_is_tripped row, bs_epoch = epoch, bs_source = br_source row,
         bs_reason = br_reason row, bs_trigger_hash = br_trigger_hash row,
         bs_active_revision = revision, bs_active_triggers = active\<rparr>))))"

definition assert_circuit_breaker_clear :: "(string \<Rightarrow> string) \<Rightarrow> db \<Rightarrow> unit result" where
  "assert_circuit_breaker_clear H d =
     bind_r (circuit_breaker_status H d) (\<lambda>s.
     if bs_is_tripped s then
       Inl (StateError (''Circuit breaker is tripped by '' @ the (bs_source s) @ '': '' @ the (bs_reason s)))
     else Inr ())"

text \<open>
  \<open>resume_circuit_breaker\<close>: only the exact set of active triggers that was reviewed, named by its
  revision.  The \<open>resume\<close> event is unique by its hash as well.
\<close>

definition resume_circuit_breaker :: "(string \<Rightarrow> string) \<Rightarrow> db \<Rightarrow> string \<Rightarrow> string \<Rightarrow> string \<Rightarrow> instant
    \<Rightarrow> (db \<times> bool) result" where
  "resume_circuit_breaker H d actor reason expected clock =
     bind_r (bounded_text actor ''resume actor'' 255) (\<lambda>actor'.
     bind_r (bounded_text reason ''resume reason'' 2000) (\<lambda>reason'.
     bind_r (lease_identity expected ''expected circuit-breaker trigger hash'') (\<lambda>expected'.
     if \<not> br_is_tripped (circuit_breaker d) then Inr (d, False)
     else
       bind_r (stored_generation (br_epoch (circuit_breaker d)) ''circuit-breaker epoch'') (\<lambda>epoch.
       bind_r (active_triggers d epoch) (\<lambda>active.
       bind_r (breaker_revision H active) (\<lambda>revision.
       if revision \<noteq> expected' then
         Inl (StateError ''Circuit-breaker evidence changed after review; inspect the active trigger-set revision before resuming'')
       else if epoch \<ge> max_generation then
         Inl (StateError ''Circuit breaker exhausted its audit epochs'')
       else if List.find (\<lambda>e. be_type e = Resume \<and> be_trigger_hash e = expected') (circuit_breaker_events d) \<noteq> None
         then Inl (IntegrityError ''circuit_breaker_events'')
       else if br_trigger_hash (circuit_breaker d) = None then
         Inl (StateError ''Circuit-breaker state changed while resuming'')
       else
         Inr (d\<lparr>circuit_breaker_events := circuit_breaker_events d @
                [\<lparr>be_epoch = epoch, be_occurred_at = clock, be_type = Resume, be_source = actor',
                  be_reason = reason', be_trigger_hash = expected'\<rparr>],
              circuit_breaker := \<lparr>br_is_tripped = False, br_epoch = epoch + 1, br_changed_at = clock,
                br_source = None, br_reason = None, br_trigger_hash = None\<rparr>\<rparr>, True)))))))"

text \<open>\<open>_verify_circuit_breaker_evidence\<close>, the check when the database is opened.\<close>

definition verify_circuit_breaker_evidence :: "db \<Rightarrow> unit result" where
  "verify_circuit_breaker_evidence d = (let row = circuit_breaker d in
     bind_r (stored_generation (br_epoch row) ''circuit-breaker epoch'') (\<lambda>epoch.
     let active = epoch_trips d epoch in
     if max_active_triggers < length active then
       Inl (StateError ''Circuit-breaker active evidence exceeds the safe bound'')
     else if br_is_tripped row \<noteq> (active \<noteq> []) then
       Inl (StateError ''Circuit-breaker state disagrees with its active evidence'')
     else if active \<noteq> [] \<and> (Some (be_source (last active)) \<noteq> br_source row
          \<or> Some (be_reason (last active)) \<noteq> br_reason row
          \<or> Some (be_trigger_hash (last active)) \<noteq> br_trigger_hash row) then
       Inl (StateError ''Circuit-breaker state does not identify its latest trigger'')
     else Inr ()))"

section \<open>Holds\<close>

definition escalation_repositories :: nat where
  "escalation_repositories = 2"

definition escalation_window :: timedelta where
  "escalation_window = 30 * day"

text \<open>
  \<open>SELECT DISTINCT scope_key ... COLLATE NOCASE\<close>: the repositories that hold work on a maintainer's
  stop recorded in the window and not released.
\<close>

definition counted_hold :: "instant \<Rightarrow> hold_row \<Rightarrow> bool" where
  "counted_hold since h \<longleftrightarrow> hold_scope h = Scope_repository \<and> hold_counts_toward_escalation h
     \<and> hold_released h = None \<and> since \<le> hold_created_at h"

definition escalating_repositories :: "hold_row list \<Rightarrow> instant \<Rightarrow> string list" where
  "escalating_repositories hs since = remdups (map (\<lambda>h. nocase (hold_scope_key h)) (filter (counted_hold since) hs))"

text \<open>
  The escalation at the end of \<open>record_stop\<close>: enough such repositories trip the breaker.
\<close>

definition escalate_stop :: "(string \<Rightarrow> string) \<Rightarrow> db \<Rightarrow> string \<Rightarrow> string \<Rightarrow> instant \<Rightarrow> instant \<Rightarrow> (db \<times> bool) result" where
  "escalate_stop H d hash key clock clock' =
     bind_r (shift clock (- escalation_window)) (\<lambda>since.
     let held = escalating_repositories (holds d) since in
     if length held \<ge> escalation_repositories then
       bind_r (trip_circuit_breaker d ''escalation:maintainer_stops''
           (''Maintainers of '' @ nat_text (length held) @ '' repositories turned away automated '' @
            ''contributions within 30 days, most recently '' @ key)
           (H (''maintainer-stop-escalation:'' @ hash)) clock')
         (\<lambda>(d2, _). Inr (d2, True))
     else Inr (d, True))"

text \<open>
  \<open>record_stop\<close>.  \<open>new_id\<close> is the row id that \<open>AUTOINCREMENT\<close> hands out; \<open>clock\<close> and \<open>clock'\<close>
  are the two readings of \<open>utc_now\<close>, the second one by an escalation.
\<close>

definition record_hold :: "(string \<Rightarrow> string) \<Rightarrow> db \<Rightarrow> trigger \<Rightarrow> int \<Rightarrow> instant \<Rightarrow> instant \<Rightarrow> (db \<times> bool) result" where
  "record_hold H d t new_id clock clock' =
     bind_r (hold_key (trig_scope t) (trig_scope_key t)) (\<lambda>key.
     bind_r (bounded_text (trig_source t) ''hold source'' 255) (\<lambda>src.
     bind_r (bounded_text (trig_reason t) ''hold reason'' 2000) (\<lambda>rsn.
     bind_r (lease_identity (trig_hash t) ''hold trigger hash'') (\<lambda>hash.
     bind_r (case trig_expires_at t of None \<Rightarrow> Inr None
             | Some x \<Rightarrow> bind_r (aware_utc x ''hold expiry'') (\<lambda>e. Inr (Some e))) (\<lambda>expires.
     case List.find (\<lambda>h. hold_trigger_hash h = hash) (holds d) of
       Some h \<Rightarrow>
         if hold_scope h \<noteq> trig_scope t \<or> casefold (hold_scope_key h) \<noteq> casefold key
            \<or> hold_source h \<noteq> src \<or> hold_reason h \<noteq> rsn then
           Inl (StateError ''Hold trigger hash was reused for different evidence'')
         else Inr (d, False)
     | None \<Rightarrow>
         let d1 = d\<lparr>holds := holds d @ [\<lparr>hold_id = new_id, hold_scope = trig_scope t, hold_scope_key = key,
               hold_source = src, hold_reason = rsn, hold_trigger_hash = hash,
               hold_counts_toward_escalation = trig_counts_toward_escalation t, hold_created_at = clock,
               hold_expires_at = expires, hold_released = None\<rparr>]\<rparr>
         in if trig_counts_toward_escalation t then
              escalate_stop H d1 hash key clock clock'
            else Inr (d1, True))))))"

definition record_stop :: "(string \<Rightarrow> string) \<Rightarrow> db \<Rightarrow> trigger \<Rightarrow> int \<Rightarrow> instant \<Rightarrow> instant \<Rightarrow> (db \<times> bool) result" where
  "record_stop H d t new_id clock clock' =
     (if trig_scope t = Scope_global then
        if trig_scope_key t \<noteq> [] \<or> trig_expires_at t \<noteq> None \<or> trig_counts_toward_escalation t then
          Inl (ValueError ''a global stop has no scope key, expiry, or escalation'')
        else trip_circuit_breaker d (trig_source t) (trig_reason t) (trig_hash t) clock
      else if trig_counts_toward_escalation t \<and> trig_scope t \<noteq> Scope_repository then
        Inl (ValueError ''only repository holds count toward escalation'')
      else record_hold H d t new_id clock clock')"

definition hold_active :: "instant \<Rightarrow> hold_row \<Rightarrow> bool" where
  "hold_active tm h \<longleftrightarrow> hold_released h = None \<and> (case hold_expires_at h of None \<Rightarrow> True | Some e \<Rightarrow> tm < e)"

text \<open>\<open>ORDER BY id\<close>; the stop's evidence is returned as the row.\<close>

definition active_holds :: "db \<Rightarrow> instant \<Rightarrow> hold_row list" where
  "active_holds d clock = sort_key hold_id (filter (hold_active clock) (holds d))"

definition release_hold :: "db \<Rightarrow> int \<Rightarrow> string \<Rightarrow> string \<Rightarrow> instant \<Rightarrow> (db \<times> bool) result" where
  "release_hold d hid actor reason clock =
     (if hid < 1 then Inl (ValueError ''hold ID must be a positive integer'')
      else
        bind_r (bounded_text actor ''release actor'' 255) (\<lambda>released_by.
        bind_r (bounded_text reason ''release reason'' 2000) (\<lambda>release_reason.
        if hid \<notin> hold_id ` set (holds d) then Inl (StateError (''Unknown hold: '' @ int_text hid))
        else
          Inr (d\<lparr>holds := map (\<lambda>h :: hold_row. if hold_id h = hid \<and> hold_released h = None
                 then h\<lparr>hold_released := Some (clock, released_by, release_reason)\<rparr> else h) (holds d)\<rparr>,
               list_ex (\<lambda>h. hold_id h = hid \<and> hold_released h = None) (holds d)))))"

definition blocks_publication :: "string \<Rightarrow> string option \<Rightarrow> hold_row \<Rightarrow> bool" where
  "blocks_publication repo url h \<longleftrightarrow> hold_scope h = Scope_publication
     \<or> hold_scope h = Scope_repository \<and> casefold (hold_scope_key h) = casefold repo
     \<or> hold_scope h = Scope_pull_request \<and> (case url of None \<Rightarrow> False
         | Some u \<Rightarrow> casefold (hold_scope_key h) = casefold u)"

definition assert_publication_not_held :: "db \<Rightarrow> string \<Rightarrow> string option \<Rightarrow> instant \<Rightarrow> unit result" where
  "assert_publication_not_held d repo url clock =
     check_all (\<lambda>h. if blocks_publication repo url h
       then Inl (PolicyError (''Publication is held by '' @ hold_source h @ '': '' @ hold_reason h @
         '' (release it with `autocontribute safety release '' @ int_text (hold_id h) @ ''` after review)''))
       else Inr ()) (active_holds d clock)"

section \<open>The secondary rate-limit streak\<close>

definition escalation_runs :: int where
  "escalation_runs = 3"

text \<open>
  \<open>str(row["started_at"] or utc_now().isoformat())\<close>: the stored start, when the streak has one.
\<close>

definition record_run_rate_limits :: "(string \<Rightarrow> string) \<Rightarrow> db \<Rightarrow> bool \<Rightarrow> instant \<Rightarrow> instant \<Rightarrow> (db \<times> bool) result" where
  "record_run_rate_limits H d on_limit clock clock' =
     (let s = secondary_rate_limit_streak d;
          n = consecutive_runs s + 1;
          started = (case streak_started_at s of
              None \<Rightarrow> isoformat clock | Some x \<Rightarrow> if x = [] then isoformat clock else x)
      in if on_limit \<and> n < escalation_runs then
           Inr (d\<lparr>secondary_rate_limit_streak := \<lparr>consecutive_runs = n, streak_started_at = Some started\<rparr>\<rparr>, False)
         else
           let d1 = d\<lparr>secondary_rate_limit_streak := \<lparr>consecutive_runs = 0, streak_started_at = None\<rparr>\<rparr>
           in if \<not> on_limit then Inr (d1, False)
              else trip_circuit_breaker d1 ''escalation:secondary_rate_limits''
                (int_text n @ '' consecutive runs ended on a GitHub secondary rate limit, '' @
                 ''the first at '' @ started @ ''; spread the schedule out before resuming'')
                (H (''secondary-rate-limit-streak:'' @ started)) clock')"

section \<open>The breaker agrees with its evidence\<close>

definition trip_hashes :: "db \<Rightarrow> string list" where
  "trip_hashes d = map be_trigger_hash (filter (\<lambda>e. be_type e = Trip) (circuit_breaker_events d))"

definition breaker_wf :: "db \<Rightarrow> bool" where
  "breaker_wf d \<longleftrightarrow> (let row = circuit_breaker d; trips = epoch_trips d (br_epoch row) in
     1 \<le> br_epoch row \<and> br_epoch row \<le> max_generation
     \<and> (\<forall>e\<in>set (circuit_breaker_events d). be_epoch e \<le> br_epoch row)
     \<and> distinct (trip_hashes d)
     \<and> (if br_is_tripped row
        then trips \<noteq> [] \<and> br_source row = Some (be_source (last trips))
          \<and> br_reason row = Some (be_reason (last trips))
          \<and> br_trigger_hash row = Some (be_trigger_hash (last trips))
        else trips = [] \<and> br_source row = None \<and> br_reason row = None \<and> br_trigger_hash row = None))"

lemma breaker_wf_create [simp]: "breaker_wf (create_schema t)"
  by (simp add: breaker_wf_def create_schema_def epoch_trips_def trip_hashes_def max_generation_def)

text \<open>The operations that leave the breaker and its log alone.\<close>

definition same_breaker :: "db \<Rightarrow> db \<Rightarrow> bool" where
  "same_breaker d d' \<longleftrightarrow> circuit_breaker d' = circuit_breaker d
     \<and> circuit_breaker_events d' = circuit_breaker_events d"

lemma same_breaker_wf: "same_breaker d d' \<Longrightarrow> breaker_wf d' \<longleftrightarrow> breaker_wf d"
  by (simp add: same_breaker_def breaker_wf_def epoch_trips_def trip_hashes_def)

lemma trip_cases:
  assumes "trip_circuit_breaker d source reason hash clock = Inr (d', b)"
  obtains (known) e where "\<not> b" and "d' = d" and "e \<in> set (circuit_breaker_events d)" and "be_type e = Trip"
      and "be_trigger_hash e = strip hash" and "be_source e = strip source" and "be_reason e = strip reason"
  | (new) e where "b" and "strip hash \<notin> set (trip_hashes d)" and "be_type e = Trip"
      and "be_epoch e = br_epoch (circuit_breaker d)" and "be_trigger_hash e = strip hash"
      and "be_source e = strip source" and "be_reason e = strip reason"
      and "d' = d\<lparr>circuit_breaker_events := circuit_breaker_events d @ [e],
           circuit_breaker := \<lparr>br_is_tripped = True, br_epoch = be_epoch e, br_changed_at = clock,
             br_source = Some (be_source e), br_reason = Some (be_reason e),
             br_trigger_hash = Some (be_trigger_hash e)\<rparr>\<rparr>"
proof (cases "List.find (\<lambda>e. be_type e = Trip \<and> be_trigger_hash e = strip hash) (circuit_breaker_events d)")
  case None
  let ?e = "\<lparr>be_epoch = br_epoch (circuit_breaker d), be_occurred_at = clock, be_type = Trip,
    be_source = strip source, be_reason = strip reason, be_trigger_hash = strip hash\<rparr>"
  from None have "strip hash \<notin> set (trip_hashes d)" by (auto simp: trip_hashes_def find_None)
  with None assms show thesis
    by (intro new [of ?e]) (auto simp: trip_circuit_breaker_def result_simps checks)
next
  case (Some e)
  with assms show thesis
    by (auto simp: trip_circuit_breaker_def result_simps checks split: if_splits dest: find_SomeD intro!: known)
qed

lemma trip_wf:
  assumes "trip_circuit_breaker d source reason hash clock = Inr (d', b)" and "breaker_wf d"
  shows "breaker_wf d'"
  using assms(1)
proof (cases rule: trip_cases)
  case (new e)
  with assms(2) show ?thesis
    by (auto simp: breaker_wf_def epoch_trips_def trip_hashes_def Let_def)
qed (use assms(2) in simp)

lemma epoch_trips_future:
  "\<forall>e\<in>set (circuit_breaker_events d). be_epoch e \<le> n \<Longrightarrow> n < k \<Longrightarrow> epoch_trips d k = []"
  by (auto simp: epoch_trips_def filter_empty_conv)

text \<open>What a resume has checked and done.\<close>

lemma resume_cases:
  assumes "resume_circuit_breaker H d actor reason expected clock = Inr (d', b)"
  obtains (clear) "\<not> b" and "d' = d" and "\<not> br_is_tripped (circuit_breaker d)"
  | (resumed) ts e where "b" and "br_is_tripped (circuit_breaker d)"
      and "active_triggers d (br_epoch (circuit_breaker d)) = Inr ts"
      and "breaker_revision H ts = Inr (strip expected)"
      and "br_epoch (circuit_breaker d) < max_generation" and "be_type e = Resume"
      and "be_epoch e = br_epoch (circuit_breaker d)"
      and "d' = d\<lparr>circuit_breaker_events := circuit_breaker_events d @ [e],
           circuit_breaker := \<lparr>br_is_tripped = False, br_epoch = be_epoch e + 1, br_changed_at = clock,
             br_source = None, br_reason = None, br_trigger_hash = None\<rparr>\<rparr>"
proof (cases "br_is_tripped (circuit_breaker d)")
  case True
  let ?e = "\<lparr>be_epoch = br_epoch (circuit_breaker d), be_occurred_at = clock, be_type = Resume,
    be_source = strip actor, be_reason = strip reason, be_trigger_hash = strip expected\<rparr>"
  from True assms obtain ts where "active_triggers d (br_epoch (circuit_breaker d)) = Inr ts"
    "breaker_revision H ts = Inr (strip expected)" "br_epoch (circuit_breaker d) < max_generation"
    "b \<and> d' = d\<lparr>circuit_breaker_events := circuit_breaker_events d @ [?e],
       circuit_breaker := \<lparr>br_is_tripped = False, br_epoch = be_epoch ?e + 1, br_changed_at = clock,
         br_source = None, br_reason = None, br_trigger_hash = None\<rparr>\<rparr>"
    by (auto simp: resume_circuit_breaker_def result_simps checks split: if_splits)
  then show thesis by (intro resumed [of ts ?e]) (use True in auto)
next
  case False
  with assms show thesis
    by (intro clear) (auto simp: resume_circuit_breaker_def result_simps checks)
qed

lemma resume_wf:
  assumes "resume_circuit_breaker H d actor reason expected clock = Inr (d', b)" and "breaker_wf d"
  shows "breaker_wf d'"
  using assms(1)
proof (cases rule: resume_cases)
  case (resumed ts e)
  from assms(2) have all: "\<forall>e\<in>set (circuit_breaker_events d). be_epoch e \<le> br_epoch (circuit_breaker d)"
    by (simp add: breaker_wf_def Let_def)
  have "epoch_trips d' (br_epoch (circuit_breaker d')) = []"
    using epoch_trips_future [OF all, of "br_epoch (circuit_breaker d) + 1"] resumed
    by (simp add: epoch_trips_def)
  moreover have "trip_hashes d' = trip_hashes d"
    using resumed by (simp add: trip_hashes_def)
  ultimately show ?thesis
    using assms(2) resumed by (force simp: breaker_wf_def Let_def)
qed (use assms(2) in simp)

text \<open>A recorded stop and an ended run reach the breaker only through a trip.\<close>

lemma same_breaker_updates [simp]:
  "same_breaker d d" "same_breaker d (d\<lparr>holds := hs\<rparr>)" "same_breaker d (d\<lparr>secondary_rate_limit_streak := s\<rparr>)"
  by (simp_all add: same_breaker_def)

lemma escalate_stop_trip:
  assumes "escalate_stop H d hash key clock clock' = Inr (d', b)"
  shows "d' = d \<or> (\<exists>s r h b'. trip_circuit_breaker d s r h clock' = Inr (d', b'))"
  using assms by (auto simp: escalate_stop_def result_simps Let_def split: if_splits)

lemma record_hold_trip:
  assumes "record_hold H d t i clock clock' = Inr (d', b)"
  shows "same_breaker d d'
    \<or> (\<exists>d1 s r h b'. same_breaker d d1 \<and> trip_circuit_breaker d1 s r h clock' = Inr (d', b'))"
proof -
  from assms have "d' = d \<or> (\<exists>hs. d' = d\<lparr>holds := hs\<rparr>)
      \<or> (\<exists>hs hash key. escalate_stop H (d\<lparr>holds := hs\<rparr>) hash key clock clock' = Inr (d', b))"
    by (auto simp: record_hold_def result_simps Let_def split: option.splits if_splits)
  then show ?thesis
    by (metis escalate_stop_trip same_breaker_updates(1,2))
qed

lemma record_run_trip:
  assumes "record_run_rate_limits H d l clock clock' = Inr (d', b)"
  shows "same_breaker d d'
    \<or> (\<exists>d1 s r h. same_breaker d d1 \<and> trip_circuit_breaker d1 s r h clock' = Inr (d', b))"
proof -
  let ?d1 = "d\<lparr>secondary_rate_limit_streak := \<lparr>consecutive_runs = 0, streak_started_at = None\<rparr>\<rparr>"
  from assms have "same_breaker d d' \<or> (\<exists>s r h. trip_circuit_breaker ?d1 s r h clock' = Inr (d', b))"
    unfolding record_run_rate_limits_def Let_def by (auto split: if_splits)
  then show ?thesis by (metis same_breaker_updates(3))
qed

section \<open>Histories of safety operations\<close>

inductive safety_step :: "(string \<Rightarrow> string) \<Rightarrow> db \<Rightarrow> db \<Rightarrow> bool" for H where
  trip: "trip_circuit_breaker d source reason hash clock = Inr (d', b) \<Longrightarrow> safety_step H d d'"
| resume: "resume_circuit_breaker H d actor reason expected clock = Inr (d', b) \<Longrightarrow> safety_step H d d'"
| stop: "record_stop H d t new_id clock clock' = Inr (d', b) \<Longrightarrow> safety_step H d d'"
| run_ended: "record_run_rate_limits H d on_limit clock clock' = Inr (d', b) \<Longrightarrow> safety_step H d d'"
| other: "same_breaker d d' \<Longrightarrow> safety_step H d d'"

abbreviation safety_history :: "(string \<Rightarrow> string) \<Rightarrow> db \<Rightarrow> db \<Rightarrow> bool" where
  "safety_history H \<equiv> (safety_step H)\<^sup>*\<^sup>*"

text \<open>Releasing a hold and the lease operations are among the other steps.\<close>

lemma release_hold_other:
  "release_hold d hid actor reason clock = Inr (d', b) \<Longrightarrow> same_breaker d d'"
  by (auto simp: release_hold_def result_simps same_breaker_def split: if_splits)

text \<open>Every step that touches the breaker is a trip or a resume of a state that agrees on it.\<close>

lemma safety_step_cases:
  assumes "safety_step H d d'"
  obtains (quiet) "same_breaker d d'"
  | (tripped) d1 s r h clock b where "same_breaker d d1" and "trip_circuit_breaker d1 s r h clock = Inr (d', b)"
  | (resumed) actor reason expected clock b where
      "resume_circuit_breaker H d actor reason expected clock = Inr (d', b)"
  using assms
proof (cases rule: safety_step.cases)
  case (trip source reason hash clock b)
  then show thesis using tripped same_breaker_updates(1) by blast
next
  case (resume actor reason expected clock b)
  then show thesis by (rule resumed)
next
  case (stop t new_id clock clock' b)
  show thesis
  proof (cases "trig_scope t = Scope_global")
    case True
    with stop have "trip_circuit_breaker d (trig_source t) (trig_reason t) (trig_hash t) clock = Inr (d', b)"
      by (simp add: record_stop_def split: if_splits)
    then show thesis by (rule tripped [OF same_breaker_updates(1)])
  next
    case False
    with stop have "record_hold H d t new_id clock clock' = Inr (d', b)"
      by (auto simp: record_stop_def split: if_splits)
    then show thesis using record_hold_trip quiet tripped by blast
  qed
next
  case (run_ended on_limit clock clock' b)
  then show thesis using record_run_trip quiet tripped by blast
next
  case other
  then show thesis by (rule quiet)
qed

lemma safety_step_wf: "safety_step H d d' \<Longrightarrow> breaker_wf d \<Longrightarrow> breaker_wf d'"
  by (erule safety_step_cases) (auto simp: same_breaker_wf intro: trip_wf resume_wf)

lemma safety_history_wf: "safety_history H d d' \<Longrightarrow> breaker_wf d \<Longrightarrow> breaker_wf d'"
  by (induction rule: rtranclp_induct) (auto intro: safety_step_wf)

text \<open>The audit log only grows.\<close>

lemma safety_step_log:
  "safety_step H d d' \<Longrightarrow> \<exists>es. circuit_breaker_events d' = circuit_breaker_events d @ es"
proof (erule safety_step_cases)
  fix d1 s r h clock b
  assume "same_breaker d d1" and "trip_circuit_breaker d1 s r h clock = Inr (d', b)"
  then show ?thesis by (auto simp: same_breaker_def elim!: trip_cases)
qed (auto simp: same_breaker_def elim: resume_cases)

lemma safety_history_log:
  "safety_history H d d' \<Longrightarrow> \<exists>es. circuit_breaker_events d' = circuit_breaker_events d @ es"
  by (induction rule: rtranclp_induct) (auto dest!: safety_step_log)

section \<open>Properties\<close>

text \<open>
  C31. In every state reached by safety operations the stored breaker row agrees with the audit
  log: the breaker is tripped exactly when the current epoch has trips, the row names the last
  of them, and work may go on exactly when there are none; up to 10,000 trips in the epoch,
  opening the database accepts it and the status lists exactly these triggers, and above that
  both are refused with the error for too much evidence.
\<close>

theorem breaker_evidence:
  assumes "safety_history H (create_schema t) d"
  shows "let row = circuit_breaker d; trips = epoch_trips d (br_epoch row); over = max_active_triggers < length trips;
      refusal = Inl (StateError ''Circuit-breaker active evidence exceeds the safe bound'') in
    (br_is_tripped row \<longleftrightarrow> trips \<noteq> [])
    \<and> (trips \<noteq> [] \<longrightarrow> br_source row = Some (be_source (last trips)) \<and> br_reason row = Some (be_reason (last trips))
        \<and> br_trigger_hash row = Some (be_trigger_hash (last trips)))
    \<and> verify_circuit_breaker_evidence d = (if over then refusal else Inr ())
    \<and> (if over then circuit_breaker_status H d = Inl (StateError ''Circuit-breaker active evidence exceeds the safe bound'')
       else \<exists>s. circuit_breaker_status H d = Inr s \<and> (bs_is_tripped s \<longleftrightarrow> trips \<noteq> [])
         \<and> bs_active_triggers s = map (\<lambda>e. global_trigger (be_source e) (be_reason e) (be_trigger_hash e)) trips
         \<and> (bs_active_revision s \<noteq> None \<longleftrightarrow> trips \<noteq> []))
    \<and> (assert_circuit_breaker_clear H d = Inr () \<longleftrightarrow> trips = [])"
proof -
  have wf: "breaker_wf d"
    by (rule safety_history_wf [OF assms(1) breaker_wf_create])
  show ?thesis
    using wf
    by (cases "br_is_tripped (circuit_breaker d)")
      (auto simp: breaker_wf_def verify_circuit_breaker_evidence_def circuit_breaker_status_def active_triggers_def Let_def
        stored_generation_def breaker_revision_def assert_circuit_breaker_clear_def)
qed

text \<open>
  Evidence that tripped the breaker once never trips it again: in every later state, after
  any resumes and other stops, the same trip is recognised and changes nothing.
\<close>

theorem evidence_trips_once:
  assumes "trip_circuit_breaker d source reason hash clock = Inr (d1, b)"
    and "safety_history H d1 d2" and "breaker_wf d"
  shows "trip_circuit_breaker d2 source reason hash clock' = Inr (d2, False)"
proof -
  have wf: "breaker_wf d2"
    using safety_history_wf [OF assms(2) trip_wf [OF assms(1,3)]] .
  from assms(1) obtain e where e: "e \<in> set (circuit_breaker_events d1)" "be_type e = Trip"
    "be_trigger_hash e = strip hash" "be_source e = strip source" "be_reason e = strip reason"
    by (cases rule: trip_cases) auto
  with safety_history_log [OF assms(2)] have e2: "e \<in> set (circuit_breaker_events d2)" by auto
  have same: "x = e" if "List.find (\<lambda>e. be_type e = Trip \<and> be_trigger_hash e = strip hash)
      (circuit_breaker_events d2) = Some x" for x
  proof -
    from find_SomeD [OF that] have x: "x \<in> set (circuit_breaker_events d2)" "be_type x = Trip"
      "be_trigger_hash x = strip hash" by auto
    from wf have "inj_on be_trigger_hash (set (filter (\<lambda>e. be_type e = Trip) (circuit_breaker_events d2)))"
      by (auto simp: breaker_wf_def trip_hashes_def Let_def distinct_map)
    then show ?thesis by (rule inj_onD) (use x e e2 in auto)
  qed
  from assms(1) have ok: "bounded_text source ''circuit-breaker source'' 255 = Inr (strip source)"
    "bounded_text reason ''circuit-breaker reason'' 2000 = Inr (strip reason)"
    "lease_identity hash ''circuit-breaker trigger hash'' = Inr (strip hash)"
    by (auto simp: trip_circuit_breaker_def result_simps checks)
  have gen: "stored_generation (br_epoch (circuit_breaker d2)) ''circuit-breaker epoch'' = Inr (br_epoch (circuit_breaker d2))"
    using wf by (simp add: stored_generation_def breaker_wf_def Let_def)
  have "List.find (\<lambda>e. be_type e = Trip \<and> be_trigger_hash e = strip hash) (circuit_breaker_events d2) \<noteq> None"
    using e e2 by (auto simp: find_None)
  then have "List.find (\<lambda>e. be_type e = Trip \<and> be_trigger_hash e = strip hash) (circuit_breaker_events d2) = Some e"
    using same by blast
  with ok gen e show ?thesis by (simp add: trip_circuit_breaker_def)
qed

text \<open>A revision names the fields of every active trigger, in order.\<close>

definition trigger_fields :: "trigger \<Rightarrow> (string \<times> string) list" where
  "trigger_fields t = [(''reason'', trig_reason t), (''source'', trig_source t), (''trigger_hash'', trig_hash t)]"

lemma sort_trigger_fields: "sort_key fst (trigger_fields t) = trigger_fields t"
  by (simp add: trigger_fields_def less_list_code)

lemma revision_payload_inj:
  assumes "dumps (JList (map trigger_json ts)) = dumps (JList (map trigger_json ts'))"
  shows "map trigger_fields ts = map trigger_fields ts'"
proof -
  have "map trigger_json us = map text_object (map trigger_fields us)" for us
    by (simp add: trigger_json_def trigger_fields_def comp_def)
  with assms have "map (sort_key fst) (map trigger_fields ts) = map (sort_key fst) (map trigger_fields ts')"
    by (intro dumps_text_objects_inj) simp
  then show ?thesis by (simp add: comp_def sort_trigger_fields)
qed

text \<open>
  C30. Resuming the circuit breaker succeeds only when the revision the operator reviewed names
  exactly the active triggers, field by field and in order (if the digest does not collide on
  the two); it clears the breaker and opens the next audit epoch.
\<close>

theorem resume_reviewed_evidence:
  assumes "resume_circuit_breaker H d actor reason expected clock = Inr (d', True)"
    and "active_triggers d (br_epoch (circuit_breaker d)) = Inr active"
    and "breaker_revision H reviewed = Inr (strip expected)"
    and "inj_on H {dumps (JList (map trigger_json active)), dumps (JList (map trigger_json reviewed))}"
  shows "map trigger_fields active = map trigger_fields reviewed
    \<and> \<not> br_is_tripped (circuit_breaker d') \<and> br_epoch (circuit_breaker d') = br_epoch (circuit_breaker d) + 1"
  using assms(1)
proof (cases rule: resume_cases)
  case (resumed ts e)
  with assms(2) have ts: "ts = active" by simp
  have "H (dumps (JList (map trigger_json active))) = H (dumps (JList (map trigger_json reviewed)))"
    using resumed(4) assms(3) unfolding ts by (auto simp: breaker_revision_def split: if_splits)
  then have "dumps (JList (map trigger_json active)) = dumps (JList (map trigger_json reviewed))"
    using assms(4) by (auto dest: inj_onD)
  then have "map trigger_fields active = map trigger_fields reviewed" by (rule revision_payload_inj)
  with resumed show ?thesis by simp
qed simp

text \<open>
  Recording a new maintainer stop trips the breaker when holds of at least two repositories
  were recorded within thirty days and are unreleased (unless that escalation is already on
  record), and leaves the breaker alone otherwise.
\<close>

theorem maintainer_stop_escalation:
  assumes "record_stop H d t new_id clock clock' = Inr (d', True)"
    and "trig_scope t = Scope_repository" and "trig_counts_toward_escalation t"
  shows "if 2 \<le> length (escalating_repositories (holds d') (clock - 30 * day))
    then br_is_tripped (circuit_breaker d')
      \<or> strip (H (''maintainer-stop-escalation:'' @ strip (trig_hash t))) \<in> set (trip_hashes d)
    else same_breaker d d'"
proof -
  from assms have "record_hold H d t new_id clock clock' = Inr (d', True)"
    by (simp add: record_stop_def)
  then obtain hs where e: "escalate_stop H (d\<lparr>holds := hs\<rparr>) (strip (trig_hash t)) (trig_scope_key t) clock clock' = Inr (d', True)"
    using assms(3) by (auto simp: record_hold_def result_simps Let_def checks split: option.splits if_splits)
  have tr: "holds d' = hs \<and> (br_is_tripped (circuit_breaker d') \<or> strip h \<in> set (trip_hashes d))"
    if "trip_circuit_breaker (d\<lparr>holds := hs\<rparr>) s r h c = Inr (d', b)" for s r h c b
    using that
  proof (cases rule: trip_cases)
    case (known e)
    then have "strip h \<in> set (trip_hashes d)" by (force simp: trip_hashes_def)
    with known show ?thesis by simp
  qed simp
  from e have h: "holds d' = hs" and len: "2 \<le> length (escalating_repositories hs (clock - 30 * day)) \<Longrightarrow>
      br_is_tripped (circuit_breaker d')
      \<or> strip (H (''maintainer-stop-escalation:'' @ strip (trig_hash t))) \<in> set (trip_hashes d)"
    and few: "\<not> 2 \<le> length (escalating_repositories hs (clock - 30 * day)) \<Longrightarrow> d' = d\<lparr>holds := hs\<rparr>"
    by (auto simp: escalate_stop_def result_simps Let_def escalation_repositories_def escalation_window_def
        shift_def split: if_splits dest!: tr)
  from h len few show ?thesis by auto
qed

section \<open>Histories of holds\<close>

text \<open>
  What may happen to the holds while the hold \<open>kept\<close> (if any is named) is not released: stops are
  recorded, other holds are released, and everything else leaves the holds alone.
\<close>

inductive hold_step :: "(string \<Rightarrow> string) \<Rightarrow> int option \<Rightarrow> db \<Rightarrow> db \<Rightarrow> bool" for H kept where
  stop: "record_stop H d t new_id clock clock' = Inr (d', b) \<Longrightarrow> hold_step H kept d d'"
| release: "release_hold d hid actor reason clock = Inr (d', b) \<Longrightarrow> Some hid \<noteq> kept \<Longrightarrow> hold_step H kept d d'"
| other: "holds d' = holds d \<Longrightarrow> hold_step H kept d d'"

abbreviation hold_history :: "(string \<Rightarrow> string) \<Rightarrow> int option \<Rightarrow> db \<Rightarrow> db \<Rightarrow> bool" where
  "hold_history H kept \<equiv> (hold_step H kept)\<^sup>*\<^sup>*"

lemma trip_holds [frames]: "trip_circuit_breaker d s r h c = Inr (d', b) \<Longrightarrow> holds d' = holds d"
  by (erule trip_cases) auto

lemma escalate_holds [frames]: "escalate_stop H d h k c c' = Inr (d', b) \<Longrightarrow> holds d' = holds d"
  by (auto simp: escalate_stop_def result_simps Let_def split: if_splits dest: trip_holds)

text \<open>What a recorded hold looks like, and what recording does to the table.\<close>

definition hold_of :: "trigger \<Rightarrow> int \<Rightarrow> instant \<Rightarrow> hold_row \<Rightarrow> bool" where
  "hold_of t i clock h \<longleftrightarrow> hold_id h = i \<and> hold_scope h = trig_scope t \<and> hold_scope_key h = trig_scope_key t
     \<and> hold_source h = strip (trig_source t) \<and> hold_reason h = strip (trig_reason t)
     \<and> hold_trigger_hash h = strip (trig_hash t) \<and> hold_created_at h = clock
     \<and> hold_expires_at h = map_option (\<lambda>x. case x of Naive t \<Rightarrow> t | Aware t \<Rightarrow> t) (trig_expires_at t)
     \<and> hold_released h = None"

lemma record_hold_table:
  assumes "record_hold H d t i clock clock' = Inr (d', b)"
  shows "if b then \<exists>h. hold_of t i clock h \<and> holds d' = holds d @ [h]
      \<and> (\<forall>x\<in>set (holds d). hold_trigger_hash x \<noteq> strip (trig_hash t))
    else d' = d \<and> (\<exists>h\<in>set (holds d). hold_trigger_hash h = strip (trig_hash t))"
proof (cases "List.find (\<lambda>h. hold_trigger_hash h = strip (trig_hash t)) (holds d)")
  case None
  with assms obtain hs e where hs: "hs = holds d @ [\<lparr>hold_id = i, hold_scope = trig_scope t,
      hold_scope_key = trig_scope_key t, hold_source = strip (trig_source t), hold_reason = strip (trig_reason t),
      hold_trigger_hash = strip (trig_hash t), hold_counts_toward_escalation = trig_counts_toward_escalation t,
      hold_created_at = clock, hold_expires_at = e, hold_released = None\<rparr>]"
    and e: "e = map_option (\<lambda>x. case x of Naive t \<Rightarrow> t | Aware t \<Rightarrow> t) (trig_expires_at t)"
    and d': "(escalate_stop H (d\<lparr>holds := hs\<rparr>) (strip (trig_hash t)) (trig_scope_key t) clock clock' = Inr (d', b)
      \<or> (d', b) = (d\<lparr>holds := hs\<rparr>, True))"
    by (auto simp: record_hold_def result_simps checks Let_def split: option.splits if_splits)
  have b: "b \<and> holds d' = hs"
    using d' by (auto simp: escalate_stop_def result_simps Let_def split: if_splits dest: trip_holds)
  with None hs e show ?thesis
    by (simp add: hold_of_def find_None)
next
  case (Some h)
  with assms show ?thesis
    by (auto simp: record_hold_def result_simps checks split: if_splits dest: find_SomeD)
qed

lemma record_stop_table:
  assumes "record_stop H d t i clock clock' = Inr (d', b)"
  obtains (same) "holds d' = holds d"
  | (added) h where "hold_of t i clock h" and "holds d' = holds d @ [h]"
      and "\<forall>x\<in>set (holds d). hold_trigger_hash x \<noteq> hold_trigger_hash h"
proof (cases "trig_scope t = Scope_global")
  case True
  with assms show thesis by (auto simp: record_stop_def split: if_splits dest!: trip_holds intro: same)
next
  case False
  with assms have r: "record_hold H d t i clock clock' = Inr (d', b)"
    by (auto simp: record_stop_def split: if_splits)
  then show thesis
    using record_hold_table [OF r] same added by (cases b) (auto simp: hold_of_def)
qed

lemma release_hold_table:
  assumes "release_hold d hid actor reason clock = Inr (d', b)"
  shows "\<exists>r. holds d' = map (\<lambda>h :: hold_row. if hold_id h = hid \<and> hold_released h = None
      then h\<lparr>hold_released := r\<rparr> else h) (holds d)"
  using assms by (auto simp: release_hold_def result_simps split: if_splits)

lemma hold_step_keeps:
  assumes "hold_step H (Some i) d d'" and "h \<in> set (holds d)" and "hold_id h = i"
  shows "h \<in> set (holds d')"
  using assms
proof (cases rule: hold_step.cases)
  case (stop t new_id clock clock' b)
  from stop(1) assms(2) show ?thesis by (cases rule: record_stop_table) auto
next
  case (release hid actor reason clock b)
  with assms show ?thesis by (auto simp: image_iff dest!: release_hold_table)
qed simp

lemma hold_history_keeps:
  "hold_history H (Some i) d d' \<Longrightarrow> h \<in> set (holds d) \<Longrightarrow> hold_id h = i \<Longrightarrow> h \<in> set (holds d')"
  by (induction rule: rtranclp_induct) (auto intro: hold_step_keeps)

text \<open>The evidence of a hold, which its release does not change.\<close>

definition hold_evidence :: "hold_row \<Rightarrow> stop_scope \<times> string \<times> string \<times> string \<times> string" where
  "hold_evidence h = (hold_scope h, hold_scope_key h, hold_source h, hold_reason h, hold_trigger_hash h)"

lemma hold_step_evidence:
  assumes "hold_step H kept d d'" and "distinct (map hold_trigger_hash (holds d))"
  shows "hold_evidence ` set (holds d) \<subseteq> hold_evidence ` set (holds d')
    \<and> distinct (map hold_trigger_hash (holds d'))"
  using assms(1)
proof (cases rule: hold_step.cases)
  case (stop t new_id clock clock' b)
  from stop(1) assms(2) show ?thesis by (cases rule: record_stop_table) auto
next
  case (release hid actor reason clock b)
  then obtain r where r: "holds d' = map (\<lambda>h :: hold_row. if hold_id h = hid \<and> hold_released h = None
      then h\<lparr>hold_released := r\<rparr> else h) (holds d)"
    using release_hold_table by blast
  have "map hold_evidence (holds d') = map hold_evidence (holds d)"
    by (simp add: r hold_evidence_def)
  moreover have "map hold_trigger_hash (holds d') = map hold_trigger_hash (holds d)"
    by (simp add: r)
  ultimately show ?thesis using assms(2) by (metis image_set order_refl)
qed (use assms(2) in simp)

lemma hold_history_evidence:
  assumes "hold_history H kept d d'" and "distinct (map hold_trigger_hash (holds d))"
  shows "hold_evidence ` set (holds d) \<subseteq> hold_evidence ` set (holds d')
    \<and> distinct (map hold_trigger_hash (holds d'))"
  using assms
proof (induction rule: rtranclp_induct)
  case (step d1 d2)
  then show ?case using hold_step_evidence [OF step.hyps(2)] by blast
qed simp

text \<open>
  A recorded repository hold refuses every publication in that repository until it expires,
  through any further stops, releases of other holds and unrelated writes.
\<close>

theorem held_until_released:
  assumes "record_stop H d t i clock clock' = Inr (d1, True)" and "hold_history H (Some i) d1 d2"
    and "trig_scope t = Scope_repository" and "casefold (trig_scope_key t) = casefold repo"
    and "case trig_expires_at t of Some (Aware e) \<Rightarrow> tm < e | _ \<Rightarrow> True"
  shows "\<exists>m. assert_publication_not_held d2 repo url tm = Inl (PolicyError m)"
proof -
  from assms(1,3) have r: "record_hold H d t i clock clock' = Inr (d1, True)"
    by (auto simp: record_stop_def split: if_splits)
  then obtain h where h: "hold_of t i clock h" "h \<in> set (holds d1)"
    using record_hold_table [OF r] by auto
  with assms(2) have "h \<in> set (holds d2)" by (auto intro: hold_history_keeps simp: hold_of_def)
  moreover have "\<not> (\<exists>e. trig_expires_at t = Some (Naive e))"
    using r by (auto simp: record_hold_def result_simps aware_utc_def)
  ultimately have "h \<in> set (active_holds d2 tm)"
    using h(1) assms(5) by (auto simp: active_holds_def hold_active_def hold_of_def split: option.splits datetime.splits)
  moreover have "blocks_publication repo url h"
    using h(1) assms(3,4) by (simp add: blocks_publication_def hold_of_def)
  ultimately have "assert_publication_not_held d2 repo url tm \<noteq> Inr ()"
    by (auto simp: assert_publication_not_held_def check_all_Inr)
  moreover have "assert_publication_not_held d2 repo url tm = Inl e \<Longrightarrow> \<exists>m. e = PolicyError m" for e
  proof -
    have "check_all f xs = Inl e \<Longrightarrow> \<exists>x\<in>set xs. f x = Inl e" for f :: "hold_row \<Rightarrow> unit result" and xs
      by (induction xs) (auto simp: result_simps)
    then show "assert_publication_not_held d2 repo url tm = Inl e \<Longrightarrow> \<exists>m. e = PolicyError m"
      by (fastforce simp: assert_publication_not_held_def split: if_splits)
  qed
  ultimately show ?thesis
    by (cases "assert_publication_not_held d2 repo url tm") auto
qed

text \<open>
  The evidence of a hold, once recorded, never holds work again: recording it again in any
  later state, released or not, returns false and changes nothing.
\<close>

theorem released_hold_evidence_is_spent:
  assumes "record_stop H d t i clock clock' = Inr (d1, True)" and "trig_scope t \<noteq> Scope_global"
    and "distinct (map hold_trigger_hash (holds d))" and "hold_history H None d1 d2"
  shows "record_stop H d2 t j clock2 clock2' = Inr (d2, False)"
proof -
  from assms(1,2) have r: "record_hold H d t i clock clock' = Inr (d1, True)"
    by (auto simp: record_stop_def split: if_splits)
  then obtain h where h: "hold_of t i clock h" "holds d1 = holds d @ [h]"
      "\<forall>x\<in>set (holds d). hold_trigger_hash x \<noteq> strip (trig_hash t)"
    using record_hold_table [OF r] by auto
  then have "distinct (map hold_trigger_hash (holds d1))"
    using assms(3) by (auto simp: hold_of_def)
  with hold_history_evidence [OF assms(4)] h(2) obtain g where g: "g \<in> set (holds d2)"
    "hold_evidence g = hold_evidence h" and dist: "distinct (map hold_trigger_hash (holds d2))"
    by (metis (no_types, lifting) in_set_conv_decomp image_iff subset_iff)
  have "List.find (\<lambda>x. hold_trigger_hash x = strip (trig_hash t)) (holds d2) \<noteq> None"
    using g h(1) by (auto simp: find_None hold_evidence_def hold_of_def)
  then obtain x where x: "List.find (\<lambda>x. hold_trigger_hash x = strip (trig_hash t)) (holds d2) = Some x" by blast
  have "x = g"
  proof (rule inj_onD)
    show "inj_on hold_trigger_hash (set (holds d2))" using dist by (simp add: distinct_map)
    show "hold_trigger_hash x = hold_trigger_hash g"
      using find_SomeD [OF x] g(2) h(1) by (simp add: hold_evidence_def hold_of_def)
  qed (use find_SomeD [OF x] g in auto)
  with x g(2) h(1) have "record_hold H d2 t j clock2 clock2' = Inr (d2, False)"
    using r by (auto simp: record_hold_def result_simps checks hold_evidence_def hold_of_def)
  with assms(1,2) show ?thesis by (auto simp: record_stop_def split: if_splits)
qed

section \<open>The streak\<close>

text \<open>
  What the counter is meant to do.  Its state is the count with the start of the first counted run: runs on
  the limit add up, the third one escalates the streak named by that start and starts over, any other run
  starts over.
\<close>

fun streak_spec :: "(nat \<times> string) option \<Rightarrow> (bool \<times> instant) list \<Rightarrow> (nat \<times> string) option \<times> string option list" where
  "streak_spec s [] = (s, [])"
| "streak_spec s ((limited, t) # xs) =
     (let (n, first) = (case s of None \<Rightarrow> (1, isoformat t) | Some (k, x) \<Rightarrow> (k + 1, x));
          (s', e) = (if \<not> limited then (None, None) else if n = 3 then (None, Some first) else (Some (n, first), None));
          (s'', es) = streak_spec s' xs
      in (s'', e # es))"

text \<open>
  What the log makes of escalations: each trips the breaker under the hash of its start, unless this hash
  is already in the log.
\<close>

fun escalations_logged :: "(string \<Rightarrow> string) \<Rightarrow> string list \<Rightarrow> string option list \<Rightarrow> string list \<times> bool list" where
  "escalations_logged H hs [] = (hs, [])"
| "escalations_logged H hs (None # es) = (let (hs', rs) = escalations_logged H hs es in (hs', False # rs))"
| "escalations_logged H hs (Some first # es) =
     (let h = strip (H (''secondary-rate-limit-streak:'' @ first)); new = h \<notin> set hs;
          (hs', rs) = escalations_logged H (if new then hs @ [h] else hs) es
      in (hs', new # rs))"

fun record_runs :: "(string \<Rightarrow> string) \<Rightarrow> db \<Rightarrow> (bool \<times> instant \<times> instant) list \<Rightarrow> (db \<times> bool list) result" where
  "record_runs H d [] = Inr (d, [])"
| "record_runs H d ((b, c, c') # xs) =
     bind_r (record_run_rate_limits H d b c c') (\<lambda>(d1, r).
     bind_r (record_runs H d1 xs) (\<lambda>(d2, rs). Inr (d2, r # rs)))"

definition streak_shows :: "db \<Rightarrow> (nat \<times> string) option \<Rightarrow> bool" where
  "streak_shows d s \<longleftrightarrow> (let row = secondary_rate_limit_streak d in case s of
     None \<Rightarrow> consecutive_runs row = 0 \<and> streak_started_at row = None
   | Some (n, first) \<Rightarrow> n \<in> {1, 2} \<and> consecutive_runs row = int n \<and> streak_started_at row = Some first \<and> first \<noteq> [])"

lemma trip_streak [frames]:
  "trip_circuit_breaker d s r h c = Inr (d', b) \<Longrightarrow> secondary_rate_limit_streak d' = secondary_rate_limit_streak d"
  by (erule trip_cases) auto

lemma isoformat_nonempty: "isoformat t \<noteq> []"
  by (simp add: isoformat_def Let_def)

lemma trip_hashes_new:
  assumes "trip_circuit_breaker d source reason hash clock = Inr (d', b)"
  shows "b \<longleftrightarrow> strip hash \<notin> set (trip_hashes d)"
    and "trip_hashes d' = (if b then trip_hashes d @ [strip hash] else trip_hashes d)"
    and "br_is_tripped (circuit_breaker d') \<longleftrightarrow> br_is_tripped (circuit_breaker d) \<or> b"
    and "e \<in> set (circuit_breaker_events d') \<Longrightarrow> e \<in> set (circuit_breaker_events d) \<or> be_type e = Trip \<and> be_source e = strip source"
  using assms by (cases rule: trip_cases; force simp: trip_hashes_def)+

lemma record_run_streak:
  assumes "record_run_rate_limits H d limited c c' = Inr (d', r)" and "streak_shows d s"
    and "streak_spec s [(limited, c)] = (s', [e])"
  shows "streak_shows d' s'" and "escalations_logged H (trip_hashes d) [e] = (trip_hashes d', [r])"
    and "br_is_tripped (circuit_breaker d') \<longleftrightarrow> br_is_tripped (circuit_breaker d) \<or> r"
    and "x \<in> set (circuit_breaker_events d') \<Longrightarrow> x \<in> set (circuit_breaker_events d)
      \<or> be_type x = Trip \<and> be_source x = ''escalation:secondary_rate_limits''"
proof -
  obtain n first where n: "(case s of None \<Rightarrow> (1, isoformat c) | Some (k, x) \<Rightarrow> (k + 1, x)) = (n, first)" by (metis surj_pair)
  let ?clear = "d\<lparr>secondary_rate_limit_streak := \<lparr>consecutive_runs = 0, streak_started_at = None\<rparr>\<rparr>"
  have row: "consecutive_runs (secondary_rate_limit_streak d) + 1 = int n" "1 \<le> n" "n \<le> 3" "first \<noteq> []"
    "(case streak_started_at (secondary_rate_limit_streak d) of
        None \<Rightarrow> isoformat c | Some x \<Rightarrow> if x = [] then isoformat c else x) = first"
    using assms(2) n isoformat_nonempty [of c] by (auto simp: streak_shows_def Let_def split: option.splits)
  have src: "strip ''escalation:secondary_rate_limits'' = ''escalation:secondary_rate_limits''"
    by (simp add: strip_def rstrip_def is_space_def)
  have spec: "(s', e) = (if \<not> limited then (None, None) else if n = 3 then (None, Some first) else (Some (n, first), None))"
    using assms(3) n by (auto split: if_splits)
  have same: "streak_shows d2 None" "trip_hashes ?clear = trip_hashes d" if "secondary_rate_limit_streak d2 = secondary_rate_limit_streak ?clear" for d2
    using that by (simp_all add: streak_shows_def trip_hashes_def)
  consider (ended) "\<not> limited" | (third) "limited" "n = 3" | (more) "limited" "n \<noteq> 3" by blast
  then have "streak_shows d' s' \<and> escalations_logged H (trip_hashes d) [e] = (trip_hashes d', [r])
    \<and> (br_is_tripped (circuit_breaker d') \<longleftrightarrow> br_is_tripped (circuit_breaker d) \<or> r)
    \<and> (x \<in> set (circuit_breaker_events d') \<longrightarrow> x \<in> set (circuit_breaker_events d)
      \<or> be_type x = Trip \<and> be_source x = ''escalation:secondary_rate_limits'')"
  proof cases
    case ended
    with assms(1) spec show ?thesis
      by (auto simp: record_run_rate_limits_def Let_def streak_shows_def trip_hashes_def)
  next
    case third
    from assms(1) third row obtain rsn where t: "trip_circuit_breaker ?clear ''escalation:secondary_rate_limits'' rsn
        (H (''secondary-rate-limit-streak:'' @ first)) c' = Inr (d', r)"
      by (auto simp: record_run_rate_limits_def Let_def escalation_runs_def)
    from trip_hashes_new [OF t] trip_streak [OF t] same third spec src show ?thesis by auto
  next
    case more
    with assms(1) row spec show ?thesis
      by (auto simp: record_run_rate_limits_def Let_def streak_shows_def escalation_runs_def trip_hashes_def)
  qed
  then show "streak_shows d' s'" "escalations_logged H (trip_hashes d) [e] = (trip_hashes d', [r])"
    "br_is_tripped (circuit_breaker d') \<longleftrightarrow> br_is_tripped (circuit_breaker d) \<or> r"
    "x \<in> set (circuit_breaker_events d') \<Longrightarrow> x \<in> set (circuit_breaker_events d)
      \<or> be_type x = Trip \<and> be_source x = ''escalation:secondary_rate_limits''" by blast+
qed

lemma streak_spec_Cons:
  "streak_spec s (x # xs) = (s', e # es) \<longleftrightarrow> (\<exists>s1. streak_spec s [x] = (s1, [e]) \<and> streak_spec s1 xs = (s', es))"
  by (cases x) (auto simp: Let_def split: prod.splits)

lemma escalations_logged_Cons:
  "escalations_logged H hs [e] = (hs1, [r]) \<Longrightarrow> escalations_logged H hs1 es = (hs', rs) \<Longrightarrow> escalations_logged H hs (e # es) = (hs', r # rs)"
  by (cases e) (auto simp: Let_def)

text \<open>
  C35. The streak of runs that ended on a secondary rate limit counts as specified: consecutive
  limited runs add up, any other run starts over, and the third in a row escalates and starts
  over. A run reports a stop and trips the breaker exactly when it escalates with a start of the
  streak that is not on the log of trips yet; the log gets exactly these trips, and nothing
  else.
\<close>

theorem streak_refines:
  assumes "record_runs H d xs = Inr (d', rs)" and "streak_shows d s"
    and "streak_spec s (map (\<lambda>(limited, c, c'). (limited, c)) xs) = (s', es)"
  shows "streak_shows d' s' \<and> escalations_logged H (trip_hashes d) es = (trip_hashes d', rs)
    \<and> (br_is_tripped (circuit_breaker d') \<longleftrightarrow> br_is_tripped (circuit_breaker d) \<or> True \<in> set rs)
    \<and> (\<forall>x\<in>set (circuit_breaker_events d'). x \<in> set (circuit_breaker_events d)
        \<or> be_type x = Trip \<and> be_source x = ''escalation:secondary_rate_limits'')"
  using assms
proof (induction xs arbitrary: d s rs es)
  case (Cons x xs)
  obtain b c c' where x: "x = (b, c, c')" by (cases x)
  from Cons.prems(1) obtain d1 r rs' where 1: "record_run_rate_limits H d b c c' = Inr (d1, r)"
    and 2: "record_runs H d1 xs = Inr (d', rs')" and rs: "rs = r # rs'"
    by (auto simp: x result_simps)
  from Cons.prems(3) obtain e es' where es: "es = e # es'" by (cases es) (auto simp: x Let_def split: prod.splits)
  from Cons.prems(3) have "streak_spec s ((b, c) # map (\<lambda>(limited, c, c'). (limited, c)) xs) = (s', e # es')"
    by (simp only: x es list.map prod.case)
  from iffD1 [OF streak_spec_Cons this] obtain s1 where s: "streak_spec s [(b, c)] = (s1, [e])"
    "streak_spec s1 (map (\<lambda>(limited, c, c'). (limited, c)) xs) = (s', es')" by blast
  note h = record_run_streak [OF 1 Cons.prems(2) s(1)]
  note ih = Cons.IH [OF 2 h(1) s(2)]
  have "escalations_logged H (trip_hashes d) es = (trip_hashes d', rs)"
    unfolding es rs by (rule escalations_logged_Cons [OF h(2)]) (use ih in blast)
  moreover have "\<forall>x\<in>set (circuit_breaker_events d'). x \<in> set (circuit_breaker_events d)
      \<or> be_type x = Trip \<and> be_source x = ''escalation:secondary_rate_limits''"
    using ih h(4) by blast
  ultimately show ?case using ih h(3) by (simp add: rs)
qed simp

section \<open>Examples\<close>

lemma sample_texts [simp]:
  "strip ''s'' = ''s''" "strip ''r'' = ''r''" "strip ''h'' = ''h''" "strip ''op'' = ''op''" "strip ''o/n'' = ''o/n''"
  "strip ''h2'' = ''h2''" "strip ''o/m'' = ''o/m''"
  by (simp_all add: strip_def rstrip_def is_space_def)

lemma sample_bounded [simp]:
  "bounded_text ''s'' f 255 = Inr ''s''" "bounded_text ''r'' f 2000 = Inr ''r''" "bounded_text ''op'' f 255 = Inr ''op''"
  "lease_identity ''h'' f = Inr ''h''" "lease_identity ''h2'' f = Inr ''h2''"
  "lease_identity ''o/n'' f = Inr ''o/n''" "lease_identity ''o/m'' f = Inr ''o/m''"
  by (simp_all add: bounded_text_def lease_identity_def nul_char)

definition sample_tripped :: db where
  "sample_tripped = (create_schema 0)\<lparr>circuit_breaker_events :=
       [\<lparr>be_epoch = 1, be_occurred_at = 5, be_type = Trip, be_source = ''s'', be_reason = ''r'', be_trigger_hash = ''h''\<rparr>],
     circuit_breaker := \<lparr>br_is_tripped = True, br_epoch = 1, br_changed_at = 5,
       br_source = Some ''s'', br_reason = Some ''r'', br_trigger_hash = Some ''h''\<rparr>\<rparr>"

lemma sample_trip: "trip_circuit_breaker (create_schema 0) ''s'' ''r'' ''h'' 5 = Inr (sample_tripped, True)"
  by (simp add: trip_circuit_breaker_def create_schema_def sample_tripped_def stored_generation_def max_generation_def)

lemma sample_trip_history: "safety_history H (create_schema 0) sample_tripped"
  by (rule r_into_rtranclp, rule safety_step.trip [OF sample_trip])

definition sample_stop :: "string \<Rightarrow> string \<Rightarrow> trigger" where
  "sample_stop key hash = \<lparr>trig_source = ''s'', trig_reason = ''r'', trig_hash = hash, trig_scope = Scope_repository,
     trig_scope_key = key, trig_expires_at = None, trig_counts_toward_escalation = True\<rparr>"

abbreviation sample_row :: "int \<Rightarrow> string \<Rightarrow> string \<Rightarrow> instant \<Rightarrow> hold_row" where
  "sample_row i key hash t \<equiv> \<lparr>hold_id = i, hold_scope = Scope_repository, hold_scope_key = key, hold_source = ''s'',
     hold_reason = ''r'', hold_trigger_hash = hash, hold_counts_toward_escalation = True, hold_created_at = t,
     hold_expires_at = None, hold_released = None\<rparr>"

lemmas hold_eval = sample_stop_def record_stop_def record_hold_def hold_key_def is_owner_name_def is_name_char_def
  is_digit_def create_schema_def escalate_stop_def shift_def escalation_window_def day_def second_def max_instant_def
  escalating_repositories_def counted_hold_def escalation_repositories_def nocase_def

lemma sample_hold:
  "record_stop H (create_schema 0) (sample_stop ''o/n'' ''h'') 1 (40 * day) (40 * day)
     = Inr ((create_schema 0)\<lparr>holds := [sample_row 1 ''o/n'' ''h'' (40 * day)]\<rparr>, True)"
  by (simp add: hold_eval)

lemma sample_second_hold:
  "\<exists>d'. record_stop (\<lambda>_. ''h'') ((create_schema 0)\<lparr>holds := [sample_row 1 ''o/n'' ''h'' (40 * day)]\<rparr>)
       (sample_stop ''o/m'' ''h2'') 2 (41 * day) (41 * day) = Inr (d', True)"
  by (simp add: hold_eval trip_circuit_breaker_def stored_generation_def max_generation_def bounded_text_def
      strip_def rstrip_def is_space_def nul_char nat_text.simps digit_char_def)

lemma sample_resume:
  "\<exists>d'. resume_circuit_breaker (\<lambda>_. ''h2'') sample_tripped ''op'' ''r'' ''h2'' 6 = Inr (d', True)"
  by (simp add: resume_circuit_breaker_def sample_tripped_def create_schema_def stored_generation_def
      max_generation_def active_triggers_def epoch_trips_def max_active_triggers_def breaker_revision_def)

lemma breaker_evidence_witness:
  "verify_circuit_breaker_evidence sample_tripped = Inr () \<and> assert_circuit_breaker_clear (\<lambda>_. ''x'') sample_tripped \<noteq> Inr ()
    \<and> (\<exists>s. circuit_breaker_status (\<lambda>_. ''x'') sample_tripped = Inr s \<and> bs_is_tripped s
      \<and> bs_active_triggers s = [global_trigger ''s'' ''r'' ''h''])"
proof -
  have "epoch_trips sample_tripped (br_epoch (circuit_breaker sample_tripped))
    = [\<lparr>be_epoch = 1, be_occurred_at = 5, be_type = Trip, be_source = ''s'', be_reason = ''r'', be_trigger_hash = ''h''\<rparr>]"
    by (simp add: sample_tripped_def create_schema_def epoch_trips_def)
  with breaker_evidence [OF sample_trip_history, of "\<lambda>_. ''x''"] show ?thesis
    by (auto simp: Let_def max_active_triggers_def)
qed

lemma evidence_trips_once_witness:
  "trip_circuit_breaker sample_tripped ''s'' ''r'' ''h'' 9 = Inr (sample_tripped, False)"
  by (rule evidence_trips_once [OF sample_trip rtranclp.rtrancl_refl breaker_wf_create])

lemma resume_reviewed_evidence_witness:
  "\<exists>d' :: db. map trigger_fields [global_trigger ''s'' ''r'' ''h''] = map trigger_fields [global_trigger ''s'' ''r'' ''h'']
    \<and> \<not> br_is_tripped (circuit_breaker d') \<and> br_epoch (circuit_breaker d') = br_epoch (circuit_breaker sample_tripped) + 1"
proof -
  obtain d' where d': "resume_circuit_breaker (\<lambda>_. ''h2'') sample_tripped ''op'' ''r'' ''h2'' 6 = Inr (d', True)"
    using sample_resume by blast
  have "active_triggers sample_tripped (br_epoch (circuit_breaker sample_tripped)) = Inr [global_trigger ''s'' ''r'' ''h'']"
    by (simp add: sample_tripped_def create_schema_def active_triggers_def epoch_trips_def max_active_triggers_def)
  from resume_reviewed_evidence [OF d' this, of "[global_trigger ''s'' ''r'' ''h'']"] show ?thesis
    by (intro exI [of _ d']) (simp add: breaker_revision_def)
qed

lemma maintainer_stop_escalation_witness:
  "\<exists>d' :: db. if 2 \<le> length (escalating_repositories (holds d') (41 * day - 30 * day))
    then br_is_tripped (circuit_breaker d')
      \<or> strip ''h'' \<in> set (trip_hashes ((create_schema 0)\<lparr>holds := [sample_row 1 ''o/n'' ''h'' (40 * day)]\<rparr>))
    else same_breaker ((create_schema 0)\<lparr>holds := [sample_row 1 ''o/n'' ''h'' (40 * day)]\<rparr>) d'"
proof -
  obtain d' where "record_stop (\<lambda>_. ''h'') ((create_schema 0)\<lparr>holds := [sample_row 1 ''o/n'' ''h'' (40 * day)]\<rparr>)
       (sample_stop ''o/m'' ''h2'') 2 (41 * day) (41 * day) = Inr (d', True)"
    using sample_second_hold by blast
  from maintainer_stop_escalation [OF this] show ?thesis
    by (intro exI [of _ d']) (simp add: sample_stop_def)
qed

lemma held_until_released_witness:
  "\<exists>m. assert_publication_not_held ((create_schema 0)\<lparr>holds := [sample_row 1 ''o/n'' ''h'' (40 * day)]\<rparr>)
     ''o/n'' None (50 * day) = Inl (PolicyError m)"
  by (rule held_until_released [OF sample_hold rtranclp.rtrancl_refl]) (simp_all add: sample_stop_def)

lemma released_hold_evidence_is_spent_witness:
  "record_stop (\<lambda>_. ''x'') ((create_schema 0)\<lparr>holds := [sample_row 1 ''o/n'' ''h'' (40 * day)]\<rparr>)
     (sample_stop ''o/n'' ''h'') 2 (50 * day) (50 * day)
   = Inr ((create_schema 0)\<lparr>holds := [sample_row 1 ''o/n'' ''h'' (40 * day)]\<rparr>, False)"
  by (rule released_hold_evidence_is_spent [OF sample_hold _ _ rtranclp.rtrancl_refl])
     (simp_all add: sample_stop_def create_schema_def)

lemma streak_refines_witness:
  "\<exists>d'. record_runs (\<lambda>_. ''h'') (create_schema 0) [(True, 0, 0), (True, 1, 1), (True, 2, 2), (False, 3, 3)]
      = Inr (d', [False, False, True, False])
    \<and> streak_shows d' None \<and> br_is_tripped (circuit_breaker d') \<and> trip_hashes d' = [''h'']"
proof -
  let ?xs = "[(True, 0, 0), (True, 1, 1), (True, 2, 2), (False, 3, 3)] :: (bool \<times> instant \<times> instant) list"
  have iso: "isoformat 0 = ''0001-01-01T00:00:00+00:00''" by (rule isoformat_samples)
  let ?d = "\<lambda>n. (create_schema 0)\<lparr>secondary_rate_limit_streak := \<lparr>consecutive_runs = n, streak_started_at = if n = 0 then None else Some (isoformat 0)\<rparr>\<rparr>"
  have 1: "record_run_rate_limits (\<lambda>_. ''h'') (create_schema 0) True 0 0 = Inr (?d 1, False)"
    "record_run_rate_limits (\<lambda>_. ''h'') (?d 1) True 1 1 = Inr (?d 2, False)"
    using isoformat_nonempty [of 0] by (simp_all add: record_run_rate_limits_def create_schema_def escalation_runs_def)
  let ?src = "''escalation:secondary_rate_limits''"
  let ?rsn = "int_text 3 @ '' consecutive runs ended on a GitHub secondary rate limit, '' @
    ''the first at '' @ isoformat 0 @ ''; spread the schedule out before resuming''"
  have texts: "bounded_text ?src ''circuit-breaker source'' 255 = Inr ?src" "bounded_text ?rsn ''circuit-breaker reason'' 2000 = Inr ?rsn"
    unfolding iso by code_simp+
  have "\<exists>d3. trip_circuit_breaker (create_schema 0) ?src ?rsn ''h'' 2 = Inr (d3, True)"
    unfolding trip_circuit_breaker_def texts sample_bounded bind_r.simps
    by (simp add: create_schema_def stored_generation_def max_generation_def)
  moreover have "(?d 2)\<lparr>secondary_rate_limit_streak := \<lparr>consecutive_runs = 0, streak_started_at = None\<rparr>\<rparr> = create_schema 0"
    by (simp add: create_schema_def)
  ultimately have "\<exists>d3. record_run_rate_limits (\<lambda>_. ''h'') (?d 2) True 2 2 = Inr (d3, True)"
    using isoformat_nonempty [of 0] by (simp add: record_run_rate_limits_def escalation_runs_def)
  then obtain d3 where 3: "record_run_rate_limits (\<lambda>_. ''h'') (?d 2) True 2 2 = Inr (d3, True)" by blast
  have 4: "\<exists>d'. record_run_rate_limits (\<lambda>_. ''h'') d3 False 3 3 = Inr (d', False)" by (simp add: record_run_rate_limits_def Let_def)
  then obtain d' where r: "record_runs (\<lambda>_. ''h'') (create_schema 0) ?xs = Inr (d', [False, False, True, False])"
    using 1 3 by auto
  have s: "streak_shows (create_schema 0) None" by (simp add: streak_shows_def create_schema_def)
  have e: "streak_spec None (map (\<lambda>(limited, c, c'). (limited, c)) ?xs) = (None, [None, None, Some (isoformat 0), None])" by simp
  from streak_refines [OF r s e] r show ?thesis
    by (intro exI [of _ d']) (simp add: create_schema_def trip_hashes_def)
qed
end
