(* ===== verification/Runs.thy ===== *)
theory Runs
  imports Ledger Safety
begin

text \<open>
  The run rows of \<open>store.py\<close> with their manifests, issue revisions and manifest artifacts:
  \<open>create_run\<close>, \<open>get\<close>, \<open>list_with_statuses\<close>, \<open>model_cost_since\<close>, \<open>_save\<close>, \<open>transition\<close>,
  \<open>_retire_runs\<close> and the publication of \<open>runs/<id>/manifest.json\<close>.

  Parameters: \<open>H\<close> is SHA-256, \<open>J\<close> is pydantic's \<open>model_dump_json\<close>, \<open>JD\<close> is SQLite's
  \<open>julianday\<close>; \<open>wr\<close> says for which runs the manifest file cannot be written (and the message of
  the \<open>OSError\<close>), \<open>rm\<close> which workspaces can be deleted.  An operation that commits and may still
  raise afterwards returns the database beside its result.
\<close>

type_synonym digest = "string \<Rightarrow> string"
type_synonym dump = "run_manifest \<Rightarrow> string"
type_synonym writer = "string \<Rightarrow> string option"

section \<open>Issue revisions\<close>

definition comment_json :: "issue_comment \<Rightarrow> json" where
  "comment_json c = text_object [
     (''author'', casefold (comment_author c)),
     (''author_association'', casefold (comment_author_association c)),
     (''body'', comment_body c),
     (''created_at'', canonical_timestamp (comment_created_at c)),
     (''html_url'', comment_html_url c),
     (''updated_at'', canonical_timestamp (comment_updated_at c))]"

definition issue_payload :: "issue_candidate \<Rightarrow> json" where
  "issue_payload i = JObj [
     (''assignees'', JList (map JStr (sort (remdups (map casefold (issue_assignees i)))))),
     (''author'', JStr (casefold (issue_author i))),
     (''body'', JStr (issue_body i)),
     (''comments'', JInt (issue_comments i)),
     (''created_at'', JStr (canonical_timestamp (issue_created_at i))),
     (''discussion'', JList (map comment_json (issue_discussion i))),
     (''html_url'', JStr (issue_html_url i)),
     (''labels'', JList (map JStr (sort (remdups (map casefold (issue_labels i)))))),
     (''number'', JInt (issue_number i)),
     (''repository'', JStr (casefold (issue_repository i))),
     (''state'', JStr (casefold (issue_state i))),
     (''title'', JStr (issue_title i)),
     (''updated_at'', JStr (canonical_timestamp (issue_updated_at i)))]"

definition compute_issue_revision :: "digest \<Rightarrow> issue_candidate \<Rightarrow> string" where
  "compute_issue_revision H i = H (''autocontribute.issue-revision.v1'' @ [nul] @ dumps (issue_payload i))"

section \<open>Manifest artifacts\<close>

text \<open>\<open>_mark_manifest_artifact_sync\<close>: the file version that belongs to a row, in the row's transaction.\<close>

definition mark_manifest_artifact_sync :: "digest \<Rightarrow> dump \<Rightarrow> db \<Rightarrow> string \<Rightarrow> instant \<Rightarrow> run_manifest \<Rightarrow> db result" where
  "mark_manifest_artifact_sync H J d rid updated m = (case find_run d rid of
     None \<Rightarrow> Inl (StateError (''Run '' @ rid @ '' changed before its manifest artifact was marked''))
   | Some r \<Rightarrow>
     if row_updated_at r \<noteq> updated \<or> J (row_manifest r) \<noteq> J m then
       Inl (StateError (''Run '' @ rid @ '' changed before its manifest artifact was marked''))
     else Inr (d\<lparr>manifest_artifact_sync := (manifest_artifact_sync d)
       (rid \<mapsto> \<lparr>sync_updated_at = updated, sync_manifest_sha256 = H (J m)\<rparr>)\<rparr>))"

text \<open>The text of an exception, as \<open>{exc}\<close> shows it.\<close>

fun error_text_of :: "error \<Rightarrow> string" where
  "error_text_of (StateError m) = m"
| "error_text_of (PolicyError m) = m"
| "error_text_of (BudgetExhaustedError m _) = m"
| "error_text_of (ConfigurationError m) = m"
| "error_text_of (ModelError m) = m"
| "error_text_of (SandboxError m) = m"
| "error_text_of (RepositoryError m) = m"
| "error_text_of (ManifestArtifactSyncError m) = m"
| "error_text_of (IntegrityError m) = m"
| "error_text_of (ValueError m) = m"
| "error_text_of (TypeError m) = m"
| "error_text_of IndexError = ''list index out of range''"
| "error_text_of OverflowError = ''date value out of range''"

text \<open>
  \<open>_synchronize_manifest_artifact\<close>: writes the file of exactly the pending version and clears its
  marker, under the write lock; every failure becomes a \<open>_ManifestArtifactSyncError\<close>.
\<close>

definition publish_artifact :: "digest \<Rightarrow> dump \<Rightarrow> writer \<Rightarrow> db \<Rightarrow> string \<Rightarrow> instant \<Rightarrow> string \<Rightarrow> (db \<times> bool) result" where
  "publish_artifact H J wr d rid updated sha = (case manifest_artifact_sync d rid of
     None \<Rightarrow> Inr (d, False)
   | Some p \<Rightarrow>
     if sync_updated_at p \<noteq> updated \<or> sync_manifest_sha256 p \<noteq> sha then Inr (d, False)
     else (case find_run d rid of
       None \<Rightarrow> Inl (StateError (''Pending manifest artifact references unknown run '' @ rid))
     | Some r \<Rightarrow>
       if row_updated_at r \<noteq> updated \<or> H (J (row_manifest r)) \<noteq> sha then
         Inl (StateError (''Pending manifest artifact for run '' @ rid @ '' disagrees with durable state''))
       else (case validate_manifest (row_manifest r) of
         Inl _ \<Rightarrow> Inl (StateError (''Run '' @ rid @ '' contains an invalid manifest''))
       | Inr m \<Rightarrow>
         if run_id m \<noteq> rid \<or> updated_at m \<noteq> updated then
           Inl (StateError (''Pending manifest artifact for run '' @ rid @ '' disagrees with its state row''))
         else (case wr rid of
           Some oserror \<Rightarrow> Inl (StateError oserror)
         | None \<Rightarrow> Inr (d\<lparr>manifest_files := (manifest_files d)(rid \<mapsto> m),
             manifest_artifact_sync := (manifest_artifact_sync d)(rid := None)\<rparr>, True)))))"

definition synchronize_manifest_artifact ::
    "digest \<Rightarrow> dump \<Rightarrow> writer \<Rightarrow> db \<Rightarrow> string \<Rightarrow> instant \<Rightarrow> string \<Rightarrow> (db \<times> bool) result" where
  "synchronize_manifest_artifact H J wr d rid updated sha =
     (case publish_artifact H J wr d rid updated sha of
        Inl (ManifestArtifactSyncError m) \<Rightarrow> Inl (ManifestArtifactSyncError m)
      | Inl e \<Rightarrow> Inl (ManifestArtifactSyncError
          (''Could not synchronize manifest artifact for run '' @ rid @ '': '' @ error_text_of e))
      | Inr x \<Rightarrow> Inr x)"

definition max_run_corpus :: nat where
  "max_run_corpus = 10000"

text \<open>The pending markers in the order \<open>updated_at, run_id\<close>; each belongs to a run (foreign key).\<close>

definition pending_artifacts :: "db \<Rightarrow> (string \<times> sync_row) list" where
  "pending_artifacts d = sort_key (\<lambda>p. sync_updated_at (snd p)) (sort_key fst
     (concat (map (\<lambda>r. case manifest_artifact_sync d (row_run_id r) of
        None \<Rightarrow> [] | Some p \<Rightarrow> [(row_run_id r, p)]) (runs d))))"

text \<open>The loop commits one artifact at a time, so a failure leaves the earlier ones published.\<close>

fun publish_pending :: "digest \<Rightarrow> dump \<Rightarrow> writer \<Rightarrow> db \<Rightarrow> (string \<times> sync_row) list \<Rightarrow> nat \<Rightarrow> db \<times> nat result" where
  "publish_pending H J wr d [] n = (d, Inr n)"
| "publish_pending H J wr d ((rid, p) # ps) n =
     (if rid = [] then (d, Inl (ManifestArtifactSyncError
          ''Manifest artifact synchronization marker contains invalid stored values''))
      else case stored_event_hash (sync_manifest_sha256 p) (''run '' @ rid @ '' pending manifest digest'') of
        Inl e \<Rightarrow> (d, Inl (ManifestArtifactSyncError (error_text_of e)))
      | Inr sha \<Rightarrow>
        (case synchronize_manifest_artifact H J wr d rid (sync_updated_at p) sha of
           Inl e \<Rightarrow> (d, Inl e)
         | Inr x \<Rightarrow> publish_pending H J wr (fst x) ps (if snd x then n + 1 else n)))"

definition synchronize_manifest_artifacts :: "digest \<Rightarrow> dump \<Rightarrow> writer \<Rightarrow> db \<Rightarrow> int \<Rightarrow> db \<times> nat result" where
  "synchronize_manifest_artifacts H J wr d limit =
     (if \<not> (1 \<le> limit \<and> limit \<le> int max_run_corpus) then
        (d, Inl (ValueError ''manifest artifact synchronization limit must be between 1 and 10000''))
      else if limit < int (length (pending_artifacts d)) then
        (d, Inl (ManifestArtifactSyncError ''Pending manifest artifact set exceeds the configured safety bound''))
      else publish_pending H J wr d (pending_artifacts d) 0)"

text \<open>\<open>_verify_manifest_artifact_sync\<close>, the check when the database is opened.\<close>

definition verify_manifest_artifact_sync :: "digest \<Rightarrow> dump \<Rightarrow> db \<Rightarrow> unit result" where
  "verify_manifest_artifact_sync H J d =
     (if max_run_corpus < length (pending_artifacts d) then
        Inl (StateError ''Pending manifest artifact set exceeds the configured safety bound'')
      else check_all (\<lambda>(rid, p).
        if rid = [] then Inl (StateError ''Manifest artifact synchronization marker contains invalid values'')
        else bind_r (stored_event_hash (sync_manifest_sha256 p) (''run '' @ rid @ '' pending manifest digest'')) (\<lambda>sha.
          case find_run d rid of
            Some r \<Rightarrow> if row_updated_at r \<noteq> sync_updated_at p \<or> H (J (row_manifest r)) \<noteq> sha
              then Inl (StateError (''Pending manifest artifact for run '' @ rid @ '' disagrees with durable state''))
              else Inr ()
          | None \<Rightarrow> Inr ())) (sort_key fst (pending_artifacts d)))"

section \<open>Creating and reading runs\<close>

text \<open>\<open>create_run\<close>; \<open>fresh\<close> is \<open>uuid.uuid4().hex[:16]\<close>, \<open>clock'\<close> the time of the event.\<close>

definition insert_run :: "digest \<Rightarrow> dump \<Rightarrow> db \<Rightarrow> run_manifest \<Rightarrow> instant \<Rightarrow> db result" where
  "insert_run H J d m clock' =
     bind_r (write_runs d (runs d @ [\<lparr>row_run_id = run_id m, row_status = status m, row_repository = None,
         row_issue_number = None, row_created_at = created_at m, row_updated_at = updated_at m,
         row_manifest = m, row_event_count = 0, row_event_head = zeros, row_issue_revision = None\<rparr>])) (\<lambda>d1.
     bind_r (append_event H d1 (run_id m) ''run.created'' [(''status'', ''queued'')] None clock') (\<lambda>d2.
     mark_manifest_artifact_sync H J d2 (run_id m) (updated_at m) m))"

definition create_run :: "digest \<Rightarrow> dump \<Rightarrow> writer \<Rightarrow> db \<Rightarrow> string \<Rightarrow> instant \<Rightarrow> instant \<Rightarrow> db \<times> run_manifest result" where
  "create_run H J wr d fresh clock clock' = (let m = new_manifest fresh QUEUED clock clock in
     case insert_run H J d m clock' of
       Inl e \<Rightarrow> (d, Inl e)
     | Inr d1 \<Rightarrow> (case synchronize_manifest_artifact H J wr d1 fresh clock (H (J m)) of
         Inl e \<Rightarrow> (d1, Inl e)
       | Inr x \<Rightarrow> (fst x, Inr m)))"

definition get_run :: "db \<Rightarrow> string \<Rightarrow> run_manifest result" where
  "get_run d rid = (case find_run d rid of
     None \<Rightarrow> Inl (StateError (''Unknown run: '' @ rid))
   | Some r \<Rightarrow> validate_manifest (row_manifest r))"

text \<open>\<open>list\<close>: the newest runs; \<open>sort_key\<close> is stable, ties stay in row order.\<close>

definition list_runs :: "db \<Rightarrow> nat \<Rightarrow> run_manifest list result" where
  "list_runs d limit = map_result (\<lambda>r. validate_manifest (row_manifest r))
     (take limit (sort_key (\<lambda>r. - row_created_at r) (runs d)))"

text \<open>\<open>model_cost_since\<close>: settled cost plus what a pending reservation may cost.\<close>

definition row_model_cost :: "run_row \<Rightarrow> rat" where
  "row_model_cost r = model_cost_usd (row_manifest r)
     + (case model_reservation (row_manifest r) of None \<Rightarrow> 0 | Some x \<Rightarrow> res_cost_usd x)"

definition model_cost_since :: "(instant \<Rightarrow> rat) \<Rightarrow> db \<Rightarrow> datetime \<Rightarrow> rat result" where
  "model_cost_since JD d created_since =
     bind_r (aware_utc created_since ''model cost window start'') (\<lambda>since.
     Inr (sum_list (map row_model_cost (filter (\<lambda>r. JD (row_created_at r) \<ge> JD since) (runs d)))))"

text \<open>\<open>list_with_statuses\<close> and its three callers.\<close>

definition status_query :: "(instant \<Rightarrow> rat) \<Rightarrow> run_status list \<Rightarrow> bool \<Rightarrow> instant option \<Rightarrow> run_row \<Rightarrow> bool" where
  "status_query JD selected open_only merged_after r \<longleftrightarrow> row_status r \<in> set selected
     \<and> (\<not> open_only \<or> pull_request_state (row_manifest r) \<in> {None, Some Pull_open})
     \<and> (case merged_after of None \<Rightarrow> True
        | Some since \<Rightarrow> pull_request_state (row_manifest r) = Some Pull_merged
            \<and> (case pull_request_merged_at (row_manifest r) of None \<Rightarrow> False | Some t \<Rightarrow> JD t \<ge> JD since))"

definition list_with_statuses :: "(instant \<Rightarrow> rat) \<Rightarrow> db \<Rightarrow> run_status list \<Rightarrow> int \<Rightarrow> string \<Rightarrow> bool \<Rightarrow> instant option
    \<Rightarrow> run_manifest list result" where
  "list_with_statuses JD d selected limit resource open_only merged_since =
     (if \<not> (1 \<le> limit \<and> limit \<le> 10000) then
        Inl (ValueError (resource @ '' run limit must be between 1 and 10000''))
      else if selected = [] then Inl (ValueError ''at least one run status is required'')
      else
        let merged_after = (if open_only then None else merged_since);
            rows = sort_key row_created_at (sort_key row_run_id
                     (filter (status_query JD selected open_only merged_after) (runs d)))
        in if limit < int (length rows) then
             Inl (StateError (capitalize resource @ '' run set exceeds the configured safety bound''))
           else map_result (\<lambda>r. case validate_manifest (row_manifest r) of
               Inl _ \<Rightarrow> Inl (StateError (''Run '' @ row_run_id r @ '' contains an invalid manifest''))
             | Inr m \<Rightarrow>
               if run_id m \<noteq> row_run_id r \<or> status m \<notin> set selected then
                 Inl (StateError (''Run '' @ row_run_id r @ '' manifest disagrees with its state row''))
               else Inr m) rows)"

definition list_open_pull_request_runs :: "(instant \<Rightarrow> rat) \<Rightarrow> db \<Rightarrow> int \<Rightarrow> run_manifest list result" where
  "list_open_pull_request_runs JD d limit = list_with_statuses JD d [PR_OPEN] limit ''open pull-request'' True None"

definition list_merged_pull_request_runs :: "(instant \<Rightarrow> rat) \<Rightarrow> db \<Rightarrow> datetime \<Rightarrow> int \<Rightarrow> run_manifest list result" where
  "list_merged_pull_request_runs JD d merged_since limit =
     bind_r (aware_utc merged_since ''merge watch start'') (\<lambda>since.
     list_with_statuses JD d [PR_OPEN] limit ''recently merged pull-request'' False (Some since))"

definition list_submitting_runs :: "(instant \<Rightarrow> rat) \<Rightarrow> db \<Rightarrow> int \<Rightarrow> run_manifest list result" where
  "list_submitting_runs JD d limit = list_with_statuses JD d [SUBMITTING] limit ''submitting'' False None"

section \<open>Saving\<close>

text \<open>What a \<open>candidate.selected\<close> event must say; other events keep their details.\<close>

definition selection_details :: "digest \<Rightarrow> run_manifest \<Rightarrow> string \<Rightarrow> (string \<times> string) list
    \<Rightarrow> (string \<times> string) list result" where
  "selection_details H m etype details =
     (if etype \<noteq> ''candidate.selected'' then Inr details
      else case candidate m of
        None \<Rightarrow> Inl (StateError ''Candidate selection cannot be saved without issue evidence'')
      | Some c \<Rightarrow>
        let revision = compute_issue_revision H c;
            expected = [(''issue'', issue_reference c), (''issue_revision'', revision),
              (''score'', int_text (issue_score c))]
        in if \<not> (0 \<le> issue_score c \<and> issue_score c \<le> 100) then
             Inl (StateError ''Candidate selection requires a score between 0 and 100'')
           else if map_of details ''issue_revision'' \<notin> {None, Some revision} then
             Inl (StateError ''Candidate selection event has a mismatched issue revision'')
           else if \<not> dict_eq (dict_set ''issue_revision'' revision details) expected then
             Inl (StateError ''Candidate selection event disagrees with its candidate evidence'')
           else Inr (dict_set ''issue_revision'' revision details))"

text \<open>\<open>_next_run_update_time\<close>: later than the version it replaces, whatever the clock says.\<close>

definition next_run_update_time :: "instant \<Rightarrow> instant \<Rightarrow> instant result" where
  "next_run_update_time expected clock =
     (if clock \<le> expected then
        (case shift expected 1 of
           Inl _ \<Rightarrow> Inl (StateError ''Run update timestamp exhausted its supported range'')
         | Inr t \<Rightarrow> Inr t)
      else Inr clock)"

definition save_guard :: "instant \<Rightarrow> string option \<Rightarrow> run_row \<Rightarrow> bool" where
  "save_guard expected revision r \<longleftrightarrow> row_updated_at r = expected
     \<and> (row_issue_revision r = None \<or> revision \<noteq> None \<and> row_issue_revision r = revision)"

definition saved_row :: "digest \<Rightarrow> run_manifest \<Rightarrow> run_row \<Rightarrow> run_row" where
  "saved_row H m r = r\<lparr>row_status := status m, row_repository := map_option issue_repository (candidate m),
     row_issue_number := map_option issue_number (candidate m), row_updated_at := updated_at m,
     row_issue_revision := map_option (compute_issue_revision H) (candidate m), row_manifest := m\<rparr>"

text \<open>
  The transaction of \<open>_save\<close>: the update succeeds only on the version the manifest was loaded from.
\<close>

definition save_transaction :: "digest \<Rightarrow> dump \<Rightarrow> db \<Rightarrow> run_manifest \<Rightarrow> instant
    \<Rightarrow> (string \<times> (string \<times> string) list) list \<Rightarrow> instant \<Rightarrow> db result" where
  "save_transaction H J d m expected evs clock' =
     (let revision = map_option (compute_issue_revision H) (candidate m) in
      case find_run d (run_id m) of
        None \<Rightarrow> Inl (StateError (''Unknown run: '' @ run_id m))
      | Some current \<Rightarrow>
        if candidate m \<noteq> None \<and> row_issue_revision current = None then
          Inl (StateError ''Candidate evidence must be persisted through claim_candidate'')
        else
          let (rs, rowcount) = update_run (runs d) (run_id m) (save_guard expected revision) (saved_row H m)
          in if rowcount \<noteq> 1 then
               (if row_issue_revision current \<notin> {None, revision} then
                  Inl (StateError (''Run '' @ run_id m @ '' candidate evidence changed after selection''))
                else Inl (StateError (''Run '' @ run_id m @ '' changed while this manifest was being saved'')))
             else
               bind_r (write_runs d rs) (\<lambda>d1.
               bind_r (append_events H d1 (run_id m) evs clock') (\<lambda>d2.
               mark_manifest_artifact_sync H J d2 (run_id m) (updated_at m) m)))"

text \<open>\<open>remove_workspace\<close>; \<open>rm\<close> says which directories the best-effort deletion really removes.\<close>

definition workspace_name :: "string \<Rightarrow> string result" where
  "workspace_name rid =
     (let parts = filter (\<lambda>p. p \<noteq> [] \<and> p \<noteq> ''.'') (split_on (CHR ''/'') rid) in
      if startswith rid ''/'' \<or> length parts \<noteq> 1 \<or> hd parts = ''..'' then
        Inl (StateError (''Run identifier cannot name a workspace: '' @ rid))
      else Inr (hd parts))"

definition remove_workspace :: "(string \<Rightarrow> bool) \<Rightarrow> db \<Rightarrow> string \<Rightarrow> db result" where
  "remove_workspace rm d rid =
     bind_r (workspace_name rid) (\<lambda>name.
     Inr (if rm name then d\<lparr>workspaces := workspaces d - {name}\<rparr> else d))"

text \<open>
  \<open>_save\<close>: the database, the manifest the caller holds afterwards, and the outcome.  The manifest's
  new time is taken back when the transaction fails; a failing artifact publication comes after the
  commit.
\<close>

definition save_run :: "digest \<Rightarrow> dump \<Rightarrow> writer \<Rightarrow> (string \<Rightarrow> bool) \<Rightarrow> db \<Rightarrow> run_manifest \<Rightarrow> string
    \<Rightarrow> (string \<times> string) list \<Rightarrow> (string \<times> (string \<times> string) list) list \<Rightarrow> instant \<Rightarrow> instant
    \<Rightarrow> db \<times> run_manifest \<times> unit result" where
  "save_run H J wr rm d m etype details following clock clock' =
     (case bind_r (selection_details H m etype details) (\<lambda>dts.
           bind_r (next_run_update_time (updated_at m) clock) (\<lambda>saved_at. Inr (dts, saved_at))) of
        Inl e \<Rightarrow> (d, m, Inl e)
      | Inr p \<Rightarrow>
        let m1 = m\<lparr>updated_at := snd p\<rparr> in
        (case save_transaction H J d m1 (updated_at m) ((etype, fst p) # following) clock' of
           Inl e \<Rightarrow> (d, m, Inl e)
         | Inr d1 \<Rightarrow>
           (case synchronize_manifest_artifact H J wr d1 (run_id m1) (updated_at m1) (H (J m1)) of
              Inl e \<Rightarrow> (d1, m1, Inl e)
            | Inr x \<Rightarrow>
              if status m1 \<in> terminal_statuses then
                (case remove_workspace rm (fst x) (run_id m1) of
                   Inl e \<Rightarrow> (fst x, m1, Inl e)
                 | Inr d3 \<Rightarrow> (d3, m1, Inr ()))
              else (fst x, m1, Inr ()))))"

section \<open>Transitions\<close>

definition transition_details :: "run_status \<Rightarrow> run_status \<Rightarrow> string \<Rightarrow> (string \<times> string) list" where
  "transition_details previous target reason =
     [(''from'', status_value previous), (''to'', status_value target), (''reason'', reason)]"

definition transition_run :: "digest \<Rightarrow> dump \<Rightarrow> writer \<Rightarrow> (string \<Rightarrow> bool) \<Rightarrow> db \<Rightarrow> run_manifest \<Rightarrow> run_status
    \<Rightarrow> string \<Rightarrow> (string \<times> (string \<times> string) list) list \<Rightarrow> instant \<Rightarrow> instant
    \<Rightarrow> db \<times> run_manifest \<times> unit result" where
  "transition_run H J wr rm d m target reason evidence clock clock' =
     (if target = status m then (d, m, Inr ())
      else if target \<notin> allowed_transitions (status m) then
        (d, m, Inl (StateError (''Invalid run transition: '' @ status_value (status m) @ '' -> '' @ status_value target)))
      else
        let evs = evidence @ [(''run.transitioned'', transition_details (status m) target reason)];
            (d1, m1, r) = save_run H J wr rm d (m\<lparr>status := target\<rparr>) (fst (hd evs)) (snd (hd evs)) (tl evs) clock clock'
        in case r of
             Inl (ManifestArtifactSyncError e) \<Rightarrow> (d1, m1, Inl (ManifestArtifactSyncError e))
           | Inl e \<Rightarrow> (d1, m1\<lparr>status := status m\<rparr>, Inl e)
           | Inr u \<Rightarrow> (d1, m1, Inr u))"

section \<open>Retiring runs\<close>

text \<open>
  One round of the loop of \<open>_retire_runs\<close>: the row read by the query becomes the retired one.
\<close>

definition retired_manifest :: "run_status \<Rightarrow> string option \<Rightarrow> instant \<Rightarrow> run_manifest \<Rightarrow> run_manifest" where
  "retired_manifest target err retired_at m = m\<lparr>status := target, updated_at := retired_at,
     error_text := (case err of None \<Rightarrow> error_text m | Some x \<Rightarrow> Some x)\<rparr>"

definition retire_row :: "digest \<Rightarrow> dump \<Rightarrow> run_status \<Rightarrow> string \<Rightarrow> string \<Rightarrow> bool \<Rightarrow> instant \<Rightarrow> instant
    \<Rightarrow> db \<Rightarrow> run_row \<Rightarrow> db result" where
  "retire_row H J target etype reason record_error retired_at clock' d row =
     (case validate_manifest (row_manifest row) of
        Inl _ \<Rightarrow> Inl (StateError (''Run '' @ row_run_id row @ '' contains an invalid manifest''))
      | Inr m \<Rightarrow>
        if run_id m \<noteq> row_run_id row \<or> status m \<noteq> row_status row then
          Inl (StateError (''Run '' @ row_run_id row @ '' manifest disagrees with its state row''))
        else
          let m1 = retired_manifest target (if record_error then Some reason else None) retired_at m;
              (rs, rowcount) = update_run (runs d) (row_run_id row)
                (\<lambda>r. row_status r = row_status row \<and> row_updated_at r = row_updated_at row)
                (\<lambda>r. r\<lparr>row_status := target, row_updated_at := retired_at, row_manifest := m1\<rparr>)
          in if rowcount \<noteq> 1 then
               Inl (StateError (''Run '' @ row_run_id row @ '' changed while it was being retired''))
             else
               bind_r (write_runs d rs) (\<lambda>d1.
               bind_r (append_event H d1 (row_run_id row) etype
                   [(''from'', status_value (row_status row)), (''to'', status_value target), (''reason'', reason)]
                   None clock') (\<lambda>d2.
               mark_manifest_artifact_sync H J d2 (row_run_id row) retired_at m1)))"

definition retirable_rows :: "db \<Rightarrow> run_status set \<Rightarrow> instant \<Rightarrow> nat \<Rightarrow> run_row list" where
  "retirable_rows d statuses cutoff limit = take limit (sort_key row_updated_at (sort_key row_run_id
     (filter (\<lambda>r. row_status r \<in> statuses \<and> row_updated_at r < cutoff) (runs d))))"

text \<open>The workspaces of all retired runs are removed after the artifacts were published.\<close>

definition retire_runs :: "digest \<Rightarrow> dump \<Rightarrow> writer \<Rightarrow> (string \<Rightarrow> bool) \<Rightarrow> db \<Rightarrow> run_status set \<Rightarrow> run_status
    \<Rightarrow> datetime \<Rightarrow> string \<Rightarrow> string \<Rightarrow> bool \<Rightarrow> int \<Rightarrow> instant \<Rightarrow> instant \<Rightarrow> db \<times> run_manifest list result" where
  "retire_runs H J wr rm d statuses target updated_before reason etype record_error limit clock clock' =
     (case bind_r (aware_utc updated_before ''run cutoff'') (\<lambda>cutoff.
           bind_r (bounded_text reason (etype @ '' reason'') 2000) (\<lambda>rsn.
           if \<not> (1 \<le> limit \<and> limit \<le> 1000) then Inl (ValueError ''run limit must be between 1 and 1000'')
           else
             let rows = retirable_rows d statuses cutoff (nat limit)
             in bind_r (fold_result (retire_row H J target etype rsn record_error clock clock') d rows)
                  (\<lambda>d1. Inr (d1, map (\<lambda>r. retired_manifest target (if record_error then Some rsn else None) clock
                     (row_manifest r)) rows)))) of
        Inl e \<Rightarrow> (d, Inl e)
      | Inr p \<Rightarrow>
        (case synchronize_manifest_artifacts H J wr (fst p) (int max_run_corpus) of
           (d2, Inl e) \<Rightarrow> (d2, Inl e)
         | (d2, Inr _) \<Rightarrow>
           (case fold_result (remove_workspace rm) d2 (map run_id (snd p)) of
              Inl e \<Rightarrow> (d2, Inl e)
            | Inr d3 \<Rightarrow> (d3, Inr (snd p)))))"

definition recover_stale_runs :: "digest \<Rightarrow> dump \<Rightarrow> writer \<Rightarrow> (string \<Rightarrow> bool) \<Rightarrow> db \<Rightarrow> datetime \<Rightarrow> string \<Rightarrow> int
    \<Rightarrow> instant \<Rightarrow> instant \<Rightarrow> db \<times> run_manifest list result" where
  "recover_stale_runs H J wr rm d stale_before reason limit clock clock' =
     retire_runs H J wr rm d recoverable_in_flight_statuses FAILED stale_before reason ''run.recovered'' True limit clock clock'"

definition expire_ready_for_approval_runs :: "digest \<Rightarrow> dump \<Rightarrow> writer \<Rightarrow> (string \<Rightarrow> bool) \<Rightarrow> db \<Rightarrow> datetime \<Rightarrow> string \<Rightarrow> int
    \<Rightarrow> instant \<Rightarrow> instant \<Rightarrow> db \<times> run_manifest list result" where
  "expire_ready_for_approval_runs H J wr rm d ready_before reason limit clock clock' =
     retire_runs H J wr rm d {READY_FOR_APPROVAL} CANCELLED ready_before reason ''run.expired'' False limit clock clock'"

section \<open>What the ledger changes of a row\<close>

definition blank :: "run_row \<Rightarrow> run_row" where
  "blank r = r\<lparr>row_event_count := 0, row_event_head := []\<rparr>"

lemma blank_simps [simp]:
  "row_run_id (blank r) = row_run_id r" "row_status (blank r) = row_status r"
  "row_repository (blank r) = row_repository r" "row_issue_number (blank r) = row_issue_number r"
  "row_created_at (blank r) = row_created_at r" "row_updated_at (blank r) = row_updated_at r"
  "row_manifest (blank r) = row_manifest r" "row_issue_revision (blank r) = row_issue_revision r"
  by (simp_all add: blank_def)

lemma blank_eqD:
  assumes "blank r = blank r'"
  shows "row_run_id r = row_run_id r'" "row_status r = row_status r'" "row_repository r = row_repository r'"
    "row_issue_number r = row_issue_number r'" "row_created_at r = row_created_at r'"
    "row_updated_at r = row_updated_at r'" "row_manifest r = row_manifest r'"
    "row_issue_revision r = row_issue_revision r'"
  using arg_cong [OF assms, of row_run_id] arg_cong [OF assms, of row_status]
    arg_cong [OF assms, of row_repository] arg_cong [OF assms, of row_issue_number]
    arg_cong [OF assms, of row_created_at] arg_cong [OF assms, of row_updated_at]
    arg_cong [OF assms, of row_manifest] arg_cong [OF assms, of row_issue_revision]
  by simp_all

lemma blank_advance [simp]: "blank (advance rid h r) = blank r"
  by (simp add: blank_def advance_def)

definition same_rows :: "db \<Rightarrow> db \<Rightarrow> bool" where
  "same_rows d d' \<longleftrightarrow> map blank (runs d') = map blank (runs d)"

lemma same_rows_refl [simp]: "same_rows d d"
  by (simp add: same_rows_def)

lemma same_rows_ids: "same_rows d d' \<Longrightarrow> map row_run_id (runs d') = map row_run_id (runs d)"
  unfolding same_rows_def by (drule arg_cong [of _ _ "map row_run_id"]) (simp add: comp_def)

lemma same_rows_find:
  assumes "same_rows d d'"
  shows "map_option blank (find_run d' k) = map_option blank (find_run d k)"
  using assms unfolding same_rows_def find_run_def
  by (simp flip: find_map_same_key [of blank, OF blank_simps(1)])

lemma same_rows_find_Some:
  assumes "same_rows d d'" and "find_run d' k = Some r'"
  shows "\<exists>r. find_run d k = Some r \<and> blank r = blank r'"
  using same_rows_find [OF assms(1), of k] assms(2) by (cases "find_run d k") auto

lemma same_rows_find_Some':
  assumes "same_rows d d'" and "find_run d k = Some r"
  shows "\<exists>r'. find_run d' k = Some r' \<and> blank r = blank r'"
  using same_rows_find [OF assms(1), of k] assms(2) by (cases "find_run d' k") auto

lemma append_event_rows:
  assumes "append_event H d rid etype details oc clock = Inr d'" and "distinct (map row_run_id (runs d))"
  shows "same_rows d d'" and "runs_ok (runs d')"
  using append_eventD [OF assms] by (auto simp: same_rows_def)

lemma append_events_rows:
  assumes "append_events H d rid evs clock = Inr d'" and "runs_ok (runs d)"
  shows "same_rows d d' \<and> runs_ok (runs d')"
  using assms
proof (induction H d rid evs clock rule: append_events.induct)
  case (2 H d rid etype details evs clock)
  then obtain d1 where d1: "append_event H d rid etype details None clock = Inr d1"
    "append_events H d1 rid evs clock = Inr d'"
    by (auto simp: result_simps)
  have "distinct (map row_run_id (runs d))" using 2 by (simp add: runs_ok_def)
  from append_event_rows [OF d1(1) this] have "same_rows d d1" "runs_ok (runs d1)" .
  moreover have "same_rows d1 d' \<and> runs_ok (runs d')"
    by (rule 2) (use d1 \<open>runs_ok (runs d1)\<close> in auto)
  ultimately show ?case by (auto simp: same_rows_def)
qed simp

lemma append_events_frame:
  "append_events H d rid evs clock = Inr d' \<Longrightarrow> same_outside_ledger d d'"
proof (induction H d rid evs clock rule: append_events.induct)
  case (2 H d rid etype details evs clock)
  then show ?case
    by (auto simp: result_simps intro: same_outside_ledger_trans append_event_frame)
qed (simp add: same_outside_ledger_def)

section \<open>The invariant of the run rows\<close>

text \<open>A row repeats what its manifest says; only a claimed candidate gives it an issue revision.\<close>

definition row_agrees :: "digest \<Rightarrow> run_row \<Rightarrow> bool" where
  "row_agrees H r \<longleftrightarrow> (let m = row_manifest r in
     run_id m = row_run_id r \<and> status m = row_status r \<and> updated_at m = row_updated_at r
     \<and> row_issue_number r = map_option issue_number (candidate m)
     \<and> row_issue_revision r = map_option (compute_issue_revision H) (candidate m)
     \<and> (candidate m \<noteq> None \<longrightarrow> row_repository r = map_option issue_repository (candidate m)))"

definition marker_ok :: "digest \<Rightarrow> dump \<Rightarrow> db \<Rightarrow> string \<Rightarrow> bool" where
  "marker_ok H J d rid \<longleftrightarrow> (\<forall>p. manifest_artifact_sync d rid = Some p \<longrightarrow>
     (\<exists>r. find_run d rid = Some r \<and> row_updated_at r = sync_updated_at p
        \<and> H (J (row_manifest r)) = sync_manifest_sha256 p))"

definition store_wf :: "digest \<Rightarrow> dump \<Rightarrow> db \<Rightarrow> bool" where
  "store_wf H J d \<longleftrightarrow> ledger_sound H d \<and> runs_ok (runs d)
     \<and> (\<forall>r\<in>set (runs d). row_agrees H r) \<and> (\<forall>rid. marker_ok H J d rid)"

lemma row_agrees_blank: "blank r = blank r' \<Longrightarrow> row_agrees H r \<longleftrightarrow> row_agrees H r'"
  using blank_eqD [of r r'] by (simp add: row_agrees_def Let_def)

lemma same_rows_agree:
  assumes "same_rows d d'" and "\<forall>r\<in>set (runs d). row_agrees H r"
  shows "\<forall>r\<in>set (runs d'). row_agrees H r"
proof
  fix r' assume "r' \<in> set (runs d')"
  then have "blank r' \<in> blank ` set (runs d')" by simp
  also have "blank ` set (runs d') = blank ` set (runs d)"
    using arg_cong [OF assms(1) [unfolded same_rows_def], of set] by simp
  finally obtain r where r: "r \<in> set (runs d)" "blank r' = blank r" by auto
  show "row_agrees H r'" using assms(2) r(1) unfolding row_agrees_blank [OF r(2)] by blast
qed

lemma same_rows_sym: "same_rows d d' \<Longrightarrow> same_rows d' d"
  by (simp add: same_rows_def)

lemma marker_ok_rows:
  assumes "same_rows d d'" and "manifest_artifact_sync d' rid = manifest_artifact_sync d rid" and "marker_ok H J d rid"
  shows "marker_ok H J d' rid"
  unfolding marker_ok_def
proof (intro allI impI)
  fix p assume "manifest_artifact_sync d' rid = Some p"
  then have "manifest_artifact_sync d rid = Some p" using assms(2) by simp
  with assms(3) obtain r where r: "find_run d rid = Some r" "row_updated_at r = sync_updated_at p"
    "H (J (row_manifest r)) = sync_manifest_sha256 p"
    unfolding marker_ok_def by blast
  from same_rows_find_Some' [OF assms(1) r(1)] obtain r' where "find_run d' rid = Some r'" "blank r = blank r'" by blast
  with r blank_eqD [of r r'] show "\<exists>r. find_run d' rid = Some r \<and> row_updated_at r = sync_updated_at p
      \<and> H (J (row_manifest r)) = sync_manifest_sha256 p" by simp
qed

lemma store_wf_create [simp]: "store_wf H J (create_schema t)"
  by (simp add: store_wf_def create_schema_def ledger_sound_def runs_ok_def active_keys_def marker_ok_def)

text \<open>The ledger does not see what an update does to the other columns.\<close>

definition anchor_of :: "run_row \<Rightarrow> string \<times> int \<times> string" where
  "anchor_of r = (row_run_id r, row_event_count r, row_event_head r)"

lemma anchored_cong:
  "anchor_of r = anchor_of r' \<Longrightarrow> events d = events d' \<Longrightarrow> anchored H d r \<longleftrightarrow> anchored H d' r'"
  by (simp add: anchored_def anchor_of_def run_events_def)

lemma ledger_sound_anchors:
  assumes "map anchor_of (runs d') = map anchor_of (runs d)" and "events d' = events d"
  shows "ledger_sound H d' \<longleftrightarrow> ledger_sound H d"
proof -
  have ids: "map row_run_id (runs d') = map row_run_id (runs d)"
    using arg_cong [OF assms(1), of "map fst"] by (simp add: comp_def anchor_of_def)
  have set: "row_run_id ` set (runs d') = row_run_id ` set (runs d)"
    using arg_cong [OF ids, of set] by simp
  have all: "\<forall>r\<in>set (runs d2). anchored H d2 r"
    if m: "map anchor_of (runs d2) = map anchor_of (runs d1)" and e: "events d2 = events d1"
      and a: "\<forall>r\<in>set (runs d1). anchored H d1 r" for d1 d2 :: db
  proof
    fix r assume "r \<in> set (runs d2)"
    then have "anchor_of r \<in> anchor_of ` set (runs d2)" by simp
    also have "anchor_of ` set (runs d2) = anchor_of ` set (runs d1)"
      using arg_cong [OF m, of set] by simp
    finally obtain r' where "r' \<in> set (runs d1)" "anchor_of r = anchor_of r'" by auto
    then show "anchored H d2 r" using a anchored_cong [of r r' d2 d1] e by simp
  qed
  have "(\<forall>r\<in>set (runs d'). anchored H d' r) \<longleftrightarrow> (\<forall>r\<in>set (runs d). anchored H d r)"
    using all [OF assms] all [OF assms(1) [symmetric] assms(2) [symmetric]] by blast
  then show ?thesis
    unfolding ledger_sound_def by (simp add: assms ids set)
qed

section \<open>Committed updates of a row\<close>

text \<open>What appending events to a sound ledger leaves.\<close>

definition appended :: "digest \<Rightarrow> db \<Rightarrow> db \<Rightarrow> bool" where
  "appended H d d' \<longleftrightarrow> ledger_sound H d' \<and> same_rows d d' \<and> runs_ok (runs d') \<and> same_outside_ledger d d'"

lemma append_event_appended:
  assumes "append_event H d rid etype details oc clock = Inr d'" and "ledger_sound H d"
  shows "appended H d d'"
proof -
  have "distinct (map row_run_id (runs d))" using assms(2) by (simp add: ledger_sound_def)
  from append_event_rows [OF assms(1) this] append_event_sound [OF assms(1) sound_appendable [OF assms(2)]]
    append_event_frame [OF assms(1)] show ?thesis by (simp add: appended_def)
qed

lemma append_events_appended:
  assumes "append_events H d rid evs clock = Inr d'" and "ledger_sound H d" and "runs_ok (runs d)"
  shows "appended H d d'"
  using append_events_rows [OF assms(1,3)] append_events_sound [OF assms(1,2)] append_events_frame [OF assms(1)]
  by (simp add: appended_def)

lemma same_outside_ledgerD:
  assumes "same_outside_ledger d d'"
  shows "manifest_artifact_sync d' = manifest_artifact_sync d" "manifest_files d' = manifest_files d"
    "workspaces d' = workspaces d" "publication_reservations d' = publication_reservations d"
    "candidate_retry_authorizations d' = candidate_retry_authorizations d" "holds d' = holds d"
    "leases d' = leases d" "lease_generations d' = lease_generations d"
    "circuit_breaker d' = circuit_breaker d" "circuit_breaker_events d' = circuit_breaker_events d"
    "secondary_rate_limit_streak d' = secondary_rate_limit_streak d"
  using arg_cong [OF assms [unfolded same_outside_ledger_def], of manifest_artifact_sync]
    arg_cong [OF assms [unfolded same_outside_ledger_def], of manifest_files]
    arg_cong [OF assms [unfolded same_outside_ledger_def], of workspaces]
    arg_cong [OF assms [unfolded same_outside_ledger_def], of publication_reservations]
    arg_cong [OF assms [unfolded same_outside_ledger_def], of candidate_retry_authorizations]
    arg_cong [OF assms [unfolded same_outside_ledger_def], of holds]
    arg_cong [OF assms [unfolded same_outside_ledger_def], of leases]
    arg_cong [OF assms [unfolded same_outside_ledger_def], of lease_generations]
    arg_cong [OF assms [unfolded same_outside_ledger_def], of circuit_breaker]
    arg_cong [OF assms [unfolded same_outside_ledger_def], of circuit_breaker_events]
    arg_cong [OF assms [unfolded same_outside_ledger_def], of secondary_rate_limit_streak]
  by simp_all

lemma write_runs_Inr: "write_runs d rs = Inr d' \<longleftrightarrow> runs_ok rs \<and> d' = d\<lparr>runs := rs\<rparr>"
  by (auto simp: write_runs_def)

lemma mark_Inr:
  "mark_manifest_artifact_sync H J d rid updated m = Inr d' \<longleftrightarrow>
     (\<exists>r. find_run d rid = Some r \<and> row_updated_at r = updated \<and> J (row_manifest r) = J m
       \<and> d' = d\<lparr>manifest_artifact_sync := (manifest_artifact_sync d)
           (rid \<mapsto> \<lparr>sync_updated_at = updated, sync_manifest_sha256 = H (J m)\<rparr>)\<rparr>)"
  by (auto simp: mark_manifest_artifact_sync_def split: option.splits)

text \<open>
  The pattern of every write of a run: the row changes, events are appended, the manifest's new
  version is marked.  The other rows keep everything but the ledger columns.
\<close>

lemma update_run_count:
  assumes "runs_ok rs" and "update_run rs rid g f = (rs', n)"
  shows "n = (case List.find (\<lambda>r. row_run_id r = rid) rs of None \<Rightarrow> 0 | Some r \<Rightarrow> if g r then 1 else 0)"
proof (cases "List.find (\<lambda>r. row_run_id r = rid) rs")
  case None
  then have "filter (\<lambda>r. row_run_id r = rid \<and> g r) rs = []"
    by (auto simp: find_None filter_empty_conv)
  with None assms(2) show ?thesis by (auto simp: update_run_def)
next
  case (Some r)
  from find_SomeD [OF Some] have "r \<in> set rs" "row_run_id r = rid" by auto
  with length_filter_key [of rs r g] assms Some show ?thesis
    by (auto simp: update_run_def runs_ok_def)
qed

lemma store_update:
  assumes wf: "store_wf H J d" and r: "find_run d rid = Some r" "g r"
    and upd: "update_run (runs d) rid g f = (rs, n)" and w: "write_runs d rs = Inr d1"
    and f: "\<And>x. anchor_of (f x) = anchor_of x" and agrees: "row_agrees H (f r)"
    and app: "appended H d1 d2"
    and mark: "mark_manifest_artifact_sync H J d2 rid updated m = Inr d3"
  shows "store_wf H J d3 \<and> same_rows (d\<lparr>runs := rs\<rparr>) d3
    \<and> (\<exists>r'. find_run d3 rid = Some r' \<and> blank r' = blank (f r))
    \<and> (\<forall>k. k \<noteq> rid \<longrightarrow> map_option blank (find_run d3 k) = map_option blank (find_run d k))"
proof -
  have ids: "row_run_id (f x) = row_run_id x" for x using f [of x] by (simp add: anchor_of_def)
  have rs: "rs = map (\<lambda>x. if row_run_id x = rid \<and> g x then f x else x) (runs d)"
    using upd by (simp add: update_run_def)
  have d1: "runs d1 = rs" "events d1 = events d" "manifest_artifact_sync d1 = manifest_artifact_sync d"
    using w by (simp_all add: write_runs_Inr)
  have "map anchor_of (runs d1) = map anchor_of (runs d)"
    using f by (simp add: d1 rs)
  have find1: "find_run d1 k = map_option (\<lambda>x. if k = rid \<and> g x then f x else x) (find_run d k)" for k
    using update_run_find [OF ids upd, of k] by (simp add: find_run_def d1)
  have agree1: "\<forall>x\<in>set (runs d1). row_agrees H x"
  proof
    fix x assume "x \<in> set (runs d1)"
    then obtain y where y: "y \<in> set (runs d)" "x = (if row_run_id y = rid \<and> g y then f y else y)"
      by (auto simp: d1 rs)
    show "row_agrees H x"
    proof (cases "row_run_id y = rid")
      case True
      then have "find_run d rid = Some y"
        using y(1) wf by (simp add: store_wf_def find_run_Some_iff)
      then have "y = r" using r(1) by simp
      with y(2) True r(2) agrees show ?thesis by simp
    next
      case False
      with y wf show ?thesis by (simp add: store_wf_def)
    qed
  qed
  from app have a2: "ledger_sound H d2" "same_rows d1 d2" "runs_ok (runs d2)"
    "manifest_artifact_sync d2 = manifest_artifact_sync d1"
    using same_outside_ledgerD by (auto simp: appended_def)
  from mark obtain r2 where r2: "find_run d2 rid = Some r2" "row_updated_at r2 = updated" "J (row_manifest r2) = J m"
    and d3: "d3 = d2\<lparr>manifest_artifact_sync := (manifest_artifact_sync d2)
           (rid \<mapsto> \<lparr>sync_updated_at = updated, sync_manifest_sha256 = H (J m)\<rparr>)\<rparr>"
    by (auto simp: mark_Inr)
  have find3: "find_run d3 = find_run d2" and same13: "same_rows d1 d3"
    using a2(2) by (simp_all add: d3 find_run_def fun_eq_iff same_rows_def)
  have others: "map_option blank (find_run d3 k) = map_option blank (find_run d k)" if "k \<noteq> rid" for k
    using same_rows_find [OF same13, of k] that by (simp add: find1 option.map_comp comp_def)
  have "marker_ok H J d3 k" for k
  proof (cases "k = rid")
    case True
    with r2 show ?thesis by (simp add: marker_ok_def find3) (simp add: d3)
  next
    case False
    then have "marker_ok H J d1 k"
      using wf by (simp add: store_wf_def marker_ok_def find1 d1)
    moreover have "manifest_artifact_sync d3 k = manifest_artifact_sync d1 k"
      using False by (simp add: d3 a2(4))
    ultimately show ?thesis using marker_ok_rows [OF same13] by blast
  qed
  moreover have "ledger_sound H d3 \<longleftrightarrow> ledger_sound H d2"
    by (rule ledger_sound_anchors) (simp_all add: d3)
  moreover have "runs_ok (runs d3)" using a2(3) by (simp add: d3)
  ultimately have "store_wf H J d3"
    using a2(1) same_rows_agree [OF same13 agree1] by (simp add: store_wf_def)
  moreover have "find_run d1 rid = Some (f r)" using r by (simp add: find1)
  then have "\<exists>r'. find_run d3 rid = Some r' \<and> blank r' = blank (f r)"
    using same_rows_find_Some' [OF same13] by metis
  moreover have "same_rows (d\<lparr>runs := rs\<rparr>) d3"
    using same13 by (simp add: same_rows_def d1)
  ultimately show ?thesis using others by blast
qed

text \<open>What a committed save has found and what it leaves.\<close>

lemma save_transaction_cases:
  assumes "save_transaction H J d m expected evs clock' = Inr d'" and "store_wf H J d"
  obtains r r' where "find_run d (run_id m) = Some r" and "row_updated_at r = expected"
    and "row_issue_revision r \<in> {None, map_option (compute_issue_revision H) (candidate m)}"
    and "candidate m = None \<longleftrightarrow> row_issue_revision r = None"
    and "store_wf H J d'" and "find_run d' (run_id m) = Some r'" and "blank r' = blank (saved_row H m r)"
    and "\<forall>k. k \<noteq> run_id m \<longrightarrow> map_option blank (find_run d' k) = map_option blank (find_run d k)"
    and "manifest_artifact_sync d' (run_id m) = Some \<lparr>sync_updated_at = updated_at m, sync_manifest_sha256 = H (J m)\<rparr>"
    and "same_rows (d\<lparr>runs := fst (update_run (runs d) (run_id m)
           (save_guard expected (map_option (compute_issue_revision H) (candidate m))) (saved_row H m))\<rparr>) d'"
    and "d' = d\<lparr>runs := runs d', events := events d', manifest_artifact_sync := manifest_artifact_sync d'\<rparr>"
proof -
  define revision where "revision = map_option (compute_issue_revision H) (candidate m)"
  obtain r where r: "find_run d (run_id m) = Some r"
    using assms(1) by (auto simp: save_transaction_def Let_def split: option.splits)
  obtain rs n where upd: "update_run (runs d) (run_id m) (save_guard expected revision) (saved_row H m) = (rs, n)"
    by (cases "update_run (runs d) (run_id m) (save_guard expected revision) (saved_row H m)")
  from assms(1) have c: "\<not> (candidate m \<noteq> None \<and> row_issue_revision r = None)"
    by (auto simp: save_transaction_def Let_def r split: if_splits)
  from assms(1) have t: "(if n \<noteq> 1 then
       (if row_issue_revision r \<notin> {None, revision} then
          Inl (StateError (''Run '' @ run_id m @ '' candidate evidence changed after selection''))
        else Inl (StateError (''Run '' @ run_id m @ '' changed while this manifest was being saved'')))
     else bind_r (write_runs d rs) (\<lambda>d1.
       bind_r (append_events H d1 (run_id m) evs clock') (\<lambda>d2.
       mark_manifest_artifact_sync H J d2 (run_id m) (updated_at m) m))) = Inr d'"
    using c unfolding save_transaction_def Let_def revision_def [symmetric] r upd option.case prod.case
    by (simp only: if_False)
  have n: "n = 1" using t by (auto split: if_splits)
  from t n obtain d1 d2 where w: "write_runs d rs = Inr d1"
    and a: "append_events H d1 (run_id m) evs clock' = Inr d2"
    and k: "mark_manifest_artifact_sync H J d2 (run_id m) (updated_at m) m = Inr d'"
    by (auto simp: bind_r_Inr_iff)
  have ok: "runs_ok (runs d)" using assms(2) by (simp add: store_wf_def)
  have g: "save_guard expected revision r"
  proof -
    have "n = (if save_guard expected revision r then 1 else 0)"
      using update_run_count [OF ok upd] r unfolding find_run_def by (simp only: option.case)
    with n show ?thesis by (simp only: split: if_splits)
  qed
  have f: "anchor_of (saved_row H m x) = anchor_of x" for x
    by (simp add: anchor_of_def saved_row_def)
  have agrees: "row_agrees H (saved_row H m r)"
    using find_run_SomeD [OF r] by (simp add: row_agrees_def saved_row_def Let_def)
  have s1: "ledger_sound H d1"
    using assms(2) ledger_sound_anchors [of d1 d H] w upd f
    by (auto simp: store_wf_def write_runs_Inr update_run_def)
  have app: "appended H d1 d2"
    by (rule append_events_appended [OF a s1]) (use w in \<open>simp add: write_runs_Inr\<close>)
  note st = store_update [OF assms(2) r g upd w f agrees app k]
  then obtain r' where "find_run d' (run_id m) = Some r'" "blank r' = blank (saved_row H m r)" by blast
  moreover have "row_issue_revision r \<in> {None, revision}" "candidate m = None \<longleftrightarrow> row_issue_revision r = None"
    using g c by (auto simp: save_guard_def revision_def)
  moreover have "manifest_artifact_sync d' (run_id m) = Some \<lparr>sync_updated_at = updated_at m, sync_manifest_sha256 = H (J m)\<rparr>"
    using k by (auto simp: mark_Inr)
  moreover have "d' = d\<lparr>runs := runs d', events := events d', manifest_artifact_sync := manifest_artifact_sync d'\<rparr>"
  proof -
    from app have "d2 = d1\<lparr>runs := runs d2, events := events d2\<rparr>"
      by (simp add: appended_def same_outside_ledger_def)
    with w have "d2 = d\<lparr>runs := runs d2, events := events d2\<rparr>" by (simp add: write_runs_Inr)
    then obtain rs2 es2 where "d2 = d\<lparr>runs := rs2, events := es2\<rparr>" by metis
    with k show ?thesis by (auto simp: mark_Inr)
  qed
  moreover have "row_updated_at r = expected" using g by (simp add: save_guard_def)
  ultimately show thesis using that r st upd unfolding revision_def by auto
qed

section \<open>Artifacts keep the invariant\<close>

lemma publish_cases:
  assumes "publish_artifact H J wr d rid updated sha = Inr (d', b)"
  obtains (declined) "\<not> b" and "d' = d"
      and "\<forall>p. manifest_artifact_sync d rid = Some p \<longrightarrow> sync_updated_at p \<noteq> updated \<or> sync_manifest_sha256 p \<noteq> sha"
  | (published) r where "b" and "find_run d rid = Some r"
      and "d' = d\<lparr>manifest_files := (manifest_files d)(rid \<mapsto> row_manifest r),
        manifest_artifact_sync := (manifest_artifact_sync d)(rid := None)\<rparr>"
proof (cases "manifest_artifact_sync d rid")
  case None
  from assms None have "\<not> b \<and> d' = d" by (auto simp: publish_artifact_def)
  with None declined show thesis by simp
next
  case (Some p)
  show thesis
  proof (cases "sync_updated_at p \<noteq> updated \<or> sync_manifest_sha256 p \<noteq> sha")
    case True
    from assms Some True have "\<not> b \<and> d' = d" by (auto simp: publish_artifact_def)
    with Some True declined show thesis by simp
  next
    case False
    with Some assms obtain r m where r: "find_run d rid = Some r" "validate_manifest (row_manifest r) = Inr m"
      and d': "b" "d' = d\<lparr>manifest_files := (manifest_files d)(rid \<mapsto> m),
        manifest_artifact_sync := (manifest_artifact_sync d)(rid := None)\<rparr>"
      by (auto simp: publish_artifact_def split: option.splits sum.splits if_splits)
    from validate_manifest_Inr [OF r(2)] r d' published show thesis by simp
  qed
qed

lemma synchronize_Inr:
  "synchronize_manifest_artifact H J wr d rid updated sha = Inr x \<longleftrightarrow> publish_artifact H J wr d rid updated sha = Inr x"
  by (auto simp: synchronize_manifest_artifact_def split: sum.splits error.splits)

lemma synchronize_Inl:
  "synchronize_manifest_artifact H J wr d rid updated sha = Inl e \<Longrightarrow> \<exists>x. e = ManifestArtifactSyncError x"
  by (auto simp: synchronize_manifest_artifact_def split: sum.splits error.splits)

text \<open>Changes outside the rows and the ledger that only remove markers.\<close>

definition cleared :: "db \<Rightarrow> db \<Rightarrow> bool" where
  "cleared d d' \<longleftrightarrow> runs d' = runs d \<and> events d' = events d
     \<and> manifest_artifact_sync d' \<subseteq>\<^sub>m manifest_artifact_sync d"

lemma cleared_wf: "cleared d d' \<Longrightarrow> store_wf H J d \<Longrightarrow> store_wf H J d'"
  using ledger_sound_anchors [of d' d H]
  by (auto simp: cleared_def store_wf_def marker_ok_def find_run_def map_le_def dom_def)

lemma cleared_refl [simp]: "cleared d d"
  by (simp add: cleared_def)

lemma cleared_trans: "cleared d d1 \<Longrightarrow> cleared d1 d2 \<Longrightarrow> cleared d d2"
  by (auto simp: cleared_def intro: map_le_trans)

lemma cleared_find: "cleared d d' \<Longrightarrow> find_run d' = find_run d"
  by (simp add: cleared_def find_run_def fun_eq_iff)

lemma synchronize_cleared:
  "synchronize_manifest_artifact H J wr d rid updated sha = Inr (d', b) \<Longrightarrow> cleared d d'"
  unfolding synchronize_Inr by (erule publish_cases) (auto simp: cleared_def map_le_def)

lemma remove_workspace_cleared: "remove_workspace rm d rid = Inr d' \<Longrightarrow> cleared d d'"
  by (auto simp: remove_workspace_def result_simps cleared_def)

lemma publish_pending_cleared: "publish_pending H J wr d ps n = (d', r) \<Longrightarrow> cleared d d'"
proof (induction H J wr d ps n arbitrary: d' rule: publish_pending.induct)
  case (2 H J wr d rid p ps n)
  show ?case
  proof (cases "rid = [] \<or> \<not> is_sha256 (sync_manifest_sha256 p)")
    case True
    with 2(2) show ?thesis by (auto simp: stored_event_hash_def split: if_splits)
  next
    case False
    then have sh: "stored_event_hash (sync_manifest_sha256 p) (''run '' @ rid @ '' pending manifest digest'')
        = Inr (sync_manifest_sha256 p)" "rid \<noteq> []"
      by (simp_all add: stored_event_hash_def)
    show ?thesis
    proof (cases "synchronize_manifest_artifact H J wr d rid (sync_updated_at p) (sync_manifest_sha256 p)")
      case (Inl e)
      with 2(2) sh show ?thesis by simp
    next
      case (Inr x)
      have "publish_pending H J wr (fst x) ps (if snd x then n + 1 else n) = (d', r)"
        using 2(2) Inr sh by simp
      then have "cleared (fst x) d'" using 2(1) [OF sh(2,1) Inr] by simp
      moreover have "cleared d (fst x)"
        using synchronize_cleared [of H J wr d rid _ _ "fst x" "snd x"] Inr by simp
      ultimately show ?thesis by (rule cleared_trans [rotated])
    qed
  qed
qed simp

lemma synchronize_all_cleared: "synchronize_manifest_artifacts H J wr d limit = (d', r) \<Longrightarrow> cleared d d'"
  by (auto simp: synchronize_manifest_artifacts_def split: if_splits intro: publish_pending_cleared)

section \<open>Outcomes of a save\<close>

lemma next_run_update_time_Inr: "next_run_update_time t c = Inr t' \<Longrightarrow> t < t'"
  by (auto simp: next_run_update_time_def shift_def split: if_splits sum.splits)

text \<open>Right after its transaction, a run's file can only be published as the version just saved.\<close>

lemma publish_saved:
  assumes "save_transaction H J d m expected evs clock' = Inr d1" and "store_wf H J d"
    and "synchronize_manifest_artifact H J wr d1 (run_id m) (updated_at m) (H (J m)) = Inr x"
  shows "manifest_files (fst x) (run_id m) = Some m \<and> manifest_artifact_sync (fst x) (run_id m) = None"
proof -
  from assms(1,2) obtain r r' where r': "find_run d1 (run_id m) = Some r'" "blank r' = blank (saved_row H m r)"
    and s: "manifest_artifact_sync d1 (run_id m) = Some \<lparr>sync_updated_at = updated_at m, sync_manifest_sha256 = H (J m)\<rparr>"
    by (rule save_transaction_cases) blast
  have m: "row_manifest r' = m" using blank_eqD(7) [OF r'(2)] by (simp add: saved_row_def)
  from assms(3) have "publish_artifact H J wr d1 (run_id m) (updated_at m) (H (J m)) = Inr (fst x, snd x)"
    by (simp add: synchronize_Inr)
  then show ?thesis
    by (cases rule: publish_cases) (use s r' m in auto)
qed

text \<open>Only the publication raises \<open>_ManifestArtifactSyncError\<close>.\<close>

definition sync_error :: "error \<Rightarrow> bool" where
  "sync_error e \<longleftrightarrow> (\<exists>x. e = ManifestArtifactSyncError x)"

lemma sync_error_simps [simp]:
  "\<not> sync_error (StateError x)" "\<not> sync_error (ValueError x)" "\<not> sync_error (IntegrityError x)"
  "sync_error (ManifestArtifactSyncError x)"
  by (simp_all add: sync_error_def)

lemma append_event_error: "append_event H d rid etype details oc clock = Inl e \<Longrightarrow> \<not> sync_error e"
  by (auto simp: append_event_def insert_event_def write_runs_def stored_event_count_def stored_event_hash_def
      ledger_head_def Let_def result_simps split: option.splits if_splits prod.splits)

lemma append_events_error: "append_events H d rid evs clock = Inl e \<Longrightarrow> \<not> sync_error e"
  by (induction H d rid evs clock rule: append_events.induct) (auto simp: result_simps dest: append_event_error)

lemma mark_error: "mark_manifest_artifact_sync H J d rid updated m = Inl e \<Longrightarrow> \<not> sync_error e"
  by (auto simp: mark_manifest_artifact_sync_def split: option.splits if_splits)

lemma save_transaction_error: "save_transaction H J d m expected evs clock' = Inl e \<Longrightarrow> \<not> sync_error e"
  by (auto simp: save_transaction_def Let_def result_simps write_runs_def split: option.splits if_splits prod.splits
      dest: append_events_error mark_error)

lemma save_arguments_error:
  "selection_details H m etype details = Inl e \<Longrightarrow> \<not> sync_error e"
  "next_run_update_time t clock = Inl e \<Longrightarrow> \<not> sync_error e"
  by (auto simp: selection_details_def next_run_update_time_def Let_def split: option.splits if_splits sum.splits)

lemma save_run_cases:
  assumes "save_run H J wr rm d m etype details following clock clock' = (d', m', res)" and "store_wf H J d"
  obtains (refused) e where "d' = d" and "m' = m" and "res = Inl e" and "\<not> sync_error e"
      and "\<And>dts t d1. selection_details H m etype details = Inr dts \<Longrightarrow>
        next_run_update_time (updated_at m) clock = Inr t \<Longrightarrow>
        save_transaction H J d (m\<lparr>updated_at := t\<rparr>) (updated_at m) ((etype, dts) # following) clock' \<noteq> Inr d1"
  | (committed) dts t d1 where "m' = m\<lparr>updated_at := t\<rparr>" and "updated_at m < t"
      and "save_transaction H J d m' (updated_at m) ((etype, dts) # following) clock' = Inr d1"
      and "cleared d1 d'"
      and "res = Inr () \<Longrightarrow> manifest_files d' (run_id m) = Some m' \<and> manifest_artifact_sync d' (run_id m) = None"
      and "\<And>e. res = Inl e \<Longrightarrow> sync_error e
          \<or> status m \<in> terminal_statuses \<and> workspace_name (run_id m) = Inl e"
proof (cases "bind_r (selection_details H m etype details) (\<lambda>dts.
           bind_r (next_run_update_time (updated_at m) clock) (\<lambda>saved_at. Inr (dts, saved_at)))")
  case (Inl e)
  with assms(1) have "d' = d \<and> m' = m \<and> res = Inl e" by (simp add: save_run_def)
  with Inl save_arguments_error refused show thesis by (auto simp: result_simps)
next
  case (Inr p)
  define m1 where "m1 = m\<lparr>updated_at := snd p\<rparr>"
  have m1: "run_id m1 = run_id m" "updated_at m1 = snd p" "status m1 = status m" by (simp_all add: m1_def)
  from Inr have p: "selection_details H m etype details = Inr (fst p)"
    "next_run_update_time (updated_at m) clock = Inr (snd p)"
    by (auto simp: result_simps)
  note lt = next_run_update_time_Inr [OF p(2)]
  note run = assms(1) [unfolded save_run_def Inr sum.case Let_def m1_def [symmetric]]
  show thesis
  proof (cases "save_transaction H J d m1 (updated_at m) ((etype, fst p) # following) clock'")
    case e: (Inl e)
    with run have "d' = d \<and> m' = m \<and> res = Inl e" by simp
    then show thesis
      by (intro refused [of e]) (use e p m1_def save_transaction_error [OF e] in auto)
  next
    case d1: (Inr d1)
    note run = run [unfolded d1 sum.case m1]
    show thesis
    proof (cases "synchronize_manifest_artifact H J wr d1 (run_id m) (snd p) (H (J m1))")
      case e: (Inl e)
      with run have r: "d' = d1" "m' = m1" "res = Inl e" by simp_all
      show thesis
        by (rule committed [of "snd p" "fst p" d1])
           (use r m1_def lt d1 synchronize_Inl [OF e] in \<open>auto simp: sync_error_def\<close>)
    next
      case x: (Inr x)
      have cl: "cleared d1 (fst x)"
        using synchronize_cleared [of H J wr d1 "run_id m" _ _ "fst x" "snd x"] x by simp
      have f: "manifest_files (fst x) (run_id m) = Some m1 \<and> manifest_artifact_sync (fst x) (run_id m) = None"
        using publish_saved [OF d1 assms(2), of wr x] x m1 by simp
      note run = run [unfolded x sum.case]
      show thesis
      proof (cases "status m \<in> terminal_statuses")
        case False
        with run have r: "d' = fst x" "m' = m1" "res = Inr ()" by simp_all
        show thesis
          by (rule committed [of "snd p" "fst p" d1]) (use r m1_def lt d1 cl f in auto)
      next
        case True
        show thesis
        proof (cases "remove_workspace rm (fst x) (run_id m)")
          case e: (Inl e)
          with run True have r: "d' = fst x" "m' = m1" "res = Inl e" by simp_all
          from e have "workspace_name (run_id m) = Inl e"
            by (simp add: remove_workspace_def result_simps)
          show thesis
            by (rule committed [of "snd p" "fst p" d1])
               (use r m1_def lt d1 cl True \<open>workspace_name (run_id m) = Inl e\<close> in auto)
        next
          case d3: (Inr d3)
          with run True have r: "d' = d3" "m' = m1" "res = Inr ()" by simp_all
          have "manifest_files d3 = manifest_files (fst x)" "manifest_artifact_sync d3 = manifest_artifact_sync (fst x)"
            using d3 by (auto simp: remove_workspace_def result_simps)
          then show thesis
            by (intro committed [of "snd p" "fst p" d1])
               (use r m1_def lt d1 f cleared_trans [OF cl remove_workspace_cleared [OF d3]] in auto)
        qed
      qed
    qed
  qed
qed

section \<open>Properties\<close>

lemma save_run_wf:
  assumes "save_run H J wr rm d m etype details following clock clock' = (d', m', res)" and "store_wf H J d"
  shows "store_wf H J d'"
  using assms
proof (cases rule: save_run_cases)
  case (committed dts t d1)
  from committed(3) assms(2) have "store_wf H J d1" by (rule save_transaction_cases)
  then show ?thesis by (rule cleared_wf [OF committed(4)])
qed (use assms(2) in simp)

text \<open>The row a committed save leaves.\<close>

lemma save_run_row:
  assumes "save_run H J wr rm d m etype details following clock clock' = (d', m', res)" and "store_wf H J d"
    and "d' \<noteq> d \<or> returns res"
  shows "\<exists>r r'. find_run d (run_id m) = Some r \<and> row_updated_at r = updated_at m
    \<and> find_run d' (run_id m) = Some r' \<and> row_manifest r' = m' \<and> row_updated_at r' = updated_at m' \<and> row_status r' = status m
    \<and> row_issue_revision r' = row_issue_revision r
    \<and> updated_at m < updated_at m' \<and> m' = m\<lparr>updated_at := updated_at m'\<rparr>
    \<and> (\<forall>k. k \<noteq> run_id m \<longrightarrow> map_option blank (find_run d' k) = map_option blank (find_run d k))"
  using assms(1,2)
proof (cases rule: save_run_cases)
  case (committed dts t d1)
  from committed(3) assms(2) obtain r r' where r: "find_run d (run_id m') = Some r" "row_updated_at r = updated_at m"
    "row_issue_revision r \<in> {None, map_option (compute_issue_revision H) (candidate m')}"
    "candidate m' = None \<longleftrightarrow> row_issue_revision r = None"
    "find_run d1 (run_id m') = Some r'" "blank r' = blank (saved_row H m' r)"
    "\<forall>k. k \<noteq> run_id m' \<longrightarrow> map_option blank (find_run d1 k) = map_option blank (find_run d k)"
    by (rule save_transaction_cases)
  have m': "run_id m' = run_id m" "status m' = status m" "updated_at m' = t" using committed(1) by simp_all
  have "row_issue_revision r' = row_issue_revision r"
    using blank_eqD(8) [OF r(6)] r(3,4) by (auto simp: saved_row_def)
  moreover have "row_manifest r' = m'" "row_updated_at r' = t" "row_status r' = status m"
    using blank_eqD [OF r(6)] m' by (simp_all add: saved_row_def)
  moreover have "find_run d' = find_run d1" by (rule cleared_find [OF committed(4)])
  ultimately show ?thesis using r committed(1,2) m' by auto
qed (use assms(3) in simp)

text \<open>
  C8. After one save of a manifest version has committed, a save of any manifest of that run
  still carrying the old update time is refused and changes neither the database nor the
  manifest: no update is ever lost to a stale writer.
\<close>

theorem lost_update_refused:
  assumes "store_wf H J d"
    and "save_run H J wr rm d m e1 dts1 fo1 c1 c1' = (d1, m1, Inr ())"
    and "run_id m2 = run_id m" and "updated_at m2 = updated_at m"
  shows "\<exists>e. save_run H J wr rm d1 m2 e2 dts2 fo2 c2 c2' = (d1, m2, Inl e)"
proof -
  from save_run_row [OF assms(2,1)] obtain r' where r': "find_run d1 (run_id m) = Some r'"
    "row_updated_at r' = updated_at m1" "updated_at m < updated_at m1" by auto
  have wf: "store_wf H J d1" by (rule save_run_wf [OF assms(2,1)])
  obtain d2 m' res where s: "save_run H J wr rm d1 m2 e2 dts2 fo2 c2 c2' = (d2, m', res)"
    by (metis prod_cases3)
  from s wf show ?thesis
  proof (cases rule: save_run_cases)
    case (committed dts t d3)
    from committed(3) wf obtain r where "find_run d1 (run_id m') = Some r" "row_updated_at r = updated_at m2"
      by (rule save_transaction_cases)
    with r' assms(3,4) committed(1) have False by simp
    then show ?thesis ..
  qed (use s in simp)
qed

text \<open>
  C2. A transition of a loaded run, whose identifier can name a workspace, either leaves the
  database and the manifest as they were or commits exactly the requested status, which is an
  allowed successor of the stored one, with a strictly newer update time, the same issue
  revision and the manifest the caller holds; the store invariant is kept in both cases.
\<close>

theorem transition_follows_graph:
  assumes "store_wf H J d" and "get_run d rid = Inr m" and "returns (workspace_name rid)"
    and "transition_run H J wr rm d m target reason evidence clock clock' = (d', m', res)"
  shows "store_wf H J d' \<and>
    (d' = d \<and> m' = m
     \<or> (\<exists>r r'. find_run d rid = Some r \<and> find_run d' rid = Some r' \<and> row_status r' = target
          \<and> status_step (row_status r) (row_status r') \<and> row_manifest r' = m'
          \<and> row_updated_at r < row_updated_at r' \<and> row_issue_revision r' = row_issue_revision r))"
proof -
  from assms(2) obtain r where r: "find_run d rid = Some r" and m: "row_manifest r = m"
    by (auto simp: get_run_def split: option.splits dest: validate_manifest_Inr)
  from r assms(1) m have id: "run_id m = rid" "status m = row_status r" "updated_at m = row_updated_at r"
    by (auto simp: store_wf_def row_agrees_def Let_def dest!: find_run_SomeD)
  show ?thesis
  proof (cases "target \<noteq> status m \<and> target \<in> allowed_transitions (status m)")
    case False
    with assms(1,4) show ?thesis by (auto simp: transition_run_def split: if_splits)
  next
    case True
    define evs where "evs = evidence @ [(''run.transitioned'', transition_details (status m) target reason)]"
    obtain d1 m1 res1 where s: "save_run H J wr rm d (m\<lparr>status := target\<rparr>) (fst (hd evs)) (snd (hd evs)) (tl evs) clock clock'
        = (d1, m1, res1)"
      by (metis prod_cases3)
    have t: "d' = d1 \<and> (res1 = Inr () \<longrightarrow> m' = m1) \<and> (\<forall>e. res1 = Inl e \<longrightarrow> (if sync_error e
        then m' = m1 else m' = m1\<lparr>status := status m\<rparr>))"
      using assms(4) True s unfolding transition_run_def Let_def evs_def [symmetric]
      by (auto simp: sync_error_def split: sum.splits error.splits)
    have wf: "store_wf H J d1" by (rule save_run_wf [OF s assms(1)])
    from s assms(1) show ?thesis
    proof (cases rule: save_run_cases)
      case (refused e)
      with t wf show ?thesis by simp
    next
      case (committed dts u d2)
      have "returns res1 \<or> d1 \<noteq> d"
      proof (rule ccontr)
        assume n: "\<not> (returns res1 \<or> d1 \<noteq> d)"
        have "find_run d1 = find_run d2" by (rule cleared_find [OF committed(4)])
        moreover from committed(3) assms(1) obtain r' where "find_run d2 (run_id m1) = Some r'"
          "blank r' = blank (saved_row H m1 r)"
          using r id committed(1) by (elim save_transaction_cases) auto
        then have "find_run d2 rid = Some r'" "row_updated_at r' = u"
          using committed(1) id blank_eqD(6) [of r' "saved_row H m1 r"] by (simp_all add: saved_row_def)
        ultimately show False using n r id committed(2) by simp
      qed
      from save_run_row [OF s assms(1)] this r id have row: "\<exists>r'. find_run d1 rid = Some r' \<and> row_manifest r' = m1
          \<and> row_status r' = target \<and> row_updated_at r' = updated_at m1 \<and> row_issue_revision r' = row_issue_revision r
          \<and> updated_at m < updated_at m1"
        by auto
      have "m' = m1"
      proof (cases res1)
        case (Inl e)
        have "sync_error e"
          using committed(6) [OF Inl] assms(3) id by (auto simp: returns_def split: sum.splits)
        with t Inl show ?thesis by simp
      qed (use t in simp)
      with row t r id True wf show ?thesis by (auto simp: status_step_iff)
    qed
  qed
qed

section \<open>Publishing what is pending\<close>

definition stored_file :: "db \<Rightarrow> string \<Rightarrow> run_manifest option" where
  "stored_file d rid = map_option row_manifest (find_run d rid)"

text \<open>What a pending artifact needs to be published: a stored manifest that validates, and a file that can be written.\<close>

definition publishable :: "writer \<Rightarrow> db \<Rightarrow> string \<Rightarrow> bool" where
  "publishable wr d rid \<longleftrightarrow> wr rid = None \<and> (\<exists>m. stored_file d rid = Some m \<and> returns (validate_manifest m))"

lemma publish_one:
  assumes "store_wf H J d" and "manifest_artifact_sync d rid = Some p"
  shows "if publishable wr d rid
    then synchronize_manifest_artifact H J wr d rid (sync_updated_at p) (sync_manifest_sha256 p) =
      Inr (d\<lparr>manifest_files := (manifest_files d)(rid := stored_file d rid),
        manifest_artifact_sync := (manifest_artifact_sync d)(rid := None)\<rparr>, True)
    else \<exists>m. synchronize_manifest_artifact H J wr d rid (sync_updated_at p) (sync_manifest_sha256 p) =
      Inl (ManifestArtifactSyncError m)"
proof -
  have "marker_ok H J d rid" using assms(1) by (simp add: store_wf_def)
  with assms(2) obtain r where r: "find_run d rid = Some r" "row_updated_at r = sync_updated_at p"
    "H (J (row_manifest r)) = sync_manifest_sha256 p"
    unfolding marker_ok_def by blast
  with assms(1) have id: "run_id (row_manifest r) = rid" "updated_at (row_manifest r) = row_updated_at r"
    by (auto simp: store_wf_def row_agrees_def Let_def dest!: find_run_SomeD)
  show ?thesis
  proof (cases "validate_manifest (row_manifest r)")
    case (Inl e)
    with r assms(2) show ?thesis
      by (simp add: publish_artifact_def synchronize_manifest_artifact_def publishable_def stored_file_def)
  next
    case (Inr m)
    then have "m = row_manifest r" by (rule validate_manifest_Inr)
    with Inr r id assms(2) show ?thesis
      by (cases "wr rid") (simp_all add: publish_artifact_def synchronize_manifest_artifact_def publishable_def stored_file_def)
  qed
qed

lemma publish_some:
  assumes "store_wf H J d" and "distinct (map fst ps)"
    and "\<forall>(rid, p)\<in>set ps. manifest_artifact_sync d rid = Some p \<and> rid \<noteq> []" and "\<And>x. is_sha256 (H x)"
  shows "\<exists>d' k m. publish_pending H J wr d ps n
      = (d', if k = length ps then Inr (n + k) else Inl (ManifestArtifactSyncError m)) \<and> k \<le> length ps
    \<and> (\<forall>rid\<in>fst ` set (take k ps). publishable wr d rid) \<and> (k < length ps \<longrightarrow> \<not> publishable wr d (fst (ps ! k)))
    \<and> (\<forall>i. manifest_artifact_sync d' i = (if i \<in> fst ` set (take k ps) then None else manifest_artifact_sync d i))
    \<and> (\<forall>i. manifest_files d' i = (if i \<in> fst ` set (take k ps) then stored_file d i else manifest_files d i))"
  using assms(1-3)
proof (induction ps arbitrary: d n)
  case (Cons a ps)
  obtain rid p where a: "a = (rid, p)" by (cases a)
  from Cons.prems a have m: "manifest_artifact_sync d rid = Some p" "rid \<noteq> []" by auto
  have sha: "is_sha256 (sync_manifest_sha256 p)"
    using Cons.prems(1) m(1) assms(4) by (metis store_wf_def marker_ok_def)
  show ?case
  proof (cases "publishable wr d rid")
    case False
    with publish_one [OF Cons.prems(1) m(1), of wr] m(2) sha show ?thesis
      by (intro exI [of _ d] exI [of _ 0]) (auto simp: a stored_event_hash_def)
  next
    case True
    define d1 where "d1 = d\<lparr>manifest_files := (manifest_files d)(rid := stored_file d rid),
        manifest_artifact_sync := (manifest_artifact_sync d)(rid := None)\<rparr>"
    have 1: "synchronize_manifest_artifact H J wr d rid (sync_updated_at p) (sync_manifest_sha256 p) = Inr (d1, True)"
      using publish_one [OF Cons.prems(1) m(1), of wr] True by (simp add: d1_def)
    have "cleared d d1" by (auto simp: d1_def cleared_def map_le_def)
    then have wf: "store_wf H J d1" using Cons.prems(1) cleared_wf by blast
    have d1s: "stored_file d1 = stored_file d" "publishable wr d1 = publishable wr d"
      by (simp_all add: d1_def stored_file_def find_run_def fun_eq_iff publishable_def)
    have pend: "distinct (map fst ps)" "\<forall>(i, q)\<in>set ps. manifest_artifact_sync d1 i = Some q \<and> i \<noteq> []" "rid \<notin> fst ` set ps"
      using Cons.prems(2,3) a by (force simp: d1_def)+
    from Cons.IH [OF wf pend(1,2), of "n + 1"] obtain d' k e where k:
      "publish_pending H J wr d1 ps (n + 1) = (d', if k = length ps then Inr (n + 1 + k) else Inl (ManifestArtifactSyncError e))"
      "k \<le> length ps" "\<forall>rid\<in>fst ` set (take k ps). publishable wr d rid" "k < length ps \<longrightarrow> \<not> publishable wr d (fst (ps ! k))"
      "\<forall>i. manifest_artifact_sync d' i = (if i \<in> fst ` set (take k ps) then None else manifest_artifact_sync d1 i)"
      "\<forall>i. manifest_files d' i = (if i \<in> fst ` set (take k ps) then stored_file d i else manifest_files d1 i)"
      unfolding d1s by blast
    have "publish_pending H J wr d (a # ps) n = publish_pending H J wr d1 ps (n + 1)"
      using 1 m(2) sha by (simp add: a stored_event_hash_def)
    with k True show ?thesis
      by (intro exI [of _ d'] exI [of _ "Suc k"] exI [of _ e]) (auto simp: a d1_def)
  qed
qed simp

lemma pending_artifacts_set:
  "set (pending_artifacts d) = {(rid, p). rid \<in> row_run_id ` set (runs d) \<and> manifest_artifact_sync d rid = Some p}"
  by (auto simp: pending_artifacts_def image_iff split: option.splits)

lemma pending_artifacts_distinct:
  assumes "distinct (map row_run_id (runs d))"
  shows "distinct (map fst (pending_artifacts d))"
proof -
  have "distinct (map fst (concat (map (\<lambda>r. case manifest_artifact_sync d (row_run_id r) of
        None \<Rightarrow> [] | Some p \<Rightarrow> [(row_run_id r, p)]) rs)))" if "distinct (map row_run_id rs)" for rs :: "run_row list"
    using that by (induction rs) (auto split: option.splits)
  from this [OF assms] show ?thesis
    unfolding pending_artifacts_def by (metis (no_types, lifting) distinct_map distinct_sort set_sort)
qed

text \<open>
  C36. For a store of well-formed rows, synchronizing all pending manifests returns exactly when
  at most 10,000 are pending and every pending run has a stored manifest that validates and a
  file that can be written; then it counts them and clears every marker. However it ends, a
  marker is cleared only where the file is now exactly the stored manifest, every other marker
  and file is as it was, and the error is one of publishing manifests.
\<close>

theorem pending_artifacts_published:
  assumes "store_wf H J d" and "\<And>x. is_sha256 (H x)"
    and "synchronize_manifest_artifacts H J wr d (int max_run_corpus) = (d', res)"
  shows "(returns res \<longleftrightarrow> length (pending_artifacts d) \<le> max_run_corpus
      \<and> (\<forall>rid. manifest_artifact_sync d rid \<noteq> None \<longrightarrow> publishable wr d rid))
    \<and> (returns res \<longrightarrow> res = Inr (length (pending_artifacts d)) \<and> manifest_artifact_sync d' = Map.empty)
    \<and> (\<forall>rid. if manifest_artifact_sync d rid \<noteq> None \<and> manifest_artifact_sync d' rid = None
        then manifest_files d' rid = stored_file d rid \<and> stored_file d rid \<noteq> None
        else manifest_artifact_sync d' rid = manifest_artifact_sync d rid \<and> manifest_files d' rid = manifest_files d rid)
    \<and> (\<forall>e. res = Inl e \<longrightarrow> sync_error e)"
proof (cases "length (pending_artifacts d) \<le> max_run_corpus")
  case False
  with assms(3) show ?thesis
    by (auto simp: synchronize_manifest_artifacts_def max_run_corpus_def sync_error_def)
next
  case True
  have wf: "ledger_sound H d" "runs_ok (runs d)" using assms(1) by (simp_all add: store_wf_def)
  have known: "rid \<in> row_run_id ` set (runs d)" if "manifest_artifact_sync d rid = Some p" for rid p
    using assms(1) that by (force simp: store_wf_def marker_ok_def dest: find_run_SomeD)
  then have keys: "fst ` set (pending_artifacts d) = {rid. manifest_artifact_sync d rid \<noteq> None}"
    by (force simp: pending_artifacts_set image_iff)
  have d: "distinct (map fst (pending_artifacts d))"
    by (rule pending_artifacts_distinct) (use wf in \<open>simp add: runs_ok_def\<close>)
  have "[] \<notin> row_run_id ` set (runs d)" using wf by (simp add: ledger_sound_def)
  then have p: "\<forall>(rid, p)\<in>set (pending_artifacts d). manifest_artifact_sync d rid = Some p \<and> rid \<noteq> []"
    by (simp add: pending_artifacts_set) blast
  have "synchronize_manifest_artifacts H J wr d (int max_run_corpus) = publish_pending H J wr d (pending_artifacts d) 0"
    using True by (simp add: synchronize_manifest_artifacts_def max_run_corpus_def)
  with assms(3) have eq: "publish_pending H J wr d (pending_artifacts d) 0 = (d', res)" by simp
  from publish_some [OF assms(1) d p assms(2), of wr 0] obtain k m where k: "k \<le> length (pending_artifacts d)"
    "res = (if k = length (pending_artifacts d) then Inr k else Inl (ManifestArtifactSyncError m))"
    "\<forall>rid\<in>fst ` set (take k (pending_artifacts d)). publishable wr d rid"
    "k < length (pending_artifacts d) \<longrightarrow> \<not> publishable wr d (fst (pending_artifacts d ! k))"
    "\<forall>i. manifest_artifact_sync d' i = (if i \<in> fst ` set (take k (pending_artifacts d)) then None else manifest_artifact_sync d i)"
    "\<forall>i. manifest_files d' i = (if i \<in> fst ` set (take k (pending_artifacts d)) then stored_file d i else manifest_files d i)"
    unfolding eq prod.inject add_0 by blast
  have done_stored: "manifest_artifact_sync d rid \<noteq> None" "stored_file d rid \<noteq> None"
    if "rid \<in> fst ` set (take k (pending_artifacts d))" for rid
    using that keys k(3) image_mono [OF set_take_subset [of k "pending_artifacts d"], of fst] by (auto simp: publishable_def)
  have files: "\<forall>rid. if manifest_artifact_sync d rid \<noteq> None \<and> manifest_artifact_sync d' rid = None
        then manifest_files d' rid = stored_file d rid \<and> stored_file d rid \<noteq> None
        else manifest_artifact_sync d' rid = manifest_artifact_sync d rid \<and> manifest_files d' rid = manifest_files d rid"
  proof
    fix rid
    show "if manifest_artifact_sync d rid \<noteq> None \<and> manifest_artifact_sync d' rid = None
        then manifest_files d' rid = stored_file d rid \<and> stored_file d rid \<noteq> None
        else manifest_artifact_sync d' rid = manifest_artifact_sync d rid \<and> manifest_files d' rid = manifest_files d rid"
      using k(5,6) done_stored [of rid] by (cases "rid \<in> fst ` set (take k (pending_artifacts d))"; cases "manifest_artifact_sync d rid") simp_all
  qed
  show ?thesis
  proof (cases "k = length (pending_artifacts d)")
    case all: True
    with k keys have "\<forall>rid. manifest_artifact_sync d rid \<noteq> None \<longrightarrow> publishable wr d rid" "manifest_artifact_sync d' = Map.empty"
      by (auto simp: fun_eq_iff)
    with all k(2) True files show ?thesis by simp
  next
    case False
    with k(1) have l: "k < length (pending_artifacts d)" by simp
    then have "fst (pending_artifacts d ! k) \<in> fst ` set (pending_artifacts d)" by simp
    with keys k(4) l have "\<not> (\<forall>rid. manifest_artifact_sync d rid \<noteq> None \<longrightarrow> publishable wr d rid)" by blast
    with False k(2) files show ?thesis by (simp add: sync_error_def)
  qed
qed

section \<open>What retiring does to the rows\<close>

lemma retire_row_step:
  assumes "store_wf H J d" and "find_run d (row_run_id row) = Some r0" and "blank r0 = blank row"
    and "retire_row H J target etype reason record_error retired_at clock' d row = Inr d'"
  shows "store_wf H J d' \<and> (\<exists>r'. find_run d' (row_run_id row) = Some r' \<and> row_status r' = target
      \<and> row_updated_at r' = retired_at
      \<and> row_manifest r' = retired_manifest target (if record_error then Some reason else None) retired_at (row_manifest row))
    \<and> (\<forall>k. k \<noteq> row_run_id row \<longrightarrow> map_option blank (find_run d' k) = map_option blank (find_run d k))"
proof -
  define m1 where "m1 = retired_manifest target (if record_error then Some reason else None) retired_at (row_manifest row)"
  define g where "g = (\<lambda>r :: run_row. row_status r = row_status row \<and> row_updated_at r = row_updated_at row)"
  define f where "f = (\<lambda>r :: run_row. r\<lparr>row_status := target, row_updated_at := retired_at, row_manifest := m1\<rparr>)"
  obtain rs n where upd: "update_run (runs d) (row_run_id row) g f = (rs, n)"
    by (cases "update_run (runs d) (row_run_id row) g f")
  from assms(4) obtain m where v: "validate_manifest (row_manifest row) = Inr m"
    by (auto simp: retire_row_def split: sum.splits)
  then have m: "m = row_manifest row" by (rule validate_manifest_Inr)
  from assms(4) have t: "(if n \<noteq> 1 then
       Inl (StateError (''Run '' @ row_run_id row @ '' changed while it was being retired''))
     else bind_r (write_runs d rs) (\<lambda>d1.
       bind_r (append_event H d1 (row_run_id row) etype
           [(''from'', status_value (row_status row)), (''to'', status_value target), (''reason'', reason)]
           None clock') (\<lambda>d2.
       mark_manifest_artifact_sync H J d2 (row_run_id row) retired_at m1))) = Inr d'"
    and ids: "run_id m = row_run_id row"
    using upd unfolding retire_row_def v sum.case Let_def m m1_def [symmetric] g_def [symmetric] f_def [symmetric]
    by (auto split: if_splits)
  then obtain d1 d2 where w: "write_runs d rs = Inr d1"
    and a: "append_event H d1 (row_run_id row) etype
           [(''from'', status_value (row_status row)), (''to'', status_value target), (''reason'', reason)]
           None clock' = Inr d2"
    and k: "mark_manifest_artifact_sync H J d2 (row_run_id row) retired_at m1 = Inr d'"
    by (auto simp: bind_r_Inr_iff split: if_splits)
  have g0: "g r0" using blank_eqD [OF assms(3)] by (simp add: g_def)
  have fa: "anchor_of (f x) = anchor_of x" for x by (simp add: f_def anchor_of_def)
  have "row_agrees H r0"
    using assms(1,2) by (auto simp: store_wf_def dest!: find_run_SomeD)
  then have agrees: "row_agrees H (f r0)"
    using blank_eqD [OF assms(3)] by (simp add: row_agrees_def f_def m1_def retired_manifest_def Let_def)
  have "ledger_sound H d1"
    using assms(1) ledger_sound_anchors [of d1 d H] w upd fa
    by (auto simp: store_wf_def write_runs_Inr update_run_def)
  then have app: "appended H d1 d2" by (rule append_event_appended [OF a])
  from store_update [OF assms(1,2) g0 upd w fa agrees app k] obtain r' where
    "store_wf H J d'" "find_run d' (row_run_id row) = Some r'" "blank r' = blank (f r0)"
    "\<forall>k. k \<noteq> row_run_id row \<longrightarrow> map_option blank (find_run d' k) = map_option blank (find_run d k)"
    by blast
  moreover from this blank_eqD [OF this(3)] have "row_status r' = target" "row_updated_at r' = retired_at" "row_manifest r' = m1"
    by (simp_all add: f_def)
  ultimately show ?thesis unfolding m1_def by blast
qed

lemma retire_rows_all:
  assumes "fold_result (retire_row H J target etype reason record_error retired_at clock') d rows = Inr d'"
    and "store_wf H J d" and "distinct (map row_run_id rows)"
    and "\<forall>row\<in>set rows. map_option blank (find_run d (row_run_id row)) = Some (blank row)"
  shows "store_wf H J d' \<and> (\<forall>row\<in>set rows. \<exists>r'. find_run d' (row_run_id row) = Some r' \<and> row_status r' = target
      \<and> row_updated_at r' = retired_at
      \<and> row_manifest r' = retired_manifest target (if record_error then Some reason else None) retired_at (row_manifest row))
    \<and> (\<forall>k. k \<notin> row_run_id ` set rows \<longrightarrow> map_option blank (find_run d' k) = map_option blank (find_run d k))"
  using assms
proof (induction rows arbitrary: d)
  case (Cons row rows)
  from Cons.prems(1) obtain d1 where d1: "retire_row H J target etype reason record_error retired_at clock' d row = Inr d1"
    "fold_result (retire_row H J target etype reason record_error retired_at clock') d1 rows = Inr d'"
    by (auto simp: bind_r_Inr_iff)
  from Cons.prems(4) obtain r0 where r0: "find_run d (row_run_id row) = Some r0" "blank r0 = blank row" by auto
  note st = retire_row_step [OF Cons.prems(2) r0 d1(1)]
  have keep: "map_option blank (find_run d1 (row_run_id x)) = Some (blank x)" if "x \<in> set rows" for x
  proof -
    from that Cons.prems(3) have "row_run_id x \<noteq> row_run_id row" by (metis distinct.simps(2) image_eqI list.simps(9) set_map)
    with st Cons.prems(4) that show ?thesis by simp
  qed
  have ih: "store_wf H J d' \<and> (\<forall>row\<in>set rows. \<exists>r'. find_run d' (row_run_id row) = Some r' \<and> row_status r' = target
      \<and> row_updated_at r' = retired_at
      \<and> row_manifest r' = retired_manifest target (if record_error then Some reason else None) retired_at (row_manifest row))
    \<and> (\<forall>k. k \<notin> row_run_id ` set rows \<longrightarrow> map_option blank (find_run d' k) = map_option blank (find_run d1 k))"
    by (rule Cons.IH [OF d1(2)]) (use st Cons.prems(3) keep in auto)
  have fresh: "row_run_id row \<notin> row_run_id ` set rows" using Cons.prems(3) by simp
  obtain r' where r': "find_run d1 (row_run_id row) = Some r'" "row_status r' = target" "row_updated_at r' = retired_at"
      "row_manifest r' = retired_manifest target (if record_error then Some reason else None) retired_at (row_manifest row)"
    using st by blast
  from ih fresh have "map_option blank (find_run d' (row_run_id row)) = map_option blank (find_run d1 (row_run_id row))" by blast
  with r'(1) obtain r'' where "find_run d' (row_run_id row) = Some r''" "blank r'' = blank r'" by auto
  with r' blank_eqD [of r'' r'] have head: "\<exists>r'. find_run d' (row_run_id row) = Some r' \<and> row_status r' = target
      \<and> row_updated_at r' = retired_at
      \<and> row_manifest r' = retired_manifest target (if record_error then Some reason else None) retired_at (row_manifest row)"
    by simp
  show ?case
    using ih head st by (simp add: Ball_def)
qed simp

lemma retirable_rows_facts:
  assumes "store_wf H J d"
  shows "set (retirable_rows d sts cutoff n) \<subseteq> {r \<in> set (runs d). row_status r \<in> sts \<and> row_updated_at r < cutoff}"
    and "distinct (map row_run_id (retirable_rows d sts cutoff n))"
    and "\<forall>row\<in>set (retirable_rows d sts cutoff n). map_option blank (find_run d (row_run_id row)) = Some (blank row)"
proof -
  show s: "set (retirable_rows d sts cutoff n) \<subseteq> {r \<in> set (runs d). row_status r \<in> sts \<and> row_updated_at r < cutoff}"
    by (auto simp: retirable_rows_def dest: in_set_takeD)
  have "distinct (map row_run_id (filter P (runs d)))" for P
    using assms by (simp add: store_wf_def runs_ok_def distinct_map_filter)
  then have sorted: "distinct (map row_run_id (sort_key f (sort_key g (filter P (runs d)))))"
    for f :: "run_row \<Rightarrow> int" and g :: "run_row \<Rightarrow> string" and P
    by (simp add: distinct_map)
  show "distinct (map row_run_id (retirable_rows d sts cutoff n))"
    unfolding retirable_rows_def take_map [symmetric] by (rule distinct_take [OF sorted])
  have ok: "runs_ok (runs d)" using assms by (simp add: store_wf_def)
  show "\<forall>row\<in>set (retirable_rows d sts cutoff n). map_option blank (find_run d (row_run_id row)) = Some (blank row)"
  proof
    fix row assume "row \<in> set (retirable_rows d sts cutoff n)"
    with s have "find_run d (row_run_id row) = Some row" by (auto simp: find_run_Some_iff [OF ok])
    then show "map_option blank (find_run d (row_run_id row)) = Some (blank row)" by simp
  qed
qed

lemma remove_workspaces_cleared: "fold_result (remove_workspace rm) d ids = Inr d' \<Longrightarrow> cleared d d'"
  by (induction ids arbitrary: d) (auto simp: bind_r_Inr_iff intro: cleared_trans remove_workspace_cleared)

lemma retire_runs_rows:
  assumes "retire_runs H J wr rm d sts target updated_before reason etype record_error limit clock clock' = (d', res)"
    and "store_wf H J d"
  shows "store_wf H J d' \<and> (d' = d \<and> \<not> returns res \<or> (\<exists>cutoff. updated_before = Aware cutoff
    \<and> (\<forall>rid r. find_run d rid = Some r \<longrightarrow> (\<exists>r'. find_run d' rid = Some r' \<and>
        (if r \<in> set (retirable_rows d sts cutoff (nat limit))
         then row_status r \<in> sts \<and> row_updated_at r < cutoff \<and> row_status r' = target \<and> row_updated_at r' = clock
           \<and> row_manifest r' = retired_manifest target (if record_error then Some (strip reason) else None) clock (row_manifest r)
         else blank r' = blank r)))))"
proof (cases "bind_r (aware_utc updated_before ''run cutoff'') (\<lambda>cutoff.
           bind_r (bounded_text reason (etype @ '' reason'') 2000) (\<lambda>rsn.
           if \<not> (1 \<le> limit \<and> limit \<le> 1000) then Inl (ValueError ''run limit must be between 1 and 1000'')
           else
             let rows = retirable_rows d sts cutoff (nat limit)
             in bind_r (fold_result (retire_row H J target etype rsn record_error clock clock') d rows)
                  (\<lambda>d1. Inr (d1, map (\<lambda>r. retired_manifest target (if record_error then Some rsn else None) clock
                     (row_manifest r)) rows))))")
  case (Inl e)
  with assms(1) have "d' = d \<and> res = Inl e" by (simp add: retire_runs_def)
  with assms(2) show ?thesis by simp
next
  case (Inr p)
  then obtain cutoff rows where cut: "updated_before = Aware cutoff" and rows: "rows = retirable_rows d sts cutoff (nat limit)"
    and fold: "fold_result (retire_row H J target etype (strip reason) record_error clock clock') d rows = Inr (fst p)"
    by (auto simp: bind_r_Inr_iff checks Let_def split: if_splits)
  note f = retirable_rows_facts [OF assms(2), of sts cutoff "nat limit", folded rows]
  note all = retire_rows_all [OF fold assms(2) f(2,3)]
  have "cleared (fst p) d'"
  proof (cases "synchronize_manifest_artifacts H J wr (fst p) (int max_run_corpus)")
    case (Pair d2 r2)
    have c: "cleared (fst p) d2" by (rule synchronize_all_cleared [OF Pair])
    with assms(1) show ?thesis
      unfolding retire_runs_def Inr sum.case Pair
      by (auto split: sum.splits intro: cleared_trans dest: remove_workspaces_cleared)
  qed
  then have wf: "store_wf H J d'" and find: "find_run d' = find_run (fst p)"
    using all cleared_wf cleared_find by blast+
  have "\<exists>r'. find_run d' rid = Some r' \<and>
        (if r \<in> set rows
         then row_status r \<in> sts \<and> row_updated_at r < cutoff \<and> row_status r' = target \<and> row_updated_at r' = clock
           \<and> row_manifest r' = retired_manifest target (if record_error then Some (strip reason) else None) clock (row_manifest r)
         else blank r' = blank r)" if r: "find_run d rid = Some r" for rid r
  proof (cases "r \<in> set rows")
    case True
    with all f(1) r show ?thesis unfolding find by (auto dest!: find_run_SomeD)
  next
    case False
    have "rid \<notin> row_run_id ` set rows"
    proof
      assume "rid \<in> row_run_id ` set rows"
      then obtain x where "x \<in> set rows" "row_run_id x = rid" by auto
      with f(1) assms(2) have "find_run d rid = Some x" by (auto simp: store_wf_def find_run_Some_iff)
      with r False \<open>x \<in> set rows\<close> show False by simp
    qed
    with all r have "map_option blank (find_run (fst p) rid) = Some (blank r)" by simp
    with False show ?thesis unfolding find by auto
  qed
  with wf cut rows show ?thesis by blast
qed

text \<open>
  Recovering stale runs moves exactly the selected in-flight runs older than the cutoff
  along an allowed transition to failed, with the reason recorded and the candidate kept, and
  changes nothing else of any run; the store invariant is kept even when a later publication or
  cleanup fails.
\<close>

theorem stale_runs_recovered:
  assumes "recover_stale_runs H J wr rm d (Aware cutoff) reason limit clock clock' = (d', res)" and "store_wf H J d"
  shows "store_wf H J d' \<and> (d' = d \<and> \<not> returns res \<or> (\<forall>rid r. find_run d rid = Some r \<longrightarrow> (\<exists>r'. find_run d' rid = Some r' \<and>
      (if r \<in> set (retirable_rows d recoverable_in_flight_statuses cutoff (nat limit))
       then row_updated_at r < cutoff \<and> status_step (row_status r) (row_status r') \<and> row_status r' = FAILED
         \<and> error_text (row_manifest r') = Some (strip reason) \<and> candidate (row_manifest r') = candidate (row_manifest r)
       else blank r' = blank r))))"
proof -
  have step: "status_step s FAILED" if "s \<in> recoverable_in_flight_statuses" for s
    using that by (auto simp: recoverable_in_flight_statuses_def status_step_iff)
  note rows = retire_runs_rows [OF assms(1) [unfolded recover_stale_runs_def] assms(2)]
  have "\<exists>r'. find_run d' rid = Some r' \<and>
      (if r \<in> set (retirable_rows d recoverable_in_flight_statuses cutoff (nat limit))
       then row_updated_at r < cutoff \<and> status_step (row_status r) (row_status r') \<and> row_status r' = FAILED
         \<and> error_text (row_manifest r') = Some (strip reason) \<and> candidate (row_manifest r') = candidate (row_manifest r)
       else blank r' = blank r)" if "\<not> (d' = d \<and> \<not> returns res)" and "find_run d rid = Some r" for rid r
  proof -
    from rows that obtain r' where r': "find_run d' rid = Some r'"
      "if r \<in> set (retirable_rows d recoverable_in_flight_statuses cutoff (nat limit))
         then row_status r \<in> recoverable_in_flight_statuses \<and> row_updated_at r < cutoff \<and> row_status r' = FAILED
           \<and> row_updated_at r' = clock
           \<and> row_manifest r' = retired_manifest FAILED (Some (strip reason)) clock (row_manifest r)
         else blank r' = blank r"
      unfolding if_True datetime.inject by blast
    show ?thesis
    proof (cases "r \<in> set (retirable_rows d recoverable_in_flight_statuses cutoff (nat limit))")
      case True
      with r' step [of "row_status r"] show ?thesis
        by (intro exI [of _ r']) (simp add: retired_manifest_def)
    qed (use r' in auto)
  qed
  with rows show ?thesis by blast
qed

section \<open>Creating a run\<close>

lemma insert_run_wf:
  assumes "insert_run H J d m clock' = Inr d'" and "store_wf H J d" and "run_id m \<noteq> []" and "candidate m = None"
  shows "store_wf H J d' \<and> (\<exists>r. find_run d' (run_id m) = Some r \<and> row_manifest r = m) \<and> find_run d (run_id m) = None
    \<and> manifest_artifact_sync d' (run_id m) = Some \<lparr>sync_updated_at = updated_at m, sync_manifest_sha256 = H (J m)\<rparr>"
proof -
  define r where "r = \<lparr>row_run_id = run_id m, row_status = status m, row_repository = None,
         row_issue_number = None, row_created_at = created_at m, row_updated_at = updated_at m,
         row_manifest = m, row_event_count = 0, row_event_head = zeros, row_issue_revision = None\<rparr>"
  have id: "row_run_id r = run_id m" by (simp add: r_def)
  from assms(1) obtain d1 d2 where w: "write_runs d (runs d @ [r]) = Inr d1"
    and a: "append_event H d1 (run_id m) ''run.created'' [(''status'', ''queued'')] None clock' = Inr d2"
    and k: "mark_manifest_artifact_sync H J d2 (run_id m) (updated_at m) m = Inr d'"
    by (auto simp: insert_run_def r_def bind_r_Inr_iff)
  from w have d1: "d1 = d\<lparr>runs := runs d @ [r]\<rparr>" and ok1: "runs_ok (runs d @ [r])"
    by (auto simp: write_runs_Inr)
  have fresh: "run_id m \<notin> row_run_id ` set (runs d)"
    using ok1 id by (auto simp: runs_ok_def)
  have led: "ledger_sound H d" using assms(2) by (simp add: store_wf_def)
  have none: "run_events d (run_id m) = []"
  proof -
    have "ev_run_id x \<noteq> run_id m" if "x \<in> set (events d)" for x
    proof -
      have "ev_run_id x \<in> row_run_id ` set (runs d)" using led that by (auto simp: ledger_sound_def)
      with fresh show ?thesis by metis
    qed
    then show ?thesis by (simp add: run_events_def filter_empty_conv)
  qed
  have ev: "run_events d1 = run_events d" by (simp add: d1 run_events_def fun_eq_iff)
  have anch: "anchored H d1 x \<longleftrightarrow> anchored H d x" for x
    by (rule anchored_cong) (simp_all add: d1)
  have "chained H d1 r" using none by (simp add: chained_def ev id) (simp add: r_def)
  moreover have "\<forall>x\<in>set (runs d). row_run_id x \<noteq> run_id m" using fresh by (metis imageI)
  ultimately have "\<forall>x\<in>set (runs d1). if row_run_id x = run_id m then chained H d1 x else anchored H d1 x"
    using led id by (auto simp: d1 anch [unfolded d1] ledger_sound_def)
  moreover have "distinct (map row_run_id (runs d1))" using ok1 by (simp add: d1 runs_ok_def)
  moreover have "[] \<notin> row_run_id ` set (runs d1)" "ev_run_id ` set (events d1) \<subseteq> row_run_id ` set (runs d1)"
    using led assms(3) id by (auto simp: d1 ledger_sound_def)
  ultimately have "appendable H d1 (run_id m)" by (simp add: appendable_def)
  then have led2: "ledger_sound H d2" by (rule append_event_sound [OF a])
  have "distinct (map row_run_id (runs d1))" using ok1 by (simp add: d1 runs_ok_def)
  note rows = append_event_rows [OF a this]
  note fr = same_outside_ledgerD [OF append_event_frame [OF a]]
  have agree: "\<forall>x\<in>set (runs d1). row_agrees H x"
    using assms(2,4) by (auto simp: d1 store_wf_def r_def row_agrees_def Let_def)
  have find1: "find_run d1 k = (if k = run_id m then Some r else find_run d k)" for k
  proof (cases "k = run_id m")
    case True
    have "r \<in> set (runs d1)" by (simp add: d1)
    with ok1 id True show ?thesis by (simp add: find_run_Some_iff d1)
  next
    case False
    have "List.find P (xs @ [x]) = List.find P xs" if "\<not> P x" for P xs and x :: run_row
      using that by (induction xs) auto
    with False id show ?thesis by (simp add: find_run_def d1)
  qed
  from k obtain r2 where r2: "find_run d2 (run_id m) = Some r2" "row_updated_at r2 = updated_at m" "J (row_manifest r2) = J m"
    and d': "d' = d2\<lparr>manifest_artifact_sync := (manifest_artifact_sync d2)
           (run_id m \<mapsto> \<lparr>sync_updated_at = updated_at m, sync_manifest_sha256 = H (J m)\<rparr>)\<rparr>"
    by (auto simp: mark_Inr)
  have find': "find_run d' = find_run d2" by (simp add: d' find_run_def fun_eq_iff)
  have same: "same_rows d1 d'" using rows(1) by (simp add: d' same_rows_def)
  have "marker_ok H J d' j" for j
  proof (cases "j = run_id m")
    case True
    with r2 show ?thesis by (simp add: marker_ok_def find') (simp add: d')
  next
    case False
    have "marker_ok H J d j" using assms(2) by (simp add: store_wf_def)
    then have "marker_ok H J d1 j" using False unfolding marker_ok_def find1 by (simp add: d1)
    moreover have "manifest_artifact_sync d' j = manifest_artifact_sync d1 j"
      using False fr by (simp add: d')
    ultimately show ?thesis using marker_ok_rows [OF same] by blast
  qed
  moreover have "ledger_sound H d' \<longleftrightarrow> ledger_sound H d2"
    by (rule ledger_sound_anchors) (simp_all add: d')
  ultimately have "store_wf H J d'"
    using led2 rows(2) same_rows_agree [OF same agree] by (simp add: store_wf_def d')
  moreover obtain r' where "find_run d' (run_id m) = Some r'" "blank r = blank r'"
    using same_rows_find_Some' [OF same, of "run_id m" r] by (auto simp: find1)
  moreover from this(2) have "row_manifest r' = m" using blank_eqD(7) [of r r'] by (simp add: r_def)
  moreover have "find_run d (run_id m) = None" using fresh by (simp add: find_run_None)
  ultimately show ?thesis by (auto simp: d')
qed

lemma create_run_wf:
  assumes "create_run H J wr d fresh clock clock' = (d', res)" and "store_wf H J d" and "fresh \<noteq> []"
  shows "store_wf H J d'"
proof (cases "insert_run H J d (new_manifest fresh QUEUED clock clock) clock'")
  case (Inl e)
  with assms show ?thesis by (simp add: create_run_def Let_def)
next
  case (Inr d1)
  have "store_wf H J d1"
    using insert_run_wf [OF Inr assms(2)] assms(3) by (simp add: new_manifest_def)
  moreover have "cleared d1 d'"
    using assms(1) Inr synchronize_cleared by (fastforce simp: create_run_def Let_def split: sum.splits)
  ultimately show ?thesis using cleared_wf by blast
qed

text \<open>
  A created run is new, can be read back as the fresh queued manifest, is published as its
  artifact, and leaves a store whose event ledger verifies.
\<close>

theorem created_run_is_stored:
  assumes "create_run H J wr d fresh clock clock' = (d', Inr m)" and "store_wf H J d" and "fresh \<noteq> []"
  shows "store_wf H J d' \<and> find_run d fresh = None \<and> get_run d' fresh = Inr m \<and> m = new_manifest fresh QUEUED clock clock
    \<and> verify_event_anchors H d' None = Inr () \<and> manifest_files d' fresh = Some m"
proof -
  obtain d1 x where d1: "insert_run H J d (new_manifest fresh QUEUED clock clock) clock' = Inr d1"
    and x: "synchronize_manifest_artifact H J wr d1 fresh clock (H (J (new_manifest fresh QUEUED clock clock))) = Inr x"
    and r: "d' = fst x" "m = new_manifest fresh QUEUED clock clock"
    using assms(1) unfolding create_run_def Let_def by (fastforce split: sum.splits)
  have simps: "run_id m = fresh" "updated_at m = clock" "candidate m = None" by (simp_all add: r new_manifest_def)
  note ins = insert_run_wf [OF d1 assms(2), folded r(2), unfolded simps, OF assms(3) refl]
  then obtain row where i: "store_wf H J d1" "find_run d1 fresh = Some row"
    "row_manifest row = m" "find_run d fresh = None"
    "manifest_artifact_sync d1 fresh = Some \<lparr>sync_updated_at = clock, sync_manifest_sha256 = H (J m)\<rparr>" by blast
  have cl: "cleared d1 d'"
    using x r(1) synchronize_cleared [of H J wr d1 fresh clock _ "fst x" "snd x"] by simp
  have wf: "store_wf H J d'" by (rule cleared_wf [OF cl i(1)])
  from x have "publish_artifact H J wr d1 fresh clock (H (J m)) = Inr (fst x, snd x)"
    unfolding r(2) by (simp add: synchronize_Inr)
  then have "manifest_files (fst x) fresh = Some m"
  proof (cases rule: publish_cases)
    case (published q)
    with i(2,3) show ?thesis by simp
  qed (use i(5) in simp)
  then have "manifest_files d' fresh = Some m" by (simp add: r(1))
  moreover have "get_run d' fresh = Inr m"
    using i(2,3) cleared_find [OF cl] by (simp add: get_run_def r(2))
  moreover have "verify_event_anchors H d' None = Inr ()"
    using wf by (simp add: store_wf_def sound_verify)
  ultimately show ?thesis using wf i(4) r(2) by simp
qed

section \<open>Examples\<close>

text \<open>
  A digest that tells the first event of the sample run from everything else, and the database with
  that run.
\<close>

definition sample_payload :: string where
  "sample_payload = event_payload ''r'' (isoformat 0) ''run.created'' (canonical_details [(''status'', ''queued'')]) zeros"

definition sample_sha :: digest where
  "sample_sha s = replicate 63 (CHR ''0'') @ (if s = sample_payload then ''1'' else ''2'')"

lemma sample_sha_is_sha256 [simp]: "is_sha256 (sample_sha s)"
  by (simp add: sample_sha_def is_sha256_def is_lower_hex_def is_digit_def list_all_iff)

abbreviation sample_created :: run_manifest where
  "sample_created \<equiv> new_manifest ''r'' QUEUED 0 0"

definition sample_event :: event_row where
  "sample_event = new_event sample_sha zeros ''r'' ''run.created'' [(''status'', ''queued'')] 0"

definition sample_row :: run_row where
  "sample_row = \<lparr>row_run_id = ''r'', row_status = QUEUED, row_repository = None,
     row_issue_number = None, row_created_at = 0, row_updated_at = 0, row_manifest = sample_created,
     row_event_count = 1, row_event_head = ev_hash sample_event, row_issue_revision = None\<rparr>"

definition sample_run_db :: db where
  "sample_run_db = (create_schema 0)\<lparr>runs := [sample_row], events := [sample_event],
     manifest_files := [''r'' \<mapsto> sample_created]\<rparr>"

lemma sample_insert:
  "insert_run sample_sha (\<lambda>_. []) (create_schema 0) sample_created 0 =
     Inr (sample_run_db\<lparr>manifest_files := Map.empty, manifest_artifact_sync :=
       [''r'' \<mapsto> \<lparr>sync_updated_at = 0, sync_manifest_sha256 = sample_sha []\<rparr>]\<rparr>)"
  by (simp add: insert_run_def write_runs_def create_schema_def runs_ok_def run_row_ok_def opt_all_def
      active_keys_def active_key.simps append_event_def find_run_def stored_event_count_def stored_event_hash_def
      run_events_def ledger_head_def insert_event_def events_ok_def update_run_def mark_manifest_artifact_sync_def
      sample_run_db_def sample_row_def sample_event_def new_event_def Let_def)

lemma sample_create:
  "create_run sample_sha (\<lambda>_. []) (\<lambda>_. None) (create_schema 0) ''r'' 0 0 = (sample_run_db, Inr sample_created)"
proof -
  have "publish_artifact sample_sha (\<lambda>_. []) (\<lambda>_. None) (sample_run_db\<lparr>manifest_files := Map.empty,
       manifest_artifact_sync := [''r'' \<mapsto> \<lparr>sync_updated_at = 0, sync_manifest_sha256 = sample_sha []\<rparr>]\<rparr>)
       ''r'' 0 (sample_sha []) = Inr (sample_run_db, True)"
    by (simp add: publish_artifact_def find_run_def sample_run_db_def sample_row_def create_schema_def)
  then show ?thesis
    by (simp add: create_run_def sample_insert synchronize_manifest_artifact_def)
qed

lemma sample_store_wf: "store_wf sample_sha (\<lambda>_. []) sample_run_db"
  by (rule create_run_wf [OF sample_create store_wf_create]) simp

lemma sample_hashes:
  "ev_hash sample_event = replicate 63 (CHR ''0'') @ ''1''"
  "etype \<noteq> ''run.created'' \<Longrightarrow> sample_sha (event_payload rid t etype dts p) = replicate 63 (CHR ''0'') @ ''2''"
proof -
  show "ev_hash sample_event = replicate 63 (CHR ''0'') @ ''1''"
    by (simp add: sample_event_def new_event_def sample_sha_def sample_payload_def)
  assume "etype \<noteq> ''run.created''"
  then have "event_payload rid t etype dts p \<noteq> sample_payload"
    unfolding sample_payload_def by (auto dest: event_payload_inj)
  then show "sample_sha (event_payload rid t etype dts p) = replicate 63 (CHR ''0'') @ ''2''"
    by (simp add: sample_sha_def)
qed

lemma sample_digits [simp]: "is_sha256 (replicate 63 (CHR ''0'') @ ''1'')" "is_sha256 (replicate 63 (CHR ''0'') @ ''2'')"
  by (simp_all add: is_sha256_def is_lower_hex_def is_digit_def list_all_iff)

lemma sample_event_simps [simp]: "ev_run_id sample_event = ''r''"
  by (simp add: sample_event_def)

lemmas run_eval = save_transaction_def find_run_def save_guard_def
  saved_row_def update_run_def write_runs_def runs_ok_def run_row_ok_def opt_all_def active_keys_def
  active_key.simps append_event_def stored_event_count_def stored_event_hash_def run_events_def ledger_head_def
  insert_event_def events_ok_def mark_manifest_artifact_sync_def sample_run_db_def sample_row_def sample_hashes
  create_schema_def

lemma sample_append:
  assumes "etype \<noteq> ''run.created''"
  shows "save_transaction sample_sha (\<lambda>_. []) sample_run_db (sample_created\<lparr>status := st, updated_at := t\<rparr>) 0
      [(etype, dts)] c = Inr (sample_run_db\<lparr>
        runs := [sample_row\<lparr>row_status := st, row_updated_at := t, row_manifest := sample_created\<lparr>status := st, updated_at := t\<rparr>,
          row_event_count := 2, row_event_head := replicate 63 (CHR ''0'') @ ''2''\<rparr>],
        events := [sample_event, new_event sample_sha (ev_hash sample_event) ''r'' etype dts c],
        manifest_artifact_sync := [''r'' \<mapsto> \<lparr>sync_updated_at = t, sync_manifest_sha256 = sample_sha []\<rparr>]\<rparr>)"
  using assms by (simp add: run_eval new_event_def Let_def)

lemma sample_valid [simp]:
  "validate_manifest (sample_created\<lparr>status := st, updated_at := t\<rparr>) = Inr (sample_created\<lparr>status := st, updated_at := t\<rparr>)"
  by (simp add: validate_manifest_def fields_valid_def remote_identity_complete_def new_manifest_def opt_all_def)

lemma sample_save:
  "\<exists>d1 m1. save_run sample_sha (\<lambda>_. []) (\<lambda>_. None) (\<lambda>_. True) sample_run_db sample_created ''run.noted'' [] [] 1 1
     = (d1, m1, Inr ())"
proof -
  have u: "sample_created\<lparr>updated_at := 1\<rparr> = sample_created\<lparr>status := QUEUED, updated_at := 1\<rparr>"
    by (simp add: new_manifest_def)
  show ?thesis
    by (simp add: save_run_def selection_details_def next_run_update_time_def u sample_append
        synchronize_manifest_artifact_def publish_artifact_def find_run_def sample_row_def Let_def terminal_statuses_def)
qed

lemma sample_transition:
  "\<exists>d1 m1. transition_run sample_sha (\<lambda>_. []) (\<lambda>_. None) (\<lambda>_. True) sample_run_db sample_created DISCOVERING ''start'' [] 1 1
     = (d1, m1, Inr ())"
  by (simp add: transition_run_def save_run_def selection_details_def next_run_update_time_def sample_append
        synchronize_manifest_artifact_def publish_artifact_def find_run_def sample_row_def Let_def terminal_statuses_def)

lemma created_run_is_stored_witness:
  "store_wf sample_sha (\<lambda>_. []) sample_run_db \<and> find_run (create_schema 0) ''r'' = None
    \<and> get_run sample_run_db ''r'' = Inr sample_created \<and> sample_created = new_manifest ''r'' QUEUED 0 0
    \<and> verify_event_anchors sample_sha sample_run_db None = Inr () \<and> manifest_files sample_run_db ''r'' = Some sample_created"
  by (rule created_run_is_stored [OF sample_create store_wf_create]) simp

lemma lost_update_refused_witness:
  "\<exists>d1 :: db. \<exists>e. save_run sample_sha (\<lambda>_. []) (\<lambda>_. None) (\<lambda>_. True) d1
     (sample_created\<lparr>error_text := Some ''late''\<rparr>) ''run.noted'' [] [] 2 2
     = (d1, sample_created\<lparr>error_text := Some ''late''\<rparr>, Inl e)"
proof -
  obtain d1 m1 where s: "save_run sample_sha (\<lambda>_. []) (\<lambda>_. None) (\<lambda>_. True) sample_run_db sample_created ''run.noted'' [] [] 1 1
     = (d1, m1, Inr ())"
    using sample_save by blast
  show ?thesis
    by (rule exI, rule lost_update_refused [OF sample_store_wf s]) simp_all
qed

lemma sample_get: "get_run sample_run_db ''r'' = Inr sample_created"
  by (simp add: get_run_def find_run_def sample_run_db_def sample_row_def)

lemma transition_follows_graph_witness:
  "\<exists>d' m'. store_wf sample_sha (\<lambda>_. []) d' \<and>
    (d' = sample_run_db \<and> m' = sample_created
     \<or> (\<exists>r r'. find_run sample_run_db ''r'' = Some r \<and> find_run d' ''r'' = Some r' \<and> row_status r' = DISCOVERING
          \<and> status_step (row_status r) (row_status r') \<and> row_manifest r' = m'
          \<and> row_updated_at r < row_updated_at r' \<and> row_issue_revision r' = row_issue_revision r))"
proof -
  obtain d' m' where t: "transition_run sample_sha (\<lambda>_. []) (\<lambda>_. None) (\<lambda>_. True) sample_run_db sample_created DISCOVERING ''start'' [] 1 1
     = (d', m', Inr ())"
    using sample_transition by blast
  have "returns (workspace_name ''r'')" by (simp add: workspace_name_def)
  from transition_follows_graph [OF sample_store_wf sample_get this t] show ?thesis by blast
qed

text \<open>The state between the commit and the publication of the sample run.\<close>

definition sample_pending :: db where
  "sample_pending = sample_run_db\<lparr>manifest_files := Map.empty, manifest_artifact_sync :=
       [''r'' \<mapsto> \<lparr>sync_updated_at = 0, sync_manifest_sha256 = sample_sha []\<rparr>]\<rparr>"

lemma sample_pending_wf: "store_wf sample_sha (\<lambda>_. []) sample_pending"
  using insert_run_wf [OF sample_insert [folded sample_pending_def] store_wf_create] by simp

lemma pending_artifacts_published_witness:
  "\<exists>d'. synchronize_manifest_artifacts sample_sha (\<lambda>_. []) (\<lambda>_. None) sample_pending (int max_run_corpus) = (d', Inr 1)
    \<and> manifest_artifact_sync d' = Map.empty \<and> manifest_files d' ''r'' = stored_file sample_pending ''r''
    \<and> stored_file sample_pending ''r'' \<noteq> None"
proof -
  obtain d' res where r: "synchronize_manifest_artifacts sample_sha (\<lambda>_. []) (\<lambda>_. None) sample_pending (int max_run_corpus) = (d', res)"
    by (metis surj_pair)
  have m: "manifest_artifact_sync sample_pending rid \<noteq> None \<longleftrightarrow> rid = ''r''" for rid
    by (simp add: sample_pending_def sample_run_db_def create_schema_def)
  have p: "length (pending_artifacts sample_pending) = 1" "publishable (\<lambda>_. None) sample_pending ''r''"
    by (simp_all add: sample_pending_def sample_run_db_def sample_row_def pending_artifacts_def create_schema_def publishable_def
        stored_file_def find_run_def)
  note t = pending_artifacts_published [OF sample_pending_wf sample_sha_is_sha256 r]
  have "returns res" using t p m by (simp add: max_run_corpus_def)
  with t p(1) have "res = Inr 1" "manifest_artifact_sync d' = Map.empty" by simp_all
  moreover have "manifest_files d' ''r'' = stored_file sample_pending ''r'' \<and> stored_file sample_pending ''r'' \<noteq> None"
    using t m [of "''r''"] calculation(2) by (auto split: if_splits dest!: spec [where x = "''r''"])
  ultimately show ?thesis using r by blast
qed

lemma sample_retired_valid [simp]:
  "validate_manifest (retired_manifest FAILED (Some e) t sample_created) = Inr (retired_manifest FAILED (Some e) t sample_created)"
  by (simp add: validate_manifest_def fields_valid_def remote_identity_complete_def new_manifest_def opt_all_def
      retired_manifest_def)

lemma retired_manifest_simps [simp]:
  "run_id (retired_manifest st e t m) = run_id m" "updated_at (retired_manifest st e t m) = t"
  "status (retired_manifest st e t m) = st"
  by (simp_all add: retired_manifest_def)

lemma sample_retire:
  "\<exists>d1. retire_row sample_sha (\<lambda>_. []) FAILED ''run.recovered'' ''crashed'' True 9 9 sample_run_db sample_row = Inr d1
    \<and> pending_artifacts d1 = [(''r'', \<lparr>sync_updated_at = 9, sync_manifest_sha256 = sample_sha []\<rparr>)]
    \<and> manifest_artifact_sync d1 ''r'' = Some \<lparr>sync_updated_at = 9, sync_manifest_sha256 = sample_sha []\<rparr>
    \<and> (\<forall>r\<in>set (runs d1). returns (validate_manifest (row_manifest r)))"
  by (simp add: retire_row_def run_eval Let_def pending_artifacts_def)

lemma sample_recovery:
  "\<exists>d' ms. recover_stale_runs sample_sha (\<lambda>_. []) (\<lambda>_. None) (\<lambda>_. True) sample_run_db (Aware 5) ''crashed'' 10 9 9
      = (d', Inr ms)"
proof -
  have rows: "retirable_rows sample_run_db recoverable_in_flight_statuses 5 10 = [sample_row]"
    by (simp add: retirable_rows_def sample_run_db_def sample_row_def recoverable_in_flight_statuses_def create_schema_def)
  have reason: "bounded_text ''crashed'' f 2000 = Inr ''crashed''" for f
    by (simp add: bounded_text_def strip_def rstrip_def is_space_def nul_char)
  obtain d1 where d1: "retire_row sample_sha (\<lambda>_. []) FAILED ''run.recovered'' ''crashed'' True 9 9 sample_run_db sample_row = Inr d1"
    and p: "pending_artifacts d1 = [(''r'', \<lparr>sync_updated_at = 9, sync_manifest_sha256 = sample_sha []\<rparr>)]"
    "manifest_artifact_sync d1 ''r'' = Some \<lparr>sync_updated_at = 9, sync_manifest_sha256 = sample_sha []\<rparr>"
    and v: "\<forall>r\<in>set (runs d1). returns (validate_manifest (row_manifest r))"
    using sample_retire by blast
  have "find_run sample_run_db (row_run_id sample_row) = Some sample_row"
    by (simp add: find_run_def sample_run_db_def sample_row_def)
  from retire_row_step [OF sample_store_wf this refl d1] obtain r' where wf: "store_wf sample_sha (\<lambda>_. []) d1"
    and "find_run d1 ''r'' = Some r'" by (auto simp: sample_row_def)
  then have "publishable (\<lambda>_. None) d1 ''r''"
    using v by (auto simp: publishable_def stored_file_def dest: find_run_SomeD)
  with publish_some [OF wf, of "pending_artifacts d1" "\<lambda>_. None" 0] p sample_sha_is_sha256
  obtain d2 where "publish_pending sample_sha (\<lambda>_. []) (\<lambda>_. None) d1 (pending_artifacts d1) 0 = (d2, Inr 1)" by auto
  then have sync: "synchronize_manifest_artifacts sample_sha (\<lambda>_. []) (\<lambda>_. None) d1 10000 = (d2, Inr 1)"
    by (simp add: synchronize_manifest_artifacts_def max_run_corpus_def p)
  have fold: "fold_result (retire_row sample_sha (\<lambda>_. []) FAILED ''run.recovered'' ''crashed'' True 9 9) sample_run_db [sample_row]
      = Inr d1"
    using d1 by simp
  have id: "run_id (row_manifest sample_row) = ''r''" by (simp add: sample_row_def)
  show ?thesis
    by (simp add: recover_stale_runs_def retire_runs_def rows reason fold sync Let_def max_run_corpus_def id
        remove_workspace_def workspace_name_def del: fold_result.simps) (simp add: remove_workspace_def workspace_name_def)
qed

lemma stale_runs_recovered_witness:
  "\<exists>d' r'. find_run d' ''r'' = Some r' \<and> row_status r' = FAILED \<and> error_text (row_manifest r') = Some (strip ''crashed'')"
proof -
  obtain d' ms where r: "recover_stale_runs sample_sha (\<lambda>_. []) (\<lambda>_. None) (\<lambda>_. True) sample_run_db (Aware 5) ''crashed'' 10 9 9
      = (d', Inr ms)"
    using sample_recovery by blast
  have "sample_row \<in> set (retirable_rows sample_run_db recoverable_in_flight_statuses 5 (nat 10))"
    "find_run sample_run_db ''r'' = Some sample_row"
    by (simp_all add: retirable_rows_def find_run_def sample_run_db_def sample_row_def recoverable_in_flight_statuses_def create_schema_def)
  with stale_runs_recovered [OF r sample_store_wf] show ?thesis by fastforce
qed

end
