(* ===== verification/Loads.thy ===== *)
theory Loads
  imports PyText
begin

text \<open>
  \<open>json.loads\<close> on the documents the store reads back: the details of a ledger event, an object
  whose members are all strings.  Every other document, malformed or of another shape, is \<open>None\<close>.
  Characters are one byte, so a \<open>\u\<close> escape above \<open>\u00ff\<close> is outside the model and \<open>None\<close> too.
\<close>

definition is_json_space :: "char \<Rightarrow> bool" where
  "is_json_space c \<longleftrightarrow> c \<in> {CHR 0x20, CHR 0x09, CHR 0x0A, CHR 0x0D}"

definition skip_space :: "string \<Rightarrow> string" where
  "skip_space s = dropWhile is_json_space s"

definition hex_digit :: "char \<Rightarrow> nat option" where
  "hex_digit c = (let n = code c in
     if 48 \<le> n \<and> n \<le> 57 then Some (n - 48)
     else if 97 \<le> n \<and> n \<le> 102 then Some (n - 87)
     else if 65 \<le> n \<and> n \<le> 70 then Some (n - 55)
     else None)"

definition short_escapes :: "(char \<times> char) list" where
  "short_escapes = [(CHR 0x22, CHR 0x22), (CHR 0x5C, CHR 0x5C), (CHR ''/'', CHR ''/''),
     (CHR ''b'', CHR 0x08), (CHR ''f'', CHR 0x0C), (CHR ''n'', CHR 0x0A), (CHR ''r'', CHR 0x0D),
     (CHR ''t'', CHR 0x09)]"

fun read_unicode :: "string \<Rightarrow> (char \<times> string) option" where
  "read_unicode (a # b # c # d # s) = (case map hex_digit [a, b, c, d] of
     [Some 0, Some 0, Some h, Some l] \<Rightarrow> Some (char_of (16 * h + l), s)
   | _ \<Rightarrow> None)"
| "read_unicode _ = None"

text \<open>One character of a string: no control characters, no unknown escapes.\<close>

fun read_char :: "string \<Rightarrow> (char \<times> string) option" where
  "read_char [] = None"
| "read_char (c # s) =
     (if c = CHR 0x22 \<or> code c < 32 then None
      else if c \<noteq> CHR 0x5C then Some (c, s)
      else case s of
        [] \<Rightarrow> None
      | e # r \<Rightarrow> if e = CHR ''u'' then read_unicode r else map_option (\<lambda>x. (x, r)) (map_of short_escapes e))"

lemma read_unicode_shorter: "read_unicode s = Some (c, r) \<Longrightarrow> length r < length s"
  by (induction s rule: read_unicode.induct) (auto split: list.splits option.splits nat.splits)

lemma read_char_shorter:
  assumes "read_char s = Some (c, r)"
  shows "length r < length s"
proof -
  from assms obtain x t where s: "s = x # t" by (cases s) auto
  show ?thesis
  proof (cases "x \<noteq> CHR 0x5C")
    case True
    with assms s show ?thesis by (simp split: if_splits)
  next
    case False
    with assms s obtain e u where "t = e # u" by (cases t) (simp_all split: if_splits)
    with assms s False show ?thesis
      by (auto split: if_splits dest!: read_unicode_shorter)
  qed
qed

declare read_char.simps(2) [simp del]

text \<open>The rest of a string after its opening quote.\<close>

function read_body :: "string \<Rightarrow> (string \<times> string) option" where
  "read_body s = (case s of
     [] \<Rightarrow> None
   | c # r \<Rightarrow>
     if c = CHR 0x22 then Some ([], r)
     else (case read_char s of
       None \<Rightarrow> None
     | Some (x, r') \<Rightarrow> map_option (\<lambda>(xs, t). (x # xs, t)) (read_body r')))"
  by pat_completeness auto
termination
  by (relation "measure length") (auto dest: read_char_shorter)

declare read_body.simps [simp del]

fun read_string :: "string \<Rightarrow> (string \<times> string) option" where
  "read_string [] = None"
| "read_string (c # s) = (if c = CHR 0x22 then read_body s else None)"

lemma read_body_shorter: "read_body s = Some (x, r) \<Longrightarrow> length r < length s"
proof (induction s arbitrary: x r rule: read_body.induct)
  case (1 s)
  show ?case
  proof (cases s)
    case Nil
    with 1(2) show ?thesis by (simp add: read_body.simps)
  next
    case (Cons c t)
    show ?thesis
    proof (cases "c = CHR 0x22")
      case True
      with 1(2) Cons show ?thesis by (simp add: read_body.simps [of "_ # _"])
    next
      case False
      with 1(2) Cons obtain y r' xs where y: "read_char s = Some (y, r')" "read_body r' = Some (xs, r)"
        by (auto simp: read_body.simps [of "c # t"] split: option.splits prod.splits)
      have "length r < length r'" by (rule 1(1) [OF Cons False y(1) refl y(2)])
      with read_char_shorter [OF y(1)] show ?thesis by simp
    qed
  qed
qed

lemma read_string_shorter: "read_string s = Some (x, r) \<Longrightarrow> length r < length s"
  by (cases s) (auto split: if_splits dest: read_body_shorter)

lemma skip_space_shorter: "length (skip_space s) \<le> length s"
  by (simp add: skip_space_def length_dropWhile_le)

text \<open>The members of an object, up to its closing brace.\<close>

definition read_member :: "string \<Rightarrow> ((string \<times> string) \<times> string) option" where
  "read_member s = (case read_string s of
     None \<Rightarrow> None
   | Some (k, r) \<Rightarrow> (case skip_space r of
       [] \<Rightarrow> None
     | c # r1 \<Rightarrow> if c \<noteq> CHR '':'' then None
         else map_option (\<lambda>(v, r2). ((k, v), skip_space r2)) (read_string (skip_space r1))))"

lemma read_member_shorter:
  assumes "read_member s = Some (kv, r)"
  shows "length r < length s"
proof -
  from assms obtain k r0 r1 v r2 where k: "read_string s = Some (k, r0)" "skip_space r0 = CHR '':'' # r1"
    "read_string (skip_space r1) = Some (v, r2)" "r = skip_space r2"
    by (auto simp: read_member_def split: option.splits list.splits if_splits)
  have "length (CHR '':'' # r1) \<le> length r0" using skip_space_shorter [of r0] k(2) by simp
  then show ?thesis
    using read_string_shorter [OF k(1)] read_string_shorter [OF k(3)] skip_space_shorter [of r1]
      skip_space_shorter [of r2] k(4) by simp
qed

function read_members :: "string \<Rightarrow> ((string \<times> string) list \<times> string) option" where
  "read_members s = (case read_member s of
     None \<Rightarrow> None
   | Some (kv, []) \<Rightarrow> None
   | Some (kv, c # r) \<Rightarrow>
     if c = CHR ''}'' then Some ([kv], r)
     else if c = CHR '','' then map_option (\<lambda>(kvs, t). (kv # kvs, t)) (read_members (skip_space r))
     else None)"
  by pat_completeness auto
termination
proof (relation "measure length", goal_cases)
  case (2 s x kv t c r)
  then have "read_member s = Some (kv, c # r)" by simp
  then have "length (c # r) < length s" by (rule read_member_shorter)
  with skip_space_shorter [of r] show ?case by simp
qed simp

declare read_members.simps [simp del]

definition read_object :: "string \<Rightarrow> ((string \<times> string) list \<times> string) option" where
  "read_object s = (case s of
     [] \<Rightarrow> None
   | c # r \<Rightarrow> if c \<noteq> CHR ''{'' then None
       else (case skip_space r of
         [] \<Rightarrow> None
       | c' # r' \<Rightarrow> if c' = CHR ''}'' then Some ([], r') else read_members (c' # r')))"

text \<open>A repeated key keeps its last value.\<close>

definition loads_details :: "string \<Rightarrow> (string \<times> string) list option" where
  "loads_details s = (case read_object (skip_space s) of
     None \<Rightarrow> None
   | Some (kvs, r) \<Rightarrow> if skip_space r = [] then Some (foldl (\<lambda>d (k, v). dict_set k v d) [] kvs) else None)"

section \<open>What \<open>json.dumps\<close> writes is read back\<close>

lemma hex_digit_hex_char: "n < 16 \<Longrightarrow> hex_digit (hex_char n) = Some n"
  by (auto simp: less_Suc_eq numeral_eq_Suc hex_digit_def hex_char_def Let_def)

lemma short_codes: "code c = 8 \<Longrightarrow> CHR 0x08 = c" "code c = 9 \<Longrightarrow> CHR 0x09 = c"
  "code c = 10 \<Longrightarrow> CHR 0x0A = c" "code c = 12 \<Longrightarrow> CHR 0x0C = c" "code c = 13 \<Longrightarrow> CHR 0x0D = c"
proof -
  have "code c = code (CHR 0x08) \<Longrightarrow> CHR 0x08 = c" "code c = code (CHR 0x09) \<Longrightarrow> CHR 0x09 = c"
    "code c = code (CHR 0x0A) \<Longrightarrow> CHR 0x0A = c" "code c = code (CHR 0x0C) \<Longrightarrow> CHR 0x0C = c"
    "code c = code (CHR 0x0D) \<Longrightarrow> CHR 0x0D = c"
    by (simp_all only: of_char_eq_iff)
  then show "code c = 8 \<Longrightarrow> CHR 0x08 = c" "code c = 9 \<Longrightarrow> CHR 0x09 = c"
    "code c = 10 \<Longrightarrow> CHR 0x0A = c" "code c = 12 \<Longrightarrow> CHR 0x0C = c" "code c = 13 \<Longrightarrow> CHR 0x0D = c"
    by simp_all
qed

lemma read_char_json_char [simp]: "read_char (json_char c @ r) = Some (c, r)"
proof -
  have d: "code c div 16 < 16" "code c mod 16 < 16"
    using code_less [of c] by (simp_all add: less_mult_imp_div_less)
  have z: "hex_digit (CHR ''0'') = Some 0" by (simp add: hex_digit_def)
  have inv: "char_of (16 * (code c div 16) + code c mod 16) = c" by simp
  consider (quote) "c = CHR 0x22" | (slash) "c = CHR 0x5C" | (other) "code c \<noteq> 34" "code c \<noteq> 92"
    using quote_slash_codes [of c] by blast
  then show ?thesis
  proof cases
    case other
    then have ne: "c \<noteq> CHR 0x22 \<and> c \<noteq> CHR 0x5C" by auto
    show ?thesis
    proof (cases "32 \<le> code c \<and> code c \<le> 126")
      case True
      with other ne show ?thesis by (simp add: json_char_def Let_def read_char.simps(2))
    next
      case False
      with other ne inv show ?thesis
        by (auto simp: json_char_def Let_def read_char.simps(2) short_escapes_def z hex_digit_hex_char d short_codes)
    qed
  qed (simp_all add: json_char_def read_char.simps(2) short_escapes_def)
qed

lemma read_body_json: "read_body (concat (map json_char s) @ CHR 0x22 # r) = Some (s, r)"
proof (induction s)
  case Nil
  show ?case by (simp add: read_body.simps)
next
  case (Cons c s)
  obtain x t where x: "json_char c @ concat (map json_char s) @ CHR 0x22 # r = x # t"
    by (cases "json_char c @ concat (map json_char s) @ CHR 0x22 # r") auto
  then have "x \<noteq> CHR 0x22" using json_char_first by metis
  moreover have "read_char (x # t) = Some (c, concat (map json_char s) @ CHR 0x22 # r)"
    unfolding x [symmetric] by simp
  ultimately show ?case
    using Cons x by (simp add: read_body.simps [of "x # t"])
qed

lemma read_string_json [simp]: "read_string (json_string s @ r) = Some (s, r)"
  by (simp add: json_string_def read_body_json)

lemma skip_space_json [simp]:
  "skip_space (json_string s @ r) = json_string s @ r" "skip_space (CHR '','' # r) = CHR '','' # r"
  "skip_space (CHR ''}'' # r) = CHR ''}'' # r" "skip_space (CHR ''{'' # r) = CHR ''{'' # r"
  "skip_space (CHR '':'' # r) = CHR '':'' # r" "skip_space [] = []"
  by (simp_all add: skip_space_def json_string_def is_json_space_def)

lemma read_member_json: "read_member (json_entry kv @ r) = Some (kv, skip_space r)"
  by (simp add: read_member_def json_entry_def)

lemma read_members_json: "read_members (join '','' (map json_entry (kv # kvs)) @ ''}'' @ r) = Some (kv # kvs, r)"
proof (induction kvs arbitrary: kv)
  case Nil
  show ?case by (simp add: read_members.simps read_member_json)
next
  case (Cons x kvs)
  have "skip_space (join '','' (map json_entry (x # kvs)) @ ''}'' @ r) = join '','' (map json_entry (x # kvs)) @ ''}'' @ r"
    unfolding join_entries_Cons by (simp add: json_entry_def)
  with Cons [of x] show ?case
    unfolding join_entries_Cons [of kv] by (simp add: json_rest_def read_members.simps [of "json_entry kv @ _"] read_member_json)
qed

lemma read_object_json: "read_object (dumps (text_object kvs) @ r) = Some (sort_key fst kvs, r)"
proof (cases "sort_key fst kvs")
  case Nil
  then show ?thesis by (simp add: dumps_text_object read_object_def)
next
  case (Cons x xs)
  have "skip_space (join '','' (map json_entry (x # xs)) @ ''}'' @ r) = join '','' (map json_entry (x # xs)) @ ''}'' @ r"
    unfolding join_entries_Cons by (simp add: json_entry_def)
  moreover obtain t where "join '','' (map json_entry (x # xs)) @ ''}'' @ r = CHR 0x22 # t"
    unfolding join_entries_Cons by (simp add: json_entry_def json_string_def)
  ultimately show ?thesis
    using read_members_json [of x xs r] Cons by (simp add: dumps_text_object read_object_def)
qed

lemma dict_set_append: "k \<notin> fst ` set kvs \<Longrightarrow> dict_set k v kvs = kvs @ [(k, v)]"
  by (induction k v kvs rule: dict_set.induct) auto

lemma dict_of_distinct:
  "distinct (map fst (xs @ kvs)) \<Longrightarrow> foldl (\<lambda>d (k, v). dict_set k v d) xs kvs = xs @ kvs"
proof (induction kvs arbitrary: xs)
  case (Cons kv kvs)
  then have "fst kv \<notin> fst ` set xs" by auto
  with Cons.IH [of "xs @ [kv]"] Cons.prems show ?case
    by (cases kv) (simp add: dict_set_append)
qed simp

text \<open>
  The details of an event, written as canonical JSON, are read back as the same texts under
  the same keys, whatever characters they hold.
\<close>

text \<open>
  The details of an event, written as canonical JSON, are read back as the same texts under
  the same keys, whatever characters they hold.
\<close>

text \<open>
  The details of an event, written as canonical JSON, are read back as the same texts under
  the same keys, whatever characters they hold.
\<close>

text \<open>
  The details of an event, written as canonical JSON, are read back as the same texts under
  the same keys, whatever characters they hold.
\<close>

text \<open>
  The details of an event, written as canonical JSON, are read back as the same texts under
  the same keys, whatever characters they hold.
\<close>

text \<open>
  The details of an event, written as canonical JSON, are read back as the same texts under
  the same keys, whatever characters they hold.
\<close>

text \<open>
  The details of an event, written as canonical JSON, are read back as the same texts under
  the same keys, whatever characters they hold.
\<close>

text \<open>
  The details of an event, written as canonical JSON, are read back as the same texts under
  the same keys, whatever characters they hold.
\<close>

lemma loads_dumps':
  assumes "distinct (map fst kvs)"
  shows "loads_details (dumps (text_object kvs)) = Some (sort_key fst kvs)"
proof -
  have "distinct (map fst (sort_key fst kvs))"
    using assms by (simp add: distinct_map inj_on_def)
  then have "foldl (\<lambda>d (k, v). dict_set k v d) [] (sort_key fst kvs) = sort_key fst kvs"
    using dict_of_distinct [of "[]"] by simp
  moreover have "skip_space (dumps (text_object kvs)) = dumps (text_object kvs)"
    by (simp add: dumps_text_object)
  ultimately show ?thesis
    using read_object_json [of kvs "[]"] by (simp add: loads_details_def)
qed

text \<open>
  The details of an event, written as canonical JSON, are read back as the same texts under
  the same keys, whatever characters they hold.
\<close>

theorem loads_dumps:
  assumes "distinct (map fst kvs)"
  shows "loads_details (dumps (text_object kvs)) = Some (sort_key fst kvs)"
  by (rule loads_dumps' [OF assms])

lemma loads_dumps_witness:
  "loads_details (dumps (text_object [(''to'', [CHR 0x22, newline]), (''from'', ''queued'')]))
     = Some [(''from'', ''queued''), (''to'', [CHR 0x22, newline])]"
  by (subst loads_dumps) (simp_all add: less_eq_char_def less_char_def)

end
