(* ===== verification/Claims.thy ===== *)
theory Claims
  imports Leases Runs Loads
begin

text \<open>
  Candidate attempts of \<open>store.py\<close>: \<open>_repository_identity\<close>, \<open>_candidate_identity\<close>,
  \<open>_verified_issue_revision_row\<close>, \<open>candidate_attempt_disposition\<close>, \<open>claim_candidate\<close> and the checks
  \<open>_verify_issue_revision_evidence\<close> makes when the database is opened.  A claim binds a discovering
  run to an issue revision, under the fence of the run lease and in one transaction.
\<close>

section \<open>Identities\<close>

text \<open>\<open>raise StateError(msg) from exc\<close>.\<close>

definition raise_from :: "string \<Rightarrow> 'a result \<Rightarrow> 'a result" where
  "raise_from msg r = (case r of Inl _ \<Rightarrow> Inl (StateError msg) | Inr x \<Rightarrow> Inr x)"

lemma raise_from_Inr [checks]: "raise_from msg r = Inr x \<longleftrightarrow> r = Inr x"
  by (simp add: raise_from_def split: sum.splits)

definition repository_identity :: "string \<Rightarrow> string result" where
  "repository_identity v =
     bind_r (lease_identity v ''publication repository'') (\<lambda>stripped.
     let normalized = casefold stripped in
     if count_char (CHR ''/'') normalized \<noteq> 1 then
       Inl (ValueError ''publication repository must use owner/name syntax'')
     else if [] \<in> set (split_on (CHR ''/'') normalized) then
       Inl (ValueError ''publication repository must use owner/name syntax'')
     else Inr normalized)"

definition candidate_identity :: "string \<Rightarrow> int \<Rightarrow> (string \<times> int) result" where
  "candidate_identity repo n =
     bind_r (repository_identity repo) (\<lambda>normalized.
     if repo \<noteq> strip repo \<or> list_ex (\<lambda>c. is_space c \<or> \<not> is_printable c) repo then
       Inl (ValueError ''candidate repository must be a canonical owner/name value'')
     else if \<not> is_owner_name repo then
       Inl (ValueError ''candidate repository must use the GitHub ASCII owner/name syntax'')
     else if list_ex (\<lambda>part. part \<in> {''.'', ''..''}) (split_on (CHR ''/'') repo) then
       Inl (ValueError ''candidate repository components cannot be dot paths'')
     else if n < 1 then Inl (ValueError ''candidate issue number must be a positive integer'')
     else Inr (normalized, n))"

record candidate_retry_authorization =
  auth_actor :: string
  auth_reason :: string

definition check_retry_authorization :: "candidate_retry_authorization \<Rightarrow> (string \<times> string) result" where
  "check_retry_authorization a =
     bind_r (bounded_text (auth_actor a) ''candidate retry actor'' 255) (\<lambda>actor.
     bind_r (bounded_text (auth_reason a) ''candidate retry reason'' 2000) (\<lambda>reason.
     if actor \<noteq> auth_actor a \<or> carriage_return \<in> set actor \<or> newline \<in> set actor then
       Inl (ValueError ''candidate retry actor must be a canonical single-line value'')
     else if reason \<noteq> auth_reason a \<or> carriage_return \<in> set reason \<or> newline \<in> set reason then
       Inl (ValueError ''candidate retry reason must be canonical single-line text'')
     else Inr (actor, reason)))"

section \<open>Attempts\<close>

datatype candidate_attempt_state = AVAILABLE | ACTIVE | SUPPRESSED

record candidate_attempt_disposition =
  disp_state :: candidate_attempt_state
  disp_issue_revision :: string
  disp_prior_run_id :: "string option"
  disp_prior_status :: "run_status option"

text \<open>\<open>_verified_issue_revision_row\<close>: what a row says of its attempt, once it agrees with its manifest.\<close>

definition verified_issue_revision_row :: "digest \<Rightarrow> run_row \<Rightarrow> (string \<times> run_status \<times> string option) result" where
  "verified_issue_revision_row H r =
     bind_r (raise_from ''Issue-revision evidence contains an invalid run ID''
       (lease_identity (row_run_id r) ''stored run id'')) (\<lambda>rid.
     bind_r (raise_from (''Run '' @ rid @ '' contains an invalid manifest'')
       (validate_manifest (row_manifest r))) (\<lambda>m.
     if run_id m \<noteq> rid \<or> status m \<noteq> row_status r then
       Inl (StateError (''Run '' @ rid @ '' manifest disagrees with its state row''))
     else case candidate m of
       None \<Rightarrow>
         if row_issue_number r \<noteq> None \<or> row_issue_revision r \<noteq> None then
           Inl (StateError (''Run '' @ rid @ '' has issue identity without a candidate''))
         else Inr (rid, row_status r, None)
     | Some c \<Rightarrow>
         bind_r (raise_from (''Run '' @ rid @ '' has an invalid candidate identity'')
           (candidate_identity (issue_repository c) (issue_number c))) (\<lambda>_.
         if row_repository r \<noteq> Some (issue_repository c) \<or> row_issue_number r \<noteq> Some (issue_number c) then
           Inl (StateError (''Run '' @ rid @ '' candidate disagrees with its state row''))
         else
           bind_r (raise_from (''Run '' @ rid @ '' has invalid issue revision evidence'')
             (case row_issue_revision r of
                None \<Rightarrow> Inl (StateError (''Stored run '' @ rid @ '' issue revision is invalid''))
              | Some v \<Rightarrow> stored_event_hash v (''run '' @ rid @ '' issue revision''))) (\<lambda>revision.
           if revision \<noteq> compute_issue_revision H c then
             Inl (StateError (''Run '' @ rid @ '' issue revision disagrees with its manifest''))
           else Inr (rid, row_status r, Some revision)))))"

text \<open>The query for the attempts on an issue: one row more than the bound, to notice an excess.\<close>

definition same_issue :: "string \<Rightarrow> int \<Rightarrow> run_row \<Rightarrow> bool" where
  "same_issue key n r \<longleftrightarrow> map_option nocase (row_repository r) = Some (nocase key) \<and> row_issue_number r = Some n"

definition attempt_rows :: "run_row list \<Rightarrow> string \<Rightarrow> int \<Rightarrow> run_row list" where
  "attempt_rows rs key n = take (max_run_corpus + 1) (sort_key row_run_id (filter (same_issue key n) rs))"

definition verified_attempts :: "digest \<Rightarrow> run_row list \<Rightarrow> string \<Rightarrow> int
    \<Rightarrow> (string \<times> run_status \<times> string option) list result" where
  "verified_attempts H rs key n =
     (if max_run_corpus < length (attempt_rows rs key n) then
        Inl (StateError ''Candidate attempt history exceeds the supported integrity bound'')
      else map_result (verified_issue_revision_row H) (attempt_rows rs key n))"

definition active_attempt :: "(string \<times> run_status \<times> string option) list \<Rightarrow> (string \<times> run_status) option" where
  "active_attempt xs = map_option (\<lambda>(rid, st, _). (rid, st))
     (List.find (\<lambda>(_, st, _). st \<notin> candidate_released_statuses) xs)"

definition suppressed_attempt :: "string \<Rightarrow> (string \<times> run_status \<times> string option) list \<Rightarrow> (string \<times> run_status) option" where
  "suppressed_attempt revision xs = map_option (\<lambda>(rid, st, _). (rid, st))
     (List.find (\<lambda>(_, st, rev). st \<in> candidate_suppressed_statuses \<and> rev = Some revision) xs)"

definition disposition_of :: "candidate_attempt_state \<Rightarrow> string \<Rightarrow> (string \<times> run_status) option
    \<Rightarrow> candidate_attempt_disposition" where
  "disposition_of s revision prior = \<lparr>disp_state = s, disp_issue_revision = revision,
     disp_prior_run_id = map_option fst prior, disp_prior_status = map_option snd prior\<rparr>"

definition candidate_attempt_disposition :: "digest \<Rightarrow> db \<Rightarrow> issue_candidate \<Rightarrow> candidate_attempt_disposition result" where
  "candidate_attempt_disposition H d issue =
     bind_r (candidate_identity (issue_repository issue) (issue_number issue)) (\<lambda>(key, n).
     bind_r (verified_attempts H (runs d) key n) (\<lambda>attempts.
     let revision = compute_issue_revision H issue in
     Inr (case active_attempt attempts of
       Some a \<Rightarrow> disposition_of ACTIVE revision (Some a)
     | None \<Rightarrow> (case suppressed_attempt revision attempts of
         Some s \<Rightarrow> disposition_of SUPPRESSED revision (Some s)
       | None \<Rightarrow> disposition_of AVAILABLE revision None))))"

section \<open>Claiming a candidate\<close>

text \<open>The constraints of \<open>candidate_retry_authorizations\<close>.\<close>

definition is_authorization_id :: "string \<Rightarrow> bool" where
  "is_authorization_id s \<longleftrightarrow> length s = 32 \<and> list_all is_lower_hex s"

definition retry_row_ok :: "db \<Rightarrow> retry_row \<Rightarrow> bool" where
  "retry_row_ok d a \<longleftrightarrow> is_authorization_id (retry_authorization_id a) \<and> 1 \<le> retry_issue_number a
     \<and> is_sha256 (retry_issue_revision a) \<and> retry_prior_status a \<in> {CANCELLED, REJECTED, SKIPPED}
     \<and> retry_run_id a \<noteq> retry_prior_run_id a
     \<and> {retry_run_id a, retry_prior_run_id a} \<subseteq> row_run_id ` set (runs d)"

definition insert_retry :: "db \<Rightarrow> retry_row \<Rightarrow> db result" where
  "insert_retry d a = (let rs = candidate_retry_authorizations d in
     if retry_row_ok d a \<and> retry_authorization_id a \<notin> retry_authorization_id ` set rs
        \<and> retry_run_id a \<notin> retry_run_id ` set rs
     then Inr (d\<lparr>candidate_retry_authorizations := rs @ [a]\<rparr>)
     else Inl (IntegrityError ''candidate_retry_authorizations''))"

text \<open>The checks of \<open>claim_candidate\<close> before its transaction: the issue, its key and number.\<close>

definition claim_arguments :: "run_manifest \<Rightarrow> lease \<Rightarrow> (issue_candidate \<times> string \<times> int) result" where
  "claim_arguments m l =
     (if status m \<noteq> DISCOVERING then Inl (StateError ''Candidate claims require a discovering run'')
      else case candidate m of
        None \<Rightarrow> Inl (StateError ''Candidate claims require complete issue evidence'')
      | Some c \<Rightarrow>
        bind_r (raise_from ''Candidate claims require a canonical issue identity''
          (bind_r (candidate_identity (issue_repository c) (issue_number c)) (\<lambda>(key, n).
           case repository m of
             None \<Rightarrow> Inr (key, n)
           | Some info \<Rightarrow>
             bind_r (candidate_identity (repo_full_name info) n) (\<lambda>(key', _).
             if key' \<noteq> key then Inl (ValueError ''candidate repository metadata identifies a different repository'')
             else Inr (key, n))))) (\<lambda>(key, n).
        if \<not> (0 \<le> issue_score c \<and> issue_score c \<le> 100) then
          Inl (StateError ''Candidate claims require a score between 0 and 100'')
        else if lease_name l \<noteq> candidate_claim_lease_name then
          Inl (StateError ''Candidate claims require the fenced autocontribute run lease'')
        else Inr (c, key, n)))"

text \<open>
  The attempt a claim goes with: none for a first attempt or a changed issue, or the suppressed
  one the operator's authorization retries.
\<close>

definition claim_prior :: "(string \<times> run_status \<times> string option) list \<Rightarrow> string
    \<Rightarrow> candidate_retry_authorization option
    \<Rightarrow> ((string \<times> run_status) \<times> candidate_retry_authorization) option result" where
  "claim_prior attempts revision auth = (case active_attempt attempts of
     Some a \<Rightarrow> Inl (StateError (''Candidate already has active run '' @ fst a @ '' in status '' @ status_value (snd a)))
   | None \<Rightarrow> (case (suppressed_attempt revision attempts, auth) of
       (None, None) \<Rightarrow> Inr None
     | (None, Some _) \<Rightarrow> Inl (StateError ''Retry authorization no longer matches an unchanged suppressed candidate'')
     | (Some _, None) \<Rightarrow> Inl (StateError ''Unchanged suppressed candidate requires explicit retry authorization'')
     | (Some p, Some a) \<Rightarrow> Inr (Some (p, a))))"

definition selected_details :: "issue_candidate \<Rightarrow> string \<Rightarrow> (string \<times> string) list" where
  "selected_details c revision = [(''issue'', issue_reference c), (''issue_revision'', revision),
     (''score'', int_text (issue_score c))]"

definition override_details :: "issue_candidate \<Rightarrow> retry_row \<Rightarrow> (string \<times> string) list" where
  "override_details c a = [(''actor'', retry_actor a), (''authorization_id'', retry_authorization_id a),
     (''issue'', issue_reference c), (''issue_revision'', retry_issue_revision a),
     (''prior_run_id'', retry_prior_run_id a), (''prior_status'', status_value (retry_prior_status a)),
     (''reason'', retry_reason a)]"

text \<open>The database with the authorization, the event of the claim and its time, the disposition.\<close>

definition claim_provenance :: "db \<Rightarrow> string \<Rightarrow> issue_candidate \<Rightarrow> string \<Rightarrow> string \<Rightarrow> instant
    \<Rightarrow> ((string \<times> run_status) \<times> candidate_retry_authorization) option
    \<Rightarrow> (db \<times> string \<times> (string \<times> string) list \<times> instant option \<times> candidate_attempt_disposition) result" where
  "claim_provenance d rid c revision fresh authorized prior = (case prior of
     None \<Rightarrow> Inr (d, ''candidate.selected'', selected_details c revision, None, disposition_of AVAILABLE revision None)
   | Some (p, auth) \<Rightarrow>
     bind_r (check_retry_authorization auth) (\<lambda>(actor, reason).
     let a = \<lparr>retry_authorization_id = fresh, retry_run_id = rid, retry_repository = issue_repository c,
           retry_issue_number = issue_number c, retry_issue_revision = revision, retry_prior_run_id = fst p,
           retry_prior_status = snd p, retry_actor = actor, retry_reason = reason, retry_authorized_at = authorized\<rparr>
     in bind_r (insert_retry d a) (\<lambda>d'.
        Inr (d', ''candidate.retry_override'', override_details c a, Some authorized,
             disposition_of SUPPRESSED revision (Some p)))))"

definition claim_guard :: "instant \<Rightarrow> run_row \<Rightarrow> bool" where
  "claim_guard expected r \<longleftrightarrow> row_status r = DISCOVERING \<and> row_updated_at r = expected \<and> row_repository r = None
     \<and> row_issue_number r = None \<and> row_issue_revision r = None"

definition claimed_row :: "issue_candidate \<Rightarrow> string \<Rightarrow> run_manifest \<Rightarrow> run_row \<Rightarrow> run_row" where
  "claimed_row c revision m r = r\<lparr>row_repository := Some (issue_repository c), row_issue_number := Some (issue_number c),
     row_issue_revision := Some revision, row_updated_at := updated_at m, row_manifest := m\<rparr>"

text \<open>The end of the transaction: the guarded update, the event of the claim, the artifact marker.\<close>

definition claim_update :: "digest \<Rightarrow> dump \<Rightarrow> db \<Rightarrow> run_manifest \<Rightarrow> instant \<Rightarrow> run_row \<Rightarrow> issue_candidate \<Rightarrow> string
    \<Rightarrow> (string \<times> (string \<times> string) list \<times> instant option) \<Rightarrow> instant \<Rightarrow> db result" where
  "claim_update H J d m expected current c revision ev clock' =
     (let (rs, rowcount) = update_run (runs d) (run_id m)
            (\<lambda>r. claim_guard expected r \<and> J (row_manifest r) = J (row_manifest current))
            (claimed_row c revision m)
      in if rowcount \<noteq> 1 then
           Inl (StateError (''Run '' @ run_id m @ '' changed while its candidate was claimed''))
         else
           bind_r (write_runs d rs) (\<lambda>d1.
           bind_r (append_event H d1 (run_id m) (fst ev) (fst (snd ev)) (snd (snd ev)) clock') (\<lambda>d2.
           mark_manifest_artifact_sync H J d2 (run_id m) (updated_at m) m)))"

definition claim_transaction :: "digest \<Rightarrow> dump \<Rightarrow> db \<Rightarrow> run_manifest \<Rightarrow> instant \<Rightarrow> lease
    \<Rightarrow> candidate_retry_authorization option \<Rightarrow> issue_candidate \<Rightarrow> string \<Rightarrow> int \<Rightarrow> string
    \<Rightarrow> instant \<Rightarrow> instant \<Rightarrow> instant \<Rightarrow> (db \<times> candidate_attempt_disposition) result" where
  "claim_transaction H J d m expected l auth c key n fresh checked authorized clock' =
     (let revision = compute_issue_revision H c in
      bind_r (assert_candidate_claim_lease d l checked) (\<lambda>_.
      case find_run d (run_id m) of
        None \<Rightarrow> Inl (StateError (''Unknown run: '' @ run_id m))
      | Some current \<Rightarrow>
        bind_r (raise_from (''Run '' @ run_id m @ '' contains an invalid manifest'')
          (validate_manifest (row_manifest current))) (\<lambda>stored.
        if \<not> claim_guard expected current \<or> run_id stored \<noteq> run_id m \<or> status stored \<noteq> DISCOVERING
           \<or> candidate stored \<noteq> None then
          Inl (StateError (''Run '' @ run_id m @ '' changed before its candidate claim''))
        else
          bind_r (verified_attempts H (filter (\<lambda>r. row_run_id r \<noteq> run_id m) (runs d)) key n) (\<lambda>attempts.
          bind_r (claim_prior attempts revision auth) (\<lambda>prior.
          bind_r (claim_provenance d (run_id m) c revision fresh authorized prior)
            (\<lambda>(d0, etype, details, occurred, disposition).
          bind_r (claim_update H J d0 m expected current c revision (etype, details, occurred) clock') (\<lambda>d3.
          Inr (d3, disposition))))))))"

text \<open>
  \<open>claim_candidate\<close>: the database, the caller's manifest and the outcome.  A failed transaction
  takes the manifest's new time back; a violated constraint is reported as a \<open>StateError\<close>.
\<close>

definition claim_error :: "error \<Rightarrow> error" where
  "claim_error e = (case e of IntegrityError _ \<Rightarrow> StateError ''Candidate claim violated a durable state constraint''
     | _ \<Rightarrow> e)"

definition claim_candidate :: "digest \<Rightarrow> dump \<Rightarrow> writer \<Rightarrow> db \<Rightarrow> run_manifest \<Rightarrow> lease
    \<Rightarrow> candidate_retry_authorization option \<Rightarrow> string \<Rightarrow> instant \<Rightarrow> instant \<Rightarrow> instant \<Rightarrow> instant
    \<Rightarrow> db \<times> run_manifest \<times> candidate_attempt_disposition result" where
  "claim_candidate H J wr d m l auth fresh clock checked authorized clock' =
     (case bind_r (claim_arguments m l) (\<lambda>(c, key, n).
           bind_r (next_run_update_time (updated_at m) clock) (\<lambda>t.
           bind_r (claim_transaction H J d (m\<lparr>updated_at := t\<rparr>) (updated_at m) l auth c key n fresh
             checked authorized clock') (\<lambda>(d1, disposition). Inr (t, d1, disposition)))) of
        Inl e \<Rightarrow> (d, m, Inl (claim_error e))
      | Inr (t, d1, disposition) \<Rightarrow>
        let m1 = m\<lparr>updated_at := t\<rparr> in
        (case synchronize_manifest_artifact H J wr d1 (run_id m1) (updated_at m1) (H (J m1)) of
           Inl e \<Rightarrow> (d1, m1, Inl e)
         | Inr x \<Rightarrow> (fst x, m1, Inr disposition)))"

section \<open>What a claim relies on\<close>

lemma verified_row_Inr:
  assumes "verified_issue_revision_row H r = Inr x" and "row_agrees H r"
  shows "x = (row_run_id r, row_status r, row_issue_revision r)"
  using assms
  by (auto simp: verified_issue_revision_row_def result_simps checks row_agrees_def Let_def
      split: option.splits if_splits dest!: validate_manifest_Inr)

text \<open>The verified attempts are exactly the rows on the issue.\<close>

lemma verified_attempts_Inr:
  assumes "verified_attempts H rs key n = Inr xs" and "\<forall>r\<in>set rs. row_agrees H r"
  shows "xs = map (\<lambda>r. (row_run_id r, row_status r, row_issue_revision r))
      (sort_key row_run_id (filter (same_issue key n) rs))"
proof -
  have all: "attempt_rows rs key n = sort_key row_run_id (filter (same_issue key n) rs)"
    and m: "map_result (verified_issue_revision_row H) (attempt_rows rs key n) = Inr xs"
    using assms(1) by (auto simp: verified_attempts_def attempt_rows_def split: if_splits)
  from m have l: "list_all2 (\<lambda>r x. verified_issue_revision_row H r = Inr x)
      (sort_key row_run_id (filter (same_issue key n) rs)) xs"
    unfolding all map_result_Inr .
  have "list_all2 (\<lambda>r x. x = (row_run_id r, row_status r, row_issue_revision r))
      (sort_key row_run_id (filter (same_issue key n) rs)) xs"
    by (rule list.rel_mono_strong [OF l]) (use assms(2) verified_row_Inr in auto)
  then show ?thesis
    by (induction rule: list_all2_induct) simp_all
qed

lemma find_map_None: "List.find P (map f xs) = None \<longleftrightarrow> (\<forall>x\<in>set xs. \<not> P (f x))"
  by (auto simp: find_None)

lemma find_map_Some: "List.find P (map f xs) = Some y \<Longrightarrow> \<exists>x\<in>set xs. y = f x \<and> P (f x)"
  by (auto dest!: find_SomeD)

lemma claim_prior_Inr:
  assumes "claim_prior (map (\<lambda>r. (row_run_id r, row_status r, row_issue_revision r)) rs) revision auth = Inr p"
  shows "(\<forall>r\<in>set rs. \<not> is_active r)
    \<and> (p = None \<longrightarrow> auth = None \<and> (\<forall>r\<in>set rs. row_status r \<in> candidate_suppressed_statuses
          \<longrightarrow> row_issue_revision r \<noteq> Some revision))
    \<and> (\<forall>q a. p = Some (q, a) \<longrightarrow> auth = Some a \<and> (\<exists>r\<in>set rs. q = (row_run_id r, row_status r)
          \<and> row_status r \<in> candidate_suppressed_statuses \<and> row_issue_revision r = Some revision))"
  using assms
  by (auto simp: claim_prior_def active_attempt_def suppressed_attempt_def is_active_def find_map_None
      split: option.splits dest!: find_map_Some)

lemma claim_provenance_Inr:
  assumes "claim_provenance d rid c revision fresh authorized prior = Inr (d0, etype, details, occurred, disposition)"
  shows "d0 = d\<lparr>candidate_retry_authorizations := candidate_retry_authorizations d0\<rparr>"
    and "disp_issue_revision disposition = revision"
    and "prior = None \<Longrightarrow> disposition = disposition_of AVAILABLE revision None
        \<and> candidate_retry_authorizations d0 = candidate_retry_authorizations d
        \<and> etype = ''candidate.selected'' \<and> details = selected_details c revision"
    and "prior = Some (p, auth) \<Longrightarrow> disposition = disposition_of SUPPRESSED revision (Some p)
        \<and> (\<exists>a. candidate_retry_authorizations d0 = candidate_retry_authorizations d @ [a]
            \<and> retry_run_id a = rid \<and> retry_issue_revision a = revision \<and> retry_prior_run_id a = fst p
            \<and> retry_prior_status a = snd p \<and> retry_actor a = auth_actor auth \<and> retry_reason a = auth_reason auth
            \<and> etype = ''candidate.retry_override'' \<and> details = override_details c a)"
  using assms
  by (auto simp: claim_provenance_def check_retry_authorization_def insert_retry_def disposition_of_def
      result_simps Let_def split: option.splits if_splits prod.splits)

lemma claim_arguments_Inr:
  assumes "claim_arguments m l = Inr (c, key, n)"
  shows "status m = DISCOVERING" and "candidate m = Some c" and "n = issue_number c"
    and "candidate_identity (issue_repository c) (issue_number c) = Inr (key, n)"
    and "lease_name l = candidate_claim_lease_name"
  using assms
  by (auto simp: claim_arguments_def result_simps checks candidate_identity_def Let_def
      split: if_splits option.splits)

text \<open>An ASCII name folds as SQLite's \<open>NOCASE\<close> folds it.\<close>

lemma nocase_idem: "nocase (nocase s) = nocase s"
  by (auto simp: nocase_def)

lemma casefold_ascii: "list_all (\<lambda>c. code c < 128) s \<Longrightarrow> casefold s = nocase s"
  by (induction s) (auto simp: casefold_def nocase_def fold_char_def Let_def)

lemma name_char_ascii: "is_name_char c \<Longrightarrow> code c < 128"
  by (auto simp: is_name_char_def is_digit_def)

lemma owner_name_ascii:
  assumes "is_owner_name s"
  shows "list_all (\<lambda>c. code c < 128) s"
proof -
  obtain a b where ab: "split_on (CHR ''/'') s = [a, b]" "list_all is_name_char a" "list_all is_name_char b"
    using assms by (auto simp: is_owner_name_def split: list.splits)
  have "s = join [CHR ''/''] [a, b]" using join_split_on [of "CHR ''/''" s] unfolding ab by simp
  with ab(2,3) show ?thesis by (auto simp: list_all_iff name_char_ascii)
qed

lemma candidate_identity_Inr:
  "candidate_identity repo k = Inr (key, n) \<Longrightarrow> key = nocase repo \<and> n = k"
  using casefold_ascii [OF owner_name_ascii, of repo]
  by (auto simp: candidate_identity_def repository_identity_def result_simps checks Let_def split: if_splits)

section \<open>What a committed claim has found and what it leaves\<close>

definition other_rows :: "db \<Rightarrow> string \<Rightarrow> string \<Rightarrow> int \<Rightarrow> run_row list" where
  "other_rows d rid key n = sort_key row_run_id (filter (same_issue key n) (filter (\<lambda>r. row_run_id r \<noteq> rid) (runs d)))"

abbreviation attempt_of :: "run_row \<Rightarrow> string \<times> run_status \<times> string option" where
  "attempt_of r \<equiv> (row_run_id r, row_status r, row_issue_revision r)"

lemma other_rows_set: "set (other_rows d rid key n) = {r \<in> set (runs d). row_run_id r \<noteq> rid \<and> same_issue key n r}"
  by (auto simp: other_rows_def)

lemma claim_transaction_cases:
  assumes "claim_transaction H J d m expected l auth c key n fresh checked authorized clock' = Inr (d', disp)"
    and wf: "store_wf H J d" and m: "status m = DISCOVERING" "candidate m = Some c" and n: "n = issue_number c"
  obtains r r' prior d0 etype details occurred e where "assert_candidate_claim_lease d l checked = Inr ()"
    and "find_run d (run_id m) = Some r" and "claim_guard expected r"
    and "verified_attempts H (filter (\<lambda>r. row_run_id r \<noteq> run_id m) (runs d)) key n
      = Inr (map attempt_of (other_rows d (run_id m) key n))"
    and "claim_prior (map attempt_of (other_rows d (run_id m) key n)) (compute_issue_revision H c) auth = Inr prior"
    and "claim_provenance d (run_id m) c (compute_issue_revision H c) fresh authorized prior
      = Inr (d0, etype, details, occurred, disp)"
    and "store_wf H J d'" and "find_run d' (run_id m) = Some r'"
    and "blank r' = blank (claimed_row c (compute_issue_revision H c) m r)"
    and "\<forall>k. k \<noteq> run_id m \<longrightarrow> map_option blank (find_run d' k) = map_option blank (find_run d k)"
    and "manifest_artifact_sync d' (run_id m) = Some \<lparr>sync_updated_at = updated_at m, sync_manifest_sha256 = H (J m)\<rparr>"
    and "candidate_retry_authorizations d' = candidate_retry_authorizations d0"
    and "events d' = events d @ [e]" and "ev_run_id e = run_id m" and "ev_type e = etype"
    and "ev_details e = canonical_details details"
    and "ev_occurred_at e = isoformat (case occurred of None \<Rightarrow> clock' | Some t \<Rightarrow> t)"
proof -
  define revision where "revision = compute_issue_revision H c"
  from assms(1) have lease: "assert_candidate_claim_lease d l checked = Inr ()"
    by (auto simp: claim_transaction_def result_simps Let_def)
  from assms(1) lease obtain r where r: "find_run d (run_id m) = Some r"
    by (auto simp: claim_transaction_def result_simps Let_def split: option.splits)
  define g where "g = (\<lambda>x. claim_guard expected x \<and> J (row_manifest x) = J (row_manifest r))"
  define f where "f = claimed_row c revision m"
  from assms(1) lease r have guard: "claim_guard expected r"
    by (auto simp: claim_transaction_def result_simps Let_def split: if_splits)
  from assms(1) lease r obtain attempts prior d0 etype details occurred where
    a: "verified_attempts H (filter (\<lambda>r. row_run_id r \<noteq> run_id m) (runs d)) key n = Inr attempts"
    and p: "claim_prior attempts revision auth = Inr prior"
    and pr: "claim_provenance d (run_id m) c revision fresh authorized prior = Inr (d0, etype, details, occurred, disp)"
    and t: "claim_update H J d0 m expected r c revision (etype, details, occurred) clock' = Inr d'"
    unfolding claim_transaction_def Let_def revision_def [symmetric]
    by (auto simp: result_simps split: if_splits prod.splits)
  obtain rs k where upd: "update_run (runs d0) (run_id m) g f = (rs, k)"
    by (cases "update_run (runs d0) (run_id m) g f")
  from t upd obtain d1 d2 where w: "write_runs d0 rs = Inr d1"
    and ap: "append_event H d1 (run_id m) etype details occurred clock' = Inr d2"
    and mk: "mark_manifest_artifact_sync H J d2 (run_id m) (updated_at m) m = Inr d'"
    unfolding claim_update_def g_def [symmetric] f_def [symmetric]
    by (auto simp: result_simps split: if_splits)
  note d0 = claim_provenance_Inr(1) [OF pr]
  have run0: "runs d0 = runs d" "events d0 = events d" "manifest_artifact_sync d0 = manifest_artifact_sync d"
    using d0 by (metis db.ext_inject db.surjective db.update_convs)+
  then have find0: "find_run d0 = find_run d" by (simp add: find_run_def fun_eq_iff)
  have wf0: "store_wf H J d0"
    by (rule cleared_wf [OF _ wf]) (simp add: cleared_def run0)
  have r0: "find_run d0 (run_id m) = Some r" and gr: "g r" using r guard by (simp_all add: find0 g_def)
  have anchors: "anchor_of (f x) = anchor_of x" for x by (simp add: f_def claimed_row_def anchor_of_def)
  have agrees: "row_agrees H (f r)"
    using find_run_SomeD [OF r] guard m by (simp add: f_def claimed_row_def row_agrees_def claim_guard_def Let_def revision_def)
  have d1: "runs d1 = rs" "events d1 = events d" "candidate_retry_authorizations d1 = candidate_retry_authorizations d0"
    using w run0 by (auto simp: write_runs_Inr)
  have s1: "ledger_sound H d1"
    using wf0 ledger_sound_anchors [of d1 d0 H] w upd anchors run0
    by (auto simp: store_wf_def write_runs_Inr update_run_def)
  have app: "appended H d1 d2" by (rule append_event_appended [OF ap s1])
  note st = store_update [OF wf0 r0 gr upd w anchors agrees app mk]
  then obtain r' where r': "find_run d' (run_id m) = Some r'" "blank r' = blank (f r)" by blast
  have others: "\<forall>k. k \<noteq> run_id m \<longrightarrow> map_option blank (find_run d' k) = map_option blank (find_run d k)"
    using st by (simp add: find0)
  have sync: "manifest_artifact_sync d' (run_id m) = Some \<lparr>sync_updated_at = updated_at m, sync_manifest_sha256 = H (J m)\<rparr>"
    and retry: "candidate_retry_authorizations d' = candidate_retry_authorizations d2" and ev': "events d' = events d2"
    using mk by (auto simp: mark_Inr)
  have "candidate_retry_authorizations d2 = candidate_retry_authorizations d1"
    using app same_outside_ledgerD(5) by (auto simp: appended_def)
  with retry d1 have retry: "candidate_retry_authorizations d' = candidate_retry_authorizations d0" by simp
  have ids: "distinct (map row_run_id (runs d1))" using s1 by (simp add: ledger_sound_def)
  from append_eventD [OF ap ids] obtain e where e: "events d2 = events d1 @ [e]" "ev_run_id e = run_id m" "ev_type e = etype"
    "ev_details e = canonical_details details" "ev_occurred_at e = isoformat (case occurred of None \<Rightarrow> clock' | Some t \<Rightarrow> t)"
    by auto
  have att: "attempts = map attempt_of (other_rows d (run_id m) key n)"
    unfolding other_rows_def by (rule verified_attempts_Inr [OF a]) (use wf in \<open>simp add: store_wf_def\<close>)
  with that [OF lease r guard, of prior d0 etype details occurred r' e] a p pr st r' others sync retry e ev' d1
  show thesis by (simp add: revision_def f_def)
qed

lemma claim_candidate_cases:
  assumes "claim_candidate H J wr d m l auth fresh clock checked authorized clock' = (d', m', res)"
  obtains (refused) e where "d' = d" and "m' = m" and "res = Inl e"
      and "\<And>c key n t d1 disp. claim_arguments m l = Inr (c, key, n) \<Longrightarrow>
        next_run_update_time (updated_at m) clock = Inr t \<Longrightarrow>
        claim_transaction H J d (m\<lparr>updated_at := t\<rparr>) (updated_at m) l auth c key n fresh checked authorized clock'
          \<noteq> Inr (d1, disp)"
  | (committed) c key n t d1 disp where "claim_arguments m l = Inr (c, key, n)"
      and "m' = m\<lparr>updated_at := t\<rparr>" and "updated_at m < t"
      and "claim_transaction H J d m' (updated_at m) l auth c key n fresh checked authorized clock' = Inr (d1, disp)"
      and "cleared d1 d'" and "candidate_retry_authorizations d' = candidate_retry_authorizations d1"
      and "\<And>x. res = Inr x \<Longrightarrow> x = disp
           \<and> (\<exists>b. publish_artifact H J wr d1 (run_id m') (updated_at m') (H (J m')) = Inr (d', b))"
proof (cases "bind_r (claim_arguments m l) (\<lambda>(c, key, n).
           bind_r (next_run_update_time (updated_at m) clock) (\<lambda>t.
           bind_r (claim_transaction H J d (m\<lparr>updated_at := t\<rparr>) (updated_at m) l auth c key n fresh
             checked authorized clock') (\<lambda>(d1, disposition). Inr (t, d1, disposition))))")
  case (Inl e)
  with assms have "d' = d \<and> m' = m \<and> res = Inl (claim_error e)" by (simp add: claim_candidate_def)
  with Inl show thesis by (intro refused [of "claim_error e"]) (auto simp: result_simps)
next
  case (Inr x)
  then obtain c key n t d1 disp where x: "x = (t, d1, disp)" "claim_arguments m l = Inr (c, key, n)"
    "next_run_update_time (updated_at m) clock = Inr t"
    "claim_transaction H J d (m\<lparr>updated_at := t\<rparr>) (updated_at m) l auth c key n fresh checked authorized clock' = Inr (d1, disp)"
    by (auto simp: result_simps)
  define m1 where "m1 = m\<lparr>updated_at := t\<rparr>"
  note run = assms [unfolded claim_candidate_def Inr x(1) sum.case prod.case Let_def m1_def [symmetric]]
  note lt = next_run_update_time_Inr [OF x(3)]
  show thesis
  proof (cases "synchronize_manifest_artifact H J wr d1 (run_id m1) (updated_at m1) (H (J m1))")
    case (Inl e)
    with run have r: "d' = d1" "m' = m1" "res = Inl e" by simp_all
    show thesis
      by (rule committed [OF x(2), of t d1 disp]) (use r m1_def lt x(4) in auto)
  next
    case s: (Inr y)
    with run have r: "d' = fst y" "m' = m1" "res = Inr disp" by simp_all
    have y: "synchronize_manifest_artifact H J wr d1 (run_id m1) (updated_at m1) (H (J m1)) = Inr (fst y, snd y)"
      using s by simp
    have "candidate_retry_authorizations (fst y) = candidate_retry_authorizations d1"
      using y unfolding synchronize_Inr by (cases rule: publish_cases) auto
    then show thesis
      by (intro committed [OF x(2), of t d1 disp])
         (use r m1_def lt x(4) synchronize_cleared [OF y] y in \<open>auto simp: synchronize_Inr intro: exI [of _ "snd y"]\<close>)
  qed
qed

text \<open>The partial unique index: two rows with the same active key are the same row.\<close>

lemma active_keys_unique:
  "distinct (active_keys rs) \<Longrightarrow> x \<in> set rs \<Longrightarrow> y \<in> set rs \<Longrightarrow> k \<in> set (active_key x) \<Longrightarrow> k \<in> set (active_key y)
     \<Longrightarrow> x = y"
  by (induction rs) (auto simp: active_keys_def)

text \<open>
  C3. A successful claim keeps the store invariant, binds the run to the issue revision of its
  candidate, publishes the manifest the caller holds, and leaves no other run active on that
  issue (repository names compared without case).
\<close>

theorem claim_binds_issue:
  assumes "store_wf H J d"
    and "claim_candidate H J wr d m l auth fresh clock checked authorized clock' = (d', m', Inr disp)"
  shows "store_wf H J d' \<and> (\<exists>c r. candidate m = Some c \<and> find_run d' (run_id m) = Some r
    \<and> row_manifest r = m' \<and> row_issue_revision r = Some (compute_issue_revision H c)
    \<and> manifest_files d' (run_id m) = Some m'
    \<and> (\<forall>r'\<in>set (runs d'). row_run_id r' \<noteq> run_id m \<and> same_issue (issue_repository c) (issue_number c) r'
        \<longrightarrow> row_status r' \<in> candidate_released_statuses))"
  using assms(2)
proof (cases rule: claim_candidate_cases)
  case (committed c key n t d1 disp')
  note args = claim_arguments_Inr [OF committed(1)]
  have m': "status m' = DISCOVERING" "candidate m' = Some c" "run_id m' = run_id m" using committed(2) args by simp_all
  from committed(4) assms(1) m'(1,2) args(3) obtain r r' where
    wf: "store_wf H J d1" and r': "find_run d1 (run_id m') = Some r'"
      "blank r' = blank (claimed_row c (compute_issue_revision H c) m' r)" and g: "claim_guard (updated_at m) r"
    and s: "manifest_artifact_sync d1 (run_id m') = Some \<lparr>sync_updated_at = updated_at m', sync_manifest_sha256 = H (J m')\<rparr>"
    by (rule claim_transaction_cases) blast
  note b = blank_eqD [OF r'(2)]
  have row: "row_manifest r' = m'" "row_issue_revision r' = Some (compute_issue_revision H c)" "row_status r' = DISCOVERING"
    "row_repository r' = Some (issue_repository c)" "row_issue_number r' = Some (issue_number c)"
    using b g by (simp_all add: claimed_row_def claim_guard_def)
  have wf': "store_wf H J d'" by (rule cleared_wf [OF committed(5) wf])
  have find: "find_run d' (run_id m) = Some r'" using r'(1) cleared_find [OF committed(5)] m'(3) by simp
  obtain bb where "publish_artifact H J wr d1 (run_id m') (updated_at m') (H (J m')) = Inr (d', bb)"
    using committed(7) by blast
  then have fl: "manifest_files d' (run_id m) = Some m'"
    by (cases rule: publish_cases) (use s r' row m'(3) in auto)
  have "row_status x \<in> candidate_released_statuses"
    if x: "x \<in> set (runs d')" "row_run_id x \<noteq> run_id m" "same_issue (issue_repository c) (issue_number c) x" for x
  proof (rule ccontr)
    assume a: "row_status x \<notin> candidate_released_statuses"
    from find_run_SomeD [OF find] have r: "r' \<in> set (runs d')" "row_run_id r' = run_id m" by simp_all
    have "active_key r' = [(nocase (issue_repository c), issue_number c)]"
      using row by (simp add: active_key.simps is_active_def candidate_released_statuses_def)
    moreover have "active_key x = [(nocase (issue_repository c), issue_number c)]"
      using x(3) a by (auto simp: active_key.simps is_active_def same_issue_def split: option.splits)
    moreover have "distinct (active_keys (runs d'))" using wf' by (simp add: store_wf_def runs_ok_def)
    moreover have "x \<noteq> r'" using x(2) r(2) by auto
    ultimately show False using active_keys_unique [of "runs d'" x r'] x(1) r(1) by auto
  qed
  with wf' args find row fl show ?thesis by blast
qed simp

text \<open>
  C4. While another run is active on the issue, or, without an authorization, while a suppressed
  run had exactly this issue revision, every claim is refused and changes neither the database
  nor the manifest.
\<close>

theorem claim_respects_history:
  assumes "store_wf H J d" and "candidate m = Some c"
    and "r \<in> set (runs d)" and "row_run_id r \<noteq> run_id m" and "same_issue (issue_repository c) (issue_number c) r"
    and "is_active r \<or> auth = None \<and> row_status r \<in> candidate_suppressed_statuses
      \<and> row_issue_revision r = Some (compute_issue_revision H c)"
  shows "\<exists>e. claim_candidate H J wr d m l auth fresh clock checked authorized clock' = (d, m, Inl e)"
proof -
  obtain d' m' res where cl: "claim_candidate H J wr d m l auth fresh clock checked authorized clock' = (d', m', res)"
    by (metis prod_cases3)
  from cl show ?thesis
  proof (cases rule: claim_candidate_cases)
    case (committed c' key n t d1 disp)
    note args = claim_arguments_Inr [OF committed(1)]
    have m': "status m' = DISCOVERING" "candidate m' = Some c'" "run_id m' = run_id m" using committed(2) args by simp_all
    from committed(4) assms(1) m'(1,2) args(3) obtain prior where
      p: "claim_prior (map attempt_of (other_rows d (run_id m') key n)) (compute_issue_revision H c') auth = Inr prior"
      by (rule claim_transaction_cases) blast
    have c': "c' = c" using args(2) assms(2) by simp
    have "r \<in> set (other_rows d (run_id m') key n)"
      using assms(3-5) candidate_identity_Inr [OF args(4)] m'(3) c'
      by (simp add: other_rows_set same_issue_def nocase_idem)
    with claim_prior_Inr [OF p] assms(6) c' have False by (cases prior) auto
    then show ?thesis ..
  qed (use cl in simp)
qed

lemma claim_prior_eq:
  "claim_prior xs revision auth = Inr prior \<Longrightarrow>
     active_attempt xs = None \<and> suppressed_attempt revision xs = map_option fst prior \<and> auth = map_option snd prior"
  by (auto simp: claim_prior_def split: option.splits)

text \<open>
  A claim classifies the issue inside its transaction exactly as
  candidate_attempt_disposition does outside, and succeeds only on an available issue without an
  authorization or a suppressed one with it.
\<close>

theorem claim_agrees_with_disposition:
  assumes "store_wf H J d" and "candidate m = Some c"
    and "claim_candidate H J wr d m l auth fresh clock checked authorized clock' = (d', m', Inr disp)"
  shows "candidate_attempt_disposition H d c = Inr disp
    \<and> (disp_state disp = AVAILABLE \<and> auth = None \<or> disp_state disp = SUPPRESSED \<and> auth \<noteq> None)"
  using assms(3)
proof (cases rule: claim_candidate_cases)
  case (committed c' key n t d1 disp')
  note args = claim_arguments_Inr [OF committed(1)]
  have m': "status m' = DISCOVERING" "candidate m' = Some c'" "run_id m' = run_id m" using committed(2) args by simp_all
  from committed(4) assms(1) m'(1,2) args(3) obtain r prior d0 etype details occurred where
    r: "find_run d (run_id m') = Some r" "claim_guard (updated_at m) r"
    and v: "verified_attempts H (filter (\<lambda>r. row_run_id r \<noteq> run_id m') (runs d)) key n
      = Inr (map attempt_of (other_rows d (run_id m') key n))"
    and p: "claim_prior (map attempt_of (other_rows d (run_id m') key n)) (compute_issue_revision H c') auth = Inr prior"
    and pr: "claim_provenance d (run_id m') c' (compute_issue_revision H c') fresh authorized prior
      = Inr (d0, etype, details, occurred, disp')"
    by (rule claim_transaction_cases) blast
  have "filter (same_issue key n) (filter (\<lambda>r. row_run_id r \<noteq> run_id m') (runs d)) = filter (same_issue key n) (runs d)"
  proof -
    have "row_run_id x \<noteq> run_id m'" if "x \<in> set (runs d)" "same_issue key n x" for x
    proof
      assume "row_run_id x = run_id m'"
      then have "find_run d (run_id m') = Some x"
        using assms(1) that(1) by (simp add: store_wf_def find_run_Some_iff)
      with r that(2) show False by (simp add: claim_guard_def same_issue_def)
    qed
    then show ?thesis by (auto intro: filter_cong)
  qed
  then have "verified_attempts H (runs d) key n = Inr (map attempt_of (other_rows d (run_id m') key n))"
    using v unfolding verified_attempts_def attempt_rows_def by (simp only:)
  moreover have "disp = disp'" "c' = c" using committed(7) args(2) assms(2) by simp_all
  ultimately show ?thesis
    using claim_prior_eq [OF p] args(4) claim_provenance_Inr(3,4) [OF pr]
    by (cases prior) (auto simp: candidate_attempt_disposition_def disposition_of_def)
qed simp

text \<open>
  The disposition of an issue is active exactly when an unreleased run is on it, and
  otherwise suppressed exactly when a skipped, rejected or cancelled run had the same issue
  revision.
\<close>

theorem disposition_classifies:
  assumes "store_wf H J d" and "candidate_attempt_disposition H d issue = Inr x"
  shows "disp_issue_revision x = compute_issue_revision H issue
    \<and> (disp_state x = ACTIVE \<longleftrightarrow>
        (\<exists>r\<in>set (runs d). same_issue (issue_repository issue) (issue_number issue) r \<and> is_active r))
    \<and> (disp_state x = SUPPRESSED \<longleftrightarrow> disp_state x \<noteq> ACTIVE \<and>
        (\<exists>r\<in>set (runs d). same_issue (issue_repository issue) (issue_number issue) r
          \<and> row_status r \<in> candidate_suppressed_statuses
          \<and> row_issue_revision r = Some (compute_issue_revision H issue)))"
proof -
  from assms(2) obtain key n xs where i: "candidate_identity (issue_repository issue) (issue_number issue) = Inr (key, n)"
    and v: "verified_attempts H (runs d) key n = Inr xs"
    by (auto simp: candidate_attempt_disposition_def result_simps)
  have xs: "xs = map attempt_of (sort_key row_run_id (filter (same_issue key n) (runs d)))"
    by (rule verified_attempts_Inr [OF v]) (use assms(1) in \<open>simp add: store_wf_def\<close>)
  have same: "same_issue key n = same_issue (issue_repository issue) (issue_number issue)"
    using candidate_identity_Inr [OF i] by (simp add: same_issue_def nocase_idem fun_eq_iff)
  have x: "x = (case active_attempt xs of
       Some a \<Rightarrow> disposition_of ACTIVE (compute_issue_revision H issue) (Some a)
     | None \<Rightarrow> (case suppressed_attempt (compute_issue_revision H issue) xs of
         Some s \<Rightarrow> disposition_of SUPPRESSED (compute_issue_revision H issue) (Some s)
       | None \<Rightarrow> disposition_of AVAILABLE (compute_issue_revision H issue) None))"
    using assms(2) i v by (auto simp: candidate_attempt_disposition_def Let_def)
  have a: "active_attempt xs = None \<longleftrightarrow> \<not> (\<exists>r\<in>set (runs d). same_issue key n r \<and> is_active r)"
    by (auto simp: active_attempt_def xs find_map_None is_active_def)
  have s: "suppressed_attempt (compute_issue_revision H issue) xs = None \<longleftrightarrow> \<not> (\<exists>r\<in>set (runs d). same_issue key n r
      \<and> row_status r \<in> candidate_suppressed_statuses \<and> row_issue_revision r = Some (compute_issue_revision H issue))"
    by (auto simp: suppressed_attempt_def xs find_map_None)
  show ?thesis
    unfolding same [symmetric] using a s
    by (cases "active_attempt xs"; cases "suppressed_attempt (compute_issue_revision H issue) xs")
       (auto simp: x disposition_of_def)
qed

text \<open>
  A claim that used an authorization retries an unchanged suppressed attempt of the issue,
  and has recorded who authorized it and why, both as a row bound to that attempt and as the
  event of the claim.
\<close>

theorem retry_is_authorized:
  assumes "store_wf H J d" and "candidate m = Some c"
    and "claim_candidate H J wr d m l (Some a) fresh clock checked authorized clock' = (d', m', Inr disp)"
  shows "\<exists>r row e. r \<in> set (runs d) \<and> same_issue (issue_repository c) (issue_number c) r
    \<and> row_status r \<in> candidate_suppressed_statuses \<and> row_issue_revision r = Some (compute_issue_revision H c)
    \<and> candidate_retry_authorizations d' = candidate_retry_authorizations d @ [row]
    \<and> retry_run_id row = run_id m \<and> retry_prior_run_id row = row_run_id r \<and> retry_prior_status row = row_status r
    \<and> retry_actor row = auth_actor a \<and> retry_reason row = auth_reason a
    \<and> events d' = events d @ [e] \<and> ev_run_id e = run_id m \<and> ev_type e = ''candidate.retry_override''
    \<and> ev_details e = canonical_details (override_details c row)"
  using assms(3)
proof (cases rule: claim_candidate_cases)
  case (committed c' key n t d1 disp')
  note args = claim_arguments_Inr [OF committed(1)]
  have m': "status m' = DISCOVERING" "candidate m' = Some c'" "run_id m' = run_id m" using committed(2) args by simp_all
  have c': "c' = c" using args(2) assms(2) by simp
  from committed(4) assms(1) m'(1,2) args(3) obtain prior d0 etype details occurred e where
    p: "claim_prior (map attempt_of (other_rows d (run_id m') key n)) (compute_issue_revision H c') (Some a) = Inr prior"
    and pr: "claim_provenance d (run_id m') c' (compute_issue_revision H c') fresh authorized prior
      = Inr (d0, etype, details, occurred, disp')"
    and ret: "candidate_retry_authorizations d1 = candidate_retry_authorizations d0"
    and e: "events d1 = events d @ [e]" "ev_run_id e = run_id m'" "ev_type e = etype" "ev_details e = canonical_details details"
    by (rule claim_transaction_cases) blast
  from claim_prior_Inr [OF p] obtain q where q: "prior = Some (q, a)"
    and "\<exists>r\<in>set (other_rows d (run_id m') key n). q = (row_run_id r, row_status r)
          \<and> row_status r \<in> candidate_suppressed_statuses \<and> row_issue_revision r = Some (compute_issue_revision H c')"
    by (cases prior) auto
  then obtain r where r: "r \<in> set (other_rows d (run_id m') key n)" "q = (row_run_id r, row_status r)"
    "row_status r \<in> candidate_suppressed_statuses" "row_issue_revision r = Some (compute_issue_revision H c')"
    by blast
  have same: "r \<in> set (runs d)" "same_issue (issue_repository c) (issue_number c) r"
    using r(1) candidate_identity_Inr [OF args(4)] c' by (auto simp: other_rows_set same_issue_def nocase_idem)
  from claim_provenance_Inr(4) [OF pr q] obtain row where row:
    "candidate_retry_authorizations d0 = candidate_retry_authorizations d @ [row]"
    "retry_run_id row = run_id m'" "retry_prior_run_id row = fst q" "retry_prior_status row = snd q"
    "retry_actor row = auth_actor a" "retry_reason row = auth_reason a"
    "etype = ''candidate.retry_override''" "details = override_details c' row"
    by blast
  have "events d' = events d1" using committed(5) by (simp add: cleared_def)
  with row ret e r same c' m'(3) committed(6) show ?thesis
    by (intro exI [of _ r] exI [of _ row] exI [of _ e]) simp
qed simp

text \<open>
  C6. Once the fencing counter of the run lease has passed the generation of a lease, no later
  state of any lease history lets its holder claim a candidate: the claim is refused and nothing
  changes.
\<close>

theorem lost_lease_cannot_claim:
  assumes "lease_history d0 gs d" and "lease_wf d0"
    and "lease_generations d0 candidate_claim_lease_name = Some g" and "lease_generation l < g"
  shows "\<exists>e. claim_candidate H J wr d m l auth fresh clock checked authorized clock' = (d, m, Inl e)"
proof -
  obtain g' where g': "lease_generations d candidate_claim_lease_name = Some g'" "g \<le> g'"
    using lease_history_counter [OF assms(1-3)] by blast
  obtain d' m' res where cl: "claim_candidate H J wr d m l auth fresh clock checked authorized clock' = (d', m', res)"
    by (metis prod_cases3)
  from cl show ?thesis
  proof (cases rule: claim_candidate_cases)
    case (committed c key n t d1 disp)
    note args = claim_arguments_Inr [OF committed(1)]
    from committed(4) have "assert_candidate_claim_lease d l checked = Inr ()"
      by (auto simp: claim_transaction_def result_simps Let_def)
    with g' args(5) assms(4) have False
      by (auto simp: assert_candidate_claim_lease_def result_simps stored_generation_def split: option.splits if_splits)
    then show ?thesis ..
  qed (use cl in simp)
qed

section \<open>Examples\<close>

text \<open>Two runs with one event each: a discovering one and an earlier attempt on the issue.\<close>

definition sample_issue :: issue_candidate where
  "sample_issue = \<lparr>issue_repository = ''o/n'', issue_number = 1, issue_title = [], issue_body = [],
     issue_html_url = [], issue_state = ''open'', issue_locked = False, issue_author = ''a'', issue_labels = [],
     issue_assignees = [], issue_comments = 0, issue_discussion = [], issue_created_at = 0,
     issue_updated_at = 0, issue_score = 50, issue_score_evidence = []\<rparr>"

lemma sample_issue_simps [simp]:
  "issue_repository sample_issue = ''o/n''" "issue_number sample_issue = 1" "issue_score sample_issue = 50"
  by (simp_all add: sample_issue_def)

definition created_payload :: "string \<Rightarrow> string" where
  "created_payload rid = event_payload rid (isoformat 0) ''run.created'' (canonical_details [(''status'', ''queued'')]) zeros"

definition tagged_hash :: "char \<Rightarrow> string" where
  "tagged_hash c = replicate 63 (CHR ''0'') @ [c]"

definition claim_sha :: digest where
  "claim_sha s = tagged_hash (if s = created_payload ''r'' then CHR ''1''
     else if s = created_payload ''s'' then CHR ''2'' else CHR ''3'')"

lemma tagged_hash_eq [simp]: "tagged_hash c = tagged_hash c' \<longleftrightarrow> c = c'"
  by (simp add: tagged_hash_def)

lemma tagged_hash_sha [simp]: "is_lower_hex c \<Longrightarrow> is_sha256 (tagged_hash c)"
  by (simp add: tagged_hash_def is_sha256_def list_all_iff is_lower_hex_def is_digit_def)

lemma claim_sha_sha [simp]: "is_sha256 (claim_sha s)"
  by (simp add: claim_sha_def is_lower_hex_def is_digit_def)

definition prior_manifest :: "run_status \<Rightarrow> run_manifest" where
  "prior_manifest st = (new_manifest ''s'' st 0 0)\<lparr>candidate := Some sample_issue\<rparr>"

definition created_event :: "string \<Rightarrow> event_row" where
  "created_event rid = new_event claim_sha zeros rid ''run.created'' [(''status'', ''queued'')] 0"

definition discovering_row :: run_row where
  "discovering_row = \<lparr>row_run_id = ''r'', row_status = DISCOVERING, row_repository = None,
     row_issue_number = None, row_created_at = 0, row_updated_at = 0, row_manifest = new_manifest ''r'' DISCOVERING 0 0,
     row_event_count = 1, row_event_head = tagged_hash (CHR ''1''), row_issue_revision = None\<rparr>"

definition prior_row :: "run_status \<Rightarrow> run_row" where
  "prior_row st = \<lparr>row_run_id = ''s'', row_status = st, row_repository = Some ''o/n'',
     row_issue_number = Some 1, row_created_at = 0, row_updated_at = 0, row_manifest = prior_manifest st,
     row_event_count = 1, row_event_head = tagged_hash (CHR ''2''),
     row_issue_revision = Some (compute_issue_revision claim_sha sample_issue)\<rparr>"

definition claim_lease :: lease where
  "claim_lease = \<lparr>lease_name = candidate_claim_lease_name, lease_owner = ''w'', lease_generation = 1, lease_expires_at = 9\<rparr>"

definition claim_db :: "run_status \<Rightarrow> db" where
  "claim_db st = (create_schema 0)\<lparr>runs := [discovering_row, prior_row st],
     events := [created_event ''r'', created_event ''s''],
     leases := [candidate_claim_lease_name \<mapsto> \<lparr>lrow_owner = ''w'', lrow_generation = 1, lrow_acquired_at = 0,
       lrow_heartbeat_at = 0, lrow_expires_at = 9\<rparr>],
     lease_generations := [candidate_claim_lease_name \<mapsto> 1]\<rparr>"

definition claim_manifest :: run_manifest where
  "claim_manifest = (new_manifest ''r'' DISCOVERING 0 0)\<lparr>candidate := Some sample_issue\<rparr>"

lemma sample_manifest_simps [simp]:
  "run_id claim_manifest = ''r''" "status claim_manifest = DISCOVERING" "candidate claim_manifest = Some sample_issue"
  "repository claim_manifest = None" "updated_at claim_manifest = 0"
  "run_id (prior_manifest st) = ''s''" "status (prior_manifest st) = st" "candidate (prior_manifest st) = Some sample_issue"
  "updated_at (prior_manifest st) = 0"
  by (simp_all add: claim_manifest_def prior_manifest_def new_manifest_def)

lemma created_payload_diff: "created_payload ''s'' \<noteq> created_payload ''r''"
  unfolding created_payload_def by (auto dest: event_payload_inj)

lemma created_event_hash: "ev_hash (created_event rid) = claim_sha (created_payload rid)"
  by (simp add: created_event_def new_event_def created_payload_def)

lemma created_hashes:
  "ev_hash (created_event ''r'') = tagged_hash (CHR ''1'')" "ev_hash (created_event ''s'') = tagged_hash (CHR ''2'')"
  by (simp_all add: created_event_hash claim_sha_def created_payload_diff)

lemma created_event_simps [simp]:
  "ev_run_id (created_event rid) = rid" "ev_previous_hash (created_event rid) = zeros"
  by (simp_all add: created_event_def)

lemma later_hash:
  assumes "etype \<noteq> ''run.created''"
  shows "claim_sha (event_payload rid t etype dts p) = tagged_hash (CHR ''3'')"
proof -
  have "event_payload rid t etype dts p \<noteq> created_payload k" for k
    using assms unfolding created_payload_def by (auto dest: event_payload_inj)
  then show ?thesis by (simp add: claim_sha_def)
qed

lemma claim_db_simps [simp]:
  "runs (claim_db st) = [discovering_row, prior_row st]" "events (claim_db st) = [created_event ''r'', created_event ''s'']"
  "candidate_retry_authorizations (claim_db st) = []" "manifest_artifact_sync (claim_db st) = Map.empty"
  "row_run_id discovering_row = ''r''" "row_run_id (prior_row st) = ''s''"
  by (simp_all add: claim_db_def create_schema_def discovering_row_def prior_row_def)

lemma claim_db_ok: "runs_ok (runs (claim_db st))"
  by (simp add: runs_ok_def run_row_ok_def discovering_row_def prior_row_def opt_all_def compute_issue_revision_def
      active_keys_def active_key.simps is_lower_hex_def is_digit_def)

lemma claim_db_wf: "store_wf claim_sha J (claim_db st)"
proof -
  have p: "payload_of (created_event rid) = created_payload rid" for rid
    by (simp add: payload_of_def created_event_def new_event_def created_payload_def)
  have h: "claim_sha (created_payload ''r'') = tagged_hash (CHR ''1'')" "claim_sha (created_payload ''s'') = tagged_hash (CHR ''2'')"
    using created_hashes by (simp_all add: created_event_hash)
  have hex: "is_lower_hex (CHR ''1'')" "is_lower_hex (CHR ''2'')"
    by (simp_all add: is_lower_hex_def is_digit_def)
  have "anchored claim_sha (claim_db st) discovering_row" "anchored claim_sha (claim_db st) (prior_row st)"
    by (simp_all add: anchored_def run_events_def created_hashes p h hex discovering_row_def prior_row_def)
  then have "ledger_sound claim_sha (claim_db st)"
    by (simp add: ledger_sound_def)
  then show ?thesis
    using claim_db_ok by (simp add: store_wf_def row_agrees_def marker_ok_def discovering_row_def prior_row_def)
qed

text \<open>The claim of the discovering run, with the operator's authorization where it needs one.\<close>

definition sample_authorization :: candidate_retry_authorization where
  "sample_authorization = \<lparr>auth_actor = ''op'', auth_reason = ''again''\<rparr>"

lemma sample_identity: "candidate_identity ''o/n'' 1 = Inr (''o/n'', 1)"
  by (simp add: candidate_identity_def repository_identity_def lease_identity_def strip_def rstrip_def is_space_def
      nul_char casefold_def fold_char_def count_char_def is_printable_def is_owner_name_def is_name_char_def is_digit_def)

lemma sample_validate [simp]:
  "validate_manifest ((new_manifest rid st c u)\<lparr>candidate := x\<rparr>) = Inr ((new_manifest rid st c u)\<lparr>candidate := x\<rparr>)"
  "validate_manifest ((new_manifest rid st c u)\<lparr>candidate := x, updated_at := t\<rparr>)
     = Inr ((new_manifest rid st c u)\<lparr>candidate := x, updated_at := t\<rparr>)"
  by (simp_all add: validate_manifest_def fields_valid_def remote_identity_complete_def new_manifest_def opt_all_def)

lemma sample_verified: "verified_issue_revision_row claim_sha (prior_row st)
    = Inr (''s'', st, Some (compute_issue_revision claim_sha sample_issue))"
proof -
  have "validate_manifest (prior_manifest st) = Inr (prior_manifest st)"
    by (simp add: prior_manifest_def)
  moreover have "lease_identity ''s'' f = Inr ''s''" for f
    by (simp add: lease_identity_def strip_def rstrip_def is_space_def nul_char)
  ultimately show ?thesis
    by (simp add: verified_issue_revision_row_def prior_row_def raise_from_def sample_identity stored_event_hash_def
        compute_issue_revision_def)
qed

abbreviation sample_revision :: string where
  "sample_revision \<equiv> compute_issue_revision claim_sha sample_issue"

lemma sample_attempts:
  "verified_attempts claim_sha (filter (\<lambda>r. row_run_id r \<noteq> ''r'') (runs (claim_db st))) ''o/n'' 1
     = Inr [(''s'', st, Some sample_revision)]"
proof -
  have "same_issue ''o/n'' 1 (prior_row st)"
    by (simp add: same_issue_def prior_row_def nocase_def)
  then show ?thesis
    by (simp add: verified_attempts_def attempt_rows_def sample_verified max_run_corpus_def)
qed

definition sample_retry :: retry_row where
  "sample_retry = \<lparr>retry_authorization_id = replicate 32 (CHR ''0''), retry_run_id = ''r'', retry_repository = ''o/n'',
     retry_issue_number = 1, retry_issue_revision = sample_revision, retry_prior_run_id = ''s'',
     retry_prior_status = REJECTED, retry_actor = ''op'', retry_reason = ''again'', retry_authorized_at = 1\<rparr>"

definition retry_db :: db where
  "retry_db = (claim_db REJECTED)\<lparr>candidate_retry_authorizations := [sample_retry]\<rparr>"

lemma sample_provenance:
  "claim_provenance (claim_db REJECTED) ''r'' sample_issue sample_revision (replicate 32 (CHR ''0'')) 1
     (Some ((''s'', REJECTED), sample_authorization))
   = Inr (retry_db, ''candidate.retry_override'', override_details sample_issue sample_retry, Some 1,
       disposition_of SUPPRESSED sample_revision (Some (''s'', REJECTED)))"
proof -
  have "check_retry_authorization sample_authorization = Inr (''op'', ''again'')"
    by (simp add: check_retry_authorization_def sample_authorization_def bounded_text_def strip_def rstrip_def
        is_space_def nul_char newline_def carriage_return_def char_of_def)
  then show ?thesis
    by (simp add: claim_provenance_def insert_retry_def retry_row_ok_def is_authorization_id_def is_lower_hex_def
        is_digit_def list_all_iff compute_issue_revision_def retry_db_def sample_retry_def Let_def)
qed

lemma sample_update:
  "\<exists>d'. claim_update claim_sha (\<lambda>_. []) retry_db (claim_manifest\<lparr>updated_at := 1\<rparr>) 0 discovering_row sample_issue
      sample_revision (''candidate.retry_override'', dts, Some 1) 1 = Inr d'
    \<and> manifest_artifact_sync d' ''r'' = Some \<lparr>sync_updated_at = 1, sync_manifest_sha256 = claim_sha []\<rparr>
    \<and> find_run d' ''r'' = Some ((claimed_row sample_issue sample_revision (claim_manifest\<lparr>updated_at := 1\<rparr>)
        discovering_row)\<lparr>row_event_count := 2, row_event_head := tagged_hash (CHR ''3'')\<rparr>)"
proof -
  have guard: "claim_guard 0 discovering_row" by (simp add: claim_guard_def discovering_row_def)
  have upd: "update_run (runs retry_db) ''r'' (\<lambda>r. claim_guard 0 r) (claimed_row sample_issue sample_revision (claim_manifest\<lparr>updated_at := 1\<rparr>))
      = ([claimed_row sample_issue sample_revision (claim_manifest\<lparr>updated_at := 1\<rparr>) discovering_row, prior_row REJECTED], 1)"
    by (simp add: update_run_def retry_db_def guard)
  have hex: "is_lower_hex (CHR ''1'')" "is_lower_hex (CHR ''2'')" "is_lower_hex (CHR ''3'')"
    by (simp_all add: is_lower_hex_def is_digit_def)
  have ok: "runs_ok [claimed_row sample_issue sample_revision (claim_manifest\<lparr>updated_at := 1\<rparr>)
       (discovering_row\<lparr>row_event_count := n, row_event_head := tagged_hash c\<rparr>), prior_row REJECTED]"
    if "0 \<le> n" "is_lower_hex c" for n c
    using that hex
    by (simp add: runs_ok_def run_row_ok_def opt_all_def claimed_row_def discovering_row_def prior_row_def
        compute_issue_revision_def active_keys_def active_key.simps is_active_def candidate_released_statuses_def)
  from ok [of 1 "CHR ''1''"] hex have ok1: "runs_ok [claimed_row sample_issue sample_revision (claim_manifest\<lparr>updated_at := 1\<rparr>)
       discovering_row, prior_row REJECTED]"
    by (simp add: discovering_row_def)
  from ok [of 2 "CHR ''3''"] hex have ok2: "runs_ok [(claimed_row sample_issue sample_revision (claim_manifest\<lparr>updated_at := 1\<rparr>)
       discovering_row)\<lparr>row_event_count := 2, row_event_head := tagged_hash (CHR ''3'')\<rparr>, prior_row REJECTED]"
    by (simp add: claimed_row_def discovering_row_def)
  have simps [simp]: "row_event_count (claimed_row c v m discovering_row) = 1"
    "row_event_head (claimed_row c v m discovering_row) = tagged_hash (CHR ''1'')"
    "row_run_id (claimed_row c v m r) = row_run_id r" "row_updated_at (claimed_row c v m r) = updated_at m"
    "row_manifest (claimed_row c v m r) = m" for c v m r
    by (simp_all add: claimed_row_def discovering_row_def)
  show ?thesis
    by (simp add: claim_update_def upd write_runs_def ok1 ok2 append_event_def find_run_def stored_event_count_def
        stored_event_hash_def run_events_def ledger_head_def insert_event_def events_ok_def created_hashes later_hash hex
        update_run_def mark_manifest_artifact_sync_def retry_db_def Let_def guard)
qed

lemma sample_claim:
  "\<exists>d' m'. claim_candidate claim_sha (\<lambda>_. []) (\<lambda>_. None) (claim_db REJECTED) claim_manifest claim_lease
     (Some sample_authorization) (replicate 32 (CHR ''0'')) 1 1 1 1
     = (d', m', Inr (disposition_of SUPPRESSED sample_revision (Some (''s'', REJECTED))))"
proof -
  have args: "claim_arguments claim_manifest claim_lease = Inr (sample_issue, ''o/n'', 1)"
    by (simp add: claim_arguments_def raise_from_def sample_identity claim_lease_def)
  have lease: "assert_candidate_claim_lease (claim_db REJECTED) claim_lease 1 = Inr ()"
    by (simp add: assert_candidate_claim_lease_def claim_lease_def claim_db_def create_schema_def stored_generation_def
        max_generation_def)
  have row: "find_run (claim_db REJECTED) ''r'' = Some discovering_row"
    by (simp add: find_run_def)
  have guard: "claim_guard 0 discovering_row" and m: "row_manifest discovering_row = new_manifest ''r'' DISCOVERING 0 0"
    by (simp_all add: claim_guard_def discovering_row_def)
  have prior: "claim_prior [(''s'', REJECTED, Some sample_revision)] sample_revision (Some sample_authorization)
      = Inr (Some ((''s'', REJECTED), sample_authorization))"
    by (simp add: claim_prior_def active_attempt_def suppressed_attempt_def candidate_released_statuses_def
        candidate_suppressed_statuses_def)
  obtain d1 where d1: "claim_update claim_sha (\<lambda>_. []) retry_db (claim_manifest\<lparr>updated_at := 1\<rparr>) 0 discovering_row sample_issue
      sample_revision (''candidate.retry_override'', override_details sample_issue sample_retry, Some 1) 1 = Inr d1"
    "manifest_artifact_sync d1 ''r'' = Some \<lparr>sync_updated_at = 1, sync_manifest_sha256 = claim_sha []\<rparr>"
    "find_run d1 ''r'' = Some ((claimed_row sample_issue sample_revision (claim_manifest\<lparr>updated_at := 1\<rparr>)
        discovering_row)\<lparr>row_event_count := 2, row_event_head := tagged_hash (CHR ''3'')\<rparr>)"
    using sample_update by blast
  have t: "claim_transaction claim_sha (\<lambda>_. []) (claim_db REJECTED) (claim_manifest\<lparr>updated_at := 1\<rparr>) 0 claim_lease
      (Some sample_authorization) sample_issue ''o/n'' 1 (replicate 32 (CHR ''0'')) 1 1 1
      = Inr (d1, disposition_of SUPPRESSED sample_revision (Some (''s'', REJECTED)))"
    using sample_attempts [of REJECTED] prior sample_provenance d1(1)
    by (simp add: claim_transaction_def lease row guard m raise_from_def Let_def
        del: claim_db_simps filter.simps)
  have v: "validate_manifest (claim_manifest\<lparr>updated_at := 1\<rparr>) = Inr (claim_manifest\<lparr>updated_at := 1\<rparr>)"
    by (simp add: claim_manifest_def)
  have "publish_artifact claim_sha (\<lambda>_. []) (\<lambda>_. None) d1 ''r'' 1 (claim_sha [])
      = Inr (d1\<lparr>manifest_files := (manifest_files d1)(''r'' \<mapsto> claim_manifest\<lparr>updated_at := 1\<rparr>),
          manifest_artifact_sync := (manifest_artifact_sync d1)(''r'' := None)\<rparr>, True)"
    using d1(2,3) v by (simp add: publish_artifact_def claimed_row_def)
  then show ?thesis
    by (simp add: claim_candidate_def args next_run_update_time_def t synchronize_manifest_artifact_def Let_def)
qed

lemma claim_binds_issue_witness:
  "\<exists>d' c r. candidate claim_manifest = Some c \<and> store_wf claim_sha (\<lambda>_. []) d' \<and> find_run d' ''r'' = Some r
    \<and> row_issue_revision r = Some (compute_issue_revision claim_sha c)"
proof -
  obtain d' m' where c: "claim_candidate claim_sha (\<lambda>_. []) (\<lambda>_. None) (claim_db REJECTED) claim_manifest claim_lease
     (Some sample_authorization) (replicate 32 (CHR ''0'')) 1 1 1 1
     = (d', m', Inr (disposition_of SUPPRESSED sample_revision (Some (''s'', REJECTED))))"
    using sample_claim by blast
  from claim_binds_issue [OF claim_db_wf c] show ?thesis by auto
qed

lemma claim_agrees_with_disposition_witness:
  "candidate_attempt_disposition claim_sha (claim_db REJECTED) sample_issue
     = Inr (disposition_of SUPPRESSED sample_revision (Some (''s'', REJECTED)))"
proof -
  obtain d' m' where c: "claim_candidate claim_sha (\<lambda>_. []) (\<lambda>_. None) (claim_db REJECTED) claim_manifest claim_lease
     (Some sample_authorization) (replicate 32 (CHR ''0'')) 1 1 1 1
     = (d', m', Inr (disposition_of SUPPRESSED sample_revision (Some (''s'', REJECTED))))"
    using sample_claim by blast
  show ?thesis
    by (rule claim_agrees_with_disposition [OF claim_db_wf sample_manifest_simps(3) c, THEN conjunct1])
qed

lemma retry_is_authorized_witness:
  "\<exists>d' :: db. \<exists>row e. candidate_retry_authorizations d' = [row] \<and> retry_prior_run_id row = ''s'' \<and> retry_actor row = ''op''
    \<and> events d' = [created_event ''r'', created_event ''s'', e] \<and> ev_type e = ''candidate.retry_override''"
proof -
  obtain d' m' where c: "claim_candidate claim_sha (\<lambda>_. []) (\<lambda>_. None) (claim_db REJECTED) claim_manifest claim_lease
     (Some sample_authorization) (replicate 32 (CHR ''0'')) 1 1 1 1
     = (d', m', Inr (disposition_of SUPPRESSED sample_revision (Some (''s'', REJECTED))))"
    using sample_claim by blast
  from retry_is_authorized [OF claim_db_wf sample_manifest_simps(3) c] obtain r row e where
    r: "r \<in> set (runs (claim_db REJECTED))" "row_status r \<in> candidate_suppressed_statuses"
      "retry_prior_run_id row = row_run_id r"
    and e: "candidate_retry_authorizations d' = [row]" "retry_actor row = ''op''"
      "events d' = [created_event ''r'', created_event ''s'', e]" "ev_type e = ''candidate.retry_override''"
    by (auto simp: sample_authorization_def)
  from r have "retry_prior_run_id row = ''s''"
    by (auto simp: discovering_row_def candidate_suppressed_statuses_def)
  with e show ?thesis by (intro exI [of _ d'] exI [of _ row] exI [of _ e]) simp
qed

lemma claim_respects_history_witness:
  "\<exists>e. claim_candidate claim_sha (\<lambda>_. []) (\<lambda>_. None) (claim_db VALIDATING) claim_manifest claim_lease None [] 1 1 1 1
     = (claim_db VALIDATING, claim_manifest, Inl e)"
  by (rule claim_respects_history [OF claim_db_wf sample_manifest_simps(3), of "prior_row VALIDATING"])
     (simp_all add: same_issue_def prior_row_def is_active_def candidate_released_statuses_def)

lemma disposition_classifies_witness:
  "\<exists>x. disp_issue_revision x = sample_revision \<and> disp_state x = SUPPRESSED
    \<and> candidate_attempt_disposition claim_sha (claim_db REJECTED) sample_issue = Inr x"
proof -
  have same: "same_issue ''o/n'' 1 (prior_row REJECTED)" "\<not> same_issue ''o/n'' 1 discovering_row"
    by (simp_all add: same_issue_def prior_row_def discovering_row_def nocase_def)
  then have v: "verified_attempts claim_sha (runs (claim_db REJECTED)) ''o/n'' 1 = Inr [(''s'', REJECTED, Some sample_revision)]"
    by (simp add: verified_attempts_def attempt_rows_def sample_verified max_run_corpus_def)
  then obtain x where x: "candidate_attempt_disposition claim_sha (claim_db REJECTED) sample_issue = Inr x"
    by (simp add: candidate_attempt_disposition_def sample_identity Let_def)
  from disposition_classifies [OF claim_db_wf x] same have "disp_issue_revision x = sample_revision \<and> disp_state x = SUPPRESSED"
    by (auto simp: prior_row_def is_active_def candidate_released_statuses_def candidate_suppressed_statuses_def)
  with x show ?thesis by blast
qed

lemma lost_lease_cannot_claim_witness:
  "\<exists>e. claim_candidate claim_sha (\<lambda>_. []) (\<lambda>_. None) (claim_db REJECTED) claim_manifest
      (claim_lease\<lparr>lease_generation := 0\<rparr>) None [] 1 1 1 1 = (claim_db REJECTED, claim_manifest, Inl e)"
  by (rule lost_lease_cannot_claim [OF lease_history.empty, of _ 1])
     (simp_all add: lease_wf_def claim_db_def create_schema_def claim_lease_def max_generation_def split: if_splits)

end
