(* ===== verification/Calendar.thy ===== *)
theory Calendar
  imports Timestamps "HOL-Library.Monad_Syntax"
begin

text \<open>
  Stored timestamps as texts: \<open>datetime.fromisoformat\<close> on the one format the store writes (the
  output of \<open>isoformat()\<close> of an aware UTC time), that it reads back what \<open>isoformat\<close> wrote, and
  that the order of the texts, by which SQLite compares them, is the order of the instants.  The
  models of the tables therefore keep instants where the database has texts.
\<close>

section \<open>Reading a timestamp\<close>

definition is_leap :: "nat \<Rightarrow> bool" where
  "is_leap y \<longleftrightarrow> y mod 4 = 0 \<and> (y mod 100 \<noteq> 0 \<or> y mod 400 = 0)"

definition days_before_year :: "nat \<Rightarrow> nat" where
  "days_before_year y = (let x = y - 1 in x * 365 + x div 4 + x div 400 - x div 100)"

definition days_before_month :: "nat \<Rightarrow> nat \<Rightarrow> nat" where
  "days_before_month y m = sum_list (take (m - 1) (month_lengths (is_leap y)))"

definition ordinal :: "nat \<times> nat \<times> nat \<Rightarrow> nat" where
  "ordinal ymd = (case ymd of (y, m, d) \<Rightarrow> days_before_year y + days_before_month y m + (d - 1))"

definition valid_date :: "nat \<times> nat \<times> nat \<Rightarrow> bool" where
  "valid_date ymd = (case ymd of (y, m, d) \<Rightarrow> 1 \<le> y \<and> 1 \<le> m \<and> m \<le> 12 \<and> 1 \<le> d
     \<and> d \<le> month_lengths (is_leap y) ! (m - 1))"

fun read_num :: "nat \<Rightarrow> nat \<Rightarrow> string \<Rightarrow> (nat \<times> string) option" where
  "read_num 0 acc s = Some (acc, s)"
| "read_num (Suc w) acc [] = None"
| "read_num (Suc w) acc (c # s) = (if is_digit c then read_num w (10 * acc + (code c - 48)) s else None)"

definition expect :: "char \<Rightarrow> string \<Rightarrow> string option" where
  "expect c s = (case s of [] \<Rightarrow> None | x # r \<Rightarrow> if x = c then Some r else None)"

definition read_fraction :: "string \<Rightarrow> (nat \<times> string) option" where
  "read_fraction s = (case expect (CHR ''.'') s of None \<Rightarrow> Some (0, s) | Some r \<Rightarrow> read_num 6 0 r)"

definition fromisoformat :: "string \<Rightarrow> instant option" where
  "fromisoformat s = do {
     (y, s) \<leftarrow> read_num 4 0 s; s \<leftarrow> expect (CHR ''-'') s;
     (m, s) \<leftarrow> read_num 2 0 s; s \<leftarrow> expect (CHR ''-'') s;
     (d, s) \<leftarrow> read_num 2 0 s; s \<leftarrow> expect (CHR ''T'') s;
     (hh, s) \<leftarrow> read_num 2 0 s; s \<leftarrow> expect (CHR '':'') s;
     (mm, s) \<leftarrow> read_num 2 0 s; s \<leftarrow> expect (CHR '':'') s;
     (ss, s) \<leftarrow> read_num 2 0 s;
     (us, s) \<leftarrow> read_fraction s;
     if valid_date (y, m, d) \<and> hh < 24 \<and> mm < 60 \<and> ss < 60 \<and> s = ''+00:00''
     then Some (int (ordinal (y, m, d)) * day + int (hh * 3600 + mm * 60 + ss) * second + int us)
     else None }"

section \<open>Numerals of a fixed width\<close>

lemma digit_char_less: "a < 10 \<Longrightarrow> b < 10 \<Longrightarrow> digit_char a < digit_char b \<longleftrightarrow> a < b"
  by (auto simp: less_Suc_eq numeral_eq_Suc digit_char_def less_char_def)

lemma digit_char_value: "a < 10 \<Longrightarrow> is_digit (digit_char a) \<and> code (digit_char a) - 48 = a"
  by (auto simp: less_Suc_eq numeral_eq_Suc digit_char_def is_digit_def)

lemma length_nat_text: "n < 10 ^ Suc w \<Longrightarrow> length (nat_text n) \<le> Suc w"
proof (induction w arbitrary: n)
  case (Suc w)
  then have "n div 10 < 10 ^ Suc w" by (simp add: less_mult_imp_div_less mult.commute)
  with Suc.IH show ?case by (simp add: nat_text.simps [of n])
qed (simp add: nat_text.simps)

lemma padded_one: "n < 10 \<Longrightarrow> padded (Suc 0) n = [digit_char n]"
  by (simp add: padded_def nat_text.simps)

lemma padded_Suc:
  assumes "0 < w"
  shows "padded (Suc w) n = padded w (n div 10) @ [digit_char (n mod 10)]"
proof (cases "n < 10")
  case True
  with assms show ?thesis
    by (cases w) (simp_all add: padded_def nat_text.simps digit_char_def replicate_append_same)
next
  case False
  then show ?thesis by (simp add: padded_def nat_text.simps [of n] Let_def)
qed

lemma length_padded: "n < 10 ^ Suc w \<Longrightarrow> length (padded (Suc w) n) = Suc w"
  using length_nat_text by (simp add: padded_def Let_def)

lemma read_num_append:
  "read_num (a + b) acc s = Option.bind (read_num a acc s) (\<lambda>(x, r). read_num b x r)"
  by (induction a acc s rule: read_num.induct) auto

lemma read_num_padded: "n < 10 ^ Suc w \<Longrightarrow> read_num (Suc w) acc (padded (Suc w) n @ r) = Some (acc * 10 ^ Suc w + n, r)"
proof (induction w arbitrary: n r)
  case 0
  then show ?case by (simp add: padded_one digit_char_value)
next
  case (Suc w)
  define P where "P = (10 :: nat) ^ Suc w"
  from Suc.prems have "n div 10 < P" by (simp add: P_def less_mult_imp_div_less mult.commute)
  then have first: "read_num (Suc w) acc (padded (Suc w) (n div 10) @ r') = Some (acc * P + n div 10, r')" for r'
    using Suc.IH unfolding P_def by blast
  have one: "read_num (Suc 0) x ([digit_char (n mod 10)] @ r) = Some (10 * x + n mod 10, r)" for x
    by (simp add: digit_char_value)
  have "read_num (Suc (Suc w)) acc (padded (Suc (Suc w)) n @ r) = read_num (Suc w + Suc 0) acc (padded (Suc (Suc w)) n @ r)"
    by simp
  also have "\<dots> = Some (10 * (acc * P + n div 10) + n mod 10, r)"
    unfolding read_num_append padded_Suc [OF zero_less_Suc] append_assoc first bind.bind_lunit prod.case
    using one by (simp del: read_num.simps)
  also have "10 * (acc * P + n div 10) + n mod 10 = acc * (10 * P) + n"
    using div_mult_mod_eq [of n 10] by (simp add: distrib_left)
  finally show ?case by (simp add: P_def)
qed

text \<open>Texts compare by their first different part, as long as the parts have fixed widths.\<close>

lemma less_append:
  fixes xs ys :: string
  assumes "length xs = length ys"
  shows "xs @ zs < ys @ ws \<longleftrightarrow> xs < ys \<or> xs = ys \<and> zs < ws"
  using assms by (induction xs ys rule: list_induct2) auto

lemma lex_digits: "r < k \<Longrightarrow> s < k \<Longrightarrow> k * x + r < k * y + s \<longleftrightarrow> x < y \<or> x = y \<and> r < s"
  for r s k x y :: nat
proof (cases x y rule: linorder_cases)
  case less
  assume "r < k" "s < k"
  have "k * Suc x \<le> k * y" using less by (intro mult_le_mono2) simp
  with \<open>r < k\<close> less show ?thesis by simp
next
  case greater
  assume "r < k" "s < k"
  have "k * Suc y \<le> k * x" using greater by (intro mult_le_mono2) simp
  with \<open>s < k\<close> greater show ?thesis by simp
qed simp

lemma padded_less: "a < 10 ^ Suc w \<Longrightarrow> b < 10 ^ Suc w \<Longrightarrow> padded (Suc w) a < padded (Suc w) b \<longleftrightarrow> a < b"
proof (induction w arbitrary: a b)
  case 0
  then show ?case by (simp add: padded_one digit_char_less)
next
  case (Suc w)
  then have d: "a div 10 < 10 ^ Suc w" "b div 10 < 10 ^ Suc w"
    by (simp_all add: less_mult_imp_div_less mult.commute)
  have eq: "padded (Suc w) (a div 10) = padded (Suc w) (b div 10) \<longleftrightarrow> a div 10 = b div 10"
    using Suc.IH [OF d] Suc.IH [OF d(2,1)] by (metis less_irrefl linorder_neqE_nat)
  have "a div 10 < b div 10 \<or> a div 10 = b div 10 \<and> a mod 10 < b mod 10 \<longleftrightarrow> a < b"
    using lex_digits [of "a mod 10" 10 "b mod 10" "a div 10" "b div 10"] by simp
  then show ?case
    unfolding padded_Suc [OF zero_less_Suc]
    using less_append [of "padded (Suc w) (a div 10)" "padded (Suc w) (b div 10)"] length_padded d
    by (simp add: Suc.IH [OF d] eq digit_char_less)
qed

lemma padded_eq: "a < 10 ^ Suc w \<Longrightarrow> b < 10 ^ Suc w \<Longrightarrow> padded (Suc w) a = padded (Suc w) b \<longleftrightarrow> a = b"
  using padded_less [of a w b] padded_less [of b w a] by (metis less_irrefl linorder_neqE_nat)

section \<open>The calendar is inverted\<close>

lemma month_day_inverse:
  "ls \<noteq> [] \<Longrightarrow> d < sum_list ls \<Longrightarrow> \<exists>i e. month_day m ls d = (m + i, e) \<and> i < length ls
     \<and> 1 \<le> e \<and> e \<le> ls ! i \<and> sum_list (take i ls) + (e - 1) = d"
proof (induction m ls d rule: month_day.induct)
  case (2 m l ls d)
  show ?case
  proof (cases "d < l \<or> ls = []")
    case True
    with 2 show ?thesis by (intro exI [of _ 0] exI [of _ "d + 1"]) auto
  next
    case False
    then have "ls \<noteq> []" "d - l < sum_list ls" using 2(3) by auto
    from 2(1) [OF False this] obtain i e where "month_day (m + 1) ls (d - l) = (m + 1 + i, e) \<and> i < length ls
     \<and> 1 \<le> e \<and> e \<le> ls ! i \<and> sum_list (take i ls) + (e - 1) = d - l"
      by blast
    with False show ?thesis by (intro exI [of _ "Suc i"] exI [of _ e]) auto
  qed
qed simp

lemma sum_month_lengths: "sum_list (month_lengths leap) = (if leap then 366 else 365)"
  by (simp add: month_lengths_def)

lemma length_month_lengths [simp]: "length (month_lengths leap) = 12"
  by (simp add: month_lengths_def)

text \<open>The cycles of 400, 100, 4 and 1 years that \<open>civil\<close> splits a day number into.\<close>

lemma year_of_cycles:
  fixes n400 n100 n4 n1 :: nat
  assumes "n100 \<le> 3" and "n4 \<le> 24" and "n1 \<le> 3"
  defines "y \<equiv> n400 * 400 + n100 * 100 + n4 * 4 + n1 + 1"
  shows "days_before_year y = n400 * 146097 + n100 * 36524 + n4 * 1461 + n1 * 365"
    and "is_leap y \<longleftrightarrow> n1 = 3 \<and> (n4 \<noteq> 24 \<or> n100 = 3)"
proof -
  have d4: "(y - 1) div 4 = n400 * 100 + n100 * 25 + n4"
    using assms by simp
  have d100: "(y - 1) div 100 = n400 * 4 + n100"
    using assms by (simp add: div_nat_eqI)
  have d400: "(y - 1) div 400 = n400"
    using assms by (simp add: div_nat_eqI)
  show "days_before_year y = n400 * 146097 + n100 * 36524 + n4 * 1461 + n1 * 365"
    unfolding days_before_year_def Let_def d4 d100 d400 using assms by simp
  have m4: "y mod 4 = (n1 + 1) mod 4"
  proof -
    have "y = (n1 + 1) + (n400 * 100 + n100 * 25 + n4) * 4" using assms by simp
    then show ?thesis by (metis mod_mult_self1)
  qed
  have m100: "y mod 100 = (n4 * 4 + n1 + 1) mod 100"
  proof -
    have "y = (n4 * 4 + n1 + 1) + (n400 * 4 + n100) * 100" using assms by simp
    then show ?thesis by (metis mod_mult_self1)
  qed
  have m400: "y mod 400 = (n100 * 100 + n4 * 4 + n1 + 1) mod 400"
  proof -
    have "y = (n100 * 100 + n4 * 4 + n1 + 1) + n400 * 400" using assms by simp
    then show ?thesis by (metis mod_mult_self1)
  qed
  have "n1 = 0 \<or> n1 = 1 \<or> n1 = 2 \<or> n1 = 3" using assms(3) by linarith
  then have c1: "(n1 + 1) mod 4 = 0 \<longleftrightarrow> n1 = 3" by (elim disjE) simp_all
  have c100: "(n4 * 4 + n1 + 1) mod 100 = 0 \<longleftrightarrow> n4 = 24" if "n1 = 3"
    using that assms(2) by (cases "n4 = 24") auto
  have c400: "(n100 * 100 + n4 * 4 + n1 + 1) mod 400 = 0 \<longleftrightarrow> n100 = 3" if "n1 = 3" "n4 = 24"
    using that assms(1) by (cases "n100 = 3") auto
  show "is_leap y \<longleftrightarrow> n1 = 3 \<and> (n4 \<noteq> 24 \<or> n100 = 3)"
    unfolding is_leap_def m4 m100 m400 using c1 c100 c400 by (cases "n1 = 3"; cases "n4 = 24") simp_all
qed

lemma ordinal_civil: "ordinal (civil n) = n \<and> valid_date (civil n)"
proof -
  define n400 a where "n400 = n div 146097" and "a = n mod 146097"
  define n100 b where "n100 = a div 36524" and "b = a mod 36524"
  define n4 c where "n4 = b div 1461" and "c = b mod 1461"
  define n1 d where "n1 = c div 365" and "d = c mod 365"
  define y where "y = n400 * 400 + n100 * 100 + n4 * 4 + n1 + 1"
  have n: "n = n400 * 146097 + a" and ab: "a = n100 * 36524 + b" and bc: "b = n4 * 1461 + c" and cd: "c = n1 * 365 + d"
    by (simp_all add: n400_def a_def n100_def b_def n4_def c_def n1_def d_def)
  have lt: "a < 146097" "b < 36524" "c < 1461" "d < 365"
    by (simp_all add: a_def b_def c_def d_def)
  have le: "n100 \<le> 4" "n4 \<le> 24" "n1 \<le> 4" and four: "n100 = 4 \<Longrightarrow> b = 0" "n1 = 4 \<Longrightarrow> d = 0 \<and> n4 \<le> 23"
    using ab bc cd lt by linarith+
  have civil: "civil n = (if n1 = 4 \<or> n100 = 4 then (y - 1, 12, 31)
      else (y, month_day 1 (month_lengths (n1 = 3 \<and> (n4 \<noteq> 24 \<or> n100 = 3))) d))"
    by (simp add: civil_def Let_def n400_def n100_def n4_def n1_def d_def c_def b_def a_def y_def)
  have last: "days_before_month x 12 = 334 + (if is_leap x then 1 else 0)" for x
    by (simp add: days_before_month_def month_lengths_def numeral_eq_Suc)
  have valid: "valid_date (x, 12, 31)" if "1 \<le> x" for x
    using that by (simp add: valid_date_def month_lengths_def numeral_eq_Suc)
  show ?thesis
  proof (cases "n1 = 4 \<or> n100 = 4")
    case True
    show ?thesis
    proof (cases "n100 = 4")
      case True
      then have "n4 = 0" "n1 = 0" "d = 0" using four bc cd by auto
      with True have y: "y - 1 = n400 * 400 + 3 * 100 + 24 * 4 + 3 + 1" by (simp add: y_def)
      have "ordinal (y - 1, 12, 31) = n"
        unfolding ordinal_def prod.case last y
        using year_of_cycles [of 3 24 3 n400] n ab True four(1) by simp
      with True valid [of "y - 1"] y show ?thesis by (simp add: civil)
    next
      case False
      with True have n1: "n1 = 4" by simp
      then have y: "y - 1 = n400 * 400 + n100 * 100 + n4 * 4 + 3 + 1" by (simp add: y_def)
      have "ordinal (y - 1, 12, 31) = n"
        unfolding ordinal_def prod.case last y
        using year_of_cycles [of n100 n4 3 n400] n ab bc cd four(2) n1 le False by simp
      with n1 valid [of "y - 1"] y show ?thesis by (simp add: civil)
    qed
  next
    case False
    with le have le3: "n100 \<le> 3" "n1 \<le> 3" by simp_all
    note yc = year_of_cycles [OF le3(1) le(2) le3(2), of n400, folded y_def]
    have "d < sum_list (month_lengths (is_leap y))" using lt(4) by (simp add: sum_month_lengths)
    moreover have "month_lengths (is_leap y) \<noteq> []" by (simp add: month_lengths_def)
    ultimately obtain i e where ie: "month_day 1 (month_lengths (is_leap y)) d = (1 + i, e)" "i < 12"
      "1 \<le> e" "e \<le> month_lengths (is_leap y) ! i" "sum_list (take i (month_lengths (is_leap y))) + (e - 1) = d"
      using month_day_inverse [of "month_lengths (is_leap y)" d 1] by auto
    have "civil n = (y, 1 + i, e)"
      using False ie(1) by (simp add: civil yc(2))
    moreover have "1 \<le> y" by (simp add: y_def)
    ultimately show ?thesis
      using ie n ab bc cd by (simp add: ordinal_def valid_date_def days_before_month_def yc(1))
  qed
qed

section \<open>Dates are ordered like their day numbers\<close>

definition date_less :: "nat \<times> nat \<times> nat \<Rightarrow> nat \<times> nat \<times> nat \<Rightarrow> bool" where
  "date_less a b = (case (a, b) of ((y, m, d), (y', m', d')) \<Rightarrow>
     y < y' \<or> y = y' \<and> (m < m' \<or> m = m' \<and> d < d'))"

lemma days_before_year_Suc:
  assumes "1 \<le> y"
  shows "days_before_year (Suc y) = days_before_year y + (if is_leap y then 366 else 365)"
proof -
  obtain x where y: "y = Suc x" using assms by (cases y) auto
  have cancel: "(k + 365) + a' + c' - b' = (k + a + c - b) + (365 + r)"
    if "b \<le> a" "b' \<le> a'" "a' + c' + b = a + c + b' + r" for a b c a' b' c' k r :: nat
    using that by linarith
  have sub: "x div 100 \<le> x div 4" "Suc x div 100 \<le> Suc x div 4" by (simp_all add: div_le_mono2)
  have leap: "y mod 100 = 0 \<Longrightarrow> y mod 4 = 0" "y mod 400 = 0 \<Longrightarrow> y mod 100 = 0"
    by (simp_all add: mod_eq_0_iff_dvd dvd_trans [of 4 100] dvd_trans [of 100 400])
  have eq: "Suc x div 4 + Suc x div 400 + x div 100 = x div 4 + x div 400 + Suc x div 100 + (if is_leap y then 1 else 0)"
    using leap by (simp add: div_Suc y is_leap_def split: if_splits)
  have "days_before_year (Suc y) = x * 365 + 365 + Suc x div 4 + Suc x div 400 - Suc x div 100"
    by (simp add: days_before_year_def y)
  also have "\<dots> = days_before_year y + (365 + (if is_leap y then 1 else 0))"
    unfolding cancel [OF sub eq, of "x * 365"] by (simp add: days_before_year_def y)
  finally show ?thesis by simp
qed

lemma days_before_year_mono: "y < y' \<Longrightarrow> 1 \<le> y \<Longrightarrow> days_before_year y + (if is_leap y then 366 else 365) \<le> days_before_year y'"
proof (induction y')
  case (Suc y')
  show ?case
  proof (cases "y = y'")
    case False
    with Suc have "days_before_year y + (if is_leap y then 366 else 365) \<le> days_before_year y'" "1 \<le> y'" by simp_all
    then show ?thesis using days_before_year_Suc [of y'] by simp
  qed (use Suc days_before_year_Suc [of y] in simp)
qed simp

lemma sum_take_mono: "i \<le> j \<Longrightarrow> sum_list (take i xs) \<le> sum_list (take j xs)" for xs :: "nat list"
proof (induction xs arbitrary: i j)
  case (Cons x xs)
  then show ?case by (cases i; cases j) auto
qed simp

lemma sum_take_Suc: "i < length xs \<Longrightarrow> sum_list (take (Suc i) xs) = sum_list (take i xs) + xs ! i" for xs :: "nat list"
  by (simp add: take_Suc_conv_app_nth)

lemma day_of_month:
  assumes "valid_date (y, m, d)"
  shows "days_before_month y m + (d - 1) < days_before_month y (m + 1)"
proof -
  from assms have m: "1 \<le> m" "m - 1 < 12" "1 \<le> d" "d \<le> month_lengths (is_leap y) ! (m - 1)"
    by (auto simp: valid_date_def)
  then have "days_before_month y (m + 1) = days_before_month y m + month_lengths (is_leap y) ! (m - 1)"
    using sum_take_Suc [of "m - 1" "month_lengths (is_leap y)"] by (simp add: days_before_month_def)
  with m show ?thesis by simp
qed

lemma day_of_year:
  assumes "valid_date (y, m, d)"
  shows "days_before_month y m + (d - 1) < (if is_leap y then 366 else 365)"
proof -
  have "m + 1 - 1 \<le> 12" using assms by (simp add: valid_date_def)
  then have "days_before_month y (m + 1) \<le> sum_list (month_lengths (is_leap y))"
    using sum_take_mono [of m 12 "month_lengths (is_leap y)"] by (simp add: days_before_month_def)
  with day_of_month [OF assms] show ?thesis by (simp add: sum_month_lengths)
qed

lemma ordinal_less:
  assumes "valid_date a" and "valid_date b" and "date_less a b"
  shows "ordinal a < ordinal b"
proof -
  obtain y m d y' m' d' where ab: "a = (y, m, d)" "b = (y', m', d')" by (cases a, cases b) blast
  consider "y < y'" | "y = y'" "m < m'" | "y = y'" "m = m'" "d < d'"
    using assms(3) by (auto simp: ab date_less_def)
  then show ?thesis
  proof cases
    case 1
    moreover have "1 \<le> y" using assms(1) by (simp add: ab valid_date_def)
    ultimately show ?thesis
      using days_before_year_mono [of y y'] day_of_year [of y m d] assms(1) by (simp add: ab ordinal_def)
  next
    case 2
    then have "days_before_month y (m + 1) \<le> days_before_month y' m'"
      by (simp add: days_before_month_def sum_take_mono)
    then show ?thesis
      using 2 day_of_month [of y m d] assms(1) by (simp add: ab ordinal_def)
  next
    case 3
    moreover have "1 \<le> d" using assms(1) by (simp add: ab valid_date_def)
    ultimately have "d - 1 < d' - 1" by simp
    with 3 show ?thesis by (simp add: ab ordinal_def)
  qed
qed

lemma date_less_linear: "date_less a b \<or> a = b \<or> date_less b a"
  by (auto simp: date_less_def split: prod.splits)

lemma civil_less: "date_less (civil n) (civil k) \<longleftrightarrow> n < k"
  using ordinal_less [of "civil n" "civil k"] ordinal_less [of "civil k" "civil n"] ordinal_civil [of n] ordinal_civil [of k]
    date_less_linear [of "civil n" "civil k"] by (metis less_asym less_irrefl)

lemma civil_eq: "civil n = civil k \<longleftrightarrow> n = k"
  by (metis ordinal_civil)

text \<open>Within the supported range the year has four digits.\<close>

lemma civil_range:
  assumes "n < 3652059" and "civil n = (y, m, d)"
  shows "y < 10000 \<and> m < 100 \<and> d < 100 \<and> valid_date (y, m, d)"
proof -
  have o: "ordinal (y, m, d) = n" and v: "valid_date (y, m, d)" using ordinal_civil [of n] assms(2) by auto
  have "y < 10000"
  proof (rule ccontr)
    assume "\<not> y < 10000"
    then have "days_before_year 10000 \<le> days_before_year y"
      using days_before_year_mono [of 10000 y] by (cases "y = 10000") (auto split: if_splits)
    moreover have "days_before_year 10000 = 3652059" by (simp add: days_before_year_def)
    ultimately show False using o assms(1) by (simp add: ordinal_def)
  qed
  moreover have "m - 1 < 12" using v by (auto simp: valid_date_def)
  then have "month_lengths (is_leap y) ! (m - 1) \<le> 31"
    by (auto simp: month_lengths_def nth_Cons' split: if_splits)
  ultimately show ?thesis using v by (auto simp: valid_date_def)
qed

section \<open>Texts and instants\<close>

definition supported :: "instant \<Rightarrow> bool" where
  "supported t \<longleftrightarrow> 0 \<le> t \<and> t \<le> max_instant"

text \<open>The widths that occur in a timestamp.\<close>

lemma Suc_widths: "Suc 3 = 4" "Suc 1 = 2" "Suc 5 = 6"
  by simp_all

lemmas width4 = length_padded [of _ 3, unfolded Suc_widths] padded_less [of _ 3, unfolded Suc_widths]
  padded_eq [of _ 3, unfolded Suc_widths]

lemmas width2 = length_padded [of _ 1, unfolded Suc_widths] padded_less [of _ 1, unfolded Suc_widths]
  padded_eq [of _ 1, unfolded Suc_widths]

lemmas width6 = length_padded [of _ 5, unfolded Suc_widths] padded_less [of _ 5, unfolded Suc_widths]
  padded_eq [of _ 5, unfolded Suc_widths]

text \<open>The parts of a supported instant, each within the width its numeral has.\<close>

lemma instant_parts:
  assumes "supported t"
  obtains y m d hh mm ss us where "civil (nat (t div day)) = (y, m, d)" and "valid_date (y, m, d)"
    and "y < 10 ^ 4" and "m < 10 ^ 2" and "d < 10 ^ 2"
    and "hh < 24" and "mm < 60" and "ss < 60" and "us < 10 ^ 6"
    and "nat (t mod day div second) = hh * 3600 + mm * 60 + ss" and "nat (t mod second) = us"
    and "t = int (nat (t div day)) * day + int (hh * 3600 + mm * 60 + ss) * second + int us"
    and "iso_seconds t = padded 4 y @ ''-'' @ padded 2 m @ ''-'' @ padded 2 d @ ''T'' @ padded 2 hh
      @ '':'' @ padded 2 mm @ '':'' @ padded 2 ss"
proof -
  define n s us where "n = nat (t div day)" and "s = nat (t mod day div second)" and "us = nat (t mod second)"
  have dpos: "0 < day" "0 < second" by (simp_all add: day_def second_def)
  have n: "int n = t div day" and n': "n < 3652059"
  proof -
    show i: "int n = t div day"
      using assms dpos by (simp add: n_def supported_def pos_imp_zdiv_nonneg_iff)
    have "t div day \<le> max_instant div day"
      using assms dpos by (simp add: supported_def zdiv_mono1)
    also have "\<dots> < 3652059" by (simp add: max_instant_def day_def second_def)
    finally have "t div day < 3652059" .
    then show "n < 3652059" using i by linarith
  qed
  have s: "int s = t mod day div second" "s < 86400"
  proof -
    have b: "0 \<le> t mod day" "t mod day < day" using dpos by simp_all
    show i: "int s = t mod day div second"
      using b dpos by (simp add: s_def pos_imp_zdiv_nonneg_iff)
    have "t mod day div second < 86400" using b by (simp add: day_def second_def)
    then show "s < 86400" using i by linarith
  qed
  have us: "int us = t mod second" "us < 1000000"
  proof -
    have b: "0 \<le> t mod second" "t mod second < second" using dpos by simp_all
    show i: "int us = t mod second" using b by (simp add: us_def)
    then show "us < 1000000" using b by (simp add: second_def)
  qed
  have mm: "t mod day mod second = t mod second"
    by (simp add: day_def second_def mod_mod_cancel)
  obtain y m d where c: "civil n = (y, m, d)" by (cases "civil n") auto
  from civil_range [OF n' c] have r: "y < 10000" "m < 100" "d < 100" "valid_date (y, m, d)" by simp_all
  have split: "s = (s div 3600) * 3600 + (s div 60 mod 60) * 60 + s mod 60"
  proof -
    have "s div 3600 = s div 60 div 60" by (simp add: div_mult2_eq)
    then show ?thesis using div_mult_mod_eq [of "s div 60" 60] div_mult_mod_eq [of s 60] by linarith
  qed
  have hours: "s div 3600 < 24" using s(2) by (simp add: less_mult_imp_div_less)
  have whole: "t = int n * day + int s * second + int us"
    unfolding n s(1) us(1) using div_mult_mod_eq [of t day] div_mult_mod_eq [of "t mod day" second]
    unfolding mm by linarith
  have iso: "iso_seconds t = padded 4 y @ ''-'' @ padded 2 m @ ''-'' @ padded 2 d @ ''T'' @ padded 2 (s div 3600)
      @ '':'' @ padded 2 (s div 60 mod 60) @ '':'' @ padded 2 (s mod 60)"
    unfolding iso_seconds_def Let_def n_def [symmetric] s_def [symmetric] c by simp
  show thesis
    by (rule that [of y m d "s div 3600" "s div 60 mod 60" "s mod 60" us, folded n_def s_def us_def,
        OF c r(4) _ _ _ hours _ _ _ split refl _ iso])
       (use r(1-3) us(2) whole in \<open>simp_all flip: split\<close>)
qed

lemma expect_Cons [simp]: "expect c (c # s) = Some s"
  by (simp add: expect_def)

lemma read_widths:
  "y < 10 ^ 4 \<Longrightarrow> read_num 4 0 (padded 4 y @ r) = Some (y, r)"
  "m < 10 ^ 2 \<Longrightarrow> read_num 2 0 (padded 2 m @ r) = Some (m, r)"
  "u < 10 ^ 6 \<Longrightarrow> read_num 6 0 (padded 6 u @ r) = Some (u, r)"
  using read_num_padded [of y 3 0 r, unfolded Suc_widths] read_num_padded [of m 1 0 r, unfolded Suc_widths]
    read_num_padded [of u 5 0 r, unfolded Suc_widths]
  by simp_all

text \<open>
  A UTC instant of the years 1 to 9999, written by isoformat, is read back as the same
  instant.
\<close>

lemma isoformat_read_back':
  assumes "supported t"
  shows "fromisoformat (isoformat t) = Some t"
proof -
  from assms obtain y m d hh mm ss us where c: "civil (nat (t div day)) = (y, m, d)" "valid_date (y, m, d)"
    and w: "y < 10 ^ 4" "m < 10 ^ 2" "d < 10 ^ 2" "us < 10 ^ 6"
    and hms: "hh < 24" "mm < 60" "ss < 60"
    and us: "nat (t mod second) = us"
    and t: "t = int (nat (t div day)) * day + int (hh * 3600 + mm * 60 + ss) * second + int us"
    and iso: "iso_seconds t = padded 4 y @ ''-'' @ padded 2 m @ ''-'' @ padded 2 d @ ''T'' @ padded 2 hh
      @ '':'' @ padded 2 mm @ '':'' @ padded 2 ss"
    by (rule instant_parts)
  have o: "ordinal (y, m, d) = nat (t div day)" using ordinal_civil [of "nat (t div day)"] c by simp
  have w2: "hh < 10 ^ 2" "mm < 10 ^ 2" "ss < 10 ^ 2" using hms by simp_all
  have frac: "read_fraction ((if us = 0 then '''' else ''.'' @ padded 6 us) @ ''+00:00'') = Some (us, ''+00:00'')"
    using read_widths(3) [OF w(4)] by (simp add: read_fraction_def expect_def)
  show ?thesis
    unfolding fromisoformat_def isoformat_def us Let_def iso append_assoc append_Cons append_Nil
      read_widths(1) [OF w(1)] read_widths(2) [OF w(2)] read_widths(2) [OF w(3)] read_widths(2) [OF w2(1)]
      read_widths(2) [OF w2(2)] read_widths(2) [OF w2(3)] expect_Cons frac [unfolded append_assoc append_Cons append_Nil]
      bind.bind_lunit prod.case
    using t o c(2) hms by simp
qed

lemma iso_seconds_length:
  assumes "supported t"
  shows "length (iso_seconds t) = 19"
  using assms
  by (rule instant_parts) (simp add: width4 width2)

lemma iso_seconds_less:
  assumes "supported t" and "supported u"
  shows "iso_seconds t < iso_seconds u \<longleftrightarrow> t div second < u div second"
proof -
  from assms(1) obtain y m d hh mm ss us where c: "civil (nat (t div day)) = (y, m, d)"
    and w: "y < 10 ^ 4" "m < 10 ^ 2" "d < 10 ^ 2" "us < 10 ^ 6"
    and hms: "hh < 24" "mm < 60" "ss < 60"
    and t: "t = int (nat (t div day)) * day + int (hh * 3600 + mm * 60 + ss) * second + int us"
    and iso: "iso_seconds t = padded 4 y @ ''-'' @ padded 2 m @ ''-'' @ padded 2 d @ ''T'' @ padded 2 hh
      @ '':'' @ padded 2 mm @ '':'' @ padded 2 ss"
    by (rule instant_parts)
  from assms(2) obtain y' m' d' hh' mm' ss' us' where c': "civil (nat (u div day)) = (y', m', d')"
    and w': "y' < 10 ^ 4" "m' < 10 ^ 2" "d' < 10 ^ 2" "us' < 10 ^ 6"
    and hms': "hh' < 24" "mm' < 60" "ss' < 60"
    and u: "u = int (nat (u div day)) * day + int (hh' * 3600 + mm' * 60 + ss') * second + int us'"
    and iso': "iso_seconds u = padded 4 y' @ ''-'' @ padded 2 m' @ ''-'' @ padded 2 d' @ ''T'' @ padded 2 hh'
      @ '':'' @ padded 2 mm' @ '':'' @ padded 2 ss'"
    by (rule instant_parts)
  have w2: "hh < 10 ^ 2" "mm < 10 ^ 2" "ss < 10 ^ 2" "hh' < 10 ^ 2" "mm' < 10 ^ 2" "ss' < 10 ^ 2"
    using hms hms' by simp_all
  have four: "length (padded 4 y) = length (padded 4 y')" using w(1) w'(1) by (simp only: width4)
  have "iso_seconds t < iso_seconds u \<longleftrightarrow> date_less (y, m, d) (y', m', d')
      \<or> (y, m, d) = (y', m', d') \<and> (hh < hh' \<or> hh = hh' \<and> (mm < mm' \<or> mm = mm' \<and> ss < ss'))"
    unfolding iso iso' less_append [OF four] width4(2,3) [OF w(1) w'(1)]
    using w w' w2 by (auto simp: less_append date_less_def width2)
  also have "\<dots> \<longleftrightarrow> nat (t div day) < nat (u div day)
      \<or> nat (t div day) = nat (u div day) \<and> hh * 3600 + mm * 60 + ss < hh' * 3600 + mm' * 60 + ss'"
    using civil_less [of "nat (t div day)" "nat (u div day)"] civil_eq [of "nat (t div day)" "nat (u div day)"] c c' hms hms'
    by auto
  also have "\<dots> \<longleftrightarrow> t div second < u div second"
  proof -
    have "t div second = int (nat (t div day)) * 86400 + int (hh * 3600 + mm * 60 + ss)"
      by (subst t) (use w(4) in \<open>simp add: day_def second_def\<close>)
    moreover have "u div second = int (nat (u div day)) * 86400 + int (hh' * 3600 + mm' * 60 + ss')"
      by (subst u) (use w'(4) in \<open>simp add: day_def second_def\<close>)
    ultimately show ?thesis
      using lex_digits [of "hh * 3600 + mm * 60 + ss" 86400 "hh' * 3600 + mm' * 60 + ss'" "nat (t div day)" "nat (u div day)"]
        hms hms' by (simp add: mult.commute) linarith
  qed
  finally show ?thesis .
qed

text \<open>What follows the seconds: nothing but the offset, or the microseconds before it.\<close>

definition fraction_text :: "nat \<Rightarrow> string" where
  "fraction_text us = (if us = 0 then '''' else ''.'' @ padded 6 us) @ ''+00:00''"

lemma fraction_text_less:
  assumes "a < 10 ^ 6" and "b < 10 ^ 6"
  shows "fraction_text a < fraction_text b \<longleftrightarrow> a < b"
proof -
  have "length (padded 6 a) = length (padded 6 b)" using assms by (simp only: width6)
  then show ?thesis
    using assms less_append [of "padded 6 a" "padded 6 b" "''+00:00''" "''+00:00''"]
    by (cases "a = 0"; cases "b = 0") (simp_all add: fraction_text_def width6 less_char_def)
qed

text \<open>
  The texts the store compares in SQL are ordered as the instants they were written from,
  although a time without microseconds has a shorter text.
\<close>

lemma isoformat_ordered':
  assumes "supported t" and "supported u"
  shows "(isoformat t < isoformat u \<longleftrightarrow> t < u) \<and> (isoformat t = isoformat u \<longleftrightarrow> t = u)"
proof -
  have less: "isoformat a < isoformat b \<longleftrightarrow> a < b" if s: "supported a" "supported b" for a b
  proof -
    have us: "nat (x mod second) < 10 ^ 6" "int (nat (x mod second)) = x mod second" for x
      by (simp_all add: second_def nat_less_iff)
    have eq: "iso_seconds a = iso_seconds b \<longleftrightarrow> a div second = b div second"
      using iso_seconds_less [OF s] iso_seconds_less [OF s(2,1)] by (metis less_irrefl linorder_neqE)
    have "isoformat x = iso_seconds x @ fraction_text (nat (x mod second))" for x
      by (simp add: isoformat_def fraction_text_def Let_def)
    then have "isoformat a < isoformat b \<longleftrightarrow> a div second < b div second
        \<or> a div second = b div second \<and> nat (a mod second) < nat (b mod second)"
      using less_append [of "iso_seconds a" "iso_seconds b"] s
      by (simp add: iso_seconds_length iso_seconds_less eq fraction_text_less [OF us(1) us(1)])
    also have "\<dots> \<longleftrightarrow> a < b"
    proof -
      have d: "a = a div second * second + a mod second" "b = b div second * second + b mod second" by simp_all
      have m: "0 \<le> a mod second" "a mod second < second" "0 \<le> b mod second" "b mod second < second"
        by (simp_all add: second_def)
      have c: "a div second < b div second \<Longrightarrow> a < b" for a b
        using zdiv_mono1 [of b a second] by (force simp: second_def not_less)
      show ?thesis
      proof (cases "a div second = b div second")
        case True
        then have "nat (a mod second) < nat (b mod second) \<longleftrightarrow> a < b"
        proof -
          have "a div second * second = b div second * second" using True by simp
          then have "b - a = b mod second - a mod second" using d by linarith
          then have "a mod second < b mod second \<longleftrightarrow> a < b" by (metis diff_gt_0_iff_gt)
          then show ?thesis unfolding nat_less_eq_zless [OF m(1)] .
        qed
        with True show ?thesis by simp
      next
        case False
        then show ?thesis using c [of a b] c [of b a] by linarith
      qed
    qed
    finally show ?thesis .
  qed
  show ?thesis
    using less [OF assms] less [OF assms(2,1)] by (metis less_irrefl linorder_neqE)
qed

end
