(* ===== verification/Reservations.thy ===== *)
theory Reservations
  imports Claims Calendar
begin

text \<open>
  Local publication capacity: \<open>_publication_reservation_request\<close>, the reservation events of the
  ledger, \<open>_reconcile_publication_state\<close> and \<open>reserve_publication\<close>.  A reservation's time is the text
  the row and its event share; SQLite compares these texts, which is the order of the instants
  (\<open>isoformat_ordered\<close>).
\<close>

section \<open>Requests\<close>

record publication_reservation =
  pr_run_id :: string
  pr_repository :: string
  pr_reserved_at :: instant

record publication_reservation_request =
  req_run_id :: string
  req_repository :: string
  req_max_per_utc_day :: int
  req_reserved_at :: instant
  req_day_start :: instant
  req_day_end :: instant
  req_cooldown_start :: instant
  req_enforce_cooldown :: bool

definition reservation_request :: "string \<Rightarrow> string \<Rightarrow> int \<Rightarrow> timedelta \<Rightarrow> datetime option \<Rightarrow> instant
    \<Rightarrow> publication_reservation_request result" where
  "reservation_request rid repo maximum cooldown now clock =
     bind_r (lease_identity rid ''publication run id'') (\<lambda>run.
     bind_r (repository_identity repo) (\<lambda>repo'.
     if \<not> (1 \<le> maximum \<and> maximum \<le> 1000) then
       Inl (ValueError ''daily publication maximum must be between 1 and 1000'')
     else if cooldown < 0 then Inl (ValueError ''repository cooldown cannot be negative'')
     else
       bind_r (aware_utc (now_or now clock) ''publication reservation time'') (\<lambda>t.
       bind_r (shift (midnight t) day) (\<lambda>day_end.
       case shift t (- cooldown) of
         Inl _ \<Rightarrow> Inl (ValueError ''repository cooldown exceeds the supported datetime range'')
       | Inr start \<Rightarrow> Inr \<lparr>req_run_id = run, req_repository = repo', req_max_per_utc_day = maximum,
           req_reserved_at = t, req_day_start = midnight t, req_day_end = day_end,
           req_cooldown_start = start, req_enforce_cooldown = 0 < cooldown\<rparr>))))"

section \<open>Evidence\<close>

text \<open>\<open>_stored_datetime\<close>.\<close>

definition stored_datetime :: "string \<Rightarrow> string \<Rightarrow> instant result" where
  "stored_datetime v field = (case fromisoformat v of
     None \<Rightarrow> Inl (StateError (''Stored '' @ field @ '' is not a valid timestamp''))
   | Some t \<Rightarrow> Inr t)"

text \<open>
  A UTC instant of the years 1 to 9999, stored as its isoformat text, is read back as the
  same instant, and the stored texts, by which SQLite compares times, are ordered as the
  instants, although a time without microseconds has a shorter text.
\<close>

theorem stored_times:
  assumes "supported t" and "supported u"
  shows "stored_datetime (isoformat t) field = Inr t \<and> (isoformat t < isoformat u \<longleftrightarrow> t < u)"
  using isoformat_read_back' [OF assms(1)] isoformat_ordered' [OF assms] by (simp add: stored_datetime_def)

lemma stored_times_witness:
  "stored_datetime (isoformat 1000000) ''x'' = Inr 1000000 \<and> (isoformat 1000000 < isoformat 1000001) = ((1000000 :: int) < 1000001)"
  by (rule stored_times) (simp_all add: supported_def max_instant_def day_def second_def)

text \<open>One \<open>publication.reserved\<close> event read back.\<close>

definition evidence_values :: "string \<Rightarrow> string \<Rightarrow> string \<Rightarrow> reservation_row result" where
  "evidence_values rid stored tm =
     bind_r (raise_from (''Run '' @ rid @ '' publication reservation evidence is invalid'')
       (repository_identity stored)) (\<lambda>repo.
     if repo \<noteq> stored then
       Inl (StateError (''Run '' @ rid @ '' publication reservation evidence is not canonical''))
     else
       bind_r (stored_datetime tm (''run '' @ rid @ '' publication reservation evidence time'')) (\<lambda>_.
       Inr \<lparr>pres_run_id = rid, pres_repository = repo, pres_reserved_at = tm\<rparr>))"

definition reservation_evidence :: "event_row \<Rightarrow> reservation_row result" where
  "reservation_evidence e =
     (if ev_run_id e = [] then Inl (StateError ''Publication evidence contains invalid stored values'')
      else case loads_details (ev_details e) of
        None \<Rightarrow> Inl (StateError (''Run '' @ ev_run_id e @ '' publication evidence contains malformed details''))
      | Some details \<Rightarrow>
        if set (map fst details) \<noteq> {''repository'', ''reserved_at''} then
          Inl (StateError (''Run '' @ ev_run_id e @ '' publication reservation evidence is incomplete''))
        else evidence_values (ev_run_id e) (the (map_of details ''repository'')) (the (map_of details ''reserved_at'')))"

fun read_evidence :: "event_row list \<Rightarrow> reservation_row list \<Rightarrow> reservation_row list result" where
  "read_evidence [] acc = Inr acc"
| "read_evidence (e # es) acc =
     bind_r (reservation_evidence e) (\<lambda>r.
     if pres_run_id r \<in> pres_run_id ` set acc then
       Inl (StateError (''Run '' @ pres_run_id r @ '' has duplicate publication reservation evidence''))
     else read_evidence es (acc @ [r]))"

definition publication_evidence :: "db \<Rightarrow> reservation_row list result" where
  "publication_evidence d =
     (let es = take (max_run_corpus + 1) (filter (\<lambda>e. ev_type e = ''publication.reserved'') (events d)) in
      if max_run_corpus < length es then
        Inl (StateError ''Publication evidence exceeds the configured safety bound'')
      else read_evidence es [])"

text \<open>\<open>_publication_reservation_evidence_from_row\<close> and \<open>_bounded_publication_rows\<close>.\<close>

definition row_evidence :: "reservation_row \<Rightarrow> reservation_row result" where
  "row_evidence r =
     (if pres_run_id r = [] then Inl (StateError ''Publication reservation contains invalid stored values'')
      else
        bind_r (raise_from ''Publication reservation contains an invalid repository''
          (repository_identity (pres_repository r))) (\<lambda>repo.
        if repo \<noteq> pres_repository r then
          Inl (StateError (''Publication reservation for run '' @ pres_run_id r @ '' is not canonical''))
        else
          bind_r (stored_datetime (pres_reserved_at r) (''publication reservation '' @ pres_run_id r @ '' time'')) (\<lambda>_.
          Inr r)))"

definition bounded_publication_rows :: "db \<Rightarrow> reservation_row list result" where
  "bounded_publication_rows d =
     (let rows = take (max_run_corpus + 1) (sort_key pres_run_id (publication_reservations d)) in
      if max_run_corpus < length rows then
        Inl (StateError ''Publication reservation set exceeds the configured safety bound'')
      else
        bind_r (map_result row_evidence rows) (\<lambda>rs.
        if \<not> distinct (map pres_run_id rs) then
          Inl (StateError ''Publication state contains duplicate run identities'')
        else Inr rs))"

text \<open>The constraints of \<open>publication_reservations\<close>: one row per run, of an existing run.\<close>

definition insert_reservation :: "db \<Rightarrow> reservation_row \<Rightarrow> db result" where
  "insert_reservation d r =
     (if pres_run_id r \<notin> pres_run_id ` set (publication_reservations d) \<and> pres_run_id r \<in> row_run_id ` set (runs d)
      then Inr (d\<lparr>publication_reservations := publication_reservations d @ [r]\<rparr>)
      else Inl (IntegrityError ''publication_reservations''))"

definition reservation_of :: "reservation_row list \<Rightarrow> string \<Rightarrow> reservation_row option" where
  "reservation_of rs rid = List.find (\<lambda>r. pres_run_id r = rid) rs"

fun reconcile_rows :: "bool \<Rightarrow> db \<Rightarrow> reservation_row list \<Rightarrow> reservation_row list \<Rightarrow> (db \<times> reservation_row list) result" where
  "reconcile_rows repair d [] rows = Inr (d, rows)"
| "reconcile_rows repair d (e # es) rows = (case reservation_of rows (pres_run_id e) of
     None \<Rightarrow>
       if \<not> repair then Inl (StateError (''Run '' @ pres_run_id e @ '' publication reservation row is missing''))
       else bind_r (insert_reservation d e) (\<lambda>d'. reconcile_rows repair d' es (rows @ [e]))
   | Some r \<Rightarrow>
       if r \<noteq> e then Inl (StateError (''Run '' @ pres_run_id e @ '' publication reservation disagrees with ledger evidence''))
       else reconcile_rows repair d es rows)"

definition reconcile_publication_state :: "digest \<Rightarrow> db \<Rightarrow> bool \<Rightarrow> db result" where
  "reconcile_publication_state H d repair =
     bind_r (verify_event_anchors H d None) (\<lambda>_.
     bind_r (publication_evidence d) (\<lambda>evs.
     bind_r (bounded_publication_rows d) (\<lambda>rows.
     bind_r (reconcile_rows repair d evs rows) (\<lambda>(d', rows').
     case List.find (\<lambda>r. pres_run_id r \<notin> pres_run_id ` set evs) rows' of
       Some r \<Rightarrow> Inl (StateError (''Run '' @ pres_run_id r @ '' publication reservation lacks ledger evidence''))
     | None \<Rightarrow> Inr d'))))"

definition verify_publication_state :: "digest \<Rightarrow> db \<Rightarrow> unit result" where
  "verify_publication_state H d = bind_r (reconcile_publication_state H d False) (\<lambda>_. Inr ())"

section \<open>Reserving\<close>

definition reservation_details :: "string \<Rightarrow> string \<Rightarrow> (string \<times> string) list" where
  "reservation_details repo tm = [(''repository'', repo), (''reserved_at'', tm)]"

text \<open>The capacity checks of a first reservation, as the SQL counts and compares the texts.\<close>

definition check_capacity :: "db \<Rightarrow> publication_reservation_request \<Rightarrow> unit result" where
  "check_capacity d req =
     (let rows = publication_reservations d;
          daily = filter (\<lambda>r. isoformat (req_day_start req) \<le> pres_reserved_at r
                    \<and> pres_reserved_at r < isoformat (req_day_end req)) rows;
          recent = sort (map pres_reserved_at (filter (\<lambda>r. pres_repository r = req_repository req
                    \<and> isoformat (req_cooldown_start req) < pres_reserved_at r) rows))
      in if req_max_per_utc_day req \<le> int (length daily) then
           Inl (StateError ''Daily publication reservation limit reached'')
         else if req_enforce_cooldown req \<and> recent \<noteq> [] then
           bind_r (stored_datetime (last recent) ''publication reservation time'') (\<lambda>_.
           Inl (StateError ''Repository publication cooldown is active''))
         else Inr ())"

definition reserve_in_transaction :: "digest \<Rightarrow> db \<Rightarrow> publication_reservation_request \<Rightarrow> instant
    \<Rightarrow> (db \<times> publication_reservation) result" where
  "reserve_in_transaction H d req clock' =
     bind_r (reconcile_publication_state H d True) (\<lambda>d1.
     case find_run d1 (req_run_id req) of
       None \<Rightarrow> Inl (StateError (''Unknown run: '' @ req_run_id req))
     | Some run \<Rightarrow>
       bind_r (case row_repository run of
           None \<Rightarrow> Inr ()
         | Some stored \<Rightarrow> bind_r (repository_identity stored) (\<lambda>repo.
             if repo \<noteq> req_repository req then
               Inl (StateError (''Run '' @ req_run_id req @ '' does not belong to '' @ req_repository req))
             else Inr ())) (\<lambda>_.
       case reservation_of (publication_reservations d1) (req_run_id req) of
         Some existing \<Rightarrow>
           bind_r (repository_identity (pres_repository existing)) (\<lambda>repo.
           if repo \<noteq> req_repository req then
             Inl (StateError ''Publication run already reserved capacity for a different repository'')
           else
             bind_r (stored_datetime (pres_reserved_at existing) ''publication reservation time'') (\<lambda>t.
             Inr (d1, \<lparr>pr_run_id = req_run_id req, pr_repository = req_repository req, pr_reserved_at = t\<rparr>)))
       | None \<Rightarrow>
           bind_r (check_capacity d1 req) (\<lambda>_.
           let tm = isoformat (req_reserved_at req) in
           bind_r (insert_reservation d1 \<lparr>pres_run_id = req_run_id req, pres_repository = req_repository req,
               pres_reserved_at = tm\<rparr>) (\<lambda>d2.
           bind_r (append_event H d2 (req_run_id req) ''publication.reserved''
               (reservation_details (req_repository req) tm) None clock') (\<lambda>d3.
           Inr (d3, \<lparr>pr_run_id = req_run_id req, pr_repository = req_repository req,
             pr_reserved_at = req_reserved_at req\<rparr>))))))"

definition reserve_publication :: "digest \<Rightarrow> db \<Rightarrow> string \<Rightarrow> string \<Rightarrow> int \<Rightarrow> timedelta \<Rightarrow> datetime option
    \<Rightarrow> instant \<Rightarrow> instant \<Rightarrow> (db \<times> publication_reservation) result" where
  "reserve_publication H d rid repo maximum cooldown now clock clock' =
     bind_r (reservation_request rid repo maximum cooldown now clock) (\<lambda>req.
     reserve_in_transaction H d req clock')"

section \<open>Evidence and rows agree\<close>

definition on_utc_day :: "instant \<Rightarrow> reservation_row \<Rightarrow> bool" where
  "on_utc_day t r \<longleftrightarrow> (case fromisoformat (pres_reserved_at r) of None \<Rightarrow> False | Some u \<Rightarrow> u div day = t div day)"

definition reservations_ok :: "db \<Rightarrow> bool" where
  "reservations_ok d \<longleftrightarrow> (\<exists>evs. publication_evidence d = Inr evs \<and> set evs = set (publication_reservations d))
     \<and> distinct (map pres_run_id (publication_reservations d))
     \<and> pres_run_id ` set (publication_reservations d) \<subseteq> row_run_id ` set (runs d)
     \<and> (\<forall>r\<in>set (publication_reservations d). \<exists>t. supported t \<and> pres_reserved_at r = isoformat t)"

lemma read_evidence_append:
  "read_evidence (es @ fs) acc = bind_r (read_evidence es acc) (read_evidence fs)"
proof (induction es acc rule: read_evidence.induct)
  case (2 e es acc)
  then show ?case by (cases "reservation_evidence e") auto
qed simp

lemma read_evidence_Inr:
  assumes "read_evidence es acc = Inr rs" and "distinct (map pres_run_id acc)"
  shows "\<exists>xs. rs = acc @ xs \<and> map_result reservation_evidence es = Inr xs \<and> distinct (map pres_run_id rs)"
  using assms
proof (induction es acc rule: read_evidence.induct)
  case (2 e es acc)
  then obtain r where r: "reservation_evidence e = Inr r" "pres_run_id r \<notin> pres_run_id ` set acc"
    "read_evidence es (acc @ [r]) = Inr rs"
    by (auto simp: result_simps split: if_splits)
  from 2(1) [OF r(1,2)] r(2,3) 2(3) obtain xs where "rs = (acc @ [r]) @ xs" "map_result reservation_evidence es = Inr xs"
    "distinct (map pres_run_id rs)"
    by auto
  with r(1) show ?case by (intro exI [of _ "r # xs"]) simp
qed simp

lemma reservation_evidence_Inr:
  assumes "reservation_evidence e = Inr r"
  shows "row_evidence r = Inr r" and "pres_run_id r = ev_run_id e"
proof -
  obtain details where l: "loads_details (ev_details e) = Some details" "ev_run_id e \<noteq> []"
    using assms by (cases "loads_details (ev_details e)") (simp_all add: reservation_evidence_def split: if_splits)
  define stored tm where "stored = the (map_of details ''repository'')" and "tm = the (map_of details ''reserved_at'')"
  have "evidence_values (ev_run_id e) stored tm = Inr r"
    using assms l by (simp add: reservation_evidence_def stored_def tm_def split: if_splits)
  then have r: "repository_identity stored = Inr stored" "fromisoformat tm \<noteq> None"
    "r = \<lparr>pres_run_id = ev_run_id e, pres_repository = stored, pres_reserved_at = tm\<rparr>"
    by (auto simp: evidence_values_def result_simps checks stored_datetime_def split: if_splits option.splits)
  then show "row_evidence r = Inr r" "pres_run_id r = ev_run_id e"
    using l(2) by (auto simp: row_evidence_def raise_from_def stored_datetime_def)
qed

lemma publication_evidence_Inr:
  assumes "publication_evidence d = Inr evs"
  shows "distinct (map pres_run_id evs)" and "\<forall>r\<in>set evs. row_evidence r = Inr r" and "length evs \<le> max_run_corpus"
    and "read_evidence (filter (\<lambda>e. ev_type e = ''publication.reserved'') (events d)) [] = Inr evs"
proof -
  define es where "es = filter (\<lambda>e. ev_type e = ''publication.reserved'') (events d)"
  from assms have n: "length es \<le> max_run_corpus" and r: "read_evidence es [] = Inr evs"
    by (auto simp: publication_evidence_def es_def Let_def split: if_splits)
  from read_evidence_Inr [OF r] have m: "map_result reservation_evidence es = Inr evs" and "distinct (map pres_run_id evs)"
    by auto
  then show "distinct (map pres_run_id evs)" by simp
  show "\<forall>r\<in>set evs. row_evidence r = Inr r"
    using map_result_source [OF m] reservation_evidence_Inr(1) by blast
  have "length evs = length es" using m by (auto simp: map_result_Inr dest: list_all2_lengthD)
  with n show "length evs \<le> max_run_corpus" by simp
  show "read_evidence (filter (\<lambda>e. ev_type e = ''publication.reserved'') (events d)) [] = Inr evs"
    using r by (simp add: es_def)
qed

lemma map_result_id: "\<forall>x\<in>set xs. f x = Inr x \<Longrightarrow> map_result f xs = Inr xs"
  by (induction xs) auto

lemma reservation_of_Some:
  assumes "distinct (map pres_run_id rs)" and "r \<in> set rs"
  shows "reservation_of rs (pres_run_id r) = Some r"
  using assms by (induction rs) (auto simp: reservation_of_def)

lemma reservation_of_None: "reservation_of rs rid = None \<longleftrightarrow> rid \<notin> pres_run_id ` set rs"
  by (auto simp: reservation_of_def find_None)

lemma reservation_of_SomeD: "reservation_of rs rid = Some r \<Longrightarrow> r \<in> set rs \<and> pres_run_id r = rid"
  by (auto simp: reservation_of_def dest: find_SomeD)

text \<open>Rows that all agree with the evidence are only completed from it.\<close>

lemma reconcile_rows_repair:
  assumes "set rows \<subseteq> set all" and "distinct (map pres_run_id all)" and "distinct (map pres_run_id rows)"
    and "set es \<subseteq> set all" and "pres_run_id ` set all \<subseteq> row_run_id ` set (runs d)"
    and "set (publication_reservations d) = set rows"
  shows "\<exists>d' rows'. reconcile_rows True d es rows = Inr (d', rows') \<and> set rows' = set rows \<union> set es
    \<and> set (publication_reservations d') = set rows \<union> set es \<and> distinct (map pres_run_id rows')
    \<and> d' = d\<lparr>publication_reservations := publication_reservations d'\<rparr>"
  using assms
proof (induction es arbitrary: d rows)
  case Nil
  then show ?case by simp
next
  case (Cons e es)
  show ?case
  proof (cases "reservation_of rows (pres_run_id e)")
    case (Some r)
    then have "r \<in> set rows" "pres_run_id r = pres_run_id e" by (auto dest: reservation_of_SomeD)
    with Cons.prems have "r = e" by (metis (no_types, lifting) distinct_map inj_onD list.set_intros(1) subsetD)
    with \<open>r \<in> set rows\<close> Some Cons.IH [of rows d] Cons.prems show ?thesis
      by (auto simp: insert_absorb)
  next
    case None
    define d1 where "d1 = d\<lparr>publication_reservations := publication_reservations d @ [e]\<rparr>"
    from None have new: "pres_run_id e \<notin> pres_run_id ` set rows" by (simp add: reservation_of_None)
    have ins: "insert_reservation d e = Inr d1"
      using new Cons.prems by (auto simp: insert_reservation_def d1_def)
    have "\<exists>d' rows'. reconcile_rows True d1 es (rows @ [e]) = Inr (d', rows') \<and> set rows' = set (rows @ [e]) \<union> set es
      \<and> set (publication_reservations d') = set (rows @ [e]) \<union> set es \<and> distinct (map pres_run_id rows')
      \<and> d' = d1\<lparr>publication_reservations := publication_reservations d'\<rparr>"
      by (rule Cons.IH) (use Cons.prems new in \<open>auto simp: d1_def\<close>)
    then obtain d' rows' where IH: "reconcile_rows True d1 es (rows @ [e]) = Inr (d', rows')"
      "set rows' = set (rows @ [e]) \<union> set es" "set (publication_reservations d') = set (rows @ [e]) \<union> set es"
      "distinct (map pres_run_id rows')" "d' = d1\<lparr>publication_reservations := publication_reservations d'\<rparr>"
      by blast
    have "d' = d\<lparr>publication_reservations := publication_reservations d'\<rparr>"
      using IH(5) by (simp add: d1_def)
    with IH None ins show ?thesis
      by (intro exI [of _ d'] exI [of _ rows']) auto
  qed
qed

lemma reconcile_rows_complete:
  assumes "distinct (map pres_run_id rows)" and "set es \<subseteq> set rows"
  shows "reconcile_rows repair d es rows = Inr (d, rows)"
  using assms by (induction es) (auto simp: reservation_of_Some)

lemma bounded_rows:
  assumes "\<forall>r\<in>set (publication_reservations d). row_evidence r = Inr r"
    and "distinct (map pres_run_id (publication_reservations d))" and "length (publication_reservations d) \<le> max_run_corpus"
  shows "bounded_publication_rows d = Inr (sort_key pres_run_id (publication_reservations d))"
proof -
  have "distinct (map pres_run_id (sort_key pres_run_id (publication_reservations d)))"
    using assms(2) by (simp add: distinct_map)
  with assms(1,3) show ?thesis
    by (simp add: bounded_publication_rows_def Let_def map_result_id)
qed

lemma reservations_okD:
  assumes "reservations_ok d"
  obtains evs where "publication_evidence d = Inr evs" and "set evs = set (publication_reservations d)"
    and "distinct (map pres_run_id (publication_reservations d))"
    and "\<forall>r\<in>set (publication_reservations d). row_evidence r = Inr r"
    and "length (publication_reservations d) \<le> max_run_corpus"
proof -
  from assms obtain evs where e: "publication_evidence d = Inr evs" "set evs = set (publication_reservations d)"
    "distinct (map pres_run_id (publication_reservations d))"
    by (auto simp: reservations_ok_def)
  note ev = publication_evidence_Inr [OF e(1)]
  have "length (publication_reservations d) = card (set (publication_reservations d))"
    using e(3) by (simp add: distinct_card distinct_map)
  also have "\<dots> \<le> max_run_corpus"
    using ev(3) card_length [of evs] e(2) by simp
  finally show thesis using that e ev(2) by simp
qed

lemma reconcile_ok:
  assumes "ledger_sound H d" and "reservations_ok d"
  shows "reconcile_publication_state H d repair = Inr d"
  using assms(2)
proof (rule reservations_okD)
  fix evs assume e: "publication_evidence d = Inr evs" "set evs = set (publication_reservations d)"
    and d: "distinct (map pres_run_id (publication_reservations d))"
    and v: "\<forall>r\<in>set (publication_reservations d). row_evidence r = Inr r"
    and n: "length (publication_reservations d) \<le> max_run_corpus"
  have "distinct (map pres_run_id (sort_key pres_run_id (publication_reservations d)))"
    using d by (simp add: distinct_map)
  then have "reconcile_rows repair d evs (sort_key pres_run_id (publication_reservations d))
      = Inr (d, sort_key pres_run_id (publication_reservations d))"
    by (rule reconcile_rows_complete) (simp add: e)
  moreover have "List.find (\<lambda>r. pres_run_id r \<notin> pres_run_id ` set evs) (sort_key pres_run_id (publication_reservations d)) = None"
    by (simp add: find_None e)
  ultimately show ?thesis
    by (simp add: reconcile_publication_state_def sound_verify [OF assms(1)] e(1) bounded_rows [OF v d n])
qed

section \<open>What a reservation leaves\<close>

lemma reservation_details_back:
  "loads_details (canonical_details (reservation_details repo tm)) = Some (reservation_details repo tm)"
  unfolding canonical_details_def
  by (subst loads_dumps') (simp_all add: reservation_details_def less_eq_char_def less_char_def)

lemma reserve_cases:
  assumes "reserve_in_transaction H d req clock' = Inr (d', p)" and "ledger_sound H d" and "reservations_ok d"
  obtains (existing) r where "reservation_of (publication_reservations d) (req_run_id req) = Some r" and "d' = d"
      and "pr_run_id p = req_run_id req" and "pr_repository p = req_repository req"
      and "fromisoformat (pres_reserved_at r) = Some (pr_reserved_at p)"
      and "repository_identity (pres_repository r) = Inr (req_repository req)"
  | (reserved) d2 where "reservation_of (publication_reservations d) (req_run_id req) = None"
      and "check_capacity d req = Inr ()"
      and "p = \<lparr>pr_run_id = req_run_id req, pr_repository = req_repository req, pr_reserved_at = req_reserved_at req\<rparr>"
      and "d2 = d\<lparr>publication_reservations := publication_reservations d @ [\<lparr>pres_run_id = req_run_id req,
         pres_repository = req_repository req, pres_reserved_at = isoformat (req_reserved_at req)\<rparr>]\<rparr>"
      and "append_event H d2 (req_run_id req) ''publication.reserved''
         (reservation_details (req_repository req) (isoformat (req_reserved_at req))) None clock' = Inr d'"
proof (cases "reservation_of (publication_reservations d) (req_run_id req)")
  case None
  with assms(1) show thesis
    by (intro reserved) (auto simp: reserve_in_transaction_def reconcile_ok [OF assms(2,3)] result_simps Let_def
        insert_reservation_def split: option.splits if_splits)
next
  case (Some r)
  with assms(1) show thesis
    by (intro existing [of r]) (auto simp: reserve_in_transaction_def reconcile_ok [OF assms(2,3)] result_simps Let_def
        stored_datetime_def split: option.splits if_splits)
qed

text \<open>A request whose stored texts can be read back.\<close>

definition request_ok :: "publication_reservation_request \<Rightarrow> bool" where
  "request_ok req \<longleftrightarrow> req_run_id req \<noteq> [] \<and> repository_identity (req_repository req) = Inr (req_repository req)
     \<and> supported (req_reserved_at req)"

lemma new_evidence:
  assumes "request_ok req" and "ev_run_id e = req_run_id req"
    and "ev_details e = canonical_details (reservation_details (req_repository req) (isoformat (req_reserved_at req)))"
  shows "reservation_evidence e = Inr \<lparr>pres_run_id = req_run_id req, pres_repository = req_repository req,
    pres_reserved_at = isoformat (req_reserved_at req)\<rparr>"
  using assms isoformat_read_back' [of "req_reserved_at req"]
  by (simp add: reservation_evidence_def reservation_details_back evidence_values_def raise_from_def
      stored_datetime_def request_ok_def) (simp add: reservation_details_def stored_datetime_def)

lemma reserve_keeps:
  assumes "reserve_in_transaction H d req clock' = Inr (d', p)" and "ledger_sound H d" and "reservations_ok d"
    and "request_ok req" and "length (publication_reservations d) < max_run_corpus"
  shows "ledger_sound H d' \<and> reservations_ok d'"
  using assms(1-3)
proof (cases rule: reserve_cases)
  case (reserved d2)
  define new where "new = \<lparr>pres_run_id = req_run_id req, pres_repository = req_repository req,
    pres_reserved_at = isoformat (req_reserved_at req)\<rparr>"
  have d2: "runs d2 = runs d" "events d2 = events d" "publication_reservations d2 = publication_reservations d @ [new]"
    by (simp_all add: reserved(4) new_def)
  have s2: "ledger_sound H d2" using assms(2) ledger_sound_anchors [of d2 d H] by (simp add: d2)
  have app: "appended H d2 d'" by (rule append_event_appended [OF reserved(5) s2])
  have ids: "distinct (map row_run_id (runs d2))" using s2 by (simp add: ledger_sound_def)
  from append_eventD [OF reserved(5) ids] obtain e r where e: "events d' = events d @ [e]" "ev_run_id e = req_run_id req"
    "ev_type e = ''publication.reserved''" and r: "r \<in> set (runs d2)" "row_run_id r = req_run_id req"
    "ev_details e = canonical_details (reservation_details (req_repository req) (isoformat (req_reserved_at req)))"
    by (auto simp: d2)
  have new: "reservation_evidence e = Inr new"
    unfolding new_def by (rule new_evidence [OF assms(4) e(2) r(3)])
  from assms(3) obtain evs where ev: "publication_evidence d = Inr evs" "set evs = set (publication_reservations d)"
    "distinct (map pres_run_id (publication_reservations d))"
    and n: "length (publication_reservations d) \<le> max_run_corpus"
    by (rule reservations_okD)
  note evs = publication_evidence_Inr [OF ev(1)]
  have fresh: "pres_run_id new \<notin> pres_run_id ` set (publication_reservations d)"
    using reserved(1) by (simp add: reservation_of_None new_def)
  have "length evs = length (publication_reservations d)"
    using ev(2,3) evs(1) by (metis distinct_card distinct_map)
  moreover have "length evs = length (filter (\<lambda>e. ev_type e = ''publication.reserved'') (events d))"
    using read_evidence_Inr [OF evs(4)] by (auto simp: map_result_Inr dest: list_all2_lengthD)
  ultimately have "length (filter (\<lambda>e. ev_type e = ''publication.reserved'') (events d')) \<le> max_run_corpus"
    using assms(5) e by simp
  moreover have "read_evidence (filter (\<lambda>e. ev_type e = ''publication.reserved'') (events d')) [] = Inr (evs @ [new])"
    using evs(4) new fresh ev(2) e by (simp add: read_evidence_append)
  ultimately have "publication_evidence d' = Inr (evs @ [new])"
    by (simp add: publication_evidence_def Let_def)
  moreover have pr: "publication_reservations d' = publication_reservations d @ [new]"
    using app same_outside_ledgerD(4) d2(3) by (auto simp: appended_def)
  moreover have "row_run_id ` set (runs d') = row_run_id ` set (runs d)"
    using app same_rows_ids [of d2 d'] by (simp add: appended_def d2) (metis list.set_map)
  moreover have "req_run_id req \<in> row_run_id ` set (runs d)" using r(1,2) unfolding d2(1) by (metis imageI)
  ultimately have "reservations_ok d'"
    using assms(3,4) ev fresh unfolding reservations_ok_def by (auto simp: new_def request_ok_def)
  with app show ?thesis by (simp add: appended_def)
qed (use assms in simp)

section \<open>GitHub names are their own keys\<close>

lemma strip_no_space: "list_all (\<lambda>c. \<not> is_space c) s \<Longrightarrow> strip s = s"
proof -
  assume a: "list_all (\<lambda>c. \<not> is_space c) s"
  then have "dropWhile is_space s = s" by (cases s) auto
  moreover have "dropWhile is_space (rev s) = rev s"
    using a by (cases "rev s") (auto simp: list_all_iff dest: arg_cong [of _ _ set])
  ultimately show ?thesis by (simp add: strip_def rstrip_def)
qed

lemma name_char_facts:
  assumes "is_name_char c"
  shows "\<not> is_space c" and "c \<noteq> nul" and "c \<noteq> CHR ''/''"
  using assms by (auto simp: is_name_char_def is_digit_def is_space_def nul_char)

lemma nocase_name: "list_all is_name_char s \<Longrightarrow> list_all is_name_char (nocase s)"
  by (auto simp: nocase_def list_all_iff is_name_char_def is_digit_def)

lemma owner_name_parts:
  assumes "is_owner_name s"
  obtains a b where "s = a @ CHR ''/'' # b" and "a \<noteq> []" and "b \<noteq> []"
    and "list_all is_name_char a" and "list_all is_name_char b"
proof -
  obtain a b where ab: "split_on (CHR ''/'') s = [a, b]" "a \<noteq> []" "b \<noteq> []" "list_all is_name_char a" "list_all is_name_char b"
    using assms by (auto simp: is_owner_name_def split: list.splits)
  have "s = join [CHR ''/''] [a, b]" using join_split_on [of "CHR ''/''" s] unfolding ab by simp
  with ab that show thesis by simp
qed

lemma owner_name_strip: "is_owner_name s \<Longrightarrow> strip s = s"
proof (erule owner_name_parts)
  fix a b assume s: "s = a @ CHR ''/'' # b" and n: "list_all is_name_char a" "list_all is_name_char b"
  have "\<not> is_space (CHR ''/'')" by (simp add: is_space_def)
  then show "strip s = s"
    using n name_char_facts(1) by (intro strip_no_space) (auto simp: s list_all_iff)
qed

lemma owner_identity:
  assumes "is_owner_name s" and "length s \<le> 255"
  shows "repository_identity s = Inr (nocase s)"
  using assms(1)
proof (rule owner_name_parts)
  fix a b assume s: "s = a @ CHR ''/'' # b" and ne: "a \<noteq> []" "b \<noteq> []"
    and n: "list_all is_name_char a" "list_all is_name_char b"
  have na: "list_all is_name_char (nocase a)" "list_all is_name_char (nocase b)" "nocase a \<noteq> []" "nocase b \<noteq> []"
    using n ne nocase_name by (auto simp: nocase_def)
  have no: "CHR ''/'' \<notin> set (nocase a)" "CHR ''/'' \<notin> set (nocase b)"
    using na name_char_facts(3) by (auto simp: list_all_iff)
  have "strip s = s" by (rule owner_name_strip [OF assms(1)])
  moreover have "nul \<notin> set s" using n name_char_facts(2) by (auto simp: s list_all_iff nul_char)
  ultimately have l: "lease_identity s f = Inr s" for f
    using assms(2) s by (simp add: lease_identity_def Let_def)
  have low: "nocase s = nocase a @ CHR ''/'' # nocase b" by (simp add: s nocase_def)
  have "count_char (CHR ''/'') (nocase s) = 1"
    using no by (auto simp: low count_char_def filter_empty_conv)
  moreover have "split_on (CHR ''/'') (nocase s) = [nocase a, nocase b]"
    using no by (simp add: low split_on_append_sep split_on_no_sep)
  ultimately show ?thesis
    using casefold_ascii [OF owner_name_ascii [OF assms(1)]] na
    by (simp add: repository_identity_def l Let_def)
qed

lemma owner_name_nocase: "is_owner_name s \<Longrightarrow> is_owner_name (nocase s)"
proof (erule owner_name_parts)
  fix a b assume s: "s = a @ CHR ''/'' # b" and ne: "a \<noteq> []" "b \<noteq> []"
    and n: "list_all is_name_char a" "list_all is_name_char b"
  have na: "list_all is_name_char (nocase a)" "list_all is_name_char (nocase b)" "nocase a \<noteq> []" "nocase b \<noteq> []"
    using n ne nocase_name by (auto simp: nocase_def)
  then have "CHR ''/'' \<notin> set (nocase a)" "CHR ''/'' \<notin> set (nocase b)"
    using name_char_facts(3) by (auto simp: list_all_iff)
  then have "split_on (CHR ''/'') (nocase a @ CHR ''/'' # nocase b) = [nocase a, nocase b]"
    by (simp add: split_on_append_sep split_on_no_sep)
  moreover have "nocase s = nocase a @ CHR ''/'' # nocase b" by (simp add: s nocase_def)
  ultimately show "is_owner_name (nocase s)" using na by (simp add: is_owner_name_def)
qed

text \<open>What a well-formed request says, for a repository named as GitHub names them.\<close>

lemma request_Inr:
  assumes "reservation_request rid repo maximum cooldown now clock = Inr req" and "is_owner_name repo"
    and "now_or now clock = Aware t" and "supported t"
  shows "request_ok req" and "req_run_id req = strip rid" and "req_repository req = nocase repo"
    and "req_max_per_utc_day req = maximum" and "req_reserved_at req = t" and "req_day_start req = midnight t"
    and "req_day_end req = midnight t + day" and "midnight t + day \<le> max_instant"
    and "req_enforce_cooldown req \<longleftrightarrow> 0 < cooldown" and "req_cooldown_start req = t - cooldown"
    and "0 \<le> t - cooldown" and "0 \<le> cooldown"
proof -
  from assms obtain k where k: "lease_identity rid ''publication run id'' = Inr (strip rid)" "repository_identity repo = Inr k"
    "req_run_id req = strip rid" "req_repository req = k" "req_max_per_utc_day req = maximum" "req_reserved_at req = t"
    "req_day_start req = midnight t" "req_day_end req = midnight t + day" "midnight t + day \<le> max_instant"
    "req_enforce_cooldown req \<longleftrightarrow> 0 < cooldown" "req_cooldown_start req = t - cooldown" "0 \<le> t - cooldown" "0 \<le> cooldown"
    by (auto simp: reservation_request_def result_simps checks shift_def aware_utc_def
        split: if_splits sum.splits datetime.splits)
  from k(2) have n: "length repo \<le> 255"
    using owner_name_strip [OF assms(2)] by (auto simp: repository_identity_def result_simps checks)
  have k2: "k = nocase repo" using owner_identity [OF assms(2) n] k(2) by simp
  have "repository_identity k = Inr k"
    using owner_identity [OF owner_name_nocase [OF assms(2)]] n by (simp add: k2 nocase_idem) (simp add: nocase_def)
  moreover have "strip rid \<noteq> []" using k(1) by (simp add: checks)
  ultimately show "request_ok req" using k assms(4) by (simp add: request_ok_def)
  show "req_run_id req = strip rid" "req_repository req = nocase repo" "req_max_per_utc_day req = maximum"
    "req_reserved_at req = t" "req_day_start req = midnight t" "req_day_end req = midnight t + day"
    "midnight t + day \<le> max_instant" "req_enforce_cooldown req \<longleftrightarrow> 0 < cooldown" "req_cooldown_start req = t - cooldown"
    "0 \<le> t - cooldown" "0 \<le> cooldown"
    using k k2 by simp_all
qed

section \<open>Properties\<close>

lemma midnight_supported: "supported t \<Longrightarrow> supported (midnight t)"
  using midnight_bounds(1) [of t] zmod_le_nonneg_dividend [of t day] by (simp add: supported_def midnight_def)

text \<open>The texts the capacity checks compare, as instants.\<close>

lemma isoformat_le: "supported t \<Longrightarrow> supported u \<Longrightarrow> isoformat t \<le> isoformat u \<longleftrightarrow> t \<le> u"
  using isoformat_ordered' [of t u] by (auto simp: le_less)

lemma capacity_instants:
  assumes "check_capacity d req = Inr ()" and "supported t" and "req_reserved_at req = t"
    and "req_day_start req = midnight t" and "req_day_end req = midnight t + day" and "midnight t + day \<le> max_instant"
    and rows: "\<forall>r\<in>set (publication_reservations d). \<exists>u. supported u \<and> pres_reserved_at r = isoformat u"
  shows "int (length (filter (on_utc_day t) (publication_reservations d))) < req_max_per_utc_day req"
    and "req_enforce_cooldown req \<Longrightarrow> supported (req_cooldown_start req) \<Longrightarrow>
      \<forall>r\<in>set (publication_reservations d). \<forall>u. pres_repository r = req_repository req
        \<longrightarrow> fromisoformat (pres_reserved_at r) = Some u \<longrightarrow> u \<le> req_cooldown_start req"
proof -
  have s: "supported (midnight t)" "supported (midnight t + day)"
    using midnight_supported [OF assms(2)] assms(6) day_pos by (auto simp: supported_def)
  have "isoformat (req_day_start req) \<le> pres_reserved_at r \<and> pres_reserved_at r < isoformat (req_day_end req) \<longleftrightarrow> on_utc_day t r"
    if r: "r \<in> set (publication_reservations d)" for r
  proof -
    from rows r obtain u where u: "supported u" "pres_reserved_at r = isoformat u" by blast
    then show ?thesis
      using s same_day_iff [of t u] isoformat_read_back' [OF u(1)]
      by (simp add: assms(4,5) isoformat_le isoformat_ordered' on_utc_day_def)
  qed
  then have "filter (\<lambda>r. isoformat (req_day_start req) \<le> pres_reserved_at r \<and> pres_reserved_at r < isoformat (req_day_end req))
      (publication_reservations d) = filter (on_utc_day t) (publication_reservations d)"
    by (rule filter_cong [OF refl])
  with assms(1) show "int (length (filter (on_utc_day t) (publication_reservations d))) < req_max_per_utc_day req"
    by (simp add: check_capacity_def Let_def split: if_splits)
  assume e: "req_enforce_cooldown req" and c: "supported (req_cooldown_start req)"
  have none: "filter (\<lambda>r. pres_repository r = req_repository req \<and> isoformat (req_cooldown_start req) < pres_reserved_at r)
      (publication_reservations d) = []"
    using assms(1) e by (auto simp: check_capacity_def Let_def result_simps split: if_splits dest: arg_cong [of _ _ length])
  show "\<forall>r\<in>set (publication_reservations d). \<forall>u. pres_repository r = req_repository req
        \<longrightarrow> fromisoformat (pres_reserved_at r) = Some u \<longrightarrow> u \<le> req_cooldown_start req"
  proof (intro ballI allI impI)
    fix r u assume r: "r \<in> set (publication_reservations d)" "pres_repository r = req_repository req"
      "fromisoformat (pres_reserved_at r) = Some u"
    from rows r(1) obtain v where v: "supported v" "pres_reserved_at r = isoformat v" by blast
    then have "v = u" using r(3) isoformat_read_back' by simp
    moreover have "\<not> isoformat (req_cooldown_start req) < pres_reserved_at r"
      using none r(1,2) by (auto simp: filter_empty_conv)
    ultimately show "u \<le> req_cooldown_start req"
      using v isoformat_ordered' [OF c v(1)] by simp
  qed
qed

text \<open>
  C16. A reservation that is granted keeps the number of reservations of its UTC day within the
  daily maximum, and no reservation of the repository is more recent than the cooldown allows;
  otherwise the run had reserved before and nothing changes.
\<close>

theorem capacity_respected:
  assumes "ledger_sound H d" and "reservations_ok d" and "is_owner_name repo"
    and "now_or now clock = Aware t" and "supported t"
    and "reserve_publication H d rid repo maximum cooldown now clock clock' = Inr (d', p)"
  shows "d' = d \<and> strip rid \<in> pres_run_id ` set (publication_reservations d)
    \<or> pr_reserved_at p = t \<and> int (length (filter (on_utc_day t) (publication_reservations d'))) \<le> maximum
      \<and> (0 < cooldown \<longrightarrow> (\<forall>r\<in>set (publication_reservations d). \<forall>u. pres_repository r = nocase repo
          \<longrightarrow> fromisoformat (pres_reserved_at r) = Some u \<longrightarrow> u \<le> t - cooldown))"
proof -
  from assms(6) obtain req where req: "reservation_request rid repo maximum cooldown now clock = Inr req"
    and r: "reserve_in_transaction H d req clock' = Inr (d', p)"
    by (auto simp: reserve_publication_def result_simps)
  note rq = request_Inr [OF req assms(3-5)]
  from r assms(1,2) show ?thesis
  proof (cases rule: reserve_cases)
    case (existing x)
    from reservation_of_SomeD [OF existing(1)] have "strip rid \<in> pres_run_id ` set (publication_reservations d)"
      unfolding rq(2) by (metis imageI)
    with existing(2) show ?thesis by blast
  next
    case (reserved d2)
    have rows: "\<forall>r\<in>set (publication_reservations d). \<exists>u. supported u \<and> pres_reserved_at r = isoformat u"
      using assms(2) by (simp add: reservations_ok_def)
    note cap = capacity_instants [OF reserved(2) assms(5) rq(5,6,7,8) rows]
    have sc: "supported (req_cooldown_start req)" using rq(10-12) assms(5) by (simp add: supported_def)
    define new where "new = \<lparr>pres_run_id = req_run_id req, pres_repository = req_repository req,
      pres_reserved_at = isoformat (req_reserved_at req)\<rparr>"
    have "publication_reservations d' = publication_reservations d2"
      using append_event_frame [OF reserved(5)] by (rule same_outside_ledgerD(4))
    then have pr: "publication_reservations d' = publication_reservations d @ [new]"
      by (simp add: reserved(4) new_def)
    have "int (length (filter (on_utc_day t) (publication_reservations d'))) \<le> maximum"
      using cap(1) rq(4) by (auto simp: pr)
    moreover have "pr_reserved_at p = t" using reserved(3) rq(5) by simp
    ultimately show ?thesis using cap(2) sc rq(3,9,10) by auto
  qed
qed

text \<open>A reservation on record: found again, and returned without any further effect.\<close>

lemma reserve_recorded:
  assumes "reserve_in_transaction H d req clock' = Inr (d', p)" and "ledger_sound H d" and "reservations_ok d"
    and "request_ok req" and "length (publication_reservations d) < max_run_corpus"
  shows "\<exists>x. reservation_of (publication_reservations d') (req_run_id req) = Some x
      \<and> repository_identity (pres_repository x) = Inr (req_repository req)
      \<and> fromisoformat (pres_reserved_at x) = Some (pr_reserved_at p)"
    and "p = \<lparr>pr_run_id = req_run_id req, pr_repository = req_repository req, pr_reserved_at = pr_reserved_at p\<rparr>"
proof -
  note wf = reserve_keeps [OF assms]
  from assms(1-3) show "\<exists>x. reservation_of (publication_reservations d') (req_run_id req) = Some x
      \<and> repository_identity (pres_repository x) = Inr (req_repository req)
      \<and> fromisoformat (pres_reserved_at x) = Some (pr_reserved_at p)"
  proof (cases rule: reserve_cases)
    case (reserved d2)
    define new where "new = \<lparr>pres_run_id = req_run_id req, pres_repository = req_repository req,
      pres_reserved_at = isoformat (req_reserved_at req)\<rparr>"
    have "publication_reservations d' = publication_reservations d2"
      using append_event_frame [OF reserved(5)] by (rule same_outside_ledgerD(4))
    then have "new \<in> set (publication_reservations d')" by (simp add: reserved(4) new_def)
    moreover have "distinct (map pres_run_id (publication_reservations d'))" using wf by (simp add: reservations_ok_def)
    ultimately have "reservation_of (publication_reservations d') (pres_run_id new) = Some new"
      by (rule reservation_of_Some [rotated])
    then show ?thesis
      using assms(4) reserved(3) isoformat_read_back' [of "req_reserved_at req"] by (simp add: new_def request_ok_def)
  qed auto
  from assms(1-3) show "p = \<lparr>pr_run_id = req_run_id req, pr_repository = req_repository req, pr_reserved_at = pr_reserved_at p\<rparr>"
    by (cases rule: reserve_cases) auto
qed

lemma reserve_existing:
  assumes "ledger_sound H d" and "reservations_ok d" and "find_run d (req_run_id req) = Some q"
    and "\<forall>stored. row_repository q = Some stored \<longrightarrow> repository_identity stored = Inr (req_repository req)"
    and "reservation_of (publication_reservations d) (req_run_id req) = Some x"
    and "repository_identity (pres_repository x) = Inr (req_repository req)" and "fromisoformat (pres_reserved_at x) = Some t"
  shows "reserve_in_transaction H d req clock'
    = Inr (d, \<lparr>pr_run_id = req_run_id req, pr_repository = req_repository req, pr_reserved_at = t\<rparr>)"
proof -
  have own: "(case row_repository q of
           None \<Rightarrow> Inr ()
         | Some stored \<Rightarrow> bind_r (repository_identity stored) (\<lambda>repo'.
             if repo' \<noteq> req_repository req then
               Inl (StateError (''Run '' @ req_run_id req @ '' does not belong to '' @ req_repository req))
             else Inr ())) = Inr ()"
    using assms(4) by (cases "row_repository q") auto
  show ?thesis
    unfolding reserve_in_transaction_def reconcile_ok [OF assms(1,2)] bind_r.simps assms(3) option.case own assms(5,6)
    by (simp add: stored_datetime_def assms(7))
qed

lemma reserve_run:
  assumes "reserve_in_transaction H d req clock' = Inr (d', p)" and "ledger_sound H d" and "reservations_ok d"
  shows "same_rows d d'" and "\<exists>run. find_run d (req_run_id req) = Some run \<and> (\<forall>stored. row_repository run = Some stored
      \<longrightarrow> repository_identity stored = Inr (req_repository req))"
proof -
  show "\<exists>run. find_run d (req_run_id req) = Some run \<and> (\<forall>stored. row_repository run = Some stored
      \<longrightarrow> repository_identity stored = Inr (req_repository req))"
    using assms(1) by (auto simp: reserve_in_transaction_def reconcile_ok [OF assms(2,3)] result_simps
          split: option.splits if_splits)
  from assms show "same_rows d d'"
  proof (cases rule: reserve_cases)
    case (reserved d2)
    have "distinct (map row_run_id (runs d2))" using assms(2) by (simp add: reserved(4) ledger_sound_def)
    then have "same_rows d2 d'" by (rule append_event_rows(1) [OF reserved(5)])
    then show ?thesis by (simp add: reserved(4) same_rows_def)
  qed simp
qed

text \<open>
  A granted reservation leaves a store whose ledger and publication state verify, and
  reserving again for the same run with any limits and at any time returns the same reservation
  and changes nothing.
\<close>

theorem reservation_idempotent:
  assumes "ledger_sound H d" and "reservations_ok d" and "is_owner_name repo"
    and "now_or now clock = Aware t" and "supported t" and "length (publication_reservations d) < max_run_corpus"
    and "reserve_publication H d rid repo maximum cooldown now clock clock' = Inr (d', p)"
    and "returns (reservation_request rid repo maximum2 cooldown2 now2 clock2)"
    and "now_or now2 clock2 = Aware t2" and "supported t2"
  shows "ledger_sound H d' \<and> reservations_ok d' \<and> verify_publication_state H d' = Inr ()
    \<and> reserve_publication H d' rid repo maximum2 cooldown2 now2 clock2 clock2' = Inr (d', p)"
proof -
  from assms(7) obtain req where req: "reservation_request rid repo maximum cooldown now clock = Inr req"
    and r: "reserve_in_transaction H d req clock' = Inr (d', p)"
    by (auto simp: reserve_publication_def result_simps)
  note rq = request_Inr [OF req assms(3-5)]
  obtain req2 where req2: "reservation_request rid repo maximum2 cooldown2 now2 clock2 = Inr req2"
    using assms(8) by (auto simp: returns_iff)
  note rq2 = request_Inr [OF req2 assms(3,9,10)]
  have same: "req_run_id req2 = req_run_id req" "req_repository req2 = req_repository req" using rq rq2 by simp_all
  note wf = reserve_keeps [OF r assms(1,2) rq(1) assms(6)]
  from reserve_recorded [OF r assms(1,2) rq(1) assms(6)] obtain x where
    x: "reservation_of (publication_reservations d') (req_run_id req2) = Some x"
      "repository_identity (pres_repository x) = Inr (req_repository req2)"
      "fromisoformat (pres_reserved_at x) = Some (pr_reserved_at p)"
    and p: "p = \<lparr>pr_run_id = req_run_id req, pr_repository = req_repository req, pr_reserved_at = pr_reserved_at p\<rparr>"
    unfolding same by blast
  from reserve_run [OF r assms(1,2)] obtain q where q: "find_run d' (req_run_id req2) = Some q"
    "\<forall>stored. row_repository q = Some stored \<longrightarrow> repository_identity stored = Inr (req_repository req2)"
    unfolding same using same_rows_find_Some' [of d d' "req_run_id req"] blank_eqD(3) by metis
  have wf': "ledger_sound H d'" "reservations_ok d'" using wf by simp_all
  have "reserve_publication H d' rid repo maximum2 cooldown2 now2 clock2 clock2' = Inr (d', p)"
    using reserve_existing [OF wf' q x] p by (simp add: reserve_publication_def req2 same)
  then show ?thesis
    using wf' reconcile_ok [OF wf'] by (simp add: verify_publication_state_def)
qed

lemma reconcile_rows_keep:
  "reconcile_rows repair d es rows = Inr (d', rows') \<Longrightarrow> set rows \<subseteq> set rows' \<and> set es \<subseteq> set rows'
     \<and> (distinct (map pres_run_id rows) \<longrightarrow> distinct (map pres_run_id rows'))"
proof (induction repair d es rows arbitrary: d' rows' rule: reconcile_rows.induct)
  case (2 repair d e es rows)
  show ?case
  proof (cases "reservation_of rows (pres_run_id e)")
    case None
    then have "pres_run_id e \<notin> pres_run_id ` set rows" by (simp add: reservation_of_None)
    moreover from 2(3) None obtain d1 where d1: "repair" "insert_reservation d e = Inr d1"
      "reconcile_rows repair d1 es (rows @ [e]) = Inr (d', rows')"
      by (auto simp: result_simps split: if_splits)
    ultimately show ?thesis using 2(1) [OF None _ d1(2,3)] d1(1) by auto
  next
    case (Some r)
    with 2(3) have "r = e" "reconcile_rows repair d es rows = Inr (d', rows')" by (auto split: if_splits)
    with 2(2) [OF Some] reservation_of_SomeD [OF Some] show ?thesis by auto
  qed
qed simp

lemma bounded_rows_Inr:
  assumes "bounded_publication_rows d = Inr rows"
  shows "set rows = set (publication_reservations d) \<and> distinct (map pres_run_id rows)"
proof -
  define all where "all = sort_key pres_run_id (publication_reservations d)"
  from assms have "length (take (max_run_corpus + 1) all) \<le> max_run_corpus"
    and m: "map_result row_evidence (take (max_run_corpus + 1) all) = Inr rows" and "distinct (map pres_run_id rows)"
    by (auto simp: bounded_publication_rows_def all_def Let_def result_simps split: if_splits)
  moreover from this have t: "take (max_run_corpus + 1) all = all" by simp
  have same: "row_evidence x = Inr y \<Longrightarrow> y = x" for x y
    by (auto simp: row_evidence_def result_simps split: if_splits)
  from m have "list_all2 (\<lambda>x y. y = x) all rows"
    unfolding t map_result_Inr by (rule list_all2_mono) (rule same)
  then have "rows = all" by (simp add: list.rel_eq list_all2_conv_all_nth list_eq_iff_nth_eq)
  ultimately show ?thesis by (simp add: all_def)
qed

text \<open>
  C17. When rows of the reservation table are lost, reconciliation restores exactly the lost
  rows from the event ledger, and when any row was added or changed, every reconciliation is
  refused.
\<close>

theorem reservations_tamper_evident:
  assumes "ledger_sound H d" and "reservations_ok d" and "distinct (map pres_run_id rs)"
  shows "(set rs \<subseteq> set (publication_reservations d) \<longrightarrow>
      (\<exists>d'. reconcile_publication_state H (d\<lparr>publication_reservations := rs\<rparr>) True = Inr d'
        \<and> set (publication_reservations d') = set (publication_reservations d)
        \<and> d' = d\<lparr>publication_reservations := publication_reservations d'\<rparr>))
    \<and> (\<not> set rs \<subseteq> set (publication_reservations d) \<longrightarrow>
      \<not> returns (reconcile_publication_state H (d\<lparr>publication_reservations := rs\<rparr>) repair))"
proof -
  define d1 where "d1 = d\<lparr>publication_reservations := rs\<rparr>"
  have s1: "ledger_sound H d1" using assms(1) ledger_sound_anchors [of d1 d H] by (simp add: d1_def)
  from assms(2) obtain evs where ev: "publication_evidence d = Inr evs" "set evs = set (publication_reservations d)"
    "distinct (map pres_run_id (publication_reservations d))"
    and v: "\<forall>r\<in>set (publication_reservations d). row_evidence r = Inr r"
    and n: "length (publication_reservations d) \<le> max_run_corpus"
    by (rule reservations_okD)
  have ev1: "publication_evidence d1 = Inr evs" using ev(1) by (simp add: publication_evidence_def d1_def)
  have rec: "reconcile_publication_state H d1 repair = bind_r (bounded_publication_rows d1) (\<lambda>rows.
     bind_r (reconcile_rows repair d1 evs rows) (\<lambda>(d', rows').
     case List.find (\<lambda>r. pres_run_id r \<notin> pres_run_id ` set evs) rows' of
       Some r \<Rightarrow> Inl (StateError (''Run '' @ pres_run_id r @ '' publication reservation lacks ledger evidence''))
     | None \<Rightarrow> Inr d'))" for repair
    by (simp add: reconcile_publication_state_def sound_verify [OF s1] ev1)
  have restored: "\<exists>d'. reconcile_publication_state H d1 True = Inr d'
      \<and> set (publication_reservations d') = set (publication_reservations d)
      \<and> d' = d\<lparr>publication_reservations := publication_reservations d'\<rparr>"
    if sub: "set rs \<subseteq> set (publication_reservations d)"
  proof -
    have "length rs \<le> length (publication_reservations d)"
      using sub assms(3) ev(3) card_mono [OF finite_set sub] by (simp add: distinct_card distinct_map)
    then have b: "bounded_publication_rows d1 = Inr (sort_key pres_run_id rs)"
      using bounded_rows [of d1] sub v n assms(3) by (auto simp: d1_def)
    have "\<exists>d' rows'. reconcile_rows True d1 evs (sort_key pres_run_id rs) = Inr (d', rows')
        \<and> set rows' = set (sort_key pres_run_id rs) \<union> set evs
        \<and> set (publication_reservations d') = set (sort_key pres_run_id rs) \<union> set evs \<and> distinct (map pres_run_id rows')
        \<and> d' = d1\<lparr>publication_reservations := publication_reservations d'\<rparr>"
      by (rule reconcile_rows_repair [where all = "publication_reservations d"])
         (use sub ev assms(2,3) in \<open>auto simp: d1_def reservations_ok_def distinct_map\<close>)
    then obtain d' rows' where r: "reconcile_rows True d1 evs (sort_key pres_run_id rs) = Inr (d', rows')"
      "set rows' = set evs" "set (publication_reservations d') = set evs"
      "d' = d1\<lparr>publication_reservations := publication_reservations d'\<rparr>"
      using sub ev(2) by (auto simp: Un_absorb1)
    have "List.find (\<lambda>r. pres_run_id r \<notin> pres_run_id ` set evs) rows' = None"
      by (simp add: find_None r(2))
    with r b ev(2) show ?thesis by (simp add: rec) (simp add: d1_def)
  qed
  have refused: "\<not> returns (reconcile_publication_state H d1 repair)"
    if nsub: "\<not> set rs \<subseteq> set (publication_reservations d)"
  proof
    assume "returns (reconcile_publication_state H d1 repair)"
    then obtain d' where "reconcile_publication_state H d1 repair = Inr d'" by (auto simp: returns_iff)
    then obtain rows rows' where b: "bounded_publication_rows d1 = Inr rows"
      and r: "reconcile_rows repair d1 evs rows = Inr (d', rows')"
      and f: "List.find (\<lambda>r. pres_run_id r \<notin> pres_run_id ` set evs) rows' = None"
      by (auto simp: rec result_simps split: option.splits)
    note br = bounded_rows_Inr [OF b] and keep = reconcile_rows_keep [OF r]
    have "set rows' \<subseteq> set evs"
    proof
      fix x assume x: "x \<in> set rows'"
      then obtain y where y: "y \<in> set evs" "pres_run_id y = pres_run_id x"
        using f by (auto simp: find_None)
      then have "y \<in> set rows'" using keep by blast
      with x y keep br have "y = x" by (auto simp: distinct_map inj_on_def)
      with y show "x \<in> set evs" by simp
    qed
    with keep br ev(2) nsub show False by (auto simp: d1_def)
  qed
  show ?thesis using restored refused unfolding d1_def by blast
qed

section \<open>Examples\<close>

text \<open>The sample run with a reservation made for it at time 0 by the code itself.\<close>

lemma sample_run_supported [simp]: "supported 0" "supported 5"
  by (simp_all add: supported_def max_instant_def day_def second_def)

lemma sample_run_ok: "reservations_ok sample_run_db"
  by (simp add: reservations_ok_def publication_evidence_def sample_run_db_def create_schema_def sample_event_def)

lemma sample_run_sound: "ledger_sound sample_sha sample_run_db"
  using sample_store_wf by (simp add: store_wf_def)

lemma sample_owner: "is_owner_name ''o/n''" "nocase ''o/n'' = ''o/n''" "strip ''r'' = ''r''"
  by (simp_all add: is_owner_name_def is_name_char_def is_digit_def nocase_def strip_def rstrip_def is_space_def)

lemma sample_request:
  assumes "0 \<le> t" and "t \<le> 5"
  shows "reservation_request ''r'' ''o/n'' 1 0 (Some (Aware t)) 0 = Inr \<lparr>req_run_id = ''r'', req_repository = ''o/n'',
     req_max_per_utc_day = 1, req_reserved_at = t, req_day_start = 0, req_day_end = day, req_cooldown_start = t,
     req_enforce_cooldown = False\<rparr>"
proof -
  have "lease_identity ''r'' f = Inr ''r''" for f
    by (simp add: lease_identity_def sample_owner nul_char)
  moreover have "repository_identity ''o/n'' = Inr ''o/n''"
    using owner_identity [OF sample_owner(1)] by (simp add: sample_owner(2))
  moreover have "midnight t = 0" using assms by (simp add: midnight_def day_def second_def)
  ultimately show ?thesis
    using assms by (simp add: reservation_request_def shift_def max_instant_def day_def second_def)
qed

lemma sample_reserve:
  "\<exists>d'. reserve_publication sample_sha sample_run_db ''r'' ''o/n'' 1 0 (Some (Aware 0)) 0 0
     = Inr (d', \<lparr>pr_run_id = ''r'', pr_repository = ''o/n'', pr_reserved_at = 0\<rparr>)"
proof -
  have run: "find_run sample_run_db ''r'' = Some sample_row" "row_repository sample_row = None"
    by (simp_all add: find_run_def sample_run_db_def sample_row_def)
  have cap: "check_capacity sample_run_db \<lparr>req_run_id = ''r'', req_repository = ''o/n'', req_max_per_utc_day = 1,
      req_reserved_at = 0, req_day_start = 0, req_day_end = day, req_cooldown_start = 0, req_enforce_cooldown = False\<rparr> = Inr ()"
    by (simp add: check_capacity_def sample_run_db_def create_schema_def)
  have "\<exists>d'. append_event sample_sha (sample_run_db\<lparr>publication_reservations := rs\<rparr>) ''r'' ''publication.reserved''
      dts None 0 = Inr d'" for rs dts
    by (simp add: run_eval Let_def)
  moreover have "insert_reservation sample_run_db x = Inr (sample_run_db\<lparr>publication_reservations := [x]\<rparr>)"
    if "pres_run_id x = ''r''" for x
    using that by (simp add: insert_reservation_def sample_run_db_def sample_row_def create_schema_def)
  moreover have "publication_reservations sample_run_db = []" by (simp add: sample_run_db_def create_schema_def)
  ultimately show ?thesis
    by (simp add: reserve_publication_def sample_request reserve_in_transaction_def run cap Let_def
        reconcile_ok [OF sample_run_sound sample_run_ok] reservation_of_def) (metis bind_r.simps(2))
qed

lemma capacity_respected_witness:
  "\<exists>d' p. reserve_publication sample_sha sample_run_db ''r'' ''o/n'' 1 0 (Some (Aware 0)) 0 0 = Inr (d', p)
    \<and> pr_reserved_at p = 0 \<and> length (filter (on_utc_day 0) (publication_reservations d')) \<le> 1"
proof -
  obtain d' where r: "reserve_publication sample_sha sample_run_db ''r'' ''o/n'' 1 0 (Some (Aware 0)) 0 0
     = Inr (d', \<lparr>pr_run_id = ''r'', pr_repository = ''o/n'', pr_reserved_at = 0\<rparr>)"
    using sample_reserve by blast
  have "now_or (Some (Aware 0)) 0 = Aware 0" by (simp add: now_or_def)
  from capacity_respected [OF sample_run_sound sample_run_ok sample_owner(1) this sample_run_supported(1) r]
  have "int (length (filter (on_utc_day 0) (publication_reservations d'))) \<le> 1"
    by (auto simp: sample_run_db_def create_schema_def)
  with r show ?thesis by auto
qed

lemma reservation_idempotent_witness:
  "\<exists>d'. ledger_sound sample_sha d' \<and> verify_publication_state sample_sha d' = Inr ()
    \<and> reserve_publication sample_sha d' ''r'' ''o/n'' 1 0 (Some (Aware 5)) 0 9
      = Inr (d', \<lparr>pr_run_id = ''r'', pr_repository = ''o/n'', pr_reserved_at = 0\<rparr>)"
proof -
  obtain d' where r: "reserve_publication sample_sha sample_run_db ''r'' ''o/n'' 1 0 (Some (Aware 0)) 0 0
     = Inr (d', \<lparr>pr_run_id = ''r'', pr_repository = ''o/n'', pr_reserved_at = 0\<rparr>)"
    using sample_reserve by blast
  have n: "now_or (Some (Aware t)) 0 = Aware t" for t by (simp add: now_or_def)
  have "length (publication_reservations sample_run_db) < max_run_corpus"
    by (simp add: sample_run_db_def create_schema_def max_run_corpus_def)
  moreover have "returns (reservation_request ''r'' ''o/n'' 1 0 (Some (Aware 5)) 0)"
    by (simp add: sample_request)
  ultimately have "ledger_sound sample_sha d' \<and> reservations_ok d' \<and> verify_publication_state sample_sha d' = Inr ()
    \<and> reserve_publication sample_sha d' ''r'' ''o/n'' 1 0 (Some (Aware 5)) 0 9
      = Inr (d', \<lparr>pr_run_id = ''r'', pr_repository = ''o/n'', pr_reserved_at = 0\<rparr>)"
    by (rule reservation_idempotent [OF sample_run_sound sample_run_ok sample_owner(1) n sample_run_supported(1) _ r _ n
        sample_run_supported(2)])
  then show ?thesis by blast
qed

lemma reservations_tamper_evident_witness:
  "\<not> returns (reconcile_publication_state sample_sha (sample_run_db\<lparr>publication_reservations :=
      [\<lparr>pres_run_id = ''r'', pres_repository = ''o/n'', pres_reserved_at = isoformat 0\<rparr>]\<rparr>) True)"
proof -
  have "\<not> set [\<lparr>pres_run_id = ''r'', pres_repository = ''o/n'', pres_reserved_at = isoformat 0\<rparr>]
      \<subseteq> set (publication_reservations sample_run_db)"
    by (simp add: sample_run_db_def create_schema_def)
  then show ?thesis
    using reservations_tamper_evident [OF sample_run_sound sample_run_ok,
      of "[\<lparr>pres_run_id = ''r'', pres_repository = ''o/n'', pres_reserved_at = isoformat 0\<rparr>]" True] by simp
qed

end
