(* ===== verification/Transcript.thy ===== *)
theory Transcript
  imports Pricing
begin

text \<open>
  \<open>transcript.py\<close>: the provider-native transcript of a conversation, which is replayed in full on
  every request, and the upper bound on the input tokens of the next one.  The scrubbing of secrets
  and the JSON schemas of the submit tools, which are regular expressions and pydantic's, are
  parameters; JSON numbers are integers.
\<close>

section \<open>The size of a JSON value\<close>

text \<open>
  \<open>json.dumps(value, ensure_ascii=False, sort_keys=True, separators=(",", ":")).encode("utf-8")\<close>:
  only the quote, the backslash and the control characters are escaped.
\<close>

definition plain_char :: "char \<Rightarrow> string" where
  "plain_char c = (let n = code c in
     if n = 34 \<or> n = 92 then [CHR 0x5C, c]
     else if n = 10 then CHR 0x5C # ''n'' else if n = 13 then CHR 0x5C # ''r''
     else if n = 9 then CHR 0x5C # ''t'' else if n = 12 then CHR 0x5C # ''f''
     else if n = 8 then CHR 0x5C # ''b''
     else if n < 32 then CHR 0x5C # ''u00'' @ [hex_char (n div 16), hex_char (n mod 16)]
     else [c])"

definition plain_string :: "string \<Rightarrow> string" where
  "plain_string s = [CHR 0x22] @ concat (map plain_char s) @ [CHR 0x22]"

function plain_dumps :: "json \<Rightarrow> string" where
  "plain_dumps JNull = ''null''"
| "plain_dumps (JBool b) = (if b then ''true'' else ''false'')"
| "plain_dumps (JInt i) = int_text i"
| "plain_dumps (JStr s) = plain_string s"
| "plain_dumps (JList xs) = ''['' @ join '','' (map plain_dumps xs) @ '']''"
| "plain_dumps (JObj kvs) =
     ''{'' @ join '','' (map (\<lambda>kv. plain_string (fst kv) @ '':'' @ plain_dumps (snd kv)) (sort_key fst kvs)) @ ''}''"
  by pat_completeness auto
termination
proof (relation "measure size", goal_cases)
  case 1
  show ?case by simp
next
  case (2 xs x)
  then show ?case by (induction xs) auto
next
  case (3 kvs kv)
  then have "kv \<in> set kvs" by simp
  then show ?case by (induction kvs) (auto simp: size_prod_simp)
qed

text \<open>UTF-8 of the code points below 256: one byte below 128 and two above.\<close>

definition utf8 :: "string \<Rightarrow> nat list" where
  "utf8 s = concat (map (\<lambda>c. if code c < 128 then [code c] else [192 + code c div 64, 128 + code c mod 64]) s)"

definition json_size :: "json \<Rightarrow> int" where
  "json_size v = int (length (utf8 (plain_dumps v)))"

section \<open>Kinds and tools\<close>

datatype transcript_kind = Kind_setup | Kind_agent | Kind_critic | Kind_triage | Kind_policy

datatype tool_kind = Tool_shell | Tool_edit | Tool_submit

datatype turn_stop = Stop_tool_use | Stop_end_turn | Stop_max_output_tokens

fun tool_sets :: "transcript_kind \<Rightarrow> tool_kind list" where
  "tool_sets Kind_setup = [Tool_shell, Tool_edit, Tool_submit]"
| "tool_sets Kind_agent = [Tool_shell, Tool_edit, Tool_submit]"
| "tool_sets Kind_critic = [Tool_shell, Tool_submit]"
| "tool_sets Kind_triage = [Tool_submit]"
| "tool_sets Kind_policy = [Tool_submit]"

fun submit_name :: "transcript_kind \<Rightarrow> string" where
  "submit_name Kind_agent = ''submit''"
| "submit_name Kind_setup = ''submit_setup''"
| "submit_name Kind_critic = ''submit_review''"
| "submit_name Kind_triage = ''submit_triage''"
| "submit_name Kind_policy = ''submit_policy''"

fun submit_description :: "transcript_kind \<Rightarrow> string" where
  "submit_description Kind_agent = ''Call this when the fix is complete and its tests pass, or with outcome skip to give ''
     @ ''up on the issue. The result reports the controller's checks of your change.''"
| "submit_description Kind_setup = ''Call this once the test command runs in this container. The controller replays the ''
     @ ''recipe in a fresh container before using it.''"
| "submit_description Kind_critic = ''Call this once, with your verdict, after checking the change.''"
| "submit_description Kind_triage = ''Call this once with your assessment of the issue.''"
| "submit_description Kind_policy = ''Call this once with your classification of the repository's AI contribution policy.''"

fun native_shell :: "provider \<Rightarrow> string" where
  "native_shell Openai = ''shell''"
| "native_shell Anthropic = ''bash''"

fun native_edit :: "provider \<Rightarrow> string" where
  "native_edit Openai = ''apply_patch''"
| "native_edit Anthropic = ''str_replace_based_edit_tool''"

fun shell_tool :: "provider \<Rightarrow> json" where
  "shell_tool Openai = JObj [(''type'', JStr ''shell''), (''environment'', JObj [(''type'', JStr ''local'')])]"
| "shell_tool Anthropic = JObj [(''type'', JStr ''bash_20250124''), (''name'', JStr ''bash'')]"

fun edit_tool :: "provider \<Rightarrow> json" where
  "edit_tool Openai = JObj [(''type'', JStr ''apply_patch'')]"
| "edit_tool Anthropic = JObj [(''type'', JStr ''text_editor_20250728''), (''name'', JStr ''str_replace_based_edit_tool'')]"

text \<open>\<open>schema\<close>: \<open>strict_json_schema\<close> of the kind's submission model.\<close>

fun submit_definition :: "(transcript_kind \<Rightarrow> json) \<Rightarrow> provider \<Rightarrow> transcript_kind \<Rightarrow> json" where
  "submit_definition schema Openai k = JObj [(''type'', JStr ''function''), (''name'', JStr (submit_name k)),
     (''description'', JStr (submit_description k)), (''parameters'', schema k), (''strict'', JBool True)]"
| "submit_definition schema Anthropic k = JObj [(''name'', JStr (submit_name k)),
     (''description'', JStr (submit_description k)), (''input_schema'', schema k), (''strict'', JBool True)]"

definition tool_definitions :: "(transcript_kind \<Rightarrow> json) \<Rightarrow> provider \<Rightarrow> transcript_kind \<Rightarrow> json list" where
  "tool_definitions schema p k = map (\<lambda>t. case t of Tool_shell \<Rightarrow> shell_tool p | Tool_edit \<Rightarrow> edit_tool p
     | Tool_submit \<Rightarrow> submit_definition schema p k) (tool_sets k)"

definition tool_call_names :: "provider \<Rightarrow> transcript_kind \<Rightarrow> string set" where
  "tool_call_names p k = (\<lambda>t. case t of Tool_shell \<Rightarrow> native_shell p | Tool_edit \<Rightarrow> native_edit p
     | Tool_submit \<Rightarrow> submit_name k) ` set (tool_sets k)"

section \<open>Turns and results\<close>

record tool_call =
  call_id :: string
  call_name :: string
  call_arguments :: "(string \<times> json) list"

record shell_chunk =
  chunk_stdout :: string
  chunk_stderr :: string
  chunk_exit_code :: "int option"

datatype tool_output = Output_text string | Output_chunks "shell_chunk list"

record tool_result =
  result_call_id :: string
  result_output :: tool_output
  result_is_error :: bool

record turn =
  turn_stop :: turn_stop
  turn_output_items :: "json list"
  turn_tool_calls :: "tool_call list"
  turn_response_id :: string
  turn_model :: string
  turn_usage :: model_usage

text \<open>The validators \<open>error_flag_needs_text\<close> and \<open>calls_match_the_stop\<close>, and the pattern of a call id.\<close>

definition valid_result :: "tool_result \<Rightarrow> bool" where
  "valid_result r \<longleftrightarrow> (result_is_error r \<longrightarrow> (case result_output r of Output_text _ \<Rightarrow> True | Output_chunks _ \<Rightarrow> False))"

definition is_call_id :: "string \<Rightarrow> bool" where
  "is_call_id s \<longleftrightarrow> 1 \<le> length s \<and> length s \<le> 128 \<and> list_all (\<lambda>c. is_name_char c \<and> c \<noteq> CHR ''.'') s"

definition valid_turn :: "turn \<Rightarrow> bool" where
  "valid_turn t \<longleftrightarrow> (turn_stop t = Stop_tool_use \<longleftrightarrow> turn_tool_calls t \<noteq> [])
     \<and> (turn_stop t = Stop_max_output_tokens \<longrightarrow> turn_output_items t = [])
     \<and> distinct (map call_id (turn_tool_calls t)) \<and> list_all (\<lambda>c. is_call_id (call_id c)) (turn_tool_calls t)"

section \<open>The transcript\<close>

record transcript =
  tr_model :: string
  tr_effort :: effort
  tr_kind :: transcript_kind
  tr_run_id :: string
  tr_instructions :: string
  tr_items :: "json list"
  tr_pending_calls :: "tool_call list"
  tr_prior_input_tokens :: "int option"
  tr_prior_output_tokens :: int
  tr_prior_output_items :: int
  tr_appended_bytes :: int
  tr_appended_items :: int

text \<open>The provider of the model, which \<open>Transcript\<close>'s validator looked up in the table.\<close>

definition tr_provider :: "transcript \<Rightarrow> provider" where
  "tr_provider t = (case models_table (tr_model t) of Some s \<Rightarrow> spec_provider s | None \<Rightarrow> Openai)"

definition awaiting_model :: "transcript \<Rightarrow> bool" where
  "awaiting_model t \<longleftrightarrow> 0 < tr_appended_items t \<and> tr_pending_calls t = []"

definition append_items :: "transcript \<Rightarrow> json list \<Rightarrow> int \<Rightarrow> transcript" where
  "append_items t xs counted = t\<lparr>tr_items := tr_items t @ xs,
     tr_appended_bytes := tr_appended_bytes t + sum_list (map json_size xs),
     tr_appended_items := tr_appended_items t + counted\<rparr>"

definition openai_user_message :: "string \<Rightarrow> json" where
  "openai_user_message s = JObj [(''type'', JStr ''message''), (''role'', JStr ''user''),
     (''content'', JList [JObj [(''type'', JStr ''input_text''), (''text'', JStr s)]])]"

definition text_block :: "string \<Rightarrow> json" where
  "text_block s = JObj [(''type'', JStr ''text''), (''text'', JStr s)]"

definition user_content :: "json list \<Rightarrow> json" where
  "user_content blocks = JObj [(''role'', JStr ''user''), (''content'', JList blocks)]"

fun content_of :: "json \<Rightarrow> json list result" where
  "content_of (JObj kvs) = (case map_of kvs ''content'' of Some (JList xs) \<Rightarrow> Inr xs | _ \<Rightarrow> Inl (ValueError ''content''))"
| "content_of _ = Inl (ValueError ''content'')"

text \<open>
  On Anthropic the text joins the user message that has had no reply yet.  \<open>transcript.items[-1]\<close> of
  no items raises an \<open>IndexError\<close>.
\<close>

definition append_user_text :: "(string \<Rightarrow> string) \<Rightarrow> transcript \<Rightarrow> string \<Rightarrow> transcript result" where
  "append_user_text scrub t s =
     (if tr_pending_calls t \<noteq> [] then Inl (ValueError ''tool calls are waiting for their results'')
      else if tr_provider t = Openai then Inr (append_items t [openai_user_message (scrub s)] 1)
      else if tr_appended_items t = 0 then Inr (append_items t [user_content [text_block (scrub s)]] 1)
      else if tr_items t = [] then Inl IndexError
      else
        bind_r (content_of (last (tr_items t))) (\<lambda>content.
        let joined = user_content (content @ [text_block (scrub s)])
        in Inr (t\<lparr>tr_items := butlast (tr_items t) @ [joined],
             tr_appended_bytes := tr_appended_bytes t + (json_size joined - json_size (last (tr_items t))),
             tr_appended_items := tr_appended_items t + 1\<rparr>)))"

text \<open>\<open>_RUN_ID_PATTERN\<close>, which pydantic's regular expressions match to the end of the text.\<close>

definition run_id_pattern :: "string \<Rightarrow> bool" where
  "run_id_pattern s \<longleftrightarrow> 1 \<le> length s \<and> length s \<le> 64 \<and> list_all (\<lambda>c. is_name_char c \<and> c \<noteq> CHR ''.'') s"

definition start_transcript :: "(string \<Rightarrow> string) \<Rightarrow> string \<Rightarrow> effort \<Rightarrow> transcript_kind \<Rightarrow> string \<Rightarrow> string \<Rightarrow> string
    \<Rightarrow> transcript result" where
  "start_transcript scrub model effort kind rid instructions task =
     (case models_table model of
        None \<Rightarrow> Inl (ValueError ''model must be an id from the built-in model table'')
      | Some spec \<Rightarrow>
        if \<not> run_id_pattern rid then Inl (ValueError ''run_id: String should match pattern'')
        else if effort \<notin> spec_efforts spec then Inl (ValueError (model @ '' does not support the reasoning effort''))
        else append_user_text scrub \<lparr>tr_model = model, tr_effort = effort, tr_kind = kind, tr_run_id = rid,
          tr_instructions = scrub instructions, tr_items = [], tr_pending_calls = [], tr_prior_input_tokens = None,
          tr_prior_output_tokens = 0, tr_prior_output_items = 0, tr_appended_bytes = 0, tr_appended_items = 0\<rparr> task)"

definition append_turn :: "transcript \<Rightarrow> turn \<Rightarrow> transcript result" where
  "append_turn t turn =
     (if turn_stop turn = Stop_max_output_tokens then
        Inl (ValueError ''a turn cut off at its output limit is retried, never appended'')
      else if \<not> awaiting_model t then Inl (ValueError ''the transcript is not waiting for a model turn'')
      else Inr (t\<lparr>tr_items := tr_items t @ (case tr_provider t of Openai \<Rightarrow> turn_output_items turn
            | Anthropic \<Rightarrow> [JObj [(''role'', JStr ''assistant''), (''content'', JList (turn_output_items turn))]]),
          tr_pending_calls := turn_tool_calls turn,
          tr_prior_input_tokens := Some (usage_input_tokens (turn_usage turn)),
          tr_prior_output_tokens := usage_output_tokens (turn_usage turn),
          tr_prior_output_items := int (length (turn_output_items turn)),
          tr_appended_bytes := 0, tr_appended_items := 0\<rparr>))"

section \<open>Tool results\<close>

definition scrubbed :: "(string \<Rightarrow> string) \<Rightarrow> tool_result \<Rightarrow> tool_result" where
  "scrubbed scrub r = r\<lparr>result_output := (case result_output r of
     Output_text s \<Rightarrow> Output_text (scrub s)
   | Output_chunks cs \<Rightarrow> Output_chunks (map (\<lambda>c. c\<lparr>chunk_stdout := scrub (chunk_stdout c),
       chunk_stderr := scrub (chunk_stderr c)\<rparr>) cs))\<rparr>"

definition result_text :: "tool_result \<Rightarrow> string result" where
  "result_text r = (case result_output r of Output_text s \<Rightarrow> Inr s
     | Output_chunks _ \<Rightarrow> Inl (ValueError ''only OpenAI shell results are output chunks''))"

definition shell_chunk_json :: "shell_chunk \<Rightarrow> json" where
  "shell_chunk_json c = JObj [(''stdout'', JStr (chunk_stdout c)), (''stderr'', JStr (chunk_stderr c)),
     (''outcome'', case chunk_exit_code c of None \<Rightarrow> JObj [(''type'', JStr ''timeout'')]
        | Some x \<Rightarrow> JObj [(''type'', JStr ''exit''), (''exit_code'', JInt x)])]"

definition openai_result :: "tool_call \<Rightarrow> tool_result \<Rightarrow> json result" where
  "openai_result c r =
     (if call_name c = native_shell Openai then
        (case (result_output r, map_of (call_arguments c) ''commands'') of
           (Output_chunks chunks, Some (JList commands)) \<Rightarrow>
             if length chunks \<noteq> length commands then
               Inl (ValueError ''an OpenAI shell result needs one output chunk per command'')
             else Inr (JObj ([(''type'', JStr ''shell_call_output''), (''call_id'', JStr (call_id c)),
                 (''output'', JList (map shell_chunk_json chunks))]
               @ (case map_of (call_arguments c) ''max_output_length'' of
                    None \<Rightarrow> [] | Some v \<Rightarrow> if v = JNull then [] else [(''max_output_length'', v)])))
         | _ \<Rightarrow> Inl (ValueError ''an OpenAI shell result needs one output chunk per command''))
      else if call_name c = native_edit Openai then
        bind_r (result_text r) (\<lambda>s. Inr (JObj [(''type'', JStr ''apply_patch_call_output''), (''call_id'', JStr (call_id c)),
          (''status'', JStr (if result_is_error r then ''failed'' else ''completed'')), (''output'', JStr s)]))
      else
        bind_r (result_text r) (\<lambda>s. Inr (JObj [(''type'', JStr ''function_call_output''), (''call_id'', JStr (call_id c)),
          (''output'', JStr s)])))"

definition anthropic_result :: "tool_call \<Rightarrow> tool_result \<Rightarrow> json result" where
  "anthropic_result c r = bind_r (result_text r) (\<lambda>s. Inr (JObj ([(''type'', JStr ''tool_result''),
     (''tool_use_id'', JStr (call_id c)), (''content'', JStr s)] @ (if result_is_error r then [(''is_error'', JBool True)] else []))))"

definition append_tool_results :: "(string \<Rightarrow> string) \<Rightarrow> transcript \<Rightarrow> tool_result list \<Rightarrow> transcript result" where
  "append_tool_results scrub t results =
     (let calls = tr_pending_calls t; pairs = zip calls (map (scrubbed scrub) results) in
      if calls = [] then Inl (ValueError ''the transcript has no pending tool calls'')
      else if map result_call_id results \<noteq> map call_id calls then
        Inl (ValueError ''results must answer every pending tool call once, in call order'')
      else
        bind_r (if tr_provider t = Openai then map_result (\<lambda>(c, r). openai_result c r) pairs
          else bind_r (map_result (\<lambda>(c, r). anthropic_result c r) pairs) (\<lambda>content. Inr [user_content content])) (\<lambda>xs.
        Inr (append_items (t\<lparr>tr_pending_calls := []\<rparr>) xs (int (length results)))))"

section \<open>The next request\<close>

definition item_overhead_tokens :: int where
  "item_overhead_tokens = 64"

definition reservation_slack_tokens :: int where
  "reservation_slack_tokens = 1024"

definition next_input_reservation :: "(transcript_kind \<Rightarrow> json) \<Rightarrow> transcript \<Rightarrow> int" where
  "next_input_reservation schema t = (case tr_prior_input_tokens t of
     None \<Rightarrow> json_size (JStr (tr_instructions t)) + json_size (JList (tool_definitions schema (tr_provider t) (tr_kind t)))
       + json_size (JList (tr_items t)) + reservation_slack_tokens
   | Some prior \<Rightarrow> prior + tr_prior_output_tokens t + tr_appended_bytes t
       + item_overhead_tokens * (tr_prior_output_items t + tr_appended_items t) + reservation_slack_tokens)"

section \<open>What a conversation keeps\<close>

text \<open>What is added between two turns, and a whole conversation.\<close>

inductive added :: "(string \<Rightarrow> string) \<Rightarrow> transcript \<Rightarrow> transcript \<Rightarrow> bool" for scrub t where
  added_nothing: "added scrub t t"
| added_text: "added scrub t u \<Longrightarrow> append_user_text scrub u s = Inr v \<Longrightarrow> added scrub t v"
| added_results: "added scrub t u \<Longrightarrow> append_tool_results scrub u rs = Inr v \<Longrightarrow> added scrub t v"

inductive continued :: "(string \<Rightarrow> string) \<Rightarrow> transcript \<Rightarrow> transcript \<Rightarrow> bool" for scrub t where
  continued_here: "continued scrub t t"
| continued_added: "continued scrub t u \<Longrightarrow> added scrub u v \<Longrightarrow> continued scrub t v"
| continued_turn: "continued scrub t u \<Longrightarrow> append_turn u turn = Inr v \<Longrightarrow> continued scrub t v"

text \<open>
  \<open>u\<close> has the items of a base and further ones, which are accounted for on top of what was counted
  before; something was added since the last turn only if there are further items.
\<close>

definition extends :: "json list \<Rightarrow> int \<Rightarrow> transcript \<Rightarrow> json list \<Rightarrow> bool" where
  "extends base counted u new \<longleftrightarrow> tr_items u = base @ new
     \<and> tr_appended_bytes u = counted + sum_list (map json_size new) \<and> int (length new) \<le> tr_appended_items u
     \<and> (0 < tr_appended_items u \<longrightarrow> new \<noteq> [])"

definition same_turn :: "transcript \<Rightarrow> transcript \<Rightarrow> bool" where
  "same_turn t u \<longleftrightarrow> tr_prior_input_tokens u = tr_prior_input_tokens t \<and> tr_prior_output_tokens u = tr_prior_output_tokens t
     \<and> tr_prior_output_items u = tr_prior_output_items t \<and> tr_provider u = tr_provider t \<and> tr_kind u = tr_kind t
     \<and> tr_instructions u = tr_instructions t"

lemma append_items_extends:
  assumes "extends base n u new" and "xs \<noteq> []" and "int (length xs) \<le> k"
  shows "extends base n (append_items u xs k) (new @ xs)"
  using assms by (auto simp: extends_def append_items_def)

lemma append_items_same [simp]: "same_turn t (append_items u xs k) \<longleftrightarrow> same_turn t u"
  by (simp add: same_turn_def append_items_def tr_provider_def)

lemma append_user_text_extends:
  assumes a: "append_user_text scrub u s = Inr v" and e: "extends base n u new"
  shows "same_turn u v \<and> (\<exists>new'. extends base n v new')"
proof (cases "tr_provider u = Openai \<or> tr_appended_items u = 0")
  case True
  with a obtain x where "v = append_items u [x] 1"
    by (auto simp: append_user_text_def split: if_splits)
  with append_items_extends [OF e, of "[x]" 1] show ?thesis by (auto simp: same_turn_def append_items_def tr_provider_def)
next
  case False
  with a obtain content where c: "content_of (last (tr_items u)) = Inr content" and
    v: "v = u\<lparr>tr_items := butlast (tr_items u) @ [user_content (content @ [text_block (scrub s)])],
      tr_appended_bytes := tr_appended_bytes u + (json_size (user_content (content @ [text_block (scrub s)]))
        - json_size (last (tr_items u))), tr_appended_items := tr_appended_items u + 1\<rparr>"
    by (auto simp: append_user_text_def result_simps Let_def split: if_splits)
  have "0 \<le> tr_appended_items u" using e by (auto simp: extends_def)
  with False e have "new \<noteq> []" by (auto simp: extends_def)
  then obtain ys y where "new = ys @ [y]" by (metis rev_exhaust)
  with e v have "extends base n v (ys @ [user_content (content @ [text_block (scrub s)])])"
    by (auto simp: extends_def butlast_append)
  moreover have "same_turn u v" by (simp add: v same_turn_def tr_provider_def)
  ultimately show ?thesis by blast
qed

lemma append_tool_results_extends:
  assumes a: "append_tool_results scrub u rs = Inr v" and e: "extends base n u new"
  shows "same_turn u v \<and> (\<exists>new'. extends base n v new')"
proof -
  let ?u = "u\<lparr>tr_pending_calls := []\<rparr>"
  from a obtain xs where v: "v = append_items ?u xs (int (length rs))"
    and calls: "tr_pending_calls u \<noteq> []" "map result_call_id rs = map call_id (tr_pending_calls u)"
    and xs: "map_result (\<lambda>(c, r). openai_result c r) (zip (tr_pending_calls u) (map (scrubbed scrub) rs)) = Inr xs
      \<or> (\<exists>content. xs = [user_content content])"
    by (auto simp: append_tool_results_def result_simps Let_def split: if_splits)
  have len: "length rs = length (tr_pending_calls u)" using calls(2) by (metis length_map)
  with calls(1) have rs: "1 \<le> int (length rs)" by (cases "tr_pending_calls u") auto
  have "xs \<noteq> [] \<and> int (length xs) \<le> int (length rs)"
    using xs rs len calls(1) by (auto simp: map_result_Inr dest!: list_all2_lengthD)
  moreover have "extends base n ?u new" using e by (simp add: extends_def)
  ultimately have "extends base n v (new @ xs)" unfolding v by (intro append_items_extends) auto
  moreover have "same_turn u v" by (simp add: v same_turn_def append_items_def tr_provider_def)
  ultimately show ?thesis by blast
qed

lemma same_turn_trans: "same_turn t u \<Longrightarrow> same_turn u v \<Longrightarrow> same_turn t v"
  by (simp add: same_turn_def)

lemma added_extends:
  assumes "added scrub t u" and "extends base n t new"
  shows "same_turn t u \<and> (\<exists>new'. extends base n u new')"
  using assms
proof (induction rule: added.induct)
  case added_nothing
  then show ?case by (auto simp: same_turn_def)
next
  case (added_text u s v)
  then show ?case using append_user_text_extends [of scrub u s v base n] same_turn_trans by blast
next
  case (added_results u rs v)
  then show ?case using append_tool_results_extends [of scrub u rs v base n] same_turn_trans by blast
qed

lemma append_turn_Inr:
  assumes "append_turn t turn = Inr u"
  shows "\<exists>out. tr_items u = tr_items t @ out" and "tr_appended_items u = 0" and "tr_appended_bytes u = 0"
    and "awaiting_model t" and "tr_prior_input_tokens u = Some (usage_input_tokens (turn_usage turn))"
    and "tr_prior_output_tokens u = usage_output_tokens (turn_usage turn)"
    and "tr_prior_output_items u = int (length (turn_output_items turn))" and "tr_pending_calls u = turn_tool_calls turn"
  using assms by (auto simp: append_turn_def split: if_splits)

lemma turn_extends: "append_turn t turn = Inr u \<Longrightarrow> extends (tr_items u) 0 u []"
  by (simp add: extends_def append_turn_Inr)

lemma continued_prefix:
  assumes "continued scrub u v" and "extends base 0 u []"
  shows "\<exists>new more. extends new 0 v more \<and> (\<exists>ys. new = base @ ys)"
  using assms
proof (induction rule: continued.induct)
  case (continued_added u v)
  then show ?case using added_extends by metis
next
  case (continued_turn u turn v)
  then obtain new more ys where "extends new 0 u more" "new = base @ ys" by blast
  moreover obtain out where "tr_items v = tr_items u @ out" using append_turn_Inr(1) [OF continued_turn(2)] by blast
  ultimately have "tr_items v = base @ (ys @ more @ out)" by (simp add: extends_def)
  with turn_extends [OF continued_turn(2)] show ?case by metis
qed blast

text \<open>
  Whatever is appended to a transcript after a turn, further turns included, the items of
  that turn and of everything before it stay its first items: each request replays the earlier
  ones unchanged.
\<close>

theorem transcript_only_grows:
  assumes "append_turn t turn = Inr u" and "continued scrub u v"
  shows "\<exists>out new. tr_items u = tr_items t @ out \<and> tr_items v = tr_items u @ new"
proof -
  obtain out where "tr_items u = tr_items t @ out" using append_turn_Inr(1) [OF assms(1)] by blast
  moreover obtain new more ys where "extends new 0 v more" "new = tr_items u @ ys"
    using continued_prefix [OF assms(2) turn_extends [OF assms(1)]] by blast
  ultimately show ?thesis by (auto simp: extends_def)
qed

text \<open>
  C39. After a turn, the reservation for the next request covers that turn at its billed tokens
  and every byte and item appended since, also when texts are joined into one message.
\<close>

theorem reservation_covers_additions:
  assumes "append_turn t turn = Inr u" and "added scrub u v"
  shows "\<exists>new. tr_items v = tr_items u @ new
    \<and> usage_input_tokens (turn_usage turn) + usage_output_tokens (turn_usage turn) + sum_list (map json_size new)
        + item_overhead_tokens * int (length (turn_output_items turn) + length new) + reservation_slack_tokens
      \<le> next_input_reservation schema v"
proof -
  from added_extends [OF assms(2) turn_extends [OF assms(1)]] obtain new where
    "same_turn u v" "extends (tr_items u) 0 v new" by blast
  then show ?thesis
    by (intro exI [of _ new])
       (auto simp: extends_def same_turn_def next_input_reservation_def append_turn_Inr [OF assms(1)] item_overhead_tokens_def)
qed

section \<open>Examples\<close>

definition sample_turn :: turn where
  "sample_turn = \<lparr>turn_stop = Stop_end_turn, turn_output_items = [text_block ''I will look.''], turn_tool_calls = [],
     turn_response_id = ''m'', turn_model = ''claude-opus-5-5'',
     turn_usage = \<lparr>usage_input_tokens = 90, usage_cached_input_tokens = 0, usage_cache_write_tokens = 0,
       usage_output_tokens = 9, usage_reasoning_tokens = 0, usage_total_tokens = 99\<rparr>\<rparr>"

lemma sample_conversation:
  "\<exists>t u v. start_transcript id ''claude-opus-5-5'' Effort_high Kind_agent ''r'' ''Fix it.'' ''The issue.'' = Inr t
    \<and> append_turn t sample_turn = Inr u \<and> append_user_text id u ''Continue the task.'' = Inr v"
  by (simp add: start_transcript_def run_id_pattern_def is_name_char_def append_user_text_def tr_provider_def models_table_def
      specs_def spec_defs all_efforts_def append_items_def append_turn_def sample_turn_def awaiting_model_def)

lemma transcript_only_grows_witness:
  "\<exists>t u v out new. start_transcript id ''claude-opus-5-5'' Effort_high Kind_agent ''r'' ''Fix it.'' ''The issue.'' = Inr t
    \<and> append_turn t sample_turn = Inr u \<and> append_user_text id u ''Continue the task.'' = Inr v
    \<and> tr_items v = tr_items t @ out @ new"
proof -
  obtain t u v where c: "start_transcript id ''claude-opus-5-5'' Effort_high Kind_agent ''r'' ''Fix it.'' ''The issue.'' = Inr t"
    "append_turn t sample_turn = Inr u" "append_user_text id u ''Continue the task.'' = Inr v"
    using sample_conversation by blast
  have "continued id u v" by (blast intro: c(3) added.intros continued.intros)
  with transcript_only_grows [OF c(2)] c show ?thesis by (metis append.assoc)
qed

lemma reservation_covers_additions_witness:
  "\<exists>t u v new. start_transcript id ''claude-opus-5-5'' Effort_high Kind_agent ''r'' ''Fix it.'' ''The issue.'' = Inr t
    \<and> append_turn t sample_turn = Inr u \<and> append_user_text id u ''Continue the task.'' = Inr v
    \<and> tr_items v = tr_items u @ new \<and> 90 + 9 + sum_list (map json_size new) + 64 * int (1 + length new) + 1024
      \<le> next_input_reservation (\<lambda>_. JNull) v"
proof -
  obtain t u v where c: "start_transcript id ''claude-opus-5-5'' Effort_high Kind_agent ''r'' ''Fix it.'' ''The issue.'' = Inr t"
    "append_turn t sample_turn = Inr u" "append_user_text id u ''Continue the task.'' = Inr v"
    using sample_conversation by blast
  have "added id u v" by (blast intro: c(3) added.intros)
  from reservation_covers_additions [OF c(2) this, of "\<lambda>_. JNull"] c show ?thesis
    by (auto simp: sample_turn_def item_overhead_tokens_def reservation_slack_tokens_def)
qed

end
