(* ===== verification/Budget.thy ===== *)
theory Budget
  imports Reservations Transcript
begin

text \<open>
  \<open>budget.py\<close>: the model budget of a run.  A request is reserved at its worst case and saved before
  it is sent, its actual usage is settled afterwards, and a failed request stays reserved until it
  is charged in full.  The saves are those of \<open>Runs\<close>, so the totals live in the stored manifest;
  what each scope spent is kept in memory.

  \<open>Decimal\<close> amounts and the seconds of the clock are rationals.  The amounts have few decimals and
  prices are at most 45 per million tokens, so the context's 28 digits also decide the one division
  exactly before it is floored.
\<close>

section \<open>Scopes\<close>

record scope_limits =
  max_turns :: nat
  cap_share :: "rat option"
  floor_share :: rat

definition scopes :: "role \<Rightarrow> scope_limits" where
  "scopes s = (case s of
     Setup \<Rightarrow> \<lparr>max_turns = 40, cap_share = Some (15/100), floor_share = 0\<rparr>
   | Agent \<Rightarrow> \<lparr>max_turns = 100, cap_share = Some (55/100), floor_share = 0\<rparr>
   | Critic \<Rightarrow> \<lparr>max_turns = 40, cap_share = None, floor_share = 20/100\<rparr>
   | Triage \<Rightarrow> \<lparr>max_turns = 1, cap_share = Some (10/100), floor_share = 0\<rparr>)"

text \<open>\<open>daily_budget_left\<close> over \<open>model_cost_since\<close>.\<close>

definition daily_headroom_share :: rat where
  "daily_headroom_share = 25/100"

definition daily_budget_left :: "(instant \<Rightarrow> rat) \<Rightarrow> db \<Rightarrow> rat \<Rightarrow> rat \<Rightarrow> datetime option \<Rightarrow> instant \<Rightarrow> rat option result" where
  "daily_budget_left JD d per_day per_run now clock =
     bind_r (case now_or now clock of
         Aware t \<Rightarrow> bind_r (shift t (- day)) (\<lambda>u. Inr (Aware u))
       | x \<Rightarrow> Inr x) (\<lambda>since.
     bind_r (model_cost_since JD d since) (\<lambda>spent.
     Inr (if per_run * daily_headroom_share \<le> per_day - spent then Some (per_day - spent) else None)))"

section \<open>The budget of a run\<close>

text \<open>
  What an operation meets outside the budget: the run's lease check, the readings of the budget
  clock, and the wall clock's for the save and its event.
\<close>

record surroundings =
  lease_check :: "unit result"
  budget_clock :: rat
  budget_clock_after :: rat
  wall_clock :: instant
  save_clock :: instant
  event_clock :: instant

text \<open>The functions of the store, and the texts of amounts and seconds, which only events and messages show.\<close>

record store_env =
  env_digest :: digest
  env_dump :: dump
  env_writer :: writer
  env_remover :: "string \<Rightarrow> bool"
  env_text :: "rat \<Rightarrow> string"

record run_budget =
  budget_manifest :: run_manifest
  max_cost_usd :: rat
  max_model_calls :: int
  deadline :: rat
  spent :: "role \<Rightarrow> rat"

record reservation =
  rv_call :: int
  rv_scope :: role
  rv_spec :: model_spec
  rv_input_tokens :: int
  rv_output_tokens :: int
  rv_cost_usd :: rat
  rv_timeout_seconds :: rat
  rv_started :: rat

definition new_budget :: "run_manifest \<Rightarrow> rat \<Rightarrow> int \<Rightarrow> rat \<Rightarrow> rat \<Rightarrow> run_budget result" where
  "new_budget m max_cost max_calls max_run_minutes clock =
     (if max_cost \<le> 0 \<or> max_calls < 1 \<or> max_run_minutes \<le> 0 then Inl (ValueError ''budget limits must be positive'')
      else Inr \<lparr>budget_manifest = m, max_cost_usd = max_cost, max_model_calls = max_calls,
        deadline = clock + max_run_minutes * 60, spent = (\<lambda>_. 0)\<rparr>)"

definition seconds_left :: "run_budget \<Rightarrow> rat \<Rightarrow> rat" where
  "seconds_left b clock = max 0 (deadline b - clock)"

definition command_timeout :: "run_budget \<Rightarrow> int \<Rightarrow> rat \<Rightarrow> int" where
  "command_timeout b limit_seconds clock = min limit_seconds \<lfloor>seconds_left b clock\<rfloor>"

definition scope_size :: "run_budget \<Rightarrow> role \<Rightarrow> rat" where
  "scope_size b s = (case cap_share (scopes s) of Some x \<Rightarrow> x | None \<Rightarrow> floor_share (scopes s)) * max_cost_usd b"

definition pending_cost :: "run_manifest \<Rightarrow> rat" where
  "pending_cost m = (case model_reservation m of None \<Rightarrow> 0 | Some p \<Rightarrow> res_cost_usd p)"

definition cost_left :: "run_budget \<Rightarrow> role \<Rightarrow> rat" where
  "cost_left b s =
     (let left = max_cost_usd b - model_cost_usd (budget_manifest b) - pending_cost (budget_manifest b)
      in max 0 (case cap_share (scopes s) of None \<Rightarrow> left
          | Some share \<Rightarrow> min left (share * max_cost_usd b - spent b s)))"

section \<open>Saving\<close>

text \<open>\<open>self._store.save(manifest, event=..., details=...)\<close> on the changed manifest, which the budget keeps even when the save raises.\<close>

definition save_budget :: "store_env \<Rightarrow> surroundings \<Rightarrow> db \<Rightarrow> run_budget \<Rightarrow> string \<Rightarrow> (string \<times> string) list
    \<Rightarrow> db \<times> run_budget \<times> unit result" where
  "save_budget E w d b etype details =
     (let (d', m', res) = save_run (env_digest E) (env_dump E) (env_writer E) (env_remover E) d (budget_manifest b)
            etype details [] (save_clock w) (event_clock w)
      in (d', b\<lparr>budget_manifest := m'\<rparr>, res))"

definition dict_update :: "(string \<times> 'v) list \<Rightarrow> (string \<times> 'v) list \<Rightarrow> (string \<times> 'v) list" where
  "dict_update kvs new = fold (\<lambda>(k, v). dict_set k v) new kvs"

section \<open>Reserving\<close>

definition max_turn_seconds :: rat where
  "max_turn_seconds = 600"

definition affordable_output :: "run_budget \<Rightarrow> role \<Rightarrow> model_spec \<Rightarrow> int \<Rightarrow> int" where
  "affordable_output b s spec input_tokens =
     \<lfloor>(cost_left b s - upper_bound_cost spec input_tokens 0) * tokens_per_price_unit
       / rate_output (tier_rates spec input_tokens)\<rfloor>"

text \<open>The checks of a request, and the tokens and the time it gets.\<close>

definition reserve_checks :: "store_env \<Rightarrow> surroundings \<Rightarrow> db \<Rightarrow> run_budget \<Rightarrow> role \<Rightarrow> model_spec \<Rightarrow> int \<Rightarrow> int \<Rightarrow> int
    \<Rightarrow> (int \<times> rat) result" where
  "reserve_checks E w d b s spec input_tokens max_output min_output =
     (if input_tokens < 1 \<or> \<not> (1 \<le> min_output \<and> min_output \<le> max_output) then
        Inl (ValueError ''a reservation needs positive token counts'')
      else if spec_max_output_tokens spec < max_output then
        Inl (ValueError (spec_id spec @ '' returns at most '' @ int_text (spec_max_output_tokens spec) @ '' output tokens''))
      else
        bind_r (assert_circuit_breaker_clear (env_digest E) d) (\<lambda>_.
        bind_r (lease_check w) (\<lambda>_.
        if model_reservation (budget_manifest b) \<noteq> None then
          Inl (PolicyError ''A previous model-call reservation is still unresolved'')
        else if max_model_calls b \<le> model_calls (budget_manifest b) then
          Inl (BudgetExhaustedError (''The run used all '' @ int_text (max_model_calls b) @ '' model calls'') LimitCalls)
        else if seconds_left b (budget_clock w) < 1 then
          Inl (BudgetExhaustedError ''The run reached its time limit'' LimitTime)
        else
          let output = min max_output (affordable_output b s spec input_tokens)
          in if output < min_output then
               Inl (BudgetExhaustedError (''The '' @ role_name s @ '' budget has $'' @ env_text E (cost_left b s)
                 @ '' left, too little for another request'') LimitCost)
             else Inr (output, min max_turn_seconds (seconds_left b (budget_clock w))))))"

definition reserve_details :: "store_env \<Rightarrow> role \<Rightarrow> model_spec \<Rightarrow> budget_reservation \<Rightarrow> (string \<times> string) list" where
  "reserve_details E s spec r = [(''scope'', role_name s), (''model'', spec_id spec), (''call'', int_text (res_call r)),
     (''reserved_input_tokens'', int_text (res_input_tokens r)), (''reserved_output_tokens'', int_text (res_output_tokens r)),
     (''reserved_cost_usd'', env_text E (res_cost_usd r)), (''timeout_seconds'', env_text E (res_timeout_seconds r))]"

definition reserved_manifest :: "surroundings \<Rightarrow> run_manifest \<Rightarrow> role \<Rightarrow> model_spec \<Rightarrow> int \<Rightarrow> int \<Rightarrow> rat \<Rightarrow> run_manifest" where
  "reserved_manifest w m s spec input_tokens output timeout =
     m\<lparr>model_calls := model_calls m + 1,
       model_reservation := Some \<lparr>res_call = model_calls m + 1, res_role = s, res_input_tokens = input_tokens,
         res_output_tokens = output, res_cost_usd = upper_bound_cost spec input_tokens output,
         res_timeout_seconds = timeout, res_started_at = wall_clock w\<rparr>\<rparr>"

definition reserve :: "store_env \<Rightarrow> surroundings \<Rightarrow> db \<Rightarrow> run_budget \<Rightarrow> role \<Rightarrow> model_spec \<Rightarrow> int \<Rightarrow> int \<Rightarrow> int
    \<Rightarrow> (string \<times> string) list \<Rightarrow> db \<times> run_budget \<times> reservation result" where
  "reserve E w d b s spec input_tokens max_output min_output details =
     (case reserve_checks E w d b s spec input_tokens max_output min_output of
        Inl e \<Rightarrow> (d, b, Inl e)
      | Inr (output, timeout) \<Rightarrow>
        let m1 = reserved_manifest w (budget_manifest b) s spec input_tokens output timeout;
            (d', b', res) = save_budget E w d (b\<lparr>budget_manifest := m1\<rparr>) ''model.call.started''
              (dict_update details (reserve_details E s spec (the (model_reservation m1))))
        in (d', b', bind_r res (\<lambda>_. Inr \<lparr>rv_call = model_calls m1, rv_scope = s, rv_spec = spec,
              rv_input_tokens = input_tokens, rv_output_tokens = output,
              rv_cost_usd = upper_bound_cost spec input_tokens output, rv_timeout_seconds = timeout,
              rv_started = budget_clock_after w\<rparr>)))"

section \<open>Settling\<close>

definition require_pending :: "run_budget \<Rightarrow> int \<Rightarrow> unit result" where
  "require_pending b call = (case model_reservation (budget_manifest b) of
     None \<Rightarrow> Inl (StateError (''Model call '' @ int_text call @ '' has no pending reservation''))
   | Some p \<Rightarrow> if res_call p \<noteq> call then
        Inl (StateError (''Model call '' @ int_text call @ '' has no pending reservation''))
      else Inr ())"

definition elapsed_since :: "rat \<Rightarrow> rat \<Rightarrow> rat" where
  "elapsed_since started clock = max 0 (clock - started)"

definition charge :: "run_budget \<Rightarrow> role \<Rightarrow> int \<Rightarrow> int \<Rightarrow> rat \<Rightarrow> run_budget" where
  "charge b s input_tokens output_tokens amount = b\<lparr>
     budget_manifest := (budget_manifest b)\<lparr>
       model_input_tokens := model_input_tokens (budget_manifest b) + input_tokens,
       model_output_tokens := model_output_tokens (budget_manifest b) + output_tokens,
       model_cost_usd := model_cost_usd (budget_manifest b) + amount, model_reservation := None\<rparr>,
     spent := (spent b)(s := spent b s + amount)\<rparr>"

definition add_seconds :: "run_budget \<Rightarrow> rat \<Rightarrow> run_budget" where
  "add_seconds b x = b\<lparr>budget_manifest := (budget_manifest b)\<lparr>model_seconds := model_seconds (budget_manifest b) + x\<rparr>\<rparr>"

definition settled :: "run_budget \<Rightarrow> reservation \<Rightarrow> turn \<Rightarrow> rat \<Rightarrow> rat \<Rightarrow> run_budget" where
  "settled b r t actual elapsed =
     add_seconds (charge b (rv_scope r) (usage_input_tokens (turn_usage t)) (usage_output_tokens (turn_usage t)) actual) elapsed"

definition settle_violations :: "run_budget \<Rightarrow> reservation \<Rightarrow> turn \<Rightarrow> string list" where
  "settle_violations b r t =
     (if rv_input_tokens r < usage_input_tokens (turn_usage t)
      then [''provider input usage exceeded its durable reservation''] else [])
     @ (if rv_output_tokens r < usage_output_tokens (turn_usage t)
        then [''provider output usage exceeded its durable reservation''] else [])
     @ (if max_cost_usd b < model_cost_usd (budget_manifest b) then [''the run's model cost exceeded its cap''] else [])"

fun stop_text :: "turn_stop \<Rightarrow> string" where
  "stop_text Stop_tool_use = ''tool_use''"
| "stop_text Stop_end_turn = ''end_turn''"
| "stop_text Stop_max_output_tokens = ''max_output_tokens''"

definition max_tool_names_detail :: nat where
  "max_tool_names_detail = 1000"

definition settle_details :: "store_env \<Rightarrow> reservation \<Rightarrow> turn \<Rightarrow> rat \<Rightarrow> rat \<Rightarrow> string list \<Rightarrow> (string \<times> string) list" where
  "settle_details E r t actual elapsed violations = (let u = turn_usage t in
     [(''scope'', role_name (rv_scope r)), (''call'', int_text (rv_call r)), (''response_id'', turn_response_id t),
      (''model'', turn_model t), (''stop'', stop_text (turn_stop t)),
      (''tool_calls'', take max_tool_names_detail (join '','' (map call_name (turn_tool_calls t)))),
      (''input_tokens'', int_text (usage_input_tokens u)), (''cached_input_tokens'', int_text (usage_cached_input_tokens u)),
      (''cache_write_tokens'', int_text (usage_cache_write_tokens u)), (''output_tokens'', int_text (usage_output_tokens u)),
      (''cost_usd'', env_text E actual), (''elapsed_seconds'', env_text E elapsed),
      (''budget_violations'', join ''; '' violations)])"

definition settle :: "store_env \<Rightarrow> surroundings \<Rightarrow> db \<Rightarrow> run_budget \<Rightarrow> reservation \<Rightarrow> turn \<Rightarrow> db \<times> run_budget \<times> rat result" where
  "settle E w d b r t =
     (case bind_r (require_pending b (rv_call r)) (\<lambda>_. bind_r (lease_check w) (\<lambda>_. cost (rv_spec r) (turn_usage t))) of
        Inl e \<Rightarrow> (d, b, Inl e)
      | Inr actual \<Rightarrow>
        let elapsed = elapsed_since (rv_started r) (budget_clock w);
            b1 = settled b r t actual elapsed;
            violations = settle_violations b1 r t;
            (d', b', res) = save_budget E w d b1 (if violations \<noteq> [] then ''model.call.budget_exceeded'' else ''model.call.completed'')
              (settle_details E r t actual elapsed violations)
        in (d', b', bind_r res (\<lambda>_.
             if violations \<noteq> [] then Inl (PolicyError (join ''; '' violations))
             else bind_r (assert_circuit_breaker_clear (env_digest E) d') (\<lambda>_. Inr actual))))"

section \<open>Failed requests\<close>

text \<open>A \<open>ModelRequestError\<close> with its status, code and retry time, a \<open>ModelTimeoutError\<close>, or another \<open>ModelError\<close>.\<close>

datatype model_failure =
    Request_failed string "int option" "string option" "rat option"
  | Timed_out string rat bool bool
  | Other_failure string

fun failure_text :: "model_failure \<Rightarrow> string" where
  "failure_text (Request_failed s _ _ _) = s"
| "failure_text (Timed_out s _ _ _) = s"
| "failure_text (Other_failure s) = s"

definition lower_bool :: "bool \<Rightarrow> string" where
  "lower_bool b = (if b then ''true'' else ''false'')"

fun failure_event :: "model_failure \<Rightarrow> string" where
  "failure_event (Timed_out _ _ _ _) = ''model.call.timed_out''"
| "failure_event _ = ''model.call.failed''"

fun failure_details :: "store_env \<Rightarrow> model_failure \<Rightarrow> (string \<times> string) list" where
  "failure_details E (Timed_out _ timeout term kill) = [(''deadline_seconds'', env_text E timeout),
     (''term_sent'', lower_bool term), (''kill_sent'', lower_bool kill)]"
| "failure_details E (Request_failed _ http provider_code _) =
     [(''http_status'', if http \<in> {None, Some 0} then ''none'' else int_text (the http)),
      (''provider_code'', if provider_code \<in> {None, Some []} then ''none'' else the provider_code)]"
| "failure_details E (Other_failure _) = []"

definition record_failure :: "store_env \<Rightarrow> surroundings \<Rightarrow> db \<Rightarrow> run_budget \<Rightarrow> reservation \<Rightarrow> model_failure
    \<Rightarrow> db \<times> run_budget \<times> unit result" where
  "record_failure E w d b r f =
     (case bind_r (require_pending b (rv_call r)) (\<lambda>_. lease_check w) of
        Inl e \<Rightarrow> (d, b, Inl e)
      | Inr _ \<Rightarrow>
        let elapsed = elapsed_since (rv_started r) (budget_clock w)
        in save_budget E w d (add_seconds b elapsed) (failure_event f)
             ([(''scope'', role_name (rv_scope r)), (''call'', int_text (rv_call r)), (''elapsed_seconds'', env_text E elapsed),
               (''reservation_retained'', ''true''), (''error'', take 500 (failure_text f))] @ failure_details E f))"

definition charge_for_retry :: "store_env \<Rightarrow> surroundings \<Rightarrow> db \<Rightarrow> run_budget \<Rightarrow> reservation \<Rightarrow> rat \<Rightarrow> string
    \<Rightarrow> db \<times> run_budget \<times> unit result" where
  "charge_for_retry E w d b r wait_seconds reason =
     (case bind_r (require_pending b (rv_call r)) (\<lambda>_. lease_check w) of
        Inl e \<Rightarrow> (d, b, Inl e)
      | Inr _ \<Rightarrow>
        save_budget E w d (charge b (rv_scope r) (rv_input_tokens r) (rv_output_tokens r) (rv_cost_usd r))
          ''model.call.retry_scheduled''
          [(''scope'', role_name (rv_scope r)), (''failed_call'', int_text (rv_call r)), (''reason'', reason),
           (''reservation_settled'', ''charged_in_full''), (''wait_seconds'', env_text E wait_seconds)])"

text \<open>Every role has a scope, so a reservation is never outside the run's scopes.\<close>

definition charge_failed_request :: "store_env \<Rightarrow> surroundings \<Rightarrow> db \<Rightarrow> run_budget \<Rightarrow> string \<Rightarrow> db \<times> run_budget \<times> unit result" where
  "charge_failed_request E w d b reason =
     (case model_reservation (budget_manifest b) of
        None \<Rightarrow> (d, b, Inr ())
      | Some p \<Rightarrow> (case lease_check w of
          Inl e \<Rightarrow> (d, b, Inl e)
        | Inr _ \<Rightarrow>
          save_budget E w d (charge b (res_role p) (res_input_tokens p) (res_output_tokens p) (res_cost_usd p))
            ''model.call.failure_charged''
            [(''scope'', role_name (res_role p)), (''failed_call'', int_text (res_call p)), (''reason'', take 500 reason),
             (''reservation_settled'', ''charged_in_full'')]))"

section \<open>Prices bound each other\<close>

text \<open>Usage counts as \<open>_token_count\<close> reads them: none is negative.\<close>

definition usage_counts :: "model_usage \<Rightarrow> bool" where
  "usage_counts u \<longleftrightarrow> 0 \<le> usage_cached_input_tokens u \<and> 0 \<le> usage_cache_write_tokens u \<and> 0 \<le> usage_output_tokens u"

definition input_rate :: "rates \<Rightarrow> rat" where
  "input_rate r = max (rate_input r) (max (rate_cached_input r) (rate_cache_write r))"

lemma tier_rates_facts:
  assumes "s \<in> set specs" and "a \<le> b"
  shows "input_rate (tier_rates s a) \<le> input_rate (tier_rates s b)" and "rate_output (tier_rates s a) \<le> rate_output (tier_rates s b)"
    and "0 < rate_output (tier_rates s a)" and "0 \<le> rate_input (tier_rates s a)" and "0 \<le> rate_cached_input (tier_rates s a)"
    and "0 \<le> rate_cache_write (tier_rates s a)"
  using assms by (auto simp: specs_def spec_defs tier_rates_def input_rate_def)

lemma upper_bound_split:
  "upper_bound_cost s i out = (of_int i * input_rate (tier_rates s i) + of_int out * rate_output (tier_rates s i)) / tokens_per_price_unit"
  by (simp add: upper_bound_cost_def input_rate_def Let_def)

lemma upper_bound_nonneg: "s \<in> set specs \<Longrightarrow> 0 \<le> i \<Longrightarrow> 0 \<le> out \<Longrightarrow> 0 \<le> upper_bound_cost s i out"
  using tier_rates_facts [of s i i]
  by (simp add: upper_bound_split tokens_per_price_unit_def input_rate_def)

lemma cost_le_upper_bound:
  assumes s: "s \<in> set specs" and u: "usage_counts u" and c: "cost s u = Inr c"
    and i: "usage_input_tokens u \<le> i" and out: "usage_output_tokens u \<le> out"
  shows "0 \<le> c \<and> c \<le> upper_bound_cost s i out"
proof -
  let ?r = "tier_rates s (usage_input_tokens u)" and ?R = "tier_rates s i"
  note a = tier_rates_facts [OF s i] and a0 = tier_rates_facts [OF s order_refl, of i]
  define reg where "reg = usage_input_tokens u - usage_cached_input_tokens u - usage_cache_write_tokens u"
  have reg: "0 \<le> reg" "usage_input_tokens u = reg + usage_cached_input_tokens u + usage_cache_write_tokens u"
    using c by (auto simp: cost_def reg_def Let_def split: if_splits)
  have cv: "c = (of_int reg * rate_input ?r + of_int (usage_cached_input_tokens u) * rate_cached_input ?r
      + of_int (usage_cache_write_tokens u) * rate_cache_write ?r + of_int (usage_output_tokens u) * rate_output ?r) / tokens_per_price_unit"
    using c by (auto simp: cost_def reg_def Let_def split: if_splits)
  have le: "rate_input ?r \<le> input_rate ?r" "rate_cached_input ?r \<le> input_rate ?r" "rate_cache_write ?r \<le> input_rate ?r"
    by (simp_all add: input_rate_def)
  have nn: "0 \<le> rate_output ?r" using a(3) by simp
  have parts: "of_int reg * rate_input ?r \<le> of_int reg * input_rate ?r"
    "of_int (usage_cached_input_tokens u) * rate_cached_input ?r \<le> of_int (usage_cached_input_tokens u) * input_rate ?r"
    "of_int (usage_cache_write_tokens u) * rate_cache_write ?r \<le> of_int (usage_cache_write_tokens u) * input_rate ?r"
    using reg(1) u le by (auto simp: usage_counts_def intro!: mult_left_mono)
  have "of_int (usage_input_tokens u) * input_rate ?r \<le> of_int i * input_rate ?R"
    using i reg u a(1) a(4) le(1) by (intro mult_mono) (auto simp: usage_counts_def)
  moreover have "of_int (usage_output_tokens u) * rate_output ?r \<le> of_int out * rate_output ?R"
    using out u a(2) nn by (intro mult_mono) (auto simp: usage_counts_def)
  moreover have "of_int (usage_input_tokens u) * input_rate ?r = of_int reg * input_rate ?r
      + of_int (usage_cached_input_tokens u) * input_rate ?r + of_int (usage_cache_write_tokens u) * input_rate ?r"
    by (simp add: reg(2) algebra_simps)
  ultimately have "c \<le> upper_bound_cost s i out"
    using parts by (simp add: cv upper_bound_split tokens_per_price_unit_def divide_right_mono)
  moreover have "0 \<le> c"
    using reg(1) u a(4-6) nn by (simp add: cv usage_counts_def tokens_per_price_unit_def)
  ultimately show ?thesis by simp
qed

section \<open>Saving keeps the totals\<close>

text \<open>What \<open>save\<close> may change of a manifest: only its update time.\<close>

lemma save_run_manifest:
  assumes "save_run H J wr rm d m etype details following clock clock' = (d', m', res)"
  shows "\<exists>t. m' = m\<lparr>updated_at := t\<rparr>"
proof -
  have "\<exists>t. m = m\<lparr>updated_at := t\<rparr>" by (rule exI [of _ "updated_at m"]) simp
  then show ?thesis
    using assms by (auto simp: save_run_def Let_def split: sum.splits if_splits prod.splits)
qed

lemma save_budget_facts:
  assumes "save_budget E w d b etype details = (d', b', res)"
  obtains t where "b' = b\<lparr>budget_manifest := (budget_manifest b)\<lparr>updated_at := t\<rparr>\<rparr>"
proof -
  obtain m' where m: "save_run (env_digest E) (env_dump E) (env_writer E) (env_remover E) d (budget_manifest b)
      etype details [] (save_clock w) (event_clock w) = (d', m', res)" "b' = b\<lparr>budget_manifest := m'\<rparr>"
    using assms by (auto simp: save_budget_def split: prod.splits)
  have "\<exists>t. m' = (budget_manifest b)\<lparr>updated_at := t\<rparr>"
    using m(1) save_run_manifest by blast
  with m(2) that show thesis by blast
qed

section \<open>The budget's invariant\<close>

definition scope_pending :: "run_manifest \<Rightarrow> role \<Rightarrow> rat" where
  "scope_pending m s = (case model_reservation m of None \<Rightarrow> 0 | Some p \<Rightarrow> if res_role p = s then res_cost_usd p else 0)"

definition within_caps :: "run_budget \<Rightarrow> bool" where
  "within_caps b \<longleftrightarrow> model_cost_usd (budget_manifest b) + pending_cost (budget_manifest b) \<le> max_cost_usd b
     \<and> model_calls (budget_manifest b) \<le> max_model_calls b
     \<and> (\<forall>s share. cap_share (scopes s) = Some share \<longrightarrow> spent b s + scope_pending (budget_manifest b) s \<le> share * max_cost_usd b)"

text \<open>A pending reservation belongs to the last call; a granted one that is pending is the manifest's.\<close>

definition pending_ok :: "run_manifest \<Rightarrow> bool" where
  "pending_ok m \<longleftrightarrow> (case model_reservation m of None \<Rightarrow> True | Some p \<Rightarrow> res_call p = model_calls m)"

definition granted_ok :: "run_manifest \<Rightarrow> reservation \<Rightarrow> bool" where
  "granted_ok m r \<longleftrightarrow> rv_call r \<le> model_calls m \<and> rv_spec r \<in> set specs \<and> 1 \<le> rv_input_tokens r \<and> 1 \<le> rv_output_tokens r
     \<and> rv_cost_usd r = upper_bound_cost (rv_spec r) (rv_input_tokens r) (rv_output_tokens r)
     \<and> (case model_reservation m of None \<Rightarrow> True | Some p \<Rightarrow> res_call p = rv_call r \<longrightarrow>
          res_role p = rv_scope r \<and> res_input_tokens p = rv_input_tokens r \<and> res_output_tokens p = rv_output_tokens r
          \<and> res_cost_usd p = rv_cost_usd r)"

definition budget_ok :: "run_budget \<Rightarrow> reservation list \<Rightarrow> bool" where
  "budget_ok b gs \<longleftrightarrow> within_caps b \<and> pending_ok (budget_manifest b) \<and> (\<forall>r\<in>set gs. granted_ok (budget_manifest b) r)
     \<and> 0 \<le> model_calls (budget_manifest b) \<and> fields_valid (budget_manifest b)"

lemmas budget_ok_defs = budget_ok_def within_caps_def pending_ok_def granted_ok_def scope_pending_def pending_cost_def

text \<open>The part of a manifest the budget owns.\<close>

definition model_part :: "run_manifest \<Rightarrow> int \<times> rat \<times> budget_reservation option" where
  "model_part m = (model_calls m, model_cost_usd m, model_reservation m)"

lemma budget_ok_model_part:
  assumes "budget_ok b gs" and "model_part m = model_part (budget_manifest b)" and "fields_valid m"
  shows "budget_ok (b\<lparr>budget_manifest := m\<rparr>) gs"
proof -
  note m = assms(2) [unfolded model_part_def prod.inject]
  have "within_caps (b\<lparr>budget_manifest := m\<rparr>) \<longleftrightarrow> within_caps b" "pending_ok m \<longleftrightarrow> pending_ok (budget_manifest b)"
    "granted_ok m r \<longleftrightarrow> granted_ok (budget_manifest b) r" for r
    using m by (simp_all add: within_caps_def pending_ok_def granted_ok_def scope_pending_def pending_cost_def
        cong: option.case_cong)
  with assms(1,3) m show ?thesis by (simp add: budget_ok_def)
qed

lemma fields_valid_updates [simp]:
  "fields_valid (m\<lparr>updated_at := t\<rparr>) \<longleftrightarrow> fields_valid m"
  by (simp add: fields_valid_def)

lemma save_budget_ok:
  assumes "save_budget E w d b etype details = (d', b', res)" and "budget_ok b gs"
  shows "budget_ok b' gs"
  using assms(1)
proof (rule save_budget_facts)
  fix t assume "b' = b\<lparr>budget_manifest := (budget_manifest b)\<lparr>updated_at := t\<rparr>\<rparr>"
  moreover have "fields_valid (budget_manifest b)" using assms(2) by (simp add: budget_ok_def)
  ultimately show ?thesis
    using budget_ok_model_part [OF assms(2)] by (simp add: model_part_def)
qed

lemma add_seconds_ok:
  assumes "budget_ok b gs" and "0 \<le> x"
  shows "budget_ok (add_seconds b x) gs"
  unfolding add_seconds_def using assms
  by (intro budget_ok_model_part) (auto simp: model_part_def budget_ok_def fields_valid_def)

lemma charge_ok:
  assumes ok: "budget_ok b gs" and p: "model_reservation (budget_manifest b) = Some p" "res_role p = s"
    and amounts: "0 \<le> i" "0 \<le> out" "0 \<le> amount" "amount \<le> res_cost_usd p"
  shows "budget_ok (charge b s i out amount) gs"
proof -
  have "within_caps (charge b s i out amount)"
    using ok p amounts(4)
    by (auto simp: budget_ok_def within_caps_def charge_def scope_pending_def pending_cost_def split: if_splits)
       (metis add_left_mono order_trans)+
  moreover have "fields_valid (budget_manifest (charge b s i out amount))"
    using ok amounts by (auto simp: budget_ok_def fields_valid_def charge_def opt_all_def)
  ultimately show ?thesis
    using ok by (auto simp: budget_ok_def pending_ok_def granted_ok_def charge_def)
qed

lemma require_pending_Inr:
  "require_pending b n = Inr u \<longleftrightarrow> (\<exists>p. model_reservation (budget_manifest b) = Some p \<and> res_call p = n)"
  by (auto simp: require_pending_def split: option.splits if_splits)

text \<open>The pending reservation of a granted one, and the price it bounds.\<close>

lemma pending_granted:
  assumes "budget_ok b gs" and "r \<in> set gs" and "require_pending b (rv_call r) = Inr u"
  obtains p where "model_reservation (budget_manifest b) = Some p" and "res_role p = rv_scope r"
    and "res_input_tokens p = rv_input_tokens r" and "res_output_tokens p = rv_output_tokens r"
    and "res_cost_usd p = upper_bound_cost (rv_spec r) (rv_input_tokens r) (rv_output_tokens r)" and "rv_spec r \<in> set specs"
    and "rv_cost_usd r = res_cost_usd p" and "0 \<le> rv_input_tokens r" and "0 \<le> rv_output_tokens r"
proof -
  from assms(3) obtain p where p: "model_reservation (budget_manifest b) = Some p" "res_call p = rv_call r"
    by (auto simp: require_pending_Inr)
  have "granted_ok (budget_manifest b) r" using assms(1,2) by (simp add: budget_ok_def)
  with p that show thesis by (simp add: granted_ok_def)
qed

section \<open>A reservation fits what is left\<close>

lemma affordable_fits:
  assumes "spec \<in> set specs" and "1 \<le> out" and "out \<le> affordable_output b s spec i" and "0 \<le> i"
  shows "0 < cost_left b s \<and> upper_bound_cost spec i out \<le> cost_left b s"
proof -
  let ?rate = "rate_output (tier_rates spec i)" and ?left = "cost_left b s - upper_bound_cost spec i 0"
  have rate: "0 < ?rate" by (rule tier_rates_facts(3) [OF assms(1) order_refl])
  have "of_int out \<le> ?left * tokens_per_price_unit / ?rate"
    using assms(3) by (simp add: affordable_output_def le_floor_iff)
  then have "of_int out * ?rate / tokens_per_price_unit \<le> ?left"
    using rate by (simp add: tokens_per_price_unit_def pos_le_divide_eq pos_divide_le_eq)
  moreover have "upper_bound_cost spec i out = upper_bound_cost spec i 0 + of_int out * ?rate / tokens_per_price_unit"
    by (simp add: upper_bound_split add_divide_distrib)
  moreover have "0 < of_int out * ?rate / tokens_per_price_unit"
    using rate assms(2) by (simp add: tokens_per_price_unit_def)
  moreover have "0 \<le> upper_bound_cost spec i 0" using upper_bound_nonneg [OF assms(1,4)] by simp
  ultimately show ?thesis by linarith
qed

lemma cost_left_positive:
  assumes "0 < cost_left b s"
  shows "cost_left b s \<le> max_cost_usd b - model_cost_usd (budget_manifest b) - pending_cost (budget_manifest b)"
    and "cap_share (scopes s) = Some share \<Longrightarrow> cost_left b s \<le> share * max_cost_usd b - spent b s"
  using assms by (auto simp: cost_left_def Let_def max_def min_def split: option.splits if_splits)

lemma reserve_checks_Inr:
  assumes "reserve_checks E w d b s spec i mx mn = Inr (out, timeout)"
  shows "1 \<le> i" and "mn \<le> out" and "1 \<le> mn" and "out \<le> mx" and "out \<le> affordable_output b s spec i"
    and "model_reservation (budget_manifest b) = None" and "model_calls (budget_manifest b) < max_model_calls b"
    and "1 \<le> timeout" and "timeout \<le> max_turn_seconds" and "timeout \<le> seconds_left b (budget_clock w)"
    and "assert_circuit_breaker_clear (env_digest E) d = Inr ()" and "lease_check w = Inr ()"
  using assms
  by (auto simp: reserve_checks_def result_simps Let_def max_turn_seconds_def not_le not_less split: if_splits)

lemma reserve_ok:
  assumes r: "reserve E w d b s spec i mx mn details = (d', b', res)" and ok: "budget_ok b gs" and spec: "spec \<in> set specs"
  shows "budget_ok b' (case res of Inl _ \<Rightarrow> gs | Inr x \<Rightarrow> x # gs)"
proof (cases "reserve_checks E w d b s spec i mx mn")
  case (Inl e)
  with r have "b' = b" "res = Inl e" by (simp_all add: reserve_def)
  with ok show ?thesis by simp
next
  case (Inr p)
  obtain out timeout where p: "p = (out, timeout)" by (cases p)
  note c = reserve_checks_Inr [OF Inr [unfolded p]]
  define m where "m = budget_manifest b"
  define m1 where "m1 = reserved_manifest w m s spec i out timeout"
  obtain res1 where sv: "save_budget E w d (b\<lparr>budget_manifest := m1\<rparr>) ''model.call.started''
        (dict_update details (reserve_details E s spec (the (model_reservation m1)))) = (d', b', res1)"
    and res: "res = bind_r res1 (\<lambda>_. Inr \<lparr>rv_call = model_calls m1, rv_scope = s, rv_spec = spec, rv_input_tokens = i,
        rv_output_tokens = out, rv_cost_usd = upper_bound_cost spec i out, rv_timeout_seconds = timeout,
        rv_started = budget_clock_after w\<rparr>)"
    using r by (auto simp: reserve_def Inr p m1_def m_def Let_def split: prod.splits)
  have fits: "0 < cost_left b s" "upper_bound_cost spec i out \<le> cost_left b s"
    using affordable_fits [OF spec _ c(5)] c(1-3) by simp_all
  have nonneg: "0 \<le> upper_bound_cost spec i out" using upper_bound_nonneg [OF spec] c(1-3) by simp
  have m1: "model_cost_usd m1 = model_cost_usd m" "model_calls m1 = model_calls m + 1"
    "model_reservation m1 = Some \<lparr>res_call = model_calls m + 1, res_role = s, res_input_tokens = i,
         res_output_tokens = out, res_cost_usd = upper_bound_cost spec i out, res_timeout_seconds = timeout, res_started_at = wall_clock w\<rparr>"
    by (simp_all add: m1_def reserved_manifest_def)
  have none: "model_reservation m = None" using c(6) by (simp add: m_def)
  have caps: "within_caps b" and calls: "0 \<le> model_calls m" and valid: "fields_valid m" and old: "\<forall>r\<in>set gs. granted_ok m r"
    using ok by (simp_all add: budget_ok_def m_def)
  have cap: "spent b s \<le> share * max_cost_usd b" if "cap_share (scopes s) = Some share" for share s
    using caps that none by (auto simp: within_caps_def scope_pending_def m_def)
  have "within_caps (b\<lparr>budget_manifest := m1\<rparr>)"
    using cost_left_positive [OF fits(1)] fits(2) c(7) cap none
    by (force simp: within_caps_def scope_pending_def pending_cost_def m1 m_def)
  moreover have "fields_valid m1"
    using valid c(1-3,8) calls nonneg by (auto simp: fields_valid_def m1_def reserved_manifest_def opt_all_def valid_reservation_def)
  moreover have "granted_ok m1 r" if "r \<in> set gs" for r
    using old that by (auto simp: granted_ok_def m1 none)
  ultimately have new: "budget_ok (b\<lparr>budget_manifest := m1\<rparr>) gs"
    using calls by (auto simp: budget_ok_def pending_ok_def m1)
  moreover have "granted_ok m1 x" if "res = Inr x" for x
    using that res spec c(1-3) by (auto simp: result_simps granted_ok_def m1)
  ultimately have "budget_ok (b\<lparr>budget_manifest := m1\<rparr>) (case res of Inl _ \<Rightarrow> gs | Inr x \<Rightarrow> x # gs)"
    by (cases res) (auto simp: budget_ok_def)
  then show ?thesis by (rule save_budget_ok [OF sv])
qed

section \<open>Every operation keeps the invariant\<close>

lemma settle_ok:
  assumes st: "settle E w d b r t = (d', b', res)" and ok: "budget_ok b gs" and r: "r \<in> set gs" and u: "usage_counts (turn_usage t)"
    and honest: "usage_input_tokens (turn_usage t) \<le> rv_input_tokens r \<and> usage_output_tokens (turn_usage t) \<le> rv_output_tokens r
      \<or> returns res"
  shows "budget_ok b' gs"
proof (cases "bind_r (require_pending b (rv_call r)) (\<lambda>_. bind_r (lease_check w) (\<lambda>_. cost (rv_spec r) (turn_usage t)))")
  case (Inl e)
  with st ok show ?thesis by (simp add: settle_def)
next
  case (Inr actual)
  then have pend: "require_pending b (rv_call r) = Inr ()" and c: "cost (rv_spec r) (turn_usage t) = Inr actual"
    by (auto simp: result_simps)
  define elapsed where "elapsed = elapsed_since (rv_started r) (budget_clock w)"
  define b1 where "b1 = settled b r t actual elapsed"
  define vs where "vs = settle_violations b1 r t"
  obtain res1 where sv: "save_budget E w d b1 (if vs \<noteq> [] then ''model.call.budget_exceeded'' else ''model.call.completed'')
      (settle_details E r t actual elapsed vs) = (d', b', res1)"
    and res: "res = bind_r res1 (\<lambda>_. if vs \<noteq> [] then Inl (PolicyError (join ''; '' vs))
        else bind_r (assert_circuit_breaker_clear (env_digest E) d') (\<lambda>_. Inr actual))"
    using st by (auto simp: settle_def Inr elapsed_def b1_def vs_def Let_def split: prod.splits)
  have in_out: "usage_input_tokens (turn_usage t) \<le> rv_input_tokens r" "usage_output_tokens (turn_usage t) \<le> rv_output_tokens r"
    using honest res by (auto simp: returns_iff result_simps vs_def settle_violations_def split: if_splits)
  from ok r pend show ?thesis
  proof (rule pending_granted)
    fix p assume p: "model_reservation (budget_manifest b) = Some p" "res_role p = rv_scope r"
      "res_cost_usd p = upper_bound_cost (rv_spec r) (rv_input_tokens r) (rv_output_tokens r)" "rv_spec r \<in> set specs"
    have a: "0 \<le> actual" "actual \<le> res_cost_usd p"
      using cost_le_upper_bound [OF p(4) u c in_out] p(3) by simp_all
    have "0 \<le> usage_input_tokens (turn_usage t)"
      using c u by (auto simp: cost_def usage_counts_def Let_def split: if_splits)
    with u a p have "budget_ok b1 gs"
      unfolding b1_def settled_def
      by (intro add_seconds_ok charge_ok [OF ok p(1,2)]) (auto simp: usage_counts_def elapsed_def elapsed_since_def)
    then show ?thesis by (rule save_budget_ok [OF sv])
  qed
qed

lemma record_failure_ok:
  assumes "record_failure E w d b r f = (d', b', res)" and "budget_ok b gs"
  shows "budget_ok b' gs"
proof (cases "bind_r (require_pending b (rv_call r)) (\<lambda>_. lease_check w)")
  case (Inr u)
  from assms(1) [unfolded record_failure_def Inr sum.case Let_def] show ?thesis
    by (rule save_budget_ok) (use assms(2) in \<open>auto intro: add_seconds_ok simp: elapsed_since_def\<close>)
qed (use assms in \<open>auto simp: record_failure_def\<close>)

lemma charge_for_retry_ok:
  assumes "charge_for_retry E w d b r wait reason = (d', b', res)" and ok: "budget_ok b gs" and r: "r \<in> set gs"
  shows "budget_ok b' gs"
proof (cases "bind_r (require_pending b (rv_call r)) (\<lambda>_. lease_check w)")
  case (Inr u)
  then have "require_pending b (rv_call r) = Inr ()" by (auto simp: result_simps)
  with ok r have "budget_ok (charge b (rv_scope r) (rv_input_tokens r) (rv_output_tokens r) (rv_cost_usd r)) gs"
  proof (rule pending_granted)
    fix p assume p: "model_reservation (budget_manifest b) = Some p" "res_role p = rv_scope r"
      "res_cost_usd p = upper_bound_cost (rv_spec r) (rv_input_tokens r) (rv_output_tokens r)"
      "rv_cost_usd r = res_cost_usd p" "rv_spec r \<in> set specs" "0 \<le> rv_input_tokens r" "0 \<le> rv_output_tokens r"
    then show ?thesis
      using upper_bound_nonneg [of "rv_spec r" "rv_input_tokens r" "rv_output_tokens r"]
      by (intro charge_ok [OF ok p(1,2)]) simp_all
  qed
  with assms(1) Inr show ?thesis by (auto simp: charge_for_retry_def intro: save_budget_ok)
qed (use assms in \<open>auto simp: charge_for_retry_def\<close>)

lemma charge_failed_request_ok:
  assumes "charge_failed_request E w d b reason = (d', b', res)" and ok: "budget_ok b gs"
  shows "budget_ok b' gs"
proof (cases "model_reservation (budget_manifest b)")
  case (Some p)
  have "fields_valid (budget_manifest b)" using ok by (simp add: budget_ok_def)
  with Some have "valid_reservation p" by (simp add: fields_valid_def opt_all_def)
  then have "budget_ok (charge b (res_role p) (res_input_tokens p) (res_output_tokens p) (res_cost_usd p)) gs"
    by (intro charge_ok [OF ok Some refl]) (simp_all add: valid_reservation_def)
  with assms Some show ?thesis
    by (auto simp: charge_failed_request_def intro: save_budget_ok split: sum.splits)
qed (use assms in \<open>auto simp: charge_failed_request_def\<close>)

section \<open>Histories\<close>

text \<open>
  The history of a run: its budget operations, with the reservations granted so far, and whatever else
  the run saves, which leaves the budget's part of the manifest alone.  Requests use a model of the
  table; a settled turn has the provider's token counts, and if they exceed the reservation the run
  goes on only when \<open>settle\<close> returned.
\<close>

inductive budget_op :: "store_env \<Rightarrow> db \<times> run_budget \<times> reservation list \<Rightarrow> db \<times> run_budget \<times> reservation list \<Rightarrow> bool" for E where
  op_reserve: "reserve E w d b s spec i mx mn details = (d', b', res) \<Longrightarrow> spec \<in> set specs \<Longrightarrow>
    budget_op E (d, b, gs) (d', b', case res of Inl _ \<Rightarrow> gs | Inr x \<Rightarrow> x # gs)"
| op_settle: "settle E w d b r t = (d', b', res') \<Longrightarrow> r \<in> set gs \<Longrightarrow> usage_counts (turn_usage t) \<Longrightarrow>
    usage_input_tokens (turn_usage t) \<le> rv_input_tokens r \<and> usage_output_tokens (turn_usage t) \<le> rv_output_tokens r \<or> returns res' \<Longrightarrow>
    budget_op E (d, b, gs) (d', b', gs)"
| op_failure: "record_failure E w d b r f = (d', b', out) \<Longrightarrow> budget_op E (d, b, gs) (d', b', gs)"
| op_retry: "charge_for_retry E w d b r wait reason = (d', b', out) \<Longrightarrow> r \<in> set gs \<Longrightarrow> budget_op E (d, b, gs) (d', b', gs)"
| op_charge: "charge_failed_request E w d b reason = (d', b', out) \<Longrightarrow> budget_op E (d, b, gs) (d', b', gs)"

inductive budget_step :: "store_env \<Rightarrow> db \<times> run_budget \<times> reservation list \<Rightarrow> db \<times> run_budget \<times> reservation list \<Rightarrow> bool" for E where
  step_op: "budget_op E s t \<Longrightarrow> budget_step E s t"
| step_elsewhere: "model_part m = model_part (budget_manifest b) \<Longrightarrow> fields_valid m \<Longrightarrow>
    budget_step E (d, b, gs) (d', b\<lparr>budget_manifest := m\<rparr>, gs)"

lemmas step_reserve = step_op [OF op_reserve]
  and step_settle = step_op [OF op_settle]
  and step_failure = step_op [OF op_failure]
  and step_retry = step_op [OF op_retry]

inductive budget_history :: "store_env \<Rightarrow> db \<times> run_budget \<times> reservation list \<Rightarrow> db \<times> run_budget \<times> reservation list \<Rightarrow> bool" for E where
  history_start: "budget_history E s s"
| history_step: "budget_history E s t \<Longrightarrow> budget_step E t u \<Longrightarrow> budget_history E s u"

lemma budget_op_ok:
  assumes "budget_op E s t" and "budget_ok (fst (snd s)) (snd (snd s))"
  shows "budget_ok (fst (snd t)) (snd (snd t)) \<and> max_cost_usd (fst (snd t)) = max_cost_usd (fst (snd s))
    \<and> max_model_calls (fst (snd t)) = max_model_calls (fst (snd s))"
  using assms
proof (cases rule: budget_op.cases)
  case (op_reserve w d b sc spec i mx mn details d' b' res gs)
  have "max_cost_usd b' = max_cost_usd b \<and> max_model_calls b' = max_model_calls b"
    using op_reserve(3) by (auto simp: reserve_def save_budget_def Let_def split: sum.splits prod.splits)
  with reserve_ok [OF op_reserve(3) _ op_reserve(4)] assms(2) op_reserve show ?thesis by simp
next
  case (op_settle w d b r t d' b' res gs)
  have "max_cost_usd b' = max_cost_usd b \<and> max_model_calls b' = max_model_calls b"
    using op_settle(3)
    by (auto simp: settle_def settled_def add_seconds_def charge_def save_budget_def Let_def split: sum.splits prod.splits)
  with settle_ok [OF op_settle(3) _ op_settle(4,5,6)] assms(2) op_settle show ?thesis by simp
next
  case (op_failure w d b r f d' b' out gs)
  have "max_cost_usd b' = max_cost_usd b \<and> max_model_calls b' = max_model_calls b"
    using op_failure(3) by (auto simp: record_failure_def add_seconds_def save_budget_def Let_def split: sum.splits prod.splits)
  with record_failure_ok [OF op_failure(3)] assms(2) op_failure show ?thesis by simp
next
  case (op_retry w d b r wait reason d' b' out gs)
  have "max_cost_usd b' = max_cost_usd b \<and> max_model_calls b' = max_model_calls b"
    using op_retry(3) by (auto simp: charge_for_retry_def charge_def save_budget_def split: sum.splits prod.splits)
  with charge_for_retry_ok [OF op_retry(3) _ op_retry(4)] assms(2) op_retry show ?thesis by simp
next
  case (op_charge w d b reason d' b' out gs)
  have "max_cost_usd b' = max_cost_usd b \<and> max_model_calls b' = max_model_calls b"
    using op_charge(3)
    by (auto simp: charge_failed_request_def charge_def save_budget_def split: sum.splits prod.splits option.splits)
  with charge_failed_request_ok [OF op_charge(3)] assms(2) op_charge show ?thesis by simp
qed

lemma budget_step_ok:
  assumes "budget_step E s t" and "budget_ok (fst (snd s)) (snd (snd s))"
  shows "budget_ok (fst (snd t)) (snd (snd t)) \<and> max_cost_usd (fst (snd t)) = max_cost_usd (fst (snd s))
    \<and> max_model_calls (fst (snd t)) = max_model_calls (fst (snd s))"
  using assms
proof (cases rule: budget_step.cases)
  case step_op
  then show ?thesis using assms(2) by (rule budget_op_ok)
next
  case (step_elsewhere m b d gs d')
  with budget_ok_model_part [OF _ step_elsewhere(3,4)] assms(2) show ?thesis by simp
qed

lemma budget_history_ok:
  assumes "budget_history E s t" and "budget_ok (fst (snd s)) (snd (snd s))"
  shows "budget_ok (fst (snd t)) (snd (snd t)) \<and> max_cost_usd (fst (snd t)) = max_cost_usd (fst (snd s))
    \<and> max_model_calls (fst (snd t)) = max_model_calls (fst (snd s))"
  using assms
proof (induction rule: budget_history.induct)
  case (history_step s t u)
  then show ?case using budget_step_ok [of E t u] by simp
qed simp

text \<open>The budget of a run that has not called a model.\<close>

lemma new_budget_ok:
  assumes "new_budget m max_cost max_calls minutes clock = Inr b"
    and "model_cost_usd m = 0" and "model_calls m = 0" and "model_reservation m = None" and "fields_valid m"
  shows "budget_ok b [] \<and> max_cost_usd b = max_cost \<and> max_model_calls b = max_calls"
proof -
  have "0 \<le> share * max_cost" if "cap_share (scopes s) = Some share" "0 < max_cost" for s share
    using that by (cases s) (auto simp: scopes_def)
  with assms show ?thesis
    by (auto simp: new_budget_def budget_ok_defs split: if_splits)
qed

text \<open>
  C18. In every history of a run that starts without model calls, whatever the other parts of
  the run save in between, the settled cost plus the pending reservation stays within the run
  cap, no scope spends more than its share, and the calls stay within their maximum; the
  provider is trusted only until settle returns, which it does not after an overrun.
\<close>

theorem budget_never_exceeded:
  assumes "new_budget m max_cost max_calls minutes clock = Inr b0"
    and "model_cost_usd m = 0" and "model_calls m = 0" and "model_reservation m = None" and "fields_valid m"
    and "budget_history E (d0, b0, []) (d, b, gs)"
  shows "model_cost_usd (budget_manifest b) + pending_cost (budget_manifest b) \<le> max_cost
    \<and> model_calls (budget_manifest b) \<le> max_calls
    \<and> (\<forall>s share. cap_share (scopes s) = Some share \<longrightarrow> spent b s \<le> share * max_cost)"
proof -
  note start = new_budget_ok [OF assms(1-5)]
  from budget_history_ok [OF assms(6)] start have ok: "budget_ok b gs" "max_cost_usd b = max_cost" "max_model_calls b = max_calls"
    by simp_all
  have nn: "0 \<le> scope_pending (budget_manifest b) s" for s
  proof (cases "model_reservation (budget_manifest b)")
    case (Some p)
    with ok(1) have "valid_reservation p" by (simp add: budget_ok_def fields_valid_def opt_all_def)
    with Some show ?thesis by (simp add: scope_pending_def valid_reservation_def)
  qed (simp add: scope_pending_def)
  have w: "within_caps b" using ok(1) by (simp add: budget_ok_def)
  have "spent b s \<le> share * max_cost" if "cap_share (scopes s) = Some share" for s share
  proof -
    have "spent b s + scope_pending (budget_manifest b) s \<le> share * max_cost"
      using w that unfolding within_caps_def ok(2) by blast
    with nn [of s] show ?thesis by linarith
  qed
  with w ok(2,3) show ?thesis by (simp add: within_caps_def)
qed

section \<open>What is durable\<close>

lemma remote_identity_updates [simp]:
  "remote_identity_complete (m\<lparr>updated_at := t\<rparr>) = remote_identity_complete m"
  "remote_identity_complete (m\<lparr>model_reservation := x\<rparr>) = remote_identity_complete m"
  "remote_identity_complete (m\<lparr>model_calls := n\<rparr>) = remote_identity_complete m"
  "remote_identity_complete (m\<lparr>model_input_tokens := n\<rparr>) = remote_identity_complete m"
  "remote_identity_complete (m\<lparr>model_output_tokens := n\<rparr>) = remote_identity_complete m"
  "remote_identity_complete (m\<lparr>model_cost_usd := a\<rparr>) = remote_identity_complete m"
  "remote_identity_complete (m\<lparr>model_seconds := a\<rparr>) = remote_identity_complete m"
  by (simp_all add: remote_identity_complete_def)

lemma get_run_valid: "get_run d rid = Inr m \<Longrightarrow> fields_valid m \<and> remote_identity_complete m = Inr ()
    \<and> (\<exists>r. find_run d rid = Some r \<and> row_manifest r = m)"
  by (auto simp: get_run_def validate_manifest_def result_simps split: option.splits if_splits)

text \<open>A save that returned, or that changed the database, has stored the manifest the budget keeps.\<close>

lemma save_budget_stored:
  assumes sv: "save_budget E w d b etype details = (d', b', res)" and wf: "store_wf (env_digest E) (env_dump E) d"
    and m: "fields_valid (budget_manifest b)" "remote_identity_complete (budget_manifest b) = Inr ()" "run_id (budget_manifest b) = rid"
    and "d' \<noteq> d \<or> returns res"
  shows "store_wf (env_digest E) (env_dump E) d' \<and> get_run d' rid = Inr (budget_manifest b')"
proof -
  obtain m' where s: "save_run (env_digest E) (env_dump E) (env_writer E) (env_remover E) d (budget_manifest b)
      etype details [] (save_clock w) (event_clock w) = (d', m', res)" "b' = b\<lparr>budget_manifest := m'\<rparr>"
    using sv by (auto simp: save_budget_def split: prod.splits)
  from save_run_row [OF s(1) wf assms(6)] obtain r' t where r: "find_run d' rid = Some r'" "row_manifest r' = m'"
    "m' = (budget_manifest b)\<lparr>updated_at := t\<rparr>"
    unfolding m(3) by blast
  have "validate_manifest m' = Inr m'" using m(1,2) by (simp add: validate_manifest_def r(3))
  with r s(2) save_run_wf [OF s(1) wf] show ?thesis by (simp add: get_run_def)
qed

lemma stored_run_id:
  assumes "store_wf H J d" and "get_run d rid = Inr m"
  shows "run_id m = rid"
  using get_run_valid [OF assms(2)] assms(1) find_run_SomeD by (fastforce simp: store_wf_def row_agrees_def Let_def)













text \<open>
  C19. When reserve returns, the breaker was clear, the lease was held and no other reservation
  was pending, and the stored manifest read back from the database carries the reservation at
  its worst-case cost, with an output limit between the requested bounds and a timeout within
  the time left: nothing is sent that is not on record.
\<close>

theorem reservation_is_durable:
  assumes "store_wf (env_digest E) (env_dump E) d" and "get_run d rid = Inr (budget_manifest b)"
    and "spec \<in> set specs" and "0 \<le> model_calls (budget_manifest b)"
    and "reserve E w d b s spec i mx mn details = (d', b', Inr r)"
  shows "store_wf (env_digest E) (env_dump E) d' \<and> get_run d' rid = Inr (budget_manifest b')
    \<and> model_reservation (budget_manifest b) = None
    \<and> model_reservation (budget_manifest b') = Some \<lparr>res_call = rv_call r, res_role = s, res_input_tokens = i,
        res_output_tokens = rv_output_tokens r, res_cost_usd = upper_bound_cost spec i (rv_output_tokens r),
        res_timeout_seconds = rv_timeout_seconds r, res_started_at = wall_clock w\<rparr>
    \<and> model_cost_usd (budget_manifest b') = model_cost_usd (budget_manifest b)
    \<and> mn \<le> rv_output_tokens r \<and> rv_output_tokens r \<le> mx
    \<and> 0 < rv_timeout_seconds r \<and> rv_timeout_seconds r \<le> seconds_left b (budget_clock w)
    \<and> assert_circuit_breaker_clear (env_digest E) d = Inr () \<and> lease_check w = Inr ()"
proof (cases "reserve_checks E w d b s spec i mx mn")
  case (Inl e)
  with assms(5) show ?thesis by (simp add: reserve_def)
next
  case (Inr p)
  obtain out timeout where p: "p = (out, timeout)" by (cases p)
  note c = reserve_checks_Inr [OF Inr [unfolded p]]
  define m1 where "m1 = reserved_manifest w (budget_manifest b) s spec i out timeout"
  obtain res1 where sv: "save_budget E w d (b\<lparr>budget_manifest := m1\<rparr>) ''model.call.started''
        (dict_update details (reserve_details E s spec (the (model_reservation m1)))) = (d', b', res1)"
    and res: "Inr r = bind_r res1 (\<lambda>_. Inr \<lparr>rv_call = model_calls m1, rv_scope = s, rv_spec = spec, rv_input_tokens = i,
        rv_output_tokens = out, rv_cost_usd = upper_bound_cost spec i out, rv_timeout_seconds = timeout,
        rv_started = budget_clock_after w\<rparr>)"
    using assms(5) by (auto simp: reserve_def Inr p m1_def Let_def split: prod.splits)
  then have ret: "returns res1" and r: "rv_call r = model_calls m1" "rv_output_tokens r = out" "rv_timeout_seconds r = timeout"
    by (auto simp: returns_iff result_simps dest!: sym [of "Inr r"])
  note valid = get_run_valid [OF assms(2)]
  have "0 \<le> upper_bound_cost spec i out" using upper_bound_nonneg [OF assms(3)] c(1-3) by simp
  then have "fields_valid m1"
    using valid c(1-3,8) assms(4)
    by (auto simp: fields_valid_def m1_def reserved_manifest_def opt_all_def valid_reservation_def)
  moreover have "remote_identity_complete m1 = Inr ()" "run_id m1 = rid"
    using valid stored_run_id [OF assms(1,2)] by (simp_all add: m1_def reserved_manifest_def)
  ultimately have "store_wf (env_digest E) (env_dump E) d' \<and> get_run d' rid = Inr (budget_manifest b')"
    using save_budget_stored [OF sv assms(1)] ret by simp
  moreover obtain t where "budget_manifest b' = m1\<lparr>updated_at := t\<rparr>" using sv by (rule save_budget_facts) auto
  ultimately show ?thesis
    using c r by (simp add: m1_def reserved_manifest_def)
qed

text \<open>
  C20. A turn that used more input or output than reserved, or takes the run over its cap, never
  settles normally: the actual usage is stored with the reservation cleared, or nothing changed,
  and the call raises.
\<close>

theorem settle_detects_overrun:
  assumes "store_wf (env_digest E) (env_dump E) d" and "get_run d rid = Inr (budget_manifest b)"
    and "usage_counts (turn_usage t)" and "rv_spec r \<in> set specs" and "cost (rv_spec r) (turn_usage t) = Inr actual"
    and "rv_input_tokens r < usage_input_tokens (turn_usage t) \<or> rv_output_tokens r < usage_output_tokens (turn_usage t)
      \<or> max_cost_usd b < model_cost_usd (budget_manifest b) + actual"
    and "settle E w d b r t = (d', b', res)"
  shows "(\<exists>e. res = Inl e) \<and> (d' = d
    \<or> get_run d' rid = Inr (budget_manifest b') \<and> model_reservation (budget_manifest b') = None
      \<and> model_cost_usd (budget_manifest b') = model_cost_usd (budget_manifest b) + actual)"
proof (cases "bind_r (require_pending b (rv_call r)) (\<lambda>_. bind_r (lease_check w) (\<lambda>_. cost (rv_spec r) (turn_usage t)))")
  case (Inl e)
  with assms(7) have "res = Inl e" "d' = d" by (simp_all add: settle_def)
  then show ?thesis by simp
next
  case (Inr x)
  then have x: "x = actual" using assms(5) by (auto simp: result_simps)
  define elapsed where "elapsed = elapsed_since (rv_started r) (budget_clock w)"
  define b1 where "b1 = settled b r t actual elapsed"
  define vs where "vs = settle_violations b1 r t"
  obtain res1 where sv: "save_budget E w d b1 (if vs \<noteq> [] then ''model.call.budget_exceeded'' else ''model.call.completed'')
      (settle_details E r t actual elapsed vs) = (d', b', res1)"
    and res: "res = bind_r res1 (\<lambda>_. if vs \<noteq> [] then Inl (PolicyError (join ''; '' vs))
        else bind_r (assert_circuit_breaker_clear (env_digest E) d') (\<lambda>_. Inr actual))"
    using assms(7) by (auto simp: settle_def Inr x elapsed_def b1_def vs_def Let_def split: prod.splits)
  have b1: "max_cost_usd b1 = max_cost_usd b" "model_cost_usd (budget_manifest b1) = model_cost_usd (budget_manifest b) + actual"
    "model_reservation (budget_manifest b1) = None"
    by (simp_all add: b1_def settled_def add_seconds_def charge_def)
  then have "vs \<noteq> []" using assms(6) by (auto simp: vs_def settle_violations_def)
  then have err: "\<exists>e. res = Inl e" using res by (cases res1) auto
  note valid = get_run_valid [OF assms(2)]
  have "0 \<le> usage_input_tokens (turn_usage t)"
    using assms(3,5) by (auto simp: cost_def usage_counts_def Let_def split: if_splits)
  moreover have "0 \<le> actual" using cost_le_upper_bound [OF assms(4,3,5) order_refl order_refl] by simp
  ultimately have "fields_valid (budget_manifest b1)"
    using valid assms(3)
    by (auto simp: fields_valid_def b1_def settled_def add_seconds_def charge_def opt_all_def usage_counts_def elapsed_def elapsed_since_def)
  moreover have "remote_identity_complete (budget_manifest b1) = Inr ()" "run_id (budget_manifest b1) = rid"
    using valid stored_run_id [OF assms(1,2)] by (simp_all add: b1_def settled_def add_seconds_def charge_def)
  ultimately have "get_run d' rid = Inr (budget_manifest b')" if "d' \<noteq> d"
    using save_budget_stored [OF sv assms(1)] that by simp
  moreover obtain u where "budget_manifest b' = (budget_manifest b1)\<lparr>updated_at := u\<rparr>" using sv by (rule save_budget_facts) auto
  ultimately show ?thesis using err b1 by auto
qed

section \<open>Examples\<close>

text \<open>A queued run whose stored manifest is any given one.\<close>

definition sample_with :: "run_manifest \<Rightarrow> db" where
  "sample_with m = sample_run_db\<lparr>runs := [sample_row\<lparr>row_manifest := m\<rparr>]\<rparr>"

definition sample_env :: store_env where
  "sample_env = \<lparr>env_digest = sample_sha, env_dump = (\<lambda>_. []), env_writer = (\<lambda>_. None), env_remover = (\<lambda>_. True),
     env_text = (\<lambda>_. ''0'')\<rparr>"

definition sample_world :: surroundings where
  "sample_world = \<lparr>lease_check = Inr (), budget_clock = 0, budget_clock_after = 0, wall_clock = 1, save_clock = 1, event_clock = 1\<rparr>"

lemma sample_env_simps [simp]:
  "env_digest sample_env = sample_sha" "env_dump sample_env = (\<lambda>_. [])" "env_writer sample_env = (\<lambda>_. None)"
  "env_remover sample_env = (\<lambda>_. True)" "env_text sample_env = (\<lambda>_. ''0'')"
  "lease_check sample_world = Inr ()" "budget_clock sample_world = 0" "budget_clock_after sample_world = 0"
  "wall_clock sample_world = 1" "save_clock sample_world = 1" "event_clock sample_world = 1"
  by (simp_all add: sample_env_def sample_world_def)

definition sample_fits :: "run_manifest \<Rightarrow> bool" where
  "sample_fits m \<longleftrightarrow> run_id m = ''r'' \<and> status m = QUEUED \<and> candidate m = None \<and> updated_at m = 0
     \<and> fields_valid m \<and> remote_identity_complete m = Inr ()"

lemma sample_with_wf:
  assumes "sample_fits m"
  shows "store_wf sample_sha (\<lambda>_. []) (sample_with m)" and "get_run (sample_with m) ''r'' = Inr m"
proof -
  have f: "ledger_sound sample_sha (sample_with m)"
    using sample_run_sound ledger_sound_anchors [of "sample_with m" sample_run_db sample_sha]
    by (simp add: sample_with_def sample_run_db_def anchor_of_def)
  have "runs_ok (runs (sample_with m))"
    by (simp add: sample_with_def runs_ok_def run_row_ok_def opt_all_def sample_row_def active_keys_def active_key.simps sample_hashes)
  with f assms show "store_wf sample_sha (\<lambda>_. []) (sample_with m)"
    by (simp add: store_wf_def row_agrees_def marker_ok_def sample_with_def sample_row_def sample_fits_def sample_run_db_def
        create_schema_def Let_def)
  show "get_run (sample_with m) ''r'' = Inr m"
    using assms by (simp add: get_run_def find_run_def sample_with_def sample_row_def validate_manifest_def sample_fits_def)
qed

lemma sample_with_save:
  assumes m: "sample_fits m" "sample_fits m1" and e: "etype \<noteq> ''run.created''" "etype \<noteq> ''candidate.selected''"
  shows "\<exists>d'. save_run sample_sha (\<lambda>_. []) (\<lambda>_. None) (\<lambda>_. True) (sample_with m) m1 etype dts [] 1 1
    = (d', m1\<lparr>updated_at := 1\<rparr>, Inr ()) \<and> d' \<noteq> sample_with m"
proof -
  obtain d1 where t: "save_transaction sample_sha (\<lambda>_. []) (sample_with m) (m1\<lparr>updated_at := 1\<rparr>) 0 [(etype, dts)] 1 = Inr d1"
    and f: "find_run d1 ''r'' = Some (sample_row\<lparr>row_status := QUEUED, row_updated_at := 1, row_manifest := m1\<lparr>updated_at := 1\<rparr>,
          row_event_count := 2, row_event_head := replicate 63 (CHR ''0'') @ ''2''\<rparr>)"
    and mk: "manifest_artifact_sync d1 ''r'' = Some \<lparr>sync_updated_at = 1, sync_manifest_sha256 = sample_sha []\<rparr>"
    and ev: "events d1 \<noteq> events (sample_with m)"
    using m e by (simp add: sample_with_def sample_fits_def run_eval new_event_def Let_def)
  have v: "validate_manifest (m1\<lparr>updated_at := 1\<rparr>) = Inr (m1\<lparr>updated_at := 1\<rparr>)"
    using m(2) by (simp add: validate_manifest_def sample_fits_def)
  have "publish_artifact sample_sha (\<lambda>_. []) (\<lambda>_. None) d1 ''r'' 1 (sample_sha [])
      = Inr (d1\<lparr>manifest_files := (manifest_files d1)(''r'' \<mapsto> m1\<lparr>updated_at := 1\<rparr>),
          manifest_artifact_sync := (manifest_artifact_sync d1)(''r'' := None)\<rparr>, True)"
    using f mk v m(2) by (simp add: publish_artifact_def sample_fits_def)
  moreover have "d1\<lparr>manifest_files := x, manifest_artifact_sync := y\<rparr> \<noteq> sample_with m" for x y
  proof
    assume "d1\<lparr>manifest_files := x, manifest_artifact_sync := y\<rparr> = sample_with m"
    then have "events (d1\<lparr>manifest_files := x, manifest_artifact_sync := y\<rparr>) = events (sample_with m)" by (rule arg_cong)
    with ev show False by simp
  qed
  ultimately show ?thesis
    using m(2) e(2) t
    by (simp add: save_run_def selection_details_def next_run_update_time_def synchronize_manifest_artifact_def sample_fits_def
        terminal_statuses_def Let_def)
qed

lemma sample_clear: "assert_circuit_breaker_clear sample_sha (sample_with m) = Inr ()"
  by (simp add: assert_circuit_breaker_clear_def circuit_breaker_status_def sample_with_def sample_run_db_def create_schema_def
      stored_generation_def active_triggers_def max_generation_def breaker_revision_def epoch_trips_def Let_def)

definition sample_budget :: "run_manifest \<Rightarrow> run_budget" where
  "sample_budget m = \<lparr>budget_manifest = m, max_cost_usd = 10, max_model_calls = 100, deadline = 3600, spent = (\<lambda>_. 0)\<rparr>"

lemma sample_created_fits: "sample_fits sample_created"
  by (simp add: sample_fits_def fields_valid_def remote_identity_complete_def new_manifest_def opt_all_def)

lemma sample_upper: "upper_bound_cost gpt_sol 1000 32000 = 773/800" "upper_bound_cost gpt_sol 1000 0 = 1/160"
  by (simp_all add: upper_bound_cost_def tier_rates_def gpt_sol_def usd_def tokens_per_price_unit_def Let_def)

lemma sample_fits_reserved:
  assumes "sample_fits m" and "1 \<le> i" and "1 \<le> out" and "0 \<le> upper_bound_cost spec i out" and "0 < timeout" and "0 \<le> model_calls m"
  shows "sample_fits (reserved_manifest w m s spec i out timeout)"
  using assms by (simp add: sample_fits_def reserved_manifest_def fields_valid_def opt_all_def valid_reservation_def)

lemma sample_fits_settled:
  assumes "sample_fits (budget_manifest b)" and "0 \<le> usage_input_tokens (turn_usage t)" and "0 \<le> usage_output_tokens (turn_usage t)"
    and "0 \<le> amount" and "0 \<le> x"
  shows "sample_fits (budget_manifest (settled b r t amount x))"
  using assms by (simp add: sample_fits_def settled_def charge_def add_seconds_def fields_valid_def opt_all_def)

lemma sample_calls: "model_calls sample_created = 0"
  by (simp add: new_manifest_def)

lemma event_names: "''model.call.started'' \<noteq> ''run.created''" "''model.call.started'' \<noteq> ''candidate.selected''"
  "''model.call.budget_exceeded'' \<noteq> ''run.created''" "''model.call.budget_exceeded'' \<noteq> ''candidate.selected''"
  by simp_all

lemma sample_reserve_request:
  "\<exists>d' b' r. reserve sample_env sample_world (sample_with sample_created) (sample_budget sample_created) Agent gpt_sol 1000 32000 4000 []
      = (d', b', Inr r) \<and> rv_output_tokens r = 32000 \<and> pending_cost (budget_manifest b') = 773/800"
proof -
  have left: "cost_left (sample_budget sample_created) Agent = 11/2"
    by (simp add: cost_left_def sample_budget_def pending_cost_def scopes_def)
  have rate: "rate_output (tier_rates gpt_sol 1000) = 30"
    by (simp add: tier_rates_def gpt_sol_def usd_def)
  have "32000 \<le> affordable_output (sample_budget sample_created) Agent gpt_sol 1000"
    by (simp add: affordable_output_def left rate sample_upper tokens_per_price_unit_def le_floor_iff)
  then have c: "reserve_checks sample_env sample_world (sample_with sample_created) (sample_budget sample_created) Agent gpt_sol 1000 32000 4000
      = Inr (32000, 600)"
    using sample_clear [of sample_created]
    by (simp add: reserve_checks_def sample_budget_def gpt_sol_def usd_def seconds_left_def max_turn_seconds_def sample_calls Let_def)
  have fits: "sample_fits (reserved_manifest sample_world sample_created Agent gpt_sol 1000 32000 600)"
    by (rule sample_fits_reserved [OF sample_created_fits]) (simp_all add: sample_upper sample_calls)
  obtain d' where "save_run sample_sha (\<lambda>_. []) (\<lambda>_. None) (\<lambda>_. True) (sample_with sample_created)
      (reserved_manifest sample_world sample_created Agent gpt_sol 1000 32000 600) ''model.call.started''
      (dict_update [] (reserve_details sample_env Agent gpt_sol
        (the (model_reservation (reserved_manifest sample_world sample_created Agent gpt_sol 1000 32000 600))))) [] 1 1
    = (d', (reserved_manifest sample_world sample_created Agent gpt_sol 1000 32000 600)\<lparr>updated_at := 1\<rparr>, Inr ())"
    using sample_with_save [OF sample_created_fits fits event_names(1,2)] by blast
  then show ?thesis
    by (simp add: reserve_def c save_budget_def Let_def) (simp add: sample_budget_def reserved_manifest_def pending_cost_def sample_upper)
qed

lemma sample_new_budget: "new_budget sample_created 10 100 60 0 = Inr (sample_budget sample_created)"
  by (simp add: new_budget_def sample_budget_def)

lemma sample_zero: "model_cost_usd sample_created = 0" "model_calls sample_created = 0" "model_reservation sample_created = None"
    "fields_valid sample_created" "gpt_sol \<in> set specs"
  using sample_created_fits by (simp_all add: sample_fits_def specs_def) (simp_all add: new_manifest_def)

lemma budget_never_exceeded_witness:
  "\<exists>d b gs. budget_history sample_env (sample_with sample_created, sample_budget sample_created, []) (d, b, gs)
    \<and> 0 < pending_cost (budget_manifest b) \<and> model_cost_usd (budget_manifest b) + pending_cost (budget_manifest b) \<le> 10
    \<and> model_calls (budget_manifest b) \<le> 100"
proof -
  obtain d' b' r where r: "reserve sample_env sample_world (sample_with sample_created) (sample_budget sample_created) Agent gpt_sol 1000 32000 4000 []
      = (d', b', Inr r)" "pending_cost (budget_manifest b') = 773/800"
    using sample_reserve_request by blast
  have "budget_history sample_env (sample_with sample_created, sample_budget sample_created, []) (d', b', [r])"
    using budget_history.intros(2) [OF budget_history.intros(1) step_reserve [OF r(1) sample_zero(5), of "[]"]] by simp
  with budget_never_exceeded [OF sample_new_budget sample_zero(1-4) this] r(2) show ?thesis
    by (intro exI [of _ d'] exI [of _ b'] exI [of _ "[r]"]) simp
qed


lemma reservation_is_durable_witness:
  "\<exists>d b. get_run d ''r'' = Inr b \<and> pending_cost b = 773/800 \<and> store_wf sample_sha (\<lambda>_. []) d"
proof -
  obtain d' b' r where r: "reserve sample_env sample_world (sample_with sample_created) (sample_budget sample_created) Agent gpt_sol 1000 32000 4000 []
      = (d', b', Inr r)" "pending_cost (budget_manifest b') = 773/800"
    using sample_reserve_request by blast
  have m: "get_run (sample_with sample_created) ''r'' = Inr (budget_manifest (sample_budget sample_created))"
    "0 \<le> model_calls (budget_manifest (sample_budget sample_created))"
    using sample_with_wf(2) [OF sample_created_fits] sample_zero(2) by (simp_all add: sample_budget_def)
  from sample_with_wf(1) [OF sample_created_fits] have "store_wf (env_digest sample_env) (env_dump sample_env) (sample_with sample_created)"
    by simp
  from reservation_is_durable [OF this m(1) sample_zero(5) m(2) r(1)] r(2) show ?thesis by auto
qed

text \<open>A turn that used more output than reserved is stored and then fails the run.\<close>

definition sample_reservation :: reservation where
  "sample_reservation = \<lparr>rv_call = 1, rv_scope = Agent, rv_spec = gpt_sol, rv_input_tokens = 1000, rv_output_tokens = 32000,
     rv_cost_usd = 773/800, rv_timeout_seconds = 600, rv_started = 0\<rparr>"

definition sample_pending_run :: run_manifest where
  "sample_pending_run = reserved_manifest sample_world sample_created Agent gpt_sol 1000 32000 600"

definition overrun_turn :: turn where
  "overrun_turn = sample_turn\<lparr>turn_usage := \<lparr>usage_input_tokens = 90, usage_cached_input_tokens = 0, usage_cache_write_tokens = 0,
     usage_output_tokens = 32001, usage_reasoning_tokens = 0, usage_total_tokens = 32091\<rparr>\<rparr>"

lemma settle_detects_overrun_witness:
  "\<exists>d' b' e. settle sample_env sample_world (sample_with sample_pending_run) (sample_budget sample_pending_run) sample_reservation overrun_turn
      = (d', b', Inl e) \<and> get_run d' ''r'' = Inr (budget_manifest b') \<and> model_reservation (budget_manifest b') = None"
proof -
  have fits: "sample_fits sample_pending_run"
    unfolding sample_pending_run_def
    by (rule sample_fits_reserved [OF sample_created_fits]) (simp_all add: sample_upper sample_calls)
  have c: "cost (rv_spec sample_reservation) (turn_usage overrun_turn) = Inr (6003/6250)"
    by (simp add: cost_def sample_reservation_def overrun_turn_def tier_rates_def gpt_sol_def usd_def tokens_per_price_unit_def Let_def)
  have u: "usage_counts (turn_usage overrun_turn)" by (simp add: usage_counts_def overrun_turn_def)
  let ?b = "sample_budget sample_pending_run"
  let ?b1 = "settled ?b sample_reservation overrun_turn (6003/6250) 0"
  have fits1: "sample_fits (budget_manifest ?b1)"
    using fits by (intro sample_fits_settled) (simp_all add: sample_budget_def overrun_turn_def)
  have vs: "settle_violations ?b1 sample_reservation overrun_turn = [''provider output usage exceeded its durable reservation'']"
    by (simp add: settle_violations_def settled_def charge_def add_seconds_def sample_budget_def sample_pending_run_def reserved_manifest_def
        overrun_turn_def sample_reservation_def)
  have pend: "require_pending ?b (rv_call sample_reservation) = Inr ()"
    by (simp add: require_pending_def sample_budget_def sample_pending_run_def reserved_manifest_def sample_reservation_def sample_calls)
  have el: "elapsed_since (rv_started sample_reservation) 0 = 0"
    by (simp add: elapsed_since_def sample_reservation_def)
  obtain d' where d': "save_run sample_sha (\<lambda>_. []) (\<lambda>_. None) (\<lambda>_. True) (sample_with sample_pending_run) (budget_manifest ?b1)
      ''model.call.budget_exceeded'' (settle_details sample_env sample_reservation overrun_turn (6003/6250) 0
        [''provider output usage exceeded its durable reservation'']) [] 1 1
    = (d', (budget_manifest ?b1)\<lparr>updated_at := 1\<rparr>, Inr ())" "d' \<noteq> sample_with sample_pending_run"
    using sample_with_save [OF fits fits1 event_names(3,4)] by blast
  then obtain b' e where s: "settle sample_env sample_world (sample_with sample_pending_run) ?b sample_reservation overrun_turn = (d', b', Inl e)"
    by (auto simp: settle_def pend c el vs save_budget_def Let_def)
  have m: "get_run (sample_with sample_pending_run) ''r'' = Inr (budget_manifest ?b)"
    using sample_with_wf(2) [OF fits] by (simp add: sample_budget_def)
  have wf: "store_wf (env_digest sample_env) (env_dump sample_env) (sample_with sample_pending_run)"
    using sample_with_wf(1) [OF fits] by simp
  have "rv_spec sample_reservation \<in> set specs" using sample_zero(5) by (simp add: sample_reservation_def)
  from settle_detects_overrun [OF wf m u this c _ s] d'(2) s show ?thesis
    by (auto simp: sample_reservation_def overrun_turn_def)
qed

end
