(* ===== verification/ModelRetry.thy ===== *)
theory ModelRetry
  imports PyText
begin

text \<open>
  \<open>model_retry.py\<close>: whether a failed model request is worth paying for again.  Seconds are rationals;
  the texts of numbers and the reading of a header as a finite number are parameters.
\<close>

section \<open>Decisions\<close>

definition quota_codes :: "string list" where
  "quota_codes = [''insufficient_quota'', ''credit_balance_exhausted'', ''organization_spend_limit_exceeded'',
     ''project_spend_limit_exceeded'', ''organization_usage_limit_exceeded'']"

definition policy_codes :: "string list" where
  "policy_codes = [''cyber_policy'', ''misalignment_policy_violation'']"

definition provider_error_codes :: "string list" where
  "provider_error_codes = quota_codes @ policy_codes"

definition retriable_statuses :: "int list" where
  "retriable_statuses = [408, 409, 429, 500, 502, 503, 504, 529]"

definition max_retry_wait_seconds :: rat where
  "max_retry_wait_seconds = 120"

definition max_attempts :: nat where
  "max_attempts = 3"

record decision =
  rd_retry :: bool
  rd_wait_seconds :: rat
  rd_reason :: string

definition no_retry :: "string \<Rightarrow> decision" where
  "no_retry reason = \<lparr>rd_retry = False, rd_wait_seconds = 0, rd_reason = reason\<rparr>"

text \<open>
  \<open>retry-after-ms\<close> before \<open>retry-after\<close>; \<open>number\<close> is \<open>float(value)\<close> where it is finite.
\<close>

fun header_seconds :: "(string \<Rightarrow> rat option) \<Rightarrow> (string \<Rightarrow> string option) \<Rightarrow> (string \<times> rat) list \<Rightarrow> rat option" where
  "header_seconds number headers [] = None"
| "header_seconds number headers ((name, scale) # rest) =
     (case headers name of
        None \<Rightarrow> header_seconds number headers rest
      | Some raw \<Rightarrow> (case number raw of
          None \<Rightarrow> header_seconds number headers rest
        | Some x \<Rightarrow> if 0 \<le> x / scale then Some (x / scale) else header_seconds number headers rest))"

definition retry_after_seconds :: "(string \<Rightarrow> rat option) \<Rightarrow> (string \<Rightarrow> string option) \<Rightarrow> rat option" where
  "retry_after_seconds number headers = header_seconds number headers [(''retry-after-ms'', 1000), (''retry-after'', 1)]"

definition retry_wait :: "(rat \<Rightarrow> string) \<Rightarrow> string \<Rightarrow> rat option \<Rightarrow> nat \<Rightarrow> rat \<Rightarrow> decision" where
  "retry_wait num_text failure retry_after attempt jitter =
     (if max_attempts \<le> attempt then no_retry (failure @ '' after '' @ nat_text max_attempts @ '' attempts'')
      else case retry_after of
        Some x \<Rightarrow>
          if max_retry_wait_seconds < x then
            no_retry (failure @ ''; Retry-After '' @ num_text x @ ''s exceeds the '' @ num_text max_retry_wait_seconds @ ''s limit'')
          else \<lparr>rd_retry = True, rd_wait_seconds = min (x * (1 + 1/4 * jitter)) max_retry_wait_seconds, rd_reason = failure\<rparr>
      | None \<Rightarrow>
          \<lparr>rd_retry = True, rd_wait_seconds = min (10 * 3 ^ (attempt - 1) * (1 + 1/4 * jitter)) max_retry_wait_seconds,
            rd_reason = failure\<rparr>)"

definition retry_decision :: "(rat \<Rightarrow> string) \<Rightarrow> int option \<Rightarrow> string option \<Rightarrow> rat option \<Rightarrow> bool \<Rightarrow> nat \<Rightarrow> rat \<Rightarrow> decision" where
  "retry_decision num_text http provider_code retry_after timed_out attempt jitter =
     (if (case provider_code of None \<Rightarrow> False | Some c \<Rightarrow> c \<in> set provider_error_codes) then
        no_retry ((case http of None \<Rightarrow> [] | Some n \<Rightarrow> ''HTTP '' @ int_text n @ '' '') @ the provider_code)
      else if timed_out then retry_wait num_text ''timeout'' retry_after attempt jitter
      else case http of
        None \<Rightarrow> retry_wait num_text ''connection error'' retry_after attempt jitter
      | Some n \<Rightarrow> if n \<in> set retriable_statuses then retry_wait num_text (''HTTP '' @ int_text n) retry_after attempt jitter
          else no_retry (''HTTP '' @ int_text n))"

section \<open>What a retry waits for\<close>

lemma retry_wait_facts:
  assumes "rd_retry (retry_wait num_text failure retry_after attempt jitter)" and "0 \<le> jitter"
    and "case retry_after of None \<Rightarrow> True | Some x \<Rightarrow> 0 \<le> x"
  shows "attempt < max_attempts" and "0 \<le> rd_wait_seconds (retry_wait num_text failure retry_after attempt jitter)"
    and "rd_wait_seconds (retry_wait num_text failure retry_after attempt jitter) \<le> max_retry_wait_seconds"
    and "retry_after = Some x \<Longrightarrow> x \<le> rd_wait_seconds (retry_wait num_text failure retry_after attempt jitter)"
proof -
  have grow: "y \<le> y * (1 + 1/4 * jitter)" if "0 \<le> y" for y :: rat
    using mult_left_mono [of 1 "1 + 1/4 * jitter" y] that assms(2) by simp
  have "0 \<le> (10 :: rat) * 3 ^ (attempt - 1) * (1 + 1/4 * jitter)" using assms(2) by (intro mult_nonneg_nonneg) simp_all
  then show "attempt < max_attempts" "0 \<le> rd_wait_seconds (retry_wait num_text failure retry_after attempt jitter)"
    "rd_wait_seconds (retry_wait num_text failure retry_after attempt jitter) \<le> max_retry_wait_seconds"
    "retry_after = Some x \<Longrightarrow> x \<le> rd_wait_seconds (retry_wait num_text failure retry_after attempt jitter)"
    using assms grow [of x] grow [of "the retry_after"]
    by (auto simp: retry_wait_def no_retry_def max_retry_wait_seconds_def split: if_splits option.splits)
qed

text \<open>
  A retry is only decided before the third attempt, for a timeout, a connection error or a
  retriable status without a billing or policy code, and waits at least what the provider asked
  for and at most two minutes.
\<close>

theorem retry_is_bounded:
  assumes "rd_retry (retry_decision num_text http provider_code retry_after timed_out attempt jitter)" and "0 \<le> jitter"
    and "case retry_after of None \<Rightarrow> True | Some x \<Rightarrow> 0 \<le> x"
  shows "attempt < 3 \<and> 0 \<le> rd_wait_seconds (retry_decision num_text http provider_code retry_after timed_out attempt jitter)
    \<and> rd_wait_seconds (retry_decision num_text http provider_code retry_after timed_out attempt jitter) \<le> 120
    \<and> (\<forall>x. retry_after = Some x \<longrightarrow> x \<le> rd_wait_seconds (retry_decision num_text http provider_code retry_after timed_out attempt jitter))
    \<and> (\<forall>c. provider_code = Some c \<longrightarrow> c \<notin> set provider_error_codes)
    \<and> (timed_out \<or> http = None \<or> the http \<in> set retriable_statuses)"
proof -
  obtain failure where d: "retry_decision num_text http provider_code retry_after timed_out attempt jitter
      = retry_wait num_text failure retry_after attempt jitter"
    and "\<forall>c. provider_code = Some c \<longrightarrow> c \<notin> set provider_error_codes"
    and "timed_out \<or> http = None \<or> the http \<in> set retriable_statuses"
    using assms(1) by (auto simp: retry_decision_def no_retry_def split: if_splits option.splits)
  then show ?thesis
    using retry_wait_facts [OF assms(1) [unfolded d] assms(2,3)] unfolding d
    by (auto simp: max_attempts_def max_retry_wait_seconds_def)
qed

lemma retry_is_bounded_witness:
  "rd_wait_seconds (retry_decision (\<lambda>_. ''0'') (Some 503) None (Some 100) False 2 (9/10)) \<le> 120
    \<and> 100 \<le> rd_wait_seconds (retry_decision (\<lambda>_. ''0'') (Some 503) None (Some 100) False 2 (9/10))"
proof -
  have "rd_retry (retry_decision (\<lambda>_. ''0'') (Some 503) None (Some 100) False 2 (9/10))"
    by (simp add: retry_decision_def retry_wait_def retriable_statuses_def max_attempts_def max_retry_wait_seconds_def)
  from retry_is_bounded [OF this] show ?thesis by simp
qed

end
