(* ===== verification/AgentLoop.thy ===== *)
theory AgentLoop
  imports Budget ModelRetry "HOL-Library.Sublist"
begin

text \<open>
  \<open>agent_loop.py\<close>: the loop that drives one transcript, request by request and turn by turn, until a
  submission or a limit ends it.  The provider, the tools, the submit handler and everything the
  budget's operations meet are an automaton on an outside state \<open>'w\<close>, so they may answer in any way;
  other processes may change the database whenever the loop looks outside.  Writing the redacted
  transcript to a file is not modelled.
\<close>

section \<open>Outcomes and the outside\<close>

datatype stop_reason = Reason_turns | Reason_budget | Reason_time | Reason_context | Reason_no_tool_call
  | Reason_malformed | Reason_repeated_failure | Reason_submit_limit

datatype failure_source = From_provider | From_sandbox

datatype 'sub loop_outcome = Finished 'sub | Did_not_finish stop_reason string | Loop_failure failure_source string

datatype reply_action = Accept | Continue | Stop

record submit_reply =
  reply_action :: reply_action
  reply_text :: string

record command_run =
  run_command :: string
  run_passed :: bool

record tool_outcome =
  outcome_result :: tool_result
  outcome_invalid :: bool
  outcome_commands :: "command_run list"
  outcome_changed_path :: "string option"
  outcome_out_of_time :: bool

text \<open>
  \<open>look\<close>: what a budget operation meets.  \<open>run_tool\<close> is \<open>None\<close> for a transcript without session tools and
  \<open>on_submit\<close> without a handler; \<open>read_submission\<close> is pydantic's validation, with the text of its error.
\<close>

record ('w, 'sub) outside =
  look :: "'w \<Rightarrow> db \<Rightarrow> 'w \<times> db \<times> surroundings"
  provider_step :: "'w \<Rightarrow> transcript \<Rightarrow> int \<Rightarrow> rat \<Rightarrow> 'w \<times> (model_failure + turn)"
  draw_jitter :: "'w \<Rightarrow> 'w \<times> rat"
  run_tool :: "('w \<Rightarrow> tool_call \<Rightarrow> 'w \<times> tool_outcome result) option"
  read_submission :: "tool_call \<Rightarrow> string + 'sub"
  on_submit :: "('w \<Rightarrow> 'sub \<Rightarrow> bool \<Rightarrow> 'w \<times> submit_reply result) option"
  out_store :: store_env
  out_schema :: "transcript_kind \<Rightarrow> json"
  out_scrub :: "string \<Rightarrow> string"
  out_token :: "string \<Rightarrow> bool"
  out_guidance :: "(string \<times> string) list"
  out_name :: string

section \<open>Limits\<close>

definition context_limit_tokens :: int where
  "context_limit_tokens = 200000"

definition max_nudges :: nat where
  "max_nudges = 2"

definition max_malformed_turns :: nat where
  "max_malformed_turns = 3"

definition max_repeated_failures :: nat where
  "max_repeated_failures = 3"

definition reminder_turns_left :: nat where
  "reminder_turns_left = 10"

definition reminder_cost_share :: rat where
  "reminder_cost_share = 25/100"

definition min_turn_output_tokens :: int where
  "min_turn_output_tokens = 4000"

fun transcript_scope :: "transcript_kind \<Rightarrow> role" where
  "transcript_scope Kind_setup = Setup"
| "transcript_scope Kind_agent = Agent"
| "transcript_scope Kind_critic = Critic"
| "transcript_scope Kind_triage = Triage"
| "transcript_scope Kind_policy = Triage"

text \<open>\<open>MODELS[transcript.model]\<close>, which the transcript's validator checked.\<close>

definition loop_spec :: "transcript \<Rightarrow> model_spec" where
  "loop_spec t = (case models_table (tr_model t) of Some s \<Rightarrow> s | None \<Rightarrow> gpt_sol)"

definition output_cap :: "transcript \<Rightarrow> int" where
  "output_cap t = turn_output_cap (spec_provider (loop_spec t)) (transcript_scope (tr_kind t))"

definition loop_max_turns :: "transcript \<Rightarrow> nat" where
  "loop_max_turns t = max_turns (scopes (transcript_scope (tr_kind t)))"

definition input_ceiling :: "model_spec \<Rightarrow> int" where
  "input_ceiling s = (case spec_long_context s of None \<Rightarrow> spec_context_tokens s
     | Some tier \<Rightarrow> min (spec_context_tokens s) (above_input_tokens tier))"

definition larger_output_cap :: "model_spec \<Rightarrow> int \<Rightarrow> int" where
  "larger_output_cap s cap = (case spec_provider s of
     Openai \<Rightarrow> min (2 * cap) (spec_max_output_tokens s)
   | Anthropic \<Rightarrow> spec_max_output_tokens s)"

section \<open>A request\<close>

datatype 'sub requested = Turned turn | Ended "'sub loop_outcome"

datatype 'sub attempted = Done "'sub requested result" | Retry | Enlarge

fun failure_status :: "model_failure \<Rightarrow> int option" where
  "failure_status (Request_failed _ http _ _) = http"
| "failure_status _ = None"

fun failure_code :: "model_failure \<Rightarrow> string option" where
  "failure_code (Request_failed _ _ c _) = c"
| "failure_code _ = None"

fun failure_retry_after :: "model_failure \<Rightarrow> rat option" where
  "failure_retry_after (Request_failed _ _ _ x) = x"
| "failure_retry_after _ = None"

fun failure_timed_out :: "model_failure \<Rightarrow> bool" where
  "failure_timed_out (Timed_out _ _ _ _) = True"
| "failure_timed_out _ = False"

fun failure_other :: "model_failure \<Rightarrow> bool" where
  "failure_other (Other_failure _) = True"
| "failure_other _ = False"

definition provider_failed :: "string \<Rightarrow> 'sub attempted" where
  "provider_failed message = Done (Inr (Ended (Loop_failure From_provider message)))"

text \<open>After a failed request: its record, the decision, and the charge before a retry.\<close>

definition after_failure :: "('w, 'sub) outside \<Rightarrow> reservation \<Rightarrow> model_failure \<Rightarrow> nat \<Rightarrow> 'w \<times> db \<times> run_budget
    \<Rightarrow> ('w \<times> db \<times> run_budget) \<times> 'sub attempted" where
  "after_failure O' rv f failures = (\<lambda>(w, d, b).
     let E = out_store O';
         (w1, d1, s1) = look O' w d;
         (d2, b2, res) = record_failure E s1 d1 b rv f
     in case res of
          Inl e \<Rightarrow> ((w1, d2, b2), Done (Inl e))
        | Inr _ \<Rightarrow>
          if failure_other f then ((w1, d2, b2), provider_failed (failure_text f))
          else
            let (w3, j) = draw_jitter O' w1;
                dec = retry_decision (env_text E) (failure_status f) (failure_code f) (failure_retry_after f)
                  (failure_timed_out f) (failures + 1) j
            in if \<not> rd_retry dec then
                 ((w3, d2, b2), provider_failed (failure_text f @ '' ('' @ rd_reason dec @ '')''))
               else
                 let (w4, d4, s4) = look O' w3 d2
                 in if seconds_left b2 (budget_clock s4) \<le> rd_wait_seconds dec then
                      ((w4, d4, b2), provider_failed (failure_text f @ '' (no time is left to retry)''))
                    else
                      let (w5, d5, s5) = look O' w4 d4;
                          (d6, b6, res6) = charge_for_retry E s5 d5 b2 rv (rd_wait_seconds dec) (rd_reason dec)
                      in ((w5, d6, b6), (case res6 of Inl e \<Rightarrow> Done (Inl e) | Inr _ \<Rightarrow> Retry)))"

definition after_turn :: "('w, 'sub) outside \<Rightarrow> model_spec \<Rightarrow> reservation \<Rightarrow> turn \<Rightarrow> int \<Rightarrow> bool \<Rightarrow> 'w \<times> db \<times> run_budget
    \<Rightarrow> ('w \<times> db \<times> run_budget) \<times> 'sub attempted" where
  "after_turn O' spec rv turn cap enlarged = (\<lambda>(w, d, b).
     let (w1, d1, s1) = look O' w d;
         (d2, b2, res) = settle (out_store O') s1 d1 b rv turn
     in ((w1, d2, b2),
         case res of
           Inl e \<Rightarrow> Done (Inl e)
         | Inr _ \<Rightarrow>
           if turn_stop turn \<noteq> Stop_max_output_tokens then Done (Inr (Turned turn))
           else if rv_output_tokens rv < cap then
             Done (Inr (Ended (Did_not_finish Reason_budget ''The budget left too little room for the turn'')))
           else if enlarged \<or> larger_output_cap spec cap \<le> cap then
             provider_failed (''The model's turn did not fit in '' @ int_text cap @ '' output tokens'')
           else Enlarge))"

definition request_once :: "('w, 'sub) outside \<Rightarrow> transcript \<Rightarrow> nat \<Rightarrow> int \<Rightarrow> int \<Rightarrow> nat \<Rightarrow> bool \<Rightarrow> 'w \<times> db \<times> run_budget
    \<Rightarrow> ('w \<times> db \<times> run_budget) \<times> 'sub attempted" where
  "request_once O' t turns cap minimum failures enlarged = (\<lambda>(w, d, b).
     let (w1, d1, s1) = look O' w d;
         (d2, b2, res) = reserve (out_store O') s1 d1 b (transcript_scope (tr_kind t)) (loop_spec t)
           (next_input_reservation (out_schema O') t) cap minimum
           [(''transcript'', out_name O'), (''turn'', nat_text (turns + 1))]
     in case res of
          Inl e \<Rightarrow> ((w1, d2, b2), (case e of
              BudgetExhaustedError m l \<Rightarrow>
                Done (Inr (Ended (Did_not_finish (if l = LimitTime then Reason_time else Reason_budget) m)))
            | _ \<Rightarrow> Done (Inl e)))
        | Inr rv \<Rightarrow>
          let (w3, answer) = provider_step O' w1 t (rv_output_tokens rv) (rv_timeout_seconds rv)
          in (case answer of
               Inl f \<Rightarrow> after_failure O' rv f failures (w3, d2, b2)
             | Inr turn \<Rightarrow> after_turn O' (loop_spec t) rv turn cap enlarged (w3, d2, b2)))"

text \<open>A retry comes before the last attempt, and the limit is enlarged once.\<close>

lemma retry_wait_attempt: "rd_retry (retry_wait nt failure x n j) \<Longrightarrow> n < max_attempts"
  by (auto simp: retry_wait_def no_retry_def split: if_splits)

lemma retry_decision_attempt: "rd_retry (retry_decision nt http c x timed n j) \<Longrightarrow> n < max_attempts"
  using retry_wait_attempt by (auto simp: retry_decision_def no_retry_def split: if_splits option.splits)

lemma request_once_again:
  "request_once O' t turns cap minimum failures enlarged s = (s', Retry) \<Longrightarrow> failures + 1 < max_attempts"
  "request_once O' t turns cap minimum failures enlarged s = (s', Enlarge) \<Longrightarrow> \<not> enlarged"
  by (auto simp: request_once_def after_failure_def after_turn_def provider_failed_def Let_def
      split: prod.splits sum.splits error.splits if_splits dest: retry_decision_attempt)

function request :: "('w, 'sub) outside \<Rightarrow> transcript \<Rightarrow> nat \<Rightarrow> int \<Rightarrow> int \<Rightarrow> nat \<Rightarrow> bool \<Rightarrow> 'w \<times> db \<times> run_budget
    \<Rightarrow> ('w \<times> db \<times> run_budget) \<times> 'sub requested result" where
  "request O' t turns cap minimum failures enlarged s =
     (case request_once O' t turns cap minimum failures enlarged s of
        (s', Done r) \<Rightarrow> (s', r)
      | (s', Retry) \<Rightarrow> request O' t turns cap minimum (failures + 1) enlarged s'
      | (s', Enlarge) \<Rightarrow> request O' t turns (larger_output_cap (loop_spec t) cap) (cap + 1) failures True s')"
  by pat_completeness auto
termination
  by (relation "measure (\<lambda>(_, _, _, _, _, failures, enlarged, _). (max_attempts - failures) + (if enlarged then 0 else 1))")
     (auto dest!: request_once_again [OF sym])

declare request.simps [simp del]

definition first_request :: "('w, 'sub) outside \<Rightarrow> transcript \<Rightarrow> nat \<Rightarrow> 'w \<times> db \<times> run_budget
    \<Rightarrow> ('w \<times> db \<times> run_budget) \<times> 'sub requested result" where
  "first_request O' t turns s = request O' t turns (output_cap t) (min (output_cap t) min_turn_output_tokens) 0 False s"

section \<open>Calls that do not run\<close>

text \<open>\<open>_commands\<close> and \<open>refused\<close> of \<open>agent_tools.py\<close>: an error result in the shape the tool needs.\<close>

fun json_text_of :: "json \<Rightarrow> string option" where
  "json_text_of (JStr s) = Some s"
| "json_text_of _ = None"

definition shell_commands :: "tool_call \<Rightarrow> string list result" where
  "shell_commands c = (case map_of (call_arguments c) ''commands'' of
     Some (JList xs) \<Rightarrow> if list_all (\<lambda>x. json_text_of x \<noteq> None) xs then Inr (map (\<lambda>x. the (json_text_of x)) xs)
       else Inl (ModelError ''Model sent a shell call without a list of commands'')
   | _ \<Rightarrow> Inl (ModelError ''Model sent a shell call without a list of commands''))"

definition not_run :: "string \<Rightarrow> shell_chunk" where
  "not_run message = \<lparr>chunk_stdout = '''', chunk_stderr = message, chunk_exit_code = Some 126\<rparr>"

definition refused :: "tool_call \<Rightarrow> string \<Rightarrow> tool_result result" where
  "refused c message =
     (if call_name c = native_shell Openai then
        bind_r (shell_commands c) (\<lambda>commands. Inr \<lparr>result_call_id = call_id c,
          result_output = Output_chunks (map (\<lambda>_. not_run message) commands), result_is_error = False\<rparr>)
      else Inr \<lparr>result_call_id = call_id c, result_output = Output_text message, result_is_error = True\<rparr>)"

function holds_token :: "(string \<Rightarrow> bool) \<Rightarrow> json \<Rightarrow> bool" where
  "holds_token token (JStr s) = token s"
| "holds_token token (JList xs) = list_ex (holds_token token) xs"
| "holds_token token (JObj kvs) = list_ex (\<lambda>kv. holds_token token (snd kv)) kvs"
| "holds_token token JNull = False"
| "holds_token token (JBool b) = False"
| "holds_token token (JInt i) = False"
  by pat_completeness auto
termination
proof (relation "measure (\<lambda>(_, v). size v)", goal_cases)
  case 1
  show ?case by simp
next
  case (2 token xs x)
  then show ?case by (induction xs) auto
next
  case (3 token kvs kv)
  then have "kv \<in> set kvs" by simp
  then show ?case by (induction kvs) (auto simp: size_prod_simp)
qed

section \<open>Answering a turn\<close>

text \<open>What the loop keeps between turns.\<close>

record loop_state =
  ls_transcript :: transcript
  ls_turns :: nat
  ls_nudges :: nat
  ls_malformed_turns :: nat
  ls_failing_command :: "string option"
  ls_failures_in_a_row :: nat
  ls_guided :: "string set"
  ls_reminded_turns :: bool
  ls_reminded_cost :: bool

definition end_failure_streak :: "loop_state \<Rightarrow> loop_state" where
  "end_failure_streak ls = ls\<lparr>ls_failing_command := None, ls_failures_in_a_row := 0\<rparr>"

definition count_run :: "command_run \<Rightarrow> loop_state \<Rightarrow> loop_state" where
  "count_run r ls =
     (if run_passed r then end_failure_streak ls
      else if ls_failing_command ls = Some (run_command r) then ls\<lparr>ls_failures_in_a_row := ls_failures_in_a_row ls + 1\<rparr>
      else ls\<lparr>ls_failing_command := Some (run_command r), ls_failures_in_a_row := 1\<rparr>)"

primrec count_runs :: "command_run list \<Rightarrow> loop_state \<Rightarrow> loop_state \<times> 'sub loop_outcome option" where
  "count_runs [] ls = (ls, None)"
| "count_runs (r # rs) ls =
     (if max_repeated_failures \<le> ls_failures_in_a_row (count_run r ls) then
        (count_run r ls, Some (Did_not_finish Reason_repeated_failure
          (''The same command failed '' @ nat_text max_repeated_failures @ '' times in a row'')))
      else count_runs rs (count_run r ls))"

definition after_tool :: "tool_outcome \<Rightarrow> loop_state \<Rightarrow> loop_state \<times> 'sub loop_outcome option" where
  "after_tool out ls =
     (if outcome_out_of_time out then (ls, Some (Did_not_finish Reason_time ''The run reached its time limit''))
      else count_runs (outcome_commands out) (if outcome_commands out = [] then end_failure_streak ls else ls))"

definition guidance_for :: "(string \<times> string) list \<Rightarrow> string \<Rightarrow> loop_state \<Rightarrow> loop_state \<times> string list" where
  "guidance_for guidance path ls =
     (let fresh = filter (\<lambda>(dir, _). dir \<notin> ls_guided ls \<and> startswith path (dir @ ''/'')) (sort_key fst guidance)
      in (ls\<lparr>ls_guided := ls_guided ls \<union> set (map fst fresh)\<rparr>, map snd fresh))"

definition finish_text :: "transcript_kind \<Rightarrow> string" where
  "finish_text k = (if k = Kind_agent then ''call submit, or submit with outcome skip'' else ''call '' @ submit_name k)"

definition nudge_text :: "transcript_kind \<Rightarrow> string" where
  "nudge_text k =
     (if k = Kind_agent then ''Continue the task; call submit when you are done or submit with outcome skip.''
      else ''Continue the task; call '' @ submit_name k @ '' when you are done.'')"

definition last_turn_text :: "transcript_kind \<Rightarrow> string" where
  "last_turn_text k = ''This conversation has reached its length limit, and this is your last turn. '' @
     (if k = Kind_agent then ''Call submit now with what you have: outcome fixed if the change is complete ''
        @ ''and tested, otherwise outcome skip with the reason.''
      else ''Call '' @ submit_name k @ '' now with what you have.'')"

definition reminders :: "run_budget \<Rightarrow> loop_state \<Rightarrow> loop_state \<times> string list" where
  "reminders b ls =
     (let k = tr_kind (ls_transcript ls);
          most = loop_max_turns (ls_transcript ls);
          turns_left = int most - int (ls_turns ls);
          r1 = \<not> ls_reminded_turns ls \<and> reminder_turns_left < most \<and> turns_left \<le> int reminder_turns_left;
          r2 = \<not> ls_reminded_cost ls \<and> cost_left b (transcript_scope k) \<le> scope_size b (transcript_scope k) * reminder_cost_share
      in (ls\<lparr>ls_reminded_turns := ls_reminded_turns ls \<or> r1, ls_reminded_cost := ls_reminded_cost ls \<or> r2\<rparr>,
          (if r1 then [''Reminder: '' @ int_text turns_left @ '' turns are left. Finish up and '' @ finish_text k @ ''.''] else [])
          @ (if r2 then [''Reminder: about a quarter of the budget for this task is left. Finish up and '' @ finish_text k @ ''.'']
             else [])))"

text \<open>The progress through a turn's calls.\<close>

record 'sub answering =
  an_results :: "tool_result list"
  an_messages :: "string list"
  an_outcome :: "'sub loop_outcome option"
  an_invalid :: nat
  an_submitted :: bool

definition add_result :: "tool_result \<Rightarrow> bool \<Rightarrow> 'sub answering \<Rightarrow> 'sub answering" where
  "add_result r invalid a = a\<lparr>an_results := an_results a @ [r], an_invalid := an_invalid a + of_bool invalid\<rparr>"

definition submit_call :: "('w, 'sub) outside \<Rightarrow> transcript_kind \<Rightarrow> bool \<Rightarrow> tool_call \<Rightarrow> 'w
    \<Rightarrow> 'w \<times> (tool_result \<times> 'sub loop_outcome option \<times> bool) result" where
  "submit_call O' k last_turn c w =
     (let reply = (\<lambda>s err. \<lparr>result_call_id = call_id c, result_output = Output_text s, result_is_error = err\<rparr>)
      in case read_submission O' c of
           Inl problem \<Rightarrow> (w, Inr (reply (''Invalid '' @ submit_name k @ '' call: '' @ problem
             @ ''. Correct the arguments and call '' @ submit_name k @ '' again.'') True, None, True))
         | Inr sub \<Rightarrow> (case on_submit O' of
             None \<Rightarrow> (w, Inr (reply ''Received.'' False, Some (Finished sub), False))
           | Some f \<Rightarrow>
             let (w', res) = f w sub last_turn
             in (w', bind_r res (\<lambda>a. Inr (reply (reply_text a) False,
                  (case reply_action a of
                     Accept \<Rightarrow> Some (Finished sub)
                   | Stop \<Rightarrow> Some (Did_not_finish Reason_submit_limit ''No further submit is allowed'')
                   | Continue \<Rightarrow> None), False)))))"

definition token_refusal :: string where
  "token_refusal = ''Refused: the arguments contain what looks like a credential. Nothing ran. Write a ''
     @ ''placeholder such as <TOKEN> in its place and call the tool again.''"

definition second_submit :: string where
  "second_submit = ''Not run: a turn may call submit once. Read the result of the first call, then call submit ''
     @ ''again in a later turn.''"

definition answer_call :: "('w, 'sub) outside \<Rightarrow> transcript_kind \<Rightarrow> bool \<Rightarrow> tool_call \<Rightarrow> 'w \<times> loop_state \<Rightarrow> 'sub answering
    \<Rightarrow> ('w \<times> loop_state) \<times> 'sub answering result" where
  "answer_call O' k last_turn c = (\<lambda>(w, ls) a.
     if an_outcome a \<noteq> None then
       ((w, ls), bind_r (refused c ''Not run: an earlier call in this turn ended the task.'') (\<lambda>r. Inr (add_result r False a)))
     else if holds_token (out_token O') (JObj (call_arguments c)) then
       ((w, end_failure_streak ls), bind_r (refused c token_refusal) (\<lambda>r. Inr (add_result r True a)))
     else if call_name c = submit_name k \<and> an_submitted a then
       ((w, ls), bind_r (refused c second_submit) (\<lambda>r. Inr (add_result r True a)))
     else if call_name c = submit_name k then
       let (w', res) = submit_call O' k last_turn c w
       in ((w', end_failure_streak ls),
           bind_r res (\<lambda>(r, out, invalid). Inr ((add_result r invalid a)\<lparr>an_outcome := out, an_submitted := True\<rparr>)))
     else (case run_tool O' of
         None \<Rightarrow> ((w, ls), Inl (ModelError (''Model called '' @ call_name c @ '', which this transcript does not have'')))
       | Some f \<Rightarrow>
         let (w', res) = f w c
         in (case res of
               Inl e \<Rightarrow> ((w', ls), Inl e)
             | Inr out \<Rightarrow>
               let (ls1, messages) = (case outcome_changed_path out of None \<Rightarrow> (ls, []) | Some p \<Rightarrow> guidance_for (out_guidance O') p ls);
                   (ls2, ended) = after_tool out ls1
               in ((w', ls2), Inr ((add_result (outcome_result out) (outcome_invalid out) a)
                    \<lparr>an_messages := an_messages a @ messages, an_outcome := ended\<rparr>)))))"

primrec answer_calls :: "('w, 'sub) outside \<Rightarrow> transcript_kind \<Rightarrow> bool \<Rightarrow> tool_call list \<Rightarrow> 'w \<times> loop_state \<Rightarrow> 'sub answering
    \<Rightarrow> ('w \<times> loop_state) \<times> 'sub answering result" where
  "answer_calls O' k last_turn [] s a = (s, Inr a)"
| "answer_calls O' k last_turn (c # cs) s a = (case answer_call O' k last_turn c s a of
     (s', Inl e) \<Rightarrow> (s', Inl e)
   | (s', Inr a') \<Rightarrow> answer_calls O' k last_turn cs s' a')"

primrec append_texts :: "(string \<Rightarrow> string) \<Rightarrow> transcript \<Rightarrow> string list \<Rightarrow> transcript \<times> unit result" where
  "append_texts scrub t [] = (t, Inr ())"
| "append_texts scrub t (s # ss) = (case append_user_text scrub t s of Inl e \<Rightarrow> (t, Inl e) | Inr t' \<Rightarrow> append_texts scrub t' ss)"

text \<open>The rest of a turn with calls, once they are answered.\<close>

definition finish_turn :: "('w, 'sub) outside \<Rightarrow> bool \<Rightarrow> run_budget \<Rightarrow> loop_state \<Rightarrow> 'sub answering
    \<Rightarrow> loop_state \<times> 'sub loop_outcome option result" where
  "finish_turn O' last_turn b ls a =
     (case append_tool_results (out_scrub O') (ls_transcript ls) (an_results a) of
        Inl e \<Rightarrow> (ls, Inl e)
      | Inr t \<Rightarrow>
        let malformed = (if an_invalid a = length (an_results a) then ls_malformed_turns ls + 1 else 0);
            ls1 = ls\<lparr>ls_transcript := t, ls_malformed_turns := malformed\<rparr>;
            out = (if an_outcome a = None \<and> max_malformed_turns \<le> malformed
              then Some (Did_not_finish Reason_malformed (nat_text max_malformed_turns @ '' turns in a row had only invalid tool calls''))
              else an_outcome a);
            (ls2, more) = (if out = None \<and> \<not> last_turn then reminders b ls1 else (ls1, []));
            (t', res) = append_texts (out_scrub O') t (an_messages a @ more)
        in (ls2\<lparr>ls_transcript := t'\<rparr>, bind_r res (\<lambda>_. Inr out)))"

definition answer :: "('w, 'sub) outside \<Rightarrow> turn \<Rightarrow> bool \<Rightarrow> run_budget \<Rightarrow> 'w \<times> loop_state
    \<Rightarrow> ('w \<times> loop_state) \<times> 'sub loop_outcome option result" where
  "answer O' turn last_turn b = (\<lambda>(w, ls).
     if turn_tool_calls turn = [] then
       if last_turn then ((w, ls), Inr None)
       else if max_nudges \<le> ls_nudges ls then
         ((w, ls), Inr (Some (Did_not_finish Reason_no_tool_call ''The model kept ending turns without a tool call'')))
       else
         let ls1 = ls\<lparr>ls_nudges := ls_nudges ls + 1\<rparr>
         in (case append_user_text (out_scrub O') (ls_transcript ls) (nudge_text (tr_kind (ls_transcript ls))) of
               Inl e \<Rightarrow> ((w, ls1), Inl e)
             | Inr t \<Rightarrow> ((w, ls1\<lparr>ls_transcript := t\<rparr>), Inr None))
     else (case answer_calls O' (tr_kind (ls_transcript ls)) last_turn (turn_tool_calls turn) (w, ls)
           \<lparr>an_results = [], an_messages = [], an_outcome = None, an_invalid = 0, an_submitted = False\<rparr> of
         (s', Inl e) \<Rightarrow> (s', Inl e)
       | ((w', ls'), Inr a) \<Rightarrow> let (ls2, res) = finish_turn O' last_turn b ls' a in ((w', ls2), res)))"

section \<open>Turns\<close>

definition context_limit :: "transcript \<Rightarrow> int" where
  "context_limit t = min context_limit_tokens (input_ceiling (loop_spec t))"

text \<open>One pass of the loop of \<open>_run_turns\<close>: an outcome, an error, or \<open>None\<close> to go on.\<close>

definition turn_once :: "('w, 'sub) outside \<Rightarrow> loop_state \<Rightarrow> 'w \<times> db \<times> run_budget
    \<Rightarrow> (loop_state \<times> 'w \<times> db \<times> run_budget) \<times> 'sub loop_outcome option result" where
  "turn_once O' ls s =
     (let t = ls_transcript ls; last_turn = context_limit t < next_input_reservation (out_schema O') t in
      if loop_max_turns t \<le> ls_turns ls then
        ((ls, s), Inr (Some (Did_not_finish Reason_turns
          (''The transcript reached its turn cap of '' @ nat_text (loop_max_turns t)))))
      else (case (if last_turn then append_user_text (out_scrub O') t (last_turn_text (tr_kind t)) else Inr t) of
          Inl e \<Rightarrow> ((ls, s), Inl e)
        | Inr t1 \<Rightarrow>
          let ls1 = ls\<lparr>ls_transcript := t1\<rparr> in
          if last_turn \<and> input_ceiling (loop_spec t) < next_input_reservation (out_schema O') t1 then
            ((ls1, s), Inr (Some (Did_not_finish Reason_context ''The transcript is too long for one more turn'')))
          else (case first_request O' t1 (ls_turns ls) s of
              (s', Inl e) \<Rightarrow> ((ls1, s'), Inl e)
            | (s', Inr (Ended out)) \<Rightarrow> ((ls1, s'), Inr (Some out))
            | ((w, d, b), Inr (Turned turn)) \<Rightarrow> (case append_turn t1 turn of
                Inl e \<Rightarrow> ((ls1, w, d, b), Inl e)
              | Inr t2 \<Rightarrow>
                let ((w', ls3), res) = answer O' turn last_turn b (w, ls1\<lparr>ls_transcript := t2, ls_turns := ls_turns ls + 1\<rparr>)
                in ((ls3, w', d, b), (case res of
                     Inl (SandboxError m) \<Rightarrow> Inr (Some (Loop_failure From_sandbox m))
                   | Inl (ModelError m) \<Rightarrow> Inr (Some (Loop_failure From_provider m))
                   | Inl e \<Rightarrow> Inl e
                   | Inr (Some out) \<Rightarrow> Inr (Some out)
                   | Inr None \<Rightarrow> Inr (if last_turn then Some (Did_not_finish Reason_context ''The transcript reached its context limit'')
                       else None)))))))"

text \<open>What a turn leaves alone: the transcript's kind and model.\<close>

definition same_transcript :: "transcript \<Rightarrow> transcript \<Rightarrow> bool" where
  "same_transcript t u \<longleftrightarrow> tr_kind u = tr_kind t \<and> tr_model u = tr_model t \<and> tr_run_id u = tr_run_id t"

lemma append_same:
  "append_user_text scrub t s = Inr u \<Longrightarrow> same_transcript t u"
  "append_turn t turn = Inr u \<Longrightarrow> same_transcript t u"
  "append_tool_results scrub t rs = Inr u \<Longrightarrow> same_transcript t u"
  by (auto simp: same_transcript_def append_user_text_def append_turn_def append_tool_results_def append_items_def Let_def
      bind_r_Inr_iff split: if_splits)

lemma append_texts_same: "append_texts scrub t ss = (u, res) \<Longrightarrow> same_transcript t u"
  by (induction ss arbitrary: t)
     (auto simp: same_transcript_def split: sum.splits dest: append_same(1) [unfolded same_transcript_def])

lemma streak_same [simp]:
  "ls_transcript (end_failure_streak ls) = ls_transcript ls" "ls_turns (end_failure_streak ls) = ls_turns ls"
  "ls_transcript (count_run r ls) = ls_transcript ls" "ls_turns (count_run r ls) = ls_turns ls"
  by (simp_all add: end_failure_streak_def count_run_def)

lemma count_runs_same: "count_runs rs ls = (ls', out) \<Longrightarrow> ls_transcript ls' = ls_transcript ls \<and> ls_turns ls' = ls_turns ls"
  by (induction rs arbitrary: ls) (auto split: if_splits)

lemma after_tool_same: "after_tool out ls = (ls', ended) \<Longrightarrow> ls_transcript ls' = ls_transcript ls \<and> ls_turns ls' = ls_turns ls"
  by (auto simp: after_tool_def dest!: count_runs_same split: if_splits)

lemma guidance_same: "guidance_for g path ls = (ls', ms) \<Longrightarrow> ls_transcript ls' = ls_transcript ls \<and> ls_turns ls' = ls_turns ls"
  by (auto simp: guidance_for_def Let_def)

lemma answer_call_same:
  "answer_call O' k last_turn c (w, ls) a = ((w', ls'), res) \<Longrightarrow> ls_transcript ls' = ls_transcript ls \<and> ls_turns ls' = ls_turns ls"
  by (auto simp: answer_call_def Let_def split: if_splits option.splits sum.splits prod.splits dest!: after_tool_same guidance_same)

lemma answer_calls_same:
  "answer_calls O' k last_turn cs (w, ls) a = ((w', ls'), res) \<Longrightarrow> ls_transcript ls' = ls_transcript ls \<and> ls_turns ls' = ls_turns ls"
  by (induction cs arbitrary: w ls a) (auto split: prod.splits sum.splits dest!: answer_call_same)

lemma reminders_same: "reminders b ls = (ls', ms) \<Longrightarrow> ls_transcript ls' = ls_transcript ls \<and> ls_turns ls' = ls_turns ls"
  by (auto simp: reminders_def Let_def)

lemma finish_turn_same:
  assumes "finish_turn O' last_turn b ls a = (ls', res)"
  shows "same_transcript (ls_transcript ls) (ls_transcript ls') \<and> ls_turns ls' = ls_turns ls"
  using assms
  by (auto simp: finish_turn_def Let_def same_transcript_def split: if_splits sum.splits prod.splits
      dest!: reminders_same append_texts_same append_same(3))

lemma answer_same:
  assumes "answer O' turn last_turn b (w, ls) = ((w', ls'), res)"
  shows "same_transcript (ls_transcript ls) (ls_transcript ls') \<and> ls_turns ls' = ls_turns ls"
  using assms
  by (auto simp: answer_def Let_def same_transcript_def split: if_splits sum.splits prod.splits
      dest!: append_same(1) answer_calls_same finish_turn_same)

lemma loop_max_turns_same: "same_transcript t u \<Longrightarrow> loop_max_turns u = loop_max_turns t"
  by (simp add: same_transcript_def loop_max_turns_def)

lemma turn_once_same:
  assumes "turn_once O' ls s = ((ls', s'), res)"
  shows "same_transcript (ls_transcript ls) (ls_transcript ls')"
  using assms
  by (auto simp: turn_once_def Let_def same_transcript_def split: if_splits sum.splits prod.splits requested.splits
      dest!: append_same(1,2) answer_same)

lemma turn_once_turns:
  assumes "turn_once O' ls s = ((ls', s'), res)"
  shows "ls_turns ls \<le> ls_turns ls'" and "ls_turns ls' \<le> max (ls_turns ls) (loop_max_turns (ls_transcript ls))"
    and "ls_turns ls' \<le> ls_turns ls + 1"
    and "res = Inr None \<Longrightarrow> ls_turns ls' = ls_turns ls + 1 \<and> ls_turns ls < loop_max_turns (ls_transcript ls)"
  using assms
  by (auto simp: turn_once_def Let_def split: if_splits sum.splits prod.splits requested.splits option.splits error.splits
      dest!: answer_same)

function run_turns :: "('w, 'sub) outside \<Rightarrow> loop_state \<Rightarrow> 'w \<times> db \<times> run_budget
    \<Rightarrow> (loop_state \<times> 'w \<times> db \<times> run_budget) \<times> 'sub loop_outcome result" where
  "run_turns O' ls s = (case turn_once O' ls s of
     ((ls', s'), Inl e) \<Rightarrow> ((ls', s'), Inl e)
   | ((ls', s'), Inr (Some out)) \<Rightarrow> ((ls', s'), Inr out)
   | ((ls', s'), Inr None) \<Rightarrow> run_turns O' ls' s')"
  by pat_completeness auto
termination
proof (relation "measure (\<lambda>(_, ls, _). loop_max_turns (ls_transcript ls) - ls_turns ls)", goal_cases)
  case (2 O' ls s p res ls' s' x)
  then have "turn_once O' ls s = ((ls', s'), Inr None)" by simp
  with turn_once_turns(4) [OF this] loop_max_turns_same [OF turn_once_same [OF this]] show ?case by auto
qed simp

declare run_turns.simps [simp del]

text \<open>\<open>AgentLoop\<close>'s public operations.  \<open>new_loop\<close> is the part of its construction that can refuse a transcript.\<close>

definition new_loop :: "('w, 'sub) outside \<Rightarrow> transcript \<Rightarrow> run_budget \<Rightarrow> nat \<Rightarrow> loop_state result" where
  "new_loop O' t b number =
     (if (Tool_shell \<in> set (tool_sets (tr_kind t))) \<noteq> (run_tool O' \<noteq> None) then
        Inl (ValueError ''transcripts need session tools exactly when they have a shell'')
      else if tr_run_id t \<noteq> run_id (budget_manifest b) \<or> number < 1 then
        Inl (ValueError ''the transcript must belong to the budget's run and have a number'')
      else if '''' \<in> fst ` set (out_guidance O') then
        Inl (ValueError ''the root's guidance belongs in the first user message'')
      else Inr \<lparr>ls_transcript = t, ls_turns = 0, ls_nudges = 0, ls_malformed_turns = 0, ls_failing_command = None,
        ls_failures_in_a_row = 0, ls_guided = {}, ls_reminded_turns = False, ls_reminded_cost = False\<rparr>)"

definition run_loop :: "('w, 'sub) outside \<Rightarrow> loop_state \<Rightarrow> 'w \<times> db \<times> run_budget
    \<Rightarrow> (loop_state \<times> 'w \<times> db \<times> run_budget) \<times> 'sub loop_outcome result" where
  "run_loop O' ls s =
     (if \<not> awaiting_model (ls_transcript ls) then ((ls, s), Inl (ValueError ''the transcript is not waiting for a model turn''))
      else run_turns O' ls s)"

definition resume_loop :: "('w, 'sub) outside \<Rightarrow> string \<Rightarrow> loop_state \<Rightarrow> 'w \<times> db \<times> run_budget
    \<Rightarrow> (loop_state \<times> 'w \<times> db \<times> run_budget) \<times> 'sub loop_outcome result" where
  "resume_loop O' text ls s = (case append_user_text (out_scrub O') (ls_transcript ls) text of
     Inl e \<Rightarrow> ((ls, s), Inl e)
   | Inr t \<Rightarrow> run_loop O' (ls\<lparr>ls_transcript := t\<rparr>) s)"

section \<open>A loop ends\<close>

text \<open>\<open>steps\<close> counts the requests the provider got, in whatever the outside remembers.\<close>

definition counts_requests :: "('w \<Rightarrow> nat) \<Rightarrow> ('w, 'sub) outside \<Rightarrow> bool" where
  "counts_requests steps O' \<longleftrightarrow>
     (\<forall>w d. steps (fst (look O' w d)) = steps w)
     \<and> (\<forall>w t n x. steps (fst (provider_step O' w t n x)) = steps w + 1)
     \<and> (\<forall>w. steps (fst (draw_jitter O' w)) = steps w)
     \<and> (\<forall>f w c. run_tool O' = Some f \<longrightarrow> steps (fst (f w c)) = steps w)
     \<and> (\<forall>f w x l. on_submit O' = Some f \<longrightarrow> steps (fst (f w x l)) = steps w)"

lemma counts_requestsD:
  assumes "counts_requests steps O'"
  shows "look O' w d = (w', d', s') \<Longrightarrow> steps w' = steps w"
    and "provider_step O' w t n x = (w', r) \<Longrightarrow> steps w' = steps w + 1"
    and "draw_jitter O' w = (w', j) \<Longrightarrow> steps w' = steps w"
    and "run_tool O' = Some f \<Longrightarrow> f w c = (w', out) \<Longrightarrow> steps w' = steps w"
    and "on_submit O' = Some g \<Longrightarrow> g w v l = (w', rep) \<Longrightarrow> steps w' = steps w"
  using assms unfolding counts_requests_def by (metis fst_conv)+

lemma after_failure_steps:
  assumes "counts_requests steps O'" and "after_failure O' rv f failures (w, d, b) = ((w', d', b'), res)"
  shows "steps w' = steps w"
  using assms(2) counts_requestsD(1,3) [OF assms(1)]
  by (auto simp: after_failure_def Let_def provider_failed_def split: prod.splits sum.splits if_splits)

lemma after_turn_steps:
  assumes "counts_requests steps O'" and "after_turn O' spec rv turn cap enlarged (w, d, b) = ((w', d', b'), res)"
  shows "steps w' = steps w"
  using assms(2) counts_requestsD(1) [OF assms(1)]
  by (auto simp: after_turn_def Let_def split: prod.splits)

lemma request_once_steps:
  assumes "counts_requests steps O'" and "request_once O' t turns cap mn failures enlarged (w, d, b) = ((w', d', b'), res)"
  shows "steps w' \<le> steps w + 1"
  using assms(2) counts_requestsD(1,2) [OF assms(1)] after_failure_steps [OF assms(1)] after_turn_steps [OF assms(1)]
  by (auto simp: request_once_def Let_def split: prod.splits sum.splits)

lemma request_steps:
  assumes "counts_requests steps O'" and "request O' t turns cap mn failures enlarged s = (s', res)" and "failures < max_attempts"
  shows "steps (fst s') \<le> steps (fst s) + (max_attempts - failures) + (if enlarged then 0 else 1)"
  using assms
proof (induction O' t turns cap mn failures enlarged s rule: request.induct)
  case (1 O' t turns cap mn failures enlarged s)
  obtain w d b where s: "s = (w, d, b)" by (cases s)
  obtain w1 d1 b1 att where once: "request_once O' t turns cap mn failures enlarged s = ((w1, d1, b1), att)"
    by (metis surj_pair)
  note one = request_once_steps [OF 1(3) once [unfolded s]]
  show ?case
  proof (cases att)
    case (Done r)
    then have "s' = (w1, d1, b1)"
      using 1(4) once by (simp add: request.simps [of O' t turns cap mn failures enlarged s])
    with 1(5) one show ?thesis by (simp add: s)
  next
    case Retry
    note again = request_once_again(1) [OF once [unfolded Retry]]
    have "steps (fst s') \<le> steps w1 + (max_attempts - (failures + 1)) + (if enlarged then 0 else 1)"
      using 1(1) [OF once [unfolded Retry, symmetric] refl 1(3) _ again] 1(4) once Retry
      by (simp add: request.simps [of O' t turns cap mn failures enlarged s])
    with one again show ?thesis by (simp add: s)
  next
    case Enlarge
    note again = request_once_again(2) [OF once [unfolded Enlarge]]
    have "steps (fst s') \<le> steps w1 + (max_attempts - failures)"
      using 1(2) [OF once [unfolded Enlarge, symmetric] refl 1(3) _ 1(5)] 1(4) once Enlarge
      by (simp add: request.simps [of O' t turns cap mn failures enlarged s])
    with one again show ?thesis by (simp add: s)
  qed
qed

lemma first_request_steps:
  assumes "counts_requests steps O'" and "first_request O' t turns s = (s', res)"
  shows "steps (fst s') \<le> steps (fst s) + (max_attempts + 1)"
  using request_steps [OF assms [unfolded first_request_def]] by (simp add: max_attempts_def)

lemma answer_call_steps:
  assumes "counts_requests steps O'" and "answer_call O' k last_turn c (w, ls) a = ((w', ls'), res)"
  shows "steps w' = steps w"
  using assms(2) counts_requestsD(4,5) [OF assms(1)]
  by (auto simp: answer_call_def submit_call_def Let_def split: if_splits option.splits sum.splits prod.splits)

lemma answer_calls_steps:
  assumes "counts_requests steps O'" and "answer_calls O' k last_turn cs (w, ls) a = ((w', ls'), res)"
  shows "steps w' = steps w"
  using assms(2) by (induction cs arbitrary: w ls a) (auto split: prod.splits sum.splits dest!: answer_call_steps [OF assms(1)])

lemma answer_steps:
  assumes "counts_requests steps O'" and "answer O' turn last_turn b (w, ls) = ((w', ls'), res)"
  shows "steps w' = steps w"
  using assms(2) answer_calls_steps [OF assms(1)]
  by (auto simp: answer_def Let_def split: if_splits sum.splits prod.splits)

text \<open>The last turn of a transcript: its next request is over the context limit.\<close>

definition at_limit :: "('w, 'sub) outside \<Rightarrow> loop_state \<Rightarrow> bool" where
  "at_limit O' ls \<longleftrightarrow> context_limit (ls_transcript ls) < next_input_reservation (out_schema O') (ls_transcript ls)"

text \<open>How one pass can go: no request, a request without a turn, or an answered turn.\<close>

lemma turn_once_cases:
  assumes "turn_once O' ls s = ((ls', s'), res)"
  obtains (unsent) "s' = s" and "\<And>out. res \<noteq> Inr (Some (Finished out))"
  | (asked) t1 r where "ls_turns ls < loop_max_turns (ls_transcript ls)" and "same_transcript (ls_transcript ls) t1"
      and "first_request O' t1 (ls_turns ls) s = (s', r)"
      and "(\<exists>e. r = Inl e \<and> res = Inl e) \<or> (\<exists>out. r = Inr (Ended out) \<and> res = Inr (Some out)) \<or> (\<exists>turn. r = Inr (Turned turn) \<and> (\<exists>e. res = Inl e))"
  | (answered) t1 w d b turn t2 w' a where "ls_turns ls < loop_max_turns (ls_transcript ls)" and "same_transcript (ls_transcript ls) t1"
      and "first_request O' t1 (ls_turns ls) s = ((w, d, b), Inr (Turned turn))" and "append_turn t1 turn = Inr t2"
      and "answer O' turn (at_limit O' ls) b (w, ls\<lparr>ls_transcript := t2, ls_turns := ls_turns ls + 1\<rparr>) = ((w', ls'), a)"
      and "s' = (w', d, b)"
      and "res = Inr None \<Longrightarrow> a = Inr None" and "\<And>out. res = Inr (Some (Finished out)) \<Longrightarrow> a = Inr (Some (Finished out))"
proof -
  define t where "t = ls_transcript ls"
  define last_turn where "last_turn = (context_limit t < next_input_reservation (out_schema O') t)"
  define pre where "pre = (if last_turn then append_user_text (out_scrub O') t (last_turn_text (tr_kind t)) else Inr t)"
  have same: "same_transcript t t1" if "pre = Inr t1" for t1
    using that append_same(1) by (auto simp: pre_def same_transcript_def split: if_splits)
  show thesis
  proof (cases "loop_max_turns t \<le> ls_turns ls")
    case True
    with assms show thesis by (intro unsent) (auto simp: turn_once_def Let_def t_def)
  next
    case turns: False
    show thesis
    proof (cases pre)
      case (Inl e)
      with assms turns show thesis
        by (intro unsent) (auto simp: turn_once_def Let_def t_def [symmetric] last_turn_def [symmetric] pre_def [symmetric])
    next
      case (Inr t1)
      note sent = assms [unfolded turn_once_def Let_def, folded t_def, folded last_turn_def, folded pre_def, unfolded Inr]
      show thesis
      proof (cases "last_turn \<and> input_ceiling (loop_spec t) < next_input_reservation (out_schema O') t1")
        case True
        with sent turns show thesis by (intro unsent) auto
      next
        case False
        obtain w d b r where req: "first_request O' t1 (ls_turns ls) s = ((w, d, b), r)" by (metis surj_pair)
        note sent = sent [unfolded sum.case if_not_P [OF turns] if_not_P [OF False] req prod.case]
        consider e where "r = Inl e" | out where "r = Inr (Ended out)" | turn where "r = Inr (Turned turn)"
          by (metis requested.exhaust sum.exhaust)
        then show thesis
        proof cases
          case 1
          with sent req turns same [OF Inr] show thesis by (intro asked [of t1 r]) (auto simp: t_def)
        next
          case 2
          with sent req turns same [OF Inr] show thesis by (intro asked [of t1 r]) (auto simp: t_def)
        next
          case (3 turn)
          show thesis
          proof (cases "append_turn t1 turn")
            case (Inl e)
            with 3 sent req turns same [OF Inr] show thesis by (intro asked [of t1 r]) (auto simp: t_def)
          next
            case at: (Inr t2)
            obtain w' ls3 a where ans: "answer O' turn last_turn b (w, ls\<lparr>ls_transcript := t2, ls_turns := ls_turns ls + 1\<rparr>) = ((w', ls3), a)"
              by (metis surj_pair)
            have "ls3 = ls'" "s' = (w', d, b)" "res = Inr None \<Longrightarrow> a = Inr None" "\<And>out. res = Inr (Some (Finished out)) \<Longrightarrow> a = Inr (Some (Finished out))"
              using sent 3 at ans by (auto split: sum.splits error.splits option.splits if_splits)
            with 3 req turns same [OF Inr] at ans show thesis by (intro answered) (auto simp: t_def at_limit_def last_turn_def)
          qed
        qed
      qed
    qed
  qed
qed

lemma turn_once_steps:
  assumes "counts_requests steps O'" and "turn_once O' ls s = ((ls', s'), res)"
  shows "steps (fst s') \<le> steps (fst s) + (if ls_turns ls < loop_max_turns (ls_transcript ls) then max_attempts + 1 else 0)"
  using assms(2)
proof (cases rule: turn_once_cases)
  case (asked t1 r)
  with first_request_steps [OF assms(1) asked(3)] show ?thesis by simp
next
  case (answered t1 w d b turn t2 w' a)
  with first_request_steps [OF assms(1) answered(3)] answer_steps [OF assms(1) answered(5)] show ?thesis by simp
qed simp

text \<open>
  C28. Every loop ends: it takes no turn beyond the cap of its transcript and sends at most four
  requests for each turn it had left, whatever the provider, the tools and the submit handler
  do.
\<close>

theorem loop_ends:
  assumes "counts_requests steps O'" and "run_turns O' ls s = ((ls', s'), res)"
  shows "ls_turns ls' \<le> max (ls_turns ls) (loop_max_turns (ls_transcript ls))
    \<and> steps (fst s') \<le> steps (fst s) + (max_attempts + 1) * (loop_max_turns (ls_transcript ls) - ls_turns ls)"
  using assms
proof (induction O' ls s rule: run_turns.induct)
  case (1 O' ls s)
  obtain ls1 s1 r where once: "turn_once O' ls s = ((ls1, s1), r)" by (metis surj_pair)
  note step = turn_once_turns [OF once] turn_once_steps [OF 1(2) once]
  note same = loop_max_turns_same [OF turn_once_same [OF once]]
  show ?case
  proof (cases "r = Inr None")
    case True
    note IH = 1(1) [OF once [unfolded True, symmetric] refl refl refl 1(2)]
    have "run_turns O' ls1 s1 = ((ls', s'), res)"
      using 1(3) once by (simp add: run_turns.simps [of O' ls s] True)
    note IH = IH [OF this]
    have turns: "ls_turns ls1 = ls_turns ls + 1" "ls_turns ls < loop_max_turns (ls_transcript ls)"
      using step(4) [OF True] by simp_all
    define k where "k = max_attempts + 1"
    have "k * (loop_max_turns (ls_transcript ls) - ls_turns ls) = k * (loop_max_turns (ls_transcript ls) - ls_turns ls1) + k"
      using turns by (metis Suc_diff_Suc Suc_eq_plus1 add_mult_distrib2 mult.right_neutral)
    moreover have "steps (fst s1) \<le> steps (fst s) + k" using step(5) turns by (simp add: k_def)
    moreover have "steps (fst s') \<le> steps (fst s1) + k * (loop_max_turns (ls_transcript ls) - ls_turns ls1)"
      using IH same by (simp add: k_def)
    ultimately have "steps (fst s') \<le> steps (fst s) + k * (loop_max_turns (ls_transcript ls) - ls_turns ls)" by linarith
    with IH turns same show ?thesis by (simp add: k_def)
  next
    case False
    with 1(3) once have "ls1 = ls'" "s1 = s'"
      by (auto simp: run_turns.simps [of O' ls s] split: sum.splits option.splits)
    moreover have "(max_attempts + 1) * 1 \<le> (max_attempts + 1) * (loop_max_turns (ls_transcript ls) - ls_turns ls)"
      if "ls_turns ls < loop_max_turns (ls_transcript ls)"
      using that by (intro mult_le_mono2) simp
    ultimately show ?thesis using step by (force split: if_splits)
  qed
qed

section \<open>A loop stays within the budget\<close>

text \<open>The provider's turns carry token counts, as its adapters read them.\<close>

definition counts_tokens :: "('w, 'sub) outside \<Rightarrow> bool" where
  "counts_tokens O' \<longleftrightarrow> (\<forall>w t n x w' turn. provider_step O' w t n x = (w', Inr turn) \<longrightarrow> usage_counts (turn_usage turn))"

definition budget_kept :: "run_budget \<Rightarrow> run_budget \<Rightarrow> bool" where
  "budget_kept b b' \<longleftrightarrow> budget_ok b' [] \<and> max_cost_usd b' = max_cost_usd b \<and> max_model_calls b' = max_model_calls b"

lemma budget_ok_none: "budget_ok b gs \<Longrightarrow> budget_ok b []"
  by (simp add: budget_ok_def)

lemma budget_kept_trans: "budget_kept b b1 \<Longrightarrow> budget_kept b1 b2 \<Longrightarrow> budget_kept b b2"
  by (simp add: budget_kept_def)

lemma budget_step_kept:
  assumes "budget_step E (d, b, gs) (d', b', gs')" and "budget_ok b gs"
  shows "budget_kept b b' \<and> budget_ok b' gs'"
  using budget_step_ok [OF assms(1)] assms(2) by (auto simp: budget_kept_def intro: budget_ok_none)

lemma loop_spec_known: "loop_spec t \<in> set specs"
  by (auto simp: loop_spec_def models_table_def specs_def split: option.splits dest: map_of_SomeD)

lemma after_failure_budget:
  assumes "after_failure O' rv f failures (w, d, b) = ((w', d', b'), res)" and "budget_ok b [rv]"
  shows "budget_kept b b'"
proof -
  obtain w1 d1 s1 where l: "look O' w d = (w1, d1, s1)" by (metis surj_pair)
  obtain d2 b2 r where rf: "record_failure (out_store O') s1 d1 b rv f = (d2, b2, r)" by (metis surj_pair)
  note k2 = budget_step_kept [OF step_failure [OF rf] assms(2)]
  show ?thesis
  proof (cases "b' = b2")
    case True
    with k2 show ?thesis by simp
  next
    case False
    then obtain s5 d5 d6 wait reason r6 where "charge_for_retry (out_store O') s5 d5 b2 rv wait reason = (d6, b', r6)"
      using assms(1) l rf
      by (auto simp: after_failure_def Let_def provider_failed_def split: prod.splits sum.splits if_splits)
    from budget_step_kept [OF step_retry [OF this, of "[rv]"]] k2 show ?thesis by (auto intro: budget_kept_trans)
  qed
qed

lemma after_turn_budget:
  assumes "after_turn O' spec rv turn cap enlarged (w, d, b) = ((w', d', b'), res)" and "budget_ok b [rv]"
    and "usage_counts (turn_usage turn)" and "\<And>e. res \<noteq> Done (Inl e)"
  shows "budget_kept b b'"
proof -
  obtain w1 d1 s1 where l: "look O' w d = (w1, d1, s1)" by (metis surj_pair)
  obtain d2 b2 r where st: "settle (out_store O') s1 d1 b rv turn = (d2, b2, r)" by (metis surj_pair)
  have "b' = b2" "returns r"
    using assms(1,4) l st by (auto simp: after_turn_def split: sum.splits)
  with budget_step_kept [OF step_settle [OF st, of "[rv]"] assms(2)] assms(3) show ?thesis by simp
qed

lemma request_once_budget:
  assumes "request_once O' t turns cap mn failures enlarged (w, d, b) = ((w', d', b'), res)" and "counts_tokens O'"
    and "budget_ok b []" and "\<And>e. res \<noteq> Done (Inl e)"
  shows "budget_kept b b'"
proof -
  obtain w1 d1 s1 where l: "look O' w d = (w1, d1, s1)" by (metis surj_pair)
  obtain d2 b2 r where rs: "reserve (out_store O') s1 d1 b (transcript_scope (tr_kind t)) (loop_spec t)
      (next_input_reservation (out_schema O') t) cap mn [(''transcript'', out_name O'), (''turn'', nat_text (turns + 1))] = (d2, b2, r)"
    by (metis surj_pair)
  note k2 = budget_step_kept [OF step_reserve [OF rs loop_spec_known] assms(3)]
  show ?thesis
  proof (cases r)
    case (Inl e)
    with assms(1) l rs k2 show ?thesis by (auto simp: request_once_def)
  next
    case (Inr rv)
    obtain w3 ans where ps: "provider_step O' w1 t (rv_output_tokens rv) (rv_timeout_seconds rv) = (w3, ans)" by (metis surj_pair)
    note once = assms(1) [unfolded request_once_def prod.case Let_def l rs Inr sum.case ps]
    have ok: "budget_ok b2 [rv]" using k2 Inr by simp
    show ?thesis
    proof (cases ans)
      case (Inl f)
      from after_failure_budget [OF once [unfolded Inl sum.case] ok] k2 show ?thesis by (blast intro: budget_kept_trans)
    next
      case at: (Inr turn)
      have "usage_counts (turn_usage turn)" using assms(2) ps at unfolding counts_tokens_def by blast
      from after_turn_budget [OF once [unfolded at sum.case] ok this assms(4)] k2 show ?thesis by (blast intro: budget_kept_trans)
    qed
  qed
qed

lemma request_budget:
  assumes "request O' t turns cap mn failures enlarged s = ((w', d', b'), Inr r)" and "counts_tokens O'" and "budget_ok (snd (snd s)) []"
  shows "budget_kept (snd (snd s)) b'"
  using assms
proof (induction O' t turns cap mn failures enlarged s rule: request.induct)
  case (1 O' t turns cap mn failures enlarged s)
  obtain w d b where s: "s = (w, d, b)" by (cases s)
  obtain w1 d1 b1 att where once: "request_once O' t turns cap mn failures enlarged s = ((w1, d1, b1), att)"
    by (metis surj_pair)
  note unfold = 1(3) [unfolded request.simps [of O' t turns cap mn failures enlarged s] once prod.case]
  have kept: "budget_kept b b1" if "\<And>e. att \<noteq> Done (Inl e)"
    using request_once_budget [OF once [unfolded s] 1(4)] 1(5) s that by simp
  show ?case
  proof (cases att)
    case (Done x)
    with unfold kept show ?thesis by (simp add: s)
  next
    case Retry
    with kept 1(1) [OF once [unfolded Retry, symmetric] refl unfold [unfolded Retry attempted.case] 1(4)] show ?thesis
      by (auto simp: s budget_kept_def)
  next
    case Enlarge
    with kept 1(2) [OF once [unfolded Enlarge, symmetric] refl unfold [unfolded Enlarge attempted.case] 1(4)] show ?thesis
      by (auto simp: s budget_kept_def)
  qed
qed

lemma turn_once_budget:
  assumes "turn_once O' ls s = ((ls', s'), Inr out)" and "counts_tokens O'" and "budget_ok (snd (snd s)) []"
  shows "budget_kept (snd (snd s)) (snd (snd s'))"
  using assms(1)
proof (cases rule: turn_once_cases)
  case unsent
  with assms(3) show ?thesis by (simp add: budget_kept_def)
next
  case (asked t1 r)
  then obtain x where "first_request O' t1 (ls_turns ls) s = (s', Inr x)" by auto
  then show ?thesis using request_budget [OF _ assms(2,3)] by (cases s') (auto simp: first_request_def)
next
  case (answered t1 w d b turn t2 w' a)
  then show ?thesis using request_budget [OF _ assms(2,3)] by (auto simp: first_request_def)
qed

lemma run_turns_budget:
  assumes "run_turns O' ls (w, d, b) = ((ls', w', d', b'), Inr out)" and "counts_tokens O'" and "budget_ok b gs"
  shows "budget_kept b b'"
proof -
  have "budget_kept (snd (snd s)) b'" if "run_turns O' ls s = ((ls', w', d', b'), Inr out)" "budget_ok (snd (snd s)) []" for s
    using that assms(2)
  proof (induction O' ls s rule: run_turns.induct)
    case (1 O' ls s)
    obtain ls1 s1 r where once: "turn_once O' ls s = ((ls1, s1), r)" by (metis surj_pair)
    note unfold = 1(2) [unfolded run_turns.simps [of O' ls s] once prod.case]
    then obtain o1 where r: "r = Inr o1" by (cases r) auto
    note kept = turn_once_budget [OF once [unfolded r] 1(4,3)]
    show ?case
    proof (cases o1)
      case None
      with kept 1(1) [OF once [unfolded r None, symmetric] refl refl refl unfold [unfolded r None sum.case option.case] _ 1(4)]
      show ?thesis by (auto simp: budget_kept_def)
    next
      case (Some x)
      with kept unfold r show ?thesis by simp
    qed
  qed
  from this [of "(w, d, b)"] assms(1,3) budget_ok_none show ?thesis by auto
qed

text \<open>
  C29. A loop that starts from a budget within its caps, as new_budget makes it, and returns an
  outcome leaves the run within its budget: the settled and reserved cost within the cap of the
  run, the calls within their maximum and every scope within its share, whatever other processes
  did to the store meanwhile. The provider reports no negative token counts.
\<close>

theorem loop_within_budget:
  assumes "run_turns O' ls (w, d, b) = ((ls', w', d', b'), Inr out)" and "counts_tokens O'" and "budget_ok b gs"
  shows "model_cost_usd (budget_manifest b') + pending_cost (budget_manifest b') \<le> max_cost_usd b
    \<and> model_calls (budget_manifest b') \<le> max_model_calls b
    \<and> (\<forall>s share. cap_share (scopes s) = Some share \<longrightarrow>
         spent b' s + scope_pending (budget_manifest b') s \<le> share * max_cost_usd b)
    \<and> budget_ok b' []"
  using run_turns_budget [OF assms] by (auto simp: budget_kept_def budget_ok_def within_caps_def)

lemma count_runs_unfinished: "count_runs rs ls = (ls', Some out) \<Longrightarrow> out \<noteq> Finished v"
  by (induction rs arbitrary: ls) (auto split: if_splits)

lemma after_tool_unfinished: "after_tool res ls = (ls', Some out) \<Longrightarrow> out \<noteq> Finished v"
  by (auto simp: after_tool_def split: if_splits dest: count_runs_unfinished)

lemma request_keeps:
  assumes "\<And>cap mn failures enlarged s s' r. request_once O' t turns cap mn failures enlarged s = (s', r) \<Longrightarrow> P s \<Longrightarrow> P s'"
    and "request O' t turns cap mn failures enlarged s = (s', res)" and "P s"
  shows "P s'"
  using assms
proof (induction O' t turns cap mn failures enlarged s rule: request.induct)
  case (1 O' t turns cap mn failures enlarged s)
  obtain s1 att where once: "request_once O' t turns cap mn failures enlarged s = (s1, att)" by (metis surj_pair)
  note unfold = 1(4) [unfolded request.simps [of O' t turns cap mn failures enlarged s] once prod.case]
  have s1: "P s1" by (rule 1(3) [OF once 1(5)])
  show ?case
  proof (cases att)
    case (Done r)
    with unfold s1 show ?thesis by simp
  next
    case Retry
    show ?thesis by (rule 1(1) [OF once [unfolded Retry, symmetric] refl 1(3) unfold [unfolded Retry attempted.case] s1])
  next
    case Enlarge
    show ?thesis by (rule 1(2) [OF once [unfolded Enlarge, symmetric] refl 1(3) unfold [unfolded Enlarge attempted.case] s1])
  qed
qed

section \<open>What the submit handler can rely on\<close>

text \<open>The turns a run of the loop takes before its last one.\<close>

inductive turns_on :: "('w, 'sub) outside \<Rightarrow> loop_state \<times> 'w \<times> db \<times> run_budget \<Rightarrow> loop_state \<times> 'w \<times> db \<times> run_budget \<Rightarrow> bool"
  for O' where
  turns_start: "turns_on O' p p"
| turns_more: "turns_on O' p (ls, s) \<Longrightarrow> turn_once O' ls s = (q, Inr None) \<Longrightarrow> turns_on O' p q"

lemma run_turns_keeps:
  assumes "\<And>ls s ls1 s1. turn_once O' ls s = ((ls1, s1), Inr None) \<Longrightarrow> P (ls, s) \<Longrightarrow> P (ls1, s1)"
    and "run_turns O' ls s = ((ls', s'), res)" and "P (ls, s)"
  obtains ls0 s0 r where "P (ls0, s0)" and "turn_once O' ls0 s0 = ((ls', s'), r)" and "r \<noteq> Inr None"
    and "res = (case r of Inl e \<Rightarrow> Inl e | Inr x \<Rightarrow> Inr (the x))"
  using assms
proof (induction O' ls s arbitrary: thesis rule: run_turns.induct)
  case (1 O' ls s)
  obtain ls1 s1 r where once: "turn_once O' ls s = ((ls1, s1), r)" by (metis surj_pair)
  note unfold = 1(4) [unfolded run_turns.simps [of O' ls s] once prod.case]
  show ?case
  proof (cases "r = Inr None")
    case True
    show ?thesis
      by (rule 1(1) [OF once [unfolded True, symmetric] refl refl refl _ 1(3) unfold [unfolded True sum.case option.case]
          1(3) [OF once [unfolded True] 1(5)]]) (rule 1(2))
  next
    case False
    then have "(ls1, s1) = (ls', s')" "res = (case r of Inl e \<Rightarrow> Inl e | Inr x \<Rightarrow> Inr (the x))"
      using unfold by (auto split: sum.splits option.splits)
    with once False 1(2) [OF 1(5)] show ?thesis by simp
  qed
qed

lemma request_once_unfinished: "request_once O' t turns cap mn failures enlarged s = (s', Done (Inr (Ended out))) \<Longrightarrow> out \<noteq> Finished v"
  by (auto simp: request_once_def after_failure_def after_turn_def provider_failed_def Let_def
      split: prod.splits sum.splits error.splits if_splits)

lemma request_unfinished: "request O' t turns cap mn failures enlarged s = (s', Inr (Ended out)) \<Longrightarrow> out \<noteq> Finished v"
proof (induction O' t turns cap mn failures enlarged s rule: request.induct)
  case (1 O' t turns cap mn failures enlarged s)
  obtain s1 att where once: "request_once O' t turns cap mn failures enlarged s = (s1, att)" by (metis surj_pair)
  note unfold = 1(3) [unfolded request.simps [of O' t turns cap mn failures enlarged s] once prod.case]
  show ?case
  proof (cases att)
    case (Done r)
    with unfold request_once_unfinished [of O' t turns cap mn failures enlarged s s1 out v] once show ?thesis by simp
  next
    case Retry
    show ?thesis by (rule 1(1) [OF once [unfolded Retry, symmetric] refl unfold [unfolded Retry attempted.case]])
  next
    case Enlarge
    show ?thesis by (rule 1(2) [OF once [unfolded Enlarge, symmetric] refl unfold [unfolded Enlarge attempted.case]])
  qed
qed

lemma first_request_unfinished: "first_request O' t turns s \<noteq> (s', Inr (Ended (Finished v)))"
  using request_unfinished by (fastforce simp: first_request_def)

text \<open>
  The interface between a loop and its submit handler: \<open>opened\<close> holds while the loop runs and \<open>closed\<close>
  once a reply has ended it.  Nothing but the handler ends the one, and only a reply that goes on
  keeps it.
\<close>

locale submit_contract =
  fixes out :: "('w, 'sub) outside" and handler :: "'w \<Rightarrow> 'sub \<Rightarrow> bool \<Rightarrow> 'w \<times> submit_reply result"
    and opened :: "'w \<Rightarrow> bool" and closed :: "'w \<Rightarrow> bool"
  assumes handles: "on_submit out = Some handler"
    and look_opened: "opened w \<Longrightarrow> opened (fst (look out w d))"
    and step_opened: "opened w \<Longrightarrow> opened (fst (provider_step out w t n x))"
    and jitter_opened: "opened w \<Longrightarrow> opened (fst (draw_jitter out w))"
    and tool_opened: "run_tool out = Some f \<Longrightarrow> opened w \<Longrightarrow> opened (fst (f w c))"
    and opened_closed: "opened w \<Longrightarrow> closed w"
    and reply_closed: "opened w \<Longrightarrow> handler w v l = (w', r) \<Longrightarrow> closed w'"
    and reply_opened: "opened w \<Longrightarrow> handler w v l = (w', Inr a) \<Longrightarrow> reply_action a = Continue \<Longrightarrow> opened w'"
begin

text \<open>A world the handler accepted a submission in, as its last act, on a last turn or another.\<close>

definition accepted_in :: "bool \<Rightarrow> 'w \<Rightarrow> 'sub \<Rightarrow> bool" where
  "accepted_in l w' v \<longleftrightarrow> (\<exists>w a. opened w \<and> handler w v l = (w', Inr a) \<and> reply_action a = Accept)"

text \<open>What holds once a loop has an outcome, or still has none.\<close>

definition ended_in :: "bool \<Rightarrow> 'w \<Rightarrow> 'sub loop_outcome option \<Rightarrow> bool" where
  "ended_in l w res \<longleftrightarrow> closed w \<and> (res = None \<longrightarrow> opened w) \<and> (\<forall>v. res = Some (Finished v) \<longrightarrow> accepted_in l w v)"

lemma look_steps: "look out w d = (w', d', s') \<Longrightarrow> opened w \<longrightarrow> opened w'"
  using look_opened [of w d] by simp

lemma provider_steps: "provider_step out w t n x = (w', r) \<Longrightarrow> opened w \<longrightarrow> opened w'"
  using step_opened [of w t n x] by simp

lemma jitter_steps: "draw_jitter out w = (w', j) \<Longrightarrow> opened w \<longrightarrow> opened w'"
  using jitter_opened [of w] by simp

lemma tool_steps: "f w c = (w', r) \<Longrightarrow> run_tool out = Some f \<Longrightarrow> opened w \<longrightarrow> opened w'"
  using tool_opened [of f w c] by simp

lemma after_failure_opened: "after_failure out rv f n (w, d, b) = ((w', d', b'), r) \<Longrightarrow> opened w \<longrightarrow> opened w'"
  by (auto simp: after_failure_def Let_def provider_failed_def split: prod.splits sum.splits if_splits
      dest!: look_steps jitter_steps)

lemma after_turn_opened: "after_turn out spec rv turn cap enlarged (w, d, b) = ((w', d', b'), r) \<Longrightarrow> opened w \<longrightarrow> opened w'"
  by (auto simp: after_turn_def Let_def split: prod.splits dest!: look_steps)

lemma request_once_opened:
  "request_once out t turns cap mn failures enlarged (w, d, b) = ((w', d', b'), r) \<Longrightarrow> opened w \<longrightarrow> opened w'"
  by (auto simp: request_once_def Let_def split: prod.splits sum.splits
      dest!: look_steps provider_steps after_failure_opened after_turn_opened)

lemma request_opened: "request out t turns cap mn failures enlarged s = (s', res) \<Longrightarrow> opened (fst s) \<longrightarrow> opened (fst s')"
proof
  assume r: "request out t turns cap mn failures enlarged s = (s', res)" and o: "opened (fst s)"
  show "opened (fst s')"
    by (rule request_keeps [where P = "\<lambda>s. opened (fst s)", OF _ r o])
       (metis request_once_opened fst_conv surj_pair)
qed

lemma first_request_opened: "first_request out t turns s = (s', res) \<Longrightarrow> opened (fst s) \<longrightarrow> opened (fst s')"
  unfolding first_request_def by (rule request_opened)

lemma submit_call_ended:
  assumes "submit_call out k last_turn c w = (w', res)" and "opened w"
  shows "closed w' \<and> (\<forall>r o1 i. res = Inr (r, o1, i) \<longrightarrow> ended_in last_turn w' o1)"
proof (cases "read_submission out c")
  case (Inl problem)
  with assms opened_closed show ?thesis by (auto simp: submit_call_def ended_in_def Let_def)
next
  case (Inr v)
  obtain r where h: "handler w v last_turn = (w', r)"
    and res: "res = bind_r r (\<lambda>a. Inr (\<lparr>result_call_id = call_id c, result_output = Output_text (reply_text a), result_is_error = False\<rparr>,
      (case reply_action a of Accept \<Rightarrow> Some (Finished v)
        | Stop \<Rightarrow> Some (Did_not_finish Reason_submit_limit ''No further submit is allowed'') | Continue \<Rightarrow> None), False))"
    using assms(1) by (auto simp: submit_call_def Inr handles Let_def split: prod.splits)
  have "closed w'" using reply_closed [OF assms(2) h] .
  moreover have "ended_in last_turn w' o1" if x: "res = Inr (x, o1, i)" for x o1 i
  proof -
    from x res obtain a where a: "r = Inr a" and o1: "o1 = (case reply_action a of Accept \<Rightarrow> Some (Finished v)
        | Stop \<Rightarrow> Some (Did_not_finish Reason_submit_limit ''No further submit is allowed'') | Continue \<Rightarrow> None)"
      by (auto simp: bind_r_Inr_iff)
    note h = h [unfolded a]
    show ?thesis
      using \<open>closed w'\<close> reply_opened [OF assms(2) h] assms(2) h o1
      by (cases "reply_action a") (auto simp: ended_in_def accepted_in_def)
  qed
  ultimately show ?thesis by blast
qed

text \<open>Once a call of the turn has ended the task, the rest of its calls only get refusals.\<close>

lemma answer_call_ended:
  assumes "answer_call out k last_turn c (w, ls) a = ((w', ls'), res)" and "ended_in last_turn w (an_outcome a)"
  shows "closed w' \<and> (\<forall>a'. res = Inr a' \<longrightarrow> ended_in last_turn w' (an_outcome a'))"
proof (cases "an_outcome a")
  case (Some x)
  with assms show ?thesis by (auto simp: answer_call_def ended_in_def bind_r_Inr_iff add_result_def)
next
  case None
  then have w: "opened w" "ended_in last_turn w None" using assms(2) by (simp_all add: ended_in_def)
  have stay: ?thesis if "w' = w" "\<And>a'. res = Inr a' \<Longrightarrow> an_outcome a' = None"
    using that w by (auto simp: ended_in_def)
  show ?thesis
  proof (cases "holds_token (out_token out) (JObj (call_arguments c)) \<or> (call_name c = submit_name k \<and> an_submitted a)")
    case True
    with assms(1) None show ?thesis by (intro stay) (auto simp: answer_call_def bind_r_Inr_iff add_result_def split: if_splits)
  next
    case ran: False
    show ?thesis
    proof (cases "call_name c = submit_name k")
      case True
      with ran None assms(1) obtain r where sc: "submit_call out k last_turn c w = (w', r)"
        and "res = bind_r r (\<lambda>(r, out, invalid). Inr ((add_result r invalid a)\<lparr>an_outcome := out, an_submitted := True\<rparr>))"
        by (auto simp: answer_call_def split: prod.splits)
      with submit_call_ended [OF sc w(1)] show ?thesis by (auto simp: bind_r_Inr_iff)
    next
      case False
      have tool: ?thesis if "opened w'" "\<And>a' v. res = Inr a' \<Longrightarrow> an_outcome a' \<noteq> Some (Finished v)"
        using that opened_closed by (auto simp: ended_in_def)
      from False ran None assms(1) w(1) show ?thesis
        by (intro tool) (auto simp: answer_call_def Let_def split: option.splits sum.splits prod.splits
            dest!: tool_steps after_tool_unfinished)
    qed
  qed
qed

lemma answer_calls_ended:
  "answer_calls out k last_turn cs (w, ls) a = ((w', ls'), res) \<Longrightarrow> ended_in last_turn w (an_outcome a) \<Longrightarrow>
     closed w' \<and> (\<forall>a'. res = Inr a' \<longrightarrow> ended_in last_turn w' (an_outcome a'))"
proof (induction cs arbitrary: w ls a)
  case Nil
  then show ?case by (auto simp: ended_in_def)
next
  case (Cons c cs)
  obtain w1 ls1 r where one: "answer_call out k last_turn c (w, ls) a = ((w1, ls1), r)" by (metis surj_pair)
  note e = answer_call_ended [OF one Cons.prems(2)]
  show ?case
  proof (cases r)
    case (Inl e')
    with one Cons.prems(1) e show ?thesis by auto
  next
    case (Inr a1)
    with one Cons.prems(1) e show ?thesis by (intro Cons.IH [of w1 ls1 a1]) auto
  qed
qed

lemma finish_turn_outcome:
  assumes "finish_turn O' last_turn b ls a = (ls', Inr res)"
  shows "res = an_outcome a \<or> (an_outcome a = None \<and> (\<exists>d. res = Some (Did_not_finish Reason_malformed d)))"
  using assms by (auto simp: finish_turn_def Let_def bind_r_Inr_iff split: if_splits sum.splits prod.splits)

lemma answer_ended:
  assumes "answer out turn last_turn b (w, ls) = ((w', ls'), res)" and w: "opened w"
  shows "closed w' \<and> (\<forall>x. res = Inr x \<longrightarrow> ended_in last_turn w' x)"
proof (cases "turn_tool_calls turn = []")
  case True
  with assms opened_closed show ?thesis
    by (auto simp: answer_def ended_in_def Let_def split: if_splits sum.splits)
next
  case False
  define a0 :: "'sub answering" where
    "a0 = \<lparr>an_results = [], an_messages = [], an_outcome = None, an_invalid = 0, an_submitted = False\<rparr>"
  obtain w1 ls1 r where calls: "answer_calls out (tr_kind (ls_transcript ls)) last_turn (turn_tool_calls turn) (w, ls) a0 = ((w1, ls1), r)"
    by (metis surj_pair)
  have "ended_in last_turn w (an_outcome a0)" using w opened_closed by (simp add: ended_in_def a0_def)
  note e = answer_calls_ended [OF calls this]
  show ?thesis
  proof (cases r)
    case (Inl e')
    with assms(1) False calls e show ?thesis by (auto simp: answer_def a0_def [symmetric])
  next
    case (Inr a)
    then obtain "w' = w1" and fin: "finish_turn out last_turn b ls1 a = (ls', res)"
      using assms(1) False calls by (auto simp: answer_def a0_def [symmetric] split: prod.splits)
    with e Inr finish_turn_outcome [of out last_turn b ls1 a ls'] show ?thesis by (auto simp: ended_in_def)
  qed
qed

lemma turn_once_ended:
  assumes "turn_once out ls s = ((ls', s'), res)" and w: "opened (fst s)"
  shows "closed (fst s') \<and> (\<forall>x. res = Inr x \<longrightarrow> ended_in (at_limit out ls) (fst s') x)"
  using assms(1)
proof (cases rule: turn_once_cases)
  case unsent
  with w opened_closed show ?thesis by (auto simp: ended_in_def)
next
  case (asked t1 r)
  have "opened (fst s')" using first_request_opened [OF asked(3)] w by simp
  moreover have "r \<noteq> Inr (Ended (Finished v))" for v
    using asked(3) first_request_unfinished by metis
  then have "res \<noteq> Inr (Some (Finished v))" for v
    using asked(4) by auto
  ultimately show ?thesis using opened_closed by (auto simp: ended_in_def)
next
  case (answered t1 w1 d b turn t2 w' a)
  have "opened w1" using first_request_opened [OF answered(3)] w by simp
  from answer_ended [OF answered(5) this] answered(6-8) show ?thesis by (auto simp: ended_in_def)
qed

lemma run_turns_ended:
  assumes "run_turns out ls s = ((ls', s'), res)" and "opened (fst s)"
  shows "closed (fst s')" and "res = Inr (Finished v) \<Longrightarrow> \<exists>ls0 s0. turns_on out (ls, s) (ls0, s0)
      \<and> turn_once out ls0 s0 = ((ls', s'), Inr (Some (Finished v))) \<and> accepted_in (at_limit out ls0) (fst s') v"
proof -
  define P where "P = (\<lambda>q. turns_on out (ls, s) q \<and> opened (fst (snd q)))"
  have start: "P (ls, s)" using assms(2) by (simp add: P_def turns_start)
  have more: "P (ls2, s2)" if "turn_once out ls1 s1 = ((ls2, s2), Inr None)" and "P (ls1, s1)" for ls1 s1 ls2 s2
    using that turn_once_ended [OF that(1)] turns_more [of out "(ls, s)" ls1 s1] by (auto simp: P_def ended_in_def)
  from more assms(1) start obtain ls0 s0 r where p: "P (ls0, s0)" and once: "turn_once out ls0 s0 = ((ls', s'), r)"
    and r: "r \<noteq> Inr None" "res = (case r of Inl e \<Rightarrow> Inl e | Inr x \<Rightarrow> Inr (the x))"
    by (rule run_turns_keeps)
  note e = turn_once_ended [OF once]
  show "closed (fst s')" using e p by (simp add: P_def)
  assume "res = Inr (Finished v)"
  then have "r = Inr (Some (Finished v))" using r by (auto split: sum.splits)
  with e p once have "turns_on out (ls, s) (ls0, s0) \<and> turn_once out ls0 s0 = ((ls', s'), Inr (Some (Finished v)))
      \<and> accepted_in (at_limit out ls0) (fst s') v"
    by (simp add: P_def ended_in_def)
  then show "\<exists>ls0 s0. turns_on out (ls, s) (ls0, s0)
      \<and> turn_once out ls0 s0 = ((ls', s'), Inr (Some (Finished v))) \<and> accepted_in (at_limit out ls0) (fst s') v"
    by blast
qed

end

section \<open>Repeated failures\<close>

definition failed_run :: "string \<Rightarrow> command_run" where
  "failed_run c = \<lparr>run_command = c, run_passed = False\<rparr>"

lemma failed_run_eq: "r = failed_run c \<longleftrightarrow> \<not> run_passed r \<and> run_command r = c"
  by (cases r) (auto simp: failed_run_def)

definition repeats :: "command_run list \<Rightarrow> bool" where
  "repeats rs \<longleftrightarrow> (\<exists>c. sublist (replicate max_repeated_failures (failed_run c)) rs)"

lemma repeats_Cons: "repeats (x # xs) \<longleftrightarrow> (\<exists>c ys. x = failed_run c \<and> xs = failed_run c # failed_run c # ys) \<or> repeats xs"
  by (auto simp: repeats_def sublist_Cons_right max_repeated_failures_def numeral_3_eq_3 prefix_def)

lemma repeats_simps [simp]:
  "\<not> repeats []"
  "repeats (failed_run c # failed_run c # failed_run c # rs)"
  "run_passed r \<Longrightarrow> repeats (r # rs) \<longleftrightarrow> repeats rs"
  "run_passed r \<Longrightarrow> repeats (failed_run c # r # rs) \<longleftrightarrow> repeats rs"
  "run_passed r \<Longrightarrow> repeats (failed_run c # failed_run c # r # rs) \<longleftrightarrow> repeats rs"
  "c \<noteq> c' \<Longrightarrow> repeats (failed_run c # failed_run c' # rs) \<longleftrightarrow> repeats (failed_run c' # rs)"
  "c \<noteq> c' \<Longrightarrow> repeats (failed_run c # failed_run c # failed_run c' # rs) \<longleftrightarrow> repeats (failed_run c' # rs)"
  by (auto simp: repeats_Cons) (auto simp: repeats_def max_repeated_failures_def failed_run_def)

text \<open>A loop state stands for the end of the runs so far: its failures in a row.\<close>

definition streak :: "loop_state \<Rightarrow> command_run list" where
  "streak ls = (case ls_failing_command ls of None \<Rightarrow> [] | Some c \<Rightarrow> replicate (ls_failures_in_a_row ls) (failed_run c))"

definition streak_ok :: "loop_state \<Rightarrow> bool" where
  "streak_ok ls \<longleftrightarrow> ls_failures_in_a_row ls < max_repeated_failures \<and> (ls_failing_command ls = None \<longleftrightarrow> ls_failures_in_a_row ls = 0)"

lemma streak_cases:
  assumes "streak_ok ls"
  obtains "ls_failing_command ls = None" and "ls_failures_in_a_row ls = 0"
  | c where "ls_failing_command ls = Some c" and "ls_failures_in_a_row ls = 1"
  | c where "ls_failing_command ls = Some c" and "ls_failures_in_a_row ls = 2"
proof (cases "ls_failing_command ls")
  case (Some c)
  with assms have "ls_failures_in_a_row ls = 1 \<or> ls_failures_in_a_row ls = 2"
    by (auto simp: streak_ok_def max_repeated_failures_def)
  with Some that(2,3) show thesis by blast
qed (use assms that(1) in \<open>simp add: streak_ok_def\<close>)

lemma count_failed:
  "count_run (failed_run c) ls = (if ls_failing_command ls = Some c then ls\<lparr>ls_failures_in_a_row := ls_failures_in_a_row ls + 1\<rparr>
      else ls\<lparr>ls_failing_command := Some c, ls_failures_in_a_row := 1\<rparr>)"
  by (simp add: count_run_def failed_run_def)

lemma count_passed: "run_passed r \<Longrightarrow> count_run r ls = end_failure_streak ls"
  by (simp add: count_run_def)

text \<open>One more run ends the loop where it completes a repetition, and otherwise keeps the streak.\<close>

definition counted :: "command_run \<Rightarrow> command_run list \<Rightarrow> loop_state \<Rightarrow> bool" where
  "counted r rs ls \<longleftrightarrow> (max_repeated_failures \<le> ls_failures_in_a_row (count_run r ls) \<and> repeats (streak ls @ r # rs))
      \<or> (streak_ok (count_run r ls) \<and> (repeats (streak (count_run r ls) @ rs) \<longleftrightarrow> repeats (streak ls @ r # rs)))"

lemmas counted_defs = counted_def streak_def streak_ok_def max_repeated_failures_def numeral_2_eq_2

lemma counted_run:
  assumes "streak_ok ls"
  shows "counted r rs ls"
proof (cases "run_passed r")
  case True
  with assms show ?thesis
    by (cases rule: streak_cases) (simp_all add: count_passed end_failure_streak_def counted_defs)
next
  case False
  then obtain c where "r = failed_run c" using failed_run_eq by blast
  with assms show ?thesis
  proof (cases rule: streak_cases)
    case (2 c')
    with \<open>r = failed_run c\<close> show ?thesis by (cases "c' = c") (simp_all add: count_failed counted_defs)
  next
    case (3 c')
    with \<open>r = failed_run c\<close> show ?thesis by (cases "c' = c") (simp_all add: count_failed counted_defs)
  qed (simp add: count_failed counted_defs)
qed

lemma count_runs_repeats:
  "streak_ok ls \<Longrightarrow> snd (count_runs rs ls) \<noteq> None \<longleftrightarrow> repeats (streak ls @ rs)"
proof (induction rs arbitrary: ls)
  case Nil
  then show ?case
    by (cases rule: streak_cases) (simp_all add: streak_def repeats_Cons numeral_2_eq_2)
next
  case (Cons r rs)
  show ?case
    using counted_run [OF Cons.prems, of r rs] Cons.IH [of "count_run r ls"] by (auto simp: counted_def streak_ok_def)
qed

lemma count_runs_reason:
  "count_runs rs ls = (ls', Some out) \<Longrightarrow> \<exists>d. out = Did_not_finish Reason_repeated_failure d"
  by (induction rs arbitrary: ls) (auto split: if_splits)

lemma count_runs_ended:
  fixes ls :: loop_state
  shows "(\<exists>ls' d. count_runs rs ls = (ls', Some (Did_not_finish Reason_repeated_failure d) :: 'sub loop_outcome option))
    \<longleftrightarrow> snd (count_runs rs ls :: loop_state \<times> 'sub loop_outcome option) \<noteq> None"
  by (cases "count_runs rs ls :: loop_state \<times> 'sub loop_outcome option") (auto dest: count_runs_reason)

text \<open>
  From an empty streak, the runs of a tool call end the loop exactly when they contain the
  same failing command three times in a row, without a success or another failing command in
  between.
\<close>

theorem repeated_failure_ends:
  "(\<exists>ls' d. count_runs rs (end_failure_streak ls) = (ls', Some (Did_not_finish Reason_repeated_failure d) :: 'sub loop_outcome option))
    \<longleftrightarrow> (\<exists>c before after. rs = before @ replicate 3 (failed_run c) @ after)"
proof -
  have "streak_ok (end_failure_streak ls)" "streak (end_failure_streak ls) = []"
    by (simp_all add: end_failure_streak_def streak_ok_def streak_def max_repeated_failures_def)
  then show ?thesis
    unfolding count_runs_ended count_runs_repeats [OF \<open>streak_ok (end_failure_streak ls)\<close>] by (auto simp: repeats_def sublist_def max_repeated_failures_def)
qed

end
