(* ===== verification/Untrusted.thy ===== *)
theory Untrusted
  imports Transcript
begin

text \<open>
  \<open>untrusted.py\<close>: text from outside the controller, wrapped as a block of JSON so that a model reads it
  as data.  The scrubbing of the host's secrets is a parameter.
\<close>

section \<open>Indented JSON\<close>

text \<open>\<open>json.dumps(value, ensure_ascii=False, indent=2)\<close>, at a depth of the nesting.\<close>

definition line_start :: "nat \<Rightarrow> string" where
  "line_start depth = newline # replicate (2 * depth) CHR '' ''"

function indented :: "nat \<Rightarrow> json \<Rightarrow> string" where
  "indented depth JNull = ''null''"
| "indented depth (JBool b) = (if b then ''true'' else ''false'')"
| "indented depth (JInt i) = int_text i"
| "indented depth (JStr s) = plain_string s"
| "indented depth (JList xs) = (if xs = [] then ''[]''
     else ''['' @ line_start (depth + 1) @ join ('','' @ line_start (depth + 1)) (map (indented (depth + 1)) xs)
       @ line_start depth @ '']'')"
| "indented depth (JObj kvs) = (if kvs = [] then ''{}''
     else ''{'' @ line_start (depth + 1)
       @ join ('','' @ line_start (depth + 1)) (map (\<lambda>kv. plain_string (fst kv) @ '': '' @ indented (depth + 1) (snd kv)) kvs)
       @ line_start depth @ ''}'')"
  by pat_completeness auto
termination
proof (relation "measure (\<lambda>(_, v). size v)", goal_cases)
  case 1
  show ?case by simp
next
  case (2 depth xs x)
  then have "x \<in> set xs" by simp
  then show ?case by (induction xs) auto
next
  case (3 depth kvs kv)
  then have "kv \<in> set kvs" by simp
  then show ?case by (induction kvs) (auto simp: size_prod_simp)
qed

section \<open>The block\<close>

text \<open>The three replacements of \<open>untrusted_block\<close> in their order, on one character each.\<close>

definition escape_text :: "char \<Rightarrow> string" where
  "escape_text c = CHR 0x5C # ''u00'' @ [hex_char (of_char c div 16), hex_char (of_char c mod 16)]"

definition replace_char :: "char \<Rightarrow> string \<Rightarrow> string \<Rightarrow> string" where
  "replace_char c new s = concat (map (\<lambda>x. if x = c then new else [x]) s)"

definition escape_markup :: "string \<Rightarrow> string" where
  "escape_markup s =
     replace_char (CHR ''>'') (escape_text (CHR ''>''))
       (replace_char (CHR ''<'') (escape_text (CHR ''<''))
         (replace_char (CHR ''&'') (escape_text (CHR ''&'')) s))"

function scrubbed_json :: "(string \<Rightarrow> string) \<Rightarrow> json \<Rightarrow> json" where
  "scrubbed_json scrub (JStr s) = JStr (scrub s)"
| "scrubbed_json scrub (JList xs) = JList (map (scrubbed_json scrub) xs)"
| "scrubbed_json scrub (JObj kvs) = JObj (map (\<lambda>kv. (fst kv, scrubbed_json scrub (snd kv))) kvs)"
| "scrubbed_json scrub JNull = JNull"
| "scrubbed_json scrub (JBool b) = JBool b"
| "scrubbed_json scrub (JInt i) = JInt i"
  by pat_completeness auto
termination
proof (relation "measure (\<lambda>(_, v). size v)", goal_cases)
  case 1
  show ?case by simp
next
  case (2 scrub xs x)
  then show ?case by (induction xs) auto
next
  case (3 scrub kvs kv)
  then have "kv \<in> set kvs" by simp
  then show ?case by (induction kvs) (auto simp: size_prod_simp)
qed

definition untrusted_open :: string where
  "untrusted_open = ''<untrusted_data encoding='' @ [CHR 0x22] @ ''json'' @ [CHR 0x22] @ ''>''"

definition untrusted_close :: string where
  "untrusted_close = ''</untrusted_data>''"

definition untrusted_payload :: "(string \<Rightarrow> string) \<Rightarrow> string \<Rightarrow> json \<Rightarrow> string" where
  "untrusted_payload scrub label v = escape_markup (indented 0
     (JObj [(''label'', JStr label), (''trust'', JStr ''untrusted''), (''data'', scrubbed_json scrub v)]))"

definition untrusted_block :: "(string \<Rightarrow> string) \<Rightarrow> string \<Rightarrow> json \<Rightarrow> string" where
  "untrusted_block scrub label v = untrusted_open @ [newline] @ untrusted_payload scrub label v @ [newline] @ untrusted_close"

section \<open>Nothing inside closes the block\<close>

lemma escape_text_eval:
  "escape_text (CHR ''&'') = CHR 0x5C # ''u0026''" "escape_text (CHR ''<'') = CHR 0x5C # ''u003c''"
  "escape_text (CHR ''>'') = CHR 0x5C # ''u003e''"
  by (simp_all add: escape_text_def hex_char_def digit_char_def)

lemma escape_markup_free: "CHR ''<'' \<notin> set (escape_markup s) \<and> CHR ''>'' \<notin> set (escape_markup s) \<and> CHR ''&'' \<notin> set (escape_markup s)"
  by (auto simp: escape_markup_def replace_char_def escape_text_eval split: if_splits)

lemma count_char_append [simp]: "count_char c (s @ t) = count_char c s + count_char c t"
  by (simp add: count_char_def)

lemma count_char_Cons: "count_char c (x # s) = (if x = c then Suc (count_char c s) else count_char c s)"
  by (simp add: count_char_def)

lemma count_char_free: "c \<notin> set s \<Longrightarrow> count_char c s = 0"
  by (auto simp: count_char_def filter_empty_conv)

text \<open>
  C40. An untrusted block begins with its opening tag and ends with its closing tag, and these
  are its only angle brackets: nothing inside can close it or open another.
\<close>

theorem untrusted_text_cannot_close:
  "startswith (untrusted_block scrub label v) untrusted_open \<and> endswith (untrusted_block scrub label v) untrusted_close
    \<and> count_char (CHR ''<'') (untrusted_block scrub label v) = 2 \<and> count_char (CHR ''>'') (untrusted_block scrub label v) = 2"
proof -
  have "count_char (CHR ''<'') (untrusted_payload scrub label v) = 0" "count_char (CHR ''>'') (untrusted_payload scrub label v) = 0"
    using escape_markup_free by (simp_all add: count_char_free untrusted_payload_def)
  moreover have "newline \<noteq> CHR ''<''" "newline \<noteq> CHR ''>''"
    by code_simp+
  moreover have "count_char (CHR ''<'') untrusted_open = 1" "count_char (CHR ''>'') untrusted_open = 1"
    "count_char (CHR ''<'') untrusted_close = 1" "count_char (CHR ''>'') untrusted_close = 1"
    by (simp_all add: count_char_def untrusted_open_def untrusted_close_def)
  ultimately show ?thesis by (simp add: untrusted_block_def endswith_def count_char_Cons)
qed

end
