(* ===== verification/Solver.thy ===== *)
theory Solver
  imports AgentLoop Untrusted
begin

text \<open>
  The \<open>Solver\<close> of \<open>agent_loop.py\<close>: the loop of the agent transcript with the handler that checks a
  submitted fix and asks for a confirming submit, and the \<open>AgentSubmission\<close> of \<open>submissions.py\<close>.  The
  fix checker is any automaton; \<open>fix_checks.py\<close> implements it.
\<close>

section \<open>Submissions\<close>

datatype submission_outcome = Fixed | Skip

record agent_submission =
  sub_outcome :: submission_outcome
  sub_skip_reason :: "string option"
  sub_summary :: string
  sub_pr_title :: "string option"
  sub_pr_body :: "string option"
  sub_commit_message :: "string option"
  sub_test_files :: "string list"
  sub_test_command :: "string option"

definition text_or_empty :: "string option \<Rightarrow> string" where
  "text_or_empty x = strip (case x of None \<Rightarrow> '''' | Some s \<Rightarrow> s)"

text \<open>The bounds of the fields and the validator \<open>outcome_has_its_fields\<close>.\<close>

definition validate_submission :: "agent_submission \<Rightarrow> unit result" where
  "validate_submission s =
     (let missing = map fst (filter (\<lambda>(_, v). text_or_empty v = '''')
        [(''pr_title'', sub_pr_title s), (''pr_body'', sub_pr_body s), (''commit_message'', sub_commit_message s)])
      in if sub_summary s = '''' then Inl (ValueError ''summary'')
      else if (case sub_commit_message s of None \<Rightarrow> False | Some m \<Rightarrow> 200 < length m) then Inl (ValueError ''commit_message'')
      else if sub_outcome s = Skip \<and> text_or_empty (sub_skip_reason s) = '''' then
        Inl (ValueError ''outcome skip needs a skip_reason'')
      else if sub_outcome s = Fixed \<and> missing \<noteq> [] then Inl (ValueError (''outcome fixed needs '' @ join '', '' missing))
      else if (case sub_commit_message s of None \<Rightarrow> False | Some m \<Rightarrow> newline \<in> set (strip m)) then
        Inl (ValueError ''commit_message must be a single line'')
      else Inr ())"

text \<open>A \<open>ReviewBlocker\<close>, as \<open>model_dump(mode="json")\<close> gives it.\<close>

record review_blocker =
  blocker_category :: string
  blocker_path :: "string option"
  blocker_line :: "int option"
  blocker_evidence :: string
  blocker_check_command :: "string option"
  blocker_fix_hint :: string

definition json_option :: "('a \<Rightarrow> json) \<Rightarrow> 'a option \<Rightarrow> json" where
  "json_option f x = (case x of None \<Rightarrow> JNull | Some y \<Rightarrow> f y)"

definition blocker_json :: "review_blocker \<Rightarrow> json" where
  "blocker_json b = JObj [(''category'', JStr (blocker_category b)), (''path'', json_option JStr (blocker_path b)),
     (''line'', json_option JInt (blocker_line b)), (''evidence'', JStr (blocker_evidence b)),
     (''check_command'', json_option JStr (blocker_check_command b)), (''fix_hint'', JStr (blocker_fix_hint b))]"

definition blocker_message :: "(string \<Rightarrow> string) \<Rightarrow> review_blocker list \<Rightarrow> string" where
  "blocker_message scrub blockers =
     ''A reviewer checked the change you submitted and found problems that block it. Fix ''
     @ ''them, run the tests again, and call submit again; the checks and the confirming submit ''
     @ ''work as before. The blockers:'' @ [newline]
     @ untrusted_block scrub ''reviewer's blockers'' (JList (map blocker_json blockers))"

section \<open>The submit handler\<close>

record check_report =
  check_passed :: bool
  check_diff_sha256 :: string
  check_report_text :: string

text \<open>\<open>FixChecker\<close>: the digest of the workspace's diff, the checks of it, and those of the text alone.\<close>

record 'v fix_checker =
  chk_diff :: "'v \<Rightarrow> 'v \<times> string result"
  chk_check :: "'v \<Rightarrow> agent_submission \<Rightarrow> 'v \<times> check_report result"
  chk_text :: "'v \<Rightarrow> agent_submission \<Rightarrow> 'v \<times> string option result"

record solver_state =
  sv_submits :: nat
  sv_passed :: "check_report option"
  sv_accepted :: "check_report option"

definition max_fix_submits :: nat where
  "max_fix_submits = 4"

definition reply :: "reply_action \<Rightarrow> string \<Rightarrow> submit_reply" where
  "reply a s = \<lparr>reply_action = a, reply_text = s\<rparr>"

definition two_lines :: string where
  "two_lines = [newline, newline]"

text \<open>A submit of the diff whose checks passed: only its text is checked again.\<close>

definition confirm_fix :: "'v fix_checker \<Rightarrow> check_report \<Rightarrow> agent_submission \<Rightarrow> int \<Rightarrow> 'v \<times> solver_state
    \<Rightarrow> ('v \<times> solver_state) \<times> submit_reply result" where
  "confirm_fix chk passed sub left = (\<lambda>(v, sv).
     let (v', res) = chk_text chk v sub
     in (case res of
           Inl e \<Rightarrow> ((v', sv), Inl e)
         | Inr None \<Rightarrow> ((v', sv\<lparr>sv_accepted := Some passed\<rparr>), Inr (reply Accept ''Fix confirmed.''))
         | Inr (Some problem) \<Rightarrow>
           let text = ''The diff is unchanged, but the pull request text cannot be published: '' @ problem @ ''.''
           in ((v', sv), Inr (if left = 0 then reply Stop (text @ '' No submits are left, so the attempt ends here.'')
                else reply Continue (text @ '' Correct it and call submit again. Submits left: '' @ int_text left @ ''.'')))))"

definition check_fix :: "'v fix_checker \<Rightarrow> agent_submission \<Rightarrow> bool \<Rightarrow> int \<Rightarrow> 'v \<times> solver_state
    \<Rightarrow> ('v \<times> solver_state) \<times> submit_reply result" where
  "check_fix chk sub last_turn left = (\<lambda>(v, sv).
     if left = 0 then
       ((v, sv), Inr (reply Stop (''This was submit '' @ nat_text max_fix_submits @ '' of '' @ nat_text max_fix_submits
          @ '', and it did not confirm a diff that passed the checks. The attempt ends here.'')))
     else
       let (v', res) = chk_check chk v sub
       in (case res of
             Inl e \<Rightarrow> ((v', sv), Inl e)
           | Inr report \<Rightarrow>
             let sv' = sv\<lparr>sv_passed := (if check_passed report then Some report else None)\<rparr>;
                 text = check_report_text report
             in if check_passed report \<and> last_turn then
                  ((v', sv'\<lparr>sv_accepted := Some report\<rparr>), Inr (reply Accept text))
                else ((v', sv'), Inr (
                  if check_passed report then
                    reply Continue (text @ two_lines @ ''Every check passed. Read the diff above as a maintainer ''
                      @ ''would. If it is final, call submit again without changing anything to confirm ''
                      @ ''it; otherwise fix it and submit again. Submits left: '' @ int_text left @ ''.'')
                  else if left < 2 then
                    reply Stop (text @ two_lines @ ''No submits are left for a fix and its confirmation, so the ''
                      @ ''attempt ends here.'')
                  else reply Continue (text @ two_lines @ ''Fix the problems above and call submit again. Submits left: ''
                      @ int_text left @ ''.''))))) "

definition solver_submit :: "'v fix_checker \<Rightarrow> 'v \<times> solver_state \<Rightarrow> agent_submission \<Rightarrow> bool
    \<Rightarrow> ('v \<times> solver_state) \<times> submit_reply result" where
  "solver_submit chk = (\<lambda>(v, sv) sub last_turn.
     if sub_outcome sub = Skip then ((v, sv), Inr (reply Accept ''Skip recorded.''))
     else
       let sv1 = sv\<lparr>sv_submits := sv_submits sv + 1\<rparr>; left = int max_fix_submits - int (sv_submits sv1)
       in (case sv_passed sv1 of
             None \<Rightarrow> check_fix chk sub last_turn left (v, sv1)
           | Some passed \<Rightarrow>
             let (v', res) = chk_diff chk v
             in (case res of
                   Inl e \<Rightarrow> ((v', sv1), Inl e)
                 | Inr digest \<Rightarrow>
                   if digest = check_diff_sha256 passed then confirm_fix chk passed sub left (v', sv1)
                   else check_fix chk sub last_turn left (v', sv1))))"

section \<open>Rounds\<close>

text \<open>The loop's outside with the solver's state in it, and the handler put in.\<close>

definition beside :: "('v \<Rightarrow> 'v \<times> 'r) \<Rightarrow> 'v \<times> 's \<Rightarrow> ('v \<times> 's) \<times> 'r" where
  "beside f = (\<lambda>(v, sv). let (v', r) = f v in ((v', sv), r))"

definition solver_outside :: "'v fix_checker \<Rightarrow> ('v, agent_submission) outside \<Rightarrow> ('v \<times> solver_state, agent_submission) outside" where
  "solver_outside chk O' = \<lparr>look = (\<lambda>w d. beside (\<lambda>v. look O' v d) w),
     provider_step = (\<lambda>w t n x. beside (\<lambda>v. provider_step O' v t n x) w),
     draw_jitter = beside (draw_jitter O'), run_tool = map_option (\<lambda>f w c. beside (\<lambda>v. f v c) w) (run_tool O'),
     read_submission = read_submission O', on_submit = Some (solver_submit chk), out_store = out_store O',
     out_schema = out_schema O', out_scrub = out_scrub O', out_token = out_token O', out_guidance = out_guidance O',
     out_name = out_name O'\<rparr>"

datatype solver_outcome = Submitted_fix agent_submission check_report | Skipped_issue string agent_submission
  | Solver_stopped stop_reason string | Solver_failed failure_source string

definition solver_result :: "solver_state \<Rightarrow> agent_submission loop_outcome \<Rightarrow> solver_outcome result" where
  "solver_result sv out = (case out of
     Did_not_finish reason detail \<Rightarrow> Inr (Solver_stopped reason detail)
   | Loop_failure src message \<Rightarrow> Inr (Solver_failed src message)
   | Finished sub \<Rightarrow>
     if sub_outcome sub = Skip then Inr (Skipped_issue (text_or_empty (sub_skip_reason sub)) sub)
     else (case sv_accepted sv of
        None \<Rightarrow> Inl (StateError ''A fix ended the loop without a passing check'')
      | Some report \<Rightarrow> Inr (Submitted_fix sub report)))"

definition fresh_round :: solver_state where
  "fresh_round = \<lparr>sv_submits = 0, sv_passed = None, sv_accepted = None\<rparr>"

definition solved :: "(loop_state \<times> ('v \<times> solver_state) \<times> db \<times> run_budget) \<times> agent_submission loop_outcome result
    \<Rightarrow> (loop_state \<times> ('v \<times> solver_state) \<times> db \<times> run_budget) \<times> solver_outcome result" where
  "solved = (\<lambda>((ls, (v, sv), d, b), res). ((ls, (v, sv), d, b), bind_r res (solver_result sv)))"

text \<open>\<open>Solver.__init__\<close> with \<open>run\<close>, and \<open>address_blockers\<close>, from the outside's state, the database and the budget.\<close>

definition solver_run :: "'v fix_checker \<Rightarrow> ('v, agent_submission) outside \<Rightarrow> loop_state \<Rightarrow> 'v \<times> db \<times> run_budget
    \<Rightarrow> (loop_state \<times> ('v \<times> solver_state) \<times> db \<times> run_budget) \<times> solver_outcome result" where
  "solver_run chk O' ls = (\<lambda>(v, d, b). solved (run_loop (solver_outside chk O') ls ((v, fresh_round), d, b)))"

definition address_blockers :: "'v fix_checker \<Rightarrow> ('v, agent_submission) outside \<Rightarrow> review_blocker list \<Rightarrow> loop_state
    \<Rightarrow> ('v \<times> solver_state) \<times> db \<times> run_budget
    \<Rightarrow> (loop_state \<times> ('v \<times> solver_state) \<times> db \<times> run_budget) \<times> solver_outcome result" where
  "address_blockers chk O' blockers ls = (\<lambda>((v, sv), d, b).
     if blockers = [] then ((ls, (v, sv), d, b), Inl (ValueError ''a new round needs at least one blocker''))
     else solved (resume_loop (solver_outside chk O') (blocker_message (out_scrub O') blockers) ls ((v, fresh_round), d, b)))"

section \<open>What a round promises\<close>

text \<open>The report a round keeps is one its checks gave, and it passed.\<close>

definition checks_gave :: "'v fix_checker \<Rightarrow> check_report \<Rightarrow> bool" where
  "checks_gave chk r \<longleftrightarrow> check_passed r \<and> (\<exists>v v' sub. chk_check chk v sub = (v', Inr r))"

lemma checks_gave_intro: "chk_check chk v sub = (v', Inr r) \<Longrightarrow> check_passed r \<Longrightarrow> checks_gave chk r"
  unfolding checks_gave_def by blast

definition reports_passed :: "'v fix_checker \<Rightarrow> solver_state \<Rightarrow> bool" where
  "reports_passed chk sv \<longleftrightarrow> (case sv_passed sv of None \<Rightarrow> True
     | Some r \<Rightarrow> checks_gave chk r)"

definition round_open :: "'v fix_checker \<Rightarrow> 'v \<times> solver_state \<Rightarrow> bool" where
  "round_open chk w \<longleftrightarrow> sv_submits (snd w) < max_fix_submits \<and> reports_passed chk (snd w)"

definition round_closed :: "'v \<times> solver_state \<Rightarrow> bool" where
  "round_closed w \<longleftrightarrow> sv_submits (snd w) \<le> max_fix_submits"

lemma beside_snd [simp]: "snd (fst (beside f w)) = snd w"
  by (simp add: beside_def split: prod.splits)

lemma round_open_beside [simp]: "round_open chk (fst (beside f w)) = round_open chk w"
  by (simp add: round_open_def)

lemmas round_defs = round_open_def round_closed_def reports_passed_def max_fix_submits_def reply_def

lemma confirm_fix_reply:
  assumes "confirm_fix chk passed sub left (v, sv) = ((v', sv'), r)"
  shows "sv_submits sv' = sv_submits sv" and "sv_passed sv' = sv_passed sv"
    and "r = Inr a \<Longrightarrow> reply_action a = Continue \<Longrightarrow> left \<noteq> 0"
    and "r = Inr a \<Longrightarrow> reply_action a = Accept \<Longrightarrow> sv_accepted sv' = Some passed \<and> chk_text chk v sub = (v', Inr None)"
  using assms by (auto simp: confirm_fix_def reply_def Let_def split: prod.splits sum.splits option.splits if_splits)

lemma check_fix_reply:
  assumes "check_fix chk sub last_turn left (v, sv) = ((v', sv'), r)" and "reports_passed chk sv"
  shows "sv_submits sv' = sv_submits sv" and "reports_passed chk sv'"
    and "r = Inr a \<Longrightarrow> reply_action a = Continue \<Longrightarrow> left \<noteq> 0"
    and "r = Inr a \<Longrightarrow> reply_action a = Accept \<Longrightarrow> last_turn \<and> (\<exists>x. sv_accepted sv' = Some x \<and> check_passed x \<and> chk_check chk v sub = (v', Inr x))"
  using assms
  by (auto simp: check_fix_def reply_def reports_passed_def Let_def split: prod.splits sum.splits option.splits if_splits
      elim: checks_gave_intro)

text \<open>How one submit of a fix goes: a confirmation of the passed report, or a check.\<close>

lemma solver_submit_cases:
  assumes "solver_submit chk (v, sv) sub last_turn = ((v', sv'), r)" and "sub_outcome sub \<noteq> Skip"
  obtains (failed) e where "r = Inl e" and "sv' = sv\<lparr>sv_submits := sv_submits sv + 1\<rparr>"
  | (confirm) passed v1 where "sv_passed sv = Some passed" and "chk_diff chk v = (v1, Inr (check_diff_sha256 passed))"
      and "confirm_fix chk passed sub (int max_fix_submits - int (sv_submits sv + 1)) (v1, sv\<lparr>sv_submits := sv_submits sv + 1\<rparr>)
        = ((v', sv'), r)"
  | (check) v1 where "check_fix chk sub last_turn (int max_fix_submits - int (sv_submits sv + 1)) (v1, sv\<lparr>sv_submits := sv_submits sv + 1\<rparr>)
        = ((v', sv'), r)"
  using assms by (auto simp: solver_submit_def Let_def split: option.splits prod.splits sum.splits if_splits)

lemma solver_submit_keeps:
  assumes "round_open chk w" and "solver_submit chk w sub last_turn = (w', r)"
  shows "round_closed w' \<and> (\<forall>a. r = Inr a \<longrightarrow> reply_action a = Continue \<longrightarrow> round_open chk w')"
proof (cases "sub_outcome sub = Skip")
  case True
  with assms show ?thesis by (auto simp: solver_submit_def round_defs split: prod.splits)
next
  case False
  obtain v sv v' sv' where w: "w = (v, sv)" "w' = (v', sv')" by (metis surj_pair)
  from assms(1) w have o: "sv_submits sv < 4" "reports_passed chk sv" "reports_passed chk (sv\<lparr>sv_submits := n\<rparr>)" for n
    by (auto simp: round_defs)
  from assms(2) [unfolded w] False show ?thesis
  proof (cases rule: solver_submit_cases)
    case (failed e)
    with o show ?thesis by (auto simp: w round_defs)
  next
    case (confirm passed v1)
    from o(1) o(2) confirm_fix_reply [OF confirm(3)] show ?thesis by (auto simp: w round_defs)
  next
    case (check v1)
    from o(1) check_fix_reply [OF check o(3)] show ?thesis by (auto simp: w round_defs)
  qed
qed

interpretation sv: submit_contract "solver_outside chk O'" "solver_submit chk" "round_open chk" round_closed for chk O'
proof (unfold_locales, goal_cases)
  case (5 f w c)
  then show ?case by (auto simp: solver_outside_def)
next
  case (7 w v l w' r)
  then show ?case using solver_submit_keeps by blast
next
  case (8 w v l w' a)
  then show ?case using solver_submit_keeps by blast
qed (simp_all add: solver_outside_def, simp add: round_open_def round_closed_def)

lemma fresh_open: "round_open chk (v, fresh_round)"
  by (simp add: round_defs fresh_round_def)

text \<open>
  How a round's loop ended: a finished one ended in a turn it took, in which the handler accepted
  the submission as its last act.
\<close>

definition round_end :: "'v fix_checker \<Rightarrow> ('v, agent_submission) outside \<Rightarrow> loop_state \<Rightarrow> 'v \<Rightarrow> db \<times> run_budget
    \<Rightarrow> loop_state \<Rightarrow> 'v \<times> solver_state \<Rightarrow> db \<times> run_budget \<Rightarrow> agent_submission loop_outcome result \<Rightarrow> bool" where
  "round_end chk O' ls v s ls' w' s' res \<longleftrightarrow> round_closed w' \<and> (\<forall>sub. res = Inr (Finished sub) \<longrightarrow>
     (\<exists>ls0 s0. turns_on (solver_outside chk O') (ls, (v, fresh_round), s) (ls0, s0)
       \<and> turn_once (solver_outside chk O') ls0 s0 = ((ls', w', s'), Inr (Some (Finished sub)))
       \<and> sv.accepted_in chk (at_limit (solver_outside chk O') ls0) w' sub))"

lemma round_end_unfinished: "round_end chk O' ls v s ls' (v', fresh_round) s' (Inl e)"
  by (simp add: round_end_def round_closed_def fresh_round_def)

lemma run_loop_ended:
  assumes "run_loop (solver_outside chk O') ls ((v, fresh_round), s) = ((ls', w', s'), res)"
  shows "round_end chk O' ls v s ls' w' s' res"
proof (cases "awaiting_model (ls_transcript ls)")
  case True
  with assms have r: "run_turns (solver_outside chk O') ls ((v, fresh_round), s) = ((ls', w', s'), res)" by (simp add: run_loop_def)
  from sv.run_turns_ended [OF r] fresh_open [of chk v] show ?thesis by (simp add: round_end_def)
next
  case False
  with assms show ?thesis by (auto simp: run_loop_def round_end_unfinished)
qed

lemma resume_loop_ended:
  assumes "resume_loop (solver_outside chk O') text ls ((v, fresh_round), s) = ((ls', w', s'), res)"
  shows "\<exists>ls1. round_end chk O' ls1 v s ls' w' s' res"
proof (cases "append_user_text (out_scrub (solver_outside chk O')) (ls_transcript ls) text")
  case (Inl e)
  with assms show ?thesis by (auto simp: resume_loop_def round_end_unfinished)
next
  case (Inr t)
  with assms have "run_loop (solver_outside chk O') (ls\<lparr>ls_transcript := t\<rparr>) ((v, fresh_round), s) = ((ls', w', s'), res)"
    by (simp add: resume_loop_def)
  from run_loop_ended [OF this] show ?thesis by blast
qed

text \<open>
  Why a fix was accepted: its report is one of the checks and passed, and either a later submit
  confirmed its diff or it was the last turn.
\<close>

definition fix_confirmed :: "'v fix_checker \<Rightarrow> bool \<Rightarrow> 'v \<Rightarrow> agent_submission \<Rightarrow> check_report \<Rightarrow> bool" where
  "fix_confirmed chk last_turn v' sub r \<longleftrightarrow> checks_gave chk r
     \<and> ((\<exists>v v1. chk_diff chk v = (v1, Inr (check_diff_sha256 r)) \<and> chk_text chk v1 sub = (v', Inr None))
       \<or> last_turn \<and> (\<exists>v1. chk_check chk v1 sub = (v', Inr r)))"

lemma accepted_confirmed:
  assumes "sv.accepted_in chk l (v', sv') sub" and "sub_outcome sub \<noteq> Skip"
  shows "\<exists>r. sv_accepted sv' = Some r \<and> fix_confirmed chk l v' sub r"
proof -
  from assms(1) obtain v sv a where o: "round_open chk (v, sv)" and h: "solver_submit chk (v, sv) sub l = ((v', sv'), Inr a)"
    and a: "reply_action a = Accept"
    unfolding sv.accepted_in_def by (metis surj_pair)
  from o have passed: "reports_passed chk sv" "reports_passed chk (sv\<lparr>sv_submits := n\<rparr>)" for n by (simp_all add: round_defs)
  from h assms(2) show ?thesis
  proof (cases rule: solver_submit_cases)
    case (failed e)
    then show ?thesis by simp
  next
    case (confirm passed v1)
    with passed(1) confirm_fix_reply(4) [OF confirm(3) refl a] show ?thesis
      by (auto simp: fix_confirmed_def reports_passed_def)
  next
    case (check v1)
    from check_fix_reply(4) [OF check passed(2) refl a] show ?thesis by (auto simp: fix_confirmed_def elim: checks_gave_intro)
  qed
qed

lemma solver_result_fix:
  "solver_result sv out = Inr (Submitted_fix sub r) \<Longrightarrow> out = Finished sub \<and> sub_outcome sub \<noteq> Skip \<and> sv_accepted sv = Some r"
  by (cases out) (auto simp: solver_result_def split: if_splits option.splits)

lemma solver_result_returns:
  assumes "\<And>sub. out = Finished sub \<Longrightarrow> sub_outcome sub \<noteq> Skip \<Longrightarrow> sv_accepted sv \<noteq> None"
  shows "returns (solver_result sv out)"
  using assms by (cases out) (auto simp: solver_result_def)

lemma solved_ended:
  assumes e: "round_end chk O' ls0 v s ls' w' s' res"
    and "solved ((ls', w', s'), res) = ((ls1, (v1, sv1), s1), out)"
  shows "sv_submits sv1 \<le> max_fix_submits" and "returns res \<longleftrightarrow> returns out"
    and "out = Inr (Submitted_fix sub r) \<Longrightarrow> \<exists>ls2 s2. turns_on (solver_outside chk O') (ls0, (v, fresh_round), s) (ls2, s2)
      \<and> turn_once (solver_outside chk O') ls2 s2 = ((ls1, (v1, sv1), s1), Inr (Some (Finished sub)))
      \<and> fix_confirmed chk (at_limit (solver_outside chk O') ls2) v1 sub r"
proof -
  have w: "w' = (v1, sv1)" "ls' = ls1" "s' = s1" and out: "out = bind_r res (solver_result sv1)"
    using assms(2) by (auto simp: solved_def split: prod.splits)
  note e = e [unfolded round_end_def w]
  show "sv_submits sv1 \<le> max_fix_submits" using e by (simp add: round_closed_def)
  show "returns res \<longleftrightarrow> returns out"
  proof (cases res)
    case (Inr x)
    have "returns (solver_result sv1 x)"
      using e accepted_confirmed [of chk _ v1 sv1] Inr by (intro solver_result_returns) fastforce
    with Inr show ?thesis by (simp add: out)
  qed (simp add: out)
  assume "out = Inr (Submitted_fix sub r)"
  then obtain x where x: "res = Inr x" "solver_result sv1 x = Inr (Submitted_fix sub r)" by (auto simp: out bind_r_Inr_iff)
  from solver_result_fix [OF x(2)] x(1) e obtain ls2 s2 where
    t: "turns_on (solver_outside chk O') (ls0, (v, fresh_round), s) (ls2, s2)"
      "turn_once (solver_outside chk O') ls2 s2 = ((ls1, (v1, sv1), s1), Inr (Some (Finished sub)))"
    and a: "sv.accepted_in chk (at_limit (solver_outside chk O') ls2) (v1, sv1) sub" "sub_outcome sub \<noteq> Skip" "sv_accepted sv1 = Some r"
    by blast
  from accepted_confirmed [OF a(1,2)] a(3) have "fix_confirmed chk (at_limit (solver_outside chk O') ls2) v1 sub r" by auto
  with t show "\<exists>ls2 s2. turns_on (solver_outside chk O') (ls0, (v, fresh_round), s) (ls2, s2)
      \<and> turn_once (solver_outside chk O') ls2 s2 = ((ls1, (v1, sv1), s1), Inr (Some (Finished sub)))
      \<and> fix_confirmed chk (at_limit (solver_outside chk O') ls2) v1 sub r"
    by blast
qed

text \<open>Either kind of round.\<close>

lemma round_ended:
  assumes "solver_run chk O' ls (v, s) = ((ls', (v', sv'), s'), out)
    \<or> address_blockers chk O' blockers ls ((v, sv), s) = ((ls', (v', sv'), s'), out) \<and> blockers \<noteq> []"
  obtains ls0 ls1 w1 s1 res where "round_end chk O' ls0 v s ls1 w1 s1 res"
    and "solved ((ls1, w1, s1), res) = ((ls', (v', sv'), s'), out)"
  using assms
proof
  assume r: "solver_run chk O' ls (v, s) = ((ls', (v', sv'), s'), out)"
  obtain ls1 w1 s1 res where "run_loop (solver_outside chk O') ls ((v, fresh_round), s) = ((ls1, w1, s1), res)" by (metis surj_pair)
  with r run_loop_ended [OF this] that [of ls ls1 w1 s1 res] show thesis by (cases s) (simp add: solver_run_def)
next
  assume r: "address_blockers chk O' blockers ls ((v, sv), s) = ((ls', (v', sv'), s'), out) \<and> blockers \<noteq> []"
  obtain ls1 w1 s1 res where l: "resume_loop (solver_outside chk O') (blocker_message (out_scrub O') blockers) ls ((v, fresh_round), s)
      = ((ls1, w1, s1), res)" by (metis surj_pair)
  from resume_loop_ended [OF l] obtain ls0 where "round_end chk O' ls0 v s ls1 w1 s1 res" by blast
  with r l that [of ls0 ls1 w1 s1 res] show thesis by (cases s) (auto simp: address_blockers_def)
qed

text \<open>
  C21. A fix that a round of the solver accepts has a passing report that the checks gave,
  within the round of four submits: either the diff in the workspace still had the digest of
  that report when its confirming submit arrived and its text was found publishable, or the
  report is of the check of this submission, in a turn of the round whose transcript was over
  its context limit, which is its last; and nothing ran in the workspace after that.
\<close>

theorem fix_is_checked:
  assumes "solver_run chk O' ls (v, s) = ((ls', (v', sv'), s'), Inr (Submitted_fix sub r))
    \<or> address_blockers chk O' blockers ls ((v, sv), s) = ((ls', (v', sv'), s'), Inr (Submitted_fix sub r))"
  shows "check_passed r \<and> (\<exists>v0 v1 sub'. chk_check chk v0 sub' = (v1, Inr r)) \<and> sv_submits sv' \<le> max_fix_submits
    \<and> ((\<exists>v0 v1. chk_diff chk v0 = (v1, Inr (check_diff_sha256 r)) \<and> chk_text chk v1 sub = (v', Inr None))
      \<or> (\<exists>v1 ls0 ls2 s2. chk_check chk v1 sub = (v', Inr r)
          \<and> turns_on (solver_outside chk O') (ls0, (v, fresh_round), s) (ls2, s2)
          \<and> turn_once (solver_outside chk O') ls2 s2 = ((ls', (v', sv'), s'), Inr (Some (Finished sub)))
          \<and> context_limit (ls_transcript ls2) < next_input_reservation (out_schema O') (ls_transcript ls2)))"
proof -
  have "blockers \<noteq> []" if "address_blockers chk O' blockers ls ((v, sv), s) = ((ls', (v', sv'), s'), Inr (Submitted_fix sub r))"
    using that by (cases s) (auto simp: address_blockers_def)
  with assms have "solver_run chk O' ls (v, s) = ((ls', (v', sv'), s'), Inr (Submitted_fix sub r))
    \<or> address_blockers chk O' blockers ls ((v, sv), s) = ((ls', (v', sv'), s'), Inr (Submitted_fix sub r)) \<and> blockers \<noteq> []"
    by blast
  then show ?thesis
  proof (rule round_ended)
    fix ls0 ls1 w1 s1 res
    assume "round_end chk O' ls0 v s ls1 w1 s1 res"
      and "solved ((ls1, w1, s1), res) = ((ls', (v', sv'), s'), Inr (Submitted_fix sub r))"
    note e = solved_ended [OF this]
    have "out_schema (solver_outside chk O') = out_schema O'" by (simp add: solver_outside_def)
    with e(1) e(3) [OF refl] show ?thesis unfolding fix_confirmed_def checks_gave_def at_limit_def by metis
  qed
qed

text \<open>
  The error that a fix ended the loop without a passing check is never raised: whenever the
  loop of a round returns an outcome, the solver has a result for it.
\<close>

theorem finished_loop_has_result:
  assumes "run_loop (solver_outside chk O') ls ((v, fresh_round), s) = ((ls', (v', sv'), s'), Inr out)"
  shows "\<exists>x. solver_result sv' out = Inr x"
proof -
  have "solved ((ls', (v', sv'), s'), Inr out) = ((ls', (v', sv'), s'), solver_result sv' out)"
    by (cases s') (simp add: solved_def)
  from solved_ended(2) [OF run_loop_ended [OF assms] this] show ?thesis by (simp add: returns_iff)
qed

text \<open>A run saved at any time, and its next save.\<close>

definition sample_stored :: "run_manifest \<Rightarrow> db" where
  "sample_stored m = sample_run_db\<lparr>runs := [sample_row\<lparr>row_manifest := m, row_updated_at := updated_at m\<rparr>]\<rparr>"

definition sample_saved :: "run_manifest \<Rightarrow> bool" where
  "sample_saved m \<longleftrightarrow> run_id m = ''r'' \<and> status m = QUEUED \<and> candidate m = None \<and> fields_valid m \<and> remote_identity_complete m = Inr ()"

lemma sample_stored_save:
  assumes m: "sample_saved m" "sample_saved m1" "updated_at m1 = updated_at m" "updated_at m < c" "0 \<le> updated_at m"
    and e: "etype \<noteq> ''run.created''" "etype \<noteq> ''candidate.selected''"
  shows "\<exists>d'. save_run sample_sha (\<lambda>_. []) (\<lambda>_. None) (\<lambda>_. True) (sample_stored m) m1 etype dts [] c c
    = (d', m1\<lparr>updated_at := c\<rparr>, Inr ()) \<and> same_breaker (sample_stored m) d'"
proof -
  obtain d1 where t: "save_transaction sample_sha (\<lambda>_. []) (sample_stored m) (m1\<lparr>updated_at := c\<rparr>) (updated_at m) [(etype, dts)] c = Inr d1"
    and f: "find_run d1 ''r'' = Some (sample_row\<lparr>row_status := QUEUED, row_updated_at := c, row_manifest := m1\<lparr>updated_at := c\<rparr>,
          row_event_count := 2, row_event_head := replicate 63 (CHR ''0'') @ ''2''\<rparr>)"
    and mk: "manifest_artifact_sync d1 ''r'' = Some \<lparr>sync_updated_at = c, sync_manifest_sha256 = sample_sha []\<rparr>"
    and br: "same_breaker (sample_stored m) d1"
    using m e by (simp add: sample_stored_def sample_saved_def run_eval new_event_def same_breaker_def Let_def)
  have v: "validate_manifest (m1\<lparr>updated_at := c\<rparr>) = Inr (m1\<lparr>updated_at := c\<rparr>)"
    using m(2) by (simp add: validate_manifest_def sample_saved_def)
  have "publish_artifact sample_sha (\<lambda>_. []) (\<lambda>_. None) d1 ''r'' c (sample_sha [])
      = Inr (d1\<lparr>manifest_files := (manifest_files d1)(''r'' \<mapsto> m1\<lparr>updated_at := c\<rparr>),
          manifest_artifact_sync := (manifest_artifact_sync d1)(''r'' := None)\<rparr>, True)"
    using f mk v m(2) by (simp add: publish_artifact_def sample_saved_def)
  moreover have "same_breaker (sample_stored m) (d1\<lparr>manifest_files := x, manifest_artifact_sync := y\<rparr>)" for x y
    using br by (simp add: same_breaker_def)
  ultimately show ?thesis
    using m(2-4) e(2) t
    by (simp add: save_run_def selection_details_def next_run_update_time_def synchronize_manifest_artifact_def sample_saved_def
        terminal_statuses_def Let_def)
qed

lemma sample_breaker:
  assumes "same_breaker (sample_stored m) d"
  shows "assert_circuit_breaker_clear sample_sha d = Inr ()"
  using assms
  by (simp add: assert_circuit_breaker_clear_def circuit_breaker_status_def sample_stored_def sample_run_db_def create_schema_def
      stored_generation_def active_triggers_def max_generation_def breaker_revision_def epoch_trips_def same_breaker_def Let_def)

section \<open>A session\<close>

text \<open>
  An agent transcript at its context limit: the last turn submits a fix, and its checks pass.
\<close>

definition sample_call :: tool_call where
  "sample_call = \<lparr>call_id = ''c1'', call_name = ''submit'', call_arguments = [(''outcome'', JStr ''fixed'')]\<rparr>"

definition submit_turn :: turn where
  "submit_turn = \<lparr>turn_stop = Stop_tool_use, turn_output_items = [], turn_tool_calls = [sample_call],
     turn_response_id = ''m'', turn_model = ''gpt-5.6-sol'',
     turn_usage = \<lparr>usage_input_tokens = 90, usage_cached_input_tokens = 0, usage_cache_write_tokens = 0,
       usage_output_tokens = 9, usage_reasoning_tokens = 0, usage_total_tokens = 99\<rparr>\<rparr>"

definition sample_transcript :: transcript where
  "sample_transcript = \<lparr>tr_model = ''gpt-5.6-sol'', tr_effort = Effort_high, tr_kind = Kind_agent, tr_run_id = ''r'',
     tr_instructions = '''', tr_items = [], tr_pending_calls = [], tr_prior_input_tokens = Some 200000,
     tr_prior_output_tokens = 0, tr_prior_output_items = 0, tr_appended_bytes = 0, tr_appended_items = 1\<rparr>"

definition last_transcript :: transcript where
  "last_transcript = append_items sample_transcript [openai_user_message (last_turn_text Kind_agent)] 1"

definition last_input :: int where
  "last_input = next_input_reservation (\<lambda>_. JNull) last_transcript"

definition sample_submission :: agent_submission where
  "sample_submission = \<lparr>sub_outcome = Fixed, sub_skip_reason = None, sub_summary = ''s'', sub_pr_title = Some ''t'',
     sub_pr_body = Some ''b'', sub_commit_message = Some ''c'', sub_test_files = [], sub_test_command = None\<rparr>"

definition sample_report :: check_report where
  "sample_report = \<lparr>check_passed = True, check_diff_sha256 = ''d'', check_report_text = ''ok''\<rparr>"

definition sample_checker :: "nat fix_checker" where
  "sample_checker = \<lparr>chk_diff = (\<lambda>v. (v, Inr ''d'')), chk_check = (\<lambda>v _. (v, Inr sample_report)), chk_text = (\<lambda>v _. (v, Inr None))\<rparr>"

definition first_save :: run_manifest where
  "first_save = (reserved_manifest sample_world sample_created Agent gpt_sol last_input 32000 600)\<lparr>updated_at := 1\<rparr>"

definition later_world :: surroundings where
  "later_world = sample_world\<lparr>wall_clock := 2, save_clock := 2, event_clock := 2\<rparr>"

definition sample_outside :: "(nat, agent_submission) outside" where
  "sample_outside = \<lparr>look = (\<lambda>v d. if v = 0 then (1, sample_stored sample_created, sample_world)
       else (2, sample_stored first_save, later_world)),
     provider_step = (\<lambda>v t n x. (v, Inr submit_turn)), draw_jitter = (\<lambda>v. (v, 0)),
     run_tool = Some (\<lambda>v c. (v, Inl (SandboxError ''gone''))), read_submission = (\<lambda>c. Inr sample_submission), on_submit = None,
     out_store = sample_env, out_schema = (\<lambda>_. JNull), out_scrub = id, out_token = (\<lambda>_. False), out_guidance = [],
     out_name = ''agent-1''\<rparr>"

definition sample_loop :: loop_state where
  "sample_loop = \<lparr>ls_transcript = sample_transcript, ls_turns = 0, ls_nudges = 0, ls_malformed_turns = 0, ls_failing_command = None,
     ls_failures_in_a_row = 0, ls_guided = {}, ls_reminded_turns = False, ls_reminded_cost = False\<rparr>"

lemma last_input_bounds: "201152 \<le> last_input" "last_input < 203000"
proof -
  have "json_size (openai_user_message (last_turn_text Kind_agent)) < 1000" by code_simp
  moreover have "last_input = 201152 + json_size (openai_user_message (last_turn_text Kind_agent))"
    by (simp add: last_input_def last_transcript_def append_items_def sample_transcript_def next_input_reservation_def
        item_overhead_tokens_def reservation_slack_tokens_def)
  moreover have "0 \<le> json_size (openai_user_message (last_turn_text Kind_agent))" by (simp add: json_size_def)
  ultimately show "201152 \<le> last_input" "last_input < 203000" by simp_all
qed

lemma last_upper:
  assumes "0 \<le> out"
  shows "upper_bound_cost gpt_sol last_input out = (of_int last_input * (25/4) + of_int out * 30) / 1000000"
  using last_input_bounds by (simp add: upper_bound_cost_def tier_rates_def gpt_sol_def usd_def tokens_per_price_unit_def Let_def)

lemma sample_reserve_last:
  "\<exists>d' b' r. reserve sample_env sample_world (sample_stored sample_created) (sample_budget sample_created) Agent gpt_sol last_input 32000 4000 dts
      = (d', b', Inr r) \<and> b' = (sample_budget sample_created)\<lparr>budget_manifest := first_save\<rparr>
      \<and> r = \<lparr>rv_call = 1, rv_scope = Agent, rv_spec = gpt_sol, rv_input_tokens = last_input, rv_output_tokens = 32000,
          rv_cost_usd = upper_bound_cost gpt_sol last_input 32000, rv_timeout_seconds = 600, rv_started = 0\<rparr>"
proof -
  have left: "cost_left (sample_budget sample_created) Agent = 11/2"
    by (simp add: cost_left_def sample_budget_def pending_cost_def scopes_def)
  have rate: "rate_output (tier_rates gpt_sol last_input) = 30"
    using last_input_bounds by (simp add: tier_rates_def gpt_sol_def usd_def)
  have "of_int last_input < (203000::rat)" using last_input_bounds(2) by (metis of_int_less_iff of_int_numeral)
  then have "32000 \<le> affordable_output (sample_budget sample_created) Agent gpt_sol last_input"
    by (simp add: affordable_output_def left rate last_upper tokens_per_price_unit_def le_floor_iff)
  then have c: "reserve_checks sample_env sample_world (sample_stored sample_created) (sample_budget sample_created) Agent gpt_sol last_input 32000 4000
      = Inr (32000, 600)"
    using sample_breaker [of sample_created "sample_stored sample_created"] last_input_bounds
    by (simp add: reserve_checks_def sample_budget_def gpt_sol_def usd_def seconds_left_def max_turn_seconds_def sample_calls
        same_breaker_def Let_def)
  have nonneg: "0 \<le> upper_bound_cost gpt_sol last_input 32000" using last_input_bounds by (simp add: last_upper)
  have fits: "sample_saved sample_created"
    "sample_saved (reserved_manifest sample_world sample_created Agent gpt_sol last_input 32000 600)"
    using sample_created_fits sample_fits_reserved [OF sample_created_fits, of last_input 32000 gpt_sol 600 sample_world Agent]
      last_input_bounds nonneg sample_calls
    by (simp_all add: sample_fits_def sample_saved_def)
  have up: "updated_at (reserved_manifest sample_world sample_created Agent gpt_sol last_input 32000 600) = updated_at sample_created"
    "updated_at sample_created = 0"
    by (simp_all add: reserved_manifest_def new_manifest_def)
  obtain d' where "save_run sample_sha (\<lambda>_. []) (\<lambda>_. None) (\<lambda>_. True) (sample_stored sample_created)
      (reserved_manifest sample_world sample_created Agent gpt_sol last_input 32000 600) ''model.call.started''
      (dict_update dts (reserve_details sample_env Agent gpt_sol
        (the (model_reservation (reserved_manifest sample_world sample_created Agent gpt_sol last_input 32000 600))))) [] 1 1
    = (d', first_save, Inr ())"
    using sample_stored_save [OF fits up(1) _ _ event_names(1,2), of 1] up(2) unfolding first_save_def by auto
  then show ?thesis
    by (simp add: reserve_def c save_budget_def Let_def) (simp add: sample_budget_def reserved_manifest_def sample_calls)
qed

definition last_reservation :: reservation where
  "last_reservation = \<lparr>rv_call = 1, rv_scope = Agent, rv_spec = gpt_sol, rv_input_tokens = last_input, rv_output_tokens = 32000,
     rv_cost_usd = upper_bound_cost gpt_sol last_input 32000, rv_timeout_seconds = 600, rv_started = 0\<rparr>"

definition settled_last :: run_budget where
  "settled_last = settled ((sample_budget sample_created)\<lparr>budget_manifest := first_save\<rparr>) last_reservation submit_turn (9/12500) 0"

lemma sample_settle_last:
  "\<exists>d'. settle sample_env later_world (sample_stored first_save) ((sample_budget sample_created)\<lparr>budget_manifest := first_save\<rparr>)
      last_reservation submit_turn = (d', settled_last\<lparr>budget_manifest := (budget_manifest settled_last)\<lparr>updated_at := 2\<rparr>\<rparr>, Inr (9/12500))"
proof -
  let ?b = "(sample_budget sample_created)\<lparr>budget_manifest := first_save\<rparr>"
  have nonneg: "0 \<le> upper_bound_cost gpt_sol last_input 32000" using last_input_bounds by (simp add: last_upper)
  have fits: "sample_fits (first_save\<lparr>updated_at := 0\<rparr>)"
    using sample_fits_reserved [OF sample_created_fits, of last_input 32000 gpt_sol 600 sample_world Agent] last_input_bounds nonneg
    by (simp add: first_save_def sample_calls sample_fits_def)
  have fits1: "sample_saved first_save" using fits by (simp add: sample_saved_def sample_fits_def)
  have fits2: "sample_saved (budget_manifest settled_last)"
    using sample_fits_settled [of "?b\<lparr>budget_manifest := first_save\<lparr>updated_at := 0\<rparr>\<rparr>" submit_turn "9/12500" 0 last_reservation] fits
    by (simp add: settled_last_def sample_saved_def sample_fits_def submit_turn_def settled_def charge_def add_seconds_def fields_valid_def)
  have c: "cost (rv_spec last_reservation) (turn_usage submit_turn) = Inr (9/12500)"
    by (simp add: cost_def last_reservation_def submit_turn_def tier_rates_def gpt_sol_def usd_def tokens_per_price_unit_def Let_def)
  have vs: "settle_violations settled_last last_reservation submit_turn = []"
    using last_input_bounds
    by (simp add: settle_violations_def settled_last_def settled_def charge_def add_seconds_def sample_budget_def first_save_def
        reserved_manifest_def submit_turn_def last_reservation_def sample_zero)
  have pend: "require_pending ?b (rv_call last_reservation) = Inr ()"
    by (simp add: require_pending_def sample_budget_def first_save_def reserved_manifest_def last_reservation_def sample_calls)
  have w: "lease_check later_world = Inr ()" "elapsed_since (rv_started last_reservation) (budget_clock later_world) = 0"
    "save_clock later_world = 2" "event_clock later_world = 2"
    by (simp_all add: later_world_def elapsed_since_def last_reservation_def)
  have up: "updated_at (budget_manifest settled_last) = updated_at first_save" "updated_at first_save = 1"
    by (simp_all add: settled_last_def settled_def charge_def add_seconds_def first_save_def)
  obtain d' where d': "save_run sample_sha (\<lambda>_. []) (\<lambda>_. None) (\<lambda>_. True) (sample_stored first_save) (budget_manifest settled_last)
      ''model.call.completed'' (settle_details sample_env last_reservation submit_turn (9/12500) 0 []) [] 2 2
    = (d', (budget_manifest settled_last)\<lparr>updated_at := 2\<rparr>, Inr ())" "same_breaker (sample_stored first_save) d'"
    using sample_stored_save [OF fits1 fits2 up(1), of 2 "''model.call.completed''"] up(2) by auto
  with sample_breaker [OF d'(2)] show ?thesis
    by (intro exI [of _ d']) (simp add: settle_def pend c w settled_last_def [symmetric] vs save_budget_def Let_def)
qed

lemma sample_spec: "models_table ''gpt-5.6-sol'' = Some gpt_sol"
  by (simp add: models_table_def specs_def gpt_sol_def)

lemma sample_transcript_facts:
  "loop_spec sample_transcript = gpt_sol" "loop_spec last_transcript = gpt_sol" "loop_max_turns sample_transcript = 100"
  "context_limit sample_transcript = 200000" "input_ceiling gpt_sol = 272000" "tr_kind sample_transcript = Kind_agent"
  "tr_kind last_transcript = Kind_agent" "200000 < next_input_reservation (\<lambda>_. JNull) sample_transcript"
  "append_user_text id sample_transcript (last_turn_text Kind_agent) = Inr last_transcript"
  "output_cap last_transcript = 32000" "tr_provider last_transcript = Openai" "awaiting_model last_transcript"
  by (simp_all add: loop_spec_def sample_spec sample_transcript_def last_transcript_def append_items_def loop_max_turns_def scopes_def
      context_limit_def input_ceiling_def context_limit_tokens_def output_cap_def awaiting_model_def tr_provider_def
      next_input_reservation_def append_user_text_def item_overhead_tokens_def reservation_slack_tokens_def gpt_sol_def)

lemma sample_outside_simps [simp]:
  "out_store (solver_outside sample_checker sample_outside) = sample_env"
  "out_schema (solver_outside sample_checker sample_outside) = (\<lambda>_. JNull)"
  "out_scrub (solver_outside sample_checker sample_outside) = id"
  "out_token (solver_outside sample_checker sample_outside) = (\<lambda>_. False)"
  "read_submission (solver_outside sample_checker sample_outside) c = Inr sample_submission"
  "on_submit (solver_outside sample_checker sample_outside) = Some (solver_submit sample_checker)"
  "look (solver_outside sample_checker sample_outside) (0, sv) d = ((1, sv), sample_stored sample_created, sample_world)"
  "look (solver_outside sample_checker sample_outside) (1, sv) d = ((2, sv), sample_stored first_save, later_world)"
  "provider_step (solver_outside sample_checker sample_outside) w t n x = (w, Inr submit_turn)"
  by (simp_all add: solver_outside_def sample_outside_def beside_def split: prod.splits)

lemma sample_last_request:
  "\<exists>d. first_request (solver_outside sample_checker sample_outside) last_transcript 0
      ((0, sv), sample_stored sample_created, sample_budget sample_created)
    = (((2, sv), d, settled_last\<lparr>budget_manifest := (budget_manifest settled_last)\<lparr>updated_at := 2\<rparr>\<rparr>), Inr (Turned submit_turn))"
proof -
  let ?O = "solver_outside sample_checker sample_outside"
  let ?dts = "[(''transcript'', out_name ?O), (''turn'', nat_text 1)]"
  obtain d1 where r: "reserve sample_env sample_world (sample_stored sample_created) (sample_budget sample_created) Agent gpt_sol last_input 32000 4000 ?dts
      = (d1, (sample_budget sample_created)\<lparr>budget_manifest := first_save\<rparr>, Inr last_reservation)"
    using sample_reserve_last [of ?dts] by (auto simp: last_reservation_def)
  obtain d2 where s: "settle sample_env later_world (sample_stored first_save) ((sample_budget sample_created)\<lparr>budget_manifest := first_save\<rparr>)
      last_reservation submit_turn = (d2, settled_last\<lparr>budget_manifest := (budget_manifest settled_last)\<lparr>updated_at := 2\<rparr>\<rparr>, Inr (9/12500))"
    using sample_settle_last by blast
  have stop: "turn_stop submit_turn = Stop_tool_use" by (simp add: submit_turn_def)
  have "request_once ?O last_transcript 0 32000 4000 0 False ((0, sv), sample_stored sample_created, sample_budget sample_created)
      = (((2, sv), d2, settled_last\<lparr>budget_manifest := (budget_manifest settled_last)\<lparr>updated_at := 2\<rparr>\<rparr>), Done (Inr (Turned submit_turn)))"
    unfolding request_once_def prod.case Let_def
    by (simp add: sample_transcript_facts last_input_def [symmetric] r after_turn_def s stop del: One_nat_def)
  then show ?thesis
    by (simp add: first_request_def sample_transcript_facts min_turn_output_tokens_def
        request.simps [of ?O last_transcript 0 32000 4000 0 False "((0, sv), sample_stored sample_created, sample_budget sample_created)"])
qed

lemma sample_answer:
  assumes t: "append_turn last_transcript submit_turn = Inr t2"
  shows "\<exists>ls'. answer (solver_outside sample_checker sample_outside) submit_turn True b ((2, fresh_round), sample_loop\<lparr>ls_transcript := t2, ls_turns := n\<rparr>)
    = (((2, \<lparr>sv_submits = 1, sv_passed = Some sample_report, sv_accepted = Some sample_report\<rparr>), ls'), Inr (Some (Finished sample_submission)))"
proof -
  have t2: "tr_kind t2 = Kind_agent" "tr_pending_calls t2 = [sample_call]" "tr_provider t2 = Openai"
    using t by (auto simp: append_turn_def sample_transcript_facts tr_provider_def submit_turn_def split: if_splits)
       (simp_all add: last_transcript_def sample_transcript_def append_items_def sample_spec gpt_sol_def)
  have sub: "solver_submit sample_checker (2, fresh_round) sample_submission True
      = ((2, \<lparr>sv_submits = 1, sv_passed = Some sample_report, sv_accepted = Some sample_report\<rparr>), Inr (reply Accept ''ok''))"
    by (simp add: solver_submit_def sample_submission_def fresh_round_def max_fix_submits_def check_fix_def sample_checker_def
        sample_report_def Let_def)
  show ?thesis
    using t2 by (simp add: answer_def submit_turn_def answer_call_def submit_call_def sub reply_def sample_call_def finish_turn_def
        append_tool_results_def openai_result_def scrubbed_def result_text_def add_result_def Let_def)
qed

lemma sample_session:
  "\<exists>ls' d b. run_turns (solver_outside sample_checker sample_outside) sample_loop
      ((0, fresh_round), sample_stored sample_created, sample_budget sample_created)
    = ((ls', (2, \<lparr>sv_submits = 1, sv_passed = Some sample_report, sv_accepted = Some sample_report\<rparr>), d, b),
       Inr (Finished sample_submission))"
proof -
  let ?O = "solver_outside sample_checker sample_outside"
  let ?b = "settled_last\<lparr>budget_manifest := (budget_manifest settled_last)\<lparr>updated_at := 2\<rparr>\<rparr>"
  obtain d where r: "first_request ?O last_transcript 0 ((0, fresh_round), sample_stored sample_created, sample_budget sample_created)
      = (((2, fresh_round), d, ?b), Inr (Turned submit_turn))"
    using sample_last_request by blast
  obtain t2 where t2: "append_turn last_transcript submit_turn = Inr t2"
    by (simp add: append_turn_def sample_transcript_facts submit_turn_def)
  obtain ls' where a: "answer ?O submit_turn True ?b ((2, fresh_round), sample_loop\<lparr>ls_transcript := t2, ls_turns := 1\<rparr>)
      = (((2, \<lparr>sv_submits = 1, sv_passed = Some sample_report, sv_accepted = Some sample_report\<rparr>), ls'), Inr (Some (Finished sample_submission)))"
    using sample_answer [OF t2] by blast
  have l: "ls_transcript sample_loop = sample_transcript" "ls_turns sample_loop = 0" by (simp_all add: sample_loop_def)
  have "next_input_reservation (\<lambda>_. JNull) last_transcript \<le> 272000"
    using last_input_bounds by (simp add: last_input_def)
  then have "turn_once ?O sample_loop ((0, fresh_round), sample_stored sample_created, sample_budget sample_created)
    = ((ls', (2, \<lparr>sv_submits = 1, sv_passed = Some sample_report, sv_accepted = Some sample_report\<rparr>), d, ?b),
       Inr (Some (Finished sample_submission)))"
    using a by (simp add: turn_once_def l sample_transcript_facts r t2 Let_def)
  then show ?thesis
    by (simp add: run_turns.simps [of ?O sample_loop "((0, fresh_round), sample_stored sample_created, sample_budget sample_created)"])
qed

section \<open>Witnesses\<close>

lemma sample_run_loop:
  "\<exists>ls' d b. run_loop (solver_outside sample_checker sample_outside) sample_loop
      ((0, fresh_round), sample_stored sample_created, sample_budget sample_created)
    = ((ls', (2, \<lparr>sv_submits = 1, sv_passed = Some sample_report, sv_accepted = Some sample_report\<rparr>), d, b),
       Inr (Finished sample_submission))"
proof -
  have "awaiting_model (ls_transcript sample_loop)"
    by (simp add: sample_loop_def awaiting_model_def sample_transcript_def)
  then show ?thesis using sample_session by (simp add: run_loop_def)
qed

lemma fix_is_checked_witness:
  "\<exists>ls' sv' s'. solver_run sample_checker sample_outside sample_loop (0, sample_stored sample_created, sample_budget sample_created)
      = ((ls', (2, sv'), s'), Inr (Submitted_fix sample_submission sample_report))
    \<and> check_passed sample_report \<and> sv_submits sv' \<le> 4"
proof -
  obtain ls' sv' s' where r: "solver_run sample_checker sample_outside sample_loop (0, sample_stored sample_created, sample_budget sample_created)
      = ((ls', (2, sv'), s'), Inr (Submitted_fix sample_submission sample_report))"
    using sample_run_loop by (auto simp: solver_run_def solved_def solver_result_def sample_submission_def)
  from fix_is_checked [OF disjI1 [OF r]] r show ?thesis unfolding max_fix_submits_def by blast
qed

lemma finished_loop_has_result_witness:
  "\<exists>ls' v' sv' s' x. run_loop (solver_outside sample_checker sample_outside) sample_loop
      ((0, fresh_round), sample_stored sample_created, sample_budget sample_created) = ((ls', (v', sv'), s'), Inr (Finished sample_submission))
    \<and> solver_result sv' (Finished sample_submission) = Inr x"
  using sample_run_loop finished_loop_has_result [of sample_checker sample_outside sample_loop 0
      "(sample_stored sample_created, sample_budget sample_created)"] by blast

text \<open>An outside that counts the provider's requests.\<close>

definition counting_outside :: "(nat, agent_submission) outside" where
  "counting_outside = sample_outside\<lparr>look := (\<lambda>v d. (v, sample_stored sample_created, sample_world)),
     provider_step := (\<lambda>v t n x. (v + 1, Inr submit_turn))\<rparr>"

lemma loop_ends_witness:
  "\<exists>ls' s' res. run_turns counting_outside sample_loop (0, sample_stored sample_created, sample_budget sample_created) = ((ls', s'), res)
    \<and> ls_turns ls' \<le> 100 \<and> fst s' \<le> 400"
proof -
  obtain ls' s' res where r: "run_turns counting_outside sample_loop (0, sample_stored sample_created, sample_budget sample_created)
      = ((ls', s'), res)"
    by (metis surj_pair)
  have "counts_requests id counting_outside"
    by (simp add: counts_requests_def counting_outside_def sample_outside_def)
  from loop_ends [OF this r] r show ?thesis
    by (auto simp: sample_loop_def sample_transcript_facts max_attempts_def)
qed

lemma loop_within_budget_witness:
  "\<exists>ls' w' d b. run_turns (solver_outside sample_checker sample_outside) sample_loop
      ((0, fresh_round), sample_stored sample_created, sample_budget sample_created) = ((ls', w', d, b), Inr (Finished sample_submission))
    \<and> model_cost_usd (budget_manifest b) + pending_cost (budget_manifest b) \<le> 10 \<and> model_calls (budget_manifest b) \<le> 100"
proof -
  obtain ls' w' d b where r: "run_turns (solver_outside sample_checker sample_outside) sample_loop
      ((0, fresh_round), sample_stored sample_created, sample_budget sample_created) = ((ls', w', d, b), Inr (Finished sample_submission))"
    using sample_session by blast
  have t: "counts_tokens (solver_outside sample_checker sample_outside)"
    by (auto simp: counts_tokens_def submit_turn_def usage_counts_def)
  from loop_within_budget [OF r t conjunct1 [OF new_budget_ok [OF sample_new_budget sample_zero(1-4)]]] r
  have "model_cost_usd (budget_manifest b) + pending_cost (budget_manifest b) \<le> 10 \<and> model_calls (budget_manifest b) \<le> 100"
    by (simp add: sample_budget_def)
  with r show ?thesis by blast
qed

end
