(* ===== verification/Answering.thy ===== *)
theory Answering
  imports AgentLoop
begin

text \<open>
  What the loop needs of the session tools: a result in the shape its tool needs.  \<open>AgentLoop._answer\<close>
  appends the results of all calls of a turn at once, and \<open>append_tool_results\<close> refuses a result that
  does not answer its call.
\<close>

section \<open>A result that answers its call\<close>

text \<open>OpenAI's shell wants one chunk for each command, every other call a text.\<close>

definition result_fits :: "provider \<Rightarrow> tool_call \<Rightarrow> tool_result \<Rightarrow> bool" where
  "result_fits p c r \<longleftrightarrow> result_call_id r = call_id c
     \<and> (if p = Openai \<and> call_name c = native_shell Openai then
          (\<exists>chunks commands. result_output r = Output_chunks chunks
            \<and> map_of (call_arguments c) ''commands'' = Some (JList commands) \<and> length chunks = length commands)
        else (\<exists>s. result_output r = Output_text s))"

lemma submit_name_not_native [simp]: "submit_name k \<noteq> native_shell p" "submit_name k \<noteq> native_edit p"
  by (cases k; cases p; simp)+

lemma call_names_cases:
  "n \<in> tool_call_names p k \<Longrightarrow> n = native_shell p \<or> n = native_edit p \<or> n = submit_name k"
  by (auto simp: tool_call_names_def split: tool_kind.splits)

lemma not_openai_shell:
  assumes "n \<in> tool_call_names Anthropic k"
  shows "n \<noteq> native_shell Openai"
proof -
  have "native_shell Openai \<noteq> submit_name k" by (metis submit_name_not_native(1))
  then show ?thesis using call_names_cases [OF assms] by auto
qed

lemma shell_commands_Inr:
  "shell_commands c = Inr cs \<Longrightarrow> \<exists>xs. map_of (call_arguments c) ''commands'' = Some (JList xs) \<and> length cs = length xs"
  by (auto simp: shell_commands_def split: option.splits json.splits if_splits)

lemma refused_fits:
  assumes r: "refused c message = Inr r" and n: "call_name c \<in> tool_call_names p k"
  shows "result_fits p c r"
proof (cases "call_name c = native_shell Openai")
  case True
  with n have "p = Openai" using not_openai_shell [of "call_name c" k] by (cases p) auto
  with True r show ?thesis
    by (auto simp: refused_def result_simps result_fits_def dest!: shell_commands_Inr)
next
  case False
  with r show ?thesis by (auto simp: refused_def result_fits_def)
qed

lemma submit_call_fits:
  assumes "submit_call O' k last_turn c w = (w', Inr (r, out, bad))" and "call_name c = submit_name k"
  shows "result_fits p c r"
  using assms submit_name_not_native(1) [of k Openai]
  by (auto simp: submit_call_def result_fits_def result_simps Let_def split: sum.splits option.splits prod.splits)

section \<open>Answers are accepted\<close>

lemma scrubbed_fits: "result_fits p c (scrubbed scrub r) \<longleftrightarrow> result_fits p c r"
  by (cases "result_output r") (auto simp: result_fits_def scrubbed_def)

lemma openai_result_ok: "result_fits Openai c r \<Longrightarrow> \<exists>x. openai_result c r = Inr x"
  by (auto simp: result_fits_def openai_result_def result_text_def split: if_splits)

lemma anthropic_result_ok: "result_fits Anthropic c r \<Longrightarrow> \<exists>x. anthropic_result c r = Inr x"
  by (auto simp: result_fits_def anthropic_result_def result_text_def)

lemma map_result_ok: "(\<And>x. x \<in> set xs \<Longrightarrow> \<exists>y. f x = Inr y) \<Longrightarrow> \<exists>ys. map_result f xs = Inr ys"
  by (induction xs) (auto, fastforce)

lemma fitting_pairs:
  assumes "list_all2 (result_fits p) cs rs" and "(c, r) \<in> set (zip cs (map (scrubbed scrub) rs))"
  shows "result_fits p c r"
  using assms by (auto simp: list_all2_iff zip_map2 scrubbed_fits)

lemma fitting_ids: "list_all2 (result_fits p) cs rs \<Longrightarrow> map result_call_id rs = map call_id cs"
  by (induction rule: list_all2_induct) (auto simp: result_fits_def)

lemma fitting_results_accepted:
  assumes f: "list_all2 (result_fits (tr_provider t)) (tr_pending_calls t) rs" and n: "tr_pending_calls t \<noteq> []"
  shows "\<exists>u. append_tool_results scrub t rs = Inr u \<and> tr_pending_calls u = []"
proof -
  let ?pairs = "zip (tr_pending_calls t) (map (scrubbed scrub) rs)"
  have "\<exists>xs. (if tr_provider t = Openai then map_result (\<lambda>(c, r). openai_result c r) ?pairs
    else bind_r (map_result (\<lambda>(c, r). anthropic_result c r) ?pairs) (\<lambda>content. Inr [user_content content])) = Inr xs"
  proof (cases "tr_provider t")
    case Openai
    have "\<exists>ys. map_result (\<lambda>(c, r). openai_result c r) ?pairs = Inr ys"
      by (rule map_result_ok) (use f fitting_pairs openai_result_ok Openai in fastforce)
    with Openai show ?thesis by simp
  next
    case Anthropic
    have "\<exists>ys. map_result (\<lambda>(c, r). anthropic_result c r) ?pairs = Inr ys"
      by (rule map_result_ok) (use f fitting_pairs anthropic_result_ok Anthropic in fastforce)
    with Anthropic show ?thesis by auto
  qed
  then show ?thesis using fitting_ids [OF f] n
    by (auto simp: append_tool_results_def Let_def append_items_def)
qed

section \<open>Tools whose results fit\<close>

locale answering_tools =
  fixes out :: "('w, 'sub) outside" and p :: provider
  assumes tool_fits: "run_tool out = Some f \<Longrightarrow> call_name c \<in> {native_shell p, native_edit p}
    \<Longrightarrow> f w c = (w', Inr x) \<Longrightarrow> result_fits p c (outcome_result x)"
begin

lemma answer_call_fits:
  assumes a: "answer_call out k last_turn c s a = (s', Inr a')" and n: "call_name c \<in> tool_call_names p k"
  shows "\<exists>r. an_results a' = an_results a @ [r] \<and> result_fits p c r"
  using a refused_fits [OF _ n] submit_call_fits [of out k last_turn c] tool_fits [of _ c] call_names_cases [OF n]
  by (cases s) (auto simp: answer_call_def add_result_def result_simps Let_def
      split: if_splits option.splits prod.splits sum.splits)

lemma answer_calls_fit:
  assumes "answer_calls out k last_turn cs s a = (s', Inr a')" and "\<forall>c\<in>set cs. call_name c \<in> tool_call_names p k"
  shows "\<exists>rs. an_results a' = an_results a @ rs \<and> list_all2 (result_fits p) cs rs"
  using assms
proof (induction cs arbitrary: s a)
  case (Cons c cs)
  then obtain s1 a1 where one: "answer_call out k last_turn c s a = (s1, Inr a1)" and
    rest: "answer_calls out k last_turn cs s1 a1 = (s', Inr a')"
    by (auto split: prod.splits sum.splits)
  obtain r where "an_results a1 = an_results a @ [r]" "result_fits p c r"
    using answer_call_fits [OF one] Cons.prems(2) by auto
  moreover obtain rs where "an_results a' = an_results a1 @ rs" "list_all2 (result_fits p) cs rs"
    using Cons.IH [OF rest] Cons.prems(2) by auto
  ultimately show ?case by auto
qed simp

lemma answers_accepted:
  assumes "answer_calls out k last_turn (tr_pending_calls t) s a = (s', Inr a')" and "an_results a = []"
    and "\<forall>c\<in>set (tr_pending_calls t). call_name c \<in> tool_call_names p k"
    and "tr_pending_calls t \<noteq> []" and "tr_provider t = p"
  shows "\<exists>u. append_tool_results scrub t (an_results a') = Inr u \<and> tr_pending_calls u = []"
  using answer_calls_fit [OF assms(1,3)] fitting_results_accepted [of t _ scrub] assms(2,4,5) by auto

end

end
