(* ===== verification/Workspace.thy ===== *)
theory Workspace
  imports Transcript
begin

text \<open>
  \<open>workspace_files.py\<close>: host-side access to a workspace that sandboxed commands can also write, as a
  tree of folders, files, symbolic links and other entries.  Every access goes down from the root one
  component at a time and never through a link.  Failing system calls, and entries that are swapped
  while one access runs, are not modelled.
\<close>

section \<open>Paths\<close>

definition container_workspace :: string where
  "container_workspace = ''/workspace''"

definition max_edit_bytes :: nat where
  "max_edit_bytes = 2000000"

text \<open>
  \<open>PurePosixPath\<close>: the components without empty ones and dots, and the root, which is \<open>//\<close> for exactly
  two leading slashes.
\<close>

definition path_parts :: "string \<Rightarrow> string list" where
  "path_parts p = filter (\<lambda>x. x \<noteq> '''' \<and> x \<noteq> ''.'') (split_on (CHR ''/'') p)"

definition path_root :: "string \<Rightarrow> string" where
  "path_root p = (if startswith p ''///'' then ''/'' else if startswith p ''//'' then ''//''
     else if startswith p ''/'' then ''/'' else '''')"

definition relative_parts :: "string \<Rightarrow> string list result" where
  "relative_parts p =
     (if path_root p = '''' then Inr (path_parts p)
      else case path_parts p of
        x # xs \<Rightarrow> if path_root p = ''/'' \<and> x = ''workspace'' then Inr xs
          else Inl (RepositoryError (''Path is outside '' @ container_workspace @ '': '' @ p))
      | [] \<Rightarrow> Inl (RepositoryError (''Path is outside '' @ container_workspace @ '': '' @ p)))"

definition checked_parts :: "string \<Rightarrow> string list result" where
  "checked_parts p =
     (if nul \<in> set p then Inl (RepositoryError ''Path must be a string without NUL bytes'')
      else bind_r (relative_parts p) (\<lambda>parts.
        if ''..'' \<in> set parts then Inl (RepositoryError (''Path cannot contain '' @ [CHR 0x27] @ ''..'' @ [CHR 0x27] @ '': '' @ p))
        else if list_ex (\<lambda>x. casefold x = ''.git'') parts then
          Inl (RepositoryError (''Path cannot reach a .git directory: '' @ p))
        else Inr parts))"

definition normalize :: "string \<Rightarrow> string result" where
  "normalize p = bind_r (checked_parts p) (\<lambda>parts. Inr (join ''/'' parts))"

definition display :: "string \<Rightarrow> string" where
  "display relative = (if relative = '''' then container_workspace else container_workspace @ ''/'' @ relative)"

text \<open>\<open>_parts\<close> and \<open>_file_parts\<close>.\<close>

definition parts_of :: "string \<Rightarrow> string list result" where
  "parts_of p = bind_r (normalize p) (\<lambda>n. Inr (if n = '''' then [] else split_on (CHR ''/'') n))"

definition file_parts :: "string \<Rightarrow> string list result" where
  "file_parts p = bind_r (parts_of p) (\<lambda>parts.
     if parts = [] then Inl (RepositoryError (''Path names the workspace directory, not a file: '' @ p)) else Inr parts)"

section \<open>Entries\<close>

text \<open>What a file holds: UTF-8 text, or other bytes.\<close>

datatype content = Text string | Bytes "nat list"

datatype node = File content nat | Folder "(string \<times> node) list" | Symlink | Special

type_synonym folder = "(string \<times> node) list"

definition content_size :: "content \<Rightarrow> nat" where
  "content_size c = (case c of Text s \<Rightarrow> length (utf8 s) | Bytes bs \<Rightarrow> length bs)"

definition not_regular :: "string \<Rightarrow> node \<Rightarrow> error" where
  "not_regular p n = RepositoryError ((case n of Folder _ \<Rightarrow> ''Path is a directory, not a file: ''
     | Symlink \<Rightarrow> ''Refusing a path through a symlink: '' | _ \<Rightarrow> ''Not a regular file: '') @ p)"

text \<open>
  \<open>_directory\<close> with what runs in the folder it opens.  With \<open>create\<close> missing folders are made on the
  way, and stay when a later step fails.
\<close>

fun in_folder :: "bool \<Rightarrow> string \<Rightarrow> (folder \<Rightarrow> folder \<times> 'a result) \<Rightarrow> string list \<Rightarrow> folder \<Rightarrow> folder \<times> 'a result" where
  "in_folder create p f [] es = f es"
| "in_folder create p f (x # xs) es =
     (let es1 = (if create \<and> map_of es x = None then dict_set x (Folder []) es else es)
      in case map_of es1 x of
           None \<Rightarrow> (es1, Inl (RepositoryError (''Directory does not exist: '' @ p)))
         | Some Symlink \<Rightarrow> (es1, Inl (RepositoryError (''Refusing a path through a symlink: '' @ p)))
         | Some (Folder ch) \<Rightarrow> let (ch', r) = in_folder create p f xs ch in (dict_set x (Folder ch') es1, r)
         | Some _ \<Rightarrow> (es1, Inl (RepositoryError (''Path crosses a non-directory: '' @ p))))"

datatype entry_kind = Is_file | Is_directory

definition path_kind :: "folder \<Rightarrow> string \<Rightarrow> entry_kind option result" where
  "path_kind es p = bind_r (parts_of p) (\<lambda>parts.
     if parts = [] then Inr (Some Is_directory)
     else snd (in_folder False p (\<lambda>ch. (ch, case map_of ch (last parts) of
         None \<Rightarrow> Inr None
       | Some (Folder _) \<Rightarrow> Inr (Some Is_directory)
       | Some (File _ _) \<Rightarrow> Inr (Some Is_file)
       | Some Symlink \<Rightarrow> Inl (RepositoryError (''Refusing a path through a symlink: '' @ p))
       | Some Special \<Rightarrow> Inl (RepositoryError (''Not a regular file or directory: '' @ p)))) (butlast parts) es))"

definition read_bytes :: "folder \<Rightarrow> string \<Rightarrow> content result" where
  "read_bytes es p = bind_r (file_parts p) (\<lambda>parts.
     snd (in_folder False p (\<lambda>ch. (ch, case map_of ch (last parts) of
         None \<Rightarrow> Inl (RepositoryError (''File does not exist: '' @ p))
       | Some (File c _) \<Rightarrow>
         if max_edit_bytes < content_size c then
           Inl (RepositoryError (''File is larger than '' @ nat_text max_edit_bytes @ '' bytes ('' @ nat_text (content_size c)
             @ '' bytes): '' @ p))
         else Inr c
       | Some n \<Rightarrow> Inl (not_regular p n))) (butlast parts) es))"

definition read_text :: "folder \<Rightarrow> string \<Rightarrow> string result" where
  "read_text es p = bind_r (read_bytes es p) (\<lambda>c. case c of
     Text s \<Rightarrow> Inr s | Bytes _ \<Rightarrow> Inl (RepositoryError (''File is not UTF-8 text: '' @ p)))"

definition write_entry :: "string \<Rightarrow> string \<Rightarrow> string \<Rightarrow> folder \<Rightarrow> folder \<times> unit result" where
  "write_entry p name s ch = (case map_of ch name of
     None \<Rightarrow> (dict_set name (File (Text s) 420) ch, Inr ())
   | Some (File _ mode) \<Rightarrow> (dict_set name (File (Text s) mode) ch, Inr ())
   | Some n \<Rightarrow> (ch, Inl (not_regular p n)))"

definition write_text :: "folder \<Rightarrow> string \<Rightarrow> string \<Rightarrow> folder \<times> unit result" where
  "write_text es p s =
     (if max_edit_bytes < length (utf8 s) then
        (es, Inl (RepositoryError (''New content is larger than '' @ nat_text max_edit_bytes @ '' bytes: '' @ p)))
      else case file_parts p of
        Inl e \<Rightarrow> (es, Inl e)
      | Inr parts \<Rightarrow> in_folder True p (write_entry p (last parts) s) (butlast parts) es)"

definition delete_entry :: "string \<Rightarrow> string \<Rightarrow> folder \<Rightarrow> folder \<times> unit result" where
  "delete_entry p name ch = (case map_of ch name of
     None \<Rightarrow> (ch, Inl (RepositoryError (''File does not exist: '' @ p)))
   | Some (File _ _) \<Rightarrow> (filter (\<lambda>e. fst e \<noteq> name) ch, Inr ())
   | Some n \<Rightarrow> (ch, Inl (not_regular p n)))"

definition delete_file :: "folder \<Rightarrow> string \<Rightarrow> folder \<times> unit result" where
  "delete_file es p = (case file_parts p of
     Inl e \<Rightarrow> (es, Inl e)
   | Inr parts \<Rightarrow> in_folder False p (delete_entry p (last parts)) (butlast parts) es)"

text \<open>\<open>_list_entries\<close>: hidden entries are left out, links are listed and never entered.\<close>

fun list_entries :: "nat \<Rightarrow> string \<Rightarrow> folder \<Rightarrow> string list" where
  "list_entries 0 prefix es = []"
| "list_entries (Suc depth) prefix es = concat (map (\<lambda>(name, n).
     let relative = (if prefix = '''' then name else prefix @ ''/'' @ name)
     in if startswith name ''.'' then []
        else case n of Folder ch \<Rightarrow> (relative @ ''/'') # list_entries depth relative ch | _ \<Rightarrow> [relative]) es)"

definition list_directory :: "folder \<Rightarrow> string \<Rightarrow> nat \<Rightarrow> string list result" where
  "list_directory es p depth = bind_r (parts_of p) (\<lambda>parts.
     snd (in_folder False p (\<lambda>ch. (ch, Inr (sort (list_entries (max 1 depth) (join ''/'' parts) ch)))) parts es))"

section \<open>A normalized path stays inside\<close>

definition plain_part :: "string \<Rightarrow> bool" where
  "plain_part x \<longleftrightarrow> x \<noteq> '''' \<and> CHR ''/'' \<notin> set x"

lemma split_on_chars: "x \<in> set (split_on c s) \<Longrightarrow> set x \<subseteq> set s"
proof (induction s arbitrary: x)
  case (Cons a s)
  from Cons.prems consider "x = []" | "x \<in> set (split_on c s)" | y where "y \<in> set (split_on c s)" "x = a # y"
    using split_on_not_Nil [of c s] by (auto split: if_splits list.splits)
  then show ?case using Cons.IH by cases auto
qed simp

lemma set_join: "set (join sep xs) \<subseteq> set sep \<union> (\<Union>x\<in>set xs. set x)"
  by (induction sep xs rule: join.induct) auto

lemma join_start: "plain_part x \<Longrightarrow> \<not> startswith (join ''/'' (x # xs)) ''/''"
  by (cases xs; cases x) (auto simp: plain_part_def)

lemma path_parts_plain: "x \<in> set (path_parts p) \<Longrightarrow> plain_part x \<and> x \<noteq> ''.'' \<and> set x \<subseteq> set p"
  using split_on_pieces split_on_chars by (fastforce simp: path_parts_def plain_part_def)

definition safe_part :: "string \<Rightarrow> bool" where
  "safe_part x \<longleftrightarrow> plain_part x \<and> x \<noteq> ''.'' \<and> x \<noteq> ''..'' \<and> casefold x \<noteq> ''.git'' \<and> nul \<notin> set x"

lemma checked_parts_safe: "checked_parts p = Inr parts \<Longrightarrow> x \<in> set parts \<Longrightarrow> safe_part x"
  using path_parts_plain [of x p]
  by (auto simp: checked_parts_def relative_parts_def safe_part_def bind_r_Inr_iff list_ex_iff split: if_splits list.splits)

lemma parts_joined:
  assumes "\<And>x. x \<in> set xs \<Longrightarrow> safe_part x"
  shows "path_parts (join ''/'' xs) = xs" and "xs \<noteq> [] \<Longrightarrow> split_on (CHR ''/'') (join ''/'' xs) = xs"
    and "join ''/'' xs = '''' \<longleftrightarrow> xs = []" and "\<not> startswith (join ''/'' xs) ''/''" and "nul \<notin> set (join ''/'' xs)"
proof -
  have free: "CHR ''/'' \<notin> set x" "x \<noteq> ''''" "x \<noteq> ''.''" if "x \<in> set xs" for x
    using assms [OF that] by (simp_all add: safe_part_def plain_part_def)
  show s: "split_on (CHR ''/'') (join ''/'' xs) = xs" if "xs \<noteq> []" using that free by (intro split_on_join) auto
  show e: "join ''/'' xs = '''' \<longleftrightarrow> xs = []"
    using free by (cases xs rule: join.cases [of "(''/'', xs)" for xs, simplified]) auto
  show "path_parts (join ''/'' xs) = xs"
  proof (cases "xs = []")
    case False
    with free show ?thesis by (auto simp: path_parts_def s intro!: filter_True)
  qed (simp add: path_parts_def)
  show "\<not> startswith (join ''/'' xs) ''/''"
    using join_start assms by (cases xs) (auto simp: safe_part_def)
  have "nul \<noteq> CHR ''/''" by code_simp
  then show "nul \<notin> set (join ''/'' xs)"
    using set_join [of "''/''" xs] assms by (auto simp: safe_part_def)
qed

lemma checked_again:
  assumes "\<And>x. x \<in> set xs \<Longrightarrow> safe_part x"
  shows "checked_parts (join ''/'' xs) = Inr xs" and "checked_parts (display (join ''/'' xs)) = Inr xs"
proof -
  note j = parts_joined [OF assms]
  have safe: "''..'' \<notin> set xs" "\<not> list_ex (\<lambda>x. casefold x = ''.git'') xs"
    using assms by (auto simp: safe_part_def list_ex_iff)
  have "\<not> startswith (join ''/'' xs) ''//''" "\<not> startswith (join ''/'' xs) ''///''"
    using j(4) by (auto simp: startswith_iff)
  then have "path_root (join ''/'' xs) = ''''" using j(4) by (simp add: path_root_def)
  then show "checked_parts (join ''/'' xs) = Inr xs"
    using j(1,5) safe by (simp add: checked_parts_def relative_parts_def)
  have root: "path_root (display (join ''/'' xs)) = ''/''"
    by (simp add: path_root_def display_def container_workspace_def)
  have parts: "path_parts (display (join ''/'' xs)) = ''workspace'' # xs"
  proof (cases "xs = []")
    case True
    then show ?thesis by (simp add: display_def path_parts_def container_workspace_def)
  next
    case False
    then have "split_on (CHR ''/'') (display (join ''/'' xs)) = '''' # ''workspace'' # split_on (CHR ''/'') (join ''/'' xs)"
      by (simp add: display_def container_workspace_def j(3))
    with j(1) show ?thesis by (simp add: path_parts_def)
  qed
  have "nul \<notin> set (''/workspace/'' @ [])" by code_simp
  then have "nul \<notin> set (display (join ''/'' xs))"
    using j(5) by (auto simp: display_def container_workspace_def)
  with root parts safe show "checked_parts (display (join ''/'' xs)) = Inr xs"
    by (simp add: checked_parts_def relative_parts_def)
qed

lemma normalize_parts:
  assumes "normalize p = Inr n"
  obtains xs where "n = join ''/'' xs" and "\<And>x. x \<in> set xs \<Longrightarrow> safe_part x" and "checked_parts p = Inr xs"
proof -
  from assms obtain xs where xs: "checked_parts p = Inr xs" "n = join ''/'' xs" by (auto simp: normalize_def bind_r_Inr_iff)
  show thesis by (rule that [OF xs(2) checked_parts_safe [OF xs(1)] xs(1)])
qed

lemma parts_of_Inr: "parts_of p = Inr xs \<longleftrightarrow> checked_parts p = Inr xs"
proof -
  have "parts_of p = Inr ys" if "checked_parts p = Inr ys" for ys
    using that parts_joined(2,3) [OF checked_parts_safe [OF that]] by (auto simp: parts_of_def normalize_def)
  then show ?thesis by (cases "checked_parts p") (auto simp: parts_of_def normalize_def)
qed

text \<open>
  C23. A path that normalize accepts is relative, has no component that is .. or reaches .git in
  any case, and no NUL; normalizing it again, as it is or as it is displayed, gives it back.
\<close>

theorem paths_stay_inside:
  assumes "normalize p = Inr n"
  shows "\<not> startswith n ''/'' \<and> parts_of p = Inr (path_parts n)
    \<and> (\<forall>x \<in> set (path_parts n). x \<noteq> ''..'' \<and> casefold x \<noteq> ''.git'' \<and> nul \<notin> set x)
    \<and> normalize n = Inr n \<and> normalize (display n) = Inr n"
proof -
  obtain xs where xs: "n = join ''/'' xs" "\<And>x. x \<in> set xs \<Longrightarrow> safe_part x" "checked_parts p = Inr xs"
    using normalize_parts [OF assms] by metis
  note j = parts_joined [OF xs(2)]
  have "\<forall>x \<in> set (path_parts n). x \<noteq> ''..'' \<and> casefold x \<noteq> ''.git'' \<and> nul \<notin> set x"
    using xs(2) by (auto simp: j(1) xs(1) safe_part_def)
  moreover have "parts_of p = Inr (path_parts n)" using xs(3) by (simp add: parts_of_Inr j(1) xs(1))
  moreover have "normalize n = Inr n" "normalize (display n) = Inr n"
    using checked_again [OF xs(2)] by (simp_all add: normalize_def xs(1))
  ultimately show ?thesis using j(4) xs(1) by simp
qed

lemma paths_stay_inside_witness:
  "normalize ''/workspace//src/./app.py'' = Inr ''src/app.py'' \<and> parts_of ''/workspace//src/./app.py'' = Inr [''src'', ''app.py'']
    \<and> normalize (display ''src/app.py'') = Inr ''src/app.py''"
proof -
  have n: "normalize ''/workspace//src/./app.py'' = Inr ''src/app.py''" by code_simp
  moreover have "path_parts ''src/app.py'' = [''src'', ''app.py'']" by (simp add: path_parts_def)
  ultimately show ?thesis using paths_stay_inside [OF n] by simp
qed

section \<open>A write changes one file\<close>

declare map_of_dict_set [simp]

text \<open>The file at the end of a path of folders.\<close>

fun file_at :: "string list \<Rightarrow> folder \<Rightarrow> (content \<times> nat) option" where
  "file_at [] es = None"
| "file_at (x # xs) es = (case map_of es x of
     Some (Folder ch) \<Rightarrow> file_at xs ch
   | Some (File c mode) \<Rightarrow> if xs = [] then Some (c, mode) else None
   | _ \<Rightarrow> None)"

lemma file_at_empty [simp]: "file_at q [] = None"
  by (cases q) simp_all

lemma file_at_made: "map_of es x = None \<Longrightarrow> file_at q (dict_set x (Folder []) es) = file_at q es"
  by (cases q) auto

lemma in_folder_frame:
  assumes "\<And>ch q. q \<noteq> [name] \<Longrightarrow> file_at q (fst (f ch)) = file_at q ch"
    and "in_folder create p f xs es = (es', r)" and "q \<noteq> xs @ [name]"
  shows "file_at q es' = file_at q es"
  using assms(2,3)
proof (induction xs arbitrary: es es' r q)
  case Nil
  then show ?case using assms(1) [of q es] by simp
next
  case (Cons x xs)
  define es1 where "es1 = (if create \<and> map_of es x = None then dict_set x (Folder []) es else es)"
  have es1: "file_at q es1 = file_at q es" using file_at_made by (auto simp: es1_def)
  show ?case
  proof (cases "\<exists>ch. map_of es1 x = Some (Folder ch)")
    case True
    then obtain ch where ch: "map_of es1 x = Some (Folder ch)" by blast
    obtain ch' r' where rec: "in_folder create p f xs ch = (ch', r')" by (metis surj_pair)
    with Cons.prems(1) ch have "es' = dict_set x (Folder ch') es1" by (simp add: es1_def [symmetric] Let_def)
    moreover have "file_at q (dict_set x (Folder ch') es1) = file_at q es1"
    proof (cases q)
      case (Cons y ys)
      with Cons.IH [OF rec, of ys] \<open>q \<noteq> (x # xs) @ [name]\<close> ch show ?thesis by auto
    qed simp
    ultimately show ?thesis using es1 by simp
  next
    case False
    with Cons.prems(1) have "es' = es1"
      by (auto simp: es1_def [symmetric] Let_def split: option.splits node.splits)
    with es1 show ?thesis by simp
  qed
qed

lemma in_folder_error:
  assumes "\<And>ch ch' e. f ch = (ch', Inl e) \<Longrightarrow> ch' = ch" and "in_folder create p f xs es = (es', Inl e)"
  shows "file_at q es' = file_at q es"
  using assms(2)
proof (induction xs arbitrary: es es' q)
  case Nil
  then show ?case using assms(1) [of es es' e] by simp
next
  case (Cons x xs)
  define es1 where "es1 = (if create \<and> map_of es x = None then dict_set x (Folder []) es else es)"
  have es1: "file_at q es1 = file_at q es" using file_at_made by (auto simp: es1_def)
  show ?case
  proof (cases "\<exists>ch. map_of es1 x = Some (Folder ch)")
    case True
    then obtain ch where ch: "map_of es1 x = Some (Folder ch)" by blast
    obtain ch' r' where rec: "in_folder create p f xs ch = (ch', r')" by (metis surj_pair)
    with Cons.prems(1) ch have es': "es' = dict_set x (Folder ch') es1" "r' = Inl e" by (simp_all add: es1_def [symmetric] Let_def)
    moreover have "file_at q (dict_set x (Folder ch') es1) = file_at q es1"
    proof (cases q)
      case (Cons y ys)
      with Cons.IH [OF rec [unfolded es'(2)], of ys] ch show ?thesis by auto
    qed simp
    ultimately show ?thesis using es1 by simp
  next
    case False
    with Cons.prems(1) have "es' = es1"
      by (auto simp: es1_def [symmetric] Let_def split: option.splits node.splits)
    with es1 show ?thesis by simp
  qed
qed

text \<open>A later access of the same folder meets what the first one left there.\<close>

lemma in_folder_again:
  assumes "in_folder create p f xs es = (es', Inr u)"
  obtains ch ch' where "f ch = (ch', Inr u)" and "in_folder False p' g xs es' = (fst (in_folder False p' g xs es'), snd (g ch'))"
  using assms
proof (induction xs arbitrary: es es' thesis)
  case Nil
  then show ?case by simp
next
  case (Cons x xs)
  define es1 where "es1 = (if create \<and> map_of es x = None then dict_set x (Folder []) es else es)"
  have "\<exists>ch. map_of es1 x = Some (Folder ch)"
    using Cons.prems(2) by (auto simp: es1_def [symmetric] Let_def split: option.splits node.splits)
  then obtain ch where ch: "map_of es1 x = Some (Folder ch)" by blast
  obtain ch' r' where rec: "in_folder create p f xs ch = (ch', r')" by (metis surj_pair)
  with Cons.prems(2) ch have es': "es' = dict_set x (Folder ch') es1" "r' = Inr u" by (simp_all add: es1_def [symmetric] Let_def)
  show ?case
  proof (rule Cons.IH [OF _ rec [unfolded es'(2)]])
    fix c c' assume "f c = (c', Inr u)" "in_folder False p' g xs ch' = (fst (in_folder False p' g xs ch'), snd (g c'))"
    then show thesis
      by (intro Cons.prems(1)) (auto simp: es'(1) Let_def split: prod.splits)
  qed
qed

lemma write_entry_frame: "q \<noteq> [name] \<Longrightarrow> file_at q (fst (write_entry p name s ch)) = file_at q ch"
  by (cases q) (auto simp: write_entry_def split: option.splits node.splits)

lemma write_entry_error: "write_entry p name s ch = (ch', Inl e) \<Longrightarrow> ch' = ch"
  by (auto simp: write_entry_def split: option.splits node.splits)

lemma write_entry_done: "write_entry p name s ch = (ch', Inr u) \<Longrightarrow> \<exists>mode. map_of ch' name = Some (File (Text s) mode)"
  by (auto simp: write_entry_def split: option.splits node.splits)

lemma file_parts_Inr: "file_parts p = Inr xs \<longleftrightarrow> parts_of p = Inr xs \<and> xs \<noteq> []"
  by (auto simp: file_parts_def bind_r_Inr_iff)

lemma write_text_frame:
  assumes "write_text es p s = (es', res)" and "parts_of p \<noteq> Inr q \<or> (\<exists>e. res = Inl e)"
  shows "file_at q es' = file_at q es"
proof (cases "max_edit_bytes < length (utf8 s) \<or> (\<exists>e. file_parts p = Inl e)")
  case True
  with assms(1) show ?thesis by (auto simp: write_text_def split: if_splits)
next
  case False
  then obtain xs where xs: "file_parts p = Inr xs" by (cases "file_parts p") auto
  with assms(1) False have w: "in_folder True p (write_entry p (last xs) s) (butlast xs) es = (es', res)" by (simp add: write_text_def)
  show ?thesis
  proof (cases res)
    case (Inl e)
    show ?thesis by (rule in_folder_error [OF write_entry_error w [unfolded Inl]])
  next
    case (Inr u)
    with assms(2) xs have "q \<noteq> butlast xs @ [last xs]" by (auto simp: file_parts_Inr)
    show ?thesis by (rule in_folder_frame [where f = "write_entry p (last xs) s", OF _ w \<open>q \<noteq> butlast xs @ [last xs]\<close>]) (rule write_entry_frame)
  qed
qed

lemma write_text_read:
  assumes "write_text es p s = (es', Inr u)"
  shows "read_text es' p = Inr s"
proof -
  from assms obtain xs where xs: "file_parts p = Inr xs" and size: "\<not> max_edit_bytes < length (utf8 s)"
    and w: "in_folder True p (write_entry p (last xs) s) (butlast xs) es = (es', Inr u)"
    by (auto simp: write_text_def split: if_splits sum.splits)
  show ?thesis
    using w
  proof (rule in_folder_again [where p' = p and g = "\<lambda>ch. (ch, case map_of ch (last xs) of
         None \<Rightarrow> Inl (RepositoryError (''File does not exist: '' @ p))
       | Some (File c _) \<Rightarrow>
         if max_edit_bytes < content_size c then
           Inl (RepositoryError (''File is larger than '' @ nat_text max_edit_bytes @ '' bytes ('' @ nat_text (content_size c)
             @ '' bytes): '' @ p))
         else Inr c
       | Some n \<Rightarrow> Inl (not_regular p n))"], goal_cases)
    case (1 ch ch')
    from write_entry_done [OF 1(1)] obtain mode where m: "map_of ch' (last xs) = Some (File (Text s) mode)" by blast
    have "read_bytes es' p = Inr (Text s)"
      unfolding read_bytes_def xs bind_r.simps by (subst 1(2)) (use m size in \<open>simp add: content_size_def\<close>)
    then show ?case by (simp add: read_text_def)
  qed
qed

text \<open>
  C24. A write that succeeds is read back as the text written and leaves every file at another
  path as it was; a write that fails leaves every file.
\<close>

theorem write_changes_one_file:
  assumes "write_text es p s = (es', res)"
  shows "(case res of Inl _ \<Rightarrow> True | Inr _ \<Rightarrow> read_text es' p = Inr s)
    \<and> (\<forall>q. parts_of p \<noteq> Inr q \<or> (\<exists>e. res = Inl e) \<longrightarrow> file_at q es' = file_at q es)"
  using write_text_frame [OF assms] write_text_read assms by (cases res) auto

lemma write_changes_one_file_witness:
  "write_text [(''keep'', File (Text ''k'') 420)] ''src/a.py'' ''x''
      = ([(''keep'', File (Text ''k'') 420), (''src'', Folder [(''a.py'', File (Text ''x'') 420)])], Inr ())
    \<and> read_text [(''keep'', File (Text ''k'') 420), (''src'', Folder [(''a.py'', File (Text ''x'') 420)])] ''src/a.py'' = Inr ''x''"
proof -
  have w: "write_text [(''keep'', File (Text ''k'') 420)] ''src/a.py'' ''x''
      = ([(''keep'', File (Text ''k'') 420), (''src'', Folder [(''a.py'', File (Text ''x'') 420)])], Inr ())"
  proof -
    have "file_parts ''src/a.py'' = Inr [''src'', ''a.py'']" by code_simp
    then show ?thesis by (simp add: write_text_def max_edit_bytes_def utf8_def write_entry_def)
  qed
  from write_changes_one_file [OF w] w show ?thesis by simp
qed

text \<open>A deletion, likewise.\<close>

lemma map_of_filter [simp]: "map_of (filter (\<lambda>e. fst e \<noteq> name) ch) y = (if y = name then None else map_of ch y)"
  by (induction ch) auto

text \<open>Only the file itself goes: what is deleted is no folder.\<close>

lemma delete_entry_frame: "q \<noteq> [name] \<Longrightarrow> file_at q (fst (delete_entry p name ch)) = file_at q ch"
proof (cases "\<exists>c mode. map_of ch name = Some (File c mode)")
  case True
  assume "q \<noteq> [name]"
  with True show ?thesis by (cases q) (auto simp: delete_entry_def)
next
  case False
  then show ?thesis by (simp add: delete_entry_def split: option.splits node.splits)
qed

lemma delete_entry_error: "delete_entry p name ch = (ch', Inl e) \<Longrightarrow> ch' = ch"
  by (auto simp: delete_entry_def split: option.splits node.splits)

lemma delete_file_frame:
  assumes "delete_file es p = (es', res)" and "parts_of p \<noteq> Inr q \<or> (\<exists>e. res = Inl e)"
  shows "file_at q es' = file_at q es"
proof (cases "file_parts p")
  case (Inl e)
  with assms(1) show ?thesis by (simp add: delete_file_def)
next
  case xs: (Inr xs)
  with assms(1) have w: "in_folder False p (delete_entry p (last xs)) (butlast xs) es = (es', res)" by (simp add: delete_file_def)
  show ?thesis
  proof (cases res)
    case (Inl e)
    show ?thesis by (rule in_folder_error [OF delete_entry_error w [unfolded Inl]])
  next
    case (Inr u)
    with assms(2) xs have "q \<noteq> butlast xs @ [last xs]" by (auto simp: file_parts_Inr)
    show ?thesis by (rule in_folder_frame [where f = "delete_entry p (last xs)", OF _ w \<open>q \<noteq> butlast xs @ [last xs]\<close>]) (rule delete_entry_frame)
  qed
qed

end
