(* ===== verification/ApplyDiff.thy ===== *)
theory ApplyDiff
  imports PyText
begin

text \<open>
  \<open>apply_diff.py\<close>: the V4A diffs of the OpenAI edit tool, parsed line by line into chunks of deleted and
  inserted lines, which are located in the file by their context.  An index of the parser is a
  natural number, a match that is not found is \<open>None\<close>.
\<close>

section \<open>Lines\<close>

definition end_patch :: string where
  "end_patch = ''*** End Patch''"

definition end_file :: string where
  "end_file = ''*** End of File''"

definition section_terminators :: "string list" where
  "section_terminators = [end_patch, ''*** Update File:'', ''*** Delete File:'', ''*** Add File:'']"

definition end_section_markers :: "string list" where
  "end_section_markers = section_terminators @ [end_file]"

text \<open>Splitting at \<open>\r?\n\<close> and stripping the carriage returns at the ends leaves what splitting at \<open>\n\<close> and stripping does.\<close>

definition normalize_diff_lines :: "string \<Rightarrow> string list" where
  "normalize_diff_lines diff =
     (let lines = map (rstrip_char carriage_return) (split_on newline diff)
      in if last lines = '''' then butlast lines else lines)"

definition crlf :: string where
  "crlf = [carriage_return, newline]"

definition detect_newline_from_text :: "string \<Rightarrow> string" where
  "detect_newline_from_text s = (if contains s crlf then crlf else [newline])"

datatype diff_mode = Update_mode | Create_mode

definition detect_newline :: "string \<Rightarrow> string \<Rightarrow> diff_mode \<Rightarrow> string" where
  "detect_newline input diff mode =
     (if mode \<noteq> Create_mode \<and> newline \<in> set input then detect_newline_from_text input else detect_newline_from_text diff)"

fun normalize_text_newlines :: "string \<Rightarrow> string" where
  "normalize_text_newlines (c # d # s) =
     (if c = carriage_return \<and> d = newline then newline # normalize_text_newlines s
      else c # normalize_text_newlines (d # s))"
| "normalize_text_newlines s = s"

definition starts_any :: "string list \<Rightarrow> string \<Rightarrow> bool" where
  "starts_any prefixes line \<longleftrightarrow> list_ex (startswith line) prefixes"

definition is_done :: "string list \<Rightarrow> nat \<Rightarrow> string list \<Rightarrow> bool" where
  "is_done lines index prefixes \<longleftrightarrow> length lines \<le> index \<or> starts_any prefixes (lines ! index)"

section \<open>New files\<close>

fun parse_create_lines :: "string list \<Rightarrow> string list result" where
  "parse_create_lines [] = Inr []"
| "parse_create_lines (line # lines) =
     (if starts_any section_terminators line then Inr []
      else if \<not> startswith line ''+'' then Inl (ValueError (''Invalid Add File Line: '' @ line))
      else bind_r (parse_create_lines lines) (\<lambda>rest. Inr (tl line # rest)))"

definition parse_create_diff :: "string list \<Rightarrow> string \<Rightarrow> string result" where
  "parse_create_diff lines nl = bind_r (parse_create_lines (lines @ [end_patch])) (\<lambda>out. Inr (join nl out))"

section \<open>Anchors\<close>

function read_anchors :: "string list \<Rightarrow> nat \<Rightarrow> nat \<times> string list \<times> nat" where
  "read_anchors lines index =
     (if index < length lines \<and> startswith (lines ! index) ''@@ '' then
        let anchor = drop 3 (lines ! index); (index', anchors, count) = read_anchors lines (index + 1)
        in (index', (if strip anchor \<noteq> '''' then anchor # anchors else anchors), count + 1)
      else if index < length lines \<and> lines ! index = ''@@'' then
        let (index', anchors, count) = read_anchors lines (index + 1) in (index', anchors, count + 1)
      else (index, [], 0))"
  by pat_completeness auto
termination by (relation "measure (\<lambda>(lines, index). length lines - index)") auto

declare read_anchors.simps [simp del]

text \<open>The first index from \<open>start\<close> on with a property.\<close>

definition find_from :: "(nat \<Rightarrow> bool) \<Rightarrow> nat \<Rightarrow> nat \<Rightarrow> nat option" where
  "find_from p start stop = find p [start..<stop]"

definition advance_cursor :: "string list \<Rightarrow> bool \<Rightarrow> bool \<Rightarrow> string \<Rightarrow> nat \<times> nat \<Rightarrow> (nat \<times> nat) result" where
  "advance_cursor input_lines require_match force_forward anchor = (\<lambda>(cursor, fuzz).
     if \<not> force_forward \<and> list_ex (\<lambda>line. line = anchor) (take cursor input_lines) then Inr (cursor, fuzz)
     else (case find_from (\<lambda>i. input_lines ! i = anchor) cursor (length input_lines) of
         Some i \<Rightarrow> Inr (i + 1, fuzz)
       | None \<Rightarrow>
         if \<not> force_forward \<and> list_ex (\<lambda>line. strip line = strip anchor) (take cursor input_lines) then Inr (cursor, fuzz)
         else (case find_from (\<lambda>i. strip (input_lines ! i) = strip anchor) cursor (length input_lines) of
             Some i \<Rightarrow> Inr (i + 1, fuzz + 1)
           | None \<Rightarrow> if require_match then Inl (ValueError (''Invalid Anchor '' @ nat_text cursor @ '':'' @ [newline] @ anchor))
               else Inr (cursor, fuzz))))"

fun advance_all :: "string list \<Rightarrow> bool \<Rightarrow> bool \<Rightarrow> string list \<Rightarrow> nat \<times> nat \<Rightarrow> (nat \<times> nat) result" where
  "advance_all input_lines require_match force_forward [] s = Inr s"
| "advance_all input_lines require_match force_forward (a # as) s =
     bind_r (advance_cursor input_lines require_match force_forward a s) (advance_all input_lines require_match True as)"

section \<open>Sections\<close>

record chunk =
  orig_index :: nat
  del_lines :: "string list"
  ins_lines :: "string list"

datatype line_mode = Keep | Add | Delete

text \<open>The state of \<open>_read_section\<close>'s loop.\<close>

record sectioning =
  sec_index :: nat
  sec_context :: "string list"
  sec_del :: "string list"
  sec_ins :: "string list"
  sec_chunks :: "chunk list"
  sec_mode :: line_mode

definition section_stops :: "string \<Rightarrow> bool" where
  "section_stops raw \<longleftrightarrow> startswith raw ''@@'' \<or> starts_any end_section_markers raw \<or> raw = ''***''"

definition flush_chunk :: "sectioning \<Rightarrow> sectioning" where
  "flush_chunk s = (if sec_del s \<noteq> [] \<or> sec_ins s \<noteq> [] then
     s\<lparr>sec_chunks := sec_chunks s @ [\<lparr>orig_index = length (sec_context s) - length (sec_del s), del_lines = sec_del s,
         ins_lines = sec_ins s\<rparr>], sec_del := [], sec_ins := []\<rparr>
     else s)"

definition line_kind :: "string \<Rightarrow> line_mode result" where
  "line_kind line = (if startswith line ''+'' then Inr Add else if startswith line ''-'' then Inr Delete
     else if startswith line '' '' then Inr Keep else Inl (ValueError (''Invalid Line: '' @ line)))"

definition section_line :: "string \<Rightarrow> sectioning \<Rightarrow> sectioning result" where
  "section_line raw s =
     (if startswith raw ''***'' then Inl (ValueError (''Invalid Line: '' @ raw))
      else
        let line = (if raw = '''' then '' '' else raw)
        in bind_r (line_kind line) (\<lambda>mode.
           let s1 = (if mode = Keep \<and> sec_mode s \<noteq> Keep then flush_chunk s else s);
               s2 = s1\<lparr>sec_index := sec_index s + 1, sec_mode := mode\<rparr>;
               body = tl line
           in Inr (case mode of
                Delete \<Rightarrow> s2\<lparr>sec_del := sec_del s2 @ [body], sec_context := sec_context s2 @ [body]\<rparr>
              | Add \<Rightarrow> s2\<lparr>sec_ins := sec_ins s2 @ [body]\<rparr>
              | Keep \<Rightarrow> s2\<lparr>sec_context := sec_context s2 @ [body]\<rparr>)))"

fun section_lines :: "string list \<Rightarrow> sectioning \<Rightarrow> sectioning result" where
  "section_lines [] s = Inr s"
| "section_lines (raw # rest) s = (if section_stops raw then Inr s else bind_r (section_line raw s) (section_lines rest))"

record section_result =
  next_context :: "string list"
  section_chunks :: "chunk list"
  end_index :: nat
  at_eof :: bool

definition read_section :: "string list \<Rightarrow> nat \<Rightarrow> section_result result" where
  "read_section lines start =
     bind_r (section_lines (drop start lines) \<lparr>sec_index = start, sec_context = [], sec_del = [], sec_ins = [],
         sec_chunks = [], sec_mode = Keep\<rparr>) (\<lambda>s0.
     let s = flush_chunk s0; index = sec_index s in
     if index < length lines \<and> lines ! index = end_file then
       Inr \<lparr>next_context = sec_context s, section_chunks = sec_chunks s, end_index = index + 1, at_eof = True\<rparr>
     else if index = start then
       Inl (ValueError (''Nothing in this section - index='' @ nat_text index @ '' '' @ (if index < length lines then lines ! index else '''')))
     else Inr \<lparr>next_context = sec_context s, section_chunks = sec_chunks s, end_index = index, at_eof = False\<rparr>)"

section \<open>Finding a section's context\<close>

definition equals_slice :: "(string \<Rightarrow> string) \<Rightarrow> string list \<Rightarrow> string list \<Rightarrow> nat \<Rightarrow> bool" where
  "equals_slice f source target start \<longleftrightarrow> start + length target \<le> length source
     \<and> map f (take (length target) (drop start source)) = map f target"

definition find_context_core :: "string list \<Rightarrow> string list \<Rightarrow> nat \<Rightarrow> nat option \<times> nat" where
  "find_context_core lines ctx start =
     (if ctx = [] then (Some start, 0)
      else case find_from (equals_slice (\<lambda>x. x) lines ctx) start (length lines) of
        Some i \<Rightarrow> (Some i, 0)
      | None \<Rightarrow> (case find_from (equals_slice rstrip lines ctx) start (length lines) of
          Some i \<Rightarrow> (Some i, 1)
        | None \<Rightarrow> (case find_from (equals_slice strip lines ctx) start (length lines) of
            Some i \<Rightarrow> (Some i, 100)
          | None \<Rightarrow> (None, 0))))"

definition eof_search_lines :: "string list \<Rightarrow> string list" where
  "eof_search_lines lines = (if lines \<noteq> [] \<and> last lines = '''' then butlast lines else lines)"

definition find_context :: "string list \<Rightarrow> string list \<Rightarrow> nat \<Rightarrow> bool \<Rightarrow> nat option \<times> nat" where
  "find_context lines ctx start eof =
     (if eof then
        let search = eof_search_lines lines;
            found = find_context_core search ctx (length search - length ctx)
        in if fst found \<noteq> None then found
           else let (i, fuzz) = find_context_core search ctx (min start (length search)) in (i, fuzz + 10000)
      else find_context_core lines ctx start)"

section \<open>Updates\<close>

record parsing =
  pr_index :: nat
  pr_fuzz :: nat
  pr_cursor :: nat
  pr_chunks :: "chunk list"

text \<open>One pass of \<open>_parse_update_diff\<close>'s loop: a section, with its anchors and its place in the file.\<close>

definition shifted :: "nat \<Rightarrow> chunk \<Rightarrow> chunk" where
  "shifted n c = c\<lparr>orig_index := orig_index c + n\<rparr>"

definition update_section :: "string list \<Rightarrow> string list \<Rightarrow> parsing \<Rightarrow> parsing result" where
  "update_section lines input_lines s =
     (let (index, anchors, count) = read_anchors lines (pr_index s) in
      if \<not> (0 < count \<or> pr_cursor s = 0) then
        Inl (ValueError (''Invalid Line:'' @ [newline] @ (if index < length lines then lines ! index else '''')))
      else
        bind_r (advance_all input_lines (1 < count) False anchors (pr_cursor s, pr_fuzz s)) (\<lambda>(cursor, fuzz).
        bind_r (read_section lines index) (\<lambda>sec.
        case find_context input_lines (next_context sec) cursor (at_eof sec) of
          (None, _) \<Rightarrow> Inl (ValueError ((if at_eof sec then ''Invalid EOF Context '' else ''Invalid Context '')
            @ nat_text cursor @ '':'' @ [newline] @ join [newline] (next_context sec)))
        | (Some at_line, extra) \<Rightarrow> Inr \<lparr>pr_index = end_index sec, pr_fuzz = fuzz + extra,
            pr_cursor = at_line + length (next_context sec),
            pr_chunks = pr_chunks s @ map (shifted at_line) (section_chunks sec)\<rparr>)))"

text \<open>Every pass consumes a line, so the loop ends.\<close>

lemma section_lines_index: "section_lines rest s = Inr s' \<Longrightarrow> sec_index s \<le> sec_index s'"
  by (induction rest arbitrary: s)
     (fastforce simp: section_line_def flush_chunk_def Let_def bind_r_Inr_iff split: if_splits line_mode.splits)+

lemma flush_index [simp]: "sec_index (flush_chunk s) = sec_index s"
  by (simp add: flush_chunk_def)

lemma read_section_advances: "read_section lines start = Inr sec \<Longrightarrow> start < end_index sec"
  using section_lines_index
  by (fastforce simp: read_section_def Let_def bind_r_Inr_iff split: if_splits)

lemma read_anchors_advances: "fst (read_anchors lines index) \<ge> index"
proof (induction lines index rule: read_anchors.induct)
  case (1 lines index)
  then show ?case by (subst read_anchors.simps) (auto simp: Let_def split: prod.splits)
qed

lemma update_section_cases:
  assumes "update_section lines input_lines s = Inr s'"
  obtains index anchors count cursor fuzz sec at_line extra
  where "read_anchors lines (pr_index s) = (index, anchors, count)"
    and "advance_all input_lines (1 < count) False anchors (pr_cursor s, pr_fuzz s) = Inr (cursor, fuzz)"
    and "read_section lines index = Inr sec" and "find_context input_lines (next_context sec) cursor (at_eof sec) = (Some at_line, extra)"
    and "s' = \<lparr>pr_index = end_index sec, pr_fuzz = fuzz + extra, pr_cursor = at_line + length (next_context sec),
          pr_chunks = pr_chunks s @ map (shifted at_line) (section_chunks sec)\<rparr>"
proof -
  obtain index anchors count where a: "read_anchors lines (pr_index s) = (index, anchors, count)" by (metis surj_pair)
  with assms obtain cursor fuzz where c: "advance_all input_lines (1 < count) False anchors (pr_cursor s, pr_fuzz s) = Inr (cursor, fuzz)"
    by (auto simp: update_section_def bind_r_Inr_iff split: if_splits)
  with assms a obtain sec where sec: "read_section lines index = Inr sec"
    by (auto simp: update_section_def bind_r_Inr_iff split: if_splits)
  obtain i extra where f: "find_context input_lines (next_context sec) cursor (at_eof sec) = (i, extra)" by (metis surj_pair)
  show thesis
  proof (cases i)
    case None
    with assms a c sec f show thesis by (simp add: update_section_def split: if_splits)
  next
    case (Some at_line)
    with assms a c sec f show thesis by (intro that [OF a c sec]) (auto simp: update_section_def split: if_splits)
  qed
qed

lemma update_section_advances: "update_section lines input_lines s = Inr s' \<Longrightarrow> pr_index s < pr_index s'"
  using read_anchors_advances [of "pr_index s" lines] read_section_advances
  by (elim update_section_cases) fastforce

function parse_sections :: "string list \<Rightarrow> string list \<Rightarrow> parsing \<Rightarrow> parsing result" where
  "parse_sections lines input_lines s =
     (if is_done lines (pr_index s) end_section_markers then Inr s
      else case update_section lines input_lines s of Inl e \<Rightarrow> Inl e | Inr s' \<Rightarrow> parse_sections lines input_lines s')"
  by pat_completeness auto
termination
  by (relation "measure (\<lambda>(lines, _, s). length lines - pr_index s)")
     (auto simp: is_done_def dest!: update_section_advances)

declare parse_sections.simps [simp del]

definition parse_update_diff :: "string list \<Rightarrow> string \<Rightarrow> parsing result" where
  "parse_update_diff lines input = parse_sections (lines @ [end_patch]) (split_on newline input)
     \<lparr>pr_index = 0, pr_fuzz = 0, pr_cursor = 0, pr_chunks = []\<rparr>"

section \<open>Applying chunks\<close>

fun place_chunks :: "string list \<Rightarrow> nat \<Rightarrow> chunk list \<Rightarrow> string list result" where
  "place_chunks orig cursor [] = Inr (drop cursor orig)"
| "place_chunks orig cursor (c # cs) =
     (if length orig < orig_index c then
        Inl (ValueError (''applyDiff: chunk.origIndex '' @ nat_text (orig_index c) @ '' > input length '' @ nat_text (length orig)))
      else if orig_index c < cursor then
        Inl (ValueError (''applyDiff: overlapping chunk at '' @ nat_text (orig_index c) @ '' (cursor '' @ nat_text cursor @ '')''))
      else bind_r (place_chunks orig (orig_index c + length (del_lines c)) cs) (\<lambda>rest.
        Inr (take (orig_index c - cursor) (drop cursor orig) @ ins_lines c @ rest)))"

definition apply_chunks :: "string \<Rightarrow> chunk list \<Rightarrow> string \<Rightarrow> string result" where
  "apply_chunks input chunks nl = bind_r (place_chunks (split_on newline input) 0 chunks) (\<lambda>dest. Inr (join nl dest))"

definition apply_diff :: "string \<Rightarrow> string \<Rightarrow> diff_mode \<Rightarrow> string result" where
  "apply_diff input diff mode =
     (let nl = detect_newline input diff mode; lines = normalize_diff_lines diff in
      if mode = Create_mode then parse_create_diff lines nl
      else
        let normalized = normalize_text_newlines input
        in bind_r (parse_update_diff lines normalized) (\<lambda>s. apply_chunks normalized (pr_chunks s) nl))"

section \<open>What an update deletes\<close>

text \<open>Two texts that differ in white space around them only.\<close>

lemma rstrip_append_space: "(\<And>x. x \<in> set w \<Longrightarrow> is_space x) \<Longrightarrow> rstrip (s @ w) = rstrip s"
  using dropWhile_append2 [of "rev w" is_space "rev s"] by (simp add: rstrip_def)

lemma rstrip_split: obtains w where "s = rstrip s @ w" and "\<And>x. x \<in> set w \<Longrightarrow> is_space x"
proof
  show "s = rstrip s @ rev (takeWhile is_space (rev s))"
    unfolding rstrip_def by (metis rev_append rev_rev_ident takeWhile_dropWhile_id)
  show "is_space x" if "x \<in> set (rev (takeWhile is_space (rev s)))" for x using that by (auto dest: set_takeWhileD)
qed

lemma strip_rstrip: "strip (rstrip s) = strip s"
proof -
  obtain w where w: "s = rstrip s @ w" "\<And>x. x \<in> set w \<Longrightarrow> is_space x" using rstrip_split [of s] by metis
  show ?thesis
  proof (cases "\<exists>x \<in> set (rstrip s). \<not> is_space x")
    case True
    then have "dropWhile is_space s = dropWhile is_space (rstrip s) @ w"
      using w(1) by (metis dropWhile_append1)
    then show ?thesis using w(2) by (simp add: strip_def rstrip_append_space)
  next
    case False
    then have "\<forall>x \<in> set s. is_space x" using w by (metis Un_iff set_append)
    then have "dropWhile is_space s = []" by simp
    moreover have "dropWhile is_space (rstrip s) = []" using False by simp
    ultimately show ?thesis unfolding strip_def by (simp only:)
  qed
qed

lemma slice_strip:
  assumes "equals_slice (\<lambda>x. x) lines ctx i \<or> equals_slice rstrip lines ctx i \<or> equals_slice strip lines ctx i"
  shows "equals_slice strip lines ctx i"
proof -
  have "map strip xs = map strip ys" if "map rstrip xs = map rstrip ys" for xs ys
  proof -
    have "map strip (map rstrip xs) = map strip (map rstrip ys)" using that by simp
    then show ?thesis by (simp add: comp_def strip_rstrip)
  qed
  with assms show ?thesis unfolding equals_slice_def by (metis list.map_ident)
qed

lemma find_from_Some: "find_from p start stop = Some i \<Longrightarrow> p i \<and> start \<le> i \<and> i < stop"
  by (auto simp: find_from_def find_Some_iff)

lemma find_core_slice:
  assumes "find_context_core lines ctx start = (Some i, x)" and "ctx \<noteq> []"
  shows "equals_slice strip lines ctx i \<and> start \<le> i"
  using assms by (auto simp: find_context_core_def split: option.splits dest!: find_from_Some intro: slice_strip)

lemma eof_slice: "equals_slice f (eof_search_lines lines) ctx i \<Longrightarrow> equals_slice f lines ctx i"
  by (auto simp: equals_slice_def eof_search_lines_def butlast_conv_take drop_take min_def split: if_splits)

lemma find_context_slice:
  assumes "find_context lines ctx start eof = (Some i, x)" and "ctx \<noteq> []"
  shows "equals_slice strip lines ctx i"
  using assms
  by (auto simp: find_context_def Let_def split: if_splits prod.splits dest: find_core_slice eof_slice)

text \<open>
  What the lines of a hunk say: the lines of the file they stand for, without the added ones, and the lines
  they remove and add.
\<close>

definition is_body :: "string \<Rightarrow> bool" where
  "is_body l \<longleftrightarrow> l = [] \<or> startswith l '' '' \<or> startswith l ''-'' \<or> startswith l ''+''"

definition is_change :: "string \<Rightarrow> bool" where
  "is_change l \<longleftrightarrow> startswith l ''-'' \<or> startswith l ''+''"

definition old_side :: "string list \<Rightarrow> string list" where
  "old_side ls = map tl (filter (\<lambda>l. \<not> startswith l ''+'') ls)"

definition removed_lines :: "string list \<Rightarrow> string list" where
  "removed_lines ls = map tl (filter (\<lambda>l. startswith l ''-'') ls)"

definition added_lines :: "string list \<Rightarrow> string list" where
  "added_lines ls = map tl (filter (\<lambda>l. startswith l ''+'') ls)"

text \<open>A chunk is a run of changed lines of a hunk, at its place among the lines of the file.\<close>

definition change_of :: "string list \<Rightarrow> nat \<Rightarrow> chunk \<Rightarrow> bool" where
  "change_of h pos c \<longleftrightarrow> (\<exists>pre run post. h = pre @ run @ post \<and> list_all is_change run
     \<and> orig_index c = pos + length (old_side pre) \<and> del_lines c = removed_lines run \<and> ins_lines c = added_lines run)"

lemma side_simps [simp]:
  "old_side [] = []" "removed_lines [] = []" "added_lines [] = []" "old_side (xs @ ys) = old_side xs @ old_side ys"
  "removed_lines (xs @ ys) = removed_lines xs @ removed_lines ys" "added_lines (xs @ ys) = added_lines xs @ added_lines ys"
  by (simp_all add: old_side_def removed_lines_def added_lines_def)

lemma starts_first: "startswith l [c] \<longleftrightarrow> (\<exists>r. l = c # r)"
  by (auto simp: startswith_iff)

lemma changes_old: "list_all is_change run \<Longrightarrow> old_side run = removed_lines run"
  by (induction run) (auto simp: old_side_def removed_lines_def is_change_def starts_first)

lemma change_of_append: "change_of h pos c \<Longrightarrow> change_of (h @ h') pos c"
  unfolding change_of_def by (metis append.assoc)

lemma change_of_shifted: "change_of h 0 c \<Longrightarrow> change_of h n (shifted n c)"
  by (auto simp: change_of_def shifted_def add.commute)

text \<open>The run of changes that a section is in.\<close>

definition open_run :: "string list \<Rightarrow> string list \<Rightarrow> string list \<Rightarrow> bool" where
  "open_run h ds ns \<longleftrightarrow> (\<exists>pre run. h = pre @ run \<and> list_all is_change run \<and> ds = removed_lines run \<and> ns = added_lines run)"

lemma open_run_empty: "open_run h [] []"
  unfolding open_run_def by (intro exI [of _ h] exI [of _ "[]"]) simp

lemma open_run_more:
  "open_run h ds ns \<Longrightarrow> is_change l \<Longrightarrow> open_run (h @ [l]) (ds @ removed_lines [l]) (ns @ added_lines [l])"
  unfolding open_run_def by (elim exE conjE, rule_tac x = pre in exI, rule_tac x = "run @ [l]" in exI) simp

lemma open_run_change:
  assumes "open_run h ds ns"
  shows "change_of h 0 \<lparr>orig_index = length (old_side h) - length ds, del_lines = ds, ins_lines = ns\<rparr>"
proof -
  from assms obtain pre run where r: "h = pre @ run" "list_all is_change run" "ds = removed_lines run" "ns = added_lines run"
    unfolding open_run_def by blast
  show ?thesis
    unfolding change_of_def
    by (intro exI [of _ pre] exI [of _ run] exI [of _ "[]"]) (simp add: r changes_old [OF r(2)])
qed

text \<open>The loop of a section has read the lines \<open>h\<close>.\<close>

definition section_reads :: "string list \<Rightarrow> sectioning \<Rightarrow> bool" where
  "section_reads h s \<longleftrightarrow> sec_context s = old_side h \<and> list_all is_body h
     \<and> concat (map del_lines (sec_chunks s)) @ sec_del s = removed_lines h
     \<and> concat (map ins_lines (sec_chunks s)) @ sec_ins s = added_lines h
     \<and> (\<forall>c\<in>set (sec_chunks s). change_of h 0 c)
     \<and> open_run h (sec_del s) (sec_ins s) \<and> (sec_mode s = Keep \<longrightarrow> sec_del s = [] \<and> sec_ins s = [])"

lemma flush_reads:
  assumes "section_reads h s"
  shows "section_reads h (flush_chunk s) \<and> sec_del (flush_chunk s) = [] \<and> sec_ins (flush_chunk s) = []"
proof -
  have "open_run h (sec_del s) (sec_ins s)" using assms by (simp add: section_reads_def)
  from open_run_change [OF this] show ?thesis
    using assms open_run_empty [of h] by (auto simp: section_reads_def flush_chunk_def)
qed

lemma section_line_reads:
  assumes "section_line raw s = Inr s'" and "section_reads h s"
  shows "section_reads (h @ [raw]) s' \<and> sec_index s' = sec_index s + 1"
proof -
  obtain mode where mode: "line_kind (if raw = [] then '' '' else raw) = Inr mode"
    using assms(1) by (auto simp: section_line_def Let_def bind_r_Inr_iff split: if_splits)
  define s1 where "s1 = (if mode = Keep \<and> sec_mode s \<noteq> Keep then flush_chunk s else s)"
  have s1: "section_reads h s1" "mode = Keep \<Longrightarrow> sec_del s1 = [] \<and> sec_ins s1 = []"
    using assms(2) flush_reads [OF assms(2)] by (auto simp: s1_def section_reads_def)
  have s': "s' = (let s2 = s1\<lparr>sec_index := sec_index s + 1, sec_mode := mode\<rparr> in case mode of
      Delete \<Rightarrow> s2\<lparr>sec_del := sec_del s2 @ [tl raw], sec_context := sec_context s2 @ [tl raw]\<rparr>
    | Add \<Rightarrow> s2\<lparr>sec_ins := sec_ins s2 @ [tl raw]\<rparr>
    | Keep \<Rightarrow> s2\<lparr>sec_context := sec_context s2 @ [tl raw]\<rparr>)"
    using assms(1) mode by (cases mode; cases raw) (simp_all add: section_line_def s1_def Let_def split: if_splits)
  have kind: "mode = Add \<longleftrightarrow> startswith raw ''+''" "mode = Delete \<longleftrightarrow> startswith raw ''-''" "is_body raw"
    using mode by (cases raw; auto simp: line_kind_def is_body_def starts_first split: if_splits)+
  have sides: "old_side [raw] = (if mode = Add then [] else [tl raw])" "removed_lines [raw] = (if mode = Delete then [tl raw] else [])"
    "added_lines [raw] = (if mode = Add then [tl raw] else [])"
    using kind(1,2) by (simp_all add: old_side_def removed_lines_def added_lines_def)
  have "open_run h (sec_del s1) (sec_ins s1)" using s1(1) by (simp add: section_reads_def)
  from open_run_more [OF this, of raw] kind(1,2) have runs: "open_run (h @ [raw]) (sec_del s') (sec_ins s')"
    using s1(2) open_run_empty [of "h @ [raw]"] sides(2,3) by (cases mode) (simp_all add: s' Let_def is_change_def)
  have chunks: "sec_chunks s' = sec_chunks s1" by (cases mode) (simp_all add: s' Let_def)
  have "section_reads (h @ [raw]) s'"
    unfolding section_reads_def chunks using s1 runs sides kind(3)
    by (cases mode) (auto simp: section_reads_def s' Let_def change_of_append)
  then show ?thesis by (cases mode) (simp_all add: s' Let_def)
qed

lemma section_lines_reads:
  "section_lines rest s = Inr s' \<Longrightarrow> section_reads h s \<Longrightarrow>
     \<exists>h' later. rest = h' @ later \<and> section_reads (h @ h') s' \<and> sec_index s' = sec_index s + length h'"
proof (induction rest arbitrary: s h)
  case (Cons raw rest)
  show ?case
  proof (cases "section_stops raw")
    case True
    with Cons.prems show ?thesis by (intro exI [of _ "[]"] exI [of _ "raw # rest"]) simp
  next
    case False
    with Cons.prems obtain s1 where s1: "section_line raw s = Inr s1" "section_lines rest s1 = Inr s'"
      by (auto simp: bind_r_Inr_iff)
    from section_line_reads [OF s1(1) Cons.prems(2)] Cons.IH [OF s1(2)] obtain h' later where
      "rest = h' @ later" "section_reads ((h @ [raw]) @ h') s'" "sec_index s' = sec_index s + 1 + length h'" by metis
    then show ?thesis by (intro exI [of _ "raw # h'"] exI [of _ later]) simp
  qed
qed simp

text \<open>A section is a hunk, which an end-of-file marker may close.\<close>

lemma read_section_reads:
  assumes "read_section lines start = Inr sec" and "start \<le> length lines"
  obtains h eof where "take (end_index sec) lines = take start lines @ h @ eof" and "list_all is_body h" and "set eof \<subseteq> {end_file}"
    and "next_context sec = old_side h" and "\<forall>c\<in>set (section_chunks sec). change_of h 0 c"
    and "concat (map del_lines (section_chunks sec)) = removed_lines h" and "concat (map ins_lines (section_chunks sec)) = added_lines h"
    and "end_index sec \<le> length lines"
proof -
  define s0 where "s0 = \<lparr>sec_index = start, sec_context = [], sec_del = [], sec_ins = [], sec_chunks = [], sec_mode = Keep\<rparr>"
  obtain s where s: "section_lines (drop start lines) s0 = Inr s"
    and sec: "next_context sec = sec_context (flush_chunk s)" "section_chunks sec = sec_chunks (flush_chunk s)"
    and e: "end_index sec = sec_index s + 1 \<and> sec_index s < length lines \<and> lines ! sec_index s = end_file \<or> end_index sec = sec_index s"
    using assms(1) by (auto simp: read_section_def s0_def bind_r_Inr_iff Let_def split: if_splits)
  have "section_reads [] s0" by (simp add: section_reads_def s0_def open_run_empty)
  from section_lines_reads [OF s this] obtain h later where h: "drop start lines = h @ later" "section_reads h s"
    "sec_index s = start + length h" by (auto simp: s0_def)
  have len: "start + length h \<le> length lines" using assms(2) arg_cong [OF h(1), of length] by simp
  have t: "take (sec_index s) lines = take start lines @ h"
    using assms(2) by (simp add: h(3) take_add h(1))
  have f: "section_reads h (flush_chunk s)" "sec_del (flush_chunk s) = []" "sec_ins (flush_chunk s) = []"
    using flush_reads [OF h(2)] by blast+
  from e show thesis
  proof
    assume "end_index sec = sec_index s + 1 \<and> sec_index s < length lines \<and> lines ! sec_index s = end_file"
    then show thesis
      by (intro that [of h "[end_file]"]) (use f sec t in \<open>auto simp: section_reads_def take_Suc_conv_app_nth\<close>)
  next
    assume "end_index sec = sec_index s"
    then show thesis by (intro that [of h "[]"]) (use f sec t len h(3) in \<open>auto simp: section_reads_def\<close>)
  qed
qed

lemma read_anchors_reads:
  "read_anchors lines i = (i', anchors, n) \<Longrightarrow> i \<le> length lines \<Longrightarrow>
     i' \<le> length lines \<and> (\<exists>hs. take i' lines = take i lines @ hs \<and> list_all (\<lambda>l. startswith l ''@@'') hs)"
proof (induction lines i arbitrary: anchors n rule: read_anchors.induct)
  case (1 lines i)
  show ?case
  proof (cases "i < length lines \<and> (startswith (lines ! i) ''@@ '' \<or> lines ! i = ''@@'')")
    case True
    then have at: "startswith (lines ! i) ''@@''" by (auto simp: startswith_iff)
    from True 1(3) obtain as' n' where r: "read_anchors lines (i + 1) = (i', as', n')"
      by (auto simp: read_anchors.simps [of lines i] Let_def split: prod.splits if_splits)
    have "i' \<le> length lines \<and> (\<exists>hs. take i' lines = take (i + 1) lines @ hs \<and> list_all (\<lambda>l. startswith l ''@@'') hs)"
    proof (cases "startswith (lines ! i) ''@@ ''")
      case anchor: True
      show ?thesis by (rule 1(1) [OF _ _ r]) (use True anchor in auto)
    next
      case False
      show ?thesis by (rule 1(2) [OF _ _ r]) (use True False in auto)
    qed
    then obtain hs where hs: "i' \<le> length lines" "take i' lines = take (i + 1) lines @ hs" "list_all (\<lambda>l. startswith l ''@@'') hs" by blast
    with True at show ?thesis
      by (intro conjI exI [of _ "lines ! i # hs"]) (simp_all add: take_Suc_conv_app_nth)
  next
    case False
    with 1(3,4) show ?thesis
      by (auto simp: read_anchors.simps [of lines i] split: if_splits)
  qed
qed

lemma other_lines:
  "list_all (\<lambda>l. startswith l ''@@'') hs \<Longrightarrow> removed_lines hs = [] \<and> added_lines hs = [] \<and> filter is_body hs = []"
  "set hs \<subseteq> {end_file} \<Longrightarrow> removed_lines hs = [] \<and> added_lines hs = [] \<and> filter is_body hs = []"
  by (induction hs) (auto simp: removed_lines_def added_lines_def is_body_def startswith_iff end_file_def)

text \<open>A hunk is placed where the file has its lines, up to white space around them.\<close>

definition placed :: "string list \<Rightarrow> nat \<times> string list \<Rightarrow> bool" where
  "placed file p \<longleftrightarrow> (case p of (pos, h) \<Rightarrow>
     map strip (take (length (old_side h)) (drop pos file)) = map strip (old_side h))"

text \<open>
  The lines \<open>read\<close> of a diff as hunks with their places and as chunks: every line is one of a hunk, a header or an
  end-of-file marker, every hunk has its place, every chunk is a run of changed lines of a hunk, and
  together the chunks delete and insert exactly the removed and the added lines.
\<close>

definition parsed_as :: "string list \<Rightarrow> string list \<Rightarrow> (nat \<times> string list) list \<Rightarrow> chunk list \<Rightarrow> bool" where
  "parsed_as file read hunks cs \<longleftrightarrow> concat (map snd hunks) = filter is_body read
     \<and> (\<forall>l\<in>set read. is_body l \<or> startswith l ''@@'' \<or> l = end_file) \<and> (\<forall>p\<in>set hunks. placed file p)
     \<and> (\<forall>c\<in>set cs. \<exists>(pos, h)\<in>set hunks. change_of h pos c)
     \<and> concat (map del_lines cs) = removed_lines read \<and> concat (map ins_lines cs) = added_lines read"

lemma update_section_parses:
  assumes "update_section lines file s = Inr s'" and "parsed_as file (take (pr_index s) lines) hunks (pr_chunks s)"
    and "pr_index s \<le> length lines"
  shows "pr_index s' \<le> length lines \<and> (\<exists>hunks'. parsed_as file (take (pr_index s') lines) hunks' (pr_chunks s'))"
  using assms(1)
proof (cases rule: update_section_cases)
  case (1 index anchors count cursor fuzz sec at_line extra)
  from read_anchors_reads [OF 1(1) assms(3)] obtain hs where hs: "index \<le> length lines"
    "take index lines = take (pr_index s) lines @ hs" "list_all (\<lambda>l. startswith l ''@@'') hs" by blast
  from read_section_reads [OF 1(3) hs(1)] obtain h eof where h: "take (end_index sec) lines = take index lines @ h @ eof"
    "list_all is_body h" "set eof \<subseteq> {end_file}" "next_context sec = old_side h" "\<forall>c\<in>set (section_chunks sec). change_of h 0 c"
    "concat (map del_lines (section_chunks sec)) = removed_lines h" "concat (map ins_lines (section_chunks sec)) = added_lines h"
    "end_index sec \<le> length lines" by blast
  have "equals_slice strip file (old_side h) at_line" if "old_side h \<noteq> []"
    by (rule find_context_slice [OF 1(4) [unfolded h(4)] that])
  then have p: "placed file (at_line, h)" by (cases "old_side h = []") (auto simp: placed_def equals_slice_def)
  have b: "filter is_body h = h" using h(2) by (simp add: list_all_iff)
  have m: "map del_lines (map (shifted n) cs) = map del_lines cs" "map ins_lines (map (shifted n) cs) = map ins_lines cs" for n cs
    by (simp_all add: shifted_def)
  have new: "\<forall>c\<in>set (map (shifted at_line) (section_chunks sec)). change_of h at_line c"
    using h(5) change_of_shifted by auto
  have "parsed_as file (take (pr_index s') lines) (hunks @ [(at_line, h)]) (pr_chunks s')"
    using assms(2) p b h(2,3) hs(3) other_lines(1) [OF hs(3)] other_lines(2) [OF h(3)] new
    unfolding parsed_as_def 1(5) parsing.simps h(1) hs(2) map_append m concat_append h(6,7) side_simps filter_append
    by (auto simp: list_all_iff)
  with h(8) 1(5) show ?thesis by auto
qed

lemma parse_sections_parses:
  "parse_sections lines old s = Inr s' \<Longrightarrow> parsed_as old (take (pr_index s) lines) hunks (pr_chunks s) \<Longrightarrow> pr_index s \<le> length lines \<Longrightarrow>
     pr_index s' \<le> length lines \<and> is_done lines (pr_index s') end_section_markers
     \<and> (\<exists>hunks'. parsed_as old (take (pr_index s') lines) hunks' (pr_chunks s'))"
proof (induction lines old s arbitrary: hunks rule: parse_sections.induct)
  case (1 lines old s)
  show ?case
  proof (cases "is_done lines (pr_index s) end_section_markers")
    case True
    with 1(2-4) show ?thesis by (auto simp: parse_sections.simps [of lines old s])
  next
    case False
    with 1(2) obtain s1 where s1: "update_section lines old s = Inr s1" "parse_sections lines old s1 = Inr s'"
      by (auto simp: parse_sections.simps [of lines old s] split: sum.splits)
    from update_section_parses [OF s1(1) 1(3,4)] 1(1) [OF False s1(1) s1(2)] show ?thesis by blast
  qed
qed

text \<open>
  The file with runs of its lines replaced: each chunk at its index, deleting the lines it names up to white
  space around them; every other line is kept.
\<close>

inductive patched :: "nat \<Rightarrow> string list \<Rightarrow> chunk list \<Rightarrow> string list \<Rightarrow> bool" where
  patched_end: "patched n rest [] rest"
| patched_next: "orig_index c = n + length keep \<Longrightarrow> map strip gone = map strip (del_lines c) \<Longrightarrow>
    patched (orig_index c + length gone) rest cs new \<Longrightarrow> patched n (keep @ gone @ rest) (c # cs) (keep @ ins_lines c @ new)"

lemma change_of_placed:
  assumes "placed file (pos, h)" and "change_of h pos c"
  shows "map strip (take (length (del_lines c)) (drop (orig_index c) file)) = map strip (del_lines c)"
proof -
  from assms(2) obtain pre run post where r: "h = pre @ run @ post" "list_all is_change run"
    "orig_index c = pos + length (old_side pre)" "del_lines c = removed_lines run" unfolding change_of_def by blast
  let ?k = "length (old_side pre)" and ?d = "length (removed_lines run)"
  have "take ?d (drop ?k (map strip (take (length (old_side h)) (drop pos file)))) = take ?d (drop ?k (map strip (old_side h)))"
    using assms(1) by (simp add: placed_def)
  then show ?thesis
    by (simp add: r changes_old [OF r(2)] take_map drop_map drop_take min_def add.commute)
qed

lemma place_chunks_patched:
  "place_chunks old cursor cs = Inr new \<Longrightarrow>
     \<forall>c\<in>set cs. map strip (take (length (del_lines c)) (drop (orig_index c) old)) = map strip (del_lines c) \<Longrightarrow>
     patched cursor (drop cursor old) cs new"
proof (induction old cursor cs arbitrary: new rule: place_chunks.induct)
  case (1 old cursor)
  then show ?case by (auto intro: patched_end)
next
  case (2 old cursor c cs)
  let ?o = "orig_index c" and ?n = "length (del_lines c)"
  let ?keep = "take (?o - cursor) (drop cursor old)" and ?gone = "take ?n (drop ?o old)"
  from 2(2) obtain rest where o: "?o \<le> length old" "cursor \<le> ?o" and rest: "place_chunks old (?o + ?n) cs = Inr rest"
    and new: "new = ?keep @ ins_lines c @ rest"
    by (auto simp: bind_r_Inr_iff split: if_splits)
  have g: "map strip ?gone = map strip (del_lines c)" using 2(3) by simp
  from arg_cong [OF this, of length] have len: "length ?gone = ?n" by simp
  have IH: "patched (?o + length ?gone) (drop (?o + ?n) old) cs rest"
    using 2(1) [OF _ _ rest] o 2(3) unfolding len by auto
  have "drop cursor old = ?keep @ ?gone @ drop (?o + ?n) old"
    using o by (metis append_take_drop_id drop_drop le_add_diff_inverse2 add.commute)
  moreover have "?o = cursor + length ?keep" using o by simp
  ultimately show ?case using patched_next [OF _ g IH, of cursor ?keep] by (simp only: new)
qed

text \<open>
  C25. An update diff that applies is followed as written. Its lines are read up to its end or a
  section marker, and each is an anchor, an end-of-file mark or a line of a hunk, none left out;
  every hunk is placed where the file has the old lines of the hunk up to surrounding white
  space; exactly the lines the diff removes are deleted there, up to white space, and exactly
  the lines it adds are inserted, in the order of the diff; every other line is kept, and the
  result has the line endings of the input.
\<close>

theorem diff_deletes_named_lines:
  assumes "apply_diff input diff Update_mode = Inr out"
  shows "\<exists>k hunks cs new. k \<le> length (normalize_diff_lines diff)
    \<and> (k = length (normalize_diff_lines diff) \<or> starts_any end_section_markers (normalize_diff_lines diff ! k))
    \<and> parsed_as (split_on newline (normalize_text_newlines input)) (take k (normalize_diff_lines diff)) hunks cs
    \<and> patched 0 (split_on newline (normalize_text_newlines input)) cs new
    \<and> out = join (detect_newline input diff Update_mode) new"
proof -
  let ?file = "split_on newline (normalize_text_newlines input)" and ?lines = "normalize_diff_lines diff"
  from assms obtain s new where s: "parse_sections (?lines @ [end_patch]) ?file
      \<lparr>pr_index = 0, pr_fuzz = 0, pr_cursor = 0, pr_chunks = []\<rparr> = Inr s"
    and new: "place_chunks ?file 0 (pr_chunks s) = Inr new" and out: "out = join (detect_newline input diff Update_mode) new"
    by (auto simp: apply_diff_def apply_chunks_def parse_update_diff_def bind_r_Inr_iff Let_def)
  let ?k = "pr_index s"
  have "parsed_as ?file [] [] []" by (simp add: parsed_as_def)
  with parse_sections_parses [OF s, of "[]"] obtain hunks where k: "?k \<le> Suc (length ?lines)"
    "is_done (?lines @ [end_patch]) ?k end_section_markers" and p: "parsed_as ?file (take ?k (?lines @ [end_patch])) hunks (pr_chunks s)"
    by auto
  have "\<not> is_body end_patch" "\<not> startswith end_patch ''@@''" "end_patch \<noteq> end_file" by code_simp+
  then have "end_patch \<notin> set (take ?k (?lines @ [end_patch]))" using p by (auto simp: parsed_as_def)
  with k(1) have l: "?k \<le> length ?lines" by (cases "?k = Suc (length ?lines)") auto
  then have stop: "?k = length ?lines \<or> starts_any end_section_markers (?lines ! ?k)"
    using k(2) by (cases "?k = length ?lines") (simp_all add: is_done_def nth_append)
  have "\<forall>c\<in>set (pr_chunks s). map strip (take (length (del_lines c)) (drop (orig_index c) ?file)) = map strip (del_lines c)"
    using p change_of_placed unfolding parsed_as_def by blast
  then have "patched 0 ?file (pr_chunks s) new" using place_chunks_patched [OF new] by simp
  with l stop p out show ?thesis by auto
qed

section \<open>New files\<close>

lemma rstrip_char_id: "c \<notin> set s \<Longrightarrow> rstrip_char c s = s"
  by (cases s rule: rev_cases) (auto simp: rstrip_char_def)

lemma starts_plus: "\<not> starts_any section_terminators (CHR ''+'' # l)" "starts_any section_terminators end_patch"
  by (simp_all add: starts_any_def section_terminators_def end_patch_def)

lemma parse_create_added: "parse_create_lines (map (\<lambda>l. CHR ''+'' # l) lines @ [end_patch]) = Inr lines"
  by (induction lines) (simp_all add: starts_plus)

lemma contains_chars: "contains s p \<Longrightarrow> set p \<subseteq> set s"
proof (induction s p rule: contains.induct)
  case (2 c s p)
  then consider r where "c # s = p @ r" | "set p \<subseteq> set s" by (auto simp: startswith_iff)
  then show ?case
  proof cases
    case (1 r)
    then show ?thesis by (metis set_append Un_upper1)
  qed auto
qed simp

lemma join_free: "c \<notin> set sep \<Longrightarrow> (\<And>x. x \<in> set xs \<Longrightarrow> c \<notin> set x) \<Longrightarrow> c \<notin> set (join sep xs)"
  by (induction sep xs rule: join.induct) auto

text \<open>
  A file sent as added lines is created with exactly these lines.
\<close>

theorem new_file_roundtrip:
  assumes "lines \<noteq> []" and "\<forall>l \<in> set lines. newline \<notin> set l \<and> carriage_return \<notin> set l"
  shows "apply_diff '''' (join [newline] (map (\<lambda>l. CHR ''+'' # l) lines)) Create_mode = Inr (join [newline] lines)"
proof -
  let ?added = "map (\<lambda>l. CHR ''+'' # l) lines"
  have chars: "newline \<noteq> CHR ''+''" "carriage_return \<noteq> CHR ''+''" "carriage_return \<noteq> newline" by code_simp+
  have free: "newline \<notin> set l \<and> carriage_return \<notin> set l" if "l \<in> set ?added" for l
    using that assms(2) chars by auto
  have "split_on newline (join [newline] ?added) = ?added"
    using assms(1) free by (intro split_on_join) auto
  moreover have "map (rstrip_char carriage_return) ?added = ?added"
    using free by (intro map_idI rstrip_char_id) blast
  moreover have "last ?added \<noteq> ''''" using assms(1) by (simp add: last_map)
  ultimately have lines: "normalize_diff_lines (join [newline] ?added) = ?added" by (simp only: normalize_diff_lines_def Let_def if_False)
  have "carriage_return \<notin> set (join [newline] ?added)"
    using free chars(3) by (intro join_free) auto
  then have "\<not> contains (join [newline] ?added) crlf"
    using contains_chars by (fastforce simp: crlf_def)
  then have "detect_newline '''' (join [newline] ?added) Create_mode = [newline]"
    by (simp add: detect_newline_def detect_newline_from_text_def)
  with lines show ?thesis by (simp add: apply_diff_def parse_create_diff_def parse_create_added)
qed

lemma new_file_roundtrip_witness:
  "apply_diff '''' (''+import os'' @ [newline] @ ''+print(os)'') Create_mode = Inr (''import os'' @ [newline] @ ''print(os)'')"
proof -
  have "\<forall>l \<in> set [''import os'', ''print(os)'']. newline \<notin> set l \<and> carriage_return \<notin> set l" by code_simp
  from new_file_roundtrip [OF _ this] show ?thesis by simp
qed

lemma diff_deletes_named_lines_witness:
  "\<exists>k hunks cs new. parsed_as [''a'', ''b'', ''c''] (take k ['' a'', ''-b'', ''+x'']) hunks cs \<and> patched 0 [''a'', ''b'', ''c''] cs new
    \<and> ''a'' @ [newline] @ ''x'' @ [newline] @ ''c'' = join [newline] new \<and> k = 3"
proof -
  let ?input = "''a'' @ [newline] @ ''b'' @ [newline] @ ''c''" and ?diff = "'' a'' @ [newline] @ ''-b'' @ [newline] @ ''+x''"
  have r: "apply_diff ?input ?diff Update_mode = Inr (''a'' @ [newline] @ ''x'' @ [newline] @ ''c'')" by code_simp
  have e: "detect_newline ?input ?diff Update_mode = [newline]" "normalize_diff_lines ?diff = ['' a'', ''-b'', ''+x'']"
    "split_on newline (normalize_text_newlines ?input) = [''a'', ''b'', ''c'']" by code_simp+
  have m: "\<not> starts_any end_section_markers ([[CHR '' '', CHR ''a''], ''-b'', ''+x''] ! k)" if "k < 3" for k
    using that by (auto simp: less_Suc_eq numeral_3_eq_3 starts_any_def end_section_markers_def section_terminators_def end_patch_def end_file_def)
  have l: "length (['' a'', ''-b'', ''+x'']) = 3" by simp
  from diff_deletes_named_lines [OF r] obtain k hunks cs new where k: "k \<le> 3" "k = 3 \<or> starts_any end_section_markers (['' a'', ''-b'', ''+x''] ! k)"
    and rest: "parsed_as [''a'', ''b'', ''c''] (take k ['' a'', ''-b'', ''+x'']) hunks cs" "patched 0 [''a'', ''b'', ''c''] cs new"
    "''a'' @ [newline] @ ''x'' @ [newline] @ ''c'' = join [newline] new"
    unfolding e l by blast
  from k m have "k = 3" by (metis le_neq_implies_less)
  with rest show ?thesis by blast
qed

end
