(* ===== verification/EditTools.thy ===== *)
theory EditTools
  imports Workspace ApplyDiff
begin

text \<open>
  \<open>edit_tools.py\<close>: the edit calls of both providers, run on the host against the agent's workspace.  A
  problem is a failed result, never an exception.  The validation of a call's arguments, which is
  pydantic's, is a parameter: it gives the operation or the text of the error.
\<close>

section \<open>Calls and results\<close>

datatype patch_operation = Create_file string string | Update_file string string | Delete_file string

datatype editor_call = View_call string "int list option" | Create_call string string
  | Replace_call string string string | Insert_call string int string

record edit_result =
  edit_completed :: bool
  edit_output :: string
  edit_changed :: "string option"
  edit_invalid :: bool

definition failed_edit :: "string \<Rightarrow> edit_result" where
  "failed_edit message = \<lparr>edit_completed = False, edit_output = ''Error: '' @ message, edit_changed = None, edit_invalid = False\<rparr>"

definition invalid_edit :: "string \<Rightarrow> edit_result" where
  "invalid_edit message = \<lparr>edit_completed = False, edit_output = ''Error: '' @ message, edit_changed = None, edit_invalid = True\<rparr>"

definition completed_edit :: "string \<Rightarrow> string option \<Rightarrow> edit_result" where
  "completed_edit s changed = \<lparr>edit_completed = True, edit_output = s, edit_changed = changed, edit_invalid = False\<rparr>"

text \<open>\<open>str(exc)\<close> of the errors that these operations raise.\<close>

fun error_message :: "error \<Rightarrow> string" where
  "error_message (RepositoryError s) = s"
| "error_message (ValueError s) = s"
| "error_message (StateError s) = s"
| "error_message (PolicyError s) = s"
| "error_message (BudgetExhaustedError s _) = s"
| "error_message (ConfigurationError s) = s"
| "error_message (ModelError s) = s"
| "error_message (SandboxError s) = s"
| "error_message (ManifestArtifactSyncError s) = s"
| "error_message (IntegrityError s) = s"
| "error_message IndexError = ''list index out of range''"
| "error_message OverflowError = ''date value out of range''"

definition redaction_marker :: string where
  "redaction_marker = ''[REDACTED:''"

definition redaction_message :: "string \<Rightarrow> string" where
  "redaction_message name = ''Refusing `'' @ name @ ''` that contains a redaction marker ('' @ redaction_marker @ ''...]). ''
     @ ''That text was removed from your view of the file; edit around it with a smaller ''
     @ ''replacement instead of rewriting it.''"

section \<open>Patches\<close>

fun operation_path :: "patch_operation \<Rightarrow> string" where
  "operation_path (Create_file p _) = p"
| "operation_path (Update_file p _) = p"
| "operation_path (Delete_file p) = p"

fun operation_diff :: "patch_operation \<Rightarrow> string option" where
  "operation_diff (Create_file _ d) = Some d"
| "operation_diff (Update_file _ d) = Some d"
| "operation_diff (Delete_file _) = None"

definition terminated_text :: "string \<Rightarrow> string" where
  "terminated_text s = (if s \<noteq> '''' \<and> \<not> endswith s [newline] then s @ (if contains s crlf then crlf else [newline]) else s)"

text \<open>The body of \<open>apply_patch_operation\<close>'s \<open>try\<close>: an error becomes a failed result.\<close>

definition patch_file :: "folder \<Rightarrow> string \<Rightarrow> patch_operation \<Rightarrow> folder \<times> edit_result result" where
  "patch_file es p oper = (case oper of
     Delete_file _ \<Rightarrow> (let (es', r) = delete_file es p
       in (es', bind_r r (\<lambda>_. Inr (completed_edit (''Deleted '' @ display p) (Some p)))))
   | Create_file _ diff \<Rightarrow> (case apply_diff '''' diff Create_mode of
       Inl e \<Rightarrow> (es, Inl e)
     | Inr s \<Rightarrow> let (es', r) = write_text es p (terminated_text s)
       in (es', bind_r r (\<lambda>_. Inr (completed_edit (''Created '' @ display p) (Some p)))))
   | Update_file _ diff \<Rightarrow> (case path_kind es p of
       Inl e \<Rightarrow> (es, Inl e)
     | Inr None \<Rightarrow> (es, Inr (failed_edit (''File does not exist: '' @ display p @ ''; use create_file for a new file'')))
     | Inr (Some _) \<Rightarrow> (case bind_r (read_text es p) (\<lambda>old. apply_diff old diff Update_mode) of
         Inl e \<Rightarrow> (es, Inl e)
       | Inr s \<Rightarrow> let (es', r) = write_text es p s
         in (es', bind_r r (\<lambda>_. Inr (completed_edit (''Updated '' @ display p) (Some p)))))))"

definition apply_patch_operation :: "('args \<Rightarrow> string + patch_operation) \<Rightarrow> folder \<Rightarrow> 'args \<Rightarrow> folder \<times> edit_result" where
  "apply_patch_operation validate es args = (case validate args of
     Inl problem \<Rightarrow> (es, invalid_edit (''Invalid apply_patch operation: '' @ problem))
   | Inr oper \<Rightarrow>
     if (case operation_diff oper of None \<Rightarrow> False | Some d \<Rightarrow> contains d redaction_marker) then
       (es, failed_edit (redaction_message ''diff''))
     else (case normalize (operation_path oper) of
         Inl e \<Rightarrow> (es, failed_edit (error_message e))
       | Inr p \<Rightarrow> (case patch_file es p oper of
           (es', Inl e) \<Rightarrow> (es', failed_edit (error_message e))
         | (es', Inr r) \<Rightarrow> (es', r))))"

section \<open>The text editor\<close>

definition text_lines :: "string \<Rightarrow> string list" where
  "text_lines s = (let lines = split_on newline s in if last lines = '''' then butlast lines else lines)"

definition right_aligned :: "nat \<Rightarrow> string \<Rightarrow> string" where
  "right_aligned width s = replicate (width - length s) CHR '' '' @ s"

definition without_return :: "string \<Rightarrow> string" where
  "without_return s = (if endswith s [carriage_return] then butlast s else s)"

definition tab :: char where
  "tab = char_of (9 :: nat)"

definition numbered :: "string list \<Rightarrow> nat \<Rightarrow> string" where
  "numbered lines first = concat (map (\<lambda>(n, line). right_aligned 6 (nat_text n) @ [tab] @ without_return line @ [newline])
     (enumerate first lines))"

definition limited :: "string \<Rightarrow> int option \<Rightarrow> string" where
  "limited s max_characters = (case max_characters of
     None \<Rightarrow> s
   | Some n \<Rightarrow> if int (length s) \<le> n then s
     else take (nat n) s @ [newline] @ ''[Output truncated at '' @ int_text n @ '' characters; view a smaller `view_range`.]'' @ [newline])"

definition int_list_text :: "int list \<Rightarrow> string" where
  "int_list_text xs = ''['' @ join '', '' (map int_text xs) @ '']''"

text \<open>The lines \<open>view_range\<close> asks for, of a file of \<open>n\<close> lines.\<close>

definition view_lines :: "nat \<Rightarrow> int list option \<Rightarrow> string + (nat \<times> nat)" where
  "view_lines n view_range = (case view_range of
     None \<Rightarrow> Inr (1, n)
   | Some r \<Rightarrow> (case r of
       [first, asked] \<Rightarrow>
         if \<not> (1 \<le> first \<and> first \<le> max (int n) 1) then
           Inl (''Invalid `view_range` '' @ int_list_text r @ '': its first element must be within [1, '' @ nat_text n @ '']'')
         else if asked = -1 then Inr (nat first, n)
         else if \<not> (first \<le> asked \<and> asked \<le> int n) then
           Inl (''Invalid `view_range` '' @ int_list_text r @ '': its second element must be -1 or within ['' @ int_text first
             @ '', '' @ nat_text n @ '']'')
         else Inr (nat first, nat asked)
     | _ \<Rightarrow> Inl ''Invalid `view_range`: it must be a list of two integers''))"

definition view_text :: "string \<Rightarrow> string \<Rightarrow> int list option \<Rightarrow> int option \<Rightarrow> edit_result" where
  "view_text shown s view_range max_characters =
     (let lines = text_lines s in case view_lines (length lines) view_range of
        Inl problem \<Rightarrow> failed_edit problem
      | Inr (first, final) \<Rightarrow> completed_edit (limited (''Here's the result of running `cat -n` on '' @ shown @ '':'' @ [newline]
          @ numbered (take (final - (first - 1)) (drop (first - 1) lines)) first) max_characters) None)"

definition view_path :: "folder \<Rightarrow> string \<Rightarrow> int list option \<Rightarrow> int option \<Rightarrow> edit_result result" where
  "view_path es p view_range max_characters =
     bind_r (path_kind es p) (\<lambda>kind.
     if kind = Some Is_directory then
       if view_range \<noteq> None then
         Inr (failed_edit ''The `view_range` parameter is not allowed when `path` is a directory'')
       else bind_r (list_directory es p 2) (\<lambda>entries. Inr (completed_edit (limited
           (''Here are the files and directories up to 2 levels deep in '' @ display p @ '', excluding hidden items:'' @ [newline]
             @ join [newline] (map display entries) @ [newline]) max_characters) None))
     else bind_r (read_bytes es p) (\<lambda>c. Inr (case c of
         Bytes bs \<Rightarrow> failed_edit (display p @ '' is a binary or non-UTF-8 file ('' @ nat_text (length bs) @ '' bytes)'')
       | Text s \<Rightarrow> view_text (display p) s view_range max_characters)))"

text \<open>\<open>str.count\<close>, which skips the text it has counted, and \<open>str.index\<close>.\<close>

function count_text :: "string \<Rightarrow> string \<Rightarrow> nat" where
  "count_text p s = (if s = [] then 0
     else if p \<noteq> [] \<and> startswith s p then 1 + count_text p (drop (length p) s)
     else count_text p (tl s))"
  by pat_completeness auto
termination by (relation "measure (\<lambda>(p, s). length s)") auto

declare count_text.simps [simp del]

fun index_text :: "string \<Rightarrow> string \<Rightarrow> nat option" where
  "index_text p [] = (if p = [] then Some 0 else None)"
| "index_text p (c # s) = (if startswith (c # s) p then Some 0 else map_option Suc (index_text p s))"

definition to_crlf :: "string \<Rightarrow> string" where
  "to_crlf s = concat (map (\<lambda>c. if c = newline then crlf else [c]) (normalize_text_newlines s))"

definition edited_text :: "string \<Rightarrow> string \<Rightarrow> int \<Rightarrow> int \<Rightarrow> string \<Rightarrow> edit_result" where
  "edited_text shown updated first_line line_count p =
     (let lines = text_lines updated;
          start = max (first_line - 4) 1;
          final = min (first_line + line_count - 1 + 4) (int (length lines));
          snippet = numbered (take (nat (final - (start - 1))) (drop (nat (start - 1)) lines)) (nat start)
      in completed_edit (''The file '' @ shown @ '' has been edited. Here's the result of running `cat -n` on a ''
        @ ''snippet of '' @ shown @ '':'' @ [newline] @ snippet
        @ ''Review the changes and make sure they are as expected. Edit the file again if ''
        @ ''necessary.'') (Some p))"

text \<open>The texts of a replacement, in the line endings of the file, and the file after it.\<close>

definition in_endings_of :: "string \<Rightarrow> string \<Rightarrow> string" where
  "in_endings_of text s = (if contains text crlf then to_crlf s else s)"

definition replaced :: "string \<Rightarrow> string \<Rightarrow> string \<Rightarrow> (nat \<times> string) option" where
  "replaced text old new =
     (if count_text old text \<noteq> 1 then None
      else case index_text old text of None \<Rightarrow> None
       | Some start \<Rightarrow> Some (start, take start text @ new @ drop (start + length old) text))"

definition str_replace :: "folder \<Rightarrow> string \<Rightarrow> string \<Rightarrow> string \<Rightarrow> folder \<times> edit_result result" where
  "str_replace es p old new =
     (if old = '''' then (es, Inr (failed_edit ''Parameter `old_str` cannot be empty''))
      else case read_text es p of
        Inl e \<Rightarrow> (es, Inl e)
      | Inr text \<Rightarrow> (case replaced text (in_endings_of text old) (in_endings_of text new) of
          None \<Rightarrow> (es, Inr (failed_edit (''No replacement was performed: old_str matched ''
            @ nat_text (count_text (in_endings_of text old) text) @ '' times in '' @ display p
            @ ''; it must match exactly once, so include more surrounding lines'')))
        | Some (start, updated) \<Rightarrow>
          let (es', r) = write_text es p updated
          in (es', bind_r r (\<lambda>_. Inr (edited_text (display p) updated
               (int (count_char newline (take start text)) + 1) (int (count_char newline (in_endings_of text new)) + 1) p)))))"

definition inserted_lines :: "string \<Rightarrow> nat \<Rightarrow> string \<Rightarrow> string list" where
  "inserted_lines text n insert_text =
     (let lines = text_lines (normalize_text_newlines text)
      in take n lines @ text_lines (normalize_text_newlines insert_text) @ drop n lines)"

definition insert_into :: "string \<Rightarrow> nat \<Rightarrow> string \<Rightarrow> string" where
  "insert_into text n insert_text =
     (let nl = (if contains text crlf then crlf else [newline]); lines = inserted_lines text n insert_text
      in join nl lines @ (if lines \<noteq> [] \<and> (endswith text [newline] \<or> text = '''') then nl else []))"

definition insert_lines :: "folder \<Rightarrow> string \<Rightarrow> int \<Rightarrow> string \<Rightarrow> folder \<times> edit_result result" where
  "insert_lines es p after insert_text = (case read_text es p of
     Inl e \<Rightarrow> (es, Inl e)
   | Inr text \<Rightarrow>
     let n = length (text_lines (normalize_text_newlines text)) in
     if \<not> (0 \<le> after \<and> after \<le> int n) then
       (es, Inr (failed_edit (''Invalid `insert_line` '' @ int_text after @ '': it must be within [0, '' @ nat_text n @ '']'')))
     else
       let updated = insert_into text (nat after) insert_text; (es', r) = write_text es p updated
       in (es', bind_r r (\<lambda>_. Inr (edited_text (display p) updated (after + 1)
            (int (length (text_lines (normalize_text_newlines insert_text)))) p))))"

fun editor_path :: "editor_call \<Rightarrow> string" where
  "editor_path (View_call p _) = p"
| "editor_path (Create_call p _) = p"
| "editor_path (Replace_call p _ _) = p"
| "editor_path (Insert_call p _ _) = p"

text \<open>The texts a call would write or look for, with the names of its parameters.\<close>

fun editor_texts :: "editor_call \<Rightarrow> (string \<times> string) list" where
  "editor_texts (View_call _ _) = []"
| "editor_texts (Create_call _ s) = [(''file_text'', s)]"
| "editor_texts (Replace_call _ old new) = [(''old_str'', old), (''new_str'', new)]"
| "editor_texts (Insert_call _ _ s) = [(''insert_text'', s)]"

definition edit_file :: "folder \<Rightarrow> string \<Rightarrow> int option \<Rightarrow> editor_call \<Rightarrow> folder \<times> edit_result result" where
  "edit_file es p max_characters call = (case call of
     View_call _ r \<Rightarrow> (es, view_path es p r max_characters)
   | Create_call _ s \<Rightarrow> (let (es', r) = write_text es p s
       in (es', bind_r r (\<lambda>_. Inr (completed_edit (''File created successfully at: '' @ display p) (Some p)))))
   | Replace_call _ old new \<Rightarrow> str_replace es p old new
   | Insert_call _ n s \<Rightarrow> insert_lines es p n s)"

definition run_text_editor :: "('args \<Rightarrow> string + editor_call) \<Rightarrow> folder \<Rightarrow> 'args \<Rightarrow> int option \<Rightarrow> folder \<times> edit_result" where
  "run_text_editor validate es args max_characters = (case validate args of
     Inl problem \<Rightarrow> (es, invalid_edit (''Invalid text editor call: '' @ problem))
   | Inr call \<Rightarrow> (case find (\<lambda>(_, s). contains s redaction_marker) (editor_texts call) of
       Some (name, _) \<Rightarrow> (es, failed_edit (redaction_message name))
     | None \<Rightarrow> (case normalize (editor_path call) of
         Inl e \<Rightarrow> (es, failed_edit (error_message e))
       | Inr p \<Rightarrow> (case edit_file es p max_characters call of
           (es', Inl e) \<Rightarrow> (es', failed_edit (error_message e))
         | (es', Inr r) \<Rightarrow> (es', r)))))"

section \<open>An edit changes what it reports\<close>

text \<open>A result that reports no changed path leaves every file; any leaves every file but the one it reports.\<close>

definition reports_change :: "folder \<Rightarrow> folder \<times> edit_result \<Rightarrow> bool" where
  "reports_change es = (\<lambda>(es', r).
     \<forall>q. edit_changed r = None \<or> (\<exists>p. edit_changed r = Some p \<and> parts_of p \<noteq> Inr q) \<longrightarrow> file_at q es' = file_at q es)"

definition reports_change_r :: "folder \<Rightarrow> folder \<times> edit_result result \<Rightarrow> bool" where
  "reports_change_r es = (\<lambda>(es', res). case res of Inl e \<Rightarrow> \<forall>q. file_at q es' = file_at q es | Inr r \<Rightarrow> reports_change es (es', r))"

lemma reports_nothing [simp]:
  "reports_change es (es, r)" "reports_change_r es (es, Inl e)" "reports_change_r es (es, Inr r)"
  by (simp_all add: reports_change_def reports_change_r_def split: sum.splits)

lemma edit_result_simps [simp]:
  "edit_changed (failed_edit m) = None" "edit_changed (invalid_edit m) = None" "edit_changed (completed_edit s c) = c"
  "edit_changed (edited_text shown u a b p) = Some p"
  by (simp_all add: failed_edit_def invalid_edit_def completed_edit_def edited_text_def Let_def)

lemma write_reports:
  assumes "write_text es p s = (es', r)" and "edit_changed x = Some p"
  shows "reports_change_r es (es', bind_r r (\<lambda>_. Inr x))"
  using write_text_frame [OF assms(1)] assms(2) by (cases r) (auto simp: reports_change_r_def reports_change_def)

lemma delete_reports:
  assumes "delete_file es p = (es', r)" and "edit_changed x = Some p"
  shows "reports_change_r es (es', bind_r r (\<lambda>_. Inr x))"
  using delete_file_frame [OF assms(1)] assms(2) by (cases r) (auto simp: reports_change_r_def reports_change_def)

lemma patch_file_reports: "reports_change_r es (patch_file es p oper)"
proof (cases oper)
  case (Create_file path diff)
  then show ?thesis by (auto simp: patch_file_def intro: write_reports split: sum.splits prod.splits)
next
  case (Update_file path diff)
  then show ?thesis by (auto simp: patch_file_def intro: write_reports split: sum.splits prod.splits option.splits)
next
  case (Delete_file path)
  then show ?thesis by (auto simp: patch_file_def intro: delete_reports split: prod.splits)
qed

lemma str_replace_reports: "reports_change_r es (str_replace es p old new)"
  by (auto simp: str_replace_def Let_def intro: write_reports split: sum.splits prod.splits option.splits)

lemma insert_lines_reports: "reports_change_r es (insert_lines es p n s)"
  by (auto simp: insert_lines_def Let_def intro: write_reports split: sum.splits prod.splits)

lemma view_text_unchanged [simp]: "edit_changed (view_text shown s r n) = None"
  by (cases "view_lines (length (text_lines s)) r") (auto simp: view_text_def Let_def)

lemma view_path_unchanged: "view_path es p r n = Inr x \<Longrightarrow> edit_changed x = None"
proof -
  have "edit_changed (case c of Bytes bs \<Rightarrow> failed_edit (f bs) | Text s \<Rightarrow> view_text shown s r n) = None" for c f shown
    by (cases c) simp_all
  then show "view_path es p r n = Inr x \<Longrightarrow> edit_changed x = None"
    by (auto simp: view_path_def bind_r_Inr_iff split: if_splits)
qed

lemma edit_file_reports: "reports_change_r es (edit_file es p n call)"
proof (cases call)
  case (View_call path r)
  then show ?thesis by (cases "view_path es p r n") (simp_all add: edit_file_def)
next
  case (Create_call path s)
  then show ?thesis by (auto simp: edit_file_def intro: write_reports split: prod.splits)
qed (simp_all add: edit_file_def str_replace_reports insert_lines_reports)

lemma reports_result:
  assumes "reports_change_r es (es', res)"
  shows "reports_change es (case (es', res) of (es', Inl e) \<Rightarrow> (es', failed_edit (error_message e)) | (es', Inr r) \<Rightarrow> (es', r))"
  using assms by (cases res) (auto simp: reports_change_r_def reports_change_def)

lemma apply_patch_reports: "reports_change es (apply_patch_operation validate es args)"
proof -
  have "reports_change es (case patch_file es p oper of (es', Inl e) \<Rightarrow> (es', failed_edit (error_message e)) | (es', Inr r) \<Rightarrow> (es', r))"
    for p oper
    using reports_result [of es "fst (patch_file es p oper)" "snd (patch_file es p oper)"] patch_file_reports [of es p oper] by simp
  then show ?thesis by (auto simp: apply_patch_operation_def split: sum.splits)
qed

lemma text_editor_reports: "reports_change es (run_text_editor validate es args n)"
proof -
  have "reports_change es (case edit_file es p n call of (es', Inl e) \<Rightarrow> (es', failed_edit (error_message e)) | (es', Inr r) \<Rightarrow> (es', r))"
    for p call
    using reports_result [of es "fst (edit_file es p n call)" "snd (edit_file es p n call)"] edit_file_reports [of es p n call] by simp
  then show ?thesis by (auto simp: run_text_editor_def split: sum.splits option.splits)
qed

text \<open>
  C26. A patch or text editor call changes no file but the one its result reports as changed,
  and none when it reports none, whether it completes or fails.
\<close>

theorem edits_change_reported_file:
  assumes "apply_patch_operation validate es args = (es', r) \<or> run_text_editor validate' es args n = (es', r)"
    and "case edit_changed r of None \<Rightarrow> True | Some p \<Rightarrow> parts_of p \<noteq> Inr q"
  shows "file_at q es' = file_at q es"
proof -
  have "reports_change es (es', r)"
    using assms(1) apply_patch_reports [of es validate args] text_editor_reports [of es validate' args n] by metis
  with assms(2) show ?thesis by (auto simp: reports_change_def split: option.splits)
qed

section \<open>A replacement is exact\<close>

lemma startswith_length: "startswith s p \<Longrightarrow> length p \<le> length s"
  by (auto simp: startswith_iff)

lemma index_text_Some: "index_text p s = Some i \<Longrightarrow> startswith (drop i s) p \<and> i + length p \<le> length s"
  by (induction s arbitrary: i) (auto split: if_splits dest: startswith_length)

lemma index_text_first: "index_text p s = Some i \<Longrightarrow> j < i \<Longrightarrow> \<not> startswith (drop j s) p"
  by (induction s arbitrary: i j) (auto split: if_splits simp: less_Suc_eq_0_disj)

lemma replaced_exact:
  assumes "replaced body old new = Some (start, updated)"
  shows "body = take start body @ old @ drop (start + length old) body"
    and "updated = take start body @ new @ drop (start + length old) body" and "count_text old body = 1"
    and "\<And>j. j < start \<Longrightarrow> \<not> startswith (drop j body) old"
proof -
  from assms have i: "index_text old body = Some start" and u: "updated = take start body @ new @ drop (start + length old) body"
    and c: "count_text old body = 1"
    by (auto simp: replaced_def split: if_splits option.splits)
  from index_text_Some [OF i] obtain r where r: "drop start body = old @ r" by (auto simp: startswith_iff)
  then have "drop (start + length old) body = r" by (metis add.commute append_eq_conv_conj drop_drop)
  with r show "body = take start body @ old @ drop (start + length old) body" by (metis append_take_drop_id)
  show "updated = take start body @ new @ drop (start + length old) body" "count_text old body = 1" by fact+
  show "\<not> startswith (drop j body) old" if "j < start" for j by (rule index_text_first [OF i that])
qed

lemma failed_not_completed [simp]: "\<not> edit_completed (failed_edit m)"
  by (simp add: failed_edit_def)

text \<open>
  C27. A replacement that completes replaces the first occurrence of the old text, which is
  counted once, in the line endings of the file, by the new text, and keeps everything around
  it.
\<close>

theorem replacement_is_exact:
  assumes "str_replace es p old new = (es', Inr r)" and "edit_completed r"
  shows "\<exists>body before after. read_text es p = Inr body \<and> body = before @ in_endings_of body old @ after
    \<and> count_text (in_endings_of body old) body = 1
    \<and> (\<forall>j < length before. \<not> startswith (drop j body) (in_endings_of body old))
    \<and> read_text es' p = Inr (before @ in_endings_of body new @ after)"
proof -
  from assms obtain body where body: "read_text es p = Inr body"
    by (auto simp: str_replace_def split: if_splits sum.splits)
  from assms body obtain start updated where rp: "replaced body (in_endings_of body old) (in_endings_of body new) = Some (start, updated)"
    by (auto simp: str_replace_def split: if_splits option.splits)
  from assms body rp obtain w where w: "write_text es p updated = (es', Inr w)"
    by (auto simp: str_replace_def Let_def bind_r_Inr_iff split: if_splits prod.splits)
  note e = replaced_exact [OF rp]
  have "start + length (in_endings_of body old) \<le> length body"
    using rp by (auto simp: replaced_def split: if_splits option.splits dest: index_text_Some)
  then have len: "length (take start body) = start" by simp
  show ?thesis using e body len write_text_read [OF w]
    by (intro exI [of _ body] exI [of _ "take start body"] exI [of _ "drop (start + length (in_endings_of body old)) body"]) simp
qed

section \<open>Examples\<close>

text \<open>Overlapping occurrences are counted once, so the first of them is replaced.\<close>

lemma overlapping_match_counts_once:
  "replaced ''aaa'' ''aa'' ''b'' = Some (0, ''ba'') \<and> startswith (drop 0 ''aaa'') ''aa'' \<and> startswith (drop 1 ''aaa'') ''aa''"
  by (simp add: replaced_def count_text.simps)

definition sample_folder :: folder where
  "sample_folder = [(''f'', File (Text ''abc'') 420), (''g'', File (Text ''abc'') 420)]"

lemma sample_file_parts: "file_parts ''f'' = Inr [''f'']" "parts_of ''g'' = Inr [''g'']" "parts_of ''f'' = Inr [''f'']" "normalize ''f'' = Inr ''f''"
  by code_simp+

lemma sample_read: "read_text sample_folder ''f'' = Inr ''abc''"
  by (simp add: read_text_def read_bytes_def sample_file_parts sample_folder_def content_size_def utf8_def max_edit_bytes_def)

lemma sample_endings: "in_endings_of ''abc'' s = s"
proof -
  have "contains ''abc'' crlf = False" by code_simp
  then show ?thesis unfolding in_endings_of_def by (simp only: if_False)
qed

lemma sample_replace:
  "\<exists>r. str_replace sample_folder ''f'' ''b'' ''x'' = ([(''f'', File (Text ''axc'') 420), (''g'', File (Text ''abc'') 420)], Inr r)
    \<and> edit_completed r"
proof -
  have "replaced ''abc'' ''b'' ''x'' = Some (1, ''axc'')"
    by (simp add: replaced_def count_text.simps)
  moreover have "write_text sample_folder ''f'' ''axc'' = ([(''f'', File (Text ''axc'') 420), (''g'', File (Text ''abc'') 420)], Inr ())"
    by (simp add: write_text_def sample_file_parts sample_folder_def write_entry_def utf8_def max_edit_bytes_def)
  ultimately show ?thesis
    by (simp add: str_replace_def sample_read sample_endings edited_text_def completed_edit_def Let_def)
qed

lemma replacement_is_exact_witness:
  "\<exists>es' before after. read_text sample_folder ''f'' = Inr (before @ ''b'' @ after) \<and> read_text es' ''f'' = Inr (before @ ''x'' @ after)"
proof -
  obtain es' r where r: "str_replace sample_folder ''f'' ''b'' ''x'' = (es', Inr r)" "edit_completed r"
    using sample_replace by blast
  from replacement_is_exact [OF r] show ?thesis
    by (auto simp: sample_read sample_endings)
qed

lemma edits_change_reported_file_witness:
  "\<exists>es' r. run_text_editor (\<lambda>c. Inr c) sample_folder (Replace_call ''f'' ''b'' ''x'') None = (es', r) \<and> edit_changed r = Some ''f''
    \<and> file_at [''g''] es' = file_at [''g''] sample_folder"
proof -
  obtain es' r where r: "str_replace sample_folder ''f'' ''b'' ''x'' = (es', Inr r)" "edit_completed r"
    using sample_replace by blast
  have "\<not> contains ''b'' redaction_marker" "\<not> contains ''x'' redaction_marker" by code_simp+
  with r(1) have e: "run_text_editor (\<lambda>c. Inr c) sample_folder (Replace_call ''f'' ''b'' ''x'') None = (es', r)"
    by (simp add: run_text_editor_def sample_file_parts edit_file_def)
  have c: "edit_changed r = Some ''f''"
    using r by (auto simp: str_replace_def sample_read bind_r_Inr_iff Let_def split: option.splits prod.splits)
  have "case edit_changed r of None \<Rightarrow> True | Some p \<Rightarrow> parts_of p \<noteq> Inr [''g'']" by (simp add: c sample_file_parts)
  from edits_change_reported_file [OF disjI2 [OF e] this] e c show ?thesis by blast
qed

end
