(* ===== verification/SessionTools.thy ===== *)
theory SessionTools
  imports Answering EditTools
begin

text \<open>
  \<open>agent_tools.py\<close> and \<open>tool_output.py\<close>: the shell and edit calls of a transcript, run in its session.
  The container is an automaton that may change the workspace whenever it runs a command.  The
  validation of a call's other arguments is a parameter; it leaves a list of strings as it is, so
  the commands are those of the call.
\<close>

section \<open>Bounded output\<close>

definition tool_output_characters :: int where
  "tool_output_characters = 10000"

definition truncate_tool_output :: "string \<Rightarrow> int option \<Rightarrow> string option \<Rightarrow> string" where
  "truncate_tool_output s max_characters full_output_path =
     (let limit = (case max_characters of None \<Rightarrow> tool_output_characters | Some n \<Rightarrow> max 0 (min tool_output_characters n)) in
      if int (length s) \<le> limit then s
      else
        let head = nat (limit div 2); tail = nat limit - head;
            location = (case full_output_path of None \<Rightarrow> [] | Some p \<Rightarrow> if p = [] then [] else '' The full output is in '' @ p @ ''.'')
        in take head s @ [newline] @ ''[... '' @ int_text (int (length s) - limit) @ '' characters omitted.'' @ location
             @ '' Use head, tail or grep to read the part you need.]'' @ [newline] @ drop (length s - tail) s)"

section \<open>The session\<close>

record session_command_result =
  sc_result :: command_result
  sc_infrastructure_failure :: "string option"
  sc_restarted :: bool
  sc_out_of_memory :: bool

record 'c tools_env =
  te_exec :: "'c \<times> folder \<Rightarrow> string \<Rightarrow> int \<Rightarrow> ('c \<times> folder) \<times> session_command_result result"
  te_restart :: "'c \<times> folder \<Rightarrow> ('c \<times> folder) \<times> unit result"
  te_save_output :: "'c \<times> folder \<Rightarrow> nat \<Rightarrow> string \<Rightarrow> ('c \<times> folder) \<times> string option result"
  te_seconds_left :: "'c \<times> folder \<Rightarrow> ('c \<times> folder) \<times> rat"
  te_shell :: "(string \<times> json) list \<Rightarrow> string + (int option \<times> int option)"
  te_bash :: "(string \<times> json) list \<Rightarrow> string + (string option \<times> bool)"
  te_patch :: "(string \<times> json) list \<Rightarrow> string + patch_operation"
  te_editor :: "(string \<times> json) list \<Rightarrow> string + editor_call"
  te_timeout :: int

text \<open>The container with the workspace, and how many outputs were saved.\<close>

type_synonym 'c tools_state = "('c \<times> folder) \<times> nat"

definition max_agent_command_seconds :: int where
  "max_agent_command_seconds = 300"

definition max_command_characters :: nat where
  "max_command_characters = 20000"

definition restart_note :: "session_command_result \<Rightarrow> string" where
  "restart_note x =
     (if sc_out_of_memory x then [newline] @ ''[The command was stopped: ''
        @ (case sc_infrastructure_failure x of None \<Rightarrow> ''None'' | Some f \<Rightarrow> f) @ ''. The sandbox ''
        @ ''restarted and /tmp is now empty. Use less memory, for example fewer parallel ''
        @ ''jobs or a smaller test selection.]''
      else if sc_restarted x then [newline] @ ''[The sandbox restarted after this command to stop the processes it left running; ''
        @ ''/tmp is now empty.]''
      else [])"

definition command_problem :: "string \<Rightarrow> string option" where
  "command_problem command =
     (if strip command = '''' then Some ''The command is empty''
      else if nul \<in> set command then Some ''The command contains a NUL byte''
      else if max_command_characters < length command then
        Some (''The command is longer than '' @ nat_text max_command_characters @ '' characters; write a script'')
      else None)"

definition command_limit :: "'c tools_env \<Rightarrow> int option \<Rightarrow> rat \<Rightarrow> int" where
  "command_limit T requested left =
     (let most = min (te_timeout T) max_agent_command_seconds;
          limit = (case requested of None \<Rightarrow> most | Some n \<Rightarrow> min most n)
      in min limit \<lfloor>left\<rfloor>)"

definition bounded :: "'c tools_env \<Rightarrow> string \<Rightarrow> int option \<Rightarrow> 'c tools_state \<Rightarrow> 'c tools_state \<times> string result" where
  "bounded T s max_characters = (\<lambda>(c, saved).
     let limit = (case max_characters of None \<Rightarrow> tool_output_characters | Some n \<Rightarrow> min tool_output_characters n) in
     if int (length s) \<le> limit then ((c, saved), Inr s)
     else
       let (c', r) = te_save_output T c (saved + 1) s
       in ((c', saved + 1), bind_r r (\<lambda>path. Inr (truncate_tool_output s max_characters path))))"

text \<open>\<open>_exec\<close>: a stopped or unreadable container is an error, a command out of memory is not.\<close>

definition exec_command :: "'c tools_env \<Rightarrow> string \<Rightarrow> int \<Rightarrow> 'c tools_state \<Rightarrow> 'c tools_state \<times> session_command_result result" where
  "exec_command T command timeout = (\<lambda>(c, saved).
     let (c', r) = te_exec T c command timeout
     in ((c', saved), bind_r r (\<lambda>x. case sc_infrastructure_failure x of
          Some f \<Rightarrow> if sc_out_of_memory x then Inr x
            else Inl (SandboxError (''The sandbox failed during an agent command: '' @ f))
        | None \<Rightarrow> Inr x)))"

section \<open>Shell calls\<close>

definition out_of_time_text :: string where
  "out_of_time_text = ''Not run: the run is out of time.''"

text \<open>The commands of one call so far: chunks, runs, refusals and whether time ran out.\<close>

record shell_progress =
  sp_chunks :: "shell_chunk list"
  sp_runs :: "command_run list"
  sp_refusals :: nat
  sp_out_of_time :: bool

definition ran_command :: "'c tools_env \<Rightarrow> int option \<Rightarrow> string \<Rightarrow> int \<Rightarrow> 'c tools_state \<Rightarrow> shell_progress
    \<Rightarrow> 'c tools_state \<times> shell_progress result" where
  "ran_command T limit command timeout st p =
     (case exec_command T command timeout st of
        (st1, Inl e) \<Rightarrow> (st1, Inl e)
      | (st1, Inr x) \<Rightarrow> (case bounded T (cmd_stderr (sc_result x)) limit st1 of
          (st2, Inl e) \<Rightarrow> (st2, Inl e)
        | (st2, Inr err) \<Rightarrow> (case bounded T (cmd_stdout (sc_result x)) limit st2 of
            (st3, Inl e) \<Rightarrow> (st3, Inl e)
          | (st3, Inr out) \<Rightarrow> (st3, Inr (p\<lparr>
              sp_chunks := sp_chunks p @ [\<lparr>chunk_stdout = out, chunk_stderr = err @ restart_note x,
                chunk_exit_code = (if cmd_timed_out (sc_result x) then None else Some (cmd_exit_code (sc_result x)))\<rparr>],
              sp_runs := sp_runs p @ [\<lparr>run_command = command, run_passed = cmd_passed (sc_result x)\<rparr>]\<rparr>)))))"

fun shell_loop :: "'c tools_env \<Rightarrow> int option \<Rightarrow> int option \<Rightarrow> string list \<Rightarrow> 'c tools_state \<Rightarrow> shell_progress
    \<Rightarrow> 'c tools_state \<times> shell_progress result" where
  "shell_loop T requested limit [] st p = (st, Inr p)"
| "shell_loop T requested limit (command # commands) st p =
     (case command_problem command of
        Some problem \<Rightarrow> shell_loop T requested limit commands st
          (p\<lparr>sp_refusals := sp_refusals p + 1, sp_chunks := sp_chunks p @ [not_run problem]\<rparr>)
      | None \<Rightarrow>
        let (c, saved) = st; (c', left) = te_seconds_left T c; timeout = command_limit T requested left
        in if timeout < 1 then shell_loop T requested limit commands (c', saved)
             (p\<lparr>sp_out_of_time := True, sp_chunks := sp_chunks p @ [not_run out_of_time_text]\<rparr>)
           else (case ran_command T limit command timeout (c', saved) p of
               (st', Inl e) \<Rightarrow> (st', Inl e)
             | (st', Inr p') \<Rightarrow> shell_loop T requested limit commands st' p'))"

definition tool_done :: "tool_result \<Rightarrow> tool_outcome" where
  "tool_done r = \<lparr>outcome_result = r, outcome_invalid = False, outcome_commands = [], outcome_changed_path = None,
     outcome_out_of_time = False\<rparr>"

definition invalid_call :: "tool_call \<Rightarrow> string \<Rightarrow> tool_outcome result" where
  "invalid_call c message = bind_r (refused c message) (\<lambda>r. Inr ((tool_done r)\<lparr>outcome_invalid := True\<rparr>))"

definition shell_call :: "'c tools_env \<Rightarrow> tool_call \<Rightarrow> 'c tools_state \<Rightarrow> 'c tools_state \<times> tool_outcome result" where
  "shell_call T c st = (case shell_commands c of
     Inl e \<Rightarrow> (st, Inl e)
   | Inr commands \<Rightarrow> (case te_shell T (call_arguments c) of
       Inl problem \<Rightarrow> (st, invalid_call c (''Invalid shell call: '' @ problem))
     | Inr (timeout_ms, limit) \<Rightarrow>
       let requested = map_option (\<lambda>ms. \<lceil>of_int ms / 1000 :: rat\<rceil>) timeout_ms
       in (case shell_loop T requested limit commands st \<lparr>sp_chunks = [], sp_runs = [], sp_refusals = 0, sp_out_of_time = False\<rparr> of
             (st', Inl e) \<Rightarrow> (st', Inl e)
           | (st', Inr p) \<Rightarrow> (st', Inr \<lparr>outcome_result = \<lparr>result_call_id = call_id c, result_output = Output_chunks (sp_chunks p),
                 result_is_error = False\<rparr>,
               outcome_invalid = (sp_refusals p = length commands), outcome_commands = sp_runs p, outcome_changed_path = None,
               outcome_out_of_time = sp_out_of_time p\<rparr>))))"

definition combined_output :: "command_result \<Rightarrow> string" where
  "combined_output r =
     (let out = cmd_stdout r; err = cmd_stderr r
      in (if out \<noteq> '''' \<and> err \<noteq> '''' \<and> \<not> endswith out [newline] then out @ [newline] else out) @ err)"

definition status_note :: "command_result \<Rightarrow> int \<Rightarrow> string" where
  "status_note r timeout =
     (if cmd_timed_out r then [newline] @ ''[The command timed out after '' @ int_text timeout @ '' seconds; its output so far is above.]''
      else if cmd_exit_code r \<noteq> 0 then [newline] @ ''[Exit code '' @ int_text (cmd_exit_code r) @ '']''
      else [])"

definition text_result :: "tool_call \<Rightarrow> string \<Rightarrow> tool_result" where
  "text_result c s = \<lparr>result_call_id = call_id c, result_output = Output_text s, result_is_error = False\<rparr>"

definition bash_command :: "'c tools_env \<Rightarrow> tool_call \<Rightarrow> string \<Rightarrow> 'c tools_state \<Rightarrow> 'c tools_state \<times> tool_outcome result" where
  "bash_command T c command = (\<lambda>(k, saved).
     let (k', left) = te_seconds_left T k; timeout = command_limit T None left in
     if timeout < 1 then
       ((k', saved), bind_r (refused c out_of_time_text) (\<lambda>r. Inr ((tool_done r)\<lparr>outcome_out_of_time := True\<rparr>)))
     else (case exec_command T command timeout (k', saved) of
         (st1, Inl e) \<Rightarrow> (st1, Inl e)
       | (st1, Inr x) \<Rightarrow> (case bounded T (combined_output (sc_result x)) None st1 of
           (st2, Inl e) \<Rightarrow> (st2, Inl e)
         | (st2, Inr s) \<Rightarrow>
           let output = s @ status_note (sc_result x) timeout @ restart_note x
           in (st2, Inr ((tool_done (text_result c (if output = '''' then ''(no output)'' else output)))
                \<lparr>outcome_commands := [\<lparr>run_command = command, run_passed = cmd_passed (sc_result x)\<rparr>]\<rparr>)))))"

definition bash_call :: "'c tools_env \<Rightarrow> tool_call \<Rightarrow> 'c tools_state \<Rightarrow> 'c tools_state \<times> tool_outcome result" where
  "bash_call T c st = (case te_bash T (call_arguments c) of
     Inl problem \<Rightarrow> (st, invalid_call c (''Invalid bash call: '' @ problem))
   | Inr (command, restart) \<Rightarrow>
     if restart then
       let (k', r) = te_restart T (fst st)
       in ((k', snd st), bind_r r (\<lambda>_. Inr (tool_done (text_result c
            (''The sandbox restarted: every process was stopped and /tmp is empty. '' @ ''/workspace is unchanged.'')))))
     else (case command of
         None \<Rightarrow> (st, invalid_call c ''Invalid bash call: give a command, or restart: true'')
       | Some s \<Rightarrow> (case command_problem s of
           Some problem \<Rightarrow> (st, invalid_call c (''Invalid bash call: '' @ problem))
         | None \<Rightarrow> bash_command T c s st)))"

section \<open>Edits\<close>

text \<open>\<open>shlex.quote\<close>: single quotes, unless every character is safe.\<close>

definition is_safe_char :: "char \<Rightarrow> bool" where
  "is_safe_char c \<longleftrightarrow> (CHR ''a'' \<le> c \<and> c \<le> CHR ''z'') \<or> (CHR ''A'' \<le> c \<and> c \<le> CHR ''Z'') \<or> is_digit c \<or> c \<in> set ''_@%+=:,./-''"

definition shell_quote :: "string \<Rightarrow> string" where
  "shell_quote s =
     (if s = '''' then [CHR 0x27, CHR 0x27]
      else if list_all is_safe_char s then s
      else [CHR 0x27] @ concat (map (\<lambda>c. if c = CHR 0x27 then [CHR 0x27, CHR 0x22, CHR 0x27, CHR 0x22, CHR 0x27] else [c]) s)
        @ [CHR 0x27])"

definition python_syntax_check :: string where
  "python_syntax_check = [newline] @ join [newline]
     [''[ -f '' @ [CHR 0x22] @ ''$file'' @ [CHR 0x22] @ '' ] || exit 0'',
      ''export PYTHONPYCACHEPREFIX=/tmp/ac-pycache'',
      ''for python in python3 python; do'',
      ''  if command -v '' @ [CHR 0x22] @ ''$python'' @ [CHR 0x22] @ '' >/dev/null 2>&1; then'',
      ''    exec '' @ [CHR 0x22] @ ''$python'' @ [CHR 0x22] @ '' -m py_compile '' @ [CHR 0x22] @ ''$file'' @ [CHR 0x22],
      ''  fi'',
      ''done''] @ [newline]"

definition syntax_check_timeout_seconds :: int where
  "syntax_check_timeout_seconds = 30"

definition syntax_check :: "'c tools_env \<Rightarrow> string \<Rightarrow> 'c \<times> folder \<Rightarrow> ('c \<times> folder) \<times> string option result" where
  "syntax_check T path k =
     (if \<not> endswith path ''.py'' then (k, Inr None)
      else
        let (k', r) = te_exec T k (''file='' @ shell_quote (container_workspace @ ''/'' @ path) @ python_syntax_check)
          syntax_check_timeout_seconds
        in (k', bind_r r (\<lambda>x. let p = sc_result x; problem = strip (cmd_stderr p @ cmd_stdout p) in
             if cmd_passed p \<or> cmd_timed_out p \<or> sc_infrastructure_failure x \<noteq> None then Inr None
             else Inr (Some (if problem = '''' then ''Syntax check exited '' @ int_text (cmd_exit_code p) else problem)))))"

definition edited_output :: "edit_result \<Rightarrow> string \<Rightarrow> string option \<Rightarrow> string" where
  "edited_output edit path problem = edit_output edit @ (case problem of None \<Rightarrow> []
     | Some s \<Rightarrow> [newline, newline] @ ''The syntax check of '' @ display path @ '' failed:'' @ [newline] @ s)"

definition edit_outcome :: "tool_call \<Rightarrow> edit_result \<Rightarrow> string \<Rightarrow> string option \<Rightarrow> tool_outcome" where
  "edit_outcome c edit s changed =
     \<lparr>outcome_result = \<lparr>result_call_id = call_id c, result_output = Output_text (truncate_tool_output s None None),
        result_is_error = (\<not> edit_completed edit)\<rparr>,
      outcome_invalid = edit_invalid edit, outcome_commands = [], outcome_changed_path = changed, outcome_out_of_time = False\<rparr>"

definition edited_call :: "'c tools_env \<Rightarrow> tool_call \<Rightarrow> edit_result \<Rightarrow> 'c \<times> folder \<Rightarrow> ('c \<times> folder) \<times> tool_outcome result" where
  "edited_call T c edit k =
     (case if edit_completed edit then edit_changed edit else None of
        None \<Rightarrow> (k, Inr (edit_outcome c edit (edit_output edit) None))
      | Some path \<Rightarrow>
        let (k', r) = syntax_check T path k
        in (k', bind_r r (\<lambda>problem. Inr (edit_outcome c edit (edited_output edit path problem) (Some path)))))"

definition edit_call :: "'c tools_env \<Rightarrow> (folder \<Rightarrow> (string \<times> json) list \<Rightarrow> folder \<times> edit_result) \<Rightarrow> tool_call \<Rightarrow> 'c tools_state
    \<Rightarrow> 'c tools_state \<times> tool_outcome result" where
  "edit_call T run c = (\<lambda>((k, es), saved).
     let (es', edit) = run es (call_arguments c); (k', r) = edited_call T c edit (k, es') in ((k', saved), r))"

section \<open>One call\<close>

definition run_tools :: "'c tools_env \<Rightarrow> tool_call \<Rightarrow> 'c tools_state \<Rightarrow> 'c tools_state \<times> tool_outcome result" where
  "run_tools T c st =
     (if call_name c = native_shell Openai then shell_call T c st
      else if call_name c = native_shell Anthropic then bash_call T c st
      else if call_name c = native_edit Openai then edit_call T (apply_patch_operation (te_patch T)) c st
      else if call_name c = native_edit Anthropic then
        edit_call T (\<lambda>es args. run_text_editor (te_editor T) es args None) c st
      else (st, Inl (ValueError (call_name c @ '' is not a shell or edit tool''))))"

section \<open>Every call of a turn is answered\<close>

lemma ran_command_grows:
  "ran_command T limit command timeout st p = (st', Inr p') \<Longrightarrow> length (sp_chunks p') = length (sp_chunks p) + 1"
  by (auto simp: ran_command_def split: prod.splits sum.splits)

lemma shell_loop_chunks:
  "shell_loop T requested limit commands st p = (st', Inr p') \<Longrightarrow> length (sp_chunks p') = length (sp_chunks p) + length commands"
proof (induction T requested limit commands st p rule: shell_loop.induct)
  case (2 T requested limit command commands st p)
  then show ?case
    by (cases st; cases "command_problem command";
        cases "ran_command T limit command (command_limit T requested (snd (te_seconds_left T (fst st)))) (fst (te_seconds_left T (fst st)), snd st) p")
       (auto simp: Let_def split: prod.splits if_splits sum.splits dest!: ran_command_grows)
qed simp

lemma shell_call_fits:
  assumes "shell_call T c st = (st', Inr x)" and "call_name c = native_shell Openai"
  shows "result_fits Openai c (outcome_result x)"
  using assms
  by (auto simp: shell_call_def result_fits_def invalid_call_def tool_done_def refused_def result_simps Let_def
      split: sum.splits prod.splits dest!: shell_commands_Inr shell_loop_chunks)

lemma invalid_call_text:
  "invalid_call c message = Inr x \<Longrightarrow> call_name c \<noteq> native_shell Openai \<Longrightarrow> result_call_id (outcome_result x) = call_id c
    \<and> (\<exists>s. result_output (outcome_result x) = Output_text s)"
  by (auto simp: invalid_call_def tool_done_def refused_def)

lemma bash_call_text:
  assumes "bash_call T c st = (st', Inr x)" and "call_name c \<noteq> native_shell Openai"
  shows "result_call_id (outcome_result x) = call_id c \<and> (\<exists>s. result_output (outcome_result x) = Output_text s)"
  using assms
  by (auto simp: bash_call_def bash_command_def text_result_def tool_done_def refused_def result_simps Let_def
      split: sum.splits prod.splits option.splits if_splits dest!: invalid_call_text)

lemma edit_call_text:
  "edit_call T run c st = (st', Inr x) \<Longrightarrow> result_call_id (outcome_result x) = call_id c
    \<and> (\<exists>s. result_output (outcome_result x) = Output_text s)"
  by (auto simp: edit_call_def edited_call_def edit_outcome_def result_simps Let_def split: prod.splits option.splits)

lemma run_tools_fits:
  assumes "run_tools T c st = (st', Inr x)" and "call_name c \<in> {native_shell p, native_edit p}"
  shows "result_fits p c (outcome_result x)"
proof (cases "call_name c = native_shell Openai")
  case True
  with assms(2) have "p = Openai" by (cases p) auto
  with True assms show ?thesis by (simp add: run_tools_def shell_call_fits)
next
  case False
  with assms(1) have "result_call_id (outcome_result x) = call_id c \<and> (\<exists>s. result_output (outcome_result x) = Output_text s)"
    by (auto simp: run_tools_def split: if_splits dest: bash_call_text edit_call_text)
  with False show ?thesis by (auto simp: result_fits_def)
qed

text \<open>A loop whose outside runs these tools on a session of its own.\<close>

definition with_session_tools :: "'c tools_env \<Rightarrow> ('w \<Rightarrow> 'c tools_state) \<Rightarrow> ('c tools_state \<Rightarrow> 'w \<Rightarrow> 'w)
    \<Rightarrow> ('w, 'sub) outside \<Rightarrow> ('w, 'sub) outside" where
  "with_session_tools T get put out = out\<lparr>run_tool := Some (\<lambda>w c. let (st, r) = run_tools T c (get w) in (put st w, r))\<rparr>"

interpretation st: answering_tools "with_session_tools T get put out" p for T get put out p
  by unfold_locales (auto simp: with_session_tools_def split: prod.splits dest!: run_tools_fits)

text \<open>
  C22. Whatever the container, the workspace and the submit handler do, when all calls of a
  turn, which name tools that were declared, are answered without an error, the transcript
  accepts their results: every call has a result in the shape its tool needs, one output chunk
  for each command of an OpenAI shell call included, and no call stays pending.
\<close>

theorem every_turn_is_answered:
  assumes "answer_calls (with_session_tools T get put out) (tr_kind t) last_turn (tr_pending_calls t) s
      \<lparr>an_results = [], an_messages = [], an_outcome = None, an_invalid = 0, an_submitted = False\<rparr> = (s', Inr a)"
    and "\<forall>c\<in>set (tr_pending_calls t). call_name c \<in> tool_call_names (tr_provider t) (tr_kind t)"
    and "tr_pending_calls t \<noteq> []"
  shows "\<exists>u. append_tool_results scrub t (an_results a) = Inr u \<and> tr_pending_calls u = []"
  by (rule st.answers_accepted [OF assms(1) _ assms(2,3) refl]) simp

section \<open>Checks on concrete values\<close>

lemma truncate_tool_output_checks:
  "truncate_tool_output ''abcdefghij'' (Some 4) (Some ''/f'')
     = ''ab'' @ [newline] @ ''[... 6 characters omitted. The full output is in /f. Use head, tail or grep to read the part you need.]''
       @ [newline] @ ''ij''"
  "truncate_tool_output ''abcd'' (Some 4) None = ''abcd''"
  by (simp_all add: truncate_tool_output_def tool_output_characters_def int_text_def nat_text.simps [of 6] digit_char_def)

lemma shell_quote_checks:
  "shell_quote ''/workspace/a.py'' = ''/workspace/a.py''"
  "shell_quote ''a b'' = [CHR 0x27] @ ''a b'' @ [CHR 0x27]"
  by (simp_all add: shell_quote_def is_safe_char_def is_digit_def)

definition sample_tools :: "unit tools_env" where
  "sample_tools = \<lparr>te_exec = (\<lambda>k c n. (k, Inr \<lparr>sc_result = \<lparr>cmd_command = c, cmd_exit_code = 0, cmd_duration_seconds = 1, cmd_stdout = ''a.py'', cmd_stderr = '''', cmd_timed_out = False\<rparr>,
       sc_infrastructure_failure = None, sc_restarted = False, sc_out_of_memory = False\<rparr>)),
     te_restart = (\<lambda>k. (k, Inr ())), te_save_output = (\<lambda>k n s. (k, Inr None)), te_seconds_left = (\<lambda>k. (k, 90)),
     te_shell = (\<lambda>args. Inr (None, None)), te_bash = (\<lambda>args. Inr (Some ''ls'', False)),
     te_patch = (\<lambda>args. Inl ''no''), te_editor = (\<lambda>args. Inl ''no''), te_timeout = 600\<rparr>"

definition sample_shell_call :: tool_call where
  "sample_shell_call = \<lparr>call_id = ''c1'', call_name = ''shell'', call_arguments = [(''commands'', JList [JStr ''ls'', JStr '' ''])]\<rparr>"

lemma sample_shell_call_runs:
  "run_tools sample_tools sample_shell_call (((), []), 0) = ((((), []), 0), Inr \<lparr>
     outcome_result = \<lparr>result_call_id = ''c1'', result_output = Output_chunks [
       \<lparr>chunk_stdout = ''a.py'', chunk_stderr = '''', chunk_exit_code = Some 0\<rparr>, not_run ''The command is empty''],
       result_is_error = False\<rparr>,
     outcome_invalid = False, outcome_commands = [\<lparr>run_command = ''ls'', run_passed = True\<rparr>], outcome_changed_path = None,
     outcome_out_of_time = False\<rparr>)"
  by (simp add: run_tools_def sample_shell_call_def shell_call_def shell_commands_def sample_tools_def command_problem_def
      command_limit_def max_agent_command_seconds_def ran_command_def exec_command_def bounded_def tool_output_characters_def
      restart_note_def cmd_passed_def max_command_characters_def nul_char strip_def rstrip_def is_space_def Let_def)

definition tools_outside :: "(unit tools_state, unit) outside" where
  "tools_outside = \<lparr>look = (\<lambda>w d. (w, d, sample_world)), provider_step = (\<lambda>w t n x. (w, Inr sample_turn)), draw_jitter = (\<lambda>w. (w, 0)),
     run_tool = None, read_submission = (\<lambda>c. Inl ''no''), on_submit = None, out_store = sample_env, out_schema = (\<lambda>_. JNull),
     out_scrub = id, out_token = (\<lambda>_. False), out_guidance = [], out_name = ''n''\<rparr>"

definition calling_transcript :: transcript where
  "calling_transcript = \<lparr>tr_model = ''gpt-5.6-sol'', tr_effort = Effort_high, tr_kind = Kind_agent, tr_run_id = ''r'',
     tr_instructions = '''', tr_items = [], tr_pending_calls = [sample_shell_call], tr_prior_input_tokens = None,
     tr_prior_output_tokens = 0, tr_prior_output_items = 0, tr_appended_bytes = 0, tr_appended_items = 0\<rparr>"

definition no_answers :: "unit answering" where
  "no_answers = \<lparr>an_results = [], an_messages = [], an_outcome = None, an_invalid = 0, an_submitted = False\<rparr>"

definition calling_loop :: loop_state where
  "calling_loop = \<lparr>ls_transcript = calling_transcript, ls_turns = 0, ls_nudges = 0, ls_malformed_turns = 0,
     ls_failing_command = None, ls_failures_in_a_row = 0, ls_guided = {}, ls_reminded_turns = False, ls_reminded_cost = False\<rparr>"

lemma calling_transcript_provider: "tr_provider calling_transcript = Openai"
  by (simp add: tr_provider_def calling_transcript_def models_table_def specs_def spec_defs)

lemma calling_transcript_named:
  "\<forall>c\<in>set (tr_pending_calls calling_transcript). call_name c \<in> tool_call_names (tr_provider calling_transcript) (tr_kind calling_transcript)"
  by (simp add: calling_transcript_provider) (simp add: calling_transcript_def sample_shell_call_def tool_call_names_def)

lemma sample_no_token: "\<not> holds_token (\<lambda>_. False) (JObj (call_arguments sample_shell_call))"
  by (simp add: sample_shell_call_def)

lemma sample_answered:
  "\<exists>s' a. answer_calls (with_session_tools sample_tools id (\<lambda>st _. st) tools_outside) (tr_kind calling_transcript) False
     (tr_pending_calls calling_transcript) ((((), []), 0), calling_loop) no_answers = (s', Inr a)"
proof -
  have "out_token (with_session_tools sample_tools id (\<lambda>st _. st) tools_outside) = (\<lambda>_. False)"
    "run_tool (with_session_tools sample_tools id (\<lambda>st _. st) tools_outside)
       = Some (\<lambda>w c. let (st, r) = run_tools sample_tools c w in (st, r))"
    by (simp_all add: with_session_tools_def tools_outside_def)
  moreover have "call_name sample_shell_call = ''shell''" "tr_pending_calls calling_transcript = [sample_shell_call]"
    "tr_kind calling_transcript = Kind_agent" by (simp_all add: sample_shell_call_def calling_transcript_def)
  ultimately show ?thesis using sample_no_token
    by (simp add: answer_call_def no_answers_def sample_shell_call_runs split: prod.splits)
qed

lemma every_turn_is_answered_witness:
  "\<exists>s' a u. answer_calls (with_session_tools sample_tools id (\<lambda>st _. st) tools_outside) (tr_kind calling_transcript) False
     (tr_pending_calls calling_transcript) ((((), []), 0), calling_loop) no_answers = (s', Inr a)
    \<and> append_tool_results id calling_transcript (an_results a) = Inr u \<and> tr_pending_calls u = []"
proof -
  obtain s' a where a: "answer_calls (with_session_tools sample_tools id (\<lambda>st _. st) tools_outside) (tr_kind calling_transcript)
     False (tr_pending_calls calling_transcript) ((((), []), 0), calling_loop) no_answers = (s', Inr a)"
    using sample_answered by blast
  have "tr_pending_calls calling_transcript \<noteq> []" by (simp add: calling_transcript_def)
  from every_turn_is_answered [OF a [unfolded no_answers_def] calling_transcript_named this, of id] a show ?thesis by blast
qed

end
