(* ===== verification/Publication.thy ===== *)
theory Publication
  imports Reservations
begin

text \<open>
  \<open>begin_publication\<close>: the publication intent of a run (branch, head repository, draft state,
  publishing account and commit identities), its capacity reservation and the change to
  \<open>submitting\<close> become durable in one transaction, before the first remote write.
\<close>

section \<open>The intent\<close>

record publication_intent =
  intent_branch_name :: string
  intent_head_repository :: "string option"
  intent_publication_draft :: bool
  intent_ready_for_review :: bool
  intent_publishing_login :: string
  intent_publishing_api_origin :: string
  intent_commit_author_name :: string
  intent_commit_author_email :: string
  intent_commit_committer_name :: string
  intent_commit_committer_email :: string

definition canonical_intent_text :: "string \<Rightarrow> string \<Rightarrow> nat \<Rightarrow> string result" where
  "canonical_intent_text v field maximum =
     bind_r (bounded_text v field maximum) (\<lambda>normalized.
     if normalized \<noteq> v \<or> carriage_return \<in> set v \<or> newline \<in> set v then
       Inl (ValueError (field @ '' must be a canonical single-line value''))
     else Inr normalized)"

definition check_publication_intent :: "publication_intent \<Rightarrow> unit result" where
  "check_publication_intent i =
     (if intent_ready_for_review i \<and> \<not> intent_publication_draft i then
        Inl (ValueError ''ready-for-review publication must be staged as a draft'')
      else
        bind_r (canonical_intent_text (intent_branch_name i) ''publication branch name'' 255) (\<lambda>_.
        bind_r (case intent_head_repository i of None \<Rightarrow> Inr []
          | Some h \<Rightarrow> canonical_intent_text h ''publication head repository'' 255) (\<lambda>_.
        bind_r (canonical_intent_text (intent_publishing_login i) ''publishing login'' 255) (\<lambda>_.
        bind_r (canonical_intent_text (intent_publishing_api_origin i) ''publishing API origin'' 2048) (\<lambda>_.
        bind_r (canonical_intent_text (intent_commit_author_name i) ''commit author name'' 200) (\<lambda>_.
        bind_r (canonical_intent_text (intent_commit_author_email i) ''commit author email'' 320) (\<lambda>_.
        bind_r (canonical_intent_text (intent_commit_committer_name i) ''commit committer name'' 200) (\<lambda>_.
        bind_r (canonical_intent_text (intent_commit_committer_email i) ''commit committer email'' 320) (\<lambda>_.
        Inr ())))))))))"

text \<open>
  \<open>manifest_fields\<close> against a manifest: each field's name, and whether the manifest has the value
  the intent expects (\<open>None\<close>: no value yet).
\<close>

definition field_state :: "'a option \<Rightarrow> 'a \<Rightarrow> bool option" where
  "field_state actual expected = map_option (\<lambda>v. v = expected) actual"

definition intent_fields :: "publication_intent \<Rightarrow> run_manifest \<Rightarrow> (string \<times> bool option) list" where
  "intent_fields i m =
     [(''branch_name'', field_state (branch_name m) (intent_branch_name i))]
     @ (case intent_head_repository i of None \<Rightarrow> [] | Some h \<Rightarrow> [(''head_repository'', field_state (head_repository m) h)])
     @ [(''publication_draft'', field_state (publication_draft m) (intent_publication_draft i)),
        (''publication_ready_for_review'', field_state (publication_ready_for_review m) (intent_ready_for_review i)),
        (''publishing_login'', field_state (publishing_login m) (intent_publishing_login i)),
        (''publishing_api_origin'', field_state (publishing_api_origin m) (intent_publishing_api_origin i)),
        (''commit_author_name'', field_state (commit_author_name m) (intent_commit_author_name i)),
        (''commit_author_email'', field_state (commit_author_email m) (intent_commit_author_email i)),
        (''commit_committer_name'', field_state (commit_committer_name m) (intent_commit_committer_name i)),
        (''commit_committer_email'', field_state (commit_committer_email m) (intent_commit_committer_email i))]"

definition set_intent :: "publication_intent \<Rightarrow> run_manifest \<Rightarrow> run_manifest" where
  "set_intent i m = m\<lparr>branch_name := Some (intent_branch_name i),
     head_repository := (case intent_head_repository i of None \<Rightarrow> head_repository m | Some h \<Rightarrow> Some h),
     publication_draft := Some (intent_publication_draft i),
     publication_ready_for_review := Some (intent_ready_for_review i),
     publishing_login := Some (intent_publishing_login i),
     publishing_api_origin := Some (intent_publishing_api_origin i),
     commit_author_name := Some (intent_commit_author_name i),
     commit_author_email := Some (intent_commit_author_email i),
     commit_committer_name := Some (intent_commit_committer_name i),
     commit_committer_email := Some (intent_commit_committer_email i)\<rparr>"

definition bool_text :: "bool \<Rightarrow> string" where
  "bool_text b = (if b then ''true'' else ''false'')"

definition intent_details :: "publication_intent \<Rightarrow> string \<Rightarrow> (string \<times> string) list" where
  "intent_details i repo = [(''repository'', repo)]
     @ (case intent_head_repository i of None \<Rightarrow> [] | Some h \<Rightarrow> [(''head_repository'', h)])
     @ [(''branch'', intent_branch_name i), (''draft'', bool_text (intent_publication_draft i)),
        (''ready_for_review'', bool_text (intent_ready_for_review i)),
        (''publishing_login'', intent_publishing_login i), (''publishing_api_origin'', intent_publishing_api_origin i),
        (''commit_author_name'', intent_commit_author_name i), (''commit_author_email'', intent_commit_author_email i),
        (''commit_committer_name'', intent_commit_committer_name i),
        (''commit_committer_email'', intent_commit_committer_email i)]"

text \<open>A submitting run must have every field as intended; an approved one no other value.\<close>

definition check_intent_fields :: "publication_intent \<Rightarrow> run_manifest \<Rightarrow> unit result" where
  "check_intent_fields i m =
     (let missing = map fst (filter (\<lambda>f. status m = SUBMITTING \<and> snd f = None) (intent_fields i m));
          mismatches = map fst (filter (\<lambda>f. snd f = Some False) (intent_fields i m))
      in if missing \<noteq> [] then
           Inl (StateError (''Submitting run has incomplete durable publication intent: '' @ join '', '' (sort missing)))
         else if mismatches \<noteq> [] then
           Inl (StateError (''Publication request differs from durable intent: '' @ join '', '' (sort mismatches)))
         else Inr ())"

section \<open>Beginning\<close>

definition intent_events :: "db \<Rightarrow> string \<Rightarrow> event_row list" where
  "intent_events d rid = filter (\<lambda>e. ev_type e = ''publication.intent.begun'') (run_events d rid)"

text \<open>
  The intent already on record.  Details that are not an object of texts count as malformed, where
  the code may call a well-formed document of another shape different.
\<close>

definition check_recorded_intent :: "db \<Rightarrow> string \<Rightarrow> run_status \<Rightarrow> (string \<times> string) list \<Rightarrow> unit result" where
  "check_recorded_intent d rid previous details = (case intent_events d rid of
     [] \<Rightarrow> Inr ()
   | e # rest \<Rightarrow>
     if rest \<noteq> [] then Inl (StateError (''Run '' @ rid @ '' has duplicate publication intent events''))
     else (case loads_details (ev_details e) of
       None \<Rightarrow> Inl (StateError ''Publication intent event contains malformed details'')
     | Some stored \<Rightarrow>
       if \<not> dict_eq stored details then
         Inl (StateError (''Run '' @ rid @ '' already began with different publication intent''))
       else if previous \<noteq> SUBMITTING then
         Inl (StateError (''Run '' @ rid @ '' publication intent disagrees with its status''))
       else Inr ()))"

definition begin_guard :: "dump \<Rightarrow> run_manifest \<Rightarrow> run_row \<Rightarrow> bool" where
  "begin_guard J m r \<longleftrightarrow> row_status r = status m \<and> row_updated_at r = updated_at m \<and> J (row_manifest r) = J m"

definition begun_row :: "issue_candidate \<Rightarrow> run_manifest \<Rightarrow> run_row \<Rightarrow> run_row" where
  "begun_row c pending r = r\<lparr>row_status := SUBMITTING, row_repository := Some (issue_repository c),
     row_issue_number := Some (issue_number c), row_updated_at := updated_at pending, row_manifest := pending\<rparr>"

text \<open>The guarded change to \<open>submitting\<close> with its event.\<close>

definition submit_row :: "digest \<Rightarrow> dump \<Rightarrow> db \<Rightarrow> run_manifest \<Rightarrow> issue_candidate \<Rightarrow> run_manifest \<Rightarrow> string
    \<Rightarrow> instant \<Rightarrow> db result" where
  "submit_row H J d m c pending rid clock' =
     (let (rs, rowcount) = update_run (runs d) rid (begin_guard J m) (begun_row c pending) in
      if rowcount \<noteq> 1 then Inl (StateError (''Run '' @ rid @ '' changed while publication was beginning''))
      else
        bind_r (write_runs d rs) (\<lambda>d1.
        append_event H d1 rid ''run.transitioned''
          (transition_details (status m) SUBMITTING ''authorized publication intent persisted'') None clock'))"

definition begin_transaction :: "digest \<Rightarrow> dump \<Rightarrow> db \<Rightarrow> run_manifest \<Rightarrow> issue_candidate \<Rightarrow> run_manifest
    \<Rightarrow> publication_reservation_request \<Rightarrow> (string \<times> string) list \<Rightarrow> instant \<Rightarrow> db result" where
  "begin_transaction H J d m c pending req details clock' =
     (let rid = req_run_id req; changed = (status m \<noteq> SUBMITTING) in
      case find_run d rid of
        None \<Rightarrow> Inl (StateError (''Unknown run: '' @ rid))
      | Some row \<Rightarrow>
        if \<not> begin_guard J m row then
          Inl (StateError (''Run '' @ rid @ '' changed while publication was beginning''))
        else
          bind_r (check_recorded_intent d rid (status m) details) (\<lambda>_.
          bind_r (reserve_in_transaction H d req clock') (\<lambda>(d1, _).
          bind_r (if changed then submit_row H J d1 m c pending rid clock' else Inr d1) (\<lambda>d2.
          bind_r (if intent_events d rid = []
            then append_event H d2 rid ''publication.intent.begun'' details None clock' else Inr d2) (\<lambda>d3.
          if changed then mark_manifest_artifact_sync H J d3 rid (updated_at pending) pending else Inr d3)))))"

text \<open>
  The arguments: a run that may begin, its capacity request, its candidate; and the pending
  manifest with the intent, submitting and with a later time unless it already was.
\<close>

definition begin_arguments :: "run_manifest \<Rightarrow> string \<Rightarrow> publication_intent \<Rightarrow> int \<Rightarrow> timedelta
    \<Rightarrow> datetime option \<Rightarrow> instant \<Rightarrow> instant
    \<Rightarrow> (publication_reservation_request \<times> issue_candidate \<times> run_manifest) result" where
  "begin_arguments m repo i maximum cooldown now clock clock_update =
     (if status m \<notin> {APPROVED, SUBMITTING} then
        Inl (StateError (''Run '' @ run_id m @ '' cannot begin publication from '' @ status_value (status m)))
      else
        bind_r (reservation_request (run_id m) repo maximum cooldown now clock) (\<lambda>req.
        bind_r (check_publication_intent i) (\<lambda>_.
        case candidate m of
          None \<Rightarrow> Inl (StateError (''Run '' @ run_id m @ '' lacks a publication candidate''))
        | Some c \<Rightarrow>
          bind_r (repository_identity (issue_repository c)) (\<lambda>key.
          if key \<noteq> req_repository req then
            Inl (StateError (''Run '' @ run_id m @ '' does not belong to '' @ req_repository req))
          else
            bind_r (check_intent_fields i m) (\<lambda>_.
            if status m = SUBMITTING then Inr (req, c, set_intent i m)
            else bind_r (next_run_update_time (updated_at m) clock_update) (\<lambda>t.
              Inr (req, c, (set_intent i m)\<lparr>status := SUBMITTING, updated_at := t\<rparr>)))))))"

definition begin_publication :: "digest \<Rightarrow> dump \<Rightarrow> writer \<Rightarrow> db \<Rightarrow> run_manifest \<Rightarrow> string \<Rightarrow> publication_intent
    \<Rightarrow> int \<Rightarrow> timedelta \<Rightarrow> datetime option \<Rightarrow> instant \<Rightarrow> instant \<Rightarrow> instant \<Rightarrow> db \<times> run_manifest \<times> unit result" where
  "begin_publication H J wr d m repo i maximum cooldown now clock clock_update clock' =
     (case bind_r (begin_arguments m repo i maximum cooldown now clock clock_update) (\<lambda>(req, c, pending).
           bind_r (begin_transaction H J d m c pending req (intent_details i (req_repository req)) clock') (\<lambda>d1.
           Inr (d1, pending))) of
        Inl e \<Rightarrow> (d, m, Inl e)
      | Inr (d1, pending) \<Rightarrow>
        if status m = SUBMITTING then (d1, m, Inr ())
        else (case synchronize_manifest_artifact H J wr d1 (run_id pending) (updated_at pending) (H (J pending)) of
            Inl e \<Rightarrow> (d1, pending, Inl e)
          | Inr x \<Rightarrow> (fst x, pending, Inr ())))"

section \<open>What appended events leave\<close>

lemma appended_trans: "appended H d d1 \<Longrightarrow> appended H d1 d2 \<Longrightarrow> appended H d d2"
  by (auto simp: appended_def same_rows_def intro: same_outside_ledger_trans)

lemma appended_refl: "ledger_sound H d \<Longrightarrow> runs_ok (runs d) \<Longrightarrow> appended H d d"
  by (simp add: appended_def same_outside_ledger_def)

lemma appended_wf:
  assumes "appended H d d'" and "store_wf H J d"
  shows "store_wf H J d'"
proof -
  have "manifest_artifact_sync d' = manifest_artifact_sync d"
    using assms(1) same_outside_ledgerD(1) by (auto simp: appended_def)
  with assms show ?thesis
    using same_rows_agree [of d d' H] marker_ok_rows [of d d' _ H J] by (auto simp: appended_def store_wf_def)
qed

lemma append_event_last:
  assumes "append_event H d rid etype details oc clock = Inr d'" and "ledger_sound H d"
  shows "\<exists>e. events d' = events d @ [e] \<and> ev_run_id e = rid \<and> ev_type e = etype \<and> ev_details e = canonical_details details"
proof -
  have "distinct (map row_run_id (runs d))" using assms(2) by (simp add: ledger_sound_def)
  from append_eventD [OF assms(1) this] show ?thesis by auto
qed

text \<open>Other events and other tables do not touch the reservations.\<close>

definition reserved_events :: "db \<Rightarrow> event_row list" where
  "reserved_events d = filter (\<lambda>e. ev_type e = ''publication.reserved'') (events d)"

lemma reservations_ok_cong:
  assumes "reserved_events d' = reserved_events d" and "publication_reservations d' = publication_reservations d"
    and "row_run_id ` set (runs d') = row_run_id ` set (runs d)"
  shows "reservations_ok d' \<longleftrightarrow> reservations_ok d"
  using assms by (simp add: reservations_ok_def publication_evidence_def reserved_events_def)

text \<open>The intent events of a run, and how an operation changes them.\<close>

lemma intent_events_append:
  assumes "events d' = events d @ [e]"
  shows "intent_events d' rid = intent_events d rid
    @ (if ev_type e = ''publication.intent.begun'' \<and> ev_run_id e = rid then [e] else [])"
  using assms by (simp add: intent_events_def run_events_def)

lemma reserve_intents:
  assumes "reserve_in_transaction H d req clock' = Inr (d', p)" and "ledger_sound H d" and "reservations_ok d"
  shows "intent_events d' rid = intent_events d rid"
  using assms
proof (cases rule: reserve_cases)
  case (reserved d2)
  have "ledger_sound H d2" using assms(2) ledger_sound_anchors [of d2 d H] by (simp add: reserved(4))
  from append_event_last [OF reserved(5) this] obtain e where "events d' = events d2 @ [e]" "ev_type e = ''publication.reserved''"
    by blast
  then show ?thesis using intent_events_append [of d' d2 e rid] by (simp add: reserved(4) intent_events_def run_events_def)
qed simp

lemma reserve_wf:
  assumes "reserve_in_transaction H d req clock' = Inr (d', p)" and "store_wf H J d" and "reservations_ok d"
  shows "store_wf H J d'" and "manifest_files d' = manifest_files d"
proof -
  have s: "ledger_sound H d" using assms(2) by (simp add: store_wf_def)
  have "store_wf H J d' \<and> manifest_files d' = manifest_files d"
    using assms(1) s assms(3)
  proof (cases rule: reserve_cases)
    case (reserved d2)
    have c: "cleared d d2" by (simp add: cleared_def reserved(4))
    have w2: "store_wf H J d2" by (rule cleared_wf [OF c assms(2)])
    then have "ledger_sound H d2" by (simp add: store_wf_def)
    then have app: "appended H d2 d'" by (rule append_event_appended [OF reserved(5)])
    then have "manifest_files d' = manifest_files d2" using same_outside_ledgerD(2) by (auto simp: appended_def)
    with appended_wf [OF app w2] show ?thesis by (simp add: reserved(4))
  qed (use assms(2) in simp)
  then show "store_wf H J d'" and "manifest_files d' = manifest_files d" by simp_all
qed

section \<open>The intent on record\<close>

lemma intent_details_keys: "distinct (map fst (intent_details i repo))"
  by (simp add: intent_details_def split: option.splits)

lemma intent_details_back:
  "loads_details (canonical_details (intent_details i repo)) = Some (sort_key fst (intent_details i repo))"
  unfolding canonical_details_def by (rule loads_dumps' [OF intent_details_keys])

lemma dict_eq_sorted: "dict_eq (sort_key fst kvs) kvs"
  by (simp add: dict_eq_def sort_key_id_if_sorted)

lemma bool_text_inject [simp]: "bool_text a = bool_text b \<longleftrightarrow> a = b"
  by (simp add: bool_text_def)

text \<open>The details determine the intent.\<close>

lemma intent_details_inject:
  assumes "dict_eq (sort_key fst (intent_details i repo)) (intent_details j repo)"
  shows "i = j"
proof -
  have "set (intent_details i repo) = set (intent_details j repo)"
    using arg_cong [OF assms [unfolded dict_eq_def], of set] by simp
  then have m: "x \<in> set (intent_details i repo) \<longleftrightarrow> x \<in> set (intent_details j repo)" for x by simp
  have "(''branch'', intent_branch_name i) \<in> set (intent_details j repo)"
    "(''draft'', bool_text (intent_publication_draft i)) \<in> set (intent_details j repo)"
    "(''ready_for_review'', bool_text (intent_ready_for_review i)) \<in> set (intent_details j repo)"
    "(''publishing_login'', intent_publishing_login i) \<in> set (intent_details j repo)"
    "(''publishing_api_origin'', intent_publishing_api_origin i) \<in> set (intent_details j repo)"
    "(''commit_author_name'', intent_commit_author_name i) \<in> set (intent_details j repo)"
    "(''commit_author_email'', intent_commit_author_email i) \<in> set (intent_details j repo)"
    "(''commit_committer_name'', intent_commit_committer_name i) \<in> set (intent_details j repo)"
    "(''commit_committer_email'', intent_commit_committer_email i) \<in> set (intent_details j repo)"
    unfolding m [symmetric] by (simp_all add: intent_details_def)
  moreover have "(''head_repository'', h) \<in> set (intent_details k repo) \<longleftrightarrow> intent_head_repository k = Some h" for h k
    by (auto simp: intent_details_def split: option.splits)
  then have "intent_head_repository i = intent_head_repository j"
    using m by (metis option.exhaust)
  ultimately show ?thesis
    by (auto simp: intent_details_def split: option.splits intro!: publication_intent.equality)
qed

lemma set_intent_fields: "\<forall>f\<in>set (intent_fields i (set_intent i m)). snd f = Some True"
  by (simp add: intent_fields_def set_intent_def field_state_def split: option.splits)

lemma set_intent_simps [simp]:
  "run_id (set_intent i m) = run_id m" "status (set_intent i m) = status m" "updated_at (set_intent i m) = updated_at m"
  "candidate (set_intent i m) = candidate m"
  by (simp_all add: set_intent_def)

lemma intent_fields_update [simp]:
  "intent_fields i (m\<lparr>status := s, updated_at := t\<rparr>) = intent_fields i m"
  by (simp add: intent_fields_def split: option.splits)

lemma check_intent_fields_set: "check_intent_fields i ((set_intent i m)\<lparr>status := s, updated_at := t\<rparr>) = Inr ()"
  using set_intent_fields [of i m] by (auto simp: check_intent_fields_def Let_def filter_empty_conv)

section \<open>A publication that has begun\<close>

lemma reserved_events_append:
  assumes "events d' = events d @ [e]" and "ev_type e \<noteq> ''publication.reserved''"
  shows "reserved_events d' = reserved_events d"
  using assms by (simp add: reserved_events_def)

lemma same_rows_id_set: "same_rows d d' \<Longrightarrow> row_run_id ` set (runs d') = row_run_id ` set (runs d)"
  using same_rows_ids [of d d'] by (metis list.set_map)

text \<open>An appended event of another kind keeps the reservations and their evidence.\<close>

lemma append_keeps_reservations:
  assumes "append_event H d rid etype details oc clock = Inr d'" and "ledger_sound H d"
    and "etype \<noteq> ''publication.reserved''"
  shows "reservations_ok d' \<longleftrightarrow> reservations_ok d" and "publication_reservations d' = publication_reservations d"
proof -
  obtain e where e: "events d' = events d @ [e]" "ev_type e = etype"
    using append_event_last [OF assms(1,2)] by blast
  have app: "appended H d d'" by (rule append_event_appended [OF assms(1,2)])
  then show pr: "publication_reservations d' = publication_reservations d"
    using same_outside_ledgerD(4) by (auto simp: appended_def)
  show "reservations_ok d' \<longleftrightarrow> reservations_ok d"
    by (rule reservations_ok_cong [OF reserved_events_append [OF e(1)] pr same_rows_id_set])
       (use e(2) assms(3) app in \<open>simp_all add: appended_def\<close>)
qed

lemma submit_row_Inr:
  assumes "submit_row H J d m c pending rid clock' = Inr d'" and "ledger_sound H d"
  obtains rs d1 where "update_run (runs d) rid (begin_guard J m) (begun_row c pending) = (rs, 1)"
    and "write_runs d rs = Inr d1" and "ledger_sound H d1"
    and "append_event H d1 rid ''run.transitioned''
          (transition_details (status m) SUBMITTING ''authorized publication intent persisted'') None clock' = Inr d'"
proof -
  obtain rs n where u: "update_run (runs d) rid (begin_guard J m) (begun_row c pending) = (rs, n)"
    by (cases "update_run (runs d) rid (begin_guard J m) (begun_row c pending)")
  from assms(1) u obtain d1 where w: "write_runs d rs = Inr d1" and n: "n = 1"
    and a: "append_event H d1 rid ''run.transitioned''
          (transition_details (status m) SUBMITTING ''authorized publication intent persisted'') None clock' = Inr d'"
    by (auto simp: submit_row_def result_simps split: if_splits)
  have "anchor_of (begun_row c pending x) = anchor_of x" for x by (simp add: anchor_of_def begun_row_def)
  then have "ledger_sound H d1"
    using assms(2) ledger_sound_anchors [of d1 d H] w u by (auto simp: write_runs_Inr update_run_def)
  with u w n a that show thesis by blast
qed

lemma begin_transaction_begun:
  assumes t: "begin_transaction H J d m c pending req details clock' = Inr d'" and m: "status m = APPROVED"
    and wf: "store_wf H J d" "reservations_ok d" and req: "request_ok req"
    and n: "length (publication_reservations d) < max_run_corpus"
    and r: "find_run d (req_run_id req) = Some r" "row_manifest r = m"
    and c: "candidate m = Some c"
    and pending: "run_id pending = run_id m" "status pending = SUBMITTING" "candidate pending = Some c"
  shows "store_wf H J d'" and "reservations_ok d'"
    and "\<exists>r'. find_run d' (req_run_id req) = Some r' \<and> blank r' = blank (begun_row c pending r)"
    and "\<exists>x. reservation_of (publication_reservations d') (req_run_id req) = Some x
      \<and> repository_identity (pres_repository x) = Inr (req_repository req) \<and> fromisoformat (pres_reserved_at x) \<noteq> None"
    and "\<exists>e. intent_events d' (req_run_id req) = [e] \<and> ev_details e = canonical_details details"
    and "manifest_artifact_sync d' (req_run_id req) = Some \<lparr>sync_updated_at = updated_at pending, sync_manifest_sha256 = H (J pending)\<rparr>"
proof -
  define rid where "rid = req_run_id req"
  have none: "intent_events d rid = []"
    using t r m by (auto simp: begin_transaction_def check_recorded_intent_def rid_def Let_def result_simps
        split: list.splits option.splits if_splits)
  from t r m none obtain d1 p d2 d3 where res: "reserve_in_transaction H d req clock' = Inr (d1, p)"
    and sub: "submit_row H J d1 m c pending rid clock' = Inr d2"
    and int: "append_event H d2 rid ''publication.intent.begun'' details None clock' = Inr d3"
    and mk: "mark_manifest_artifact_sync H J d3 rid (updated_at pending) pending = Inr d'"
    and g: "begin_guard J m r"
    by (auto simp: begin_transaction_def rid_def Let_def result_simps split: if_splits)
  have s: "ledger_sound H d" using wf by (simp add: store_wf_def)
  note keep = reserve_keeps [OF res s wf(2) req n]
  have wf1: "store_wf H J d1" by (rule reserve_wf(1) [OF res wf])
  have s1: "ledger_sound H d1" using keep by simp
  from reserve_run(1) [OF res s wf(2)] obtain r1 where r1: "find_run d1 rid = Some r1" "blank r = blank r1"
    using same_rows_find_Some' r(1) rid_def by blast
  note b1 = blank_eqD [OF r1(2)]
  have g1: "begin_guard J m r1" using g b1 by (simp add: begin_guard_def)
  from submit_row_Inr [OF sub s1] obtain rs da where u: "update_run (runs d1) rid (begin_guard J m) (begun_row c pending) = (rs, 1)"
    and w: "write_runs d1 rs = Inr da" and sa: "ledger_sound H da"
    and tr: "append_event H da rid ''run.transitioned''
          (transition_details (status m) SUBMITTING ''authorized publication intent persisted'') None clock' = Inr d2"
    by blast
  have ap2: "appended H da d2" by (rule append_event_appended [OF tr sa])
  then have s2: "ledger_sound H d2" by (simp add: appended_def)
  have ap3: "appended H da d3" by (rule appended_trans [OF ap2 append_event_appended [OF int s2]])
  have anchors: "anchor_of (begun_row c pending x) = anchor_of x" for x by (simp add: anchor_of_def begun_row_def)
  have "row_agrees H r" using find_run_SomeD [OF r(1)] wf(1) by (simp add: store_wf_def)
  then have agrees: "row_agrees H (begun_row c pending r1)"
    using b1 r(2) pending c by (simp add: row_agrees_def begun_row_def Let_def)
  note st = store_update [OF wf1 r1(1) g1 u w anchors agrees ap3 mk]
  then show "store_wf H J d'" by blast
  from st obtain r' where r': "find_run d' rid = Some r'" "blank r' = blank (begun_row c pending r1)" by blast
  have "blank (begun_row c pending r1) = begun_row c pending (blank r1)" for r1 by (simp add: blank_def begun_row_def)
  then have "blank r' = blank (begun_row c pending r)" using r'(2) r1(2) by simp
  with r'(1) show "\<exists>r'. find_run d' (req_run_id req) = Some r' \<and> blank r' = blank (begun_row c pending r)"
    by (auto simp: rid_def)
  have da: "events da = events d1" "publication_reservations da = publication_reservations d1"
    "row_run_id ` set (runs da) = row_run_id ` set (runs d1)"
  proof -
    have "map row_run_id rs = map row_run_id (runs d1)"
      by (rule update_run_ids [OF _ u]) (simp add: begun_row_def)
    then show "row_run_id ` set (runs da) = row_run_id ` set (runs d1)"
      using w by (simp add: write_runs_Inr) (metis list.set_map)
  qed (use w in \<open>simp_all add: write_runs_Inr\<close>)
  have oka: "reservations_ok da"
    using keep reservations_ok_cong [of da d1] da by (simp add: reserved_events_def)
  have d': "events d' = events d3" "publication_reservations d' = publication_reservations d3" "runs d' = runs d3"
    "manifest_artifact_sync d' rid = Some \<lparr>sync_updated_at = updated_at pending, sync_manifest_sha256 = H (J pending)\<rparr>"
    using mk by (auto simp: mark_Inr)
  then show "manifest_artifact_sync d' (req_run_id req) = Some \<lparr>sync_updated_at = updated_at pending, sync_manifest_sha256 = H (J pending)\<rparr>"
    by (simp add: rid_def)
  note k2 = append_keeps_reservations [OF tr sa] and k3 = append_keeps_reservations [OF int s2]
  show "reservations_ok d'"
    using reservations_ok_cong [of d' d3] d' k2(1) k3(1) oka by (simp add: reserved_events_def)
  from reserve_recorded(1) [OF res s wf(2) req n] k2(2) k3(2) da(2) d'(2)
  show "\<exists>x. reservation_of (publication_reservations d') (req_run_id req) = Some x
      \<and> repository_identity (pres_repository x) = Inr (req_repository req) \<and> fromisoformat (pres_reserved_at x) \<noteq> None"
    by auto
  obtain e2 where e2: "events d2 = events da @ [e2]" "ev_type e2 = ''run.transitioned''"
    using append_event_last [OF tr sa] by blast
  obtain e3 where e3: "events d3 = events d2 @ [e3]" "ev_run_id e3 = rid" "ev_type e3 = ''publication.intent.begun''"
    "ev_details e3 = canonical_details details"
    using append_event_last [OF int s2] by blast
  have "intent_events da rid = []"
    using reserve_intents [OF res s wf(2), of rid] none da(1) by (simp add: intent_events_def run_events_def)
  then have "intent_events d3 rid = [e3]"
    using intent_events_append [OF e2(1), of rid] intent_events_append [OF e3(1), of rid] e2(2) e3 by simp
  then have "intent_events d' rid = [e3]" using d'(1) by (simp add: intent_events_def run_events_def)
  with e3(4) show "\<exists>e. intent_events d' (req_run_id req) = [e] \<and> ev_details e = canonical_details details"
    by (simp add: rid_def)
qed

lemma begin_arguments_Inr:
  assumes "begin_arguments m repo i maximum cooldown now clock clock_update = Inr (req, c, pending)"
  shows "reservation_request (run_id m) repo maximum cooldown now clock = Inr req" and "check_publication_intent i = Inr ()"
    and "candidate m = Some c" and "repository_identity (issue_repository c) = Inr (req_repository req)"
    and "status m = APPROVED \<Longrightarrow> \<exists>t. updated_at m < t \<and> pending = (set_intent i m)\<lparr>status := SUBMITTING, updated_at := t\<rparr>"
  using assms
  by (auto simp: begin_arguments_def result_simps split: if_splits option.splits dest: next_run_update_time_Inr)

lemma begin_publication_approved:
  assumes "begin_publication H J wr d m repo i maximum cooldown now clock clock_update clock' = (d', m', Inr ())"
    and "status m = APPROVED"
  obtains req c pending d1 y where "begin_arguments m repo i maximum cooldown now clock clock_update = Inr (req, c, pending)"
    and "begin_transaction H J d m c pending req (intent_details i (req_repository req)) clock' = Inr d1"
    and "synchronize_manifest_artifact H J wr d1 (run_id pending) (updated_at pending) (H (J pending)) = Inr y"
    and "d' = fst y" and "m' = pending"
proof (cases "begin_arguments m repo i maximum cooldown now clock clock_update")
  case (Inr a)
  obtain req c pending where a: "a = (req, c, pending)" by (cases a)
  show thesis
  proof (cases "begin_transaction H J d m c pending req (intent_details i (req_repository req)) clock'")
    case t: (Inr d1)
    show thesis
      by (cases "synchronize_manifest_artifact H J wr d1 (run_id pending) (updated_at pending) (H (J pending))")
         (use assms Inr a t that in \<open>simp_all add: begin_publication_def\<close>)
  qed (use assms Inr a in \<open>simp add: begin_publication_def\<close>)
qed (use assms in \<open>simp add: begin_publication_def\<close>)

text \<open>What a first beginning that returned has found and what it leaves.\<close>

lemma begin_publication_begun:
  assumes b: "begin_publication H J wr d m repo i maximum cooldown now clock clock_update clock' = (d', m', Inr ())"
    and wf: "store_wf H J d" "reservations_ok d" and g: "get_run d rid = Inr m" "strip rid = rid" and st: "status m = APPROVED"
    and t: "is_owner_name repo" "now_or now clock = Aware t" "supported t"
    and n: "length (publication_reservations d) < max_run_corpus"
  obtains req c r x e where "reservation_request rid repo maximum cooldown now clock = Inr req"
    and "req_run_id req = rid" and "req_repository req = nocase repo" and "check_publication_intent i = Inr ()"
    and "candidate m' = Some c" and "repository_identity (issue_repository c) = Inr (nocase repo)"
    and "run_id m' = rid" and "status m' = SUBMITTING" and "updated_at m < updated_at m'" and "check_intent_fields i m' = Inr ()"
    and "store_wf H J d'" and "reservations_ok d'"
    and "find_run d' rid = Some r" and "row_status r = SUBMITTING" and "row_manifest r = m'" and "row_updated_at r = updated_at m'"
    and "row_repository r = Some (issue_repository c)"
    and "reservation_of (publication_reservations d') rid = Some x" and "repository_identity (pres_repository x) = Inr (nocase repo)"
    and "fromisoformat (pres_reserved_at x) \<noteq> None"
    and "intent_events d' rid = [e]" and "ev_details e = canonical_details (intent_details i (nocase repo))"
    and "manifest_files d' rid = Some m'"
proof -
  from g(1) obtain r0 where r0: "find_run d rid = Some r0" "row_manifest r0 = m"
    by (auto simp: get_run_def split: option.splits dest: validate_manifest_Inr)
  have rid: "run_id m = rid"
    using wf(1) find_run_SomeD [OF r0(1)] r0(2) by (auto simp: store_wf_def row_agrees_def Let_def)
  from b st obtain req c pending d1 y where a: "begin_arguments m repo i maximum cooldown now clock clock_update = Inr (req, c, pending)"
    and tr: "begin_transaction H J d m c pending req (intent_details i (req_repository req)) clock' = Inr d1"
    and sy: "synchronize_manifest_artifact H J wr d1 (run_id pending) (updated_at pending) (H (J pending)) = Inr y"
    and d': "d' = fst y" and m': "m' = pending"
    by (rule begin_publication_approved)
  note ar = begin_arguments_Inr [OF a]
  note rq = request_Inr [OF ar(1)[unfolded rid] t]
  have req_rid: "req_run_id req = rid" using rq(2) g(2) by simp
  from ar(5) [OF st] obtain u where u: "updated_at m < u" "pending = (set_intent i m)\<lparr>status := SUBMITTING, updated_at := u\<rparr>"
    by blast
  then have p: "run_id pending = run_id m" "status pending = SUBMITTING" "candidate pending = Some c" "updated_at pending = u"
    using ar(3) by simp_all
  note bt = begin_transaction_begun [OF tr st wf rq(1) n r0(1)[folded req_rid] r0(2) ar(3) p(1-3), unfolded req_rid rq(3)]
  from bt(3) obtain r where r: "find_run d1 rid = Some r" "blank r = blank (begun_row c pending r0)" by blast
  note br = blank_eqD [OF r(2)]
  from bt(4) obtain x where x: "reservation_of (publication_reservations d1) rid = Some x"
    "repository_identity (pres_repository x) = Inr (nocase repo)" "fromisoformat (pres_reserved_at x) \<noteq> None" by blast
  from bt(5) obtain e where e: "intent_events d1 rid = [e]" "ev_details e = canonical_details (intent_details i (nocase repo))"
    by blast
  have "publish_artifact H J wr d1 rid u (H (J pending)) = Inr (d', snd y)"
    using sy p rid d' by (simp add: synchronize_Inr)
  then have same: "runs d' = runs d1 \<and> events d' = events d1 \<and> publication_reservations d' = publication_reservations d1
      \<and> cleared d1 d' \<and> manifest_files d' rid = Some pending"
    by (cases rule: publish_cases) (use bt(6) r br p in \<open>auto simp: cleared_def map_le_def begun_row_def\<close>)
  have eqs: "find_run d' rid = find_run d1 rid" "intent_events d' rid = intent_events d1 rid"
    "publication_reservations d' = publication_reservations d1" "manifest_files d' rid = Some m'"
    using same m' by (simp_all only: find_run_def intent_events_def run_events_def)
  have ok: "reservations_ok d'"
    using reservations_ok_cong [of d' d1] same bt(2) by (simp only: reserved_events_def)
  have wf': "store_wf H J d'" using same cleared_wf bt(1) by blast
  have ci: "check_intent_fields i m' = Inr ()" by (simp only: m' u(2) check_intent_fields_set)
  have rows: "row_status r = SUBMITTING" "row_manifest r = m'" "row_updated_at r = updated_at m'"
    "row_repository r = Some (issue_repository c)"
    using br p(4) by (simp_all add: begun_row_def m')
  have ms: "candidate m' = Some c" "run_id m' = rid" "status m' = SUBMITTING" "updated_at m < updated_at m'"
    using p rid u(1) by (simp_all only: m')
  show thesis
    by (rule that [OF ar(1) [unfolded rid] req_rid rq(3) ar(2) ms(1) ar(4) [unfolded rq(3)] ms(2-4) ci wf' ok
        r(1) [folded eqs(1)] rows x(1) [folded eqs(3)] x(2,3) e(1) [folded eqs(2)] e(2) eqs(4)])
qed

text \<open>
  C9. When begin_publication returns for an approved run of a consistent store (a run identifier
  without white space around it, a valid repository name, a reservation time in the range of
  datetime, fewer reservations than the corpus bound), everything a remote write relies on is
  durable: the run is submitting with the intended fields and a newer update time, its manifest
  artifact is published, its capacity is reserved, exactly one intent event with the canonical
  details of the intent is on the ledger, and the store and reservation invariants hold.
\<close>

theorem publication_begins_durably:
  assumes "store_wf H J d" and "reservations_ok d" and "get_run d rid = Inr m" and "strip rid = rid" and "status m = APPROVED"
    and "is_owner_name repo" and "now_or now clock = Aware t" and "supported t"
    and "length (publication_reservations d) < max_run_corpus"
    and "begin_publication H J wr d m repo i maximum cooldown now clock clock_update clock' = (d', m', Inr ())"
  shows "store_wf H J d' \<and> reservations_ok d'
    \<and> (\<exists>r. find_run d' rid = Some r \<and> row_status r = SUBMITTING \<and> row_manifest r = m')
    \<and> updated_at m < updated_at m' \<and> check_intent_fields i m' = Inr () \<and> manifest_files d' rid = Some m'
    \<and> rid \<in> pres_run_id ` set (publication_reservations d')
    \<and> (\<exists>e. intent_events d' rid = [e]
        \<and> loads_details (ev_details e) = Some (sort_key fst (intent_details i (nocase repo))))"
proof (rule begin_publication_begun [OF assms(10,1-9)], goal_cases)
  case (1 req c r x e)
  have "x \<in> set (publication_reservations d')" "pres_run_id x = rid"
    using reservation_of_SomeD [OF 1(18)] by simp_all
  then have "rid \<in> pres_run_id ` set (publication_reservations d')" by force
  with 1 show ?case using intent_details_back by metis
qed

text \<open>
  C10. After a publication has begun, beginning it again with the same intent changes nothing
  and succeeds, and beginning it with any other intent is refused and changes nothing; the
  identifier, the repository name and the times of the two reservation requests are valid, and
  the reservations are below the corpus bound.
\<close>

theorem publication_intent_is_final:
  assumes "store_wf H J d" and "reservations_ok d" and "get_run d rid = Inr m" and "strip rid = rid" and "status m = APPROVED"
    and "is_owner_name repo" and "now_or now clock = Aware t" and "supported t"
    and "length (publication_reservations d) < max_run_corpus"
    and "begin_publication H J wr d m repo i maximum cooldown now clock clock_update clock' = (d', m', Inr ())"
    and "returns (reservation_request rid repo maximum2 cooldown2 now2 clock2)"
    and "now_or now2 clock2 = Aware t2" and "supported t2"
  shows "if j = i
    then begin_publication H J wr d' m' repo j maximum2 cooldown2 now2 clock2 cu c2' = (d', m', Inr ())
    else \<exists>e. begin_publication H J wr d' m' repo j maximum2 cooldown2 now2 clock2 cu c2' = (d', m', Inl e)"
proof (rule begin_publication_begun [OF assms(10,1-9)])
  fix req c r x e
  assume ci: "check_publication_intent i = Inr ()"
    and c: "candidate m' = Some c" "repository_identity (issue_repository c) = Inr (nocase repo)"
    and m': "run_id m' = rid" "status m' = SUBMITTING" "check_intent_fields i m' = Inr ()"
    and wf: "store_wf H J d'" "reservations_ok d'"
    and r: "find_run d' rid = Some r" "row_status r = SUBMITTING" "row_manifest r = m'" "row_updated_at r = updated_at m'"
      "row_repository r = Some (issue_repository c)"
    and x: "reservation_of (publication_reservations d') rid = Some x" "repository_identity (pres_repository x) = Inr (nocase repo)"
      "fromisoformat (pres_reserved_at x) \<noteq> None"
    and e: "intent_events d' rid = [e]" "ev_details e = canonical_details (intent_details i (nocase repo))"
  obtain req2 where req2: "reservation_request rid repo maximum2 cooldown2 now2 clock2 = Inr req2"
    using assms(11) by (auto simp: returns_iff)
  note rq2 = request_Inr [OF req2 assms(6,12,13)]
  have rr: "req_run_id req2 = rid" "req_repository req2 = nocase repo" using rq2 assms(4) by simp_all
  have guard: "begin_guard J m' r" using r m' by (simp add: begin_guard_def)
  have stored: "loads_details (ev_details e) = Some (sort_key fst (intent_details i (nocase repo)))"
    using intent_details_back by (simp add: e(2))
  have sound: "ledger_sound H d'" using wf(1) by (simp add: store_wf_def)
  show ?thesis
  proof (cases "j = i")
    case True
    obtain u where u: "fromisoformat (pres_reserved_at x) = Some u" using x(3) by auto
    have args: "begin_arguments m' repo i maximum2 cooldown2 now2 clock2 cu = Inr (req2, c, set_intent i m')"
      by (simp add: begin_arguments_def m' req2 ci c rr)
    have own: "\<forall>stored. row_repository r = Some stored \<longrightarrow> repository_identity stored = Inr (req_repository req2)"
      using r(5) c(2) by (simp add: rr)
    have res: "reserve_in_transaction H d' req2 c2' = Inr (d', \<lparr>pr_run_id = rid, pr_repository = nocase repo, pr_reserved_at = u\<rparr>)"
      using reserve_existing [OF sound wf(2) _ own] r(1) x(1,2) u by (simp add: rr)
    have rec: "check_recorded_intent d' rid SUBMITTING (intent_details i (nocase repo)) = Inr ()"
      by (simp add: check_recorded_intent_def e(1) stored dict_eq_sorted)
    have "begin_transaction H J d' m' c (set_intent i m') req2 (intent_details i (nocase repo)) c2' = Inr d'"
      by (simp add: begin_transaction_def rr r(1) guard m'(2) rec res e(1))
    then show ?thesis using True args by (simp add: begin_publication_def rr m'(2))
  next
    case False
    have "\<not> dict_eq (sort_key fst (intent_details i (nocase repo))) (intent_details j (nocase repo))"
      using intent_details_inject [of i "nocase repo" j] False by blast
    then have rec: "\<exists>err. check_recorded_intent d' rid SUBMITTING (intent_details j (nocase repo)) = Inl err"
      by (simp add: check_recorded_intent_def e(1) stored)
    have "\<exists>err. begin_transaction H J d' m' c' p req2 (intent_details j (nocase repo)) c2' = Inl err" for c' p
      using rec by (auto simp: begin_transaction_def rr r(1) guard m'(2))
    moreover have "fst a = req2" if "begin_arguments m' repo j maximum2 cooldown2 now2 clock2 cu = Inr a" for a
      using that by (auto simp: begin_arguments_def m' req2 result_simps split: option.splits if_splits)
    ultimately have "\<exists>err. bind_r (begin_arguments m' repo j maximum2 cooldown2 now2 clock2 cu) (\<lambda>(req, c, pending).
           bind_r (begin_transaction H J d' m' c pending req (intent_details j (req_repository req)) c2') (\<lambda>d1.
           Inr (d1, pending))) = Inl err"
      by (cases "begin_arguments m' repo j maximum2 cooldown2 now2 clock2 cu")
         (force simp: rr result_simps split: prod.splits)+
    then show ?thesis using False by (auto simp: begin_publication_def)
  qed
qed

section \<open>Examples\<close>

text \<open>An approved run with one event, and a digest that tells the events of its publication apart.\<close>

definition sample_intent :: publication_intent where
  "sample_intent = \<lparr>intent_branch_name = ''b'', intent_head_repository = None, intent_publication_draft = True,
     intent_ready_for_review = False, intent_publishing_login = ''l'', intent_publishing_api_origin = ''u'',
     intent_commit_author_name = ''a'', intent_commit_author_email = ''e'', intent_commit_committer_name = ''c'',
     intent_commit_committer_email = ''d''\<rparr>"

abbreviation reserved_payload :: string where
  "reserved_payload \<equiv> event_payload ''r'' (isoformat 0) ''publication.reserved''
     (canonical_details (reservation_details ''o/n'' (isoformat 0))) (tagged_hash (CHR ''1''))"

abbreviation moved_payload :: string where
  "moved_payload \<equiv> event_payload ''r'' (isoformat 0) ''run.transitioned''
     (canonical_details (transition_details APPROVED SUBMITTING ''authorized publication intent persisted''))
     (tagged_hash (CHR ''2''))"

definition pub_sha :: digest where
  "pub_sha s = tagged_hash (if s = created_payload ''r'' then CHR ''1'' else if s = reserved_payload then CHR ''2''
     else if s = moved_payload then CHR ''3'' else CHR ''4'')"

definition pub_event :: event_row where
  "pub_event = new_event pub_sha zeros ''r'' ''run.created'' [(''status'', ''queued'')] 0"

definition pub_manifest :: run_manifest where
  "pub_manifest = (new_manifest ''r'' APPROVED 0 0)\<lparr>candidate := Some sample_issue\<rparr>"

definition pub_row :: run_row where
  "pub_row = \<lparr>row_run_id = ''r'', row_status = APPROVED, row_repository = Some ''o/n'',
     row_issue_number = Some 1, row_created_at = 0, row_updated_at = 0, row_manifest = pub_manifest,
     row_event_count = 1, row_event_head = tagged_hash (CHR ''1''),
     row_issue_revision = Some (compute_issue_revision pub_sha sample_issue)\<rparr>"

definition pub_db :: "run_row \<Rightarrow> event_row list \<Rightarrow> reservation_row list \<Rightarrow> db" where
  "pub_db r es rs = (create_schema 0)\<lparr>runs := [r], events := es, publication_reservations := rs\<rparr>"

lemma pub_sha_sha [simp]: "is_sha256 (pub_sha s)"
  by (simp add: pub_sha_def is_lower_hex_def is_digit_def)

lemma pub_tag_sha [simp]: "is_sha256 (tagged_hash (CHR ''1''))" "is_sha256 (tagged_hash (CHR ''2''))"
  "is_sha256 (tagged_hash (CHR ''3''))" "is_sha256 (tagged_hash (CHR ''4''))"
  by (simp_all add: is_lower_hex_def is_digit_def)

lemma pub_hashes [simp]:
  "pub_sha (created_payload ''r'') = tagged_hash (CHR ''1'')" "pub_sha reserved_payload = tagged_hash (CHR ''2'')"
  "pub_sha moved_payload = tagged_hash (CHR ''3'')"
  "pub_sha (event_payload ''r'' t ''publication.intent.begun'' dts p) = tagged_hash (CHR ''4'')"
  unfolding pub_sha_def created_payload_def by (auto dest: event_payload_inj)

lemma pub_event_simps [simp]:
  "ev_run_id pub_event = ''r''" "ev_hash pub_event = tagged_hash (CHR ''1'')" "ev_type pub_event = ''run.created''"
  "ev_previous_hash pub_event = zeros" "payload_of pub_event = created_payload ''r''"
  using pub_hashes(1) by (simp_all add: pub_event_def new_event_def payload_of_def created_payload_def)

lemma pub_manifest_simps [simp]:
  "run_id pub_manifest = ''r''" "status pub_manifest = APPROVED" "candidate pub_manifest = Some sample_issue"
  "updated_at pub_manifest = 0" "branch_name pub_manifest = None" "publication_draft pub_manifest = None"
  "publication_ready_for_review pub_manifest = None" "publishing_login pub_manifest = None"
  "publishing_api_origin pub_manifest = None" "commit_author_name pub_manifest = None"
  "commit_author_email pub_manifest = None" "commit_committer_name pub_manifest = None"
  "commit_committer_email pub_manifest = None"
  by (simp_all add: pub_manifest_def new_manifest_def)

lemma pub_db_simps [simp]:
  "runs (pub_db r es rs) = [r]" "events (pub_db r es rs) = es" "publication_reservations (pub_db r es rs) = rs"
  "pub_db r es rs\<lparr>runs := [r']\<rparr> = pub_db r' es rs" "pub_db r es rs\<lparr>events := es'\<rparr> = pub_db r es' rs"
  "pub_db r es rs\<lparr>publication_reservations := rs'\<rparr> = pub_db r es rs'" "manifest_artifact_sync (pub_db r es rs) = Map.empty"
  by (simp_all add: pub_db_def create_schema_def)

text \<open>An event appended to the only run.\<close>

lemma pub_append:
  assumes "row_run_id r = ''r''" and "\<forall>e\<in>set es. ev_run_id e = ''r''" and "row_event_count r = int (length es)"
    and "es \<noteq> []" and "row_event_head r = ev_hash (last es)" and "is_sha256 (row_event_head r)"
    and h: "H (event_payload ''r'' (isoformat 0) etype (canonical_details dts) (row_event_head r)) = h"
    and "h \<notin> ev_hash ` set es" and "distinct (map ev_hash es)"
    and "run_row_ok (r\<lparr>row_event_count := int (length es) + 1, row_event_head := h\<rparr>)"
  shows "append_event H (pub_db r es rs) ''r'' etype dts None 0
      = Inr (pub_db (r\<lparr>row_event_count := int (length es) + 1, row_event_head := h\<rparr>)
          (es @ [new_event H (row_event_head r) ''r'' etype dts 0]) rs)"
proof -
  have f: "filter (\<lambda>e. ev_run_id e = ''r'') es = es" using assms(2) by simp
  have "runs_ok [r\<lparr>row_event_count := int (length es) + 1, row_event_head := h\<rparr>]"
    using assms(10) by (simp add: runs_ok_def active_keys_def active_key.simps split: option.splits)
  with assms f show ?thesis
    by (simp add: append_event_def find_run_def stored_event_count_def stored_event_hash_def run_events_def
        ledger_head_def insert_event_def events_ok_def update_run_def write_runs_def new_event_def Let_def)
qed

lemma pub_wf: "store_wf pub_sha J (pub_db pub_row [pub_event] [])"
proof -
  have "anchored pub_sha (pub_db pub_row [pub_event] []) pub_row"
    by (simp add: anchored_def run_events_def pub_row_def is_lower_hex_def is_digit_def)
  moreover have "runs_ok [pub_row]"
    by (simp add: runs_ok_def run_row_ok_def opt_all_def pub_row_def active_keys_def active_key.simps
        compute_issue_revision_def)
  ultimately show ?thesis
    by (simp add: store_wf_def ledger_sound_def row_agrees_def marker_ok_def Let_def)
       (simp add: pub_row_def)
qed

lemma pub_reservations_ok: "reservations_ok (pub_db pub_row [pub_event] [])"
  by (simp add: reservations_ok_def publication_evidence_def)

abbreviation pub_request :: publication_reservation_request where
  "pub_request \<equiv> \<lparr>req_run_id = ''r'', req_repository = ''o/n'', req_max_per_utc_day = 1, req_reserved_at = 0,
     req_day_start = 0, req_day_end = day, req_cooldown_start = 0, req_enforce_cooldown = False\<rparr>"

lemma pub_row_simps [simp]:
  "row_run_id pub_row = ''r''" "row_repository pub_row = Some ''o/n''" "row_event_count pub_row = 1"
  "row_event_head pub_row = tagged_hash (CHR ''1'')" "row_issue_revision pub_row = Some (compute_issue_revision pub_sha sample_issue)"
  "row_status pub_row = APPROVED" "row_updated_at pub_row = 0" "row_manifest pub_row = pub_manifest"
  by (simp_all add: pub_row_def)

definition reserved_event :: event_row where
  "reserved_event = new_event pub_sha (tagged_hash (CHR ''1'')) ''r'' ''publication.reserved''
     (reservation_details ''o/n'' (isoformat 0)) 0"

lemma reserved_event_simps [simp]: "ev_run_id reserved_event = ''r''" "ev_hash reserved_event = tagged_hash (CHR ''2'')"
  using pub_hashes(2) by (simp_all add: reserved_event_def new_event_def)

abbreviation pub_reserved :: reservation_row where
  "pub_reserved \<equiv> \<lparr>pres_run_id = ''r'', pres_repository = ''o/n'', pres_reserved_at = isoformat 0\<rparr>"

abbreviation reserved_row :: run_row where
  "reserved_row \<equiv> pub_row\<lparr>row_event_count := 2, row_event_head := tagged_hash (CHR ''2'')\<rparr>"

lemma pub_ident: "repository_identity ''o/n'' = Inr ''o/n''"
  using owner_identity [OF sample_owner(1)] by (simp add: sample_owner(2))

lemma pub_find: "row_run_id r = ''r'' \<Longrightarrow> find_run (pub_db r es rs) ''r'' = Some r"
  by (simp add: find_run_def)

lemma pub_revision [simp]: "is_sha256 (compute_issue_revision pub_sha c)"
  by (simp add: compute_issue_revision_def)

lemma pub_reserve:
  "reserve_in_transaction pub_sha (pub_db pub_row [pub_event] []) pub_request 0
      = Inr (pub_db reserved_row [pub_event, reserved_event] [pub_reserved],
          \<lparr>pr_run_id = ''r'', pr_repository = ''o/n'', pr_reserved_at = 0\<rparr>)"
proof -
  have s: "ledger_sound pub_sha (pub_db pub_row [pub_event] [])" using pub_wf by (simp add: store_wf_def)
  have cap: "check_capacity (pub_db pub_row [pub_event] []) pub_request = Inr ()"
    by (simp add: check_capacity_def)
  have "run_row_ok reserved_row"
    by (simp add: run_row_ok_def opt_all_def)
  then have e: "append_event pub_sha (pub_db pub_row [pub_event] [pub_reserved]) ''r'' ''publication.reserved''
        (reservation_details ''o/n'' (isoformat 0)) None 0
      = Inr (pub_db reserved_row [pub_event, reserved_event] [pub_reserved])"
    using pub_append [of pub_row "[pub_event]" pub_sha "''publication.reserved''" "reservation_details ''o/n'' (isoformat 0)"
        "tagged_hash (CHR ''2'')" "[pub_reserved]"]
    by (simp flip: reserved_event_def)
  show ?thesis
    by (simp add: reserve_in_transaction_def reconcile_ok [OF s pub_reservations_ok] pub_find pub_ident reservation_of_def cap
        insert_reservation_def Let_def e)
qed

lemma pub_get: "get_run (pub_db pub_row [pub_event] []) ''r'' = Inr pub_manifest"
  by (simp add: get_run_def pub_find) (simp add: pub_manifest_def)

abbreviation begun_manifest :: run_manifest where
  "begun_manifest \<equiv> (set_intent sample_intent pub_manifest)\<lparr>status := SUBMITTING, updated_at := 1\<rparr>"

definition moved_event :: event_row where
  "moved_event = new_event pub_sha (tagged_hash (CHR ''2'')) ''r'' ''run.transitioned''
     (transition_details APPROVED SUBMITTING ''authorized publication intent persisted'') 0"

lemma moved_event_simps [simp]: "ev_run_id moved_event = ''r''" "ev_hash moved_event = tagged_hash (CHR ''3'')"
  using pub_hashes(3) by (simp_all add: moved_event_def new_event_def)

abbreviation moved_row :: run_row where
  "moved_row \<equiv> (begun_row sample_issue begun_manifest reserved_row)\<lparr>row_event_count := 3, row_event_head := tagged_hash (CHR ''3'')\<rparr>"

lemma begun_row_simps:
  "row_run_id (begun_row c m x) = row_run_id x" "row_event_count (begun_row c m x) = row_event_count x"
  "row_event_head (begun_row c m x) = row_event_head x" "row_manifest (begun_row c m x) = m"
  "row_updated_at (begun_row c m x) = updated_at m" "row_issue_revision (begun_row c m x) = row_issue_revision x"
  by (simp_all add: begun_row_def)

lemma pub_submit:
  "submit_row pub_sha (\<lambda>_. []) (pub_db reserved_row [pub_event, reserved_event] [pub_reserved]) pub_manifest sample_issue
      begun_manifest ''r'' 0 = Inr (pub_db moved_row [pub_event, reserved_event, moved_event] [pub_reserved])"
proof -
  have guard: "begin_guard (\<lambda>_. []) pub_manifest reserved_row" by (simp add: begin_guard_def)
  have run: "run_row_ok (begun_row sample_issue begun_manifest reserved_row)"
    "run_row_ok moved_row"
    by (simp_all add: run_row_ok_def opt_all_def begun_row_def)
  then have ok: "runs_ok [begun_row sample_issue begun_manifest reserved_row]"
    by (simp add: runs_ok_def active_keys_def active_key.simps split: option.splits)
  have upd: "update_run [reserved_row] ''r'' (begin_guard (\<lambda>_. []) pub_manifest) (begun_row sample_issue begun_manifest)
      = ([begun_row sample_issue begun_manifest reserved_row], 1)"
    by (simp add: update_run_def guard)
  have e: "append_event pub_sha (pub_db (begun_row sample_issue begun_manifest reserved_row) [pub_event, reserved_event] [pub_reserved])
        ''r'' ''run.transitioned'' (transition_details APPROVED SUBMITTING ''authorized publication intent persisted'') None 0
      = Inr (pub_db moved_row [pub_event, reserved_event, moved_event] [pub_reserved])"
    using pub_append [of "begun_row sample_issue begun_manifest reserved_row" "[pub_event, reserved_event]" pub_sha "''run.transitioned''"
        "transition_details APPROVED SUBMITTING ''authorized publication intent persisted''" "tagged_hash (CHR ''3'')" "[pub_reserved]"]
      run(2)
    by (simp add: begun_row_simps flip: moved_event_def)
  show ?thesis
    by (simp add: submit_row_def upd write_runs_def ok e Let_def)
qed

lemma pub_begin:
  "\<exists>d'. begin_publication pub_sha (\<lambda>_. []) (\<lambda>_. None) (pub_db pub_row [pub_event] []) pub_manifest ''o/n'' sample_intent
      1 0 (Some (Aware 0)) 0 1 0 = (d', begun_manifest, Inr ())"
proof -
  have line: "canonical_intent_text ''b'' f n = Inr ''b''"
    "canonical_intent_text ''l'' f n = Inr ''l''"
    "canonical_intent_text ''u'' f n = Inr ''u''"
    "canonical_intent_text ''e'' f n = Inr ''e''"
    "canonical_intent_text ''a'' f n = Inr ''a''"
    "canonical_intent_text ''c'' f n = Inr ''c''"
    "canonical_intent_text ''d'' f n = Inr ''d''" if "1 \<le> n" for f n
    using that by (simp_all add: canonical_intent_text_def bounded_text_def strip_def rstrip_def is_space_def nul_char
        newline_def carriage_return_def char_of_def)
  have ci: "check_publication_intent sample_intent = Inr ()"
    by (simp add: check_publication_intent_def sample_intent_def line)
  have cf: "check_intent_fields sample_intent pub_manifest = Inr ()"
    by (simp add: check_intent_fields_def intent_fields_def field_state_def sample_intent_def)
  have args: "begin_arguments pub_manifest ''o/n'' sample_intent 1 0 (Some (Aware 0)) 0 1
      = Inr (pub_request, sample_issue, begun_manifest)"
    by (simp add: begin_arguments_def sample_request ci cf pub_ident next_run_update_time_def)
  have guard: "begin_guard (\<lambda>_. []) pub_manifest pub_row" by (simp add: begin_guard_def)
  have none: "intent_events (pub_db pub_row [pub_event] []) ''r'' = []"
    by (simp add: intent_events_def run_events_def)
  obtain dts where dts: "dts = intent_details sample_intent ''o/n''" by simp
  let ?row = "(begun_row sample_issue begun_manifest reserved_row)\<lparr>row_event_count := 4, row_event_head := tagged_hash (CHR ''4'')\<rparr>"
  let ?es = "[pub_event, reserved_event, moved_event, new_event pub_sha (tagged_hash (CHR ''3'')) ''r''
      ''publication.intent.begun'' dts 0]"
  have "run_row_ok ?row" by (simp add: run_row_ok_def opt_all_def begun_row_simps)
  then have e: "append_event pub_sha (pub_db moved_row [pub_event, reserved_event, moved_event] [pub_reserved]) ''r''
      ''publication.intent.begun'' dts None 0 = Inr (pub_db ?row ?es [pub_reserved])"
    using pub_append [of moved_row "[pub_event, reserved_event, moved_event]" pub_sha "''publication.intent.begun''" dts
        "tagged_hash (CHR ''4'')" "[pub_reserved]"]
    by (simp add: begun_row_simps)
  let ?d = "(pub_db ?row ?es [pub_reserved])\<lparr>manifest_artifact_sync :=
      [''r'' \<mapsto> \<lparr>sync_updated_at = 1, sync_manifest_sha256 = pub_sha []\<rparr>]\<rparr>"
  have f: "find_run (pub_db ?row ?es [pub_reserved]) ''r'' = Some ?row" by (simp add: pub_find begun_row_simps)
  have mark: "mark_manifest_artifact_sync pub_sha (\<lambda>_. []) (pub_db ?row ?es [pub_reserved]) ''r'' 1 begun_manifest = Inr ?d"
    by (simp add: mark_manifest_artifact_sync_def f begun_row_simps)
  have tr: "begin_transaction pub_sha (\<lambda>_. []) (pub_db pub_row [pub_event] []) pub_manifest sample_issue begun_manifest
      pub_request dts 0 = Inr ?d"
    using mark
    by (simp add: begin_transaction_def pub_find guard check_recorded_intent_def none pub_reserve pub_submit e Let_def)
  have v: "validate_manifest begun_manifest = Inr begun_manifest"
    by (simp add: validate_manifest_def fields_valid_def remote_identity_complete_def pub_manifest_def new_manifest_def
        set_intent_def sample_intent_def opt_all_def)
  have "publish_artifact pub_sha (\<lambda>_. []) (\<lambda>_. None) ?d ''r'' 1 (pub_sha [])
      = Inr (?d\<lparr>manifest_files := (manifest_files ?d)(''r'' \<mapsto> begun_manifest),
          manifest_artifact_sync := (manifest_artifact_sync ?d)(''r'' := None)\<rparr>, True)"
    using v f by (simp add: publish_artifact_def begun_row_simps find_run_def)
  then show ?thesis
    using tr [unfolded dts]
    by (simp add: begin_publication_def args synchronize_manifest_artifact_def dts)
qed

lemma publication_begins_durably_witness:
  "\<exists>d'. begin_publication pub_sha (\<lambda>_. []) (\<lambda>_. None) (pub_db pub_row [pub_event] []) pub_manifest ''o/n'' sample_intent
      1 0 (Some (Aware 0)) 0 1 0 = (d', begun_manifest, Inr ())
    \<and> store_wf pub_sha (\<lambda>_. []) d' \<and> manifest_files d' ''r'' = Some begun_manifest"
proof -
  obtain d' where b: "begin_publication pub_sha (\<lambda>_. []) (\<lambda>_. None) (pub_db pub_row [pub_event] []) pub_manifest ''o/n''
      sample_intent 1 0 (Some (Aware 0)) 0 1 0 = (d', begun_manifest, Inr ())"
    using pub_begin by blast
  have "get_run (pub_db pub_row [pub_event] []) ''r'' = Inr pub_manifest" by (rule pub_get)
  moreover have "now_or (Some (Aware 0)) 0 = Aware 0" by (simp add: now_or_def)
  moreover have "length (publication_reservations (pub_db pub_row [pub_event] [])) < max_run_corpus"
    by (simp add: max_run_corpus_def)
  ultimately show ?thesis
    using publication_begins_durably [OF pub_wf pub_reservations_ok _ sample_owner(3) pub_manifest_simps(2) sample_owner(1) _
        sample_run_supported(1) _ b] b by blast
qed

lemma publication_intent_is_final_witness:
  "\<exists>d' e. begin_publication pub_sha (\<lambda>_. []) (\<lambda>_. None) (pub_db pub_row [pub_event] []) pub_manifest ''o/n'' sample_intent
      1 0 (Some (Aware 0)) 0 1 0 = (d', begun_manifest, Inr ())
    \<and> begin_publication pub_sha (\<lambda>_. []) (\<lambda>_. None) d' begun_manifest ''o/n'' (sample_intent\<lparr>intent_branch_name := ''x''\<rparr>)
      1 0 (Some (Aware 5)) 0 6 7 = (d', begun_manifest, Inl e)"
proof -
  obtain d' where b: "begin_publication pub_sha (\<lambda>_. []) (\<lambda>_. None) (pub_db pub_row [pub_event] []) pub_manifest ''o/n''
      sample_intent 1 0 (Some (Aware 0)) 0 1 0 = (d', begun_manifest, Inr ())"
    using pub_begin by blast
  have "get_run (pub_db pub_row [pub_event] []) ''r'' = Inr pub_manifest" by (rule pub_get)
  moreover have n: "now_or (Some (Aware t)) 0 = Aware t" for t by (simp add: now_or_def)
  moreover have "length (publication_reservations (pub_db pub_row [pub_event] [])) < max_run_corpus"
    by (simp add: max_run_corpus_def)
  moreover have "returns (reservation_request ''r'' ''o/n'' 1 0 (Some (Aware 5)) 0)" by (simp add: sample_request)
  moreover have "sample_intent\<lparr>intent_branch_name := ''x''\<rparr> \<noteq> sample_intent" by (simp add: sample_intent_def)
  ultimately show ?thesis
    using publication_intent_is_final [OF pub_wf pub_reservations_ok _ sample_owner(3) pub_manifest_simps(2) sample_owner(1) n
        sample_run_supported(1) _ b _ n sample_run_supported(2), where j = "sample_intent\<lparr>intent_branch_name := ''x''\<rparr>"] b
    by (metis (lifting))
qed

end
