(* ===== verification/Evidence.thy ===== *)
theory Evidence
  imports Claims
begin

text \<open>
  The checks of candidate evidence that \<open>store.py\<close> makes whenever it opens a database:
  \<open>_verify_issue_revision_evidence\<close>, \<open>_verify_candidate_selection_events\<close> and
  \<open>_verify_candidate_retry_authorizations\<close>.  Event ids are positions in the events table, from 1.
  A retry row's prior status and time are stored parsed, so their parse errors do not arise.
\<close>

section \<open>Selection events\<close>

definition stored_event_details :: "string \<Rightarrow> string \<Rightarrow> (string \<times> string) list result" where
  "stored_event_details v field = (case loads_details v of
     None \<Rightarrow> Inl (StateError (field @ '' contains malformed details'')) | Some kvs \<Rightarrow> Inr kvs)"

text \<open>\<open>int(score)\<close> is within the range and \<open>str\<close> of it is the score again.\<close>

definition is_score :: "string \<Rightarrow> bool" where
  "is_score s = list_ex (\<lambda>n. s = nat_text n) [0..<101]"

definition selection_keys :: "string set" where
  "selection_keys = {''issue'', ''issue_revision'', ''score''}"

text \<open>The join of the events with their runs, with one row more than the bound.\<close>

definition selection_rows :: "db \<Rightarrow> (event_row \<times> run_row) list" where
  "selection_rows d = take (max_run_corpus + 1) (List.map_filter (\<lambda>e.
     if ev_type e = ''candidate.selected'' then map_option (Pair e) (find_run d (ev_run_id e)) else None) (events d))"

definition check_selection :: "digest \<Rightarrow> string list \<Rightarrow> event_row \<times> run_row \<Rightarrow> string list result" where
  "check_selection H seen = (\<lambda>(e, r).
     bind_r (verified_issue_revision_row H r) (\<lambda>(rid, _, revision).
     if rid \<in> set seen then Inl (StateError (''Run '' @ rid @ '' has duplicate candidate selection evidence''))
     else case (revision, candidate (row_manifest r)) of
       (Some stored, Some c) \<Rightarrow>
         bind_r (stored_event_details (ev_details e) (''run '' @ rid @ '' candidate selection event'')) (\<lambda>details.
         if map_of details ''issue_revision'' \<noteq> Some stored then
           Inl (StateError (''Run '' @ rid @ '' candidate selection has a mismatched issue revision''))
         else if set (map fst details) \<noteq> selection_keys
           \<or> map_of details ''issue'' \<noteq> Some (issue_reference c)
           \<or> \<not> (case map_of details ''score'' of None \<Rightarrow> False | Some s \<Rightarrow> is_score s) then
           Inl (StateError (''Run '' @ rid @ '' candidate selection disagrees with its candidate evidence''))
         else Inr (seen @ [rid]))
     | _ \<Rightarrow> Inl (StateError (''Run '' @ rid @ '' selected a candidate without durable issue evidence''))))"

definition verify_candidate_selection_events :: "digest \<Rightarrow> db \<Rightarrow> string list result" where
  "verify_candidate_selection_events H d =
     (if max_run_corpus < length (selection_rows d) then
        Inl (StateError ''Candidate selection evidence exceeds the supported integrity bound'')
      else fold_result (check_selection H) [] (selection_rows d))"

section \<open>Retry authorizations\<close>

definition override_events :: "db \<Rightarrow> (nat \<times> event_row) list" where
  "override_events d = filter (\<lambda>(i, e). ev_type e = ''candidate.retry_override'') (enumerate 1 (events d))"

definition run_overrides :: "db \<Rightarrow> string \<Rightarrow> (nat \<times> event_row) list" where
  "run_overrides d rid = take 2 (filter (\<lambda>(i, e). ev_run_id e = rid) (override_events d))"

text \<open>The identities of an authorization: its run, the prior run, the issue, the operator's words.\<close>

definition retry_identity :: "retry_row \<Rightarrow> (string \<times> string \<times> string \<times> int) result" where
  "retry_identity a = raise_from ''Candidate retry authorization has an invalid identity''
     (bind_r (lease_identity (retry_run_id a) ''candidate retry run id'') (\<lambda>rid.
      bind_r (lease_identity (retry_prior_run_id a) ''candidate retry prior run id'') (\<lambda>prior.
      bind_r (candidate_identity (retry_repository a) (retry_issue_number a)) (\<lambda>(key, n). Inr (rid, prior, key, n)))))"

definition retry_operator :: "retry_row \<Rightarrow> (string \<times> string) result" where
  "retry_operator a =
     (if retry_prior_status a \<notin> candidate_suppressed_statuses then
        Inl (StateError ''Candidate retry authorization references a non-suppressed status'')
      else raise_from ''Candidate retry authorization has invalid operator evidence''
        (check_retry_authorization \<lparr>auth_actor = retry_actor a, auth_reason = retry_reason a\<rparr>))"

text \<open>The run and the prior run agree with the authorization: the issue of the run.\<close>

definition retry_issue :: "digest \<Rightarrow> db \<Rightarrow> retry_row \<Rightarrow> string \<times> string \<times> string \<times> int \<Rightarrow> string \<Rightarrow> issue_candidate result" where
  "retry_issue H d a = (\<lambda>(rid, prior, key, n) revision.
     case (find_run d rid, find_run d prior) of
       (Some r, Some p) \<Rightarrow>
         bind_r (verified_issue_revision_row H r) (\<lambda>(_, _, run_revision).
         bind_r (verified_issue_revision_row H p) (\<lambda>(_, prior_status, prior_revision).
         case candidate (row_manifest r) of
           None \<Rightarrow> Inl (StateError ''Candidate retry authorization disagrees with its run evidence'')
         | Some c \<Rightarrow>
           bind_r (candidate_identity (issue_repository c) (issue_number c)) (\<lambda>(key', _).
           if run_revision \<noteq> Some revision \<or> prior_revision \<noteq> Some revision \<or> prior_status \<noteq> retry_prior_status a
             \<or> retry_repository a \<noteq> issue_repository c \<or> key \<noteq> key' \<or> n \<noteq> issue_number c then
             Inl (StateError ''Candidate retry authorization disagrees with its run evidence'')
           else Inr c)))
     | _ \<Rightarrow> Inl (StateError ''Candidate retry authorization references a missing run''))"

text \<open>The one override event of the run, by its id.\<close>

definition retry_event :: "db \<Rightarrow> string \<Rightarrow> retry_row \<Rightarrow> issue_candidate \<Rightarrow> nat list \<Rightarrow> nat result" where
  "retry_event d rid a c covered = (case run_overrides d rid of
     [(i, e)] \<Rightarrow>
       if ev_occurred_at e \<noteq> isoformat (retry_authorized_at a) then
         Inl (StateError (''Run '' @ rid @ '' candidate retry override has a mismatched authorization time''))
       else
         bind_r (stored_event_details (ev_details e) (''run '' @ rid @ '' candidate retry override event'')) (\<lambda>details.
         if \<not> dict_eq details (override_details c a) then
           Inl (StateError (''Run '' @ rid @ '' candidate retry override disagrees with its authorization''))
         else if i \<in> set covered then Inl (StateError (''Run '' @ rid @ '' candidate retry override event is invalid''))
         else Inr i)
   | _ \<Rightarrow> Inl (StateError (''Run '' @ rid @ '' must have exactly one candidate retry override event'')))"

text \<open>The state of the loop: the covered event ids with the authorized runs.\<close>

definition check_retry :: "digest \<Rightarrow> db \<Rightarrow> (nat \<times> string) list \<Rightarrow> retry_row \<Rightarrow> (nat \<times> string) list result" where
  "check_retry H d done a =
     (if \<not> is_authorization_id (retry_authorization_id a) then
        Inl (StateError ''Stored candidate retry authorization ID is invalid'')
      else
        bind_r (retry_identity a) (\<lambda>(rid, prior, key, n).
        bind_r (retry_operator a) (\<lambda>(actor, reason).
        bind_r (stored_event_hash (retry_issue_revision a) ''candidate retry issue revision'') (\<lambda>revision.
        bind_r (retry_issue H d a (rid, prior, key, n) revision) (\<lambda>c.
        bind_r (retry_event d rid (a\<lparr>retry_actor := actor, retry_reason := reason, retry_prior_run_id := prior\<rparr>) c
          (map fst done)) (\<lambda>i.
        Inr (done @ [(i, rid)])))))))"

definition retry_rows :: "db \<Rightarrow> retry_row list" where
  "retry_rows d = take (max_run_corpus + 1) (sort_key retry_authorization_id (candidate_retry_authorizations d))"

definition verify_candidate_retry_authorizations :: "digest \<Rightarrow> db \<Rightarrow> string list result" where
  "verify_candidate_retry_authorizations H d =
     (if max_run_corpus < length (retry_rows d) then
        Inl (StateError ''Candidate retry authorizations exceed the supported integrity bound'')
      else
        bind_r (fold_result (check_retry H d) [] (retry_rows d)) (\<lambda>done.
        let found = take (max_run_corpus + 1) (map fst (override_events d)) in
        if max_run_corpus < length found then
          Inl (StateError ''Candidate retry overrides exceed the supported integrity bound'')
        else if set found \<noteq> set (map fst done) then
          Inl (StateError ''Candidate retry override event lacks durable authorization provenance'')
        else Inr (map snd done)))"

section \<open>All evidence\<close>

definition run_corpus :: "db \<Rightarrow> run_row list" where
  "run_corpus d = take (max_run_corpus + 1) (sort_key row_run_id (runs d))"

definition verify_issue_revision_evidence :: "digest \<Rightarrow> db \<Rightarrow> unit result" where
  "verify_issue_revision_evidence H d =
     (if max_run_corpus < length (run_corpus d) then
        Inl (StateError ''Run corpus exceeds the supported issue-revision integrity bound'')
      else
        bind_r (map_result (verified_issue_revision_row H) (run_corpus d)) (\<lambda>xs.
        bind_r (verify_candidate_selection_events H d) (\<lambda>selected.
        bind_r (verify_candidate_retry_authorizations H d) (\<lambda>authorized.
        case filter (\<lambda>(rid, _, revision). revision \<noteq> None \<and> rid \<notin> set selected \<union> set authorized) xs of
          [] \<Rightarrow> Inr ()
        | (rid, _) # _ \<Rightarrow> Inl (StateError (''Run '' @ rid @ '' has candidate evidence without selection provenance''))))))"

section \<open>What verification means\<close>

text \<open>A loop that collects one value of every element, refuses a bad element and a repeated key.\<close>

lemma fold_collect:
  assumes "\<And>s x y. f s x = Inr y \<longleftrightarrow> ok x \<and> key (v x) \<notin> key ` set s \<and> y = s @ [v x]"
  shows "fold_result f s xs = Inr y \<longleftrightarrow> (\<forall>x\<in>set xs. ok x) \<and> distinct (map (key \<circ> v) xs)
    \<and> (key \<circ> v) ` set xs \<inter> key ` set s = {} \<and> y = s @ map v xs"
  by (induction xs arbitrary: s) (auto simp: result_simps assms)

lemma bounded_take: "length (take (n + 1) xs) \<le> n \<longleftrightarrow> length xs \<le> n"
  by (simp add: min_def)

lemma take_bounded: "length xs \<le> n \<Longrightarrow> take (n + 1) xs = xs"
  by simp

lemma verified_row_blank:
  "blank r = blank r' \<Longrightarrow> verified_issue_revision_row H r = verified_issue_revision_row H r'"
  by (simp only: verified_issue_revision_row_def blank_eqD [of r r'])

definition row_valid :: "digest \<Rightarrow> run_row \<Rightarrow> bool" where
  "row_valid H r \<longleftrightarrow> verified_issue_revision_row H r = Inr (attempt_of r)"

lemma row_valid_blank: "blank r = blank r' \<Longrightarrow> row_valid H r \<longleftrightarrow> row_valid H r'"
  using verified_row_blank [of r r' H] blank_eqD [of r r'] by (simp add: row_valid_def)

lemma row_valid_Inr: "row_agrees H r \<Longrightarrow> verified_issue_revision_row H r = Inr x \<longleftrightarrow> row_valid H r \<and> x = attempt_of r"
  using verified_row_Inr [of H r x] by (auto simp: row_valid_def)

definition all_selections :: "db \<Rightarrow> (event_row \<times> run_row) list" where
  "all_selections d = List.map_filter (\<lambda>e.
     if ev_type e = ''candidate.selected'' then map_option (Pair e) (find_run d (ev_run_id e)) else None) (events d)"

lemma selection_rows_all: "selection_rows d = take (max_run_corpus + 1) (all_selections d)"
  by (simp add: selection_rows_def all_selections_def)

lemma all_selections_set:
  "set (all_selections d) = {(e, r). e \<in> set (events d) \<and> ev_type e = ''candidate.selected'' \<and> find_run d (ev_run_id e) = Some r}"
proof -
  have "set (List.map_filter f xs) = {y. \<exists>x\<in>set xs. f x = Some y}" for f :: "event_row \<Rightarrow> (event_row \<times> run_row) option" and xs
    by (induction xs) (auto split: option.splits)
  then show ?thesis by (auto simp: all_selections_def split: if_splits)
qed

lemma selection_run: "x \<in> set (all_selections d) \<Longrightarrow> row_run_id (snd x) = ev_run_id (fst x)"
  by (auto simp: all_selections_set dest: find_run_SomeD)

text \<open>The details of a selection event agree with the issue of its run.\<close>

definition selection_ok :: "digest \<Rightarrow> event_row \<times> run_row \<Rightarrow> bool" where
  "selection_ok H = (\<lambda>(e, r). row_valid H r \<and> row_issue_revision r \<noteq> None
     \<and> (\<exists>details c score. loads_details (ev_details e) = Some details \<and> candidate (row_manifest r) = Some c
         \<and> map_of details ''issue_revision'' = row_issue_revision r \<and> map_of details ''issue'' = Some (issue_reference c)
         \<and> map_of details ''score'' = Some score \<and> is_score score
         \<and> set (map fst details) = selection_keys))"

lemma stored_event_details_Inr [checks]: "stored_event_details v f = Inr x \<longleftrightarrow> loads_details v = Some x"
  by (simp add: stored_event_details_def split: option.splits)

lemma check_selection_Inr:
  assumes "row_agrees H r"
  shows "check_selection H seen (e, r) = Inr seen' \<longleftrightarrow>
    selection_ok H (e, r) \<and> row_run_id r \<notin> set seen \<and> seen' = seen @ [row_run_id r]"
proof (cases "row_valid H r")
  case True
  note v = True [unfolded row_valid_def]
  show ?thesis
  proof (cases "row_issue_revision r = None \<or> candidate (row_manifest r) = None")
    case none: True
    then show ?thesis by (auto simp: check_selection_def v selection_ok_def split: option.splits)
  next
    case False
    then obtain stored c where "row_issue_revision r = Some stored" "candidate (row_manifest r) = Some c" by auto
    then show ?thesis
      by (cases "loads_details (ev_details e)") (auto simp: check_selection_def v True selection_ok_def stored_event_details_def split: option.splits)
  qed
next
  case False
  then show ?thesis
    using row_valid_Inr [OF assms] by (auto simp: check_selection_def selection_ok_def result_simps)
qed

lemma verify_selections_Inr:
  assumes "\<forall>r\<in>set (runs d). row_agrees H r"
  shows "verify_candidate_selection_events H d = Inr seen \<longleftrightarrow> length (all_selections d) \<le> max_run_corpus
    \<and> (\<forall>x\<in>set (all_selections d). selection_ok H x) \<and> distinct (map (ev_run_id \<circ> fst) (all_selections d))
    \<and> seen = map (ev_run_id \<circ> fst) (all_selections d)"
proof -
  have one: "check_selection H s x = Inr y \<longleftrightarrow> selection_ok H x \<and> row_run_id (snd x) \<notin> set s \<and> y = s @ [row_run_id (snd x)]"
    if "x \<in> set (all_selections d)" for s x y
  proof -
    have "row_agrees H (snd x)" using that assms by (auto simp: all_selections_set dest: find_run_SomeD)
    then show ?thesis using check_selection_Inr [of H "snd x" s "fst x" y] by simp
  qed
  have many: "fold_result (check_selection H) s xs = Inr y \<longleftrightarrow> (\<forall>x\<in>set xs. selection_ok H x)
      \<and> distinct (map (row_run_id \<circ> snd) xs) \<and> (row_run_id \<circ> snd) ` set xs \<inter> set s = {} \<and> y = s @ map (row_run_id \<circ> snd) xs"
    if "set xs \<subseteq> set (all_selections d)" for s xs y
    using that
  proof (induction xs arbitrary: s)
    case (Cons x xs)
    then have "x \<in> set (all_selections d)" "set xs \<subseteq> set (all_selections d)" by auto
    then show ?case using one [of x s] Cons.IH by (auto simp: result_simps)
  qed auto
  have ids: "map (row_run_id \<circ> snd) (all_selections d) = map (ev_run_id \<circ> fst) (all_selections d)"
    by (rule map_cong) (auto dest: selection_run)
  show ?thesis
  proof (cases "length (all_selections d) \<le> max_run_corpus")
    case True
    then show ?thesis using many [of "all_selections d" "[]"] ids
      by (simp add: verify_candidate_selection_events_def selection_rows_all)
  next
    case False
    then show ?thesis by (simp add: verify_candidate_selection_events_def selection_rows_all min_def)
  qed
qed

text \<open>An authorization is checked against its runs and against the override events of its run.\<close>

abbreviation retry_run :: "retry_row \<Rightarrow> string" where
  "retry_run a \<equiv> strip (retry_run_id a)"

definition retry_event_id :: "db \<Rightarrow> retry_row \<Rightarrow> nat" where
  "retry_event_id d a = fst (hd (run_overrides d (retry_run a)))"

definition retry_ok :: "digest \<Rightarrow> db \<Rightarrow> retry_row \<Rightarrow> bool" where
  "retry_ok H d a \<longleftrightarrow> check_retry H d [] a = Inr [(retry_event_id d a, retry_run a)]"

lemma lease_identity_strip: "lease_identity v f = Inr w \<Longrightarrow> w = strip v"
  by (auto simp: lease_identity_def Let_def split: if_splits)

lemma retry_event_Inr:
  "retry_event d rid a c covered = Inr i \<longleftrightarrow>
    retry_event d rid a c [] = Inr i \<and> i \<notin> set covered \<and> i = fst (hd (run_overrides d rid))"
  by (auto simp: retry_event_def result_simps split: list.splits if_splits)

lemma retry_identity_strip: "retry_identity a = Inr (rid, prior, key, n) \<Longrightarrow> rid = retry_run a \<and> prior = strip (retry_prior_run_id a)"
  by (auto simp: retry_identity_def checks result_simps dest!: lease_identity_strip)

lemma check_retry_Inr:
  "check_retry H d done a = Inr done' \<longleftrightarrow>
    retry_ok H d a \<and> retry_event_id d a \<notin> fst ` set done \<and> done' = done @ [(retry_event_id d a, retry_run a)]"
proof (cases "retry_identity a")
  case (Inr x)
  obtain rid prior key n where x: "x = (rid, prior, key, n)" by (cases x) auto
  note id = retry_identity_strip [OF Inr [unfolded x]]
  show ?thesis
  proof (cases "bind_r (retry_operator a) (\<lambda>(actor, reason).
      bind_r (stored_event_hash (retry_issue_revision a) ''candidate retry issue revision'') (\<lambda>revision.
      bind_r (retry_issue H d a (rid, prior, key, n) revision) (\<lambda>c. Inr (actor, reason, c))))")
    case (Inl e)
    then show ?thesis using Inr unfolding retry_ok_def check_retry_def x by (auto simp: result_simps)
  next
    case (Inr y)
    then obtain actor reason c revision where y: "retry_operator a = Inr (actor, reason)"
      "stored_event_hash (retry_issue_revision a) ''candidate retry issue revision'' = Inr revision"
      "retry_issue H d a (rid, prior, key, n) revision = Inr c"
      by (auto simp: result_simps)
    let ?a = "a\<lparr>retry_actor := actor, retry_reason := reason, retry_prior_run_id := prior\<rparr>"
    have one: "check_retry H d done a = (if \<not> is_authorization_id (retry_authorization_id a) then
        Inl (StateError ''Stored candidate retry authorization ID is invalid'')
      else bind_r (retry_event d rid ?a c (map fst done)) (\<lambda>i. Inr (done @ [(i, rid)])))" for "done"
      using y \<open>retry_identity a = Inr x\<close> by (simp add: check_retry_def x)
    show ?thesis
    proof (cases "retry_event d rid ?a c []")
      case (Inl e)
      then have "retry_event d rid ?a c (map fst done) \<noteq> Inr i" for i using retry_event_Inr [of d rid ?a c "map fst done" i] by simp
      with Inl show ?thesis by (auto simp: one retry_ok_def result_simps)
    next
      case (Inr i)
      then have i: "i = fst (hd (run_overrides d rid))" using retry_event_Inr [of d rid ?a c "[]" i] by simp
      have "retry_event d rid ?a c (map fst done) = Inr j \<longleftrightarrow> i \<notin> fst ` set done \<and> j = i" for j
        using retry_event_Inr [of d rid ?a c "map fst done" j] Inr i by (metis list.set_map)
      with Inr i id show ?thesis by (auto simp: one retry_ok_def retry_event_id_def result_simps)
    qed
  qed
qed (simp add: retry_ok_def check_retry_def)

lemma check_retries_Inr:
  "fold_result (check_retry H d) [] xs = Inr y \<longleftrightarrow> (\<forall>a\<in>set xs. retry_ok H d a)
    \<and> distinct (map (retry_event_id d) xs) \<and> y = map (\<lambda>a. (retry_event_id d a, retry_run a)) xs"
  using fold_collect [of "check_retry H d" "retry_ok H d" fst "\<lambda>a. (retry_event_id d a, retry_run a)" "[]" xs y] check_retry_Inr
  by (simp add: comp_def)

lemma verify_retries_Inr:
  "verify_candidate_retry_authorizations H d = Inr ys \<longleftrightarrow>
    (let as = candidate_retry_authorizations d in length as \<le> max_run_corpus \<and> length (override_events d) \<le> max_run_corpus
      \<and> (\<forall>a\<in>set as. retry_ok H d a) \<and> distinct (map (retry_event_id d) as)
      \<and> fst ` set (override_events d) = retry_event_id d ` set as
      \<and> ys = map retry_run (sort_key retry_authorization_id as))"
proof (cases "length (candidate_retry_authorizations d) \<le> max_run_corpus")
  case True
  let ?s = "sort_key retry_authorization_id (candidate_retry_authorizations d)"
  have rows: "retry_rows d = ?s" using True by (simp add: retry_rows_def)
  have dist: "distinct (map (retry_event_id d) ?s) \<longleftrightarrow> distinct (map (retry_event_id d) (candidate_retry_authorizations d))"
    by (simp add: distinct_map)
  show ?thesis
  proof (cases "length (override_events d) \<le> max_run_corpus")
    case short: True
    have "verify_candidate_retry_authorizations H d = Inr ys \<longleftrightarrow> (\<exists>done. fold_result (check_retry H d) [] ?s = Inr done
        \<and> fst ` set (override_events d) = fst ` set done \<and> ys = map snd done)"
      using short True by (simp add: verify_candidate_retry_authorizations_def rows result_simps Let_def) blast
    with short True dist show ?thesis by (simp add: check_retries_Inr image_image comp_def Let_def)
  next
    case False
    then show ?thesis
      by (auto simp: verify_candidate_retry_authorizations_def rows result_simps Let_def min_def split: if_splits)
  qed
next
  case False
  then show ?thesis by (simp add: verify_candidate_retry_authorizations_def retry_rows_def min_def Let_def)
qed

text \<open>The whole check, as facts on the tables.\<close>

definition evidenced :: "digest \<Rightarrow> db \<Rightarrow> bool" where
  "evidenced H d \<longleftrightarrow> length (runs d) \<le> max_run_corpus \<and> length (all_selections d) \<le> max_run_corpus
     \<and> length (candidate_retry_authorizations d) \<le> max_run_corpus \<and> length (override_events d) \<le> max_run_corpus
     \<and> (\<forall>r\<in>set (runs d). row_valid H r \<and> (row_issue_revision r \<noteq> None
          \<longrightarrow> row_run_id r \<in> ev_run_id ` fst ` set (all_selections d) \<union> retry_run ` set (candidate_retry_authorizations d)))
     \<and> (\<forall>x\<in>set (all_selections d). selection_ok H x) \<and> distinct (map (ev_run_id \<circ> fst) (all_selections d))
     \<and> (\<forall>a\<in>set (candidate_retry_authorizations d). retry_ok H d a)
     \<and> distinct (map (retry_event_id d) (candidate_retry_authorizations d))
     \<and> fst ` set (override_events d) = retry_event_id d ` set (candidate_retry_authorizations d)"

lemma verify_rows_Inr:
  assumes "\<forall>r\<in>set rs. row_agrees H r"
  shows "map_result (verified_issue_revision_row H) rs = Inr xs \<longleftrightarrow> (\<forall>r\<in>set rs. row_valid H r) \<and> xs = map attempt_of rs"
  using assms by (induction rs arbitrary: xs) (auto simp: result_simps row_valid_Inr)

lemma no_missing: "(case xs of [] \<Rightarrow> Inr () | (k, _) # _ \<Rightarrow> Inl (f k)) = Inr () \<longleftrightarrow> xs = []"
  by (auto split: list.splits)

lemma verify_evidence_iff:
  assumes agrees: "\<forall>r\<in>set (runs d). row_agrees H r"
  shows "verify_issue_revision_evidence H d = Inr () \<longleftrightarrow> evidenced H d"
proof (cases "length (runs d) \<le> max_run_corpus")
  case True
  have rows: "run_corpus d = sort_key row_run_id (runs d)" using True by (simp add: run_corpus_def)
  have "verify_issue_revision_evidence H d = Inr () \<longleftrightarrow> (\<forall>r\<in>set (runs d). row_valid H r)
    \<and> (\<exists>selected authorized. verify_candidate_selection_events H d = Inr selected
      \<and> verify_candidate_retry_authorizations H d = Inr authorized
      \<and> filter (\<lambda>(rid, _, revision). revision \<noteq> None \<and> rid \<notin> set selected \<union> set authorized) (map attempt_of (run_corpus d)) = [])"
    using True verify_rows_Inr [of "run_corpus d" H] agrees
    by (simp add: verify_issue_revision_evidence_def rows result_simps no_missing)
  also have "\<dots> \<longleftrightarrow> evidenced H d"
    using True unfolding verify_selections_Inr [OF agrees] verify_retries_Inr Let_def evidenced_def
    by (auto simp: rows filter_empty_conv image_image comp_def)
  finally show ?thesis .
next
  case False
  then show ?thesis by (simp add: verify_issue_revision_evidence_def run_corpus_def min_def evidenced_def)
qed

section \<open>A claim keeps the evidence complete\<close>

lemma verified_rows_eq:
  assumes "map_option blank (find_run d' k) = map_option blank (find_run d k)"
  shows "(find_run d k = None \<and> find_run d' k = None) \<or> (\<exists>r r'. find_run d k = Some r \<and> find_run d' k = Some r'
    \<and> verified_issue_revision_row H r' = verified_issue_revision_row H r \<and> row_manifest r' = row_manifest r)"
proof (cases "find_run d k")
  case (Some r)
  with assms obtain r' where r': "find_run d' k = Some r'" "blank r' = blank r" by (cases "find_run d' k") auto
  with Some verified_row_blank [OF r'(2), of H] blank_eqD(7) [OF r'(2)] show ?thesis by simp
next
  case None
  with assms show ?thesis by simp
qed

lemma check_retry_cong:
  assumes "map_option blank (find_run d' (retry_run a)) = map_option blank (find_run d (retry_run a))"
    and "map_option blank (find_run d' (strip (retry_prior_run_id a))) = map_option blank (find_run d (strip (retry_prior_run_id a)))"
    and "run_overrides d' (retry_run a) = run_overrides d (retry_run a)"
  shows "check_retry H d' xs a = check_retry H d xs a"
proof (cases "retry_identity a")
  case (Inr x)
  obtain rid prior key n where x: "x = (rid, prior, key, n)" by (cases x) auto
  note id = retry_identity_strip [OF Inr [unfolded x]]
  have i: "retry_issue H d' a (rid, prior, key, n) v = retry_issue H d a (rid, prior, key, n) v" for v
    using verified_rows_eq [OF assms(1), of H] verified_rows_eq [OF assms(2), of H] id by (auto simp: retry_issue_def)
  have e: "retry_event d' rid b c covered = retry_event d rid b c covered" for b c covered
    using assms(3) id by (simp add: retry_event_def)
  show ?thesis by (simp add: check_retry_def Inr x i e)
qed (simp add: check_retry_def)

lemma retry_ok_cong:
  assumes "map_option blank (find_run d' (retry_run a)) = map_option blank (find_run d (retry_run a))"
    and "map_option blank (find_run d' (strip (retry_prior_run_id a))) = map_option blank (find_run d (strip (retry_prior_run_id a)))"
    and "run_overrides d' (retry_run a) = run_overrides d (retry_run a)"
  shows "retry_ok H d' a \<longleftrightarrow> retry_ok H d a" and "retry_event_id d' a = retry_event_id d a"
  using check_retry_cong [OF assms, of H "[]"] assms(3) by (simp_all add: retry_ok_def retry_event_id_def)

text \<open>What a good authorization says of its runs and of the event it covers.\<close>

lemma retry_okD:
  assumes "retry_ok H d a" and agrees: "\<forall>r\<in>set (runs d). row_agrees H r"
  shows "\<exists>r p e. find_run d (retry_run a) = Some r \<and> find_run d (strip (retry_prior_run_id a)) = Some p
    \<and> row_issue_revision r \<noteq> None \<and> row_issue_revision p \<noteq> None \<and> run_overrides d (retry_run a) = [(retry_event_id d a, e)]"
proof -
  from assms(1) obtain rid prior key n actor reason revision c where
    id: "retry_identity a = Inr (rid, prior, key, n)" and
    i: "retry_issue H d a (rid, prior, key, n) revision = Inr c" and
    e: "retry_event d rid (a\<lparr>retry_actor := actor, retry_reason := reason, retry_prior_run_id := prior\<rparr>) c [] = Inr (retry_event_id d a)"
    unfolding retry_ok_def check_retry_def by (auto simp: result_simps split: if_splits)
  note k = retry_identity_strip [OF id]
  from i obtain r p where r: "find_run d rid = Some r" "find_run d prior = Some p"
    by (auto simp: retry_issue_def split: option.splits)
  have "row_agrees H r" "row_agrees H p" using r agrees by (auto dest: find_run_SomeD)
  with i r have "row_issue_revision r \<noteq> None" "row_issue_revision p \<noteq> None"
    by (auto simp: retry_issue_def result_simps row_valid_Inr split: option.splits if_splits)
  moreover from e obtain x where "run_overrides d rid = [(retry_event_id d a, x)]"
    by (auto simp: retry_event_def result_simps split: list.splits if_splits)
  ultimately show ?thesis using r k by auto
qed

lemma override_events_append:
  assumes "events d' = events d @ [e]"
  shows "override_events d' = override_events d
    @ (if ev_type e = ''candidate.retry_override'' then [(length (events d) + 1, e)] else [])"
  by (simp add: override_events_def assms enumerate_append_eq)

lemma override_events_id: "x \<in> set (override_events d) \<Longrightarrow> fst x \<le> length (events d)"
  by (auto simp: override_events_def in_set_enumerate_eq)

lemma run_overrides_append:
  assumes "events d' = events d @ [e]" and "ev_run_id e \<noteq> rid \<or> ev_type e \<noteq> ''candidate.retry_override''"
  shows "run_overrides d' rid = run_overrides d rid"
  using assms(2) by (auto simp: run_overrides_def override_events_append [OF assms(1)])

lemma selections_fst:
  "map fst (all_selections d) = filter (\<lambda>e. ev_type e = ''candidate.selected'' \<and> find_run d (ev_run_id e) \<noteq> None) (events d)"
proof -
  have "map fst (List.map_filter (\<lambda>e. if ev_type e = ''candidate.selected'' then map_option (Pair e) (find_run d (ev_run_id e)) else None) es)
    = filter (\<lambda>e. ev_type e = ''candidate.selected'' \<and> find_run d (ev_run_id e) \<noteq> None) es" for es :: "event_row list"
    by (induction es) (auto split: option.splits)
  then show ?thesis by (simp add: all_selections_def)
qed

text \<open>One event of one run is appended, and no other row changes but for its anchors.\<close>

definition extended_by :: "event_row \<Rightarrow> db \<Rightarrow> db \<Rightarrow> bool" where
  "extended_by e d d' \<longleftrightarrow> events d' = events d @ [e] \<and> find_run d (ev_run_id e) \<noteq> None \<and> find_run d' (ev_run_id e) \<noteq> None
     \<and> (\<forall>k. k \<noteq> ev_run_id e \<longrightarrow> map_option blank (find_run d' k) = map_option blank (find_run d k))"

lemma extended_same:
  assumes "extended_by e d d'"
  shows "find_run d' k = None \<longleftrightarrow> find_run d k = None"
proof (cases "k = ev_run_id e")
  case False
  with assms have "map_option blank (find_run d' k) = map_option blank (find_run d k)" by (simp add: extended_by_def)
  then show ?thesis by (cases "find_run d' k"; cases "find_run d k") auto
qed (use assms in \<open>auto simp: extended_by_def\<close>)

lemma extended_other:
  assumes "extended_by e d d'" and "find_run d' k = Some r'" and "k \<noteq> ev_run_id e"
  shows "\<exists>r. find_run d k = Some r \<and> blank r' = blank r"
proof -
  have "map_option blank (find_run d k) = Some (blank r')" using assms unfolding extended_by_def by (metis option.map(2))
  then show ?thesis by (cases "find_run d k") auto
qed

lemma extended_length:
  assumes "extended_by e d d'" and "runs_ok (runs d)" and "runs_ok (runs d')"
  shows "length (runs d') = length (runs d)"
proof -
  have "row_run_id ` set (runs d') = row_run_id ` set (runs d)"
    using extended_same [OF assms(1)] unfolding find_run_None by blast
  moreover have "length (runs x) = card (row_run_id ` set (runs x))" if "runs_ok (runs x)" for x :: db
    using that by (metis distinct_card length_map list.set_map runs_ok_def)
  ultimately show ?thesis using assms(2,3) by metis
qed

lemma extended_selections:
  assumes "extended_by e d d'"
  shows "map fst (all_selections d') = map fst (all_selections d) @ (if ev_type e = ''candidate.selected'' then [e] else [])"
  using assms extended_same [OF assms] by (simp add: selections_fst extended_by_def)

text \<open>A run without an issue revision has no candidate events.\<close>

lemma evidenced_selected:
  assumes "evidenced H d" and "find_run d k = Some r" and "row_issue_revision r = None"
  shows "k \<notin> ev_run_id ` fst ` set (all_selections d)"
proof
  assume "k \<in> ev_run_id ` fst ` set (all_selections d)"
  then obtain x where x: "x \<in> set (all_selections d)" "ev_run_id (fst x) = k" by auto
  with assms(2) have "snd x = r" by (auto simp: all_selections_set)
  moreover have "selection_ok H x" using assms(1) x(1) by (simp add: evidenced_def)
  ultimately show False using assms(3) by (auto simp: selection_ok_def)
qed

lemma evidenced_retries:
  assumes "evidenced H d" and agrees: "\<forall>r\<in>set (runs d). row_agrees H r" and "find_run d k = Some r" and "row_issue_revision r = None"
    and a: "a \<in> set (candidate_retry_authorizations d)"
  shows "retry_run a \<noteq> k" and "strip (retry_prior_run_id a) \<noteq> k"
  using retry_okD [OF _ agrees, of a] assms(1,3,4) a by (auto simp: evidenced_def)

lemma evidenced_overrides:
  assumes ev: "evidenced H d" and agrees: "\<forall>r\<in>set (runs d). row_agrees H r" and "find_run d k = Some r" and "row_issue_revision r = None"
  shows "run_overrides d k = []"
proof -
  have other: "ev_run_id (snd x) \<noteq> k" if x: "x \<in> set (override_events d)" for x
  proof -
    have "fst x \<in> retry_event_id d ` set (candidate_retry_authorizations d)" using x ev by (auto simp: evidenced_def)
    then obtain a where a: "a \<in> set (candidate_retry_authorizations d)" "fst x = retry_event_id d a" by auto
    then obtain e where e: "run_overrides d (retry_run a) = [(retry_event_id d a, e)]"
      using retry_okD [OF _ agrees, of a] ev by (auto simp: evidenced_def)
    then have "(retry_event_id d a, e) \<in> set (take 2 (filter (\<lambda>(i, y). ev_run_id y = retry_run a) (override_events d)))"
      by (simp add: run_overrides_def)
    from in_set_takeD [OF this] have "(fst x, e) \<in> set (override_events d)" "ev_run_id e = retry_run a" using a(2) by auto
    moreover from this x have "e = snd x" by (auto simp: override_events_def in_set_enumerate_eq)
    ultimately show ?thesis using evidenced_retries(1) [OF ev agrees assms(3,4) a(1)] by auto
  qed
  have "filter (\<lambda>(i, e). ev_run_id e = k) (override_events d) = []"
    unfolding filter_empty_conv by (auto dest: other)
  then show ?thesis by (simp add: run_overrides_def)
qed

text \<open>What the step adds is itself good: the selection event, or the authorization with its event.\<close>

lemma selected_details_read:
  "loads_details (canonical_details (selected_details c v)) = Some (sort_key fst (selected_details c v))"
  unfolding canonical_details_def by (rule loads_dumps') (simp add: selected_details_def)

lemma sorted_selected: "sort_key fst (selected_details c v) = selected_details c v"
  by (simp add: selected_details_def)

lemma score_text: "0 \<le> n \<Longrightarrow> n \<le> 100 \<Longrightarrow> is_score (int_text n)"
  by (auto simp: is_score_def int_text_def list_ex_iff intro!: bexI [of _ "nat n"])

lemma new_selection_ok:
  assumes "row_valid H r" and "row_issue_revision r = Some v" and "candidate (row_manifest r) = Some c"
    and "0 \<le> issue_score c" and "issue_score c \<le> 100" and "ev_details e = canonical_details (selected_details c v)"
  shows "selection_ok H (e, r)"
proof -
  have "set (map fst (selected_details c v)) = selection_keys" by (auto simp: selected_details_def selection_keys_def)
  moreover have "map_of (selected_details c v) ''issue_revision'' = Some v"
    "map_of (selected_details c v) ''issue'' = Some (issue_reference c)"
    "map_of (selected_details c v) ''score'' = Some (int_text (issue_score c))"
    by (simp_all add: selected_details_def)
  ultimately show ?thesis using assms score_text
    by (simp add: selection_ok_def selected_details_read sorted_selected)
qed

lemma lease_identity_field: "lease_identity v f = Inr w \<Longrightarrow> lease_identity v f' = Inr w"
  by (auto simp: lease_identity_def Let_def split: if_splits)

lemma row_valid_identity: "row_valid H r \<Longrightarrow> lease_identity (row_run_id r) f = Inr (row_run_id r)"
  using lease_identity_field by (auto simp: row_valid_def verified_issue_revision_row_def result_simps checks split: option.splits if_splits)

lemma override_details_read:
  "loads_details (canonical_details (override_details c a)) = Some (sort_key fst (override_details c a))"
  unfolding canonical_details_def by (rule loads_dumps') (simp add: override_details_def)

lemma dict_sorted: "dict_eq (sort_key fst kvs) kvs"
  by (simp add: dict_eq_def sort_key_id_if_sorted)

lemma check_authorization_same:
  "check_retry_authorization auth = Inr (actor, reason) \<Longrightarrow> auth = \<lparr>auth_actor = actor, auth_reason = reason\<rparr>"
  by (auto simp: check_retry_authorization_def result_simps split: if_splits)

lemma new_retry_ok:
  assumes rows: "find_run d (retry_run_id a) = Some r" "find_run d (retry_prior_run_id a) = Some p" "row_valid H r" "row_valid H p"
    and r: "row_issue_revision r = Some (retry_issue_revision a)" "candidate (row_manifest r) = Some c"
    and p: "row_issue_revision p = Some (retry_issue_revision a)" "row_status p = retry_prior_status a"
    and a: "is_authorization_id (retry_authorization_id a)" "retry_repository a = issue_repository c" "retry_issue_number a = issue_number c"
      "candidate_identity (issue_repository c) (issue_number c) = Inr (key, n)" "is_sha256 (retry_issue_revision a)"
      "retry_prior_status a \<in> candidate_suppressed_statuses"
      "check_retry_authorization \<lparr>auth_actor = retry_actor a, auth_reason = retry_reason a\<rparr> = Inr (retry_actor a, retry_reason a)"
    and e: "run_overrides d (retry_run_id a) = [(i, e)]" "ev_occurred_at e = isoformat (retry_authorized_at a)"
      "ev_details e = canonical_details (override_details c a)"
  shows "retry_ok H d a" and "retry_event_id d a = i" and "retry_run a = retry_run_id a"
proof -
  have id: "lease_identity (retry_run_id a) f = Inr (retry_run_id a)" "lease_identity (retry_prior_run_id a) f = Inr (retry_prior_run_id a)" for f
    using row_valid_identity [OF rows(3)] row_valid_identity [OF rows(4)] find_run_SomeD [OF rows(1)] find_run_SomeD [OF rows(2)] by auto
  then have s: "retry_run a = retry_run_id a" using lease_identity_strip by metis
  have ident: "retry_identity a = Inr (retry_run_id a, retry_prior_run_id a, key, n)"
    using id a(2-4) by (simp add: retry_identity_def raise_from_def)
  have oper: "retry_operator a = Inr (retry_actor a, retry_reason a)"
    using a(6,7) by (simp add: retry_operator_def raise_from_def)
  have hash: "stored_event_hash (retry_issue_revision a) f = Inr (retry_issue_revision a)" for f
    using a(5) by (simp add: stored_event_hash_def)
  have n: "n = issue_number c" using candidate_identity_Inr [OF a(4)] by simp
  have issue: "retry_issue H d a (retry_run_id a, retry_prior_run_id a, key, n) (retry_issue_revision a) = Inr c"
    using rows r p a(2-4) n by (simp add: retry_issue_def row_valid_def)
  have event: "retry_event d (retry_run_id a) (a\<lparr>retry_actor := retry_actor a, retry_reason := retry_reason a,
      retry_prior_run_id := retry_prior_run_id a\<rparr>) c [] = Inr i"
    using e by (simp add: retry_event_def stored_event_details_def override_details_read dict_sorted)
  show id: "retry_event_id d a = i" using e(1) s by (simp add: retry_event_id_def)
  show "retry_ok H d a" using a(1) ident oper hash issue event id s by (simp add: retry_ok_def check_retry_def)
  show "retry_run a = retry_run_id a" by (rule s)
qed

text \<open>A step that claims a run without a revision: its event, and the authorization if it used one.\<close>

definition claim_step :: "digest \<Rightarrow> db \<Rightarrow> db \<Rightarrow> event_row \<Rightarrow> run_row \<Rightarrow> retry_row list \<Rightarrow> bool" where
  "claim_step H d d' e r' added \<longleftrightarrow> extended_by e d d' \<and> runs_ok (runs d) \<and> runs_ok (runs d')
     \<and> (\<exists>r. find_run d (ev_run_id e) = Some r \<and> row_issue_revision r = None)
     \<and> find_run d' (ev_run_id e) = Some r' \<and> row_valid H r'
     \<and> candidate_retry_authorizations d' = candidate_retry_authorizations d @ added
     \<and> (added = [] \<and> ev_type e = ''candidate.selected'' \<and> selection_ok H (e, r')
        \<or> (\<exists>a. added = [a] \<and> ev_type e = ''candidate.retry_override'' \<and> retry_ok H d' a
            \<and> retry_event_id d' a = length (events d) + 1 \<and> retry_run a = ev_run_id e))"

lemma claim_step_selections:
  assumes ev: "evidenced H d" and st: "claim_step H d d' e r' added" and x: "x \<in> set (all_selections d')"
  shows "selection_ok H x"
proof (cases "ev_run_id (fst x) = ev_run_id e")
  case True
  from st obtain r where r: "find_run d (ev_run_id e) = Some r" "row_issue_revision r = None" by (auto simp: claim_step_def)
  have ext: "extended_by e d d'" using st by (simp add: claim_step_def)
  have "fst x \<notin> fst ` set (all_selections d)" using evidenced_selected [OF ev r] True [symmetric] by (metis imageI)
  moreover have "fst x \<in> set (map fst (all_selections d'))" using x by simp
  ultimately have "fst x = e" "ev_type e = ''candidate.selected''"
    unfolding extended_selections [OF ext] by (auto split: if_splits)
  moreover have "snd x = r'" using x st True by (auto simp: all_selections_set claim_step_def)
  ultimately show ?thesis using st by (cases x) (auto simp: claim_step_def)
next
  case False
  have ext: "extended_by e d d'" using st by (simp add: claim_step_def)
  from x have e: "fst x \<in> set (events d')" "ev_type (fst x) = ''candidate.selected''" "find_run d' (ev_run_id (fst x)) = Some (snd x)"
    by (auto simp: all_selections_set)
  from extended_other [OF ext e(3) False] obtain r where r: "find_run d (ev_run_id (fst x)) = Some r" "blank (snd x) = blank r" by blast
  have "fst x \<in> set (events d)" using e(1) False ext by (auto simp: extended_by_def)
  with e(2) r(1) have "(fst x, r) \<in> set (all_selections d)" by (simp add: all_selections_set)
  with ev have "selection_ok H (fst x, r)" by (simp add: evidenced_def)
  then show ?thesis using row_valid_blank [OF r(2), of H] blank_eqD [OF r(2)] by (cases x) (auto simp: selection_ok_def)
qed

lemma claim_step_old_retry:
  assumes ev: "evidenced H d" and agrees: "\<forall>r\<in>set (runs d). row_agrees H r" and st: "claim_step H d d' e r' added"
    and a: "a \<in> set (candidate_retry_authorizations d)"
  shows "retry_ok H d' a" and "retry_event_id d' a = retry_event_id d a" and "retry_event_id d a \<le> length (events d)"
proof -
  from st obtain r where r: "find_run d (ev_run_id e) = Some r" "row_issue_revision r = None" by (auto simp: claim_step_def)
  have ext: "events d' = events d @ [e]" "\<And>k. k \<noteq> ev_run_id e \<Longrightarrow> map_option blank (find_run d' k) = map_option blank (find_run d k)"
    using st by (simp_all add: claim_step_def extended_by_def)
  note other = evidenced_retries [OF ev agrees r a]
  note cong = retry_ok_cong [OF ext(2) [OF other(1)] ext(2) [OF other(2)] run_overrides_append [OF ext(1)]]
  have ne: "ev_run_id e \<noteq> retry_run a" using other(1) by simp
  show "retry_ok H d' a" "retry_event_id d' a = retry_event_id d a" using cong ne ev a by (simp_all add: evidenced_def)
  have "retry_event_id d a \<in> fst ` set (override_events d)" using ev a by (simp add: evidenced_def)
  then show "retry_event_id d a \<le> length (events d)" using override_events_id by auto
qed

lemma claim_step_rows:
  assumes ev: "evidenced H d" and st: "claim_step H d d' e r' added" and x: "x \<in> set (runs d')"
  shows "row_valid H x \<and> (row_issue_revision x \<noteq> None \<longrightarrow>
    row_run_id x \<in> ev_run_id ` fst ` set (all_selections d') \<union> retry_run ` set (candidate_retry_authorizations d'))"
proof -
  have ext: "extended_by e d d'" "runs_ok (runs d')" using st by (simp_all add: claim_step_def)
  then have fx: "find_run d' (row_run_id x) = Some x" using x find_run_Some_iff by blast
  have sel: "ev_run_id ` fst ` set (all_selections d') = ev_run_id ` (fst ` set (all_selections d) \<union> (if ev_type e = ''candidate.selected'' then {e} else {}))"
    using arg_cong [OF extended_selections [OF ext(1)], of "\<lambda>xs. ev_run_id ` set xs"] by (auto split: if_splits)
  show ?thesis
  proof (cases "row_run_id x = ev_run_id e")
    case True
    with fx st have "x = r'" by (simp add: claim_step_def)
    moreover have "ev_run_id e \<in> ev_run_id ` fst ` set (all_selections d') \<union> retry_run ` set (candidate_retry_authorizations d')"
      using st unfolding sel claim_step_def by auto
    ultimately show ?thesis using st True by (simp add: claim_step_def)
  next
    case False
    from extended_other [OF ext(1) fx False] obtain r where r: "find_run d (row_run_id x) = Some r" "blank x = blank r" by blast
    have "row_valid H r \<and> (row_issue_revision r \<noteq> None \<longrightarrow>
      row_run_id r \<in> ev_run_id ` fst ` set (all_selections d) \<union> retry_run ` set (candidate_retry_authorizations d))"
      using ev find_run_SomeD [OF r(1)] unfolding evidenced_def by blast
    then show ?thesis using row_valid_blank [OF r(2), of H] blank_eqD [OF r(2)] st unfolding sel by (auto simp: claim_step_def)
  qed
qed

lemma claim_step_evidenced:
  assumes ev: "evidenced H d" and agrees: "\<forall>r\<in>set (runs d). row_agrees H r" and st: "claim_step H d d' e r' added"
    and bounds: "length (all_selections d) < max_run_corpus" "length (candidate_retry_authorizations d) < max_run_corpus"
      "length (override_events d) < max_run_corpus"
  shows "evidenced H d'"
proof -
  have ext: "extended_by e d d'" and ok: "runs_ok (runs d)" "runs_ok (runs d')"
    and as: "candidate_retry_authorizations d' = candidate_retry_authorizations d @ added"
    using st by (simp_all add: claim_step_def)
  from st obtain r where r: "find_run d (ev_run_id e) = Some r" "row_issue_revision r = None" by (auto simp: claim_step_def)
  have evs: "events d' = events d @ [e]" using ext by (simp add: extended_by_def)
  have added: "added = [] \<and> ev_type e = ''candidate.selected''
    \<or> (\<exists>a. added = [a] \<and> ev_type e = ''candidate.retry_override'' \<and> retry_ok H d' a \<and> retry_event_id d' a = length (events d) + 1)"
    using st by (auto simp: claim_step_def)
  note old = claim_step_old_retry [OF ev agrees st]
  have ids: "map (retry_event_id d') (candidate_retry_authorizations d) = map (retry_event_id d) (candidate_retry_authorizations d)"
    using old(2) by simp
  have idset: "retry_event_id d' ` set (candidate_retry_authorizations d) = retry_event_id d ` set (candidate_retry_authorizations d)"
    using old(2) by (rule image_cong [OF refl])
  have sels: "map (ev_run_id \<circ> fst) (all_selections d') = map (ev_run_id \<circ> fst) (all_selections d)
      @ (if ev_type e = ''candidate.selected'' then [ev_run_id e] else [])"
    using arg_cong [OF extended_selections [OF ext], of "map ev_run_id"] by (simp split: if_splits)
  have "length (all_selections d') \<le> max_run_corpus"
    using arg_cong [OF sels, of length] bounds(1) by (simp split: if_splits)
  moreover have "distinct (map (ev_run_id \<circ> fst) (all_selections d'))"
    unfolding sels using ev evidenced_selected [OF ev r] by (auto simp: evidenced_def)
  moreover have "length (override_events d') \<le> max_run_corpus"
    using bounds(3) by (simp add: override_events_append [OF evs])
  moreover have "length (candidate_retry_authorizations d') \<le> max_run_corpus" using added bounds(2) by (auto simp: as)
  moreover have "\<forall>a\<in>set (candidate_retry_authorizations d'). retry_ok H d' a" using added old(1) by (auto simp: as)
  moreover have "distinct (map (retry_event_id d') (candidate_retry_authorizations d'))"
    unfolding as map_append ids using added ev old(3) by (fastforce simp: evidenced_def)
  moreover have "fst ` set (override_events d') = retry_event_id d' ` set (candidate_retry_authorizations d')"
    unfolding as override_events_append [OF evs] set_append image_Un idset
    using ev added by (auto simp: evidenced_def)
  ultimately show ?thesis
    using claim_step_selections [OF ev st] claim_step_rows [OF ev st] extended_length [OF ext ok] ev
    by (simp add: evidenced_def)
qed

definition candidate_events :: "db \<Rightarrow> event_row list" where
  "candidate_events d = filter (\<lambda>e. ev_type e = ''candidate.selected'' \<or> ev_type e = ''candidate.retry_override'') (events d)"

lemma candidate_events_bound:
  assumes ev: "evidenced H d"
  shows "length (all_selections d) \<le> length (candidate_events d)" and "length (override_events d) \<le> length (candidate_events d)"
    and "length (candidate_retry_authorizations d) \<le> length (override_events d)"
proof -
  have "length (filter P xs) \<le> length (filter Q xs)" if "\<forall>x. P x \<longrightarrow> Q x" for P Q :: "event_row \<Rightarrow> bool" and xs
    using that by (induction xs) auto
  then show "length (all_selections d) \<le> length (candidate_events d)"
    using arg_cong [OF selections_fst, of length d] by (simp add: candidate_events_def)
  have "length (filter (\<lambda>(i, e). ev_type e = ''candidate.retry_override'') (enumerate n xs)) \<le>
    length (filter (\<lambda>e. ev_type e = ''candidate.selected'' \<or> ev_type e = ''candidate.retry_override'') xs)" for n and xs :: "event_row list"
    by (induction xs arbitrary: n) (auto intro: le_SucI)
  then show "length (override_events d) \<le> length (candidate_events d)" by (simp add: override_events_def candidate_events_def)
  have "length (candidate_retry_authorizations d) = card (retry_event_id d ` set (candidate_retry_authorizations d))"
    using ev by (metis distinct_card evidenced_def length_map list.set_map)
  also have "\<dots> = card (fst ` set (override_events d))" using ev by (simp add: evidenced_def)
  also have "\<dots> \<le> length (override_events d)" by (metis card_length length_map list.set_map)
  finally show "length (candidate_retry_authorizations d) \<le> length (override_events d)" .
qed

lemma published_valid:
  assumes "publish_artifact H J wr d rid updated sha = Inr (d', b)"
    and "manifest_artifact_sync d rid = Some \<lparr>sync_updated_at = updated, sync_manifest_sha256 = sha\<rparr>"
    and "find_run d rid = Some r"
  shows "validate_manifest (row_manifest r) = Inr (row_manifest r)"
  using assms validate_manifest_Inr by (auto simp: publish_artifact_def split: if_splits sum.splits)

lemma claimed_row_valid:
  assumes r: "row_valid H r" "row_run_id r = run_id m" "row_status r = DISCOVERING" and m: "status m = DISCOVERING" "candidate m = Some c"
    "validate_manifest m = Inr m" and id: "candidate_identity (issue_repository c) (issue_number c) = Inr (key, n)"
    and sha: "is_sha256 (compute_issue_revision H c)" and b: "blank r' = blank (claimed_row c (compute_issue_revision H c) m r)"
  shows "row_valid H r'"
proof -
  have "row_valid H (claimed_row c (compute_issue_revision H c) m r)"
    using row_valid_identity [OF r(1), of "''stored run id''"] r m id sha
    by (simp add: row_valid_def verified_issue_revision_row_def claimed_row_def raise_from_def stored_event_hash_def)
  then show ?thesis using row_valid_blank [OF b] by simp
qed

lemma find_run_sha:
  "runs_ok (runs d) \<Longrightarrow> find_run d k = Some r \<Longrightarrow> row_issue_revision r = Some v \<Longrightarrow> is_sha256 v"
  by (auto simp: runs_ok_def list_all_iff run_row_ok_def opt_all_def dest!: find_run_SomeD)

lemma claim_provenance_retry:
  assumes "claim_provenance d rid c v fresh authorized (Some (p, auth)) = Inr (d0, etype, details, occurred, disp)"
  shows "\<exists>a. candidate_retry_authorizations d0 = candidate_retry_authorizations d @ [a] \<and> etype = ''candidate.retry_override''
    \<and> details = override_details c a \<and> occurred = Some authorized \<and> retry_authorized_at a = authorized
    \<and> is_authorization_id (retry_authorization_id a) \<and> retry_run_id a = rid \<and> retry_repository a = issue_repository c
    \<and> retry_issue_number a = issue_number c \<and> retry_issue_revision a = v \<and> retry_prior_run_id a = fst p \<and> retry_prior_status a = snd p
    \<and> check_retry_authorization \<lparr>auth_actor = retry_actor a, auth_reason = retry_reason a\<rparr> = Inr (retry_actor a, retry_reason a)"
  using assms check_authorization_same
  by (auto simp: claim_provenance_def result_simps insert_retry_def retry_row_ok_def Let_def split: if_splits)

lemma claim_committed_step:
  assumes wf: "store_wf H J d" and ev: "evidenced H d" and args: "claim_arguments m0 l = Inr (c, key, n)"
    and m: "m = m0\<lparr>updated_at := t\<rparr>"
    and tr: "claim_transaction H J d m expected l auth c key n fresh checked authorized clock' = Inr (d', disp)"
    and pub: "publish_artifact H J wr d' (run_id m) (updated_at m) (H (J m)) = Inr (d'', b)"
  shows "store_wf H J d' \<and> (\<exists>e r' added. claim_step H d d' e r' added)"
proof -
  note a = claim_arguments_Inr [OF args]
  have ms: "status m = DISCOVERING" "candidate m = Some c" using a m by simp_all
  have score: "0 \<le> issue_score c" "issue_score c \<le> 100"
    using args by (auto simp: claim_arguments_def result_simps split: option.splits if_splits)
  let ?v = "compute_issue_revision H c"
  from tr wf ms a(3) obtain r r' prior d0 etype details occurred e where
    r: "find_run d (run_id m) = Some r" and g: "claim_guard expected r"
    and p: "claim_prior (map attempt_of (other_rows d (run_id m) key n)) ?v auth = Inr prior"
    and pr: "claim_provenance d (run_id m) c ?v fresh authorized prior = Inr (d0, etype, details, occurred, disp)"
    and wf': "store_wf H J d'" and r': "find_run d' (run_id m) = Some r'" "blank r' = blank (claimed_row c ?v m r)"
    and others: "\<forall>k. k \<noteq> run_id m \<longrightarrow> map_option blank (find_run d' k) = map_option blank (find_run d k)"
    and sync: "manifest_artifact_sync d' (run_id m) = Some \<lparr>sync_updated_at = updated_at m, sync_manifest_sha256 = H (J m)\<rparr>"
    and as: "candidate_retry_authorizations d' = candidate_retry_authorizations d0"
    and e: "events d' = events d @ [e]" "ev_run_id e = run_id m" "ev_type e = etype" "ev_details e = canonical_details details"
      "ev_occurred_at e = isoformat (case occurred of None \<Rightarrow> clock' | Some t \<Rightarrow> t)"
    by (rule claim_transaction_cases) blast
  have ok: "runs_ok (runs d)" "runs_ok (runs d')" and agrees: "\<forall>r\<in>set (runs d). row_agrees H r"
    using wf wf' by (simp_all add: store_wf_def)
  have none: "row_issue_revision r = None" "row_status r = DISCOVERING" using g by (simp_all add: claim_guard_def)
  have row: "row_manifest r' = m" "row_issue_revision r' = Some ?v" using blank_eqD [OF r'(2)] by (simp_all add: claimed_row_def)
  have sha: "is_sha256 ?v" by (rule find_run_sha [OF ok(2) r'(1) row(2)])
  have valid_r: "row_valid H r" "row_run_id r = run_id m" using ev find_run_SomeD [OF r] by (auto simp: evidenced_def)
  have valid: "row_valid H r'"
    using claimed_row_valid [OF valid_r none(2) ms _ _ _ r'(2), of key n] published_valid [OF pub sync r'(1)] a(3,4) sha
    by (simp add: row)
  have ext: "extended_by e d d'" using e(1,2) r r'(1) others by (simp add: extended_by_def)
  show ?thesis
  proof (cases prior)
    case None
    note s = claim_provenance_Inr(3) [OF pr None]
    have "selection_ok H (e, r')"
      by (rule new_selection_ok [OF valid row(2), of c]) (use row(1) ms(2) score s e in auto)
    then have "claim_step H d d' e r' []" using ext ok r none r'(1) valid s e as by (simp add: claim_step_def)
    with wf' show ?thesis by blast
  next
    case (Some q)
    obtain pq au where q: "q = (pq, au)" by (cases q)
    from claim_prior_Inr [OF p] Some q obtain x where x: "x \<in> set (other_rows d (run_id m) key n)" "pq = (row_run_id x, row_status x)"
      "row_status x \<in> candidate_suppressed_statuses" "row_issue_revision x = Some ?v" by blast
    then have px: "x \<in> set (runs d)" "row_run_id x \<noteq> run_id m" by (auto simp: other_rows_set)
    then have fx: "find_run d (row_run_id x) = Some x" using find_run_Some_iff [OF ok(1)] by blast
    with others px(2) obtain y where y: "find_run d' (row_run_id x) = Some y" "blank y = blank x"
      by (cases "find_run d' (row_run_id x)") (auto dest: spec [of _ "row_run_id x"])
    have vy: "row_valid H y" using ev px(1) row_valid_blank [OF y(2)] by (simp add: evidenced_def)
    from claim_provenance_retry [OF pr [unfolded Some q]] obtain a' where
      a': "candidate_retry_authorizations d0 = candidate_retry_authorizations d @ [a']" "etype = ''candidate.retry_override''"
        "details = override_details c a'" "occurred = Some authorized" "retry_authorized_at a' = authorized"
        "is_authorization_id (retry_authorization_id a')" "retry_run_id a' = run_id m" "retry_repository a' = issue_repository c"
        "retry_issue_number a' = issue_number c" "retry_issue_revision a' = ?v" "retry_prior_run_id a' = row_run_id x"
        "retry_prior_status a' = row_status x"
        "check_retry_authorization \<lparr>auth_actor = retry_actor a', auth_reason = retry_reason a'\<rparr> = Inr (retry_actor a', retry_reason a')"
      using x(2) by auto
    have "run_overrides d (run_id m) = []" by (rule evidenced_overrides [OF ev agrees r none(1)])
    then have ov: "run_overrides d' (run_id m) = [(length (events d) + 1, e)]"
      using e a'(2) by (auto simp: run_overrides_def override_events_append [OF e(1)])
    have ident: "candidate_identity (issue_repository c) (issue_number c) = Inr (key, n)" using a(3,4) by simp
    note new = new_retry_ok [of d' a' r' y H c key n "length (events d) + 1" e]
    have "retry_ok H d' a' \<and> retry_event_id d' a' = length (events d) + 1 \<and> retry_run a' = run_id m"
      using new r'(1) y(1) valid vy row ms(2) x(3,4) blank_eqD [OF y(2)] a' ident sha ov e by simp
    then have "claim_step H d d' e r' [a']" using ext ok r none r'(1) valid a' e as by (simp add: claim_step_def)
    with wf' show ?thesis by blast
  qed
qed

text \<open>
  C5. A successful claim keeps the candidate evidence of the store complete: when every check
  that opening the database makes of it succeeded before (every candidate bound by one selection
  event or one authorization with its event, and these by a run with that issue revision), it
  succeeds afterwards, as long as the corpus bound is not reached.
\<close>

theorem claim_keeps_evidence:
  assumes "store_wf H J d" and "verify_issue_revision_evidence H d = Inr ()"
    and "length (candidate_events d) < max_run_corpus"
    and "claim_candidate H J wr d m l auth fresh clock checked authorized clock' = (d', m', Inr disp)"
  shows "verify_issue_revision_evidence H d' = Inr ()"
  using assms(4)
proof (cases rule: claim_candidate_cases)
  case (committed c key n t d1 disp')
  have agrees: "\<forall>r\<in>set (runs d). row_agrees H r" using assms(1) by (simp add: store_wf_def)
  have ev: "evidenced H d" using assms(2) verify_evidence_iff [OF agrees] by simp
  obtain b where pub: "publish_artifact H J wr d1 (run_id m') (updated_at m') (H (J m')) = Inr (d', b)"
    using committed(7) by blast
  obtain e r' added where st1: "claim_step H d d1 e r' added" and wf: "store_wf H J d1"
    using claim_committed_step [OF assms(1) ev committed(1,2,4) pub] by blast
  have same: "runs d' = runs d1" "events d' = events d1" "find_run d' = find_run d1"
    using committed(5) cleared_find [OF committed(5)] by (simp_all add: cleared_def)
  have ov: "run_overrides d' = run_overrides d1" by (simp add: run_overrides_def override_events_def same fun_eq_iff)
  have "retry_ok H d' a = retry_ok H d1 a" "retry_event_id d' a = retry_event_id d1 a" for a
    using retry_ok_cong(1) [of d' a d1 H] retry_ok_cong(2) [of d' a d1] same(3) ov by simp_all
  then have st: "claim_step H d d' e r' added"
    using st1 committed(6) by (simp add: claim_step_def extended_by_def same)
  have "store_wf H J d'" by (rule cleared_wf [OF committed(5) wf])
  then have "\<forall>r\<in>set (runs d'). row_agrees H r" by (simp add: store_wf_def)
  moreover have "evidenced H d'"
    using claim_step_evidenced [OF ev agrees st] candidate_events_bound [OF ev] assms(3) by simp
  ultimately show ?thesis using verify_evidence_iff by blast
qed simp

section \<open>A first claim\<close>

definition first_db :: db where
  "first_db = (claim_db REJECTED)\<lparr>runs := [discovering_row], events := [created_event ''r'']\<rparr>"

lemma first_db_simps [simp]:
  "runs first_db = [discovering_row]" "events first_db = [created_event ''r'']"
  "candidate_retry_authorizations first_db = []" "manifest_artifact_sync first_db = Map.empty"
  by (simp_all add: first_db_def)

lemma first_db_wf: "store_wf claim_sha J first_db"
proof -
  have p: "payload_of (created_event ''r'') = created_payload ''r''"
    by (simp add: payload_of_def created_event_def new_event_def created_payload_def)
  have h: "claim_sha (created_payload ''r'') = tagged_hash (CHR ''1'')" using created_hashes by (simp add: created_event_hash)
  have "is_lower_hex (CHR ''1'')" by (simp add: is_lower_hex_def is_digit_def)
  then have "anchored claim_sha first_db discovering_row"
    by (simp add: anchored_def run_events_def created_hashes p h discovering_row_def)
  then have "ledger_sound claim_sha first_db" by (simp add: ledger_sound_def)
  moreover have "runs_ok [discovering_row]" using claim_db_ok by (simp add: runs_ok_def active_keys_def)
  ultimately show ?thesis
    by (simp add: store_wf_def row_agrees_def marker_ok_def discovering_row_def)
qed

lemma first_db_evidence: "verify_issue_revision_evidence claim_sha first_db = Inr ()"
proof -
  have "lease_identity ''r'' f = Inr ''r''" for f
    by (simp add: lease_identity_def strip_def rstrip_def is_space_def nul_char)
  then have v: "row_valid claim_sha discovering_row"
    by (simp add: row_valid_def verified_issue_revision_row_def discovering_row_def raise_from_def)
  have "\<forall>r\<in>set (runs first_db). row_agrees claim_sha r"
    using first_db_wf [of "\<lambda>_. []"] unfolding store_wf_def by blast
  moreover have "evidenced claim_sha first_db"
    using v by (simp add: evidenced_def all_selections_def override_events_def max_run_corpus_def created_event_def)
       (simp add: discovering_row_def)
  ultimately show ?thesis using verify_evidence_iff by blast
qed

definition first_row :: run_row where
  "first_row = claimed_row sample_issue sample_revision (claim_manifest\<lparr>updated_at := 1\<rparr>) discovering_row"

lemma first_update:
  "\<exists>d'. claim_update claim_sha (\<lambda>_. []) first_db (claim_manifest\<lparr>updated_at := 1\<rparr>) 0 discovering_row sample_issue
      sample_revision (''candidate.selected'', dts, None) 1 = Inr d'
    \<and> manifest_artifact_sync d' ''r'' = Some \<lparr>sync_updated_at = 1, sync_manifest_sha256 = claim_sha []\<rparr>
    \<and> find_run d' ''r'' = Some (first_row\<lparr>row_event_count := 2, row_event_head := tagged_hash (CHR ''3'')\<rparr>)"
proof -
  have guard: "claim_guard 0 discovering_row" by (simp add: claim_guard_def discovering_row_def)
  have upd: "update_run (runs first_db) ''r'' (\<lambda>r. claim_guard 0 r) (claimed_row sample_issue sample_revision (claim_manifest\<lparr>updated_at := 1\<rparr>))
      = ([first_row], 1)"
    by (simp add: update_run_def guard first_row_def)
  have hex: "is_lower_hex (CHR ''1'')" "is_lower_hex (CHR ''3'')" by (simp_all add: is_lower_hex_def is_digit_def)
  have simps [simp]: "row_event_count first_row = 1" "row_event_head first_row = tagged_hash (CHR ''1'')"
    "row_run_id first_row = ''r''" "row_updated_at first_row = 1" "row_manifest first_row = claim_manifest\<lparr>updated_at := 1\<rparr>"
    by (simp_all add: first_row_def claimed_row_def discovering_row_def)
  have ok: "runs_ok [first_row]" "runs_ok [first_row\<lparr>row_event_count := 2, row_event_head := tagged_hash (CHR ''3'')\<rparr>]"
    using hex by (simp_all add: runs_ok_def run_row_ok_def opt_all_def first_row_def claimed_row_def discovering_row_def
        compute_issue_revision_def active_keys_def active_key.simps is_active_def candidate_released_statuses_def)
  show ?thesis
    by (simp add: claim_update_def upd write_runs_def ok append_event_def find_run_def stored_event_count_def
        stored_event_hash_def run_events_def ledger_head_def insert_event_def events_ok_def created_hashes later_hash hex
        update_run_def mark_manifest_artifact_sync_def Let_def guard flip: first_row_def)
qed

lemma first_claim:
  "\<exists>d' m'. claim_candidate claim_sha (\<lambda>_. []) (\<lambda>_. None) first_db claim_manifest claim_lease None [] 1 1 1 1
     = (d', m', Inr (disposition_of AVAILABLE sample_revision None))"
proof -
  have args: "claim_arguments claim_manifest claim_lease = Inr (sample_issue, ''o/n'', 1)"
    by (simp add: claim_arguments_def raise_from_def sample_identity claim_lease_def)
  have lease: "assert_candidate_claim_lease first_db claim_lease 1 = Inr ()"
    by (simp add: assert_candidate_claim_lease_def claim_lease_def first_db_def claim_db_def create_schema_def stored_generation_def
        max_generation_def)
  have row: "find_run first_db ''r'' = Some discovering_row" by (simp add: find_run_def)
  have guard: "claim_guard 0 discovering_row" and m: "row_manifest discovering_row = new_manifest ''r'' DISCOVERING 0 0"
    by (simp_all add: claim_guard_def discovering_row_def)
  have att: "verified_attempts claim_sha (filter (\<lambda>r. row_run_id r \<noteq> ''r'') (runs first_db)) ''o/n'' 1 = Inr []"
    by (simp add: verified_attempts_def attempt_rows_def)
  have prior: "claim_prior [] sample_revision None = Inr None"
    by (simp add: claim_prior_def active_attempt_def suppressed_attempt_def)
  have prov: "claim_provenance first_db ''r'' sample_issue sample_revision [] 1 None = Inr (first_db, ''candidate.selected'',
      selected_details sample_issue sample_revision, None, disposition_of AVAILABLE sample_revision None)"
    by (simp add: claim_provenance_def)
  obtain d1 where d1: "claim_update claim_sha (\<lambda>_. []) first_db (claim_manifest\<lparr>updated_at := 1\<rparr>) 0 discovering_row sample_issue
      sample_revision (''candidate.selected'', selected_details sample_issue sample_revision, None) 1 = Inr d1"
    "manifest_artifact_sync d1 ''r'' = Some \<lparr>sync_updated_at = 1, sync_manifest_sha256 = claim_sha []\<rparr>"
    "find_run d1 ''r'' = Some (first_row\<lparr>row_event_count := 2, row_event_head := tagged_hash (CHR ''3'')\<rparr>)"
    using first_update by blast
  have t: "claim_transaction claim_sha (\<lambda>_. []) first_db (claim_manifest\<lparr>updated_at := 1\<rparr>) 0 claim_lease
      None sample_issue ''o/n'' 1 [] 1 1 1 = Inr (d1, disposition_of AVAILABLE sample_revision None)"
    using att prior prov d1(1)
    by (simp add: claim_transaction_def lease row guard m raise_from_def Let_def del: first_db_simps filter.simps)
  have v: "validate_manifest (claim_manifest\<lparr>updated_at := 1\<rparr>) = Inr (claim_manifest\<lparr>updated_at := 1\<rparr>)"
    by (simp add: claim_manifest_def)
  have "publish_artifact claim_sha (\<lambda>_. []) (\<lambda>_. None) d1 ''r'' 1 (claim_sha [])
      = Inr (d1\<lparr>manifest_files := (manifest_files d1)(''r'' \<mapsto> claim_manifest\<lparr>updated_at := 1\<rparr>),
          manifest_artifact_sync := (manifest_artifact_sync d1)(''r'' := None)\<rparr>, True)"
    using d1(2,3) v by (simp add: publish_artifact_def first_row_def claimed_row_def)
  then show ?thesis
    by (simp add: claim_candidate_def args next_run_update_time_def t synchronize_manifest_artifact_def Let_def)
qed

lemma claim_keeps_evidence_witness:
  "\<exists>d' m'. claim_candidate claim_sha (\<lambda>_. []) (\<lambda>_. None) first_db claim_manifest claim_lease None [] 1 1 1 1
     = (d', m', Inr (disposition_of AVAILABLE sample_revision None)) \<and> verify_issue_revision_evidence claim_sha d' = Inr ()"
proof -
  obtain d' m' where c: "claim_candidate claim_sha (\<lambda>_. []) (\<lambda>_. None) first_db claim_manifest claim_lease None [] 1 1 1 1
     = (d', m', Inr (disposition_of AVAILABLE sample_revision None))" using first_claim by blast
  have "length (candidate_events first_db) < max_run_corpus" by (simp add: candidate_events_def max_run_corpus_def)
  from claim_keeps_evidence [OF first_db_wf first_db_evidence this c] c show ?thesis by blast
qed

end
