(* ===== verification/Patterns.thy ===== *)
theory Patterns
  imports PyText
begin

text \<open>
  The part of Python's \<open>re\<close> that the source uses, as a backtracking matcher, and the pattern of
  \<open>stop_text.py\<close>.  A match is a position: the character before it and the text after it.  \<open>ends\<close> lists the
  positions a pattern can reach, in the order in which \<open>re\<close> tries them, so the first is its match.
  Matching ignores case.
\<close>

section \<open>The matcher\<close>

type_synonym position = "char option \<times> string"

datatype pat = Ch "char \<Rightarrow> bool" | Eps | Seq pat pat | Alt pat pat | Star pat | Boundary | Ahead pat | Not_ahead pat | At_end

definition is_word :: "char \<Rightarrow> bool" where
  "is_word c \<longleftrightarrow> c = CHR ''_'' \<or> is_digit c \<or> (CHR ''a'' \<le> c \<and> c \<le> CHR ''z'') \<or> (CHR ''A'' \<le> c \<and> c \<le> CHR ''Z'')
     \<or> code c \<in> {170, 178, 179, 181, 185, 186, 188, 189, 190} \<or> (192 \<le> code c \<and> code c \<noteq> 215 \<and> code c \<noteq> 247)"

definition word_at :: "char option \<Rightarrow> bool" where
  "word_at c = (case c of None \<Rightarrow> False | Some x \<Rightarrow> is_word x)"

definition first_char :: "string \<Rightarrow> char option" where
  "first_char s = (case s of [] \<Rightarrow> None | c # _ \<Rightarrow> Some c)"

text \<open>Repetition is greedy, and an iteration that matches nothing ends it.\<close>

function ends :: "pat \<Rightarrow> position \<Rightarrow> position list" where
  "ends (Ch P) (p, s) = (case s of [] \<Rightarrow> [] | c # r \<Rightarrow> if P c then [(Some c, r)] else [])"
| "ends Eps x = [x]"
| "ends (Seq a b) x = concat (map (ends b) (ends a x))"
| "ends (Alt a b) x = ends a x @ ends b x"
| "ends (Star a) x = concat (map (\<lambda>y. if length (snd y) < length (snd x) then ends (Star a) y else []) (ends a x)) @ [x]"
| "ends Boundary (p, s) = (if word_at p \<noteq> word_at (first_char s) then [(p, s)] else [])"
| "ends (Ahead a) x = (if ends a x = [] then [] else [x])"
| "ends (Not_ahead a) x = (if ends a x = [] then [x] else [])"
| "ends At_end (p, s) = (if s = [] \<or> s = [newline] then [(p, s)] else [])"
  by pat_completeness auto
termination by (relation "measures [\<lambda>(a, _, s). size a, \<lambda>(a, _, s). length s]") auto

definition searches :: "pat \<Rightarrow> string \<Rightarrow> bool" where
  "searches a s = list_ex (\<lambda>i. ends a (if i = 0 then None else Some (s ! (i - 1)), drop i s) \<noteq> []) [0..<length s + 1]"

text \<open>\<open>pattern.sub('', text)\<close>.\<close>

function without_matches :: "pat \<Rightarrow> char option \<Rightarrow> string \<Rightarrow> string" where
  "without_matches a p s = (case ends a (p, s) of
     (q, r) # _ \<Rightarrow>
       if length r < length s then without_matches a q r
       else (case s of [] \<Rightarrow> [] | c # cs \<Rightarrow> c # without_matches a (Some c) cs)
   | [] \<Rightarrow> (case s of [] \<Rightarrow> [] | c # cs \<Rightarrow> c # without_matches a (Some c) cs))"
  by pat_completeness auto
termination by (relation "measure (\<lambda>(_, _, s). length s)") auto

declare without_matches.simps [simp del]

section \<open>Notation of patterns\<close>

definition lower_char :: "char \<Rightarrow> char" where
  "lower_char c = (let n = code c in if 65 \<le> n \<and> n \<le> 90 \<or> 192 \<le> n \<and> n \<le> 222 \<and> n \<noteq> 215 then char_of (n + 32) else c)"

definition same_letter :: "char \<Rightarrow> char \<Rightarrow> bool" where
  "same_letter c x \<longleftrightarrow> lower_char x = lower_char c"

fun lit :: "string \<Rightarrow> pat" where
  "lit [] = Eps"
| "lit [c] = Ch (same_letter c)"
| "lit (c # cs) = Seq (Ch (same_letter c)) (lit cs)"

fun seqs :: "pat list \<Rightarrow> pat" where
  "seqs [] = Eps"
| "seqs [a] = a"
| "seqs (a # as) = Seq a (seqs as)"

fun alts :: "pat list \<Rightarrow> pat" where
  "alts [] = Not_ahead Eps"
| "alts [a] = a"
| "alts (a # as) = Alt a (alts as)"

definition opt :: "pat \<Rightarrow> pat" where
  "opt a = Alt a Eps"

definition plus :: "pat \<Rightarrow> pat" where
  "plus a = Seq a (Star a)"

abbreviation any_of :: "string list \<Rightarrow> pat" where
  "any_of ws \<equiv> alts (map lit ws)"

definition gap :: pat where
  "gap = plus (Ch is_space)"

text \<open>A phrase: words with \<open>\s+\<close> between them.\<close>

definition phrase :: "string list \<Rightarrow> pat" where
  "phrase ws = seqs (tl (concat (map (\<lambda>w. [gap, lit w]) ws)))"

section \<open>Text that turns automation away (stop\_text.py)\<close>

text \<open>The dashes beyond the range of the model are left out of the characters that end a refusal.\<close>

definition hyphen_gap :: pat where
  "hyphen_gap = plus (Ch (\<lambda>c. is_space c \<or> c = CHR ''-''))"

definition automation :: pat where
  "automation = alts
     [seqs [any_of [''ai'', ''llm'', ''agent'', ''machine'', ''bot'', ''model''], hyphen_gap,
        any_of [''generated'', ''assisted'', ''written'', ''authored'', ''made'', ''created'', ''driven'']],
      seqs [any_of [''ai'', ''llm'', ''coding''], gap, lit ''agent'', opt (lit ''s'')],
      lit ''agentic'', seqs [lit ''automat'', any_of [''ed'', ''ion'']], lit ''ai'', seqs [lit ''llm'', opt (lit ''s'')],
      seqs [lit ''bot'', opt (lit ''s'')], seqs [lit ''agent'', opt (lit ''s'')]]"

definition plural :: "string \<Rightarrow> pat" where
  "plural w = Seq (lit w) (opt (lit ''s''))"

definition submissions :: pat where
  "submissions = alts [seqs [lit ''pull'', gap, plural ''request''], plural ''pr'', plural ''contribution'', plural ''submission'',
     Seq (lit ''patch'') (opt (lit ''es'')), lit ''changes'', lit ''code'', lit ''work'']"

definition stop_target :: pat where
  "stop_target = Alt
     (seqs [automation, hyphen_gap, opt (Seq (plus (Ch (\<lambda>c. is_word c \<or> c = CHR ''-''))) gap), submissions])
     (seqs [submissions, gap,
        opt (Seq (any_of [''generated'', ''written'', ''authored'', ''made'', ''created'', ''opened'', ''submitted'', ''sent'']) gap),
        any_of [''from'', ''by'', ''with'', ''using'', ''via''], gap,
        opt (alts [seqs [lit ''a'', opt (lit ''n''), gap], Seq (lit ''the'') gap, Seq (lit ''any'') gap]), automation])"

definition determiners :: pat where
  "determiners = Star (Seq (any_of [''a'', ''all'', ''an'', ''any'', ''further'', ''more'', ''new'', ''such'', ''the'', ''them'',
     ''these'', ''this'', ''those'', ''us'', ''your'']) gap)"

definition stop_tail :: pat where
  "stop_tail = Alt
     (Ahead (Seq (Star (Ch is_space)) (Alt (Ch (\<lambda>c. c \<in> set ''.!?;:,)'' \<or> c = newline)) At_end)))
     (seqs [gap, alts [lit ''here'', lit ''anymore'', phrase [''any'', ''more''], lit ''again'', phrase [''at'', ''all''],
        phrase [''for'', ''now''], phrase [''right'', ''now''], phrase [''at'', ''this'', ''time''],
        seqs [any_of [''to'', ''in'', ''into'', ''for'', ''on''], gap, any_of [''this'', ''the'', ''our''], gap,
          any_of [''repo'', ''repository'', ''project'', ''codebase'', ''issue'']],
        lit ''please'', lit ''until'', lit ''because'', lit ''since'', lit ''as''], Boundary])"

definition submit_verb :: pat where
  "submit_verb = alts [Seq (lit ''open'') (opt (lit ''ing'')), Seq (lit ''send'') (opt (lit ''ing'')),
     Seq (lit ''submit'') (opt (lit ''ting'')), Seq (lit ''creat'') (any_of [''e'', ''ing'']), Seq (lit ''fil'') (any_of [''e'', ''ing'']),
     Seq (lit ''mak'') (any_of [''e'', ''ing'']), seqs [lit ''continu'', any_of [''e'', ''ing''], gap, lit ''with'']]"

definition apostrophe :: string where
  "apostrophe = [CHR 0x27]"

definition directive :: pat where
  "directive = alts [lit ''stop'', lit ''cease'', lit ''quit'', phrase [''do'', ''not''], lit (''don'' @ apostrophe @ ''t''),
     lit ''never'', phrase [''no'', ''more'']]"

text \<open>"Stop opening AI-generated PRs", "Stop this PR and all automated work".\<close>

definition stop_submitting :: pat where
  "stop_submitting = seqs [Boundary, directive, gap,
     opt (Alt (Seq submit_verb gap)
       (seqs [any_of [''this'', ''your''], gap, Alt (phrase [''pull'', ''request'']) (lit ''pr''), gap, lit ''and'', gap])),
     determiners, stop_target, stop_tail]"

text \<open>"Please stop using bots to open pull requests".\<close>

definition stop_using :: pat where
  "stop_using = seqs [Boundary, directive, gap, lit ''us'', any_of [''e'', ''ing''], gap, determiners, automation, gap,
     any_of [''to'', ''for''], gap, any_of [''open'', ''send'', ''submit'', ''creat'', ''fil'', ''writ'', ''generat'', ''mak''],
     Star (Ch is_word), gap, determiners, submissions, stop_tail]"

text \<open>"We don't want AI-generated PRs", "We no longer accept contributions from bots".\<close>

definition not_wanted :: pat where
  "not_wanted = seqs [Boundary, alts [phrase [''do'', ''not''], lit (''don'' @ apostrophe @ ''t''), phrase [''does'', ''not''],
       lit (''doesn'' @ apostrophe @ ''t''), phrase [''will'', ''not''], lit (''won'' @ apostrophe @ ''t''), lit ''cannot'',
       lit (''can'' @ apostrophe @ ''t''), lit ''not'', phrase [''no'', ''longer''], lit ''never''],
     gap, opt (Seq (lit ''currently'') gap), any_of [''accept'', ''want'', ''take'', ''welcome'', ''allow''], opt (any_of [''s'', ''ing'']), gap,
     determiners, stop_target, stop_tail]"

text \<open>"Agent-generated PRs will be closed", "PRs from bots are not accepted".\<close>

definition turned_away :: pat where
  "turned_away = seqs [Boundary, stop_target, gap, alts [lit ''are'', lit ''is'', phrase [''will'', ''be''], lit ''get'', lit ''gets''], gap,
     alts [seqs [Alt (lit ''not'') (phrase [''no'', ''longer'']), gap, any_of [''accepted'', ''allowed'', ''welcome'', ''wanted'']],
       any_of [''closed'', ''rejected'', ''banned'', ''prohibited'', ''forbidden'', ''declined'']],
     opt (seqs [gap, lit ''without'', gap, opt (Seq (lit ''human'') gap), lit ''review'']), stop_tail]"

definition automation_stop :: pat where
  "automation_stop = alts [stop_submitting, stop_using, not_wanted, turned_away]"

section \<open>Checks on sentences\<close>

lemma automation_stop_checks:
  "searches automation_stop ''Stop bot PRs.''"
  "\<not> searches automation_stop ''Stop the bot''"
  by code_simp+

end
