(* ===== verification/Url.thy ===== *)
theory Url
  imports Domain Patterns
begin

text \<open>
  What the source uses of \<open>urllib.parse\<close>: \<open>urlparse\<close> with the authority's parts, and the check of a bracketed
  host by \<open>ipaddress\<close>.  Within the model's characters the NFKC check of an authority never fails.
  \<open>github_origin.py\<close>: the canonical API origin and the web origin that goes with it.
\<close>

section \<open>Splitting texts\<close>

text \<open>\<open>str.partition\<close>, \<open>str.rpartition\<close> and \<open>str.split(sep, 1)\<close> on one character.\<close>

definition before_char :: "char \<Rightarrow> string \<Rightarrow> string" where
  "before_char c s = takeWhile (\<lambda>x. x \<noteq> c) s"

definition after_char :: "char \<Rightarrow> string \<Rightarrow> string" where
  "after_char c s = drop 1 (dropWhile (\<lambda>x. x \<noteq> c) s)"

definition after_last :: "char \<Rightarrow> string \<Rightarrow> string" where
  "after_last c s = rev (takeWhile (\<lambda>x. x \<noteq> c) (rev s))"

definition before_last :: "char \<Rightarrow> string \<Rightarrow> string" where
  "before_last c s = rev (drop 1 (dropWhile (\<lambda>x. x \<noteq> c) (rev s)))"

section \<open>Bracketed hosts\<close>

definition is_hex :: "char \<Rightarrow> bool" where
  "is_hex c \<longleftrightarrow> is_lower_hex c \<or> c \<in> set ''ABCDEF''"

text \<open>\<open>IPv4Address\<close>: four octets without leading zeros.\<close>

definition is_octet :: "string \<Rightarrow> bool" where
  "is_octet s = list_ex (\<lambda>n. s = nat_text n) [0..<256]"

definition is_ipv4 :: "string \<Rightarrow> bool" where
  "is_ipv4 s \<longleftrightarrow> length (split_on (CHR ''.'') s) = 4 \<and> list_all is_octet (split_on (CHR ''.'') s)"

definition is_hextet :: "string \<Rightarrow> bool" where
  "is_hextet s \<longleftrightarrow> 1 \<le> length s \<and> length s \<le> 4 \<and> list_all is_hex s"

text \<open>
  \<open>IPv6Address._ip_int_from_string\<close> without the value: the parts between colons, with at most one gap and
  an IPv4 tail that counts as two parts.
\<close>

definition ipv6_parts :: "string \<Rightarrow> string list option" where
  "ipv6_parts s = (let ps = split_on (CHR '':'') s in
     if length ps < 3 then None
     else if CHR ''.'' \<in> set (last ps) then (if is_ipv4 (last ps) then Some (butlast ps @ [''0'', ''0'']) else None)
     else Some ps)"

definition ipv6_gap_ok :: "string list \<Rightarrow> bool" where
  "ipv6_gap_ok ps = (let gaps = filter (\<lambda>i. ps ! i = '''') [1..<length ps - 1] in
     case gaps of
       [] \<Rightarrow> length ps = 8 \<and> list_all is_hextet ps
     | [i] \<Rightarrow>
       let hi = (if hd ps = '''' then i - 1 else i); lo = (if last ps = '''' then length ps - i - 2 else length ps - i - 1) in
       (hd ps = '''' \<longrightarrow> hi = 0) \<and> (last ps = '''' \<longrightarrow> lo = 0) \<and> hi + lo < 8
         \<and> list_all is_hextet (take hi ps) \<and> list_all is_hextet (drop (length ps - lo) ps)
     | _ \<Rightarrow> False)"

definition is_ipv6 :: "string \<Rightarrow> bool" where
  "is_ipv6 s \<longleftrightarrow> CHR ''/'' \<notin> set s
     \<and> (CHR ''%'' \<in> set s \<longrightarrow> after_char (CHR ''%'') s \<noteq> '''' \<and> CHR ''%'' \<notin> set (after_char (CHR ''%'') s))
     \<and> (case ipv6_parts (before_char (CHR ''%'') s) of None \<Rightarrow> False | Some ps \<Rightarrow> length ps \<le> 9 \<and> ipv6_gap_ok ps)"

text \<open>\<open>_check_bracketed_host\<close>: an IPv6 address or a future address \<open>v<hex>.<text>\<close>.\<close>

definition bracketed_host_ok :: "string \<Rightarrow> bool" where
  "bracketed_host_ok s =
     (if startswith s ''v'' then
        let r = drop 1 s; h = takeWhile is_hex r; t = dropWhile is_hex r
        in h \<noteq> '''' \<and> startswith t ''.'' \<and> 1 < length t \<and> newline \<notin> set (drop 1 t)
      else is_ipv6 s)"

section \<open>urlparse\<close>

record url =
  url_scheme :: string
  url_netloc :: string
  url_path :: string
  url_params :: string
  url_query :: string
  url_fragment :: string

definition lower :: "string \<Rightarrow> string" where
  "lower s = map lower_char s"

definition is_letter :: "char \<Rightarrow> bool" where
  "is_letter c \<longleftrightarrow> (CHR ''a'' \<le> c \<and> c \<le> CHR ''z'') \<or> (CHR ''A'' \<le> c \<and> c \<le> CHR ''Z'')"

text \<open>Leading controls and spaces are dropped, tabs and line ends removed.\<close>

definition cleaned_url :: "string \<Rightarrow> string" where
  "cleaned_url s = filter (\<lambda>c. code c \<notin> {9, 10, 13}) (dropWhile (\<lambda>c. code c \<le> 32) s)"

definition split_scheme :: "string \<Rightarrow> string \<times> string" where
  "split_scheme s = (let head = before_char (CHR '':'') s in
     if CHR '':'' \<in> set s \<and> head \<noteq> '''' \<and> is_letter (hd head) \<and> list_all (\<lambda>c. is_letter c \<or> is_digit c \<or> c \<in> set ''+-.'') head
     then (lower head, after_char (CHR '':'') s) else ('''', s))"

definition split_netloc :: "string \<Rightarrow> string \<times> string" where
  "split_netloc s =
     (if startswith s ''//'' then (takeWhile (\<lambda>c. c \<notin> set ''/?#'') (drop 2 s), dropWhile (\<lambda>c. c \<notin> set ''/?#'') (drop 2 s))
      else ('''', s))"

definition brackets_ok :: "string \<Rightarrow> bool" where
  "brackets_ok netloc \<longleftrightarrow> (CHR ''['' \<in> set netloc \<longleftrightarrow> CHR '']'' \<in> set netloc)
     \<and> (CHR ''['' \<in> set netloc \<longrightarrow> bracketed_host_ok (before_char (CHR '']'') (after_char (CHR ''['') netloc)))"

text \<open>The parameters of the last segment of a path, for \<open>http\<close>, \<open>https\<close> and the other schemes that have them.\<close>

definition split_params :: "string \<Rightarrow> string \<times> string" where
  "split_params s = (let tail = after_last (CHR ''/'') s; front = take (length s - length tail) s in
     if CHR '';'' \<in> set tail then (front @ before_char (CHR '';'') tail, after_char (CHR '';'') tail) else (s, ''''))"

definition uses_params :: "string list" where
  "uses_params = ['''', ''ftp'', ''hdl'', ''prospero'', ''http'', ''imap'', ''https'', ''shttp'', ''rtsp'', ''rtsps'', ''rtspu'', ''sip'',
     ''sips'', ''mms'', ''sftp'', ''tel'']"

definition urlparse :: "string \<Rightarrow> url result" where
  "urlparse s = (let (scheme, r1) = split_scheme (cleaned_url s); (netloc, r2) = split_netloc r1 in
     if \<not> brackets_ok netloc then Inl (ValueError ''Invalid IPv6 URL'')
     else
       let fragment = after_char (CHR ''#'') r2; r3 = before_char (CHR ''#'') r2;
           query = after_char (CHR ''?'') r3; r4 = before_char (CHR ''?'') r3;
           (path, params) = (if scheme \<in> set uses_params then split_params r4 else (r4, ''''))
       in Inr \<lparr>url_scheme = scheme, url_netloc = netloc, url_path = path, url_params = params, url_query = query,
            url_fragment = fragment\<rparr>)"

text \<open>\<open>username\<close> and \<open>password\<close>, \<open>hostname\<close> and \<open>port\<close> of the authority.\<close>

definition url_userinfo :: "url \<Rightarrow> (string \<times> string option) option" where
  "url_userinfo u = (if CHR ''@'' \<notin> set (url_netloc u) then None
     else let info = before_last (CHR ''@'') (url_netloc u)
       in Some (before_char (CHR '':'') info, if CHR '':'' \<in> set info then Some (after_char (CHR '':'') info) else None))"

definition host_and_port :: "url \<Rightarrow> string \<times> string" where
  "host_and_port u = (let info = after_last (CHR ''@'') (url_netloc u) in
     if CHR ''['' \<in> set info then
       let bracketed = after_char (CHR ''['') info
       in (before_char (CHR '']'') bracketed, after_char (CHR '':'') (after_char (CHR '']'') bracketed))
     else (before_char (CHR '':'') info, after_char (CHR '':'') info))"

definition url_hostname :: "url \<Rightarrow> string option" where
  "url_hostname u = (let host = fst (host_and_port u) in
     if host = '''' then None
     else Some (lower (before_char (CHR ''%'') host) @ dropWhile (\<lambda>c. c \<noteq> CHR ''%'') host))"

fun digits_value :: "string \<Rightarrow> int \<Rightarrow> int" where
  "digits_value [] n = n"
| "digits_value (c # s) n = digits_value s (10 * n + int (code c - 48))"

definition url_port :: "url \<Rightarrow> int option result" where
  "url_port u = (let port = snd (host_and_port u) in
     if port = '''' then Inr None
     else if \<not> list_all is_digit port then Inl (ValueError (''Port could not be cast to integer value as '' @ port))
     else if digits_value port 0 > 65535 then Inl (ValueError ''Port out of range 0-65535'')
     else Inr (Some (digits_value port 0)))"

section \<open>github\_origin.py\<close>

definition canonical_api_origin :: "string \<Rightarrow> string result" where
  "canonical_api_origin raw =
     (case bind_r (urlparse raw) (\<lambda>u. bind_r (url_port u) (\<lambda>port. Inr (u, port))) of
        Inl _ \<Rightarrow> Inl (ConfigurationError ''GitHub API URL has an invalid authority'')
      | Inr (u, port) \<Rightarrow> (case url_hostname u of
          None \<Rightarrow> Inl (ConfigurationError ''GitHub API URL must have a credential-free HTTPS origin'')
        | Some hostname \<Rightarrow>
          if url_scheme u \<noteq> ''https'' \<or> url_userinfo u \<noteq> None \<or> url_params u \<noteq> '''' \<or> url_query u \<noteq> '''' \<or> url_fragment u \<noteq> '''' then
            Inl (ConfigurationError ''GitHub API URL must have a credential-free HTTPS origin'')
          else
            let host = casefold hostname; shown = (if CHR '':'' \<in> set host then ''['' @ host @ '']'' else host)
            in Inr (''https://'' @ shown @ (case port of None \<Rightarrow> '''' | Some p \<Rightarrow> '':'' @ int_text p))))"

definition web_origin_for_api :: "string \<Rightarrow> string result" where
  "web_origin_for_api raw = bind_r (canonical_api_origin raw) (\<lambda>origin. bind_r (urlparse origin) (\<lambda>u.
     if url_hostname u = Some ''api.github.com'' then
       bind_r (url_port u) (\<lambda>port.
         if port \<noteq> None then Inl (ConfigurationError ''api.github.com does not support a custom API port'')
         else Inr ''https://github.com'')
     else Inr origin))"

definition git_push_url :: "string \<Rightarrow> string \<Rightarrow> string result" where
  "git_push_url raw repo =
     (if \<not> is_owner_name repo \<or> list_ex (\<lambda>p. p \<in> {''.'', ''..''}) (split_on (CHR ''/'') repo) then
        Inl (ConfigurationError ''Git push repository must use owner/name syntax'')
      else bind_r (web_origin_for_api raw) (\<lambda>origin. Inr (origin @ ''/'' @ repo @ ''.git'')))"

section \<open>Pull-request URLs (lifecycle.py)\<close>

text \<open>\<open>_PULL_REQUEST_PATH\<close>: the repository and the number in a path.\<close>

definition pull_request_path :: "string \<Rightarrow> (string \<times> int) option" where
  "pull_request_path s = (case split_on (CHR ''/'') s of
     [a, owner, name, kind, number] \<Rightarrow>
       if a = '''' \<and> kind = ''pull'' \<and> owner \<noteq> '''' \<and> list_all is_name_char owner \<and> name \<noteq> '''' \<and> list_all is_name_char name
         \<and> number \<noteq> '''' \<and> list_all is_digit number \<and> hd number \<noteq> CHR ''0''
       then Some (owner @ ''/'' @ name, digits_value number 0) else None
   | _ \<Rightarrow> None)"

definition parse_pull_request_url :: "string \<Rightarrow> string \<Rightarrow> (string \<times> int) result" where
  "parse_pull_request_url v api_origin =
     (let refused = Inl (StateError ''Published run contains a non-canonical GitHub pull-request URL'') in
      if v \<noteq> strip v then refused
      else case bind_r (urlparse v) (\<lambda>u. bind_r (url_port u) (\<lambda>port.
             bind_r (web_origin_for_api api_origin) (\<lambda>w. bind_r (urlparse w) (\<lambda>x. bind_r (url_port x) (\<lambda>wport.
             Inr (u, port, x, wport)))))) of
          Inl _ \<Rightarrow> refused
        | Inr (u, port, x, wport) \<Rightarrow>
          if url_scheme u \<noteq> url_scheme x \<or> url_hostname u \<noteq> url_hostname x \<or> port \<noteq> wport \<or> url_userinfo u \<noteq> None
            \<or> url_params u \<noteq> '''' \<or> url_query u \<noteq> '''' \<or> url_fragment u \<noteq> '''' then refused
          else (case pull_request_path (url_path u) of None \<Rightarrow> refused | Some r \<Rightarrow> Inr r))"

section \<open>A pull-request URL is read back\<close>

lemma char_split [simp]:
  "c \<notin> set s \<Longrightarrow> before_char c s = s" "c \<notin> set s \<Longrightarrow> after_char c s = []"
  "c \<notin> set t \<Longrightarrow> before_char c (t @ c # s) = t" "c \<notin> set t \<Longrightarrow> after_char c (t @ c # s) = s"
proof -
  show "c \<notin> set s \<Longrightarrow> before_char c s = s" "c \<notin> set s \<Longrightarrow> after_char c s = []"
    by (induction s) (auto simp: before_char_def after_char_def)
  show "c \<notin> set t \<Longrightarrow> before_char c (t @ c # s) = t" "c \<notin> set t \<Longrightarrow> after_char c (t @ c # s) = s"
    by (induction t) (auto simp: before_char_def after_char_def)
qed

lemma char_split_Cons [simp]:
  "before_char c (x # s) = (if x = c then [] else x # before_char c s)"
  "after_char c (x # s) = (if x = c then s else after_char c s)"
  by (simp_all add: before_char_def after_char_def)

lemma set_after_last: "set (after_last c s) \<subseteq> set s"
  by (auto simp: after_last_def dest: set_takeWhileD)

lemma digit_code: assumes "n < 10" shows "code (digit_char n) = 48 + n"
proof -
  have "\<forall>i\<in>set [0..<10]. code (digit_char i) = 48 + i" by code_simp
  then show ?thesis using assms by simp
qed

lemma digits_value_append: "digits_value (s @ [c]) n = 10 * digits_value s n + int (code c - 48)"
  by (induction s arbitrary: n) auto

lemma nat_text_read: "nat_text n \<noteq> [] \<and> list_all is_digit (nat_text n) \<and> digits_value (nat_text n) 0 = int n"
proof (induction n rule: nat_text.induct)
  case (1 n)
  have d: "is_digit (digit_char i) \<and> code (digit_char i) - 48 = i" if "i < 10" for i
    using digit_code [OF that] that by (simp add: is_digit_def)
  show ?case
  proof (cases "n < 10")
    case True
    then show ?thesis using d [OF True] by (simp add: nat_text.simps [of n])
  next
    case False
    have "10 * int (n div 10) + int (n mod 10) = int n" by (metis of_nat_add of_nat_mult of_nat_numeral mult_div_mod_eq)
    then show ?thesis using 1 [OF False] d [of "n mod 10"] False
      by (simp add: nat_text.simps [of n] digits_value_append)
  qed
qed

lemma nat_text_first: "0 < n \<Longrightarrow> hd (nat_text n) \<noteq> CHR ''0''"
proof (induction n rule: nat_text.induct)
  case (1 n)
  show ?case
  proof (cases "n < 10")
    case True
    have "code (digit_char n) \<noteq> code (CHR ''0'')" using digit_code [OF True] 1(2) by simp
    then show ?thesis using True by (auto simp: nat_text.simps [of n])
  next
    case False
    then show ?thesis using 1 nat_text_read [of "n div 10"] by (simp add: nat_text.simps [of n])
  qed
qed

text \<open>The characters of a pull request's path.\<close>

definition is_path_char :: "char \<Rightarrow> bool" where
  "is_path_char c \<longleftrightarrow> is_name_char c \<or> c = CHR ''/''"

lemma path_chars:
  assumes "is_path_char c"
  shows "c \<notin> set ''#?;''" "\<not> is_space c" "code c \<notin> {9, 10, 13}"
  using assms by (auto simp: is_path_char_def is_name_char_def is_digit_def is_space_def)

lemma path_texts:
  assumes "list_all is_path_char p"
  shows "c \<in> set ''#?;'' \<Longrightarrow> c \<notin> set p" "filter (\<lambda>c. code c \<notin> {9, 10, 13}) p = p"
  using assms path_chars(1, 3) by (auto simp: list_all_iff simp del: insert_iff intro!: filter_True)

lemma urlparse_page:
  assumes p: "list_all is_path_char p"
  shows "urlparse (''https://github.com/'' @ p) = Inr \<lparr>url_scheme = ''https'', url_netloc = ''github.com'',
     url_path = CHR ''/'' # p, url_params = '''', url_query = '''', url_fragment = ''''\<rparr>"
proof -
  have s: "split_scheme (''https://github.com/'' @ p) = (''https'', ''//github.com/'' @ p)"
    by (simp add: split_scheme_def lower_def lower_char_def is_letter_def less_eq_char_def)
  have c: "cleaned_url (''https://github.com/'' @ p) = ''https://github.com/'' @ p"
    using path_texts(2) [OF p] by (simp add: cleaned_url_def)
  have n: "split_netloc (''//github.com/'' @ p) = (''github.com'', CHR ''/'' # p)"
    by (simp add: split_netloc_def)
  have b: "brackets_ok ''github.com''" by (simp add: brackets_ok_def)
  have a: "CHR ''#'' \<notin> set (CHR ''/'' # p)" "CHR ''?'' \<notin> set (CHR ''/'' # p)" "CHR '';'' \<notin> set (CHR ''/'' # p)"
    using path_texts(1) [OF p] by simp_all
  have t: "split_params (CHR ''/'' # p) = (CHR ''/'' # p, '''')"
    using a(3) set_after_last [of "CHR ''/''" "CHR ''/'' # p"] by (auto simp: split_params_def Let_def)
  have u: "''https'' \<in> set uses_params" by (simp add: uses_params_def)
  show ?thesis unfolding urlparse_def c s Let_def prod.case n using a b u
    by (simp add: t)
qed

lemma url_authority [simp]:
  "url_netloc u = ''github.com'' \<Longrightarrow> url_port u = Inr None"
  "url_netloc u = ''github.com'' \<Longrightarrow> url_hostname u = Some ''github.com''"
  "url_netloc u = ''github.com'' \<Longrightarrow> url_userinfo u = None"
  by (simp_all add: url_port_def url_hostname_def url_userinfo_def host_and_port_def after_last_def lower_def lower_char_def)

lemma github_web_origin:
  "web_origin_for_api ''https://api.github.com'' = Inr ''https://github.com''"
  "urlparse ''https://github.com'' = Inr \<lparr>url_scheme = ''https'', url_netloc = ''github.com'',
     url_path = '''', url_params = '''', url_query = '''', url_fragment = ''''\<rparr>"
  by code_simp+

lemma strip_unspaced: "s \<noteq> [] \<Longrightarrow> \<not> is_space (hd s) \<Longrightarrow> \<not> is_space (last s) \<Longrightarrow> strip s = s"
proof -
  assume s: "s \<noteq> []" "\<not> is_space (hd s)" "\<not> is_space (last s)"
  have "dropWhile is_space s = s" using s by (cases s) auto
  moreover have "dropWhile is_space (rev s) = rev s" using s by (cases s rule: rev_cases) auto
  ultimately show "strip s = s" by (simp add: strip_def rstrip_def)
qed

text \<open>
  The page of a pull request on github.com, written from an owner/name and a positive
  number, is read back as exactly that repository and number for the public API.
\<close>

theorem pull_request_url_roundtrip:
  assumes r: "is_owner_name repo" and k: "0 < k"
  shows "parse_pull_request_url (''https://github.com/'' @ repo @ ''/pull/'' @ nat_text k) ''https://api.github.com''
     = Inr (repo, int k)"
proof -
  obtain a b where ab: "split_on (CHR ''/'') repo = [a, b]" "a \<noteq> []" "b \<noteq> []" "list_all is_name_char a" "list_all is_name_char b"
    using r by (auto simp: is_owner_name_def split: list.splits)
  have repo: "repo = a @ CHR ''/'' # b" using join_split_on [of "CHR ''/''" repo] ab(1) by simp
  have free: "CHR ''/'' \<notin> set a" "CHR ''/'' \<notin> set b" using split_on_pieces [of _ "CHR ''/''" repo] ab(1) by simp_all
  define d where "d = nat_text k"
  have d: "d \<noteq> []" "list_all is_digit d" "digits_value d 0 = int k" "hd d \<noteq> CHR ''0''"
    using nat_text_read [of k] nat_text_first [OF k] by (simp_all add: d_def)
  have dfree: "CHR ''/'' \<notin> set d" using d(2) by (auto simp: list_all_iff is_digit_def)
  define p where "p = repo @ ''/pull/'' @ d"
  have p: "list_all is_path_char p"
    using ab(4, 5) d(2) by (auto simp: p_def repo is_path_char_def is_name_char_def list_all_iff)
  have "last (''https://github.com/'' @ p) \<in> set d" using d(1) by (simp add: p_def)
  then have "strip (''https://github.com/'' @ p) = ''https://github.com/'' @ p"
    using d(2) by (intro strip_unspaced) (auto simp: list_all_iff is_digit_def is_space_def)
  moreover have "pull_request_path (CHR ''/'' # p) = Some (repo, int k)"
    using ab d free dfree by (simp add: pull_request_path_def p_def repo split_on_append_sep split_on_no_sep)
  ultimately show ?thesis
    unfolding parse_pull_request_url_def d_def [symmetric] p_def [symmetric] urlparse_page [OF p] github_web_origin
    by (simp add: Let_def github_web_origin)
qed

lemma pull_request_url_roundtrip_witness:
  "parse_pull_request_url ''https://github.com/octo/hello-world/pull/42'' ''https://api.github.com'' = Inr (''octo/hello-world'', 42)"
proof -
  have "is_owner_name ''octo/hello-world''" by code_simp
  moreover have "nat_text 42 = ''42''" by code_simp
  ultimately show ?thesis using pull_request_url_roundtrip [of "''octo/hello-world''" 42] by simp
qed

end
