(* ===== verification/Compensation.thy ===== *)
theory Compensation
  imports Publication Evidence Url "HOL-Library.Multiset"
begin

text \<open>
  How a publication whose pull request must not stand is finished (\<open>store.py\<close>): the checks of the remote
  evidence, \<open>_assert_merged_publication_compensation_events\<close> and
  \<open>_assert_failed_publication_compensation_events\<close>, and the two operations that commit the outcome,
  \<open>finalize_merged_publication_compensation\<close> and \<open>finalize_publication_compensation\<close>.  The two checks read
  the same events, so what they share is a definition with the prefix of its messages as an argument.
  Event ids are positions in the events table, from 1.
\<close>

section \<open>The events of a compensation\<close>

text \<open>\<open>_GIT_SHA\<close>.\<close>

definition is_git_sha :: "string \<Rightarrow> bool" where
  "is_git_sha s \<longleftrightarrow> (length s = 40 \<or> length s = 64) \<and> list_all is_lower_hex s"

type_synonym event_id_row = "nat \<times> event_row"

definition run_log :: "db \<Rightarrow> string \<Rightarrow> event_id_row list" where
  "run_log d rid = filter (\<lambda>(i, e). ev_run_id e = rid) (enumerate 1 (events d))"

definition rows_of_types :: "db \<Rightarrow> string \<Rightarrow> string list \<Rightarrow> event_id_row list" where
  "rows_of_types d rid types = filter (\<lambda>(i, e). ev_type e \<in> set types) (run_log d rid)"

definition latest_event :: "db \<Rightarrow> string \<Rightarrow> event_id_row option" where
  "latest_event d rid = (if run_log d rid = [] then None else Some (last (run_log d rid)))"

definition of_type :: "string \<Rightarrow> event_id_row list \<Rightarrow> event_id_row list" where
  "of_type t rows = filter (\<lambda>(i, e). ev_type e = t) rows"

definition singular_types :: "string list" where
  "singular_types = [''branch.pushed'', ''pull_request.created.response'', ''pull_request.created.rejected'',
     ''publication.compensation.started'']"

definition only_row :: "string \<Rightarrow> event_id_row list \<Rightarrow> event_id_row option" where
  "only_row t rows = (case of_type t rows of [x] \<Rightarrow> Some x | _ \<Rightarrow> None)"

definition singular_rows :: "string \<Rightarrow> event_id_row list
    \<Rightarrow> (event_id_row \<times> event_id_row \<times> event_id_row \<times> event_id_row) result" where
  "singular_rows what rows =
     (case (only_row ''branch.pushed'' rows, only_row ''pull_request.created.response'' rows,
            only_row ''pull_request.created.rejected'' rows, only_row ''publication.compensation.started'' rows) of
        (Some b, Some p, Some r, Some k) \<Rightarrow> Inr (b, p, r, k)
      | _ \<Rightarrow> Inl (StateError (what @ '' lacks one exact branch, response, rejection, and marker'')))"

definition row_details :: "string \<Rightarrow> event_id_row \<Rightarrow> (string \<times> string) list result" where
  "row_details field row = stored_event_details (ev_details (snd row)) field"

section \<open>What the events must say\<close>

text \<open>The fields of the manifest that make its publication exact; \<open>None\<close> when one is missing.\<close>

record compensation_identity =
  ci_candidate :: issue_candidate
  ci_base :: string
  ci_branch :: string
  ci_commit :: string
  ci_api_origin :: string
  ci_upstream_id :: int
  ci_upstream_node :: string
  ci_fork_id :: int
  ci_fork_node :: string
  ci_pull_node :: string

definition compensation_identity :: "run_manifest \<Rightarrow> compensation_identity option" where
  "compensation_identity m =
     Option.bind (candidate m) (\<lambda>c. Option.bind (base_sha m) (\<lambda>base. Option.bind (branch_name m) (\<lambda>branch.
     Option.bind (commit_sha m) (\<lambda>commit. Option.bind (publishing_login m) (\<lambda>_. Option.bind (publishing_api_origin m) (\<lambda>api.
     Option.bind (upstream_repository_id m) (\<lambda>ui. Option.bind (upstream_repository_node_id m) (\<lambda>un.
     Option.bind (fork_repository_id m) (\<lambda>fi. Option.bind (fork_repository_node_id m) (\<lambda>fn.
     Option.bind (pull_request_node_id m) (\<lambda>pn.
       Some \<lparr>ci_candidate = c, ci_base = base, ci_branch = branch, ci_commit = commit, ci_api_origin = api, ci_upstream_id = ui,
         ci_upstream_node = un, ci_fork_id = fi, ci_fork_node = fn, ci_pull_node = pn\<rparr>)))))))))))"

definition upstream_details :: "compensation_identity \<Rightarrow> (string \<times> string) list" where
  "upstream_details ci = [(''upstream_repository_id'', int_text (ci_upstream_id ci)),
     (''upstream_repository_node_id'', ci_upstream_node ci)]"

definition fork_details :: "compensation_identity \<Rightarrow> (string \<times> string) list" where
  "fork_details ci = [(''fork_repository_id'', int_text (ci_fork_id ci)), (''fork_repository_node_id'', ci_fork_node ci)]"

definition branch_details :: "compensation_identity \<Rightarrow> string \<Rightarrow> (string \<times> string) list" where
  "branch_details ci fork = [(''fork'', fork)] @ fork_details ci @ upstream_details ci
     @ [(''branch'', ci_branch ci), (''commit_sha'', ci_commit ci)]"

definition marker_details :: "compensation_identity \<Rightarrow> string \<Rightarrow> string \<Rightarrow> string \<Rightarrow> int \<Rightarrow> string \<Rightarrow> (string \<times> string) list" where
  "marker_details ci url fork repo n returned =
     [(''reason'', ''created_pr_base_moved''), (''url'', url), (''pull_request_node_id'', ci_pull_node ci),
      (''repository'', repo), (''number'', int_text n)] @ upstream_details ci @ [(''fork'', fork)] @ fork_details ci
     @ [(''branch'', ci_branch ci), (''commit_sha'', ci_commit ci), (''approved_base_sha'', ci_base ci),
        (''returned_base_sha'', returned)]"

definition response_details :: "compensation_identity \<Rightarrow> string \<Rightarrow> string \<Rightarrow> int \<Rightarrow> string \<Rightarrow> (string \<times> string) list" where
  "response_details ci url repo n returned =
     [(''url'', url), (''repository'', repo), (''number'', int_text n), (''state'', ''open''), (''head_sha'', ci_commit ci),
      (''base_sha'', returned), (''pull_request_node_id'', ci_pull_node ci)] @ upstream_details ci @ fork_details ci"

definition merged_details :: "compensation_identity \<Rightarrow> string \<Rightarrow> (string \<times> string) list" where
  "merged_details ci url =
     [(''url'', url), (''pull_request_node_id'', ci_pull_node ci), (''state'', ''merged''), (''head_sha'', ci_commit ci)]
     @ upstream_details ci @ fork_details ci"

definition closed_details :: "string \<Rightarrow> (string \<times> string) list" where
  "closed_details url = [(''url'', url), (''state'', ''closed_unmerged'')]"

definition compensated_details :: "compensation_identity \<Rightarrow> string \<Rightarrow> (string \<times> string) list" where
  "compensated_details ci fork = [(''fork'', fork)] @ fork_details ci @ [(''branch'', ci_branch ci), (''commit_sha'', ci_commit ci)]"

definition final_details :: "compensation_identity \<Rightarrow> string \<Rightarrow> string \<Rightarrow> string \<Rightarrow> int \<Rightarrow> string \<Rightarrow> (string \<times> string) list" where
  "final_details ci url fork repo n reason =
     [(''url'', url), (''repository'', repo), (''number'', int_text n), (''pull_request_node_id'', ci_pull_node ci)]
     @ upstream_details ci @ [(''fork'', fork)] @ fork_details ci
     @ [(''branch'', ci_branch ci), (''commit_sha'', ci_commit ci), (''pull_request'', ''closed_unmerged''),
        (''remote_branch'', ''absent''), (''reason'', reason)]"

text \<open>The marker names the base that GitHub returned; it differs from the approved one.\<close>

definition text_field :: "string \<Rightarrow> (string \<times> string) list \<Rightarrow> string" where
  "text_field k kvs = (case map_of kvs k of None \<Rightarrow> [] | Some v \<Rightarrow> v)"

definition check_marker :: "string \<Rightarrow> compensation_identity \<Rightarrow> string \<Rightarrow> string \<Rightarrow> string \<Rightarrow> int \<Rightarrow> (string \<times> string) list
    \<Rightarrow> unit result" where
  "check_marker what ci url fork repo n marker =
     (let returned = text_field ''returned_base_sha'' marker in
      if \<not> is_git_sha (casefold returned) \<or> casefold returned = casefold (ci_base ci) then
        Inl (StateError (what @ '' marker lacks an exact base race''))
      else if \<not> dict_eq marker (marker_details ci url fork repo n returned) then
        Inl (StateError (what @ '' marker differs from durable intent''))
      else Inr ())"

definition check_branch :: "string \<Rightarrow> compensation_identity \<Rightarrow> string \<Rightarrow> (string \<times> string) list \<Rightarrow> unit result" where
  "check_branch what ci fork branch =
     (if \<not> dict_eq branch (branch_details ci fork) then
        Inl (StateError (what @ '' branch differs from durable intent''))
      else Inr ())"

definition check_response :: "string \<Rightarrow> compensation_identity \<Rightarrow> string \<Rightarrow> string \<Rightarrow> int \<Rightarrow> (string \<times> string) list
    \<Rightarrow> (string \<times> string) list \<Rightarrow> unit result" where
  "check_response what ci url repo n marker response =
     (if \<not> dict_eq response (response_details ci url repo n (text_field ''returned_base_sha'' marker)) then
        Inl (StateError (what @ '' response differs from durable intent''))
      else Inr ())"

definition check_rejection :: "string \<Rightarrow> compensation_identity \<Rightarrow> string \<Rightarrow> (string \<times> string) list \<Rightarrow> (string \<times> string) list
    \<Rightarrow> unit result" where
  "check_rejection what ci url marker rejection =
     (if fst ` set rejection \<noteq> {''url'', ''mismatches'', ''expected_base_sha'', ''returned_base_sha''} then
        Inl (StateError (what @ '' rejection is malformed''))
      else if text_field ''url'' rejection \<noteq> url
        \<or> casefold (text_field ''expected_base_sha'' rejection) \<noteq> casefold (ci_base ci)
        \<or> casefold (text_field ''returned_base_sha'' rejection) \<noteq> casefold (text_field ''returned_base_sha'' marker)
        \<or> ''base commit'' \<notin> strip ` set (split_on (CHR '','') (text_field ''mismatches'' rejection)) then
        Inl (StateError (what @ '' rejection lacks the exact base race''))
      else Inr ())"

definition check_rows :: "string \<Rightarrow> string \<Rightarrow> string \<Rightarrow> (string \<times> string) list \<Rightarrow> event_id_row list \<Rightarrow> unit result" where
  "check_rows what kind field expected rows = check_all (\<lambda>row.
     bind_r (row_details field row) (\<lambda>kvs.
     if \<not> dict_eq kvs expected then Inl (StateError (what @ kind @ '' differs from durable intent'')) else Inr ())) rows"

section \<open>A merged pull request\<close>

definition merged_types :: "string list" where
  "merged_types = singular_types @ [''pull_request.compensation.reconciled'']"

definition assert_merged_compensation_events :: "db \<Rightarrow> run_manifest \<Rightarrow> string \<Rightarrow> unit result" where
  "assert_merged_compensation_events d m url =
     (let what = ''Merged publication compensation'' in
      case compensation_identity m of
        None \<Rightarrow> Inl (StateError ''Merged publication compensation lacks durable identity'')
      | Some ci \<Rightarrow>
        bind_r (parse_pull_request_url url (ci_api_origin ci)) (\<lambda>(repo, n).
        if casefold repo \<noteq> casefold (issue_repository (ci_candidate ci)) then
          Inl (StateError ''Merged publication compensation belongs to another repository'')
        else
          bind_r (publication_head m) (\<lambda>head.
          let fork = head_repository_of head; rows = rows_of_types d (run_id m) merged_types;
              seen = of_type ''pull_request.compensation.reconciled'' rows in
          bind_r (singular_rows what rows) (\<lambda>(b, p, r, k).
          if seen = [] then Inl (StateError ''Merged publication compensation lacks a remote merged observation'')
          else if \<not> sorted (map fst ([b, p, r, k] @ seen)) then
            Inl (StateError ''Merged publication compensation evidence is out of order'')
          else if map_option fst (latest_event d (run_id m)) \<noteq> Some (fst (last seen)) then
            Inl (StateError ''Merged publication compensation observation is not the latest run evidence'')
          else
            bind_r (row_details ''published contribution branch'' b) (\<lambda>branch.
            bind_r (row_details ''created pull-request response'' p) (\<lambda>response.
            bind_r (row_details ''created pull-request rejection'' r) (\<lambda>rejection.
            bind_r (row_details ''publication compensation marker'' k) (\<lambda>marker.
            bind_r (check_marker what ci url fork repo n marker) (\<lambda>_.
            bind_r (check_branch what ci fork branch) (\<lambda>_.
            bind_r (check_response what ci url repo n marker response) (\<lambda>_.
            bind_r (check_rejection what ci url marker rejection) (\<lambda>_.
            check_rows what '' observation'' ''merged pull-request reconciliation'' (merged_details ci url) seen))))))))))))"

section \<open>A failed publication\<close>

text \<open>Whether the fork's identity was bound, and what the absence of everything remote must say.\<close>

definition fork_identity :: "db \<Rightarrow> run_manifest \<Rightarrow> (string \<times> string) list result" where
  "fork_identity d m = (case (fork_repository_id m, fork_repository_node_id m) of
     (Some i, Some v) \<Rightarrow> Inr [(''fork_identity_state'', ''bound''), (''fork_repository_id'', int_text i), (''fork_repository_node_id'', v)]
   | _ \<Rightarrow>
     if commit_sha m \<noteq> None \<or> rows_of_types d (run_id m) [''branch.pushed''] \<noteq> [] then
       Inl (StateError ''Publication compensation has unbound fork identity after a remote-capable stage'')
     else Inr [(''fork_identity_state'', ''not_bound'')])"

definition absence_details :: "issue_candidate \<Rightarrow> string \<Rightarrow> int \<Rightarrow> string \<Rightarrow> publication_head_t \<Rightarrow> (string \<times> string) list
    \<Rightarrow> string \<Rightarrow> string option \<Rightarrow> string \<Rightarrow> (string \<times> string) list" where
  "absence_details c api ui un head fork branch commit reason =
     [(''repository'', issue_repository c), (''publishing_api_origin'', api), (''upstream_repository_id'', int_text ui),
      (''upstream_repository_node_id'', un), (''head'', head_label head), (''fork'', head_repository_of head)] @ fork
     @ [(''branch'', branch),
        (''commit_sha'', case commit of None \<Rightarrow> ''not_persisted'' | Some s \<Rightarrow> if s = [] then ''not_persisted'' else s),
        (''reason'', reason)]"

definition absence_evidence :: "(string \<times> string) list \<Rightarrow> (string \<times> string) list" where
  "absence_evidence expected = expected @ [(''pull_request'', ''absent''), (''remote_branch'', ''absent'')]"

definition check_absence :: "db \<Rightarrow> string \<Rightarrow> (string \<times> string) list \<Rightarrow> unit result" where
  "check_absence d rid expected =
     (let refused = Inl (StateError ''Publication compensation lacks the latest exact absence verification'');
          rows = rows_of_types d rid [''publication.absence.verified''] in
      if rows = [] \<or> map_option fst (latest_event d rid) \<noteq> Some (fst (last rows)) then refused
      else bind_r (row_details ''publication absence verification'' (last rows)) (\<lambda>kvs.
        if \<not> dict_eq kvs expected then refused else Inr ()))"

definition cleanup_types :: "string list" where
  "cleanup_types = singular_types @ [''pull_request.compensation.closed'', ''branch.compensated'']"

text \<open>The pull request was closed and its branch deleted, after the marker, and nothing happened since.\<close>

definition check_cleanup :: "db \<Rightarrow> run_manifest \<Rightarrow> publication_head_t \<Rightarrow> string \<Rightarrow> (string \<times> string) list \<Rightarrow> unit result" where
  "check_cleanup d m head reason evidence =
     (let what = ''Publication compensation'' in
      case (compensation_identity m, pull_request_url m) of
        (Some ci, Some url) \<Rightarrow>
        if publication_compensation_reason m \<noteq> Some Created_pr_base_moved then
          Inl (StateError ''Publication compensation lacks exact remote cleanup evidence'')
        else
          bind_r (parse_pull_request_url url (ci_api_origin ci)) (\<lambda>(repo, n).
          let fork = head_repository_of head; rows = rows_of_types d (run_id m) cleanup_types;
              closures = of_type ''pull_request.compensation.closed'' rows;
              branches = of_type ''branch.compensated'' rows in
          if casefold repo \<noteq> casefold (issue_repository (ci_candidate ci)) then
            Inl (StateError ''Publication compensation belongs to another repository'')
          else if \<not> dict_eq evidence (final_details ci url fork repo n reason) then
            Inl (StateError ''Publication compensation evidence differs from durable intent'')
          else
            bind_r (singular_rows what rows) (\<lambda>(b, p, r, k).
            if closures = [] \<or> branches = [] then
              Inl (StateError ''Publication compensation lacks exact pull-request and branch cleanup'')
            else if \<not> sorted (map fst [b, p, r, k, last closures, last branches]) then
              Inl (StateError ''Publication compensation evidence is out of order'')
            else if list_ex (\<lambda>x. fst x \<le> fst k) (closures @ branches) then
              Inl (StateError ''Publication compensation cleanup evidence precedes its marker'')
            else if map_option fst (latest_event d (run_id m)) \<noteq> Some (fst (last branches)) then
              Inl (StateError ''Publication compensation branch cleanup is not the latest run evidence'')
            else
              bind_r (row_details ''publication compensation marker'' k) (\<lambda>marker.
              bind_r (check_marker what ci url fork repo n marker) (\<lambda>_.
              bind_r (bind_r (row_details ''published contribution branch'' b) (check_branch what ci fork)) (\<lambda>_.
              bind_r (bind_r (row_details ''created pull-request response'' p) (check_response what ci url repo n marker)) (\<lambda>_.
              bind_r (bind_r (row_details ''created pull-request rejection'' r) (check_rejection what ci url marker)) (\<lambda>_.
              bind_r (check_rows what '' closure'' ''pull-request compensation closure'' (closed_details url) closures) (\<lambda>_.
              check_rows what '' branch cleanup'' ''compensated publication branch'' (compensated_details ci fork) branches))))))))
      | _ \<Rightarrow> Inl (StateError ''Publication compensation lacks exact remote cleanup evidence''))"

definition assert_failed_compensation_events :: "db \<Rightarrow> run_manifest \<Rightarrow> string \<Rightarrow> (string \<times> string) list \<Rightarrow> unit result" where
  "assert_failed_compensation_events d m reason evidence =
     (case (candidate m, branch_name m, publishing_login m, publishing_api_origin m, upstream_repository_id m,
            upstream_repository_node_id m) of
        (Some c, Some branch, Some _, Some api, Some ui, Some un) \<Rightarrow>
        if (fork_repository_id m = None) \<noteq> (fork_repository_node_id m = None) then
          Inl (StateError ''Publication compensation has partial immutable fork identity'')
        else
          bind_r (publication_head m) (\<lambda>head.
          bind_r (fork_identity d m) (\<lambda>fork.
          let expected = absence_details c api ui un head fork branch (commit_sha m) reason in
          if pull_request_url m = None \<and> \<not> pull_request_creation_started m \<and> dict_eq evidence (absence_evidence expected) then
            check_absence d (run_id m) expected
          else check_cleanup d m head reason evidence))
      | _ \<Rightarrow> Inl (StateError ''Publication compensation lacks durable identity''))"

section \<open>Committing the outcome\<close>

text \<open>
  What the two operations share.  The manifest gets its new status before its new time is computed, and
  only a failure inside the transaction takes both back.
\<close>

definition finalize_transaction :: "digest \<Rightarrow> dump \<Rightarrow> db \<Rightarrow> run_manifest \<Rightarrow> run_manifest \<Rightarrow> (db \<Rightarrow> unit result)
    \<Rightarrow> (run_row \<Rightarrow> run_row) \<Rightarrow> (string \<times> (string \<times> string) list) list \<Rightarrow> string \<Rightarrow> instant \<Rightarrow> db result" where
  "finalize_transaction H J d m m' check change evs what clock' =
     bind_r (reconcile_publication_state H d True) (\<lambda>d0.
     bind_r (check d0) (\<lambda>_.
     let (rs, rowcount) = update_run (runs d0) (run_id m') (begin_guard J m) change in
     if rowcount \<noteq> 1 then
       (if find_run d0 (run_id m') = None then Inl (StateError (''Unknown run: '' @ run_id m'))
        else Inl (StateError (''Run '' @ run_id m' @ '' changed while '' @ what @ '' was finalized'')))
     else
       bind_r (write_runs d0 rs) (\<lambda>d1.
       bind_r (append_events H d1 (run_id m') evs clock') (\<lambda>d2.
       mark_manifest_artifact_sync H J d2 (run_id m') (updated_at m') m'))))"

definition finalize_run :: "digest \<Rightarrow> dump \<Rightarrow> writer \<Rightarrow> (string \<Rightarrow> bool) \<Rightarrow> db \<Rightarrow> run_manifest \<Rightarrow> run_status
    \<Rightarrow> (db \<Rightarrow> run_manifest \<Rightarrow> unit result) \<Rightarrow> (run_manifest \<Rightarrow> run_row \<Rightarrow> run_row)
    \<Rightarrow> (string \<times> (string \<times> string) list) list \<Rightarrow> string \<Rightarrow> instant \<Rightarrow> instant \<Rightarrow> db \<times> run_manifest \<times> unit result" where
  "finalize_run H J wr rm d m target check change evs what clock clock' =
     (case next_run_update_time (updated_at m) clock of
        Inl e \<Rightarrow> (d, m\<lparr>status := target\<rparr>, Inl e)
      | Inr t \<Rightarrow>
        let m' = m\<lparr>status := target, updated_at := t\<rparr> in
        (case finalize_transaction H J d m m' (\<lambda>d0. check d0 m') (change m') evs what clock' of
           Inl e \<Rightarrow> (d, m, Inl e)
         | Inr d1 \<Rightarrow>
           (case synchronize_manifest_artifact H J wr d1 (run_id m') (updated_at m') (H (J m')) of
              Inl e \<Rightarrow> (d1, m', Inl e)
            | Inr x \<Rightarrow>
              (case remove_workspace rm (fst x) (run_id m') of
                 Inl e \<Rightarrow> (fst x, m', Inl e)
               | Inr d3 \<Rightarrow> (d3, m', Inr ())))))"

definition adopted_row :: "run_manifest \<Rightarrow> run_row \<Rightarrow> run_row" where
  "adopted_row m' r = r\<lparr>row_status := PR_OPEN, row_repository := map_option issue_repository (candidate m'),
     row_issue_number := map_option issue_number (candidate m'), row_updated_at := updated_at m', row_manifest := m'\<rparr>"

definition failed_row :: "run_manifest \<Rightarrow> run_row \<Rightarrow> run_row" where
  "failed_row m' r = r\<lparr>row_status := FAILED, row_updated_at := updated_at m', row_manifest := m'\<rparr>"

definition merged_arguments :: "run_manifest \<Rightarrow> string \<Rightarrow> string \<Rightarrow> (string \<times> string) result" where
  "merged_arguments m url reason =
     (if status m \<noteq> SUBMITTING then Inl (StateError ''Merged publication compensation requires a SUBMITTING manifest'')
      else if publication_compensation_reason m \<noteq> Some Created_pr_base_moved then
        Inl (StateError ''Merged publication compensation requires the created-PR base-race marker'')
      else bind_r (canonical_intent_text url ''merged compensating pull request URL'' 2000) (\<lambda>expected.
        if pull_request_url m \<noteq> Some expected then
          Inl (StateError ''Merged publication compensation does not match the durable pull request URL'')
        else bind_r (bounded_text reason ''merged publication compensation reason'' 2000) (\<lambda>normalized.
          Inr (expected, normalized))))"

definition finalize_merged_publication_compensation :: "digest \<Rightarrow> dump \<Rightarrow> writer \<Rightarrow> (string \<Rightarrow> bool) \<Rightarrow> db \<Rightarrow> run_manifest
    \<Rightarrow> string \<Rightarrow> string \<Rightarrow> instant \<Rightarrow> instant \<Rightarrow> db \<times> run_manifest \<times> unit result" where
  "finalize_merged_publication_compensation H J wr rm d m url reason clock clock' =
     (case merged_arguments m url reason of
        Inl e \<Rightarrow> (d, m, Inl e)
      | Inr (expected, normalized) \<Rightarrow>
        finalize_run H J wr rm d m PR_OPEN (\<lambda>d0 m'. assert_merged_compensation_events d0 m' expected) adopted_row
          [(''run.transitioned'', transition_details (status m) PR_OPEN normalized)] ''merged compensation'' clock clock')"

definition validate_event_details :: "(string \<times> string) list \<Rightarrow> string \<Rightarrow> unit result" where
  "validate_event_details details field =
     (if details = [] then Inl (ValueError (field @ '' must contain string keys and values''))
      else if 20000 < length (canonical_details details) then Inl (ValueError (field @ '' exceeds the storage limit''))
      else Inr ())"

definition failed_arguments :: "run_manifest \<Rightarrow> string \<Rightarrow> (string \<times> string) list \<Rightarrow> (string \<times> (string \<times> string) list) result" where
  "failed_arguments m reason evidence =
     (if status m \<noteq> SUBMITTING then Inl (StateError ''Verified publication compensation requires a SUBMITTING manifest'')
      else bind_r (bounded_text reason ''publication compensation reason'' 2000) (\<lambda>normalized.
        let verified = dict_set ''reason'' normalized evidence in
        bind_r (validate_event_details verified ''publication compensation evidence'') (\<lambda>_. Inr (normalized, verified))))"

definition finalize_publication_compensation :: "digest \<Rightarrow> dump \<Rightarrow> writer \<Rightarrow> (string \<Rightarrow> bool) \<Rightarrow> db \<Rightarrow> run_manifest
    \<Rightarrow> string \<Rightarrow> (string \<times> string) list \<Rightarrow> instant \<Rightarrow> instant \<Rightarrow> db \<times> run_manifest \<times> unit result" where
  "finalize_publication_compensation H J wr rm d m reason evidence clock clock' =
     (case failed_arguments m reason evidence of
        Inl e \<Rightarrow> (d, m, Inl e)
      | Inr (normalized, verified) \<Rightarrow>
        finalize_run H J wr rm d m FAILED (\<lambda>d0 m'. assert_failed_compensation_events d0 m' normalized verified) failed_row
          [(''publication.compensation.verified'', verified),
           (''run.transitioned'', transition_details (status m) FAILED normalized)] ''compensation'' clock clock')"

section \<open>The order of the evidence\<close>

lemma run_log_events: "map snd (run_log d rid) = run_events d rid"
proof -
  have "map snd (filter (\<lambda>x. P (snd x)) (enumerate n xs)) = filter P xs" for P n and xs :: "event_row list"
    by (induction xs arbitrary: n) auto
  from this [of "\<lambda>e. ev_run_id e = rid"] show ?thesis
    by (simp add: run_log_def run_events_def case_prod_unfold)
qed

lemma rows_of_types_events: "map snd (rows_of_types d rid ts) = filter (\<lambda>e. ev_type e \<in> set ts) (run_events d rid)"
proof -
  have "map snd (filter (\<lambda>x. P (snd x)) xs) = filter P (map snd xs)" for P and xs :: "event_id_row list"
    by (induction xs) auto
  from this [of "\<lambda>e. ev_type e \<in> set ts"] show ?thesis
    by (simp add: rows_of_types_def case_prod_unfold flip: run_log_events)
qed

lemma run_log_sorted: "sorted_wrt (\<lambda>x y. fst x < fst y) (run_log d rid)"
proof -
  have "sorted_wrt (\<lambda>x y. fst x < fst y) (enumerate n xs)" for n and xs :: "event_row list"
    by (induction xs arbitrary: n) (auto simp: in_set_enumerate_eq)
  then show ?thesis by (simp add: run_log_def sorted_wrt_filter)
qed

lemma increasing_ids:
  fixes rows :: "event_id_row list"
  assumes "sorted_wrt (\<lambda>x y. fst x < fst y) rows"
  shows "sorted (map fst rows)" and "distinct (map fst rows)"
proof -
  have "sorted (map fst rows) \<and> distinct (map fst rows)"
    using assms by (induction rows) (fastforce intro: less_imp_le)+
  then show "sorted (map fst rows)" "distinct (map fst rows)" by simp_all
qed

lemma typed_rows: "mset (filter (\<lambda>x. ev_type (snd x) \<in> set ts) rows) = mset (concat (map (\<lambda>t. of_type t rows) ts))"
  if "distinct ts"
  using that
proof (induction ts)
  case (Cons t ts)
  have "mset (filter (\<lambda>x. ev_type (snd x) \<in> set (t # ts)) rows)
      = mset (of_type t rows) + mset (filter (\<lambda>x. ev_type (snd x) \<in> set ts) rows)"
    using Cons.prems by (induction rows) (auto simp: of_type_def)
  then show ?case using Cons by simp
qed simp

lemma increasing_unique:
  fixes rows :: "event_id_row list"
  assumes "sorted_wrt (\<lambda>x y. fst x < fst y) rows" and "mset rows = mset xs" and "sorted (map fst xs)"
  shows "rows = xs"
proof -
  note i = increasing_ids [OF assms(1)]
  have inj: "inj_on fst (set rows)" using i(2) by (simp add: distinct_map)
  show ?thesis
    using sort_key_inj_key_eq [OF assms(2) inj assms(3)] sort_key_inj_key_eq [OF refl inj i(1)] by simp
qed

lemma rows_sorted: "sorted_wrt (\<lambda>x y. fst x < fst y) (rows_of_types d rid ts)"
  unfolding rows_of_types_def by (intro sorted_wrt_filter run_log_sorted)

lemma rows_in_order:
  assumes "distinct ts" and "sorted (map fst (concat (map (\<lambda>t. of_type t (run_log d rid)) ts)))"
  shows "rows_of_types d rid ts = concat (map (\<lambda>t. of_type t (run_log d rid)) ts)"
  using typed_rows [OF assms(1), of "run_log d rid"]
  by (intro increasing_unique [OF rows_sorted _ assms(2)]) (simp add: rows_of_types_def case_prod_unfold)

lemma of_type_rows: "t \<in> set ts \<Longrightarrow> of_type t (rows_of_types d rid ts) = of_type t (run_log d rid)"
  by (auto simp: of_type_def rows_of_types_def intro!: filter_cong)

lemma rows_by_type:
  assumes "distinct ts" and "set ts \<subseteq> set us" and rows: "rows = rows_of_types d rid us"
    and "concat (map (\<lambda>t. of_type t rows) ts) = xs" and "sorted (map fst xs)"
  shows "rows_of_types d rid ts = xs"
proof -
  have "map (\<lambda>t. of_type t rows) ts = map (\<lambda>t. of_type t (run_log d rid)) ts"
    using assms(2) of_type_rows [of _ us] by (auto simp: rows)
  then have "concat (map (\<lambda>t. of_type t (run_log d rid)) ts) = xs" using assms(4) by (simp only:)
  with rows_in_order [OF assms(1), of d rid] assms(5) show ?thesis by (simp only:)
qed

text \<open>An event whose details are, as a dictionary, the given ones.\<close>

definition says :: "event_row \<Rightarrow> (string \<times> string) list \<Rightarrow> bool" where
  "says e kvs \<longleftrightarrow> (\<exists>v. loads_details (ev_details e) = Some v \<and> dict_eq v kvs)"

text \<open>
  The history an adoption rests on: the run's compensation events are the push, the response, the
  rejection and the marker, in this order, and then observations of the merge, the last of which is the
  run's last event; each says what the manifest says, and the base GitHub returned was another one.
\<close>

definition adoption_evidence :: "db \<Rightarrow> run_manifest \<Rightarrow> string \<Rightarrow> bool" where
  "adoption_evidence d m url \<longleftrightarrow> (\<exists>ci repo n head b p r k seen returned.
     compensation_identity m = Some ci \<and> parse_pull_request_url url (ci_api_origin ci) = Inr (repo, n)
     \<and> casefold repo = casefold (issue_repository (ci_candidate ci)) \<and> publication_head m = Inr head
     \<and> filter (\<lambda>e. ev_type e \<in> set merged_types) (run_events d (run_id m)) = [b, p, r, k] @ seen
     \<and> map ev_type [b, p, r, k] = singular_types
     \<and> seen \<noteq> [] \<and> last (run_events d (run_id m)) = last seen
     \<and> casefold returned \<noteq> casefold (ci_base ci) \<and> is_git_sha (casefold returned)
     \<and> says b (branch_details ci (head_repository_of head)) \<and> says p (response_details ci url repo n returned)
     \<and> says k (marker_details ci url (head_repository_of head) repo n returned)
     \<and> (\<forall>e\<in>set seen. ev_type e = ''pull_request.compensation.reconciled'' \<and> says e (merged_details ci url)))"

lemma only_row_Some: "only_row t rows = Some x \<longleftrightarrow> of_type t rows = [x]"
  by (simp add: only_row_def split: list.splits)

lemma singular_rows_Inr:
  "singular_rows what rows = Inr (b, p, r, k) \<longleftrightarrow> map (\<lambda>t. of_type t rows) singular_types = [[b], [p], [r], [k]]"
  by (auto simp: singular_rows_def singular_types_def simp flip: only_row_Some split: option.splits)

lemma of_type_ev: "x \<in> set (of_type t rows) \<Longrightarrow> ev_type (snd x) = t"
  by (auto simp: of_type_def)

lemma singular_types_distinct: "distinct singular_types" "distinct merged_types" "distinct cleanup_types"
  by (simp_all add: singular_types_def merged_types_def cleanup_types_def)

lemma singular_rows_types:
  assumes "singular_rows what rows = Inr (b, p, r, k)"
  shows "map ev_type (map snd [b, p, r, k]) = singular_types"
  using assms of_type_ev [of b _ rows] of_type_ev [of p _ rows] of_type_ev [of r _ rows] of_type_ev [of k _ rows]
  by (simp add: singular_rows_Inr singular_types_def)

lemma latest_event_last:
  assumes "map_option fst (latest_event d rid) = Some (fst x)" and "x \<in> set (run_log d rid)"
  shows "run_events d rid \<noteq> [] \<and> last (run_events d rid) = snd x"
proof -
  have l: "run_log d rid \<noteq> []" "fst (last (run_log d rid)) = fst x"
    using assms(1) by (auto simp: latest_event_def split: if_splits)
  have "distinct (map fst (run_log d rid))"
    by (rule increasing_ids [OF run_log_sorted])
  then have "last (run_log d rid) = x"
    using l assms(2) last_in_set [OF l(1)] by (meson eq_key_imp_eq_value prod.collapse distinct_map inj_onD)
  then show ?thesis using l(1) by (metis run_log_events last_map map_is_Nil_conv)
qed

lemma row_details_says: "row_details f row = Inr v \<Longrightarrow> dict_eq v kvs \<Longrightarrow> says (snd row) kvs"
  by (auto simp: row_details_def says_def stored_event_details_Inr)

lemma check_marker_Inr:
  "check_marker what ci url fork repo n marker = Inr u \<longleftrightarrow>
     is_git_sha (casefold (text_field ''returned_base_sha'' marker))
     \<and> casefold (text_field ''returned_base_sha'' marker) \<noteq> casefold (ci_base ci)
     \<and> dict_eq marker (marker_details ci url fork repo n (text_field ''returned_base_sha'' marker))"
  by (auto simp: check_marker_def Let_def)

lemma check_details_Inr:
  "check_branch what ci fork branch = Inr u \<longleftrightarrow> dict_eq branch (branch_details ci fork)"
  "check_response what ci url repo n marker response = Inr u \<longleftrightarrow>
     dict_eq response (response_details ci url repo n (text_field ''returned_base_sha'' marker))"
  by (simp_all add: check_branch_def check_response_def)

lemma check_rows_says: "check_rows what kind f kvs rows = Inr u \<Longrightarrow> \<forall>x\<in>set rows. says (snd x) kvs"
  by (auto simp: check_rows_def check_all_Inr result_simps split: if_splits intro: row_details_says)

lemma merged_checked:
  assumes "assert_merged_compensation_events d m url = Inr u"
  shows "adoption_evidence d m url"
proof -
  define rid where "rid = run_id m"
  define rows where "rows = rows_of_types d rid merged_types"
  define seen where "seen = of_type ''pull_request.compensation.reconciled'' rows"
  obtain ci where ci: "compensation_identity m = Some ci"
    using assms by (cases "compensation_identity m") (simp_all add: assert_merged_compensation_events_def Let_def)
  note a = assms [unfolded assert_merged_compensation_events_def ci option.case Let_def, folded rid_def, folded rows_def,
      folded seen_def]
  from a obtain repo n head b p r k branch response marker where
    id: "parse_pull_request_url url (ci_api_origin ci) = Inr (repo, n)"
      "casefold repo = casefold (issue_repository (ci_candidate ci))" "publication_head m = Inr head"
    and rows: "singular_rows ''Merged publication compensation'' rows = Inr (b, p, r, k)" "seen \<noteq> []"
      "sorted (map fst ([b, p, r, k] @ seen))" "map_option fst (latest_event d rid) = Some (fst (last seen))"
    and det: "row_details ''published contribution branch'' b = Inr branch" "row_details ''created pull-request response'' p = Inr response"
      "row_details ''publication compensation marker'' k = Inr marker"
    and chk: "check_marker ''Merged publication compensation'' ci url (head_repository_of head) repo n marker = Inr ()"
      "check_branch ''Merged publication compensation'' ci (head_repository_of head) branch = Inr ()"
      "check_response ''Merged publication compensation'' ci url repo n marker response = Inr ()"
      "check_rows ''Merged publication compensation'' '' observation'' ''merged pull-request reconciliation''
              (merged_details ci url) seen = Inr ()"
    by (auto simp: bind_r_Inr_iff split: if_splits)
  have "concat (map (\<lambda>t. of_type t rows) merged_types) = [b, p, r, k] @ seen"
    using rows(1) by (simp add: singular_rows_Inr merged_types_def singular_types_def seen_def)
  then have "rows = [b, p, r, k] @ seen"
    using rows_by_type [OF singular_types_distinct(2) subset_refl rows_def _ rows(3)] by (simp add: rows_def)
  then have order: "filter (\<lambda>e. ev_type e \<in> set merged_types) (run_events d rid)
      = [snd b, snd p, snd r, snd k] @ map snd seen"
    using rows_of_types_events [of d rid merged_types] by (simp add: rows_def)
  have "last seen \<in> set (run_log d rid)"
    using rows(2) last_in_set [of seen] by (auto simp: seen_def of_type_def rows_def rows_of_types_def)
  then have latest: "last (run_events d rid) = last (map snd seen)"
    using latest_event_last [OF rows(4)] rows(2) by (simp add: last_map)
  have k: "is_git_sha (casefold (text_field ''returned_base_sha'' marker))"
     "casefold (text_field ''returned_base_sha'' marker) \<noteq> casefold (ci_base ci)"
     "dict_eq marker (marker_details ci url (head_repository_of head) repo n (text_field ''returned_base_sha'' marker))"
    using chk(1) by (simp_all add: check_marker_Inr)
  have s: "says (snd b) (branch_details ci (head_repository_of head))"
    "says (snd p) (response_details ci url repo n (text_field ''returned_base_sha'' marker))"
    "says (snd k) (marker_details ci url (head_repository_of head) repo n (text_field ''returned_base_sha'' marker))"
    using row_details_says [OF det(1)] row_details_says [OF det(2)] row_details_says [OF det(3)] chk(2,3) k(3)
    by (simp_all add: check_details_Inr)
  have o: "\<forall>e\<in>set (map snd seen). ev_type e = ''pull_request.compensation.reconciled'' \<and> says e (merged_details ci url)"
    using check_rows_says [OF chk(4)] of_type_ev by (fastforce simp: seen_def)
  have t: "map ev_type [snd b, snd p, snd r, snd k] = singular_types" using singular_rows_types [OF rows(1)] by simp
  have ne: "map snd seen \<noteq> []" using rows(2) by simp
  show ?thesis
    unfolding adoption_evidence_def rid_def [symmetric]
    using ci id order t ne latest k(1,2) s o by blast
qed

text \<open>
  What a failed publication rests on.  Either nothing remote was ever there and the run's last event is
  the exact verification of that; or the push, the response, the rejection and the marker are followed
  by nothing but closures of the pull request and deletions of its branch, at least one of each, and the
  last deletion is the run's last event.
\<close>

definition absence_recorded :: "db \<Rightarrow> run_manifest \<Rightarrow> string \<Rightarrow> bool" where
  "absence_recorded d m reason \<longleftrightarrow> pull_request_url m = None \<and> \<not> pull_request_creation_started m \<and> run_events d (run_id m) \<noteq> []
     \<and> (\<exists>c branch api ui un head fork. candidate m = Some c \<and> branch_name m = Some branch \<and> publishing_api_origin m = Some api
          \<and> upstream_repository_id m = Some ui \<and> upstream_repository_node_id m = Some un \<and> publication_head m = Inr head
          \<and> fork_identity d m = Inr fork
          \<and> (let e = last (run_events d (run_id m)) in ev_type e = ''publication.absence.verified''
              \<and> says e (absence_details c api ui un head fork branch (commit_sha m) reason)))"

definition cleanup_evidence :: "db \<Rightarrow> run_manifest \<Rightarrow> bool" where
  "cleanup_evidence d m \<longleftrightarrow> publication_compensation_reason m = Some Created_pr_base_moved
     \<and> (\<exists>ci url repo n head b p r k rest returned. compensation_identity m = Some ci \<and> pull_request_url m = Some url
        \<and> parse_pull_request_url url (ci_api_origin ci) = Inr (repo, n)
        \<and> casefold repo = casefold (issue_repository (ci_candidate ci)) \<and> publication_head m = Inr head
        \<and> filter (\<lambda>e. ev_type e \<in> set cleanup_types) (run_events d (run_id m)) = [b, p, r, k] @ rest
        \<and> map ev_type [b, p, r, k] = singular_types
        \<and> casefold returned \<noteq> casefold (ci_base ci) \<and> is_git_sha (casefold returned)
        \<and> says b (branch_details ci (head_repository_of head)) \<and> says p (response_details ci url repo n returned)
        \<and> says k (marker_details ci url (head_repository_of head) repo n returned)
        \<and> (\<forall>e\<in>set rest. ev_type e = ''pull_request.compensation.closed'' \<and> says e (closed_details url)
            \<or> ev_type e = ''branch.compensated'' \<and> says e (compensated_details ci (head_repository_of head)))
        \<and> (\<exists>e\<in>set rest. ev_type e = ''pull_request.compensation.closed'')
        \<and> ev_type (last (run_events d (run_id m))) = ''branch.compensated'' \<and> last (run_events d (run_id m)) \<in> set rest)"

lemma absence_checked:
  assumes "check_absence d rid expected = Inr u"
  shows "run_events d rid \<noteq> [] \<and> ev_type (last (run_events d rid)) = ''publication.absence.verified''
    \<and> says (last (run_events d rid)) expected"
proof -
  define rows where "rows = rows_of_types d rid [''publication.absence.verified'']"
  from assms obtain kvs where r: "rows \<noteq> []" "map_option fst (latest_event d rid) = Some (fst (last rows))"
    "row_details ''publication absence verification'' (last rows) = Inr kvs" "dict_eq kvs expected"
    by (auto simp: check_absence_def Let_def bind_r_Inr_iff rows_def split: if_splits)
  have l: "last rows \<in> set rows" using r(1) by simp
  then have "last rows \<in> set (run_log d rid)" "ev_type (snd (last rows)) = ''publication.absence.verified''"
    unfolding rows_def by (auto simp: rows_of_types_def case_prod_unfold)
  with latest_event_last [OF r(2)] row_details_says [OF r(3,4)] show ?thesis by simp
qed

lemma cleanup_checked:
  assumes "check_cleanup d m head reason evidence = Inr u" and head: "publication_head m = Inr head"
  shows "cleanup_evidence d m"
proof -
  define rid where "rid = run_id m"
  define rows where "rows = rows_of_types d rid cleanup_types"
  define closures where "closures = of_type ''pull_request.compensation.closed'' rows"
  define branches where "branches = of_type ''branch.compensated'' rows"
  define fork where "fork = head_repository_of head"
  obtain ci url where ci: "compensation_identity m = Some ci" "pull_request_url m = Some url"
    using assms(1) by (cases "compensation_identity m"; cases "pull_request_url m") (simp_all add: check_cleanup_def Let_def)
  note a = assms(1) [unfolded check_cleanup_def ci option.case prod.case Let_def, folded rid_def, folded rows_def,
      folded closures_def branches_def fork_def]
  from a obtain repo n b p r k branch response marker where
    id: "publication_compensation_reason m = Some Created_pr_base_moved"
      "parse_pull_request_url url (ci_api_origin ci) = Inr (repo, n)"
      "casefold repo = casefold (issue_repository (ci_candidate ci))"
    and rows: "singular_rows ''Publication compensation'' rows = Inr (b, p, r, k)" "closures \<noteq> []" "branches \<noteq> []"
      "sorted (map fst [b, p, r, k])" "\<forall>x\<in>set (closures @ branches). fst k < fst x"
      "map_option fst (latest_event d rid) = Some (fst (last branches))"
    and det: "row_details ''published contribution branch'' b = Inr branch" "row_details ''created pull-request response'' p = Inr response"
      "row_details ''publication compensation marker'' k = Inr marker"
    and chk: "check_marker ''Publication compensation'' ci url fork repo n marker = Inr ()"
      "check_branch ''Publication compensation'' ci fork branch = Inr ()"
      "check_response ''Publication compensation'' ci url repo n marker response = Inr ()"
      "check_rows ''Publication compensation'' '' closure'' ''pull-request compensation closure'' (closed_details url) closures = Inr ()"
      "check_rows ''Publication compensation'' '' branch cleanup'' ''compensated publication branch''
         (compensated_details ci fork) branches = Inr ()"
    by (auto simp: bind_r_Inr_iff list_ex_iff not_le split: if_splits)
  define rest where "rest = filter (\<lambda>x. ev_type (snd x) \<in> {''pull_request.compensation.closed'', ''branch.compensated''}) rows"
  have rest: "set rest = set closures \<union> set branches"
    by (auto simp: rest_def closures_def branches_def of_type_def)
  have typed: "\<forall>x\<in>set rows. ev_type (snd x) \<in> set singular_types
      \<longleftrightarrow> ev_type (snd x) \<notin> {''pull_request.compensation.closed'', ''branch.compensated''}"
    by (auto simp: rows_def rows_of_types_def cleanup_types_def singular_types_def)
  have four: "concat (map (\<lambda>t. of_type t rows) singular_types) = [b, p, r, k]"
    using rows(1) by (simp add: singular_rows_Inr singular_types_def)
  have "rows = [b, p, r, k] @ rest"
  proof (rule increasing_unique)
    show "sorted_wrt (\<lambda>x y. fst x < fst y) rows" by (simp add: rows_def rows_sorted)
    have "mset rows = mset (filter (\<lambda>x. ev_type (snd x) \<in> set singular_types) rows)
        + mset (filter (\<lambda>x. ev_type (snd x) \<notin> set singular_types) rows)"
      by (simp add: mset_filter)
    also have "filter (\<lambda>x. ev_type (snd x) \<notin> set singular_types) rows = rest"
      unfolding rest_def by (rule filter_cong) (use typed in auto)
    also have "mset (filter (\<lambda>x. ev_type (snd x) \<in> set singular_types) rows) = mset [b, p, r, k]"
      using typed_rows [OF singular_types_distinct(1), of rows] four by (simp only:)
    finally show "mset rows = mset ([b, p, r, k] @ rest)" by simp
    have "sorted (map fst rest)"
      unfolding rest_def rows_def by (intro increasing_ids(1) sorted_wrt_filter rows_sorted)
    moreover have "\<forall>x\<in>set rest. fst k < fst x" using rows(5) rest by auto
    ultimately show "sorted (map fst ([b, p, r, k] @ rest))" using rows(4) by fastforce
  qed
  then have order: "filter (\<lambda>e. ev_type e \<in> set cleanup_types) (run_events d rid)
      = [snd b, snd p, snd r, snd k] @ map snd rest"
    using rows_of_types_events [of d rid cleanup_types] by (simp add: rows_def)
  have l: "last branches \<in> set branches" using rows(3) by simp
  then have "last branches \<in> set (run_log d rid)"
    by (auto simp: branches_def of_type_def rows_def rows_of_types_def)
  then have last: "last (run_events d rid) = snd (last branches)" using latest_event_last [OF rows(6)] by simp
  have latest: "ev_type (last (run_events d rid)) = ''branch.compensated''" "last (run_events d rid) \<in> set (map snd rest)"
    using l last rest of_type_ev [of "last branches" "''branch.compensated''" rows] by (auto simp: branches_def)
  have k: "is_git_sha (casefold (text_field ''returned_base_sha'' marker))"
     "casefold (text_field ''returned_base_sha'' marker) \<noteq> casefold (ci_base ci)"
     "dict_eq marker (marker_details ci url fork repo n (text_field ''returned_base_sha'' marker))"
    using chk(1) by (simp_all add: check_marker_Inr)
  have s: "says (snd b) (branch_details ci fork)"
    "says (snd p) (response_details ci url repo n (text_field ''returned_base_sha'' marker))"
    "says (snd k) (marker_details ci url fork repo n (text_field ''returned_base_sha'' marker))"
    using row_details_says [OF det(1)] row_details_says [OF det(2)] row_details_says [OF det(3)] chk(2,3) k(3)
    by (simp_all add: check_details_Inr)
  have ct: "ev_type (snd x) = ''pull_request.compensation.closed''" if "x \<in> set closures" for x
    using of_type_ev that unfolding closures_def .
  have bt: "ev_type (snd x) = ''branch.compensated''" if "x \<in> set branches" for x
    using of_type_ev that unfolding branches_def .
  have o: "\<forall>e\<in>set (map snd rest). ev_type e = ''pull_request.compensation.closed'' \<and> says e (closed_details url)
      \<or> ev_type e = ''branch.compensated'' \<and> says e (compensated_details ci fork)"
    using check_rows_says [OF chk(4)] check_rows_says [OF chk(5)] ct bt rest by auto
  have c: "\<exists>e\<in>set (map snd rest). ev_type e = ''pull_request.compensation.closed''"
  proof (rule bexI)
    have "hd closures \<in> set closures" using rows(2) by simp
    then show "ev_type (snd (hd closures)) = ''pull_request.compensation.closed''" "snd (hd closures) \<in> set (map snd rest)"
      using ct rest by auto
  qed
  have t: "map ev_type [snd b, snd p, snd r, snd k] = singular_types" using singular_rows_types [OF rows(1)] by simp
  show ?thesis
    unfolding cleanup_evidence_def rid_def [symmetric]
    using ci id head order t latest k(1,2) s o c unfolding fork_def by blast
qed

lemma failed_checked:
  assumes "assert_failed_compensation_events d m reason evidence = Inr u"
  shows "absence_recorded d m reason \<or> cleanup_evidence d m"
proof -
  from assms obtain c branch login api ui un where
    f: "candidate m = Some c" "branch_name m = Some branch" "publishing_login m = Some login" "publishing_api_origin m = Some api"
      "upstream_repository_id m = Some ui" "upstream_repository_node_id m = Some un"
    by (auto simp: assert_failed_compensation_events_def split: option.splits)
  from assms obtain head fork where h: "publication_head m = Inr head" "fork_identity d m = Inr fork"
    and c: "(if pull_request_url m = None \<and> \<not> pull_request_creation_started m
        \<and> dict_eq evidence (absence_evidence (absence_details c api ui un head fork branch (commit_sha m) reason))
      then check_absence d (run_id m) (absence_details c api ui un head fork branch (commit_sha m) reason)
      else check_cleanup d m head reason evidence) = Inr u"
  proof -
    have "(fork_repository_id m = None) = (fork_repository_node_id m = None)"
      using assms f by (auto simp: assert_failed_compensation_events_def split: if_splits)
    then show thesis
      using assms that unfolding assert_failed_compensation_events_def f option.case prod.case Let_def
      by (simp only: bind_r_Inr_iff simp_thms if_False) blast
  qed
  show ?thesis
    using c absence_checked f h cleanup_checked [OF _ h(1)]
    by (fastforce simp: absence_recorded_def Let_def split: if_splits)
qed

section \<open>What a finalization commits\<close>

lemma append_events_last:
  assumes "append_events H d rid evs clock = Inr d'" and "ledger_sound H d"
  shows "\<exists>es. events d' = events d @ es \<and> map ev_type es = map fst evs
    \<and> map ev_details es = map (\<lambda>x. canonical_details (snd x)) evs \<and> (\<forall>e\<in>set es. ev_run_id e = rid)"
  using assms
proof (induction H d rid evs clock rule: append_events.induct)
  case (2 H d rid etype details evs clock)
  from 2(2) obtain d1 where d1: "append_event H d rid etype details None clock = Inr d1"
    and r: "append_events H d1 rid evs clock = Inr d'"
    by (auto simp: bind_r_Inr_iff)
  obtain e where e: "events d1 = events d @ [e]" "ev_run_id e = rid" "ev_type e = etype" "ev_details e = canonical_details details"
    using append_event_last [OF d1 2(3)] by blast
  have "ledger_sound H d1" using append_event_appended [OF d1 2(3)] by (simp add: appended_def)
  with 2(1) [OF d1 r] obtain es where "events d' = events d1 @ es" "map ev_type es = map fst evs"
    "map ev_details es = map (\<lambda>x. canonical_details (snd x)) evs" "\<forall>e\<in>set es. ev_run_id e = rid" by blast
  with e show ?case by (intro exI [of _ "e # es"]) simp
qed simp

lemma finalize_transaction_cases:
  assumes t: "finalize_transaction H J d m m' check change evs what clock' = Inr d'"
    and wf: "store_wf H J d" "reservations_ok d"
    and f: "find_run d (run_id m') = Some r" and change: "\<And>x. anchor_of (change x) = anchor_of x"
    and agrees: "row_agrees H (change r)"
  shows "check d = Inr ()" and "begin_guard J m r" and "store_wf H J d'"
    and "\<exists>r'. find_run d' (run_id m') = Some r' \<and> blank r' = blank (change r)"
    and "\<exists>es. events d' = events d @ es \<and> map ev_type es = map fst evs
      \<and> map ev_details es = map (\<lambda>x. canonical_details (snd x)) evs \<and> (\<forall>e\<in>set es. ev_run_id e = run_id m')"
    and "manifest_artifact_sync d' (run_id m') = Some \<lparr>sync_updated_at = updated_at m', sync_manifest_sha256 = H (J m')\<rparr>"
proof -
  have s: "ledger_sound H d" and ok: "runs_ok (runs d)" using wf(1) by (simp_all add: store_wf_def)
  obtain rs n where upd: "update_run (runs d) (run_id m') (begin_guard J m) change = (rs, n)"
    by (cases "update_run (runs d) (run_id m') (begin_guard J m) change")
  have c: "check d = Inr ()" and t': "(if n \<noteq> 1 then
      (if find_run d (run_id m') = None then Inl (StateError (''Unknown run: '' @ run_id m'))
       else Inl (StateError (''Run '' @ run_id m' @ '' changed while '' @ what @ '' was finalized'')))
    else bind_r (write_runs d rs) (\<lambda>d1. bind_r (append_events H d1 (run_id m') evs clock') (\<lambda>d2.
      mark_manifest_artifact_sync H J d2 (run_id m') (updated_at m') m'))) = Inr d'"
    using t unfolding finalize_transaction_def reconcile_ok [OF s wf(2)] bind_r.simps upd Let_def prod.case
    by (simp_all only: bind_r_Inr_iff ex_simps simp_thms) (elim conjE exE, simp)
  have n: "n = 1" using t' f by (simp split: if_splits)
  from t' n obtain d1 d2 where w: "write_runs d rs = Inr d1"
    and a: "append_events H d1 (run_id m') evs clock' = Inr d2"
    and k: "mark_manifest_artifact_sync H J d2 (run_id m') (updated_at m') m' = Inr d'"
    by (auto simp only: bind_r_Inr_iff simp_thms if_False)
  show "check d = Inr ()" by (rule c)
  have "n = (if begin_guard J m r then 1 else 0)"
    using update_run_count [OF ok upd] f by (simp add: find_run_def)
  with n show g: "begin_guard J m r" by (metis zero_neq_one)
  have s1: "ledger_sound H d1"
    using s ledger_sound_anchors [of d1 d H] w upd change by (auto simp: write_runs_Inr update_run_def)
  have app: "appended H d1 d2"
    by (rule append_events_appended [OF a s1]) (use w in \<open>simp add: write_runs_Inr\<close>)
  note st = store_update [OF wf(1) f g upd w change agrees app k]
  from st show "store_wf H J d'" "\<exists>r'. find_run d' (run_id m') = Some r' \<and> blank r' = blank (change r)" by blast+
  from append_events_last [OF a s1] w k
  show "\<exists>es. events d' = events d @ es \<and> map ev_type es = map fst evs
      \<and> map ev_details es = map (\<lambda>x. canonical_details (snd x)) evs \<and> (\<forall>e\<in>set es. ev_run_id e = run_id m')"
    by (auto simp: write_runs_Inr mark_Inr)
  show "manifest_artifact_sync d' (run_id m') = Some \<lparr>sync_updated_at = updated_at m', sync_manifest_sha256 = H (J m')\<rparr>"
    using k by (auto simp: mark_Inr)
qed

text \<open>The two outcomes of a finalization: nothing changed, or everything was committed.\<close>

definition finalized :: "digest \<Rightarrow> dump \<Rightarrow> db \<Rightarrow> db \<Rightarrow> run_manifest \<Rightarrow> run_manifest \<Rightarrow> run_status \<Rightarrow> string list \<Rightarrow> bool" where
  "finalized H J d d' m m' target types \<longleftrightarrow> updated_at m < updated_at m' \<and> m' = m\<lparr>status := target, updated_at := updated_at m'\<rparr>
     \<and> (\<exists>r. find_run d (run_id m) = Some r \<and> row_status r = SUBMITTING)
     \<and> (\<exists>r'. find_run d' (run_id m) = Some r' \<and> row_status r' = target \<and> row_manifest r' = m' \<and> row_updated_at r' = updated_at m')
     \<and> (\<exists>es. events d' = events d @ es \<and> map ev_type es = types \<and> (\<forall>e\<in>set es. ev_run_id e = run_id m))"

lemma finalized_manifest:
  "finalized H J d d' m m' target types \<Longrightarrow> m' = m\<lparr>status := target, updated_at := updated_at m'\<rparr>"
  unfolding finalized_def by blast

lemma finalize_run_cases:
  assumes run: "finalize_run H J wr rm d m target check change evs what clock clock' = (d', m', res)"
    and wf: "store_wf H J d" "reservations_ok d" and g: "get_run d rid = Inr m" and st: "status m = SUBMITTING"
    and change: "\<And>x y. anchor_of (change x y) = anchor_of y"
    and agrees: "\<And>m1 r. row_agrees H r \<Longrightarrow> status m1 = target \<Longrightarrow> run_id m1 = run_id (row_manifest r) \<Longrightarrow> candidate m1 = candidate (row_manifest r)
      \<Longrightarrow> row_agrees H (change m1 r)"
    and same: "\<And>x y. row_status (change x y) = target \<and> row_manifest (change x y) = x \<and> row_updated_at (change x y) = updated_at x"
  shows "store_wf H J d' \<and> (d' = d \<and> \<not> returns res
      \<and> m' = (if returns (next_run_update_time (updated_at m) clock) then m else m\<lparr>status := target\<rparr>)
    \<or> check d m' = Inr () \<and> finalized H J d d' m m' target (map fst evs))"
proof (cases "next_run_update_time (updated_at m) clock")
  case (Inl e)
  with run wf(1) show ?thesis by (auto simp: finalize_run_def)
next
  case (Inr t)
  define m1 where "m1 = m\<lparr>status := target, updated_at := t\<rparr>"
  have m1: "run_id m1 = run_id m" "status m1 = target" "updated_at m1 = t" "candidate m1 = candidate m"
    by (simp_all add: m1_def)
  note run = run [unfolded finalize_run_def Inr sum.case Let_def m1_def [symmetric]]
  from g obtain r where r: "find_run d rid = Some r" "row_manifest r = m"
    by (auto simp: get_run_def split: option.splits dest: validate_manifest_Inr)
  have ag: "row_agrees H r" and id: "run_id m = rid" "status m = row_status r"
    using r wf(1) by (auto simp: store_wf_def row_agrees_def Let_def dest!: find_run_SomeD)
  show ?thesis
  proof (cases "finalize_transaction H J d m m1 (\<lambda>d0. check d0 m1) (change m1) evs what clock'")
    case e: (Inl e)
    with run wf(1) Inr show ?thesis by auto
  next
    case d1: (Inr d1)
    have "row_agrees H (change m1 r)" using agrees [OF ag, of m1] m1 r(2) by simp
    note tr = finalize_transaction_cases [OF d1 wf r(1) [folded id(1), folded m1(1)] change this]
    from tr(4) obtain r' where r': "find_run d1 (run_id m) = Some r'" "blank r' = blank (change m1 r)" by (auto simp: m1)
    note b = blank_eqD [OF r'(2)]
    obtain es where es: "events d1 = events d @ es" "map ev_type es = map fst evs" "\<forall>e\<in>set es. ev_run_id e = run_id m"
      using tr(5) m1(1) by auto
    have d': "cleared d1 d'" "m' = m1"
    proof -
      note run = run [unfolded d1 sum.case]
      have "cleared d1 d' \<and> m' = m1"
      proof (cases "synchronize_manifest_artifact H J wr d1 (run_id m1) (updated_at m1) (H (J m1))")
        case (Inr x)
        have c: "cleared d1 (fst x)"
          using synchronize_cleared [of H J wr d1 "run_id m1" _ _ "fst x" "snd x"] Inr by simp
        then show ?thesis
          using run Inr remove_workspace_cleared cleared_trans [OF c]
          by (cases "remove_workspace rm (fst x) (run_id m1)") auto
      qed (use run in simp)
      then show "cleared d1 d'" "m' = m1" by simp_all
    qed
    have "finalized H J d d' m m' target (map fst evs)"
      unfolding finalized_def
    proof (intro conjI)
      show "updated_at m < updated_at m'" using next_run_update_time_Inr [OF Inr] by (simp add: d' m1)
      show "m' = m\<lparr>status := target, updated_at := updated_at m'\<rparr>" by (simp add: d' m1 m1_def)
      show "\<exists>r. find_run d (run_id m) = Some r \<and> row_status r = SUBMITTING" using r id st by auto
      show "\<exists>r'. find_run d' (run_id m) = Some r' \<and> row_status r' = target \<and> row_manifest r' = m' \<and> row_updated_at r' = updated_at m'"
        using r' b same [of m1 r] m1 cleared_find [OF d'(1)] by (simp add: d'(2))
      show "\<exists>es. events d' = events d @ es \<and> map ev_type es = map fst evs \<and> (\<forall>e\<in>set es. ev_run_id e = run_id m)"
        using es d'(1) by (auto simp: cleared_def)
    qed
    then show ?thesis using cleared_wf [OF d'(1) tr(3)] tr(1) d'(2) by simp
  qed
qed

lemma compensation_reads_identity [simp]:
  "publication_head (m\<lparr>status := s, updated_at := t\<rparr>) = publication_head m"
  "compensation_identity (m\<lparr>status := s, updated_at := t\<rparr>) = compensation_identity m"
  "fork_identity d (m\<lparr>status := s, updated_at := t\<rparr>) = fork_identity d m"
  by (simp_all add: publication_head_def compensation_identity_def fork_identity_def split: option.split)

lemma evidence_reads_identity:
  "adoption_evidence d (m\<lparr>status := s, updated_at := t\<rparr>) url \<longleftrightarrow> adoption_evidence d m url"
  "absence_recorded d (m\<lparr>status := s, updated_at := t\<rparr>) reason \<longleftrightarrow> absence_recorded d m reason"
  "cleanup_evidence d (m\<lparr>status := s, updated_at := t\<rparr>) \<longleftrightarrow> cleanup_evidence d m"
  by (simp_all add: adoption_evidence_def absence_recorded_def cleanup_evidence_def)

text \<open>
  C14. Adopting a pull request that was merged before it could be closed either changes nothing
  that is stored, or the run recorded a moved base for exactly this pull request and its events
  hold the whole story in order (the pushed branch, the answer to the creation with another
  base, the rejection, the marker and, as the latest evidence, the observed merge), and then the
  stored run is open with a newer update time and one more event. After a refusal the manifest
  of the caller is as it was, except that its status is already set when the update time has no
  successor.
\<close>

theorem adoption_needs_merge_evidence:
  assumes "store_wf H J d" and "reservations_ok d" and "get_run d rid = Inr m"
    and "finalize_merged_publication_compensation H J wr rm d m url reason clock clock' = (d', m', res)"
  shows "store_wf H J d' \<and> (d' = d \<and> \<not> returns res \<and> (m' = m
        \<or> m' = m\<lparr>status := PR_OPEN\<rparr> \<and> \<not> returns (next_run_update_time (updated_at m) clock))
    \<or> publication_compensation_reason m = Some Created_pr_base_moved \<and> pull_request_url m = Some url
      \<and> adoption_evidence d m url \<and> finalized H J d d' m m' PR_OPEN [''run.transitioned''])"
proof (cases "merged_arguments m url reason")
  case (Inl e)
  with assms show ?thesis by (auto simp: finalize_merged_publication_compensation_def)
next
  case (Inr x)
  obtain expected normalized where x: "x = (expected, normalized)" by (cases x)
  from Inr x have a: "status m = SUBMITTING" "publication_compensation_reason m = Some Created_pr_base_moved"
    "expected = url" "pull_request_url m = Some url"
    by (auto simp: merged_arguments_def canonical_intent_text_def bind_r_Inr_iff split: if_splits)
  note run = assms(4) [unfolded finalize_merged_publication_compensation_def Inr x sum.case prod.case]
  have "store_wf H J d' \<and> (d' = d \<and> \<not> returns res
      \<and> m' = (if returns (next_run_update_time (updated_at m) clock) then m else m\<lparr>status := PR_OPEN\<rparr>)
    \<or> assert_merged_compensation_events d m' expected = Inr ()
      \<and> finalized H J d d' m m' PR_OPEN (map fst [(''run.transitioned'', transition_details (status m) PR_OPEN normalized)]))"
    by (rule finalize_run_cases [OF run assms(1-3) a(1)])
       (auto simp: anchor_of_def adopted_row_def row_agrees_def Let_def)
  moreover have "adoption_evidence d m url"
    if "assert_merged_compensation_events d m' expected = Inr ()" "finalized H J d d' m m' PR_OPEN types" for types
    using merged_checked [OF that(1)] finalized_manifest [OF that(2)] evidence_reads_identity(1) a(3) by metis
  ultimately show ?thesis using a(2,4) by (auto split: if_splits)
qed

text \<open>
  C15. Failing a submitting run either changes nothing that is stored, or its latest evidence is
  a verified absence of the publication that names this reason, or the events of a pull request
  that was closed and a branch that was removed afterwards, each as durably intended; then the
  stored run has failed with a newer update time and the two events that say so.
\<close>

theorem failure_needs_cleanup_evidence:
  assumes "store_wf H J d" and "reservations_ok d" and "get_run d rid = Inr m"
    and "finalize_publication_compensation H J wr rm d m reason evidence clock clock' = (d', m', res)"
  shows "store_wf H J d' \<and> (d' = d \<and> \<not> returns res \<and> (m' = m
        \<or> m' = m\<lparr>status := FAILED\<rparr> \<and> \<not> returns (next_run_update_time (updated_at m) clock))
    \<or> (absence_recorded d m (strip reason) \<or> cleanup_evidence d m)
      \<and> finalized H J d d' m m' FAILED [''publication.compensation.verified'', ''run.transitioned''])"
proof (cases "failed_arguments m reason evidence")
  case (Inl e)
  with assms show ?thesis by (auto simp: finalize_publication_compensation_def)
next
  case (Inr x)
  obtain normalized verified where x: "x = (normalized, verified)" by (cases x)
  from Inr x have a: "status m = SUBMITTING" "normalized = strip reason"
    by (auto simp: failed_arguments_def bounded_text_Inr bind_r_Inr_iff Let_def split: if_splits)
  note run = assms(4) [unfolded finalize_publication_compensation_def Inr x sum.case prod.case]
  have "store_wf H J d' \<and> (d' = d \<and> \<not> returns res
      \<and> m' = (if returns (next_run_update_time (updated_at m) clock) then m else m\<lparr>status := FAILED\<rparr>)
    \<or> assert_failed_compensation_events d m' normalized verified = Inr ()
      \<and> finalized H J d d' m m' FAILED (map fst [(''publication.compensation.verified'', verified),
           (''run.transitioned'', transition_details (status m) FAILED normalized)]))"
    by (rule finalize_run_cases [OF run assms(1-3) a(1)])
       (auto simp: anchor_of_def failed_row_def row_agrees_def Let_def)
  moreover have "absence_recorded d m (strip reason) \<or> cleanup_evidence d m"
    if "assert_failed_compensation_events d m' normalized verified = Inr ()" "finalized H J d d' m m' FAILED types" for types
    using failed_checked [OF that(1)] finalized_manifest [OF that(2)] evidence_reads_identity(2,3) a(2) by metis
  ultimately show ?thesis by (auto split: if_splits)
qed

section \<open>Examples\<close>

text \<open>A run with a chain of events of distinct types, and the digest that tells these events apart.\<close>

definition chain_event :: "char \<Rightarrow> char \<Rightarrow> string \<Rightarrow> (string \<times> string) list \<Rightarrow> event_row" where
  "chain_event p c etype dts = \<lparr>ev_run_id = ''r'', ev_occurred_at = isoformat 0, ev_type = etype,
     ev_details = canonical_details dts, ev_previous_hash = tagged_hash p, ev_hash = tagged_hash c\<rparr>"

definition chain_sha :: "event_row list \<Rightarrow> digest" where
  "chain_sha es s = (case List.find (\<lambda>e. payload_of e = s) es of None \<Rightarrow> tagged_hash (CHR ''9'') | Some e \<Rightarrow> ev_hash e)"

lemma chain_event_simps [simp]:
  "ev_run_id (chain_event p c t dts) = ''r''" "ev_type (chain_event p c t dts) = t" "ev_hash (chain_event p c t dts) = tagged_hash c"
  "ev_previous_hash (chain_event p c t dts) = tagged_hash p" "ev_details (chain_event p c t dts) = canonical_details dts"
  by (simp_all add: chain_event_def)

lemma chain_sha_known:
  assumes "distinct (map ev_type es)" and "e \<in> set es"
  shows "chain_sha es (payload_of e) = ev_hash e"
proof -
  have "List.find (\<lambda>x. payload_of x = payload_of e) es = Some e"
    using assms
  proof (induction es)
    case (Cons x es)
    have "x = e" if "payload_of x = payload_of e"
      using event_payload_inj [OF that [unfolded payload_of_def]] Cons.prems by force
    with Cons show ?case by auto
  qed simp
  then show ?thesis by (simp add: chain_sha_def)
qed

lemma chain_sha_sha: "\<forall>e\<in>set es. is_sha256 (ev_hash e) \<Longrightarrow> is_sha256 (chain_sha es s)"
proof -
  assume "\<forall>e\<in>set es. is_sha256 (ev_hash e)"
  moreover have "is_sha256 (tagged_hash (CHR ''9''))"
    by (simp add: is_lower_hex_def is_digit_def)
  ultimately show ?thesis by (auto simp: chain_sha_def dest!: find_SomeD split: option.splits)
qed

lemma chain_event_says: "distinct (map fst dts) \<Longrightarrow> stored_event_details (canonical_details dts) f = Inr (sort_key fst dts)"
  by (simp add: stored_event_details_Inr canonical_details_def loads_dumps')

lemma sample_finalize:
  assumes m: "run_id m = ''r''" "status m = SUBMITTING" "updated_at m = 0" and m1: "m1 = m\<lparr>status := target, updated_at := 1\<rparr>"
    and r: "row_run_id r = ''r''" "row_status r = SUBMITTING" "row_updated_at r = 0"
    and s: "ledger_sound H (pub_db r es [])" "reservations_ok (pub_db r es [])"
    and c: "check (pub_db r es []) m1 = Inr ()" and ok: "runs_ok [change m1 r]" "row_run_id (change m1 r) = ''r''"
    and a: "append_events H (pub_db (change m1 r) es []) ''r'' evs 0 = Inr (pub_db r2 es2 [])"
    and r2: "row_run_id r2 = ''r''" "row_updated_at r2 = 1" "row_manifest r2 = m1" and v: "validate_manifest m1 = Inr m1"
  shows "\<exists>d'. finalize_run H (\<lambda>_. []) (\<lambda>_. None) (\<lambda>_. False) (pub_db r es []) m target check change evs what 1 0 = (d', m1, Inr ())"
proof -
  let ?d = "(pub_db r2 es2 [])\<lparr>manifest_artifact_sync := [''r'' \<mapsto> \<lparr>sync_updated_at = 1, sync_manifest_sha256 = H []\<rparr>]\<rparr>"
  have g: "begin_guard (\<lambda>_. []) m r" using m r by (simp add: begin_guard_def)
  have i: "run_id m1 = ''r''" "updated_at m1 = 1" using m by (simp_all add: m1)
  have u: "update_run [r] ''r'' (begin_guard (\<lambda>_. []) m) (change m1) = ([change m1 r], 1)"
    using r g by (simp add: update_run_def)
  have k: "mark_manifest_artifact_sync H (\<lambda>_. []) (pub_db r2 es2 []) ''r'' 1 m1 = Inr ?d"
    using r2 by (simp add: mark_manifest_artifact_sync_def pub_find)
  have t: "finalize_transaction H (\<lambda>_. []) (pub_db r es []) m m1 (\<lambda>d0. check d0 m1) (change m1) evs what 0 = Inr ?d"
    by (simp add: finalize_transaction_def reconcile_ok [OF s] c i u write_runs_def ok a k)
  have "publish_artifact H (\<lambda>_. []) (\<lambda>_. None) ?d ''r'' 1 (H [])
      = Inr (?d\<lparr>manifest_files := (manifest_files ?d)(''r'' \<mapsto> m1),
          manifest_artifact_sync := (manifest_artifact_sync ?d)(''r'' := None)\<rparr>, True)"
    using v r2 i by (simp add: publish_artifact_def find_run_def)
  then have y: "synchronize_manifest_artifact H (\<lambda>_. []) (\<lambda>_. None) ?d ''r'' 1 (H []) = Inr (?d\<lparr>manifest_files := (manifest_files ?d)(''r'' \<mapsto> m1),
          manifest_artifact_sync := (manifest_artifact_sync ?d)(''r'' := None)\<rparr>, True)"
    by (simp only: synchronize_Inr)
  have n: "next_run_update_time (updated_at m) 1 = Inr 1" using m by (simp add: next_run_update_time_def)
  have w: "\<exists>d'. remove_workspace (\<lambda>_. False) d1 ''r'' = Inr d'" for d1
    by (simp add: remove_workspace_def workspace_name_def)
  show ?thesis
    unfolding finalize_run_def n sum.case Let_def m1 [symmetric] t i y fst_conv using w by (metis sum.case(2))
qed

lemma sorted_field:
  assumes "distinct (map fst kvs)"
  shows "text_field k (sort_key fst kvs) = text_field k kvs"
proof -
  have "map_of (sort_key fst kvs) = map_of kvs"
    using assms by (intro map_of_inject_set [THEN iffD2]) (simp_all add: distinct_map)
  then show ?thesis by (simp add: text_field_def)
qed

lemma new_event_chain:
  "H (payload_of (chain_event p c t dts)) = tagged_hash c \<Longrightarrow> new_event H (tagged_hash p) ''r'' t dts 0 = chain_event p c t dts"
  by (simp add: new_event_def chain_event_def payload_of_def)

definition chain_row :: "digest \<Rightarrow> run_manifest \<Rightarrow> run_status \<Rightarrow> instant \<Rightarrow> int \<Rightarrow> char \<Rightarrow> run_row" where
  "chain_row H m st t n c = \<lparr>row_run_id = ''r'', row_status = st, row_repository = Some ''o/n'',
     row_issue_number = Some 1, row_created_at = 0, row_updated_at = t, row_manifest = m,
     row_event_count = n, row_event_head = tagged_hash c,
     row_issue_revision = Some (compute_issue_revision H sample_issue)\<rparr>"

lemma chain_row_simps [simp]:
  "row_run_id (chain_row H m st t n c) = ''r''" "row_status (chain_row H m st t n c) = st"
  "row_repository (chain_row H m st t n c) = Some ''o/n''" "row_issue_number (chain_row H m st t n c) = Some 1"
  "row_updated_at (chain_row H m st t n c) = t" "row_manifest (chain_row H m st t n c) = m"
  "row_event_count (chain_row H m st t n c) = n" "row_event_head (chain_row H m st t n c) = tagged_hash c"
  "row_issue_revision (chain_row H m st t n c) = Some (compute_issue_revision H sample_issue)"
  "chain_row H m st t n c\<lparr>row_event_count := n', row_event_head := tagged_hash c'\<rparr> = chain_row H m st t n' c'"
  by (simp_all add: chain_row_def)

lemma chain_row_changed:
  "candidate m' = Some sample_issue \<Longrightarrow> updated_at m' = t' \<Longrightarrow> adopted_row m' (chain_row H m st t n c) = chain_row H m' PR_OPEN t' n c"
  "updated_at m' = t' \<Longrightarrow> failed_row m' (chain_row H m st t n c) = chain_row H m' FAILED t' n c"
  by (simp_all add: adopted_row_def failed_row_def chain_row_def)

lemma chain_row_ok:
  fixes H :: digest
  assumes "\<And>s. is_sha256 (H s)" and "0 \<le> n" and "is_sha256 (tagged_hash c)"
  shows "runs_ok [chain_row H m st t n c]" "run_row_ok (chain_row H m st t n c)"
  using assms by (simp_all add: runs_ok_def run_row_ok_def opt_all_def active_keys_def active_key.simps compute_issue_revision_def)

definition failing_manifest :: run_manifest where
  "failing_manifest = (new_manifest ''r'' SUBMITTING 0 0)\<lparr>candidate := Some sample_issue, publishing_login := Some ''l'',
     publishing_api_origin := Some ''u'', upstream_repository_id := Some 1, upstream_repository_node_id := Some ''n'',
     branch_name := Some ''b''\<rparr>"

definition failing_absence :: "(string \<times> string) list" where
  "failing_absence = absence_details sample_issue ''u'' 1 ''n''
     \<lparr>head_repository_of = ''l/n'', head_label = ''l:b'', head_same_repository = False\<rparr>
     [(''fork_identity_state'', ''not_bound'')] ''b'' None ''x''"

definition failing_events :: "event_row list" where
  "failing_events = [chain_event (CHR ''0'') (CHR ''1'') ''run.created'' [(''status'', ''queued'')],
     chain_event (CHR ''1'') (CHR ''2'') ''publication.absence.verified'' failing_absence]"

definition failed_events :: "event_row list" where
  "failed_events = [chain_event (CHR ''2'') (CHR ''3'') ''publication.compensation.verified'' (absence_evidence failing_absence),
     chain_event (CHR ''3'') (CHR ''4'') ''run.transitioned'' (transition_details SUBMITTING FAILED ''x'')]"

definition failing_sha :: digest where
  "failing_sha = chain_sha (failing_events @ failed_events)"

definition failing_db :: db where
  "failing_db = pub_db (chain_row failing_sha failing_manifest SUBMITTING 0 2 (CHR ''2'')) failing_events []"

lemma zeros_tag: "zeros = tagged_hash (CHR ''0'')"
  by (simp add: zeros_def tagged_hash_def replicate_numeral)

lemma failing_hashes:
  "\<forall>e\<in>set (failing_events @ failed_events). failing_sha (payload_of e) = ev_hash e" "is_sha256 (failing_sha s)"
proof -
  have d: "distinct (map ev_type (failing_events @ failed_events))" by (simp add: failing_events_def failed_events_def)
  show "\<forall>e\<in>set (failing_events @ failed_events). failing_sha (payload_of e) = ev_hash e"
    using chain_sha_known [OF d] unfolding failing_sha_def by blast
  show "is_sha256 (failing_sha s)"
    unfolding failing_sha_def by (rule chain_sha_sha) (simp add: failing_events_def failed_events_def is_lower_hex_def is_digit_def)
qed

lemma failing_manifest_simps [simp]:
  "run_id failing_manifest = ''r''" "status failing_manifest = SUBMITTING" "updated_at failing_manifest = 0"
  "candidate failing_manifest = Some sample_issue" "branch_name failing_manifest = Some ''b''"
  "publishing_login failing_manifest = Some ''l''" "publishing_api_origin failing_manifest = Some ''u''"
  "upstream_repository_id failing_manifest = Some 1" "upstream_repository_node_id failing_manifest = Some ''n''"
  "fork_repository_id failing_manifest = None" "fork_repository_node_id failing_manifest = None"
  "commit_sha failing_manifest = None" "pull_request_url failing_manifest = None" "head_repository failing_manifest = None"
  "\<not> pull_request_creation_started failing_manifest"
  by (simp_all add: failing_manifest_def new_manifest_def)

lemma failing_valid:
  "validate_manifest (failing_manifest\<lparr>status := s, updated_at := t\<rparr>) = Inr (failing_manifest\<lparr>status := s, updated_at := t\<rparr>)"
  "validate_manifest failing_manifest = Inr failing_manifest"
  by (simp_all add: validate_manifest_def fields_valid_def remote_identity_complete_def failing_manifest_def new_manifest_def
      opt_all_def is_node_id_def strip_def rstrip_def is_space_def is_printable_def)

lemma failing_wf: "store_wf failing_sha J failing_db" and failing_reservations: "reservations_ok failing_db"
proof -
  have h: "failing_sha (payload_of (chain_event (CHR ''0'') (CHR ''1'') ''run.created'' [(''status'', ''queued'')])) = tagged_hash (CHR ''1'')"
    "failing_sha (payload_of (chain_event (CHR ''1'') (CHR ''2'') ''publication.absence.verified'' failing_absence)) = tagged_hash (CHR ''2'')"
    using failing_hashes(1) by (simp_all add: failing_events_def)
  have "anchored failing_sha failing_db (chain_row failing_sha failing_manifest SUBMITTING 0 2 (CHR ''2''))"
    by (simp add: failing_db_def anchored_def run_events_def failing_events_def zeros_tag h
        is_lower_hex_def is_digit_def)
  then show "store_wf failing_sha J failing_db"
    using chain_row_ok(1) [of failing_sha 2 "CHR ''2''" failing_manifest SUBMITTING 0] failing_hashes(2)
    by (simp add: failing_db_def store_wf_def ledger_sound_def row_agrees_def marker_ok_def Let_def)
       (simp add: failing_events_def)
  show "reservations_ok failing_db"
    by (simp add: reservations_ok_def publication_evidence_def failing_db_def failing_events_def)
qed

lemma chain_append:
  assumes sha: "\<And>s. is_sha256 (H s)" and h: "H (payload_of (chain_event p c t dts)) = tagged_hash c"
    and es: "es \<noteq> []" "\<forall>e\<in>set es. ev_run_id e = ''r''" "ev_hash (last es) = tagged_hash p" "n = int (length es)"
    and new: "tagged_hash c \<notin> ev_hash ` set es" "distinct (map ev_hash es)" and p: "is_sha256 (tagged_hash p)"
  shows "append_event H (pub_db (chain_row H m st u n p) es []) ''r'' t dts None 0
    = Inr (pub_db (chain_row H m st u (n + 1) c) (es @ [chain_event p c t dts]) [])"
proof -
  have c: "is_sha256 (tagged_hash c)" using sha [of "payload_of (chain_event p c t dts)"] by (simp only: h)
  have e: "event_payload ''r'' (isoformat 0) t (canonical_details dts) (tagged_hash p) = payload_of (chain_event p c t dts)"
    by (simp add: payload_of_def chain_event_def)
  have "append_event H (pub_db (chain_row H m st u n p) es []) ''r'' t dts None 0
    = Inr (pub_db (chain_row H m st u n p\<lparr>row_event_count := int (length es) + 1, row_event_head := tagged_hash c\<rparr>)
        (es @ [new_event H (row_event_head (chain_row H m st u n p)) ''r'' t dts 0]) [])"
    by (rule pub_append) (use es new p c h e chain_row_ok(2) [of H "n + 1" c m st u] sha in simp_all)
  then show ?thesis by (simp add: new_event_chain [of H, OF h] es(4))
qed

lemma failing_appends:
  "append_events failing_sha (pub_db (chain_row failing_sha m FAILED 1 2 (CHR ''2'')) failing_events [])
      ''r'' [(''publication.compensation.verified'', absence_evidence failing_absence),
        (''run.transitioned'', transition_details SUBMITTING FAILED ''x'')] 0
   = Inr (pub_db (chain_row failing_sha m FAILED 1 4 (CHR ''4'')) (failing_events @ failed_events) [])"
proof -
  let ?e = "chain_event (CHR ''2'') (CHR ''3'') ''publication.compensation.verified'' (absence_evidence failing_absence)"
  have h: "failing_sha (payload_of ?e) = tagged_hash (CHR ''3'')"
    "failing_sha (payload_of (chain_event (CHR ''3'') (CHR ''4'') ''run.transitioned''
      (transition_details SUBMITTING FAILED ''x''))) = tagged_hash (CHR ''4'')"
    using failing_hashes(1) by (simp_all add: failed_events_def)
  note a = chain_append [where H = failing_sha, OF failing_hashes(2) h(1), of failing_events 2 m FAILED 1]
    chain_append [where H = failing_sha, OF failing_hashes(2) h(2), of "failing_events @ [?e]" 3 m FAILED 1]
  show ?thesis using a by (simp add: failing_events_def failed_events_def)
qed

lemma failing_head:
  "publication_head failing_manifest = Inr \<lparr>head_repository_of = ''l/n'', head_label = ''l:b'', head_same_repository = False\<rparr>"
  by (simp add: publication_head_def after_slash_def before_slash_def casefold_def fold_char_def)

lemma failing_checked:
  "assert_failed_compensation_events failing_db (failing_manifest\<lparr>status := s, updated_at := t\<rparr>) ''x'' (absence_evidence failing_absence)
   = Inr ()"
proof -
  have d: "distinct (map fst failing_absence)" by (simp add: failing_absence_def absence_details_def)
  have f: "fork_identity failing_db failing_manifest = Inr [(''fork_identity_state'', ''not_bound'')]"
    by (simp add: fork_identity_def rows_of_types_def run_log_def failing_db_def failing_events_def)
  have "check_absence failing_db ''r'' failing_absence = Inr ()"
    using chain_event_says [OF d]
    by (simp add: check_absence_def rows_of_types_def run_log_def latest_event_def failing_db_def failing_events_def
        row_details_def dict_eq_sorted)
  then show ?thesis
    by (simp add: assert_failed_compensation_events_def failing_head f flip: failing_absence_def) (simp add: dict_eq_def)
qed

lemma failing_arguments:
  "failed_arguments failing_manifest ''x'' (absence_evidence failing_absence) = Inr (''x'', absence_evidence failing_absence)"
proof -
  have t: "bounded_text ''x'' f n = Inr ''x''" if "1 \<le> n" for f n
    using that by (simp add: bounded_text_def strip_def rstrip_def is_space_def nul_char char_of_def)
  have s: "dict_set ''reason'' ''x'' (absence_evidence failing_absence) = absence_evidence failing_absence"
    by (simp add: absence_evidence_def failing_absence_def absence_details_def)
  have "length (canonical_details (absence_evidence failing_absence)) \<le> 20000"
    by code_simp
  then show ?thesis
    by (simp add: failed_arguments_def t s validate_event_details_def) (simp add: absence_evidence_def)
qed

lemma failure_needs_cleanup_evidence_witness:
  "\<exists>d' m'. finalize_publication_compensation failing_sha (\<lambda>_. []) (\<lambda>_. None) (\<lambda>_. False) failing_db failing_manifest ''x''
      (absence_evidence failing_absence) 1 0 = (d', m', Inr ())
    \<and> finalized failing_sha (\<lambda>_. []) failing_db d' failing_manifest m' FAILED
        [''publication.compensation.verified'', ''run.transitioned'']"
proof -
  let ?m = "failing_manifest\<lparr>status := FAILED, updated_at := 1\<rparr>"
  let ?r = "chain_row failing_sha failing_manifest SUBMITTING 0 2 (CHR ''2'')"
  have s: "ledger_sound failing_sha failing_db" using failing_wf [of "\<lambda>_. []"] by (simp add: store_wf_def)
  have f: "failed_row ?m ?r = chain_row failing_sha ?m FAILED 1 2 (CHR ''2'')" by (simp add: chain_row_changed)
  have o: "runs_ok [failed_row ?m ?r]" unfolding f
    using chain_row_ok(1) [of failing_sha 2 "CHR ''2''" ?m FAILED 1] failing_hashes(2) by simp
  have "\<exists>d'. finalize_run failing_sha (\<lambda>_. []) (\<lambda>_. None) (\<lambda>_. False) (pub_db ?r failing_events []) failing_manifest FAILED
      (\<lambda>d0 m'. assert_failed_compensation_events d0 m' ''x'' (absence_evidence failing_absence)) failed_row
      [(''publication.compensation.verified'', absence_evidence failing_absence),
       (''run.transitioned'', transition_details SUBMITTING FAILED ''x'')] ''compensation'' 1 0 = (d', ?m, Inr ())"
    by (rule sample_finalize [OF _ _ _ refl, where ?r2.0 = "chain_row failing_sha ?m FAILED 1 4 (CHR ''4'')"
          and ?es2.0 = "failing_events @ failed_events"])
       (use s failing_reservations failing_checked failing_appends [of ?m] o f failing_valid(1) in \<open>simp_all add: failing_db_def\<close>)
  then obtain d' where run: "finalize_publication_compensation failing_sha (\<lambda>_. []) (\<lambda>_. None) (\<lambda>_. False) failing_db failing_manifest ''x''
      (absence_evidence failing_absence) 1 0 = (d', ?m, Inr ())"
    by (auto simp: finalize_publication_compensation_def failing_arguments failing_db_def)
  have "get_run failing_db ''r'' = Inr failing_manifest"
    by (simp add: get_run_def failing_db_def pub_find failing_valid)
  from failure_needs_cleanup_evidence [OF failing_wf failing_reservations this run] run show ?thesis
    by (auto simp: returns_def)
qed

text \<open>A pull request that was created on a moved base, and merged before it could be closed.\<close>

abbreviation page_url :: string where
  "page_url \<equiv> ''https://github.com/o/n/pull/7''"

definition adopting_manifest :: run_manifest where
  "adopting_manifest = failing_manifest\<lparr>base_sha := Some (replicate 40 (CHR ''a'')), publishing_api_origin := Some ''https://api.github.com'',
     fork_repository_id := Some 2, fork_repository_node_id := Some ''f'', commit_sha := Some (replicate 40 (CHR ''c'')),
     publication_compensation_reason := Some Created_pr_base_moved, pull_request_url := Some page_url,
     pull_request_node_id := Some ''p''\<rparr>"

definition adopting_identity :: compensation_identity where
  "adopting_identity = \<lparr>ci_candidate = sample_issue, ci_base = replicate 40 (CHR ''a''), ci_branch = ''b'',
     ci_commit = replicate 40 (CHR ''c''), ci_api_origin = ''https://api.github.com'', ci_upstream_id = 1, ci_upstream_node = ''n'',
     ci_fork_id = 2, ci_fork_node = ''f'', ci_pull_node = ''p''\<rparr>"

abbreviation other_base :: string where
  "other_base \<equiv> replicate 40 (CHR ''b'')"

definition rejection_sample :: "(string \<times> string) list" where
  "rejection_sample = [(''url'', page_url), (''mismatches'', ''head, base commit''), (''expected_base_sha'', replicate 40 (CHR ''a'')),
     (''returned_base_sha'', other_base)]"

definition adopting_events :: "event_row list" where
  "adopting_events =
    [chain_event (CHR ''0'') (CHR ''1'') ''run.created'' [(''status'', ''queued'')],
     chain_event (CHR ''1'') (CHR ''2'') ''branch.pushed'' (branch_details adopting_identity ''l/n''),
     chain_event (CHR ''2'') (CHR ''3'') ''pull_request.created.response'' (response_details adopting_identity page_url ''o/n'' 7 other_base),
     chain_event (CHR ''3'') (CHR ''4'') ''pull_request.created.rejected'' rejection_sample,
     chain_event (CHR ''4'') (CHR ''5'') ''publication.compensation.started''
       (marker_details adopting_identity page_url ''l/n'' ''o/n'' 7 other_base),
     chain_event (CHR ''5'') (CHR ''6'') ''pull_request.compensation.reconciled'' (merged_details adopting_identity page_url)]"

definition adopted_event :: event_row where
  "adopted_event = chain_event (CHR ''6'') (CHR ''7'') ''run.transitioned'' (transition_details SUBMITTING PR_OPEN ''x'')"

definition adopting_sha :: digest where
  "adopting_sha = chain_sha (adopting_events @ [adopted_event])"

definition adopting_db :: db where
  "adopting_db = pub_db (chain_row adopting_sha adopting_manifest SUBMITTING 0 6 (CHR ''6'')) adopting_events []"

lemma adopting_hashes:
  "\<forall>e\<in>set (adopting_events @ [adopted_event]). adopting_sha (payload_of e) = ev_hash e" "is_sha256 (adopting_sha s)"
proof -
  have d: "distinct (map ev_type (adopting_events @ [adopted_event]))" by (simp add: adopting_events_def adopted_event_def)
  show "\<forall>e\<in>set (adopting_events @ [adopted_event]). adopting_sha (payload_of e) = ev_hash e"
    using chain_sha_known [OF d] unfolding adopting_sha_def by blast
  show "is_sha256 (adopting_sha s)"
    unfolding adopting_sha_def
    by (rule chain_sha_sha) (simp add: adopting_events_def adopted_event_def is_lower_hex_def is_digit_def)
qed

lemma adopting_manifest_simps [simp]:
  "run_id adopting_manifest = ''r''" "status adopting_manifest = SUBMITTING" "updated_at adopting_manifest = 0"
  "candidate adopting_manifest = Some sample_issue" "pull_request_url adopting_manifest = Some page_url"
  "publication_compensation_reason adopting_manifest = Some Created_pr_base_moved"
  by (simp_all add: adopting_manifest_def)

lemma adopting_facts:
  "validate_manifest (adopting_manifest\<lparr>status := s, updated_at := t\<rparr>) = Inr (adopting_manifest\<lparr>status := s, updated_at := t\<rparr>)"
  "validate_manifest adopting_manifest = Inr adopting_manifest"
  "compensation_identity adopting_manifest = Some adopting_identity"
  "publication_head adopting_manifest = Inr \<lparr>head_repository_of = ''l/n'', head_label = ''l:b'', head_same_repository = False\<rparr>"
  by (simp_all add: validate_manifest_def fields_valid_def remote_identity_complete_def failing_manifest_def new_manifest_def
      adopting_manifest_def opt_all_def is_node_id_def strip_def rstrip_def is_space_def is_printable_def
      compensation_identity_def adopting_identity_def publication_head_def after_slash_def before_slash_def casefold_def fold_char_def)

lemma adopting_wf: "store_wf adopting_sha J adopting_db" and adopting_reservations: "reservations_ok adopting_db"
proof -
  have "chain_head adopting_sha zeros adopting_events = Some (tagged_hash (CHR ''6''))"
    using adopting_hashes(1) unfolding adopting_events_def
    by (simp add: zeros_tag is_lower_hex_def is_digit_def)
  then have "anchored adopting_sha adopting_db (chain_row adopting_sha adopting_manifest SUBMITTING 0 6 (CHR ''6''))"
    by (simp add: adopting_db_def anchored_def run_events_def is_lower_hex_def is_digit_def) (simp add: adopting_events_def)
  moreover have "is_sha256 (tagged_hash (CHR ''6''))" by (simp add: is_lower_hex_def is_digit_def)
  ultimately show "store_wf adopting_sha J adopting_db"
    using chain_row_ok(1) [of adopting_sha 6 "CHR ''6''" adopting_manifest SUBMITTING 0] adopting_hashes(2)
    by (simp add: adopting_db_def store_wf_def ledger_sound_def row_agrees_def marker_ok_def Let_def)
       (simp add: adopting_events_def)
  show "reservations_ok adopting_db"
    by (simp add: reservations_ok_def publication_evidence_def adopting_db_def adopting_events_def)
qed

lemma adopting_page: "parse_pull_request_url page_url ''https://api.github.com'' = Inr (''o/n'', 7)"
  by code_simp

lemma adopting_details:
  "distinct (map fst (branch_details ci fork))" "distinct (map fst (response_details ci url repo n returned))"
  "distinct (map fst (marker_details ci url fork repo n returned))" "distinct (map fst (merged_details ci url))"
  "distinct (map fst rejection_sample)" "text_field ''returned_base_sha'' (marker_details ci url fork repo n returned) = returned"
  by (simp_all add: branch_details_def response_details_def marker_details_def merged_details_def rejection_sample_def
      upstream_details_def fork_details_def text_field_def)

lemma adopting_checks:
  "check_marker what adopting_identity page_url ''l/n'' ''o/n'' 7
     (sort_key fst (marker_details adopting_identity page_url ''l/n'' ''o/n'' 7 other_base)) = Inr ()"
  "check_rejection what adopting_identity page_url
     (sort_key fst (marker_details adopting_identity page_url ''l/n'' ''o/n'' 7 other_base)) (sort_key fst rejection_sample) = Inr ()"
proof -
  have c: "casefold other_base = other_base" "casefold (replicate 40 (CHR ''a'')) = replicate 40 (CHR ''a'')"
    "other_base \<noteq> replicate 40 (CHR ''a'')" "is_git_sha other_base" "ci_base adopting_identity = replicate 40 (CHR ''a'')"
    by (simp_all add: casefold_def fold_char_def is_git_sha_def is_lower_hex_def list_all_iff adopting_identity_def
        replicate_numeral)
  show "check_marker what adopting_identity page_url ''l/n'' ''o/n'' 7
     (sort_key fst (marker_details adopting_identity page_url ''l/n'' ''o/n'' 7 other_base)) = Inr ()"
    by (simp add: check_marker_Inr sorted_field adopting_details c dict_eq_sorted)
  have "''base commit'' \<in> strip ` set (split_on (CHR '','') ''head, base commit'')" by code_simp
  moreover have "text_field ''url'' rejection_sample = page_url" "text_field ''mismatches'' rejection_sample = ''head, base commit''"
    "text_field ''expected_base_sha'' rejection_sample = replicate 40 (CHR ''a'')"
    "text_field ''returned_base_sha'' rejection_sample = other_base"
    "fst ` set rejection_sample = {''url'', ''mismatches'', ''expected_base_sha'', ''returned_base_sha''}"
    by (simp_all add: rejection_sample_def text_field_def)
  ultimately show "check_rejection what adopting_identity page_url
     (sort_key fst (marker_details adopting_identity page_url ''l/n'' ''o/n'' 7 other_base)) (sort_key fst rejection_sample) = Inr ()"
    by (simp add: check_rejection_def sorted_field adopting_details c)
qed

lemma adopting_checked:
  "assert_merged_compensation_events adopting_db (adopting_manifest\<lparr>status := s, updated_at := t\<rparr>) page_url = Inr ()"
proof -
  define shown where "shown = drop 1 (enumerate 1 adopting_events)"
  have rows: "rows_of_types adopting_db ''r'' merged_types = shown"
    by (simp add: shown_def rows_of_types_def run_log_def adopting_db_def adopting_events_def merged_types_def singular_types_def)
  have latest: "map_option fst (latest_event adopting_db ''r'') = Some 6"
    by (simp add: latest_event_def run_log_def adopting_db_def adopting_events_def)
  have ids: "ci_api_origin adopting_identity = ''https://api.github.com''" "ci_candidate adopting_identity = sample_issue"
    by (simp_all add: adopting_identity_def)
  note says = chain_event_says [OF adopting_details(1)] chain_event_says [OF adopting_details(2)]
    chain_event_says [OF adopting_details(3)] chain_event_says [OF adopting_details(4)] chain_event_says [OF adopting_details(5)]
  have four: "singular_rows what shown = Inr ((2, adopting_events ! 1), (3, adopting_events ! 2),
      (4, adopting_events ! 3), (5, adopting_events ! 4))" for what
    by (simp add: shown_def singular_rows_def only_row_def of_type_def adopting_events_def)
  have seen: "of_type ''pull_request.compensation.reconciled'' shown = [(6, adopting_events ! 5)]"
    by (simp add: shown_def of_type_def adopting_events_def)
  have details: "row_details f (2, adopting_events ! 1) = Inr (sort_key fst (branch_details adopting_identity ''l/n''))"
    "row_details f (3, adopting_events ! 2) = Inr (sort_key fst (response_details adopting_identity page_url ''o/n'' 7 other_base))"
    "row_details f (4, adopting_events ! 3) = Inr (sort_key fst rejection_sample)"
    "row_details f (5, adopting_events ! 4) = Inr (sort_key fst (marker_details adopting_identity page_url ''l/n'' ''o/n'' 7 other_base))"
    "row_details f (6, adopting_events ! 5) = Inr (sort_key fst (merged_details adopting_identity page_url))" for f
    by (simp_all add: row_details_def adopting_events_def says)
  have b: "check_branch what adopting_identity ''l/n'' (sort_key fst (branch_details adopting_identity ''l/n'')) = Inr ()"
    "check_response what adopting_identity page_url ''o/n'' 7 (sort_key fst (marker_details adopting_identity page_url ''l/n'' ''o/n'' 7 other_base))
      (sort_key fst (response_details adopting_identity page_url ''o/n'' 7 other_base)) = Inr ()"
    "check_rows what kind f (merged_details adopting_identity page_url) [(6, adopting_events ! 5)] = Inr ()" for what kind f
    by (simp_all add: check_details_Inr sorted_field adopting_details dict_eq_sorted check_rows_def details)
  show ?thesis
    unfolding assert_merged_compensation_events_def compensation_reads_identity adopting_facts(3,4) option.case Let_def ids adopting_page
    by (simp add: rows latest four seen details adopting_checks b del: One_nat_def)
qed

lemma adopting_appends:
  "append_events adopting_sha (pub_db (chain_row adopting_sha m PR_OPEN 1 6 (CHR ''6'')) adopting_events [])
      ''r'' [(''run.transitioned'', transition_details SUBMITTING PR_OPEN ''x'')] 0
   = Inr (pub_db (chain_row adopting_sha m PR_OPEN 1 7 (CHR ''7'')) (adopting_events @ [adopted_event]) [])"
proof -
  have h: "adopting_sha (payload_of adopted_event) = tagged_hash (CHR ''7'')"
    using adopting_hashes(1) by (simp add: adopted_event_def)
  have p: "is_sha256 (tagged_hash (CHR ''6''))" by (simp add: is_lower_hex_def is_digit_def)
  show ?thesis
    using chain_append [where H = adopting_sha, OF adopting_hashes(2) h [unfolded adopted_event_def], of adopting_events 6 m PR_OPEN 1] p
    by (simp add: adopting_events_def adopted_event_def)
qed

lemma adoption_needs_merge_evidence_witness:
  "\<exists>d' m'. finalize_merged_publication_compensation adopting_sha (\<lambda>_. []) (\<lambda>_. None) (\<lambda>_. False) adopting_db adopting_manifest
      page_url ''x'' 1 0 = (d', m', Inr ())
    \<and> adoption_evidence adopting_db adopting_manifest page_url
    \<and> finalized adopting_sha (\<lambda>_. []) adopting_db d' adopting_manifest m' PR_OPEN [''run.transitioned'']"
proof -
  let ?m = "adopting_manifest\<lparr>status := PR_OPEN, updated_at := 1\<rparr>"
  let ?r = "chain_row adopting_sha adopting_manifest SUBMITTING 0 6 (CHR ''6'')"
  have s: "ledger_sound adopting_sha adopting_db" using adopting_wf [of "\<lambda>_. []"] by (simp add: store_wf_def)
  have f: "adopted_row ?m ?r = chain_row adopting_sha ?m PR_OPEN 1 6 (CHR ''6'')" by (simp add: chain_row_changed)
  have p: "is_sha256 (tagged_hash (CHR ''6''))" by (simp add: is_lower_hex_def is_digit_def)
  have o: "runs_ok [adopted_row ?m ?r]" unfolding f
    using chain_row_ok(1) [of adopting_sha 6 "CHR ''6''" ?m PR_OPEN 1] adopting_hashes(2) p by simp
  have t: "bounded_text ''x'' f 2000 = Inr ''x''" for f
    by (simp add: bounded_text_def strip_def rstrip_def is_space_def nul_char char_of_def)
  have u: "canonical_intent_text page_url ''merged compensating pull request URL'' 2000 = Inr page_url"
    by (simp add: canonical_intent_text_def bounded_text_def strip_def rstrip_def is_space_def nul_char newline_def
        carriage_return_def char_of_def)
  have "\<exists>d'. finalize_run adopting_sha (\<lambda>_. []) (\<lambda>_. None) (\<lambda>_. False) (pub_db ?r adopting_events []) adopting_manifest PR_OPEN
      (\<lambda>d0 m'. assert_merged_compensation_events d0 m' page_url) adopted_row
      [(''run.transitioned'', transition_details SUBMITTING PR_OPEN ''x'')] ''merged compensation'' 1 0 = (d', ?m, Inr ())"
    by (rule sample_finalize [OF _ _ _ refl, where ?r2.0 = "chain_row adopting_sha ?m PR_OPEN 1 7 (CHR ''7'')"
          and ?es2.0 = "adopting_events @ [adopted_event]"])
       (use s adopting_reservations adopting_checked adopting_appends [of ?m] o f adopting_facts(1) in \<open>simp_all add: adopting_db_def\<close>)
  then obtain d' where run: "finalize_merged_publication_compensation adopting_sha (\<lambda>_. []) (\<lambda>_. None) (\<lambda>_. False) adopting_db
      adopting_manifest page_url ''x'' 1 0 = (d', ?m, Inr ())"
    by (auto simp: finalize_merged_publication_compensation_def merged_arguments_def t u adopting_db_def)
  have "get_run adopting_db ''r'' = Inr adopting_manifest"
    by (simp add: get_run_def adopting_db_def pub_find adopting_facts(2))
  from adoption_needs_merge_evidence [OF adopting_wf adopting_reservations this run] run show ?thesis
    by (auto simp: returns_def)
qed

end
