(* ===== verification/Lifecycle.thy ===== *)
theory Lifecycle
  imports Runs Safety Url "HOL-Library.AList"
begin

text \<open>
  \<open>lifecycle.py\<close> without its reads: the evidence a snapshot of a pull request holds (the data classes of
  \<open>github.py\<close>), its classification into signals, and the scoped stops and the attention a signal gives.
  GitHub's times are aware, so they are instants; \<open>sha256\<close> is the parameter \<open>H\<close>.  The typographic
  apostrophe, which \<open>_stop_kind\<close> replaces, is outside the model's characters.
\<close>

section \<open>What GitHub shows (github.py)\<close>

record pull_request_details =
  pd_repository :: string
  pd_number :: int
  pd_html_url :: string
  pd_state :: string
  pd_draft :: bool
  pd_merged :: bool
  pd_updated_at :: instant
  pd_merged_at :: "instant option"
  pd_closed_at :: "instant option"
  pd_merge_commit_sha :: "string option"
  pd_head_sha :: string
  pd_base_sha :: string
  pd_head_repository :: string
  pd_issue_comment_count :: int
  pd_review_comment_count :: int
  pd_title :: string
  pd_body :: string
  pd_base_ref :: string
  pd_head_ref :: string
  pd_head_label :: string
  pd_node_id :: string

record pull_request_review =
  review_identifier :: int
  review_author :: string
  review_author_association :: string
  review_state :: string
  review_body :: string
  review_html_url :: string
  review_submitted_at :: "instant option"

record github_comment =
  gc_identifier :: int
  gc_author :: string
  gc_author_association :: string
  gc_body :: string
  gc_html_url :: string
  gc_created_at :: instant
  gc_updated_at :: instant

record check_run_details =
  check_identifier :: int
  check_name :: string
  check_status :: string
  check_conclusion :: "string option"
  check_details_url :: string
  check_app_name :: string
  check_started_at :: "instant option"

record commit_status_details =
  cs_identifier :: int
  cs_context :: string
  cs_state :: string
  cs_target_url :: string
  cs_created_at :: instant
  cs_updated_at :: instant

record branch_push =
  push_ref :: string
  push_activity_type :: string
  push_before :: string
  push_after :: string
  push_actor_login :: "string option"

record pull_request_reference =
  pref_identifier :: int
  pref_source_url :: string
  pref_source_title :: string
  pref_source_body :: string
  pref_source_state :: string
  pref_source_merged_at :: "instant option"
  pref_created_at :: instant

record lifecycle_snapshot =
  ls_expected_head_sha :: string
  ls_pull_request :: pull_request_details
  ls_reviews :: "pull_request_review list"
  ls_issue_comments :: "github_comment list"
  ls_review_comments :: "github_comment list"
  ls_check_runs :: "check_run_details list"
  ls_commit_statuses :: "commit_status_details list"
  ls_references :: "pull_request_reference list"
  ls_publishing_login :: "string option"
  ls_head_pushes :: "branch_push list"

definition snapshot_state :: "lifecycle_snapshot \<Rightarrow> pull_request_state" where
  "snapshot_state s = (if pd_merged (ls_pull_request s) then Pull_merged
     else if pd_state (ls_pull_request s) = ''closed'' then Pull_closed else Pull_open)"

section \<open>Signals\<close>

datatype signal_kind = Head_drift | Maintainer_pushed | Changes_wanted | Maintainer_stop | Automation_stop | Ci_failing
  | Closed_unmerged | Reverted

fun kind_value :: "signal_kind \<Rightarrow> string" where
  "kind_value Head_drift = ''head_drift''"
| "kind_value Maintainer_pushed = ''maintainer_push''"
| "kind_value Changes_wanted = ''changes_requested''"
| "kind_value Maintainer_stop = ''maintainer_stop''"
| "kind_value Automation_stop = ''automation_stop''"
| "kind_value Ci_failing = ''ci_failed''"
| "kind_value Closed_unmerged = ''closed_unmerged''"
| "kind_value Reverted = ''reverted''"

record lifecycle_signal =
  sig_kind :: signal_kind
  sig_repository :: string
  sig_pull_request_number :: int
  sig_pull_request_url :: string
  sig_evidence_key :: string
  sig_reason :: string
  sig_source_url :: string

definition signal_source :: "lifecycle_signal \<Rightarrow> string" where
  "signal_source s = ''github_lifecycle:'' @ sig_repository s @ ''#'' @ int_text (sig_pull_request_number s) @ '':''
     @ kind_value (sig_kind s)"

definition signal_hash :: "digest \<Rightarrow> lifecycle_signal \<Rightarrow> string" where
  "signal_hash H s = H (dumps (JObj [(''evidence_key'', JStr (sig_evidence_key s)), (''kind'', JStr (kind_value (sig_kind s))),
     (''pull_request_number'', JInt (sig_pull_request_number s)), (''repository'', JStr (casefold (sig_repository s)))]))"

fun attention_kind_of :: "signal_kind \<Rightarrow> attention_kind option" where
  "attention_kind_of Changes_wanted = Some Changes_requested"
| "attention_kind_of Ci_failing = Some Ci_failed"
| "attention_kind_of Maintainer_pushed = Some Maintainer_push"
| "attention_kind_of _ = None"

definition signal_attention :: "digest \<Rightarrow> lifecycle_signal \<Rightarrow> instant \<Rightarrow> pull_request_attention option" where
  "signal_attention H s observed_at = map_option (\<lambda>k.
     \<lparr>att_kind = k, att_reason = sig_reason s, att_source_url = sig_source_url s, att_evidence_hash = signal_hash H s,
      att_observed_at = observed_at\<rparr>) (attention_kind_of (sig_kind s))"

definition repository_cooldown :: timedelta where
  "repository_cooldown = 30 * day"

definition revert_watch :: timedelta where
  "revert_watch = 30 * day"

definition signal_stop :: "digest \<Rightarrow> lifecycle_signal \<Rightarrow> stop_scope \<Rightarrow> string \<Rightarrow> instant option \<Rightarrow> bool \<Rightarrow> trigger" where
  "signal_stop H s scope key expires counts = \<lparr>trig_source = signal_source s,
     trig_reason = sig_reason s @ '': '' @ sig_source_url s,
     trig_hash = (if scope = Scope_global then signal_hash H s
       else H (dumps (text_object [(''scope'', scope_value scope), (''signal'', signal_hash H s)]))),
     trig_scope = scope, trig_scope_key = key, trig_expires_at = map_option Aware expires, trig_counts_toward_escalation = counts\<rparr>"

text \<open>\<open>LifecycleSignal.stops\<close>: the sum with the cooldown is computed for every kind.\<close>

definition signal_stops :: "digest \<Rightarrow> lifecycle_signal \<Rightarrow> string \<Rightarrow> instant \<Rightarrow> trigger list result" where
  "signal_stops H s api_origin observed_at =
     bind_r (shift observed_at repository_cooldown) (\<lambda>cooldown.
     Inr (case sig_kind s of
       Head_drift \<Rightarrow> [signal_stop H s Scope_global '''' None False]
     | Closed_unmerged \<Rightarrow> [signal_stop H s Scope_repository (sig_repository s) (Some cooldown) False]
     | Maintainer_stop \<Rightarrow> [signal_stop H s Scope_pull_request (sig_pull_request_url s) None False,
         signal_stop H s Scope_repository (sig_repository s) (Some cooldown) False]
     | Automation_stop \<Rightarrow> [signal_stop H s Scope_repository (sig_repository s) None True]
     | Reverted \<Rightarrow> [signal_stop H s Scope_repository (sig_repository s) None False,
         signal_stop H s Scope_publication api_origin None False]
     | _ \<Rightarrow> []))"

section \<open>What a text asks\<close>

definition not_accepting :: pat where
  "not_accepting = seqs [Boundary, Alt (lit ''not'') (phrase [''no'', ''longer'']), gap, lit ''accepting'', gap,
     opt (Seq (lit ''any'') gap), opt (alts [Seq (lit ''new'') gap, Seq (lit ''outside'') gap, Seq (lit ''external'') gap]),
     alts [phrase [''pull'', ''requests''], lit ''prs'', lit ''contributions'', lit ''submissions''], Boundary]"

definition pull_request_stop :: pat where
  "pull_request_stop = alts
     [seqs [Boundary, alts [lit ''close'', lit ''withdraw'', lit ''abandon''], gap,
        opt (Seq (alts [lit ''this'', lit ''your'', lit ''the'']) gap),
        alts [phrase [''pull'', ''request''], lit ''pr'', lit ''contribution'', lit ''patch''], Boundary],
      seqs [Boundary, lit ''stop'', gap, Alt (lit ''this'') (lit ''your''), gap,
        alts [phrase [''pull'', ''request''], lit ''pr'', lit ''contribution'', lit ''work''], Boundary],
      seqs [Boundary, lit ''no'', gap, alts [phrase [''pull'', ''request''], lit ''pr'', lit ''contribution''], gap,
        opt (Seq (lit ''is'') gap), lit ''needed'', Boundary]]"

definition negated_stop_directive :: pat where
  "negated_stop_directive = seqs [Boundary, alts [phrase [''do'', ''not''], lit (''don'' @ apostrophe @ ''t''), lit ''never''], gap,
     alts [lit ''stop'', lit ''cease'', lit ''pause'', phrase [''hold'', ''off''], lit ''close'', lit ''withdraw''], Boundary]"

definition stop_kind :: "string \<Rightarrow> signal_kind option" where
  "stop_kind s = (let masked = without_matches negated_stop_directive None s in
     if searches automation_stop masked \<or> searches not_accepting masked then Some Automation_stop
     else if searches pull_request_stop masked then Some Maintainer_stop
     else None)"

definition stop_words :: "signal_kind \<Rightarrow> string" where
  "stop_words k = (if k = Automation_stop then ''turns away automated or AI contributions'' else ''asks to close or stop this pull request'')"

definition upper :: "string \<Rightarrow> string" where
  "upper s = concat (map (\<lambda>c. let n = code c in
     if 97 \<le> n \<and> n \<le> 122 \<or> 224 \<le> n \<and> n \<le> 254 \<and> n \<noteq> 247 then [char_of (n - 32)] else if n = 223 then ''SS'' else [c]) s)"

definition is_maintainer :: "string \<Rightarrow> string \<Rightarrow> bool" where
  "is_maintainer author association \<longleftrightarrow> upper association \<in> {''OWNER'', ''MEMBER'', ''COLLABORATOR''}
     \<and> \<not> endswith (casefold author) ''[bot]''"

section \<open>The latest of each\<close>

text \<open>
  \<open>datetime.min\<close> stands for a time that is missing.  The dictionary keeps the newest item under each key,
  the first one where two are equally new; the items are returned in the order of the keys.
\<close>

definition or_min :: "instant option \<Rightarrow> instant" where
  "or_min t = (case t of None \<Rightarrow> 0 | Some x \<Rightarrow> x)"

definition latest_step :: "('a \<Rightarrow> string list) \<Rightarrow> ('a \<Rightarrow> 'a \<Rightarrow> bool) \<Rightarrow> 'a \<Rightarrow> (string list \<times> 'a) list \<Rightarrow> (string list \<times> 'a) list" where
  "latest_step key newer x kvs = (case map_of kvs (key x) of
     None \<Rightarrow> AList.update (key x) x kvs
   | Some y \<Rightarrow> if newer x y then AList.update (key x) x kvs else kvs)"

definition latest_by :: "('a \<Rightarrow> string list) \<Rightarrow> ('a \<Rightarrow> 'a \<Rightarrow> bool) \<Rightarrow> 'a list \<Rightarrow> 'a list" where
  "latest_by key newer xs = map snd (sort_key fst (fold (latest_step key newer) xs []))"

definition later :: "instant \<times> int \<Rightarrow> instant \<times> int \<Rightarrow> bool" where
  "later a b \<longleftrightarrow> fst b < fst a \<or> fst a = fst b \<and> snd b < snd a"

definition latest_check_runs :: "check_run_details list \<Rightarrow> check_run_details list" where
  "latest_check_runs = latest_by (\<lambda>c. [casefold (check_app_name c), casefold (check_name c)])
     (\<lambda>c b. later (or_min (check_started_at c), check_identifier c) (or_min (check_started_at b), check_identifier b))"

definition latest_effective_reviews :: "pull_request_review list \<Rightarrow> pull_request_review list" where
  "latest_effective_reviews rs = latest_by (\<lambda>r. [casefold (review_author r)])
     (\<lambda>r b. later (or_min (review_submitted_at r), review_identifier r) (or_min (review_submitted_at b), review_identifier b))
     (filter (\<lambda>r. review_state r \<in> {''APPROVED'', ''CHANGES_REQUESTED'', ''DISMISSED''}) rs)"

definition latest_commit_statuses :: "commit_status_details list \<Rightarrow> commit_status_details list" where
  "latest_commit_statuses = latest_by (\<lambda>c. [casefold (cs_context c)])
     (\<lambda>c b. cs_updated_at b < cs_updated_at c \<or> cs_updated_at c = cs_updated_at b
        \<and> later (cs_created_at c, cs_identifier c) (cs_created_at b, cs_identifier b))"

section \<open>Who pushed\<close>

text \<open>
  The loop of \<open>_pushed_by_others\<close> follows the newest push to each commit back from the head, at most as
  many steps as there are pushes.
\<close>

definition push_to :: "branch_push list \<Rightarrow> string \<Rightarrow> branch_push option" where
  "push_to ps sha = List.find (\<lambda>p. casefold (push_after p) = sha) ps"

definition by_another :: "string \<Rightarrow> branch_push \<Rightarrow> bool" where
  "by_another login p \<longleftrightarrow> push_activity_type p = ''push''
     \<and> (case push_actor_login p of None \<Rightarrow> False | Some a \<Rightarrow> casefold a \<noteq> casefold login)"

fun follow_pushes :: "branch_push list \<Rightarrow> string \<Rightarrow> string \<Rightarrow> nat \<Rightarrow> string \<Rightarrow> bool" where
  "follow_pushes ps login expected 0 current = (current = expected)"
| "follow_pushes ps login expected (Suc n) current =
     (if current = expected then True
      else case push_to ps current of
        None \<Rightarrow> False
      | Some p \<Rightarrow> by_another login p \<and> follow_pushes ps login expected n (casefold (push_before p)))"

definition pushed_by_others :: "lifecycle_snapshot \<Rightarrow> bool" where
  "pushed_by_others s = (case ls_publishing_login s of
     None \<Rightarrow> False
   | Some login \<Rightarrow> follow_pushes (ls_head_pushes s) login (casefold (ls_expected_head_sha s)) (length (ls_head_pushes s))
       (casefold (pd_head_sha (ls_pull_request s))))"

section \<open>Classification\<close>

text \<open>\<open>repr\<close> of a string.\<close>

definition repr_char :: "char \<Rightarrow> char \<Rightarrow> string" where
  "repr_char q c = (if c = q \<or> c = CHR 0x5C then [CHR 0x5C, c]
     else if c = newline then [CHR 0x5C, CHR ''n''] else if c = carriage_return then [CHR 0x5C, CHR ''r'']
     else if code c = 9 then [CHR 0x5C, CHR ''t'']
     else if \<not> is_printable c then [CHR 0x5C, CHR ''x'', hex_char (code c div 16), hex_char (code c mod 16)]
     else [c])"

definition repr_text :: "string \<Rightarrow> string" where
  "repr_text s = (let q = (if CHR 0x27 \<in> set s \<and> CHR 0x22 \<notin> set s then CHR 0x22 else CHR 0x27) in
     [q] @ concat (map (repr_char q) s) @ [q])"

definition json_instant :: "instant option \<Rightarrow> json" where
  "json_instant t = (case t of None \<Rightarrow> JNull | Some x \<Rightarrow> JStr (isoformat x))"

text \<open>\<open>_evidence_version\<close>: the hash of a tuple of texts and a time.\<close>

definition evidence_version :: "digest \<Rightarrow> string list \<Rightarrow> instant option \<Rightarrow> string" where
  "evidence_version H xs t = H (dumps (JList (map JStr xs @ [json_instant t])))"

definition make_signal :: "signal_kind \<Rightarrow> pull_request_details \<Rightarrow> string \<Rightarrow> string \<Rightarrow> string \<Rightarrow> lifecycle_signal" where
  "make_signal kind p key reason source_url = \<lparr>sig_kind = kind, sig_repository = pd_repository p,
     sig_pull_request_number = pd_number p, sig_pull_request_url = pd_html_url p, sig_evidence_key = key, sig_reason = reason,
     sig_source_url = source_url\<rparr>"

definition head_signals :: "lifecycle_snapshot \<Rightarrow> lifecycle_signal list" where
  "head_signals s = (let p = ls_pull_request s; sha = casefold (pd_head_sha p) in
     if sha = casefold (ls_expected_head_sha s) then []
     else if pushed_by_others s then
       [make_signal Maintainer_pushed p sha ''Someone with push access to the repository added commits to this PR'' (pd_html_url p)]
     else
       [make_signal Head_drift p sha (''Published pull-request head no longer matches the prepared commit, and '' @
          ''GitHub does not show that every push since then came from another account'') (pd_html_url p)])"

definition changes_signals :: "digest \<Rightarrow> lifecycle_snapshot \<Rightarrow> lifecycle_signal list" where
  "changes_signals H s = map (\<lambda>r. make_signal Changes_wanted (ls_pull_request s)
       (''review:'' @ int_text (review_identifier r) @ '':'' @ evidence_version H
          [review_author r, review_author_association r, review_state r, review_body r] (review_submitted_at r))
       ''A maintainer submitted a changes-requested review'' (review_html_url r))
     (filter (\<lambda>r. review_state r = ''CHANGES_REQUESTED'' \<and> is_maintainer (review_author r) (review_author_association r))
       (latest_effective_reviews (ls_reviews s)))"

definition review_stop :: "digest \<Rightarrow> pull_request_details \<Rightarrow> pull_request_review \<Rightarrow> lifecycle_signal list" where
  "review_stop H p r = (case stop_kind (review_body r) of
     None \<Rightarrow> []
   | Some k \<Rightarrow> if is_maintainer (review_author r) (review_author_association r) then
       [make_signal k p (''review-stop:'' @ int_text (review_identifier r) @ '':'' @ evidence_version H
            [review_author r, review_author_association r, review_body r] (review_submitted_at r))
          (''A maintainer review '' @ stop_words k) (review_html_url r)] else [])"

definition comment_stop :: "digest \<Rightarrow> pull_request_details \<Rightarrow> string \<Rightarrow> github_comment \<Rightarrow> lifecycle_signal list" where
  "comment_stop H p comment_kind c = (case stop_kind (gc_body c) of
     None \<Rightarrow> []
   | Some k \<Rightarrow> if is_maintainer (gc_author c) (gc_author_association c) then
       [make_signal k p (comment_kind @ '':'' @ int_text (gc_identifier c) @ '':'' @ evidence_version H
            [gc_author c, gc_author_association c, gc_body c] (Some (gc_updated_at c)))
          (''A maintainer comment '' @ stop_words k) (gc_html_url c)] else [])"

definition check_signals :: "lifecycle_snapshot \<Rightarrow> lifecycle_signal list" where
  "check_signals s = concat (map (\<lambda>c. case check_conclusion c of
       None \<Rightarrow> []
     | Some conclusion \<Rightarrow>
       if check_status c = ''completed'' \<and> conclusion \<in> {''failure'', ''startup_failure'', ''timed_out''} then
         [make_signal Ci_failing (ls_pull_request s) (''check-run:'' @ int_text (check_identifier c) @ '':'' @ conclusion)
           (''Latest CI check '' @ repr_text (check_name c) @ '' completed with '' @ conclusion)
           (if check_details_url c = [] then pd_html_url (ls_pull_request s) else check_details_url c)]
       else []) (latest_check_runs (ls_check_runs s)))"

definition status_signals :: "lifecycle_snapshot \<Rightarrow> lifecycle_signal list" where
  "status_signals s = map (\<lambda>c. make_signal Ci_failing (ls_pull_request s)
       (''commit-status:'' @ int_text (cs_identifier c) @ '':'' @ cs_state c)
       (''Latest commit status '' @ repr_text (cs_context c) @ '' is '' @ cs_state c)
       (if cs_target_url c = [] then pd_html_url (ls_pull_request s) else cs_target_url c))
     (filter (\<lambda>c. cs_state c \<in> {''error'', ''failure''}) (latest_commit_statuses (ls_commit_statuses s)))"

definition closed_signals :: "pull_request_details \<Rightarrow> lifecycle_signal list" where
  "closed_signals p = (if pd_state p = ''closed'' \<and> \<not> pd_merged p then
       [make_signal Closed_unmerged p (''closed:'' @ (case pd_closed_at p of None \<Rightarrow> ''unknown'' | Some t \<Rightarrow> isoformat t))
          ''Pull request was closed without being merged'' (pd_html_url p)] else [])"

definition is_explicit_revert :: "pull_request_reference \<Rightarrow> pull_request_details \<Rightarrow> bool" where
  "is_explicit_revert r p = (let s = pref_source_title r @ [newline] @ pref_source_body r; n = int_text (pd_number p) in
     searches (seqs [Boundary, lit ''revert'', opt (lit ''s''), gap,
       alts [lit (pd_repository p @ ''#'' @ n), lit (pd_html_url p), seqs [lit (''#'' @ n), Not_ahead (Ch is_digit)]]]) s
     \<or> (case pd_merge_commit_sha p of
          None \<Rightarrow> False
        | Some sha \<Rightarrow> sha \<noteq> [] \<and> searches (seqs [Boundary, lit ''this'', gap, lit ''reverts'', gap, lit ''commit'', gap, lit sha, Boundary]) s))"

definition revert_signals :: "digest \<Rightarrow> pull_request_details \<Rightarrow> pull_request_reference list \<Rightarrow> lifecycle_signal list" where
  "revert_signals H p refs = concat (map (\<lambda>r. case (pd_merged_at p, pref_source_merged_at r) of
       (Some merged, Some later_merge) \<Rightarrow>
         if pd_merged p \<and> pref_source_state r = ''closed'' \<and> merged < later_merge \<and> is_explicit_revert r p then
           [make_signal Reverted p (''revert-reference:'' @ int_text (pref_identifier r) @ '':'' @ evidence_version H
                [pref_source_title r, pref_source_body r] (Some later_merge))
              ''A merged pull request explicitly reverts this contribution'' (pref_source_url r)]
         else []
     | _ \<Rightarrow> []) refs)"

text \<open>\<open>_ordered\<close>: by kind, evidence and source, whatever the order of the API.\<close>

definition ordered :: "lifecycle_signal list \<Rightarrow> lifecycle_signal list" where
  "ordered = sort_key (\<lambda>s. [kind_value (sig_kind s), sig_evidence_key s, sig_source_url s])"

definition classify_lifecycle :: "digest \<Rightarrow> lifecycle_snapshot \<Rightarrow> lifecycle_signal list" where
  "classify_lifecycle H s = (let p = ls_pull_request s in ordered (
     head_signals s @ changes_signals H s @ concat (map (review_stop H p) (ls_reviews s))
     @ concat (map (comment_stop H p ''issue-comment'') (ls_issue_comments s))
     @ concat (map (comment_stop H p ''review-comment'') (ls_review_comments s))
     @ check_signals s @ status_signals s @ closed_signals p @ revert_signals H p (ls_references s)))"

section \<open>Every push is another's\<close>

text \<open>A chain of pushes, newest first, from one commit back to another.\<close>

fun push_chain :: "string \<Rightarrow> branch_push list \<Rightarrow> string \<Rightarrow> bool" where
  "push_chain current [] expected \<longleftrightarrow> current = expected"
| "push_chain current (p # ps) expected \<longleftrightarrow> casefold (push_after p) = current \<and> push_chain (casefold (push_before p)) ps expected"

lemma push_to_Some: "push_to ps sha = Some p \<Longrightarrow> p \<in> set ps \<and> casefold (push_after p) = sha"
  by (auto simp: push_to_def dest: find_SomeD)

lemma follow_pushes_chain:
  "follow_pushes ps login expected n current \<Longrightarrow>
     \<exists>qs. set qs \<subseteq> set ps \<and> push_chain current qs expected \<and> list_all (by_another login) qs"
proof (induction n arbitrary: current)
  case 0
  then show ?case by (intro exI [of _ "[]"]) simp
next
  case (Suc n)
  show ?case
  proof (cases "current = expected")
    case True
    then show ?thesis by (intro exI [of _ "[]"]) simp
  next
    case False
    with Suc.prems obtain p where p: "push_to ps current = Some p" "by_another login p"
      "follow_pushes ps login expected n (casefold (push_before p))"
      by (auto split: option.splits)
    with Suc.IH obtain qs where "set qs \<subseteq> set ps" "push_chain (casefold (push_before p)) qs expected" "list_all (by_another login) qs"
      by blast
    with p push_to_Some [OF p(1)] show ?thesis by (intro exI [of _ "p # qs"]) simp
  qed
qed

text \<open>
  C33. A moved head is classified as a push by a maintainer only if the publishing account is
  known and recorded pushes lead from the head back to the prepared commit, every one of them a
  plain push by a named account other than the publishing one.
\<close>

theorem maintainer_pushes_are_others:
  assumes "x \<in> set (classify_lifecycle H s)" and "sig_kind x = Maintainer_pushed"
  shows "\<exists>login qs. ls_publishing_login s = Some login \<and> qs \<noteq> [] \<and> set qs \<subseteq> set (ls_head_pushes s)
    \<and> push_chain (casefold (pd_head_sha (ls_pull_request s))) qs (casefold (ls_expected_head_sha s))
    \<and> (\<forall>p\<in>set qs. push_activity_type p = ''push''
        \<and> (\<exists>a. push_actor_login p = Some a \<and> casefold a \<noteq> casefold login))"
proof -
  have k: "stop_kind t = Some k \<Longrightarrow> k \<noteq> Maintainer_pushed" for t k
    by (auto simp: stop_kind_def Let_def split: if_splits)
  have "x \<in> set (head_signals s)"
    using assms k
    by (auto simp: classify_lifecycle_def ordered_def Let_def changes_signals_def review_stop_def comment_stop_def check_signals_def
        status_signals_def closed_signals_def revert_signals_def make_signal_def split: option.splits if_splits)
  then have d: "casefold (pd_head_sha (ls_pull_request s)) \<noteq> casefold (ls_expected_head_sha s)" and p: "pushed_by_others s"
    using assms(2) by (auto simp: head_signals_def make_signal_def Let_def split: if_splits)
  from p obtain login where l: "ls_publishing_login s = Some login"
    and f: "follow_pushes (ls_head_pushes s) login (casefold (ls_expected_head_sha s)) (length (ls_head_pushes s))
       (casefold (pd_head_sha (ls_pull_request s)))"
    by (auto simp: pushed_by_others_def split: option.splits)
  from follow_pushes_chain [OF f] obtain qs where q: "set qs \<subseteq> set (ls_head_pushes s)"
    "push_chain (casefold (pd_head_sha (ls_pull_request s))) qs (casefold (ls_expected_head_sha s))" "list_all (by_another login) qs"
    by blast
  from d q(2) have "qs \<noteq> []" by auto
  have "\<forall>p\<in>set qs. push_activity_type p = ''push'' \<and> (\<exists>a. push_actor_login p = Some a \<and> casefold a \<noteq> casefold login)"
    using q(3) by (auto simp: list_all_iff by_another_def split: option.splits)
  with l q(1,2) \<open>qs \<noteq> []\<close> show ?thesis by blast
qed

text \<open>A branch that a maintainer pushed to.\<close>

definition moved_page :: pull_request_details where
  "moved_page = \<lparr>pd_repository = ''o/n'', pd_number = 7, pd_html_url = ''u'', pd_state = ''open'', pd_draft = False,
     pd_merged = False, pd_updated_at = 0, pd_merged_at = None, pd_closed_at = None, pd_merge_commit_sha = None,
     pd_head_sha = replicate 40 (CHR ''d''), pd_base_sha = [], pd_head_repository = ''l/n'', pd_issue_comment_count = 0,
     pd_review_comment_count = 0, pd_title = [], pd_body = [], pd_base_ref = ''m'', pd_head_ref = ''b'', pd_head_label = ''l:b'',
     pd_node_id = ''p''\<rparr>"

definition pushed_snapshot :: lifecycle_snapshot where
  "pushed_snapshot = \<lparr>ls_expected_head_sha = replicate 40 (CHR ''c''), ls_pull_request = moved_page, ls_reviews = [],
     ls_issue_comments = [], ls_review_comments = [], ls_check_runs = [], ls_commit_statuses = [], ls_references = [],
     ls_publishing_login = Some ''l'',
     ls_head_pushes = [\<lparr>push_ref = ''b'', push_activity_type = ''push'', push_before = replicate 40 (CHR ''c''),
       push_after = replicate 40 (CHR ''d''), push_actor_login = Some ''maintainer''\<rparr>]\<rparr>"

lemma maintainer_pushes_are_others_witness:
  "\<exists>x. x \<in> set (classify_lifecycle (\<lambda>_. []) pushed_snapshot) \<and> sig_kind x = Maintainer_pushed
    \<and> (\<exists>p\<in>set (ls_head_pushes pushed_snapshot). push_actor_login p = Some ''maintainer'')"
proof -
  have p: "pushed_by_others pushed_snapshot" by code_simp
  have d: "casefold (pd_head_sha (ls_pull_request pushed_snapshot)) \<noteq> casefold (ls_expected_head_sha pushed_snapshot)" by code_simp
  obtain x where x: "x \<in> set (head_signals pushed_snapshot)" "sig_kind x = Maintainer_pushed"
    using p d by (simp add: head_signals_def Let_def make_signal_def)
  then have c: "x \<in> set (classify_lifecycle (\<lambda>_. []) pushed_snapshot)"
    by (simp add: classify_lifecycle_def ordered_def Let_def)
  from maintainer_pushes_are_others [OF c x(2)] c x(2) show ?thesis by (fastforce simp: pushed_snapshot_def)
qed

end
