(* ===== verification/Observation.thy ===== *)
theory Observation
  imports Lifecycle
begin

text \<open>
  \<open>LifecycleObserver\<close> and \<open>sync_open_pull_requests\<close> of \<open>lifecycle.py\<close>.  GitHub, the lease guard and the
  clock are an automaton with a state of their own, the record \<open>github\<close>; the store is the database of the
  model.  An action works on both, and an exception leaves what was done before it.
\<close>

section \<open>Actions\<close>

text \<open>The exceptions of the GitHub client, beside those of the store and of bad values.\<close>

datatype failure = Failed error | Github_error string | Github_safety string | Github_rate_limit string

type_synonym 'a answer = "failure + 'a"
type_synonym ('g, 'a) action = "'g \<times> db \<Rightarrow> ('g \<times> db) \<times> 'a answer"

definition give :: "'a \<Rightarrow> ('g, 'a) action" where
  "give x w = (w, Inr x)"

definition raise :: "failure \<Rightarrow> ('g, 'a) action" where
  "raise e w = (w, Inl e)"

definition andthen :: "('g, 'a) action \<Rightarrow> ('a \<Rightarrow> ('g, 'b) action) \<Rightarrow> ('g, 'b) action" where
  "andthen f k w = (case f w of (w', Inl e) \<Rightarrow> (w', Inl e) | (w', Inr x) \<Rightarrow> k x w')"

definition lift :: "'a result \<Rightarrow> ('g, 'a) action" where
  "lift r w = (w, case r of Inl e \<Rightarrow> Inl (Failed e) | Inr x \<Rightarrow> Inr x)"

definition outside :: "('g \<Rightarrow> 'g \<times> 'a answer) \<Rightarrow> ('g, 'a) action" where
  "outside f w = (let (g, r) = f (fst w) in ((g, snd w), r))"

record 'g github =
  gh_api_origin :: string
  gh_pull_request :: "string \<Rightarrow> int \<Rightarrow> 'g \<Rightarrow> 'g \<times> pull_request_details answer"
  gh_reviews :: "string \<Rightarrow> int \<Rightarrow> 'g \<Rightarrow> 'g \<times> pull_request_review list answer"
  gh_issue_comments :: "string \<Rightarrow> int \<Rightarrow> int \<Rightarrow> 'g \<Rightarrow> 'g \<times> github_comment list answer"
  gh_review_comments :: "string \<Rightarrow> int \<Rightarrow> int \<Rightarrow> 'g \<Rightarrow> 'g \<times> github_comment list answer"
  gh_check_runs :: "string \<Rightarrow> string \<Rightarrow> 'g \<Rightarrow> 'g \<times> check_run_details list answer"
  gh_commit_statuses :: "string \<Rightarrow> string \<Rightarrow> 'g \<Rightarrow> 'g \<times> commit_status_details list answer"
  gh_references :: "string \<Rightarrow> int \<Rightarrow> 'g \<Rightarrow> 'g \<times> pull_request_reference list answer"
  gh_branch_pushes :: "string \<Rightarrow> string \<Rightarrow> 'g \<Rightarrow> 'g \<times> branch_push list answer"
  gh_owned :: "'g \<Rightarrow> 'g \<times> unit answer"
  gh_now :: "'g \<Rightarrow> 'g \<times> instant"
  gh_hold_id :: "'g \<Rightarrow> 'g \<times> int"

definition clock_of :: "'g github \<Rightarrow> ('g, instant) action" where
  "clock_of gh = outside (\<lambda>g. let (g', t) = gh_now gh g in (g', Inr t))"

definition hold_id_of :: "'g github \<Rightarrow> ('g, int) action" where
  "hold_id_of gh = outside (\<lambda>g. let (g', i) = gh_hold_id gh g in (g', Inr i))"

section \<open>Recording the stops\<close>

definition record_trigger :: "digest \<Rightarrow> 'g github \<Rightarrow> trigger \<Rightarrow> ('g, bool) action" where
  "record_trigger H gh t =
     andthen (outside (gh_owned gh)) (\<lambda>_. andthen (hold_id_of gh) (\<lambda>i. andthen (clock_of gh) (\<lambda>c. andthen (clock_of gh) (\<lambda>c' w.
       case record_stop H (snd w) t i c c' of
         Inl e \<Rightarrow> (w, Inl (Failed e))
       | Inr (d, b) \<Rightarrow> ((fst w, d), Inr b)))))"

fun record_triggers :: "digest \<Rightarrow> 'g github \<Rightarrow> trigger list \<Rightarrow> string list \<Rightarrow> ('g, string list) action" where
  "record_triggers H gh [] newly = give newly"
| "record_triggers H gh (t # ts) newly =
     andthen (record_trigger H gh t) (\<lambda>b. record_triggers H gh ts (if b then newly @ [trig_hash t] else newly))"

fun record_stops :: "digest \<Rightarrow> 'g github \<Rightarrow> instant \<Rightarrow> lifecycle_signal list \<Rightarrow> string list \<Rightarrow> ('g, string list) action" where
  "record_stops H gh observed_at [] newly = give newly"
| "record_stops H gh observed_at (s # ss) newly =
     andthen (lift (signal_stops H s (gh_api_origin gh) observed_at)) (\<lambda>ts.
     andthen (record_triggers H gh ts newly) (record_stops H gh observed_at ss))"

section \<open>Observing one pull request\<close>

definition identity_text :: "string \<Rightarrow> string \<Rightarrow> string result" where
  "identity_text v field = (let normalized = strip v in
     if normalized = [] \<or> nul \<in> set normalized \<or> 255 < length normalized then
       Inl (ValueError (field @ '' must be 1-255 non-NUL characters''))
     else Inr normalized)"

definition require_identity :: "pull_request_details \<Rightarrow> string \<Rightarrow> int \<Rightarrow> ('g, unit) action" where
  "require_identity p repo n =
     (if casefold (pd_repository p) \<noteq> casefold repo \<or> pd_number p \<noteq> n then
        raise (Github_error ''GitHub returned a different pull request than requested'')
      else give ())"

definition confirm_unchanged :: "'g github \<Rightarrow> string \<Rightarrow> int \<Rightarrow> pull_request_details \<Rightarrow> ('g, unit) action" where
  "confirm_unchanged gh repo n p =
     andthen (outside (gh_pull_request gh repo n)) (\<lambda>confirmed.
     if confirmed \<noteq> p then
       raise (Github_error ''Pull request changed while lifecycle evidence was fetched; retry observation'')
     else outside (gh_owned gh))"

text \<open>Who pushed stays unknown when GitHub cannot show the branch's updates.\<close>

definition head_pushes :: "'g github \<Rightarrow> pull_request_details \<Rightarrow> string \<Rightarrow> ('g, branch_push list) action" where
  "head_pushes gh p expected =
     (if casefold (pd_head_sha p) = casefold expected then give []
      else (\<lambda>w. case outside (gh_branch_pushes gh (pd_head_repository p) (pd_head_ref p)) w of
          (w', Inl (Github_error _)) \<Rightarrow> (w', Inr [])
        | r \<Rightarrow> r))"

definition sorted_checks :: "check_run_details list \<Rightarrow> check_run_details list" where
  "sorted_checks cs = sort_key (\<lambda>c. casefold (check_app_name c)) (sort_key check_name (sort_key check_identifier cs))"

definition sorted_statuses :: "commit_status_details list \<Rightarrow> commit_status_details list" where
  "sorted_statuses cs = sort_key (\<lambda>c. casefold (cs_context c)) (sort_key cs_created_at (sort_key cs_identifier cs))"

definition sorted_references :: "pull_request_reference list \<Rightarrow> pull_request_reference list" where
  "sorted_references rs = sort_key pref_created_at (sort_key pref_identifier rs)"

definition take_snapshot :: "string \<Rightarrow> pull_request_details \<Rightarrow> pull_request_review list \<Rightarrow> github_comment list \<Rightarrow> github_comment list
    \<Rightarrow> check_run_details list \<Rightarrow> commit_status_details list \<Rightarrow> pull_request_reference list \<Rightarrow> string option \<Rightarrow> branch_push list
    \<Rightarrow> lifecycle_snapshot" where
  "take_snapshot expected p reviews on_issue on_review checks statuses refs login pushes =
     \<lparr>ls_expected_head_sha = expected, ls_pull_request = p, ls_reviews = sort_key review_identifier reviews,
      ls_issue_comments = sort_key gc_identifier on_issue, ls_review_comments = sort_key gc_identifier on_review,
      ls_check_runs = sorted_checks checks, ls_commit_statuses = sorted_statuses statuses,
      ls_references = sorted_references refs, ls_publishing_login = login, ls_head_pushes = pushes\<rparr>"

record lifecycle_observation =
  ob_snapshot :: lifecycle_snapshot
  ob_signals :: "lifecycle_signal list"
  ob_attention :: "pull_request_attention list"
  ob_newly_recorded :: "string list"

definition read_snapshot :: "'g github \<Rightarrow> string \<Rightarrow> int \<Rightarrow> string \<Rightarrow> string option \<Rightarrow> ('g, lifecycle_snapshot) action" where
  "read_snapshot gh repo n expected login =
     andthen (outside (gh_pull_request gh repo n)) (\<lambda>p.
     andthen (require_identity p repo n) (\<lambda>_.
     andthen (outside (gh_reviews gh repo n)) (\<lambda>reviews.
     andthen (outside (gh_issue_comments gh repo n (pd_issue_comment_count p))) (\<lambda>on_issue.
     andthen (outside (gh_review_comments gh repo n (pd_review_comment_count p))) (\<lambda>on_review.
     andthen (outside (gh_check_runs gh repo (pd_head_sha p))) (\<lambda>checks.
     andthen (outside (gh_commit_statuses gh repo (pd_head_sha p))) (\<lambda>statuses.
     andthen (if pd_merged p then outside (gh_references gh repo n) else give []) (\<lambda>refs.
     andthen (head_pushes gh p expected) (\<lambda>pushes.
     andthen (confirm_unchanged gh repo n p) (\<lambda>_.
     give (take_snapshot expected p reviews on_issue on_review checks statuses refs login pushes)))))))))))"

definition observe :: "digest \<Rightarrow> 'g github \<Rightarrow> string \<Rightarrow> int \<Rightarrow> string \<Rightarrow> string option \<Rightarrow> ('g, lifecycle_observation) action" where
  "observe H gh repo n expected login =
     andthen (lift (identity_text repo ''repository'')) (\<lambda>repository.
     andthen (lift (identity_text expected ''expected head SHA'')) (\<lambda>sha.
     if n < 1 then raise (Failed (ValueError ''pull request number must be a positive integer''))
     else
       andthen (read_snapshot gh repository n sha login) (\<lambda>s.
       andthen (clock_of gh) (\<lambda>observed_at.
       let signals = classify_lifecycle H s in
       andthen (record_stops H gh observed_at signals []) (\<lambda>newly.
       give \<lparr>ob_snapshot = s, ob_signals = signals, ob_attention = List.map_filter (\<lambda>x. signal_attention H x observed_at) signals,
         ob_newly_recorded = newly\<rparr>)))))"

record revert_watch_result =
  rw_pull_request :: pull_request_details
  rw_signals :: "lifecycle_signal list"
  rw_newly_recorded :: "string list"

definition watch_for_revert :: "digest \<Rightarrow> 'g github \<Rightarrow> string \<Rightarrow> int \<Rightarrow> ('g, revert_watch_result) action" where
  "watch_for_revert H gh repo n =
     andthen (lift (identity_text repo ''repository'')) (\<lambda>repository.
     if n < 1 then raise (Failed (ValueError ''pull request number must be a positive integer''))
     else
       andthen (outside (gh_pull_request gh repository n)) (\<lambda>p.
       andthen (require_identity p repository n) (\<lambda>_.
       andthen (outside (gh_references gh repository n)) (\<lambda>refs.
       andthen (confirm_unchanged gh repository n p) (\<lambda>_.
       let signals = ordered (revert_signals H p refs) in
       andthen (clock_of gh) (\<lambda>observed_at.
       andthen (record_stops H gh observed_at signals []) (\<lambda>newly.
       give \<lparr>rw_pull_request = p, rw_signals = signals, rw_newly_recorded = newly\<rparr>)))))))"

section \<open>The runs to observe\<close>

definition is_commit_sha :: "string \<Rightarrow> bool" where
  "is_commit_sha s \<longleftrightarrow> (length s = 40 \<or> length s = 64) \<and> list_all is_hex s"

definition observed_origin :: "string \<Rightarrow> string result" where
  "observed_origin reported = (case canonical_api_origin reported of
     Inl _ \<Rightarrow> Inl (StateError ''Lifecycle GitHub client has an invalid API origin'')
   | Inr origin \<Rightarrow>
     if reported \<noteq> origin then Inl (StateError ''Lifecycle GitHub client returned a non-canonical API origin'')
     else Inr origin)"

record sync_target =
  st_manifest :: run_manifest
  st_url :: string
  st_repository :: string
  st_number :: int
  st_commit :: string

definition target_origin :: "run_manifest \<Rightarrow> string \<Rightarrow> string \<Rightarrow> unit result" where
  "target_origin m durable origin = (case canonical_api_origin durable of
     Inl _ \<Rightarrow> Inl (StateError (''Published run '' @ run_id m @ '' has an invalid publishing API origin''))
   | Inr canonical \<Rightarrow>
     if durable \<noteq> canonical then
       Inl (StateError (''Published run '' @ run_id m @ '' has a non-canonical publishing API origin''))
     else if canonical \<noteq> origin then
       Inl (StateError (''Published run '' @ run_id m @ '' belongs to a different GitHub API origin''))
     else Inr ())"

definition sync_target :: "string \<Rightarrow> run_manifest \<Rightarrow> sync_target result" where
  "sync_target origin m =
     (if status m \<noteq> PR_OPEN then Inl (StateError ''Lifecycle enumeration returned a run that is not PR-open'')
      else case (candidate m, repository m) of
        (Some c, Some info) \<Rightarrow>
          (case pull_request_url m of
             None \<Rightarrow> Inl (StateError (''Published run '' @ run_id m @ '' is missing its pull-request URL''))
           | Some url \<Rightarrow>
             if url = [] then Inl (StateError (''Published run '' @ run_id m @ '' is missing its pull-request URL''))
             else (case publishing_api_origin m of
                 None \<Rightarrow> Inl (StateError (''Published run '' @ run_id m @ '' is missing its publishing API origin''))
               | Some durable \<Rightarrow>
                 if durable = [] then Inl (StateError (''Published run '' @ run_id m @ '' is missing its publishing API origin''))
                 else
                   bind_r (target_origin m durable origin) (\<lambda>_.
                   bind_r (parse_pull_request_url url durable) (\<lambda>(repo, n).
                   let commit = (case commit_sha m of None \<Rightarrow> [] | Some s \<Rightarrow> s) in
                   if casefold repo \<noteq> casefold (issue_repository c) then
                     Inl (StateError (''Published run '' @ run_id m @ '' pull-request URL does not match its candidate''))
                   else if casefold (repo_full_name info) \<noteq> casefold (issue_repository c) then
                     Inl (StateError (''Published run '' @ run_id m @ '' repository evidence is internally inconsistent''))
                   else if \<not> is_commit_sha commit then
                     Inl (StateError (''Published run '' @ run_id m @ '' is missing a canonical contribution commit SHA''))
                   else Inr \<lparr>st_manifest = m, st_url = url, st_repository = repo, st_number = n, st_commit = commit\<rparr>))))
      | _ \<Rightarrow> Inl (StateError (''Published run '' @ run_id m @ '' is missing repository evidence'')))"

definition target_key :: "sync_target \<Rightarrow> string \<times> int" where
  "target_key t = (casefold (st_repository t), st_number t)"

fun sync_targets_from :: "string \<Rightarrow> run_manifest list \<Rightarrow> sync_target list \<Rightarrow> sync_target list result" where
  "sync_targets_from origin [] targets = Inr targets"
| "sync_targets_from origin (m # ms) targets =
     bind_r (sync_target origin m) (\<lambda>t.
     if target_key t \<in> target_key ` set targets then Inl (StateError ''Multiple durable runs refer to the same pull request'')
     else sync_targets_from origin ms (targets @ [t]))"

definition sync_targets :: "string \<Rightarrow> run_manifest list \<Rightarrow> sync_target list result" where
  "sync_targets origin ms = sync_targets_from origin ms []"

section \<open>Recording on the run\<close>

text \<open>\<open>_REQUEST_ID.sub('', message)\<close>; this pattern does not ignore case.\<close>

definition exactly :: "string \<Rightarrow> pat" where
  "exactly s = seqs (map (\<lambda>c. Ch (\<lambda>x. x = c)) s)"

definition request_id :: pat where
  "request_id = seqs [Star (Ch is_space), exactly ''(request '', Star (Ch (\<lambda>c. c \<noteq> CHR '')'')), exactly '')'']"

definition observation_failure :: "digest \<Rightarrow> string \<Rightarrow> string \<Rightarrow> instant \<Rightarrow> pull_request_attention" where
  "observation_failure H url err observed_at = (let message = without_matches request_id None err in
     \<lparr>att_kind = Observation_failed, att_reason = ''Lifecycle sync could not read this pull request: '' @ message,
      att_source_url = url,
      att_evidence_hash = H (dumps (text_object [(''error'', message), (''kind'', ''observation_failed''), (''pull_request'', url)])),
      att_observed_at = observed_at\<rparr>)"

fun state_value :: "pull_request_state \<Rightarrow> string" where
  "state_value Pull_open = ''open''"
| "state_value Pull_merged = ''merged''"
| "state_value Pull_closed = ''closed''"

fun attention_value :: "attention_kind \<Rightarrow> string" where
  "attention_value Changes_requested = ''changes_requested''"
| "attention_value Ci_failed = ''ci_failed''"
| "attention_value Maintainer_push = ''maintainer_push''"
| "attention_value Observation_failed = ''observation_failed''"

definition new_attention :: "run_manifest \<Rightarrow> pull_request_attention list \<Rightarrow> pull_request_attention list" where
  "new_attention m attention =
     filter (\<lambda>a. att_evidence_hash a \<notin> att_evidence_hash ` set (pull_request_attention m)) attention"

definition observed_manifest :: "run_manifest \<Rightarrow> pull_request_state option \<Rightarrow> instant option \<Rightarrow> pull_request_attention list \<Rightarrow> run_manifest" where
  "observed_manifest m state merged_at new = m\<lparr>pull_request_state := state, pull_request_merged_at := merged_at,
     pull_request_attention := pull_request_attention m @ new\<rparr>"

definition observed_details :: "pull_request_state option \<Rightarrow> pull_request_attention list \<Rightarrow> (string \<times> string) list" where
  "observed_details state new =
     [(''pull_request_state'', case state of None \<Rightarrow> ''unknown'' | Some s \<Rightarrow> state_value s),
      (''attention'', if new = [] then ''none'' else join '','' (map (\<lambda>a. attention_value (att_kind a)) new))]"

definition record_on_run :: "digest \<Rightarrow> dump \<Rightarrow> writer \<Rightarrow> (string \<Rightarrow> bool) \<Rightarrow> db \<Rightarrow> run_manifest \<Rightarrow> pull_request_state option
    \<Rightarrow> instant option \<Rightarrow> pull_request_attention list \<Rightarrow> instant \<Rightarrow> instant \<Rightarrow> db \<times> run_manifest \<times> unit result" where
  "record_on_run H J wr rm d m state merged_at attention clock clock' =
     (let new = new_attention m attention in
      if state = pull_request_state m \<and> merged_at = pull_request_merged_at m \<and> new = [] then (d, m, Inr ())
      else save_run H J wr rm d (observed_manifest m state merged_at new) ''lifecycle.observed'' (observed_details state new) []
        clock clock')"

section \<open>The synchronization\<close>

record lifecycle_failure =
  lf_run_id :: string
  lf_url :: string
  lf_error :: string

record sync_result =
  sy_observations :: "lifecycle_observation list"
  sy_failures :: "lifecycle_failure list"
  sy_revert_watches :: "revert_watch_result list"

record files =
  fs_dump :: dump
  fs_writer :: writer
  fs_remove :: "string \<Rightarrow> bool"

definition runs_checked :: "sync_result \<Rightarrow> nat" where
  "runs_checked r = length (sy_observations r) + length (sy_revert_watches r) + length (sy_failures r)"

definition record_action :: "digest \<Rightarrow> files \<Rightarrow> 'g github \<Rightarrow> run_manifest \<Rightarrow> pull_request_state option \<Rightarrow> instant option
    \<Rightarrow> pull_request_attention list \<Rightarrow> ('g, unit) action" where
  "record_action H fs gh m state merged_at attention =
     andthen (clock_of gh) (\<lambda>c. andthen (clock_of gh) (\<lambda>c' w.
       case record_on_run H (fs_dump fs) (fs_writer fs) (fs_remove fs) (snd w) m state merged_at attention c c' of
         (d, _, Inl e) \<Rightarrow> ((fst w, d), Inl (Failed e))
       | (d, _, Inr _) \<Rightarrow> ((fst w, d), Inr ())))"

text \<open>A pull request that cannot be read must not hide the others.\<close>

definition attempt :: "('g, 'a) action \<Rightarrow> ('g, string + 'a) action" where
  "attempt f w = (case f w of
     (w', Inr x) \<Rightarrow> (w', Inr (Inr x)) | (w', Inl (Github_error e)) \<Rightarrow> (w', Inr (Inl e)) | (w', Inl e) \<Rightarrow> (w', Inl e))"

definition note_failure :: "sync_target \<Rightarrow> string \<Rightarrow> sync_result \<Rightarrow> sync_result" where
  "note_failure t e r = r\<lparr>sy_failures := sy_failures r
     @ [\<lparr>lf_run_id = run_id (st_manifest t), lf_url = st_url t, lf_error = e\<rparr>]\<rparr>"

definition sync_open :: "digest \<Rightarrow> files \<Rightarrow> 'g github \<Rightarrow> sync_target \<Rightarrow> sync_result \<Rightarrow> ('g, sync_result) action" where
  "sync_open H fs gh t r = (let m = st_manifest t in
     andthen (outside (gh_owned gh)) (\<lambda>_.
     andthen (attempt (observe H gh (st_repository t) (st_number t) (st_commit t) (publishing_login m))) (\<lambda>outcome.
     case outcome of
       Inl e \<Rightarrow>
         andthen (clock_of gh) (\<lambda>now. andthen (outside (gh_owned gh)) (\<lambda>_.
         andthen (record_action H fs gh m (pull_request_state m) (pull_request_merged_at m) [observation_failure H (st_url t) e now]) (\<lambda>_.
         give (note_failure t e r))))
     | Inr ob \<Rightarrow>
         let state = snapshot_state (ob_snapshot ob) in
         andthen (outside (gh_owned gh)) (\<lambda>_.
         andthen (record_action H fs gh m (Some state)
           (if state = Pull_merged then pd_merged_at (ls_pull_request (ob_snapshot ob)) else None) (ob_attention ob)) (\<lambda>_.
         give (r\<lparr>sy_observations := sy_observations r @ [ob]\<rparr>))))))"

definition sync_merged :: "digest \<Rightarrow> files \<Rightarrow> 'g github \<Rightarrow> sync_target \<Rightarrow> sync_result \<Rightarrow> ('g, sync_result) action" where
  "sync_merged H fs gh t r = (let m = st_manifest t in
     andthen (outside (gh_owned gh)) (\<lambda>_.
     andthen (attempt (watch_for_revert H gh (st_repository t) (st_number t))) (\<lambda>outcome.
     case outcome of
       Inl e \<Rightarrow>
         andthen (outside (gh_owned gh)) (\<lambda>_. andthen (clock_of gh) (\<lambda>now.
         andthen (record_action H fs gh m (pull_request_state m) (pull_request_merged_at m) [observation_failure H (st_url t) e now]) (\<lambda>_.
         give (note_failure t e r))))
     | Inr watched \<Rightarrow> give (r\<lparr>sy_revert_watches := sy_revert_watches r @ [watched]\<rparr>))))"

fun sync_each :: "(sync_target \<Rightarrow> sync_result \<Rightarrow> ('g, sync_result) action) \<Rightarrow> sync_target list \<Rightarrow> sync_result \<Rightarrow> ('g, sync_result) action" where
  "sync_each f [] r = give r"
| "sync_each f (t # ts) r = andthen (f t r) (sync_each f ts)"

definition reading :: "(db \<Rightarrow> 'a result) \<Rightarrow> ('g, 'a) action" where
  "reading f w = lift (f (snd w)) w"

definition sync_open_pull_requests :: "digest \<Rightarrow> files \<Rightarrow> (instant \<Rightarrow> rat) \<Rightarrow> 'g github \<Rightarrow> int \<Rightarrow> ('g, sync_result) action" where
  "sync_open_pull_requests H fs JD gh max_runs =
     andthen (lift (observed_origin (gh_api_origin gh))) (\<lambda>origin.
     andthen (reading (\<lambda>d. bind_r (list_open_pull_request_runs JD d max_runs) (sync_targets origin))) (\<lambda>open_targets.
     andthen (clock_of gh) (\<lambda>now.
     andthen (reading (\<lambda>d. bind_r (shift now (- revert_watch)) (\<lambda>since.
       bind_r (list_merged_pull_request_runs JD d (Aware since) max_runs) (sync_targets origin)))) (\<lambda>merged_targets.
     andthen (sync_each (sync_open H fs gh) open_targets \<lparr>sy_observations = [], sy_failures = [], sy_revert_watches = []\<rparr>)
       (sync_each (sync_merged H fs gh) merged_targets)))))"

section \<open>What an action keeps\<close>

text \<open>
  An action keeps a condition on the database when every outcome of it does, exceptions included.
\<close>

definition keeps :: "(db \<Rightarrow> bool) \<Rightarrow> ('g, 'a) action \<Rightarrow> bool" where
  "keeps P f \<longleftrightarrow> (\<forall>w. P (snd w) \<longrightarrow> P (snd (fst (f w))))"

named_theorems keeping \<open>actions that keep a condition\<close>

lemma keeps_simple [keeping]:
  "keeps P (give x)" "keeps P (raise e)" "keeps P (lift r)" "keeps P (outside g)" "keeps P (clock_of gh)" "keeps P (hold_id_of gh)"
  "keeps P (reading q)"
  by (simp_all add: keeps_def give_def raise_def lift_def outside_def clock_of_def hold_id_of_def reading_def Let_def
      split: prod.splits)

lemma keeps_andthen [keeping]: "keeps P f \<Longrightarrow> (\<And>x. keeps P (k x)) \<Longrightarrow> keeps P (andthen f k)"
  unfolding keeps_def andthen_def by (metis (mono_tags, lifting) fst_conv old.prod.case prod.exhaust_sel sum.case sum.exhaust)

lemma keeps_attempt [keeping]: "keeps P f \<Longrightarrow> keeps P (attempt f)"
  unfolding keeps_def attempt_def by (auto split: prod.splits sum.splits failure.splits) (metis fst_conv snd_conv)+

lemma keeps_if [keeping]: "(b \<Longrightarrow> keeps P f) \<Longrightarrow> (\<not> b \<Longrightarrow> keeps P g) \<Longrightarrow> keeps P (if b then f else g)"
  by simp

lemma keeps_case [keeping]:
  "(\<And>a. keeps P (f a)) \<Longrightarrow> (\<And>b. keeps P (g b)) \<Longrightarrow> keeps P (case x of Inl a \<Rightarrow> f a | Inr b \<Rightarrow> g b)"
  by (cases x) simp_all

lemma keeps_reads [keeping]:
  "keeps P (require_identity p repo n)" "keeps P (head_pushes gh p e)" "keeps P (confirm_unchanged gh repo n p)"
  "keeps P (read_snapshot gh repo n e login)"
proof -
  show 1: "keeps P (require_identity p repo n)" for p :: pull_request_details and repo n
    by (simp add: require_identity_def keeping)
  show 2: "keeps P (head_pushes gh p e)" for gh :: "'b github" and p e
    by (auto simp: head_pushes_def keeps_simple) (auto simp: keeps_def outside_def Let_def split: prod.splits sum.splits failure.splits)
  show 3: "keeps P (confirm_unchanged gh repo n p)" for gh :: "'c github" and repo n p
    by (simp add: confirm_unchanged_def keeping)
  show "keeps P (read_snapshot gh repo n e login)"
    unfolding read_snapshot_def by (intro keeping 1 2 3)
qed

section \<open>What the synchronization keeps\<close>

text \<open>
  The contract between the synchronization and the store: a condition that recording a stop and recording
  an observation on a run keep is kept by every outcome of a synchronization.
\<close>

locale kept_by_store =
  fixes P :: "db \<Rightarrow> bool" and H :: digest and fs :: files
  assumes stop: "record_stop H d t i c c' = Inr (d', b) \<Longrightarrow> P d \<Longrightarrow> P d'"
    and save: "record_on_run H (fs_dump fs) (fs_writer fs) (fs_remove fs) d m state merged_at attention c c' = (d', m', r) \<Longrightarrow> P d \<Longrightarrow> P d'"
begin

lemma record_trigger_keeps: "keeps P (record_trigger H gh t)"
  unfolding record_trigger_def
  by (intro keeping) (auto simp: keeps_def split: sum.splits intro: stop)

lemma record_stops_keeps: "keeps P (record_triggers H gh ts newly)" "keeps P (record_stops H gh u ss newly)"
proof -
  show t: "keeps P (record_triggers H gh ts newly)" for gh :: "'b github" and ts newly
    by (induction ts arbitrary: newly) (auto intro!: keeping record_trigger_keeps)
  show "keeps P (record_stops H gh u ss newly)"
    by (induction ss arbitrary: newly) (auto intro!: keeping t)
qed

lemma observe_keeps: "keeps P (observe H gh repo n e login)"
  unfolding observe_def Let_def by (intro keeping record_stops_keeps)

lemma watch_keeps: "keeps P (watch_for_revert H gh repo n)"
  unfolding watch_for_revert_def Let_def by (intro keeping record_stops_keeps)

lemma record_action_keeps: "keeps P (record_action H fs gh m state merged_at attention)"
proof -
  have "keeps P (\<lambda>w. case record_on_run H (fs_dump fs) (fs_writer fs) (fs_remove fs) (snd w) m state merged_at attention c c' of
         (d, _, Inl e) \<Rightarrow> ((fst w, d), Inl (Failed e)) | (d, _, Inr _) \<Rightarrow> ((fst w, d), Inr ()))" for c c'
    unfolding keeps_def
  proof (intro allI impI)
    fix w :: "'b \<times> db"
    assume p: "P (snd w)"
    obtain d' m' r where r: "record_on_run H (fs_dump fs) (fs_writer fs) (fs_remove fs) (snd w) m state merged_at attention c c' = (d', m', r)"
      by (metis prod_cases3)
    show "P (snd (fst (case record_on_run H (fs_dump fs) (fs_writer fs) (fs_remove fs) (snd w) m state merged_at attention c c' of
         (d, _, Inl e) \<Rightarrow> ((fst w, d), Inl (Failed e)) | (d, _, Inr _) \<Rightarrow> ((fst w, d), Inr ()))))"
      using save [OF r p] by (cases r) (simp_all add: r)
  qed
  then show ?thesis unfolding record_action_def by (intro keeping)
qed

lemma sync_one_keeps: "keeps P (sync_open H fs gh t r)" "keeps P (sync_merged H fs gh t r)"
  unfolding sync_open_def sync_merged_def Let_def
  by (rule keeps_andthen keeps_simple keeps_attempt observe_keeps watch_keeps record_action_keeps keeps_case)+

lemma sync_each_keeps: "(\<And>t r. keeps P (f t r)) \<Longrightarrow> keeps P (sync_each f ts r)"
proof (induction ts arbitrary: r)
  case (Cons t ts)
  show ?case unfolding sync_each.simps by (rule keeps_andthen [OF Cons.prems Cons.IH [OF Cons.prems]])
qed (simp add: keeps_simple)

lemma sync_keeps: "keeps P (sync_open_pull_requests H fs JD gh max_runs)"
  unfolding sync_open_pull_requests_def by (intro keeping sync_each_keeps sync_one_keeps)

end

text \<open>Both records leave the other's tables alone.\<close>

lemma record_stop_frame:
  assumes "record_stop H d t i c c' = Inr (d', b)"
  shows "runs d' = runs d \<and> events d' = events d \<and> manifest_artifact_sync d' = manifest_artifact_sync d"
proof -
  have t: "runs d2 = runs d1 \<and> events d2 = events d1 \<and> manifest_artifact_sync d2 = manifest_artifact_sync d1"
    if "trip_circuit_breaker d1 s r h u = Inr (d2, x)" for d1 d2 s r h u x
    using that by (cases rule: trip_cases) auto
  have e: "runs d2 = runs d1 \<and> events d2 = events d1 \<and> manifest_artifact_sync d2 = manifest_artifact_sync d1"
    if "escalate_stop H d1 h k u u' = Inr (d2, x)" for d1 d2 h k u u' x
    using that by (auto simp: escalate_stop_def result_simps Let_def split: if_splits dest: t)
  have h: "runs d2 = runs d1 \<and> events d2 = events d1 \<and> manifest_artifact_sync d2 = manifest_artifact_sync d1"
    if "record_hold H d1 t i c c' = Inr (d2, x)" for d1 d2 x
    using that by (auto simp: record_hold_def result_simps Let_def split: option.splits if_splits dest!: e)
  show ?thesis
    using assms by (auto simp: record_stop_def split: if_splits dest!: t h)
qed

text \<open>
  A stop on record, whatever happened to it since: a trip of the breaker, or a hold at its scope and
  key, with its source, reason and hash.
\<close>

definition trip_says :: "trigger \<Rightarrow> breaker_event \<Rightarrow> bool" where
  "trip_says t e \<longleftrightarrow> be_type e = Trip \<and> be_source e = strip (trig_source t) \<and> be_reason e = strip (trig_reason t)
     \<and> be_trigger_hash e = strip (trig_hash t)"

definition hold_says :: "trigger \<Rightarrow> hold_row \<Rightarrow> bool" where
  "hold_says t h \<longleftrightarrow> hold_scope h = trig_scope t \<and> casefold (hold_scope_key h) = casefold (trig_scope_key t)
     \<and> hold_source h = strip (trig_source t) \<and> hold_reason h = strip (trig_reason t) \<and> hold_trigger_hash h = strip (trig_hash t)"

definition on_record :: "db \<Rightarrow> trigger \<Rightarrow> bool" where
  "on_record d t \<longleftrightarrow> (if trig_scope t = Scope_global then \<exists>e\<in>set (circuit_breaker_events d). trip_says t e
     else \<exists>h\<in>set (holds d). hold_says t h)"

lemma record_hold_says:
  assumes "record_hold H d t i c c' = Inr (d', b)"
  shows "set (holds d) \<subseteq> set (holds d') \<and> (\<exists>h\<in>set (holds d'). hold_says t h)"
proof (cases b)
  case True
  with record_hold_table [OF assms] show ?thesis by (auto simp: hold_of_def hold_says_def)
next
  case False
  with record_hold_table [OF assms] have same: "d' = d" by simp
  have "List.find (\<lambda>h. hold_trigger_hash h = strip (trig_hash t)) (holds d) \<noteq> None"
    using record_hold_table [OF assms] False by (auto simp: find_None_iff)
  then obtain h where h: "List.find (\<lambda>h. hold_trigger_hash h = strip (trig_hash t)) (holds d) = Some h" by blast
  then have "hold_says t h"
    using assms by (auto simp: record_hold_def hold_says_def result_simps checks split: if_splits dest: find_SomeD)
  with h same show ?thesis by (auto dest: find_SomeD)
qed

lemma record_stop_grows:
  assumes "record_stop H d t i c c' = Inr (d', b)"
  shows "set (holds d) \<subseteq> set (holds d') \<and> set (circuit_breaker_events d) \<subseteq> set (circuit_breaker_events d') \<and> on_record d' t"
proof -
  have t: "set (circuit_breaker_events d1) \<subseteq> set (circuit_breaker_events d2) \<and> holds d2 = holds d1
      \<and> (\<exists>e\<in>set (circuit_breaker_events d2). be_type e = Trip \<and> be_source e = strip s \<and> be_reason e = strip r \<and> be_trigger_hash e = strip h)"
    if "trip_circuit_breaker d1 s r h u = Inr (d2, x)" for d1 d2 s r h u x
    using that by (cases rule: trip_cases) auto
  have e: "set (circuit_breaker_events d1) \<subseteq> set (circuit_breaker_events d2) \<and> holds d2 = holds d1"
    if "escalate_stop H d1 h k u u' = Inr (d2, x)" for d1 d2 h k u u' x
    using that by (auto simp: escalate_stop_def result_simps Let_def split: if_splits dest!: t)
  show ?thesis
  proof (cases "trig_scope t = Scope_global")
    case True
    then show ?thesis
      using assms by (auto simp: record_stop_def on_record_def trip_says_def split: if_splits dest!: t)
  next
    case False
    with assms have r: "record_hold H d t i c c' = Inr (d', b)" by (auto simp: record_stop_def split: if_splits)
    have "set (circuit_breaker_events d) \<subseteq> set (circuit_breaker_events d')"
      using r by (fastforce simp: record_hold_def result_simps Let_def split: option.splits if_splits dest!: e)
    with record_hold_says [OF r] False show ?thesis by (simp add: on_record_def)
  qed
qed

lemma save_run_holds:
  assumes "save_run H J wr rm d m etype details following clock clock' = (d', m', r)"
  shows "holds d' = holds d \<and> circuit_breaker_events d' = circuit_breaker_events d"
proof -
  have tr: "holds d2 = holds d1 \<and> circuit_breaker_events d2 = circuit_breaker_events d1"
    if "save_transaction H J d1 m1 e evs c = Inr d2" for d1 d2 m1 e evs c
  proof -
    from that obtain rs db where a: "append_events H (d1\<lparr>runs := rs\<rparr>) (run_id m1) evs c = Inr db"
      and k: "mark_manifest_artifact_sync H J db (run_id m1) (updated_at m1) m1 = Inr d2"
      by (auto simp: save_transaction_def Let_def result_simps write_runs_Inr split: option.splits if_splits prod.splits)
    have "same_outside_ledger (d1\<lparr>runs := rs\<rparr>) db" by (rule append_events_frame [OF a])
    note f = same_outside_ledgerD [OF this]
    with k show ?thesis by (auto simp: mark_Inr)
  qed
  have sy: "holds (fst x) = holds d1 \<and> circuit_breaker_events (fst x) = circuit_breaker_events d1"
    if "synchronize_manifest_artifact H J wr d1 rid u sha = Inr x" for d1 rid u sha x
  proof -
    from that have "publish_artifact H J wr d1 rid u sha = Inr (fst x, snd x)" by (simp add: synchronize_Inr)
    then show ?thesis by (cases rule: publish_cases) auto
  qed
  have rw: "holds d2 = holds d1 \<and> circuit_breaker_events d2 = circuit_breaker_events d1"
    if "remove_workspace rm d1 rid = Inr d2" for d1 d2 rid
    using that by (auto simp: remove_workspace_def result_simps)
  show ?thesis
    using assms tr sy rw by (auto simp: save_run_def Let_def split: sum.splits if_splits)
qed

lemma record_on_run_keeps:
  assumes "record_on_run H J wr rm d m state merged_at attention c c' = (d', m', r)"
  shows "store_wf H J d \<Longrightarrow> store_wf H J d'" "on_record d u \<Longrightarrow> on_record d' u"
  using assms save_run_wf save_run_holds
  by (auto simp: record_on_run_def on_record_def Let_def split: if_splits)

interpretation wf: kept_by_store "store_wf H (fs_dump fs)" H fs for H fs
proof
  fix d t i c c' d' b
  assume "record_stop H d t i c c' = Inr (d', b)" and "store_wf H (fs_dump fs) d"
  moreover from record_stop_frame [OF this(1)] have "cleared d d'" by (simp add: cleared_def)
  ultimately show "store_wf H (fs_dump fs) d'" by (blast intro: cleared_wf)
qed (rule record_on_run_keeps(1))

interpretation recorded: kept_by_store "\<lambda>d. on_record d u" H fs for u H fs
proof
  fix d t i c c' d' b
  assume "record_stop H d t i c c' = Inr (d', b)" and "on_record d u"
  with record_stop_grows [OF this(1)] show "on_record d' u" by (auto simp: on_record_def split: if_splits)
qed (rule record_on_run_keeps(2))

section \<open>Every stop is on record\<close>

lemma andthen_Inr: "andthen f k w = (w', Inr y) \<longleftrightarrow> (\<exists>w1 x. f w = (w1, Inr x) \<and> k x w1 = (w', Inr y))"
  by (auto simp: andthen_def split: prod.splits sum.splits)

lemma action_Inr [simp]:
  "give x w = (w', Inr y) \<longleftrightarrow> w' = w \<and> y = x" "raise e w \<noteq> (w', Inr y)"
  "lift r w = (w', Inr y) \<longleftrightarrow> w' = w \<and> r = Inr y"
  by (auto simp: give_def raise_def lift_def split: sum.splits)

definition stops_on_record :: "digest \<Rightarrow> 'g github \<Rightarrow> db \<Rightarrow> lifecycle_signal list \<Rightarrow> bool" where
  "stops_on_record H gh d ss \<longleftrightarrow> (\<exists>t. \<forall>s\<in>set ss. \<exists>ts. signal_stops H s (gh_api_origin gh) t = Inr ts \<and> (\<forall>u\<in>set ts. on_record d u))"

lemma keepsD: "keeps P f \<Longrightarrow> f w = (w', r) \<Longrightarrow> P (snd w) \<Longrightarrow> P (snd w')"
  unfolding keeps_def by (metis fst_conv)

lemma stops_kept:
  assumes "f w = (w', r)" and "\<And>u. keeps (\<lambda>d. on_record d u) f" and "stops_on_record H gh (snd w) ss"
  shows "stops_on_record H gh (snd w') ss"
  using assms keepsD [OF assms(2) assms(1)] unfolding stops_on_record_def by blast

lemma record_trigger_recorded:
  assumes "record_trigger H gh t w = (w', Inr b)"
  shows "on_record (snd w') t"
proof -
  from assms obtain w2 i c c' where
    "(case record_stop H (snd w2) t i c c' of Inl e \<Rightarrow> (w2, Inl (Failed e)) | Inr (d, b) \<Rightarrow> ((fst w2, d), Inr b)) = (w', Inr b)"
    unfolding record_trigger_def andthen_Inr by blast
  then obtain d where "record_stop H (snd w2) t i c c' = Inr (d, b)" and "snd w' = d"
    by (cases "record_stop H (snd w2) t i c c'") (auto split: prod.splits)
  with record_stop_grows show ?thesis by blast
qed

lemma record_triggers_recorded:
  "record_triggers H gh ts newly w = (w', Inr r) \<Longrightarrow> \<forall>u\<in>set ts. on_record (snd w') u"
proof (induction ts arbitrary: newly w)
  case (Cons t ts)
  from Cons.prems obtain w1 b newly' where t: "record_trigger H gh t w = (w1, Inr b)" and r: "record_triggers H gh ts newly' w1 = (w', Inr r)"
    by (auto simp: andthen_Inr)
  have "on_record (snd w1) t" by (rule record_trigger_recorded [OF t])
  then have "on_record (snd w') t" by (rule keepsD [OF recorded.record_stops_keeps(1) r])
  with Cons.IH [OF r] show ?case by simp
qed simp

lemma record_stops_recorded:
  "record_stops H gh u ss newly w = (w', Inr r) \<Longrightarrow>
     \<forall>s\<in>set ss. \<exists>ts. signal_stops H s (gh_api_origin gh) u = Inr ts \<and> (\<forall>t\<in>set ts. on_record (snd w') t)"
proof (induction ss arbitrary: newly w)
  case (Cons s ss)
  from Cons.prems obtain ts w1 newly' where ts: "signal_stops H s (gh_api_origin gh) u = Inr ts"
    and t: "record_triggers H gh ts newly w = (w1, Inr newly')" and r: "record_stops H gh u ss newly' w1 = (w', Inr r)"
    by (auto simp: andthen_Inr)
  have "\<forall>t\<in>set ts. on_record (snd w') t"
    using record_triggers_recorded [OF t] keepsD [OF recorded.record_stops_keeps(2) r] by blast
  with ts Cons.IH [OF r] show ?case by auto
qed simp

lemma stops_on_recordI:
  "record_stops H gh u ss newly w = (w', Inr r) \<Longrightarrow> stops_on_record H gh (snd w') ss"
  unfolding stops_on_record_def using record_stops_recorded by blast

lemma stops_on_recordI':
  "record_stops H gh u ss newly w = ((g, d), Inr r) \<Longrightarrow> stops_on_record H gh d ss"
  using stops_on_recordI [of H gh u ss newly w "(g, d)"] by simp

lemma observe_recorded:
  assumes "observe H gh repo n e login w = (w', Inr ob)"
  shows "ob_signals ob = classify_lifecycle H (ob_snapshot ob) \<and> stops_on_record H gh (snd w') (ob_signals ob)"
  using assms
  by (auto simp: observe_def andthen_Inr Let_def split: if_splits intro!: stops_on_recordI')

lemma watch_recorded:
  assumes "watch_for_revert H gh repo n w = (w', Inr x)"
  shows "stops_on_record H gh (snd w') (rw_signals x)"
  using assms
  by (auto simp: watch_for_revert_def andthen_Inr Let_def split: if_splits dest: stops_on_recordI')

lemma attempt_Inr: "attempt f w = (w', Inr (Inr x)) \<longleftrightarrow> f w = (w', Inr x)"
  by (auto simp: attempt_def split: prod.splits sum.splits failure.splits)

text \<open>What has been recorded so far, for the result so far.\<close>

definition all_recorded :: "digest \<Rightarrow> 'g github \<Rightarrow> db \<Rightarrow> sync_result \<Rightarrow> bool" where
  "all_recorded H gh d r \<longleftrightarrow>
     (\<forall>ob\<in>set (sy_observations r). ob_signals ob = classify_lifecycle H (ob_snapshot ob) \<and> stops_on_record H gh d (ob_signals ob))
     \<and> (\<forall>x\<in>set (sy_revert_watches r). stops_on_record H gh d (rw_signals x))"

lemma all_recorded_kept:
  assumes "f w = (w', x)" and "\<And>u. keeps (\<lambda>d. on_record d u) f" and "all_recorded H gh (snd w) r"
  shows "all_recorded H gh (snd w') r"
  using assms(3) stops_kept [OF assms(1,2)] unfolding all_recorded_def by blast

lemma sync_open_cases:
  assumes "sync_open H fs gh t r w = (w', Inr r')"
  obtains (failed) e where "r' = note_failure t e r"
  | (observed) ob w1 w2 w3 u s m a where "r' = r\<lparr>sy_observations := sy_observations r @ [ob]\<rparr>"
      and "observe H gh (st_repository t) (st_number t) (st_commit t) (publishing_login (st_manifest t)) w1 = (w2, Inr ob)"
      and "outside (gh_owned gh) w2 = (w3, Inr u)" and "record_action H fs gh (st_manifest t) s m a w3 = (w', Inr ())"
proof -
  from assms obtain w1 w2 outcome where o: "attempt (observe H gh (st_repository t) (st_number t) (st_commit t)
      (publishing_login (st_manifest t))) w1 = (w2, Inr outcome)"
    and k: "(case outcome of
     Inl e \<Rightarrow>
       andthen (clock_of gh) (\<lambda>now. andthen (outside (gh_owned gh)) (\<lambda>_.
       andthen (record_action H fs gh (st_manifest t) (pull_request_state (st_manifest t)) (pull_request_merged_at (st_manifest t))
         [observation_failure H (st_url t) e now]) (\<lambda>_.
       give (note_failure t e r))))
   | Inr ob \<Rightarrow>
       let state = snapshot_state (ob_snapshot ob) in
       andthen (outside (gh_owned gh)) (\<lambda>_.
       andthen (record_action H fs gh (st_manifest t) (Some state)
         (if state = Pull_merged then pd_merged_at (ls_pull_request (ob_snapshot ob)) else None) (ob_attention ob)) (\<lambda>_.
       give (r\<lparr>sy_observations := sy_observations r @ [ob]\<rparr>)))) w2 = (w', Inr r')"
    unfolding sync_open_def Let_def andthen_Inr by blast
  show thesis
  proof (cases outcome)
    case (Inl e)
    with k have "r' = note_failure t e r" by (auto simp: andthen_Inr)
    then show thesis by (rule failed)
  next
    case (Inr ob)
    with k obtain w3 u where own: "outside (gh_owned gh) w2 = (w3, Inr u)" and rr: "r' = r\<lparr>sy_observations := sy_observations r @ [ob]\<rparr>"
      and a: "record_action H fs gh (st_manifest t) (Some (snapshot_state (ob_snapshot ob)))
        (if snapshot_state (ob_snapshot ob) = Pull_merged then pd_merged_at (ls_pull_request (ob_snapshot ob)) else None)
        (ob_attention ob) w3 = (w', Inr ())"
      by (auto simp: andthen_Inr Let_def simp del: split_paired_Ex)
    from o have "observe H gh (st_repository t) (st_number t) (st_commit t) (publishing_login (st_manifest t)) w1 = (w2, Inr ob)"
      by (simp add: Inr attempt_Inr)
    with own rr a show thesis by (intro observed)
  qed
qed

lemma sync_merged_cases:
  assumes "sync_merged H fs gh t r w = (w', Inr r')"
  obtains (failed) e where "r' = note_failure t e r"
  | (watched) x w1 where "r' = r\<lparr>sy_revert_watches := sy_revert_watches r @ [x]\<rparr>"
      and "watch_for_revert H gh (st_repository t) (st_number t) w1 = (w', Inr x)"
proof -
  from assms obtain w1 w2 outcome where o: "attempt (watch_for_revert H gh (st_repository t) (st_number t)) w1 = (w2, Inr outcome)"
    and k: "(case outcome of
     Inl e \<Rightarrow>
       andthen (outside (gh_owned gh)) (\<lambda>_. andthen (clock_of gh) (\<lambda>now.
       andthen (record_action H fs gh (st_manifest t) (pull_request_state (st_manifest t)) (pull_request_merged_at (st_manifest t))
         [observation_failure H (st_url t) e now]) (\<lambda>_.
       give (note_failure t e r))))
   | Inr watched \<Rightarrow> give (r\<lparr>sy_revert_watches := sy_revert_watches r @ [watched]\<rparr>)) w2 = (w', Inr r')"
    unfolding sync_merged_def Let_def andthen_Inr by blast
  show thesis
  proof (cases outcome)
    case (Inl e)
    with k have "r' = note_failure t e r" by (auto simp: andthen_Inr)
    then show thesis by (rule failed)
  next
    case (Inr x)
    with k o show thesis by (intro watched [of x w1]) (simp_all add: attempt_Inr)
  qed
qed

lemma sync_open_recorded:
  assumes "sync_open H fs gh t r w = (w', Inr r')" and "all_recorded H gh (snd w) r"
  shows "all_recorded H gh (snd w') r'"
proof -
  have kept: "all_recorded H gh (snd w') r"
    by (rule all_recorded_kept [OF assms(1) recorded.sync_one_keeps(1) assms(2)])
  from assms(1) show ?thesis
  proof (cases rule: sync_open_cases)
    case failed
    with kept show ?thesis by (auto simp: all_recorded_def note_failure_def)
  next
    case (observed ob w1 w2 w3 u s m a)
    note ob = observe_recorded [OF observed(2)]
    have "stops_on_record H gh (snd w3) (ob_signals ob)" by (rule stops_kept [OF observed(3) keeps_simple(4) conjunct2 [OF ob]])
    then have "stops_on_record H gh (snd w') (ob_signals ob)" by (rule stops_kept [OF observed(4) recorded.record_action_keeps])
    with kept ob show ?thesis by (auto simp: all_recorded_def observed(1))
  qed
qed

lemma sync_merged_recorded:
  assumes "sync_merged H fs gh t r w = (w', Inr r')" and "all_recorded H gh (snd w) r"
  shows "all_recorded H gh (snd w') r'"
proof -
  have kept: "all_recorded H gh (snd w') r"
    by (rule all_recorded_kept [OF assms(1) recorded.sync_one_keeps(2) assms(2)])
  from assms(1) show ?thesis
  proof (cases rule: sync_merged_cases)
    case (watched x w1)
    with kept watch_recorded [OF watched(2)] show ?thesis by (auto simp: all_recorded_def)
  qed (use kept in \<open>auto simp: all_recorded_def note_failure_def\<close>)
qed

lemma sync_each_recorded:
  assumes "\<And>t r w w' r'. f t r w = (w', Inr r') \<Longrightarrow> all_recorded H gh (snd w) r \<Longrightarrow> all_recorded H gh (snd w') r'"
  shows "sync_each f ts r w = (w', Inr r') \<Longrightarrow> all_recorded H gh (snd w) r \<Longrightarrow> all_recorded H gh (snd w') r'"
  by (induction ts arbitrary: r w) (auto simp: andthen_Inr dest: assms)

lemma sync_all_recorded:
  assumes "sync_open_pull_requests H fs JD gh max_runs w = (w', Inr r)"
  shows "all_recorded H gh (snd w') r"
proof -
  let ?none = "\<lparr>sy_observations = [], sy_failures = [], sy_revert_watches = []\<rparr>"
  from assms obtain open_targets merged_targets w1 w2 r1 where
    o: "sync_each (sync_open H fs gh) open_targets ?none w1 = (w2, Inr r1)"
    and m: "sync_each (sync_merged H fs gh) merged_targets r1 w2 = (w', Inr r)"
    by (auto simp: sync_open_pull_requests_def andthen_Inr)
  have n: "all_recorded H gh (snd w1) ?none" by (simp add: all_recorded_def)
  have "all_recorded H gh (snd w2) r1" by (rule sync_each_recorded [OF _ o n]) (rule sync_open_recorded)
  then show ?thesis by (rule sync_each_recorded [OF _ m, rotated]) (rule sync_merged_recorded)
qed

end
