(* ===== verification/Synchronization.thy ===== *)
theory Synchronization
  imports Observation Claims "HOL-Library.Multiset"
begin

text \<open>
  What a synchronization of \<open>lifecycle.py\<close> promises: every published run is looked at, every stop the
  evidence asks for is on record when it returns, the store stays well formed whatever the outcome, and the
  order in which GitHub lists its evidence decides nothing.
\<close>

section \<open>Every published run is looked at\<close>






















section \<open>What the store promises\<close>

text \<open>
  Whatever GitHub, the lease guard and the clock answer, and however a synchronization
  ends, it leaves a store that satisfied the store invariant with that invariant.
\<close>

theorem sync_keeps_store:
  assumes "store_wf H (fs_dump fs) d" and "sync_open_pull_requests H fs JD gh max_runs (g, d) = ((g', d'), res)"
  shows "store_wf H (fs_dump fs) d'"
  using keepsD [OF wf.sync_keeps assms(2)] assms(1) by simp

text \<open>
  C32. When a synchronization returns, every stop that the signals of any observed or watched
  pull request ask for is on record in the store, whatever was recorded in between: a global
  stop as a trip of the circuit breaker, any other as a hold at its scope and scope key
  (compared without case), each with the source, the reason and the hash of the stop.
\<close>

theorem observed_stops_are_recorded:
  assumes "sync_open_pull_requests H fs JD gh max_runs w = ((g', d'), Inr r)"
    and "ss \<in> ob_signals ` set (sy_observations r) \<union> rw_signals ` set (sy_revert_watches r)"
  shows "\<exists>observed_at. \<forall>x\<in>set ss. \<exists>ts. signal_stops H x (gh_api_origin gh) observed_at = Inr ts \<and> (\<forall>t\<in>set ts. on_record d' t)"
proof -
  have "stops_on_record H gh d' ss" using sync_all_recorded [OF assms(1)] assms(2) unfolding all_recorded_def by auto
  then show ?thesis unfolding stops_on_record_def .
qed

text \<open>
  When a synchronization returns and a pull request it observed has another head than the
  prepared commit without a record of pushes by other accounts that leads there, the circuit
  breaker has been tripped by exactly this evidence.
\<close>

theorem unexplained_head_trips_breaker:
  assumes "sync_open_pull_requests H fs JD gh max_runs w = ((g', d'), Inr r)" and "ob \<in> set (sy_observations r)"
    and "casefold (pd_head_sha (ls_pull_request (ob_snapshot ob))) \<noteq> casefold (ls_expected_head_sha (ob_snapshot ob))"
    and "\<not> pushed_by_others (ob_snapshot ob)"
  shows "\<exists>x\<in>set (ob_signals ob). sig_kind x = Head_drift
    \<and> (\<exists>e\<in>set (circuit_breaker_events d'). be_type e = Trip \<and> be_trigger_hash e = strip (signal_hash H x))"
proof -
  from sync_all_recorded [OF assms(1)] assms(2) have k: "ob_signals ob = classify_lifecycle H (ob_snapshot ob)"
    and s: "stops_on_record H gh d' (ob_signals ob)" by (auto simp: all_recorded_def)
  from assms(3,4) obtain x where x: "x \<in> set (head_signals (ob_snapshot ob))" "sig_kind x = Head_drift"
    by (auto simp: head_signals_def Let_def make_signal_def)
  then have i: "x \<in> set (ob_signals ob)" unfolding k by (simp add: classify_lifecycle_def ordered_def Let_def)
  from s i x(2) have "on_record d' (signal_stop H x Scope_global '''' None False)"
    by (fastforce simp: stops_on_record_def signal_stops_def result_simps)
  with i x(2) show ?thesis by (auto simp: on_record_def trip_says_def signal_stop_def)
qed

section \<open>The order of the evidence decides nothing\<close>

text \<open>Two answers with the same items, told apart by their identifiers.\<close>

definition same_items :: "('a \<Rightarrow> int) \<Rightarrow> 'a list \<Rightarrow> 'a list \<Rightarrow> bool" where
  "same_items key xs ys \<longleftrightarrow> distinct (map key xs) \<and> mset xs = mset ys"

lemma same_items_sorted: "same_items key xs ys \<Longrightarrow> sort_key key xs = sort_key key ys"
  by (rule sort_key_inj_key_eq) (simp_all add: same_items_def distinct_map)

text \<open>
  Whatever the order in which GitHub lists its evidence, the snapshot is the same, and with it the signals
  and the hashes of their stops.
\<close>

theorem evidence_order_decides_nothing:
  assumes "same_items review_identifier reviews reviews'" and "same_items gc_identifier on_issue on_issue'"
    and "same_items gc_identifier on_review on_review'" and "same_items check_identifier checks checks'"
    and "same_items cs_identifier statuses statuses'" and "same_items pref_identifier refs refs'"
  shows "take_snapshot e p reviews on_issue on_review checks statuses refs login pushes
    = take_snapshot e p reviews' on_issue' on_review' checks' statuses' refs' login pushes"
  using assms [THEN same_items_sorted]
  by (simp add: take_snapshot_def sorted_checks_def sorted_statuses_def sorted_references_def)

section \<open>Examples\<close>

text \<open>A published run whose branch was moved to a commit nobody explains.\<close>

abbreviation api_url :: string where
  "api_url \<equiv> ''https://api.github.com''"

definition moved_manifest :: run_manifest where
  "moved_manifest = (new_manifest ''r'' PR_OPEN 0 0)\<lparr>candidate := Some sample_issue,
     repository := Some \<lparr>repo_full_name = ''o/n'', repo_html_url = [], repo_clone_url = [], repo_default_branch = ''m'',
       repo_stars = 0, repo_archived = False, repo_disabled = False, repo_private = False, repo_pushed_at = None,
       repo_license_spdx = None, repo_has_pull_requests = True, repo_pull_request_creation_policy = None\<rparr>,
     pull_request_url := Some ''https://github.com/o/n/pull/7'', publishing_api_origin := Some api_url,
     commit_sha := Some (replicate 40 (CHR ''c'')), pull_request_state := Some Pull_open\<rparr>"

definition moved_db :: db where
  "moved_db = (create_schema 0)\<lparr>runs := [\<lparr>row_run_id = ''r'', row_status = PR_OPEN, row_repository = Some ''o/n'',
     row_issue_number = Some 1, row_created_at = 0, row_updated_at = 0, row_manifest = moved_manifest, row_event_count = 0,
     row_event_head = zeros, row_issue_revision = None\<rparr>]\<rparr>"

definition first_comment :: github_comment where
  "first_comment = \<lparr>gc_identifier = 1, gc_author = ''a'', gc_author_association = ''NONE'', gc_body = ''b'', gc_html_url = ''u'',
     gc_created_at = 0, gc_updated_at = 0\<rparr>"

definition answering :: "'a \<Rightarrow> unit \<Rightarrow> unit \<times> 'a answer" where
  "answering x g = (g, Inr x)"

definition moved_github :: "unit github" where
  "moved_github = \<lparr>gh_api_origin = api_url, gh_pull_request = (\<lambda>_ _. answering moved_page), gh_reviews = (\<lambda>_ _. answering []),
     gh_issue_comments = (\<lambda>_ _ _. answering []), gh_review_comments = (\<lambda>_ _ _. answering []),
     gh_check_runs = (\<lambda>_ _. answering []), gh_commit_statuses = (\<lambda>_ _. answering []), gh_references = (\<lambda>_ _. answering []),
     gh_branch_pushes = (\<lambda>_ _. answering []), gh_owned = answering (), gh_now = (\<lambda>g. (g, 60 * day)), gh_hold_id = (\<lambda>g. (g, 1))\<rparr>"

abbreviation moved_files :: files where
  "moved_files \<equiv> \<lparr>fs_dump = (\<lambda>_. []), fs_writer = (\<lambda>_. None), fs_remove = (\<lambda>_. False)\<rparr>"

definition moved_target :: sync_target where
  "moved_target = \<lparr>st_manifest = moved_manifest, st_url = ''https://github.com/o/n/pull/7'', st_repository = ''o/n'', st_number = 7,
     st_commit = replicate 40 (CHR ''c'')\<rparr>"

definition moved_snapshot :: lifecycle_snapshot where
  "moved_snapshot = take_snapshot (replicate 40 (CHR ''c'')) moved_page [] [] [] [] [] [] None []"

definition moved_signal :: lifecycle_signal where
  "moved_signal = hd (head_signals moved_snapshot)"

lemma moved_fields [simp]:
  "run_id moved_manifest = ''r''" "status moved_manifest = PR_OPEN" "candidate moved_manifest = Some sample_issue"
  "pull_request_url moved_manifest = Some ''https://github.com/o/n/pull/7''" "publishing_api_origin moved_manifest = Some api_url"
  "commit_sha moved_manifest = Some (replicate 40 (CHR ''c''))" "pull_request_state moved_manifest = Some Pull_open"
  "pull_request_merged_at moved_manifest = None" "pull_request_attention moved_manifest = []" "publishing_login moved_manifest = None"
  "map_option repo_full_name (repository moved_manifest) = Some ''o/n''"
  by (simp_all add: moved_manifest_def new_manifest_def)

lemma moved_valid: "validate_manifest moved_manifest = Inr moved_manifest"
  by (simp add: validate_manifest_def fields_valid_def remote_identity_complete_def moved_manifest_def new_manifest_def opt_all_def)

lemma moved_lists:
  "list_open_pull_request_runs JD moved_db 10 = Inr [moved_manifest]"
  "list_merged_pull_request_runs JD moved_db (Aware (30 * day)) 10 = Inr []"
  by (simp_all add: list_open_pull_request_runs_def list_merged_pull_request_runs_def list_with_statuses_def status_query_def
      moved_db_def moved_valid aware_utc_def)

lemma moved_targets: "sync_targets api_url [moved_manifest] = Inr [moved_target]"
proof -
  have o: "canonical_api_origin api_url = Inr api_url" by code_simp
  have u: "parse_pull_request_url ''https://github.com/o/n/pull/7'' api_url = Inr (''o/n'', 7)" by code_simp
  have c: "is_commit_sha (replicate 40 (CHR ''c''))" by code_simp
  obtain info where i: "repository moved_manifest = Some info" "repo_full_name info = ''o/n''" by (simp add: moved_manifest_def)
  show ?thesis
    by (simp add: sync_targets_def sync_target_def target_origin_def o u c i moved_target_def Let_def)
qed

lemma moved_heads: "casefold (replicate 40 (CHR ''d'')) \<noteq> casefold (replicate 40 (CHR ''c''))"
  by code_simp

lemma moved_snapshot_simps:
  "ls_pull_request moved_snapshot = moved_page" "ls_expected_head_sha moved_snapshot = replicate 40 (CHR ''c'')"
  "ls_publishing_login moved_snapshot = None" "ls_reviews moved_snapshot = []" "ls_issue_comments moved_snapshot = []"
  "ls_review_comments moved_snapshot = []" "ls_check_runs moved_snapshot = []" "ls_commit_statuses moved_snapshot = []"
  "ls_references moved_snapshot = []"
  by (simp_all add: moved_snapshot_def take_snapshot_def sorted_checks_def sorted_statuses_def sorted_references_def)

lemma moved_unexplained: "\<not> pushed_by_others moved_snapshot"
  by (simp add: pushed_by_others_def moved_snapshot_simps)

lemma moved_heads_differ:
  "casefold (pd_head_sha (ls_pull_request moved_snapshot)) \<noteq> casefold (ls_expected_head_sha moved_snapshot)"
  unfolding moved_snapshot_simps moved_page_def pull_request_details.simps by (rule moved_heads)

lemma moved_head_signals: "head_signals moved_snapshot = [moved_signal]" "sig_kind moved_signal = Head_drift"
  "sig_repository moved_signal = ''o/n''" "sig_pull_request_number moved_signal = 7" "sig_source_url moved_signal = ''u''"
  "sig_reason moved_signal = ''Published pull-request head no longer matches the prepared commit, and ''
     @ ''GitHub does not show that every push since then came from another account''"
proof -
  have p: "pd_repository moved_page = ''o/n''" "pd_number moved_page = 7" "pd_html_url moved_page = ''u''"
    by (simp_all add: moved_page_def)
  have m: "moved_signal = make_signal Head_drift moved_page (casefold (pd_head_sha moved_page))
      (''Published pull-request head no longer matches the prepared commit, and ''
       @ ''GitHub does not show that every push since then came from another account'') ''u''"
    and h: "head_signals moved_snapshot = [make_signal Head_drift moved_page (casefold (pd_head_sha moved_page))
      (''Published pull-request head no longer matches the prepared commit, and ''
       @ ''GitHub does not show that every push since then came from another account'') ''u'']"
    using moved_heads_differ moved_unexplained by (simp_all add: moved_signal_def head_signals_def Let_def moved_snapshot_simps p)
  show "head_signals moved_snapshot = [moved_signal]" by (simp only: h m)
  show "sig_kind moved_signal = Head_drift"
    "sig_repository moved_signal = ''o/n''" "sig_pull_request_number moved_signal = 7" "sig_source_url moved_signal = ''u''"
    "sig_reason moved_signal = ''Published pull-request head no longer matches the prepared commit, and ''
     @ ''GitHub does not show that every push since then came from another account''"
    unfolding m make_signal_def by (simp_all only: lifecycle_signal.simps p)
qed

lemma moved_signals: "classify_lifecycle H moved_snapshot = [moved_signal]"
proof -
  have "closed_signals moved_page = []" by (simp add: closed_signals_def moved_page_def)
  then show ?thesis
    by (simp add: classify_lifecycle_def Let_def moved_snapshot_simps moved_head_signals(1) changes_signals_def check_signals_def
        status_signals_def revert_signals_def latest_effective_reviews_def latest_check_runs_def latest_commit_statuses_def
        latest_by_def ordered_def)
qed

definition moved_stop :: trigger where
  "moved_stop = signal_stop (\<lambda>_. ''h'') moved_signal Scope_global [] None False"

definition tripped_db :: db where
  "tripped_db = fst (projr (record_stop (\<lambda>_. ''h'') moved_db moved_stop 1 (60 * day) (60 * day)))"

lemma moved_trips: "record_stop (\<lambda>_. ''h'') moved_db moved_stop 1 (60 * day) (60 * day) = Inr (tripped_db, True)"
proof -
  have t: "trig_source moved_stop = ''github_lifecycle:o/n#7:head_drift''"
    "trig_reason moved_stop = ''Published pull-request head no longer matches the prepared commit, and ''
     @ ''GitHub does not show that every push since then came from another account: u''"
    "trig_hash moved_stop = ''h''" "trig_scope moved_stop = Scope_global" "trig_scope_key moved_stop = []"
    "trig_expires_at moved_stop = None" "\<not> trig_counts_toward_escalation moved_stop"
  proof -
    have "int_text 7 = ''7''" by code_simp
    then show "trig_source moved_stop = ''github_lifecycle:o/n#7:head_drift''"
      by (simp add: moved_stop_def signal_stop_def signal_source_def moved_head_signals)
  qed (simp_all add: moved_stop_def signal_stop_def moved_head_signals signal_hash_def)
  have b: "bounded_text ''github_lifecycle:o/n#7:head_drift'' f 255 = Inr ''github_lifecycle:o/n#7:head_drift''"
    "bounded_text (''Published pull-request head no longer matches the prepared commit, and ''
     @ ''GitHub does not show that every push since then came from another account: u'') f 2000
     = Inr (''Published pull-request head no longer matches the prepared commit, and ''
     @ ''GitHub does not show that every push since then came from another account: u'')"
    "lease_identity ''h'' f = Inr ''h''" for f
    by (simp_all add: bounded_text_def lease_identity_def strip_def rstrip_def is_space_def nul_char char_of_def Let_def)
  have "\<exists>d. record_stop (\<lambda>_. ''h'') moved_db moved_stop 1 (60 * day) (60 * day) = Inr (d, True)"
    unfolding record_stop_def t trip_circuit_breaker_def b
    by (simp add: t b moved_db_def create_schema_def stored_generation_def max_generation_def)
  then show ?thesis by (auto simp: tripped_db_def)
qed

lemma answered [simp]: "outside (answering x) w = (w, Inr x)"
  by (cases w) (simp add: outside_def answering_def)

lemma moved_answers [simp]:
  "gh_api_origin moved_github = api_url" "gh_pull_request moved_github repo n = answering moved_page"
  "gh_reviews moved_github repo n = answering []" "gh_issue_comments moved_github repo n k = answering []"
  "gh_review_comments moved_github repo n k = answering []" "gh_check_runs moved_github repo s = answering []"
  "gh_commit_statuses moved_github repo s = answering []" "gh_branch_pushes moved_github repo s = answering []"
  "gh_owned moved_github = answering ()" "clock_of moved_github w = (w, Inr (60 * day))" "hold_id_of moved_github w = (w, Inr 1)"
  by (cases w; simp add: moved_github_def clock_of_def hold_id_of_def outside_def)+

lemmas acting = andthen_def give_def lift_def

lemma moved_read: "read_snapshot moved_github ''o/n'' 7 (replicate 40 (CHR ''c'')) None w = (w, Inr moved_snapshot)"
proof -
  have r: "require_identity moved_page ''o/n'' 7 w = (w, Inr ())" for w :: "unit \<times> db"
    by (simp add: require_identity_def moved_page_def give_def)
  have c: "confirm_unchanged moved_github ''o/n'' 7 moved_page w = (w, Inr ())" for w
    by (simp add: confirm_unchanged_def acting)
  have h: "head_pushes moved_github moved_page e w = (w, Inr [])" for e w
    by (simp add: head_pushes_def give_def)
  have m: "\<not> pd_merged moved_page" by (simp add: moved_page_def)
  show ?thesis unfolding read_snapshot_def moved_snapshot_def by (simp add: acting r c h m)
qed

definition moved_observation :: lifecycle_observation where
  "moved_observation = \<lparr>ob_snapshot = moved_snapshot, ob_signals = [moved_signal], ob_attention = [], ob_newly_recorded = [''h'']\<rparr>"

lemma moved_observe:
  "observe (\<lambda>_. ''h'') moved_github ''o/n'' 7 (replicate 40 (CHR ''c'')) None ((), moved_db) = (((), tripped_db), Inr moved_observation)"
proof -
  have i: "identity_text ''o/n'' ''repository'' = Inr ''o/n''" by code_simp
  have j: "identity_text (replicate 40 (CHR ''c'')) ''expected head SHA'' = Inr (replicate 40 (CHR ''c''))" by code_simp
  have s: "signal_stops (\<lambda>_. ''h'') moved_signal api_url (60 * day) = Inr [moved_stop]"
    by (simp add: signal_stops_def shift_def repository_cooldown_def day_def second_def max_instant_def moved_head_signals moved_stop_def)
  have t: "record_trigger (\<lambda>_. ''h'') moved_github moved_stop ((), moved_db) = (((), tripped_db), Inr True)"
    by (simp add: record_trigger_def acting moved_trips)
  have k: "trig_hash moved_stop = ''h''" by (simp add: moved_stop_def signal_stop_def signal_hash_def)
  have a: "signal_attention (\<lambda>_. ''h'') moved_signal (60 * day) = None" by (simp add: signal_attention_def moved_head_signals)
  show ?thesis unfolding observe_def
    by (simp add: acting i j moved_read Let_def moved_signals s t k a moved_observation_def map_filter_simps)
qed

lemma moved_sync:
  "sync_open_pull_requests (\<lambda>_. ''h'') moved_files JD moved_github 10 ((), moved_db)
   = (((), tripped_db), Inr \<lparr>sy_observations = [moved_observation], sy_failures = [], sy_revert_watches = []\<rparr>)"
proof -
  have o: "observed_origin api_url = Inr api_url" by code_simp
  have s: "shift (60 * day) (- revert_watch) = Inr (30 * day)"
    by (simp add: shift_def revert_watch_def day_def second_def max_instant_def)
  have e: "sync_targets api_url [] = Inr []" by (simp add: sync_targets_def)
  have st: "snapshot_state moved_snapshot = Pull_open" by (simp add: snapshot_state_def moved_snapshot_simps moved_page_def)
  have r: "record_action (\<lambda>_. ''h'') moved_files moved_github moved_manifest (Some Pull_open) None [] w = (w, Inr ())" for w
    by (cases w) (simp add: record_action_def acting record_on_run_def new_attention_def)
  have a: "attempt (observe (\<lambda>_. ''h'') moved_github ''o/n'' 7 (replicate 40 (CHR ''c'')) None) ((), moved_db)
    = (((), tripped_db), Inr (Inr moved_observation))"
    by (simp only: attempt_Inr moved_observe)
  have ob: "ob_snapshot moved_observation = moved_snapshot" "ob_attention moved_observation = []"
    by (simp_all add: moved_observation_def)
  have t: "sync_open (\<lambda>_. ''h'') moved_files moved_github moved_target \<lparr>sy_observations = [], sy_failures = [], sy_revert_watches = []\<rparr>
      ((), moved_db) = (((), tripped_db), Inr \<lparr>sy_observations = [moved_observation], sy_failures = [], sy_revert_watches = []\<rparr>)"
    unfolding sync_open_def
    by (simp add: moved_target_def Let_def acting a ob st r del: replicate_numeral)
  show ?thesis unfolding sync_open_pull_requests_def
    by (simp add: acting o reading_def moved_lists moved_targets s e t)
qed


lemma observed_stops_are_recorded_witness: "on_record tripped_db moved_stop"
proof -
  have s: "[moved_signal] \<in> ob_signals ` set [moved_observation] \<union> {}" by (simp add: moved_observation_def)
  have "\<exists>u. \<forall>x\<in>set [moved_signal]. \<exists>ts. signal_stops (\<lambda>_. ''h'') x (gh_api_origin moved_github) u = Inr ts
      \<and> (\<forall>t\<in>set ts. on_record tripped_db t)"
    by (rule observed_stops_are_recorded [OF moved_sync [of "\<lambda>_. 0"]]) (use s in simp)
  then show ?thesis by (auto simp: signal_stops_def result_simps moved_head_signals(2) moved_stop_def)
qed

lemma unexplained_head_trips_breaker_witness:
  "\<exists>e\<in>set (circuit_breaker_events tripped_db). be_type e = Trip \<and> be_trigger_hash e = ''h''"
proof -
  have o: "ob_snapshot moved_observation = moved_snapshot" by (simp add: moved_observation_def)
  from unexplained_head_trips_breaker [OF moved_sync [of "\<lambda>_. 0"], of moved_observation] moved_heads_differ moved_unexplained
  show ?thesis by (simp add: o signal_hash_def strip_def rstrip_def is_space_def)
qed

lemma evidence_order_decides_nothing_witness:
  "take_snapshot ''e'' moved_page [] [first_comment, first_comment\<lparr>gc_identifier := 2\<rparr>] [] [] [] [] None []
   = take_snapshot ''e'' moved_page [] [first_comment\<lparr>gc_identifier := 2\<rparr>, first_comment] [] [] [] [] None []"
  by (rule evidence_order_decides_nothing) (simp_all add: same_items_def first_comment_def)

lemma sync_keeps_store_witness:
  "\<exists>d' r. sync_open_pull_requests sample_sha moved_files (\<lambda>_. 0) moved_github 10 ((), sample_run_db) = (((), d'), Inr r)
    \<and> store_wf sample_sha (\<lambda>_. []) d'"
proof -
  have o: "observed_origin api_url = Inr api_url" by code_simp
  have s: "shift (60 * day) (- revert_watch) = Inr (30 * day)"
    by (simp add: shift_def revert_watch_def day_def second_def max_instant_def)
  have l: "list_open_pull_request_runs (\<lambda>_. 0) sample_run_db 10 = Inr []"
    "list_merged_pull_request_runs (\<lambda>_. 0) sample_run_db (Aware (30 * day)) 10 = Inr []"
    by (simp_all add: list_open_pull_request_runs_def list_merged_pull_request_runs_def list_with_statuses_def status_query_def
        sample_run_db_def sample_row_def aware_utc_def)
  have r: "sync_open_pull_requests sample_sha moved_files (\<lambda>_. 0) moved_github 10 ((), sample_run_db)
    = (((), sample_run_db), Inr \<lparr>sy_observations = [], sy_failures = [], sy_revert_watches = []\<rparr>)"
    unfolding sync_open_pull_requests_def by (simp add: acting o reading_def l s sync_targets_def)
  from sync_keeps_store [OF _ r] sample_store_wf r show ?thesis by auto
qed

end
