(* ===== verification/Approval.thy ===== *)
theory Approval
  imports Compensation
begin

text \<open>
  \<open>approval.py\<close>: the manifest a human approves, its fingerprint, and the approval that is bound to it.  Bytes are
  characters, so a text is encoded by \<open>utf8\<close> before it is hashed.
\<close>

section \<open>Canonical JSON without ASCII escapes\<close>

text \<open>\<open>json.dumps(..., ensure_ascii=False, sort_keys=True, separators=(",", ":"))\<close> of a flat object.\<close>

definition raw_char :: "char \<Rightarrow> string" where
  "raw_char c = (if 127 \<le> code c then [c] else json_char c)"

definition raw_string :: "string \<Rightarrow> string" where
  "raw_string s = [CHR 0x22] @ concat (map raw_char s) @ [CHR 0x22]"

definition raw_value :: "json \<Rightarrow> string" where
  "raw_value v = (case v of JStr s \<Rightarrow> raw_string s | _ \<Rightarrow> dumps v)"

definition raw_member :: "string \<times> json \<Rightarrow> string" where
  "raw_member kv = raw_string (fst kv) @ '':'' @ raw_value (snd kv)"

definition raw_object :: "(string \<times> json) list \<Rightarrow> string" where
  "raw_object kvs = ''{'' @ join '','' (map raw_member (sort_key fst kvs)) @ ''}''"

definition utf8_char :: "char \<Rightarrow> string" where
  "utf8_char c = (if code c < 128 then [c] else [char_of (192 + code c div 64), char_of (128 + code c mod 64)])"

definition utf8 :: "string \<Rightarrow> string" where
  "utf8 s = concat (map utf8_char s)"

section \<open>The approval manifest\<close>

record approval_manifest =
  am_schema_version :: int
  am_repository :: string
  am_head_repository :: "string option"
  am_issue_number :: int
  am_base_sha :: string
  am_preparation_fingerprint :: string
  am_publishing_login :: string
  am_publishing_api_origin :: string
  am_commit_author_name :: string
  am_commit_author_email :: string
  am_commit_committer_name :: string
  am_commit_committer_email :: string
  am_base_branch :: string
  am_draft :: bool
  am_ready_for_review :: bool
  am_diff_sha256 :: string
  am_commit_message :: string
  am_pull_request_title :: string
  am_pull_request_body :: string
  am_disclosure :: string

definition is_publishing_origin :: "string \<Rightarrow> bool" where
  "is_publishing_origin v = (case bind_r (urlparse v) (\<lambda>u. bind_r (url_port u) (\<lambda>port. Inr (u, port))) of
     Inl _ \<Rightarrow> False
   | Inr (u, port) \<Rightarrow> (case url_hostname u of
       None \<Rightarrow> False
     | Some hostname \<Rightarrow>
       url_scheme u = ''https'' \<and> url_userinfo u = None \<and> url_path u = [] \<and> url_params u = [] \<and> url_query u = []
       \<and> url_fragment u = []
       \<and> (let host = casefold hostname; shown = (if CHR '':'' \<in> set host then ''['' @ host @ '']'' else host)
          in v = ''https://'' @ shown @ (case port of None \<Rightarrow> [] | Some p \<Rightarrow> '':'' @ int_text p))))"

definition is_git_name :: "string \<Rightarrow> bool" where
  "is_git_name v \<longleftrightarrow> v \<noteq> [] \<and> v = strip v \<and> length v \<le> 200 \<and> list_all (\<lambda>c. c \<notin> {nul, carriage_return, newline}) v"

definition is_git_email :: "string \<Rightarrow> bool" where
  "is_git_email v \<longleftrightarrow> v \<noteq> [] \<and> v = strip v \<and> length v \<le> 320 \<and> CHR ''@'' \<in> set v
     \<and> list_all (\<lambda>c. c \<notin> {nul, carriage_return, newline, CHR ''<'', CHR ''>''}) v"

text \<open>The validators change four fields and judge every field; \<open>ApprovalManifest(...)\<close> is \<open>new_approval_manifest\<close>.\<close>

definition normal_manifest :: "approval_manifest \<Rightarrow> approval_manifest" where
  "normal_manifest a = a\<lparr>am_base_sha := casefold (am_base_sha a),
     am_preparation_fingerprint := casefold (am_preparation_fingerprint a),
     am_publishing_login := casefold (strip (am_publishing_login a)), am_diff_sha256 := casefold (am_diff_sha256 a)\<rparr>"

definition valid_manifest :: "approval_manifest \<Rightarrow> bool" where
  "valid_manifest a \<longleftrightarrow> is_owner_name (am_repository a) \<and> opt_all is_owner_name (am_head_repository a)
     \<and> 0 < am_issue_number a \<and> am_schema_version a = (if am_head_repository a = None then 4 else 5)
     \<and> is_git_sha (am_base_sha a) \<and> is_sha256 (am_preparation_fingerprint a) \<and> am_publishing_login a \<noteq> []
     \<and> is_publishing_origin (am_publishing_api_origin a)
     \<and> is_git_name (am_commit_author_name a) \<and> is_git_name (am_commit_committer_name a)
     \<and> is_git_email (am_commit_author_email a) \<and> is_git_email (am_commit_committer_email a)
     \<and> strip (am_base_branch a) \<noteq> [] \<and> is_sha256 (am_diff_sha256 a)
     \<and> strip (am_commit_message a) \<noteq> [] \<and> strip (am_pull_request_title a) \<noteq> [] \<and> strip (am_pull_request_body a) \<noteq> []
     \<and> strip (am_disclosure a) \<noteq> []"

definition new_approval_manifest :: "approval_manifest \<Rightarrow> approval_manifest result" where
  "new_approval_manifest a = (if valid_manifest (normal_manifest a) then Inr (normal_manifest a)
     else Inl (ValueError ''validation error for ApprovalManifest''))"

definition required_context :: "run_manifest \<Rightarrow> (string \<times> string option) list" where
  "required_context m = [(''preparation fingerprint'', preparation_fingerprint m), (''publishing login'', publishing_login m),
     (''publishing API origin'', publishing_api_origin m), (''commit author name'', commit_author_name m),
     (''commit author email'', commit_author_email m), (''commit committer name'', commit_committer_name m),
     (''commit committer email'', commit_committer_email m)]"

definition missing_context :: "run_manifest \<Rightarrow> string list" where
  "missing_context m = map fst (filter (\<lambda>(_, v). v = None \<or> v = Some []) (required_context m))"

definition build_approval_manifest :: "digest \<Rightarrow> run_manifest \<Rightarrow> string \<Rightarrow> bool \<Rightarrow> bool \<Rightarrow> approval_manifest result" where
  "build_approval_manifest H m diff draft ready = (case candidate m of
     None \<Rightarrow> Inl (PolicyError ''Cannot approve a run without an issue candidate'')
   | Some c \<Rightarrow> (case base_sha m of
     None \<Rightarrow> Inl (PolicyError ''Cannot approve a run without a pinned base SHA'')
   | Some base \<Rightarrow> (case repository m of
     None \<Rightarrow> Inl (PolicyError ''Cannot approve a run without repository metadata'')
   | Some info \<Rightarrow> (case proposal m of
     None \<Rightarrow> Inl (PolicyError ''Cannot approve a run without a patch proposal'')
   | Some p \<Rightarrow>
     if missing_context m \<noteq> [] then
       Inl (PolicyError (''Cannot approve a run without durable publication context: '' @ join '', '' (missing_context m)))
     else new_approval_manifest \<lparr>am_schema_version = (if head_repository m = None then 4 else 5),
       am_repository = issue_repository c, am_head_repository = head_repository m, am_issue_number = issue_number c,
       am_base_sha = base, am_preparation_fingerprint = the (preparation_fingerprint m),
       am_publishing_login = the (publishing_login m), am_publishing_api_origin = the (publishing_api_origin m),
       am_commit_author_name = the (commit_author_name m), am_commit_author_email = the (commit_author_email m),
       am_commit_committer_name = the (commit_committer_name m), am_commit_committer_email = the (commit_committer_email m),
       am_base_branch = repo_default_branch info, am_draft = draft, am_ready_for_review = ready, am_diff_sha256 = H diff,
       am_commit_message = prop_commit_message p, am_pull_request_title = prop_pull_request_title p,
       am_pull_request_body = prop_pull_request_body p, am_disclosure = prop_disclosure p\<rparr>))))"

section \<open>The fingerprint\<close>

definition approval_fields :: "approval_manifest \<Rightarrow> (string \<times> json) list" where
  "approval_fields a = [(''schema_version'', JInt (am_schema_version a)), (''repository'', JStr (am_repository a))]
     @ (case am_head_repository a of None \<Rightarrow> [] | Some h \<Rightarrow> [(''head_repository'', JStr h)])
     @ [(''issue_number'', JInt (am_issue_number a)), (''base_sha'', JStr (am_base_sha a)),
        (''preparation_fingerprint'', JStr (am_preparation_fingerprint a)), (''publishing_login'', JStr (am_publishing_login a)),
        (''publishing_api_origin'', JStr (am_publishing_api_origin a)), (''commit_author_name'', JStr (am_commit_author_name a)),
        (''commit_author_email'', JStr (am_commit_author_email a)), (''commit_committer_name'', JStr (am_commit_committer_name a)),
        (''commit_committer_email'', JStr (am_commit_committer_email a)), (''base_branch'', JStr (am_base_branch a)),
        (''draft'', JBool (am_draft a)), (''ready_for_review'', JBool (am_ready_for_review a)),
        (''diff_sha256'', JStr (am_diff_sha256 a)), (''commit_message'', JStr (am_commit_message a)),
        (''pull_request_title'', JStr (am_pull_request_title a)), (''pull_request_body'', JStr (am_pull_request_body a)),
        (''disclosure'', JStr (am_disclosure a))]"

definition fingerprint_domain :: "int \<Rightarrow> string" where
  "fingerprint_domain v = (if v = 4 then ''autocontribute.approval.v4'' else ''autocontribute.approval.v5'') @ [nul]"

definition fingerprint_text :: "approval_manifest \<Rightarrow> string" where
  "fingerprint_text a = fingerprint_domain (am_schema_version a) @ utf8 (raw_object (approval_fields a))"

definition manifest_fingerprint :: "digest \<Rightarrow> approval_manifest \<Rightarrow> string" where
  "manifest_fingerprint H a = H (fingerprint_text a)"

definition is_fingerprint_prefix :: "string \<Rightarrow> bool" where
  "is_fingerprint_prefix s \<longleftrightarrow> 12 \<le> length s \<and> length s \<le> 64 \<and> list_all is_lower_hex s"

definition fingerprint_matches :: "string \<Rightarrow> string \<Rightarrow> bool" where
  "fingerprint_matches shown fingerprint \<longleftrightarrow> is_fingerprint_prefix shown \<and> shown = take (length shown) fingerprint"

section \<open>Approvals\<close>

text \<open>\<open>hmac.compare_digest\<close> refuses texts with other than ASCII characters.\<close>

definition compare_digest :: "string \<Rightarrow> string \<Rightarrow> bool result" where
  "compare_digest a b = (if list_ex (\<lambda>c. 128 \<le> code c) (a @ b) then
       Inl (TypeError ''comparing strings with non-ASCII characters is not supported'') else Inr (a = b))"

definition policy_utc :: "datetime \<Rightarrow> string \<Rightarrow> instant result" where
  "policy_utc v field = (case v of
     Naive _ \<Rightarrow> Inl (PolicyError (field @ '' must be timezone-aware''))
   | Aware t \<Rightarrow> Inr t)"

definition create_approval :: "digest \<Rightarrow> int \<Rightarrow> approval_manifest \<Rightarrow> string \<Rightarrow> string \<Rightarrow> datetime \<Rightarrow> approval_record result" where
  "create_approval H expires_hours a actor attestation now =
     (if strip actor = [] then Inl (PolicyError ''Approval actor cannot be blank'')
      else if strip attestation = [] then Inl (PolicyError ''Approval attestation cannot be blank'')
      else
        bind_r (policy_utc now ''approval time'') (\<lambda>approved_at.
        bind_r (shift approved_at (expires_hours * 3600 * second)) (\<lambda>expires_at.
        Inr \<lparr>appr_actor = actor, appr_approved_at = approved_at, appr_expires_at = expires_at,
          appr_manifest_hash = manifest_fingerprint H a, appr_attestation = attestation\<rparr>)))"

definition validate_approval :: "digest \<Rightarrow> approval_record \<Rightarrow> approval_manifest \<Rightarrow> datetime \<Rightarrow> unit result" where
  "validate_approval H x a now =
     bind_r (policy_utc now ''validation time'') (\<lambda>checked_at.
     if appr_expires_at x \<le> appr_approved_at x then Inl (PolicyError ''Approval has an invalid expiry interval'')
     else if checked_at < appr_approved_at x then Inl (PolicyError ''Approval is not valid yet'')
     else if appr_expires_at x \<le> checked_at then Inl (PolicyError ''Approval has expired'')
     else
       bind_r (compare_digest (appr_manifest_hash x) (manifest_fingerprint H a)) (\<lambda>same.
       if \<not> same then Inl (PolicyError ''Approval does not match the exact publication manifest'')
       else if strip (appr_actor x) = [] \<or> strip (appr_attestation x) = [] then
         Inl (PolicyError ''Approval is missing its actor or attestation'')
       else if casefold (strip (appr_actor x)) \<noteq> am_publishing_login a then
         Inl (PolicyError ''Approval actor does not match the authorized GitHub publishing account'')
       else Inr ()))"

section \<open>The fingerprint determines the manifest\<close>

text \<open>
  A code for characters whose texts can be read back one character at a time from the front, and one whose
  texts have an end that starts no code.
\<close>

locale prefix_code =
  fixes code_text :: "char \<Rightarrow> string"
  assumes read: "code_text c @ r = code_text d @ s \<Longrightarrow> c = d \<and> r = s"
    and nonempty: "code_text c \<noteq> []"
begin

lemma concat_inj: "concat (map code_text s) = concat (map code_text t) \<Longrightarrow> s = t"
proof (induction s arbitrary: t)
  case Nil
  then show ?case using nonempty by (cases t) auto
next
  case (Cons c s)
  from Cons.prems obtain d u where t: "t = d # u" using nonempty by (cases t) auto
  with Cons.prems have "code_text c @ concat (map code_text s) = code_text d @ concat (map code_text u)" by simp
  from read [OF this] Cons.IH t show ?case by blast
qed

end

locale terminated_code = prefix_code +
  fixes stop :: char
  assumes no_stop: "code_text c @ r \<noteq> stop # s"
begin

lemma body_inj:
  "concat (map code_text s) @ stop # r = concat (map code_text t) @ stop # r' \<Longrightarrow> s = t \<and> r = r'"
proof (induction s arbitrary: t)
  case Nil
  then show ?case by (cases t) (auto simp: no_stop dest: sym)
next
  case (Cons c s)
  then obtain d u where t: "t = d # u" by (cases t) (auto simp: no_stop)
  with Cons.prems have "code_text c @ concat (map code_text s) @ stop # r = code_text d @ concat (map code_text u) @ stop # r'"
    by simp
  from read [OF this] Cons.IH t show ?case by blast
qed

end

lemma raw_char_first: "raw_char c @ r \<noteq> CHR 0x22 # r'"
  using json_char_first [of c r r'] by (auto simp: raw_char_def)

lemma raw_char_read: "json_unchar (raw_char c @ r) = Some (c, r)"
proof (cases "127 \<le> code c")
  case True
  then have "c \<noteq> CHR 0x22" "c \<noteq> CHR 0x5C" by auto
  with True show ?thesis by (simp add: raw_char_def)
qed (simp add: raw_char_def)

interpretation raw: terminated_code raw_char "CHR 0x22"
proof
  show "c = d \<and> r = s" if "raw_char c @ r = raw_char d @ s" for c d r s
    using arg_cong [OF that, of json_unchar] by (simp add: raw_char_read)
  show "raw_char c \<noteq> []" for c using raw_char_read [of c "[]"] by auto
qed (rule raw_char_first)

lemma raw_string_inj: "raw_string s @ r = raw_string s' @ r' \<Longrightarrow> s = s' \<and> r = r'"
  using raw.body_inj [of s r s' r'] by (simp add: raw_string_def)

definition is_number_char :: "char \<Rightarrow> bool" where
  "is_number_char c \<longleftrightarrow> is_digit c \<or> c = CHR ''-''"

lemma int_text_chars: "list_all is_number_char (int_text i) \<and> int_text i \<noteq> []"
  using nat_text_read [of "nat i"] nat_text_read [of "nat (- i)"]
  by (auto simp: int_text_def is_number_char_def list_all_iff)

lemma nat_text_inj: "nat_text n = nat_text k \<Longrightarrow> n = k"
  by (metis nat_text_read of_nat_eq_iff)

lemma nat_text_no_minus: "CHR ''-'' \<notin> set (nat_text n)"
proof
  assume "CHR ''-'' \<in> set (nat_text n)"
  with nat_text_read [of n] have "is_digit (CHR ''-'')" unfolding list_all_iff by blast
  then show False by (simp add: is_digit_def)
qed

lemma int_text_minus: "CHR ''-'' \<in> set (int_text i) \<longleftrightarrow> i < 0"
  using nat_text_no_minus [of "nat i"] by (simp add: int_text_def)

lemma int_text_inj:
  assumes "int_text i = int_text j"
  shows "i = j"
proof -
  have "i < 0 \<longleftrightarrow> j < 0" using int_text_minus [of i] int_text_minus [of j] assms by simp
  with assms have "if i < 0 then nat (- i) = nat (- j) else nat i = nat j"
    by (auto simp: int_text_def dest: nat_text_inj)
  with \<open>i < 0 \<longleftrightarrow> j < 0\<close> show ?thesis by (auto split: if_splits)
qed

lemma int_text_prefix:
  assumes "int_text i @ d # r = int_text j @ d' # r'" and "\<not> is_number_char d" and "\<not> is_number_char d'"
  shows "i = j \<and> d = d' \<and> r = r'"
proof -
  have t: "takeWhile is_number_char (int_text i @ d # r) = int_text i" if "\<not> is_number_char d" for i d r
    using int_text_chars [of i] that by (auto simp: list_all_iff takeWhile_append2)
  from arg_cong [OF assms(1), of "takeWhile is_number_char"] have "int_text i = int_text j" by (simp add: t assms(2,3))
  with assms(1) show ?thesis using int_text_inj by auto
qed

definition scalar :: "json \<Rightarrow> bool" where
  "scalar v = (case v of JStr _ \<Rightarrow> True | JInt _ \<Rightarrow> True | JBool _ \<Rightarrow> True | _ \<Rightarrow> False)"

lemma raw_value_simps [simp]:
  "raw_value (JStr s) = raw_string s" "raw_value (JInt i) = int_text i" "raw_value (JBool b) = (if b then ''true'' else ''false'')"
  by (simp_all add: raw_value_def)

text \<open>The first character tells what kind of value it is.\<close>

definition first_kind :: "char \<Rightarrow> nat" where
  "first_kind c = (if c = CHR 0x22 then 1 else if is_number_char c then 2 else 3)"

lemma raw_value_first:
  assumes "scalar v"
  shows "\<exists>c t. raw_value v = c # t \<and> first_kind c = (case v of JStr _ \<Rightarrow> 1 | JInt _ \<Rightarrow> 2 | _ \<Rightarrow> 3)"
proof (cases v)
  case (JInt i)
  from int_text_chars [of i] obtain c t where "int_text i = c # t" "is_number_char c" by (cases "int_text i") auto
  moreover from this have "c \<noteq> CHR 0x22" by (auto simp: is_number_char_def is_digit_def)
  ultimately show ?thesis using JInt by (simp add: first_kind_def)
qed (use assms in \<open>auto simp: scalar_def raw_string_def first_kind_def is_number_char_def is_digit_def\<close>)

lemma raw_value_prefix:
  assumes "raw_value v @ d # r = raw_value w @ d' # r'" and "scalar v" and "scalar w" and "d \<in> {CHR '','', CHR ''}''}"
    and "d' \<in> {CHR '','', CHR ''}''}"
  shows "v = w \<and> d = d' \<and> r = r'"
proof -
  have n: "\<not> is_number_char d" "\<not> is_number_char d'" using assms(4,5) by (auto simp: is_number_char_def is_digit_def)
  have k: "(case v of JStr _ \<Rightarrow> 1 | JInt _ \<Rightarrow> 2 | _ \<Rightarrow> 3) = (case w of JStr _ \<Rightarrow> 1 | JInt _ \<Rightarrow> 2 | _ \<Rightarrow> (3 :: nat))"
    using raw_value_first [OF assms(2)] raw_value_first [OF assms(3)] assms(1) by auto
  show ?thesis
  proof (cases v)
    case (JStr s)
    with k assms(3) obtain t where "w = JStr t" by (cases w) (auto simp: scalar_def)
    with JStr assms(1) show ?thesis by (auto dest: raw_string_inj)
  next
    case (JInt i)
    with k assms(3) obtain j where "w = JInt j" by (cases w) (auto simp: scalar_def)
    with JInt assms(1) int_text_prefix [OF _ n] show ?thesis by auto
  next
    case (JBool b)
    with k assms(3) obtain c where "w = JBool c" by (cases w) (auto simp: scalar_def)
    with JBool assms(1) show ?thesis by (auto split: if_splits)
  qed (use assms(2) in \<open>simp_all add: scalar_def\<close>)
qed

lemma raw_member_prefix:
  assumes "raw_member x @ d # r = raw_member y @ d' # r'" and "scalar (snd x)" and "scalar (snd y)" and "d \<in> {CHR '','', CHR ''}''}"
    and "d' \<in> {CHR '','', CHR ''}''}"
  shows "x = y \<and> d = d' \<and> r = r'"
proof -
  from assms(1) have "raw_string (fst x) @ '':'' @ raw_value (snd x) @ d # r = raw_string (fst y) @ '':'' @ raw_value (snd y) @ d' # r'"
    by (simp add: raw_member_def)
  from raw_string_inj [OF this] have "fst x = fst y" and "raw_value (snd x) @ d # r = raw_value (snd y) @ d' # r'" by simp_all
  with raw_value_prefix [OF this(2) assms(2-5)] show ?thesis by (simp add: prod_eq_iff)
qed

definition members_text :: "(string \<times> json) list \<Rightarrow> string" where
  "members_text xs = join '','' (map raw_member xs) @ ''}''"

lemma members_text_Cons: "\<exists>d r. members_text (x # xs) = raw_member x @ d # r \<and> d \<in> {CHR '','', CHR ''}''}
    \<and> (xs = [] \<longleftrightarrow> d = CHR ''}'') \<and> (xs \<noteq> [] \<longrightarrow> r = members_text xs)"
  by (cases xs) (auto simp: members_text_def)

lemma members_text_inj:
  "list_all (scalar \<circ> snd) xs \<Longrightarrow> list_all (scalar \<circ> snd) ys \<Longrightarrow> members_text xs = members_text ys \<Longrightarrow> xs = ys"
proof (induction xs arbitrary: ys)
  case Nil
  then show ?case using members_text_Cons [of "hd ys" "tl ys"]
    by (cases ys) (auto simp: members_text_def raw_member_def raw_string_def)
next
  case (Cons x xs)
  obtain y zs where ys: "ys = y # zs"
    using Cons.prems members_text_Cons [of x xs] by (cases ys) (auto simp: members_text_def raw_member_def raw_string_def)
  obtain d r where d: "members_text (x # xs) = raw_member x @ d # r" "d \<in> {CHR '','', CHR ''}''}"
    "xs = [] \<longleftrightarrow> d = CHR ''}''" "xs \<noteq> [] \<longrightarrow> r = members_text xs" using members_text_Cons [of x xs] by blast
  obtain d' r' where d': "members_text (y # zs) = raw_member y @ d' # r'" "d' \<in> {CHR '','', CHR ''}''}"
    "zs = [] \<longleftrightarrow> d' = CHR ''}''" "zs \<noteq> [] \<longrightarrow> r' = members_text zs" using members_text_Cons [of y zs] by blast
  have "raw_member x @ d # r = raw_member y @ d' # r'" using Cons.prems(3) d(1) d'(1) ys by simp
  then have e: "x = y \<and> d = d' \<and> r = r'"
    by (rule raw_member_prefix) (use Cons.prems ys d(2) d'(2) in simp_all)
  show ?case
  proof (cases "xs = []")
    case True
    with e d(3) d'(3) show ?thesis by (simp add: ys)
  next
    case False
    with e d d' have "members_text xs = members_text zs" by auto
    with Cons.IH [of zs] Cons.prems ys e show ?thesis by simp
  qed
qed

lemma raw_object_inj:
  assumes "raw_object kvs = raw_object kvs'" and "\<forall>kv\<in>set kvs \<union> set kvs'. scalar (snd kv)"
  shows "sort_key fst kvs = sort_key fst kvs'"
proof (rule members_text_inj)
  show "members_text (sort_key fst kvs) = members_text (sort_key fst kvs')" using assms(1) by (simp add: raw_object_def members_text_def)
qed (use assms(2) in \<open>simp_all add: list_all_iff\<close>)

lemma utf8_char_read:
  assumes "utf8_char c @ x = utf8_char d @ y"
  shows "c = d \<and> x = y"
proof -
  have b: "192 + code c div 64 < 256" "192 + code d div 64 < 256" "128 + code c mod 64 < 256" "128 + code d mod 64 < 256"
    using less_mult_imp_div_less [of "code c" 4 64] less_mult_imp_div_less [of "code d" 4 64] code_less [of c] code_less [of d]
      mod_less_divisor [of 64 "code c"] mod_less_divisor [of 64 "code d"] by linarith+
  have of: "code (char_of n :: char) = n" if "n < 256" for n using that by simp
  show ?thesis
  proof (cases "code c < 128"; cases "code d < 128")
    assume c: "\<not> code c < 128" and d: "\<not> code d < 128"
    with assms have "char_of (192 + code c div 64) = (char_of (192 + code d div 64) :: char)"
      "char_of (128 + code c mod 64) = (char_of (128 + code d mod 64) :: char)" and r: "x = y" by (simp_all add: utf8_char_def)
    with of [OF b(1)] of [OF b(2)] of [OF b(3)] of [OF b(4)]
    have "code c div 64 = code d div 64" "code c mod 64 = code d mod 64" by (metis add_left_cancel)+
    then have "code c = code d" by (metis div_mult_mod_eq)
    with r show ?thesis by simp
  next
    assume c: "code c < 128" and d: "\<not> code d < 128"
    with assms have "c = char_of (192 + code d div 64)" by (simp add: utf8_char_def)
    with of [OF b(2)] c show ?thesis by simp
  next
    assume c: "\<not> code c < 128" and d: "code d < 128"
    with assms have "d = char_of (192 + code c div 64)" by (simp add: utf8_char_def)
    with of [OF b(1)] d show ?thesis by simp
  qed (use assms in \<open>simp add: utf8_char_def\<close>)
qed

interpretation utf8: prefix_code utf8_char
  by unfold_locales (simp_all add: utf8_char_read, simp add: utf8_char_def)

lemma utf8_inj: "utf8 s = utf8 t \<Longrightarrow> s = t"
  unfolding utf8_def by (rule utf8.concat_inj)

lemma approval_fields_distinct: "distinct (map fst (approval_fields a))"
  by (cases "am_head_repository a") (simp_all add: approval_fields_def)

lemma approval_fields_scalar: "\<forall>kv\<in>set (approval_fields a). scalar (snd kv)"
  by (auto simp: approval_fields_def scalar_def split: option.splits)

lemma approval_field:
  "map_of (approval_fields a) ''schema_version'' = Some (JInt (am_schema_version a))"
  "map_of (approval_fields a) ''repository'' = Some (JStr (am_repository a))"
  "map_of (approval_fields a) ''head_repository'' = map_option JStr (am_head_repository a)"
  "map_of (approval_fields a) ''issue_number'' = Some (JInt (am_issue_number a))"
  "map_of (approval_fields a) ''base_sha'' = Some (JStr (am_base_sha a))"
  "map_of (approval_fields a) ''preparation_fingerprint'' = Some (JStr (am_preparation_fingerprint a))"
  "map_of (approval_fields a) ''publishing_login'' = Some (JStr (am_publishing_login a))"
  "map_of (approval_fields a) ''publishing_api_origin'' = Some (JStr (am_publishing_api_origin a))"
  "map_of (approval_fields a) ''commit_author_name'' = Some (JStr (am_commit_author_name a))"
  "map_of (approval_fields a) ''commit_author_email'' = Some (JStr (am_commit_author_email a))"
  "map_of (approval_fields a) ''commit_committer_name'' = Some (JStr (am_commit_committer_name a))"
  "map_of (approval_fields a) ''commit_committer_email'' = Some (JStr (am_commit_committer_email a))"
  "map_of (approval_fields a) ''base_branch'' = Some (JStr (am_base_branch a))"
  "map_of (approval_fields a) ''draft'' = Some (JBool (am_draft a))"
  "map_of (approval_fields a) ''ready_for_review'' = Some (JBool (am_ready_for_review a))"
  "map_of (approval_fields a) ''diff_sha256'' = Some (JStr (am_diff_sha256 a))"
  "map_of (approval_fields a) ''commit_message'' = Some (JStr (am_commit_message a))"
  "map_of (approval_fields a) ''pull_request_title'' = Some (JStr (am_pull_request_title a))"
  "map_of (approval_fields a) ''pull_request_body'' = Some (JStr (am_pull_request_body a))"
  "map_of (approval_fields a) ''disclosure'' = Some (JStr (am_disclosure a))"
  by (cases "am_head_repository a"; simp add: approval_fields_def)+

lemma approval_fields_inj:
  assumes "map_of (approval_fields a) = map_of (approval_fields b)"
  shows "a = b"
proof -
  have m: "map_of (approval_fields a) k = map_of (approval_fields b) k" for k by (simp add: assms)
  have h: "am_head_repository a = am_head_repository b"
    using m [of "''head_repository''"] unfolding approval_field by (cases "am_head_repository a"; cases "am_head_repository b") auto
  have sch0: "am_schema_version a = am_schema_version b" using m [of "''schema_version''"] unfolding approval_field by simp
  have rep1: "am_repository a = am_repository b" using m [of "''repository''"] unfolding approval_field by simp
  have iss2: "am_issue_number a = am_issue_number b" using m [of "''issue_number''"] unfolding approval_field by simp
  have bas3: "am_base_sha a = am_base_sha b" using m [of "''base_sha''"] unfolding approval_field by simp
  have pre4: "am_preparation_fingerprint a = am_preparation_fingerprint b" using m [of "''preparation_fingerprint''"] unfolding approval_field by simp
  have pub5: "am_publishing_login a = am_publishing_login b" using m [of "''publishing_login''"] unfolding approval_field by simp
  have pub6: "am_publishing_api_origin a = am_publishing_api_origin b" using m [of "''publishing_api_origin''"] unfolding approval_field by simp
  have com7: "am_commit_author_name a = am_commit_author_name b" using m [of "''commit_author_name''"] unfolding approval_field by simp
  have com8: "am_commit_author_email a = am_commit_author_email b" using m [of "''commit_author_email''"] unfolding approval_field by simp
  have com9: "am_commit_committer_name a = am_commit_committer_name b" using m [of "''commit_committer_name''"] unfolding approval_field by simp
  have com10: "am_commit_committer_email a = am_commit_committer_email b" using m [of "''commit_committer_email''"] unfolding approval_field by simp
  have bas11: "am_base_branch a = am_base_branch b" using m [of "''base_branch''"] unfolding approval_field by simp
  have dra12: "am_draft a = am_draft b" using m [of "''draft''"] unfolding approval_field by simp
  have rea13: "am_ready_for_review a = am_ready_for_review b" using m [of "''ready_for_review''"] unfolding approval_field by simp
  have dif14: "am_diff_sha256 a = am_diff_sha256 b" using m [of "''diff_sha256''"] unfolding approval_field by simp
  have com15: "am_commit_message a = am_commit_message b" using m [of "''commit_message''"] unfolding approval_field by simp
  have pul16: "am_pull_request_title a = am_pull_request_title b" using m [of "''pull_request_title''"] unfolding approval_field by simp
  have pul17: "am_pull_request_body a = am_pull_request_body b" using m [of "''pull_request_body''"] unfolding approval_field by simp
  have dis18: "am_disclosure a = am_disclosure b" using m [of "''disclosure''"] unfolding approval_field by simp
  show ?thesis by (rule approval_manifest.equality) (simp_all add: h sch0 rep1 iss2 bas3 pre4 pub5 pub6 com7 com8 com9 com10 bas11 dra12 rea13 dif14 com15 pul16 pul17 dis18)
qed

lemma fingerprint_text_inj:
  assumes "fingerprint_text a = fingerprint_text b" and "am_schema_version a \<in> {4, 5}" and "am_schema_version b \<in> {4, 5}"
  shows "a = b"
proof -
  from assms have "raw_object (approval_fields a) = raw_object (approval_fields b)"
    by (auto simp: fingerprint_text_def fingerprint_domain_def intro: utf8_inj)
  then have "sort_key fst (approval_fields a) = sort_key fst (approval_fields b)"
    by (rule raw_object_inj) (use approval_fields_scalar in auto)
  then have "set (approval_fields a) = set (approval_fields b)" by (metis set_sort)
  with approval_fields_distinct have "map_of (approval_fields a) = map_of (approval_fields b)"
    by (intro map_of_inject_set [THEN iffD2]) simp_all
  then show ?thesis by (rule approval_fields_inj)
qed

section \<open>An approval is for one manifest\<close>

lemma new_approval_manifest_Inr: "new_approval_manifest a = Inr b \<Longrightarrow> b = normal_manifest a \<and> valid_manifest b"
  by (auto simp: new_approval_manifest_def split: if_splits)

lemma valid_manifest_schema: "valid_manifest a \<Longrightarrow> am_schema_version a \<in> {4, 5}"
  by (auto simp: valid_manifest_def split: if_splits)

lemma fingerprint_inj:
  assumes "manifest_fingerprint H a = manifest_fingerprint H b" and "inj_on H {fingerprint_text a, fingerprint_text b}"
    and "valid_manifest a" and "valid_manifest b"
  shows "a = b"
proof -
  have "fingerprint_text a = fingerprint_text b"
    by (rule inj_onD [OF assms(2)]) (use assms(1) in \<open>simp_all add: manifest_fingerprint_def\<close>)
  then show ?thesis using valid_manifest_schema assms(3,4) by (blast intro: fingerprint_text_inj)
qed

lemma validate_approval_Inr:
  "validate_approval H x a (Aware u) = Inr r \<longleftrightarrow> appr_approved_at x \<le> u \<and> u < appr_expires_at x
     \<and> compare_digest (appr_manifest_hash x) (manifest_fingerprint H a) = Inr True
     \<and> strip (appr_actor x) \<noteq> [] \<and> strip (appr_attestation x) \<noteq> [] \<and> casefold (strip (appr_actor x)) = am_publishing_login a"
  by (auto simp: validate_approval_def policy_utc_def bind_r_Inr_iff split: if_splits)

lemma compare_digest_Inr: "compare_digest a b = Inr True \<Longrightarrow> a = b"
  by (simp add: compare_digest_def split: if_splits)

lemma compare_digest_same: "list_all (\<lambda>c. code c < 128) s \<Longrightarrow> compare_digest s s = Inr True"
  by (auto simp: compare_digest_def list_ex_iff list_all_iff)

lemma create_approval_Inr:
  "create_approval H hours a actor attestation (Aware t) = Inr x \<longleftrightarrow> strip actor \<noteq> [] \<and> strip attestation \<noteq> []
     \<and> (\<exists>e. shift t (hours * 3600 * second) = Inr e \<and> x = \<lparr>appr_actor = actor, appr_approved_at = t, appr_expires_at = e,
          appr_manifest_hash = manifest_fingerprint H a, appr_attestation = attestation\<rparr>)"
  by (auto simp: create_approval_def policy_utc_def result_simps split: if_splits)

text \<open>
  C12. An approval that was created for one valid manifest is accepted for a valid manifest
  exactly when that is the same manifest in every field, the moment is within the window of the
  approval, and its actor, stripped and folded, is the publishing account. The digest must not
  collide on the two fingerprint texts.
\<close>

theorem approval_validates_iff:
  assumes "create_approval H hours a actor attestation (Aware t) = Inr x" and "valid_manifest a" and "valid_manifest b"
    and "inj_on H {fingerprint_text a, fingerprint_text b}" and "\<And>s. list_all (\<lambda>c. code c < 128) (H s)"
  shows "validate_approval H x b (Aware u) = Inr () \<longleftrightarrow>
    b = a \<and> t \<le> u \<and> u < t + hours * 3600 * second \<and> casefold (strip actor) = am_publishing_login a"
proof -
  have same: "compare_digest (manifest_fingerprint H a) (manifest_fingerprint H b) = Inr True \<longleftrightarrow> b = a"
    using fingerprint_inj [OF _ assms(4,2,3)] compare_digest_same [OF assms(5)] compare_digest_Inr
    by (metis manifest_fingerprint_def)
  from assms(1) show ?thesis
    unfolding create_approval_Inr validate_approval_Inr by (auto simp: same shift_def split: if_splits)
qed

end
