(* ===== verification/Approving.thy ===== *)
theory Approving
  imports Approval
begin

text \<open>
  From \<open>publication.py\<close>: how \<open>approve_run\<close> stores an approval, and how the ledger proves one when a
  publication is recovered.  What is published later under a valid approval is what was approved.
\<close>

section \<open>Approving a run (publication.py)\<close>

text \<open>\<open>_APPROVAL_SOURCE\<close>: an https URL without spaces.\<close>

definition is_host_char :: "char \<Rightarrow> bool" where
  "is_host_char c \<longleftrightarrow> is_letter c \<or> is_digit c \<or> c = CHR ''.'' \<or> c = CHR ''-''"

definition after_port :: "string \<Rightarrow> string" where
  "after_port s = (case s of
     [] \<Rightarrow> []
   | c # r \<Rightarrow> if c \<noteq> CHR '':'' then s
       else let port = takeWhile is_digit r in if 1 \<le> length port \<and> length port \<le> 5 then drop (length port) r else [])"

definition is_approval_source :: "string \<Rightarrow> bool" where
  "is_approval_source s \<longleftrightarrow> take 8 s = ''https://''
     \<and> (let rest = drop 8 s; path = after_port (dropWhile is_host_char rest) in
        takeWhile is_host_char rest \<noteq> [] \<and> path \<noteq> [] \<and> hd path = CHR ''/'' \<and> length (tl path) \<le> 1900
        \<and> list_all (\<lambda>c. 33 \<le> code c \<and> code c \<le> 126) (tl path))"

text \<open>
  The start and the end of \<open>_build_approval_review\<close>.  The checks in between read configuration, artifacts
  and GitHub, and only refuse; \<open>m\<close> is the run with the publishing context they bound.
\<close>

definition approval_review :: "digest \<Rightarrow> run_manifest \<Rightarrow> string \<Rightarrow> bool \<Rightarrow> bool \<Rightarrow> (approval_manifest \<times> string) result" where
  "approval_review H m patch draft ready =
     (if status m \<noteq> READY_FOR_APPROVAL then
        Inl (StateError (''Run '' @ run_id m @ '' is '' @ status_value (status m) @ '', not ready_for_approval''))
      else if (case quality m of None \<Rightarrow> True | Some q \<Rightarrow> \<not> qual_ready q) then
        Inl (PolicyError ''Run has not passed every quality gate'')
      else bind_r (build_approval_manifest H m patch draft ready) (\<lambda>a. Inr (a, manifest_fingerprint H a)))"

definition approval_details :: "approval_record \<Rightarrow> (string \<times> string) list" where
  "approval_details x = [(''actor'', appr_actor x), (''expires_at'', isoformat (appr_expires_at x)),
     (''manifest_hash'', appr_manifest_hash x)]"

definition approval_events :: "approval_record \<Rightarrow> string option \<Rightarrow> (string \<times> (string \<times> string) list) list" where
  "approval_events x source = [(''approval.created'', approval_details x)]
     @ (case source of None \<Rightarrow> [] | Some url \<Rightarrow> [(''approval.source'', [(''url'', url)])])"

definition approve_run :: "digest \<Rightarrow> dump \<Rightarrow> writer \<Rightarrow> (string \<Rightarrow> bool) \<Rightarrow> db \<Rightarrow> run_manifest \<Rightarrow> string \<Rightarrow> bool \<Rightarrow> bool
    \<Rightarrow> string \<Rightarrow> string \<Rightarrow> string \<Rightarrow> string option \<Rightarrow> int \<Rightarrow> instant \<Rightarrow> instant \<Rightarrow> instant \<Rightarrow> db \<times> run_manifest \<times> unit result" where
  "approve_run H J wr rm d m patch draft ready actor attestation reviewed source hours now clock clock' =
     (if \<not> is_fingerprint_prefix reviewed then
        (d, m, Inl (PolicyError ''A reviewed fingerprint must be 12 to 64 lowercase hex characters''))
      else if (case source of None \<Rightarrow> False | Some url \<Rightarrow> \<not> is_approval_source url) then
        (d, m, Inl (PolicyError ''An approval source must be an https URL without spaces''))
      else case approval_review H m patch draft ready of
        Inl e \<Rightarrow> (d, m, Inl e)
      | Inr (a, fingerprint) \<Rightarrow>
        if \<not> fingerprint_matches reviewed fingerprint then
          (d, m, Inl (PolicyError ''Approval evidence changed after review; inspect the run again before approving''))
        else (case create_approval H hours a actor
            (case source of None \<Rightarrow> attestation | Some url \<Rightarrow> attestation @ '' Source: '' @ url) (Aware now) of
          Inl e \<Rightarrow> (d, m, Inl e)
        | Inr x \<Rightarrow> transition_run H J wr rm d (m\<lparr>approval := Some x\<rparr>) APPROVED (''approved by '' @ actor)
            (approval_events x source) clock clock'))"

section \<open>An approval in the ledger (publication.py)\<close>

text \<open>\<open>_event_details\<close>, \<open>_event_time\<close>: canonical texts only; every refusal is caught and means no approval.\<close>

definition event_texts :: "event_row \<Rightarrow> (string \<times> string) list option" where
  "event_texts e = (case loads_details (ev_details e) of
     None \<Rightarrow> None
   | Some kvs \<Rightarrow> if dumps (text_object kvs) \<noteq> ev_details e then None else Some kvs)"

definition event_time :: "event_row \<Rightarrow> instant option" where
  "event_time e = (case fromisoformat (ev_occurred_at e) of
     None \<Rightarrow> None
   | Some t \<Rightarrow> if isoformat t \<noteq> ev_occurred_at e then None else Some t)"

definition approval_recorded :: "approval_record \<Rightarrow> run_manifest \<Rightarrow> event_row \<Rightarrow> (string \<times> string) list \<Rightarrow> bool" where
  "approval_recorded x m e kvs \<longleftrightarrow> set (map fst kvs) = {''actor'', ''expires_at'', ''manifest_hash''}
     \<and> strip (appr_actor x) \<noteq> [] \<and> strip (appr_attestation x) \<noteq> []
     \<and> publishing_login m = Some (casefold (strip (appr_actor x)))
     \<and> map_of kvs ''actor'' = Some (appr_actor x) \<and> map_of kvs ''manifest_hash'' = Some (appr_manifest_hash x)
     \<and> map_of kvs ''expires_at'' = Some (isoformat (appr_expires_at x)) \<and> is_sha256 (appr_manifest_hash x)
     \<and> (case event_time e of None \<Rightarrow> False | Some t \<Rightarrow> appr_approved_at x \<le> t \<and> t < appr_expires_at x)"

definition event_positions :: "string \<Rightarrow> event_row list \<Rightarrow> (nat \<times> event_row) list" where
  "event_positions t es = filter (\<lambda>(i, e). ev_type e = t) (enumerate 0 es)"

definition classify_exact_human_approval :: "run_manifest \<Rightarrow> event_row list \<Rightarrow> instant option" where
  "classify_exact_human_approval m es = (case approval m of
     None \<Rightarrow> None
   | Some x \<Rightarrow> (case event_positions ''approval.created'' es of
       [(i, e)] \<Rightarrow> (case event_texts e of
           None \<Rightarrow> None
         | Some kvs \<Rightarrow>
           if \<not> approval_recorded x m e kvs then None
           else (case event_positions ''publication.intent.begun'' es of
               [(j, f)] \<Rightarrow> (case event_time f of
                   None \<Rightarrow> None
                 | Some t \<Rightarrow>
                   if j \<le> i \<or> \<not> (appr_approved_at x \<le> t \<and> t < appr_expires_at x) \<or> \<not> is_sha256 (ev_hash e) \<or> \<not> is_sha256 (ev_hash f)
                   then None else Some t)
             | _ \<Rightarrow> None))
     | _ \<Rightarrow> None))"

section \<open>What is published is what was approved\<close>

lemma missing_context_Nil:
  "missing_context m = [] \<longleftrightarrow> preparation_fingerprint m \<notin> {None, Some []} \<and> publishing_login m \<notin> {None, Some []}
     \<and> publishing_api_origin m \<notin> {None, Some []} \<and> commit_author_name m \<notin> {None, Some []} \<and> commit_author_email m \<notin> {None, Some []}
     \<and> commit_committer_name m \<notin> {None, Some []} \<and> commit_committer_email m \<notin> {None, Some []}"
  by (simp add: missing_context_def required_context_def)

lemma build_shape:
  assumes "build_approval_manifest H m patch draft ready = Inr a"
  shows "valid_manifest a" "draft = am_draft a" "ready = am_ready_for_review a" "casefold (H patch) = am_diff_sha256 a"
    "map_option (\<lambda>c. (issue_repository c, issue_number c)) (candidate m) = Some (am_repository a, am_issue_number a)"
    "map_option casefold (base_sha m) = Some (am_base_sha a)"
    "map_option repo_default_branch (repository m) = Some (am_base_branch a)"
    "map_option (\<lambda>p. (prop_commit_message p, prop_pull_request_title p, prop_pull_request_body p, prop_disclosure p)) (proposal m)
      = Some (am_commit_message a, am_pull_request_title a, am_pull_request_body a, am_disclosure a)"
    "head_repository m = am_head_repository a" "publishing_api_origin m = Some (am_publishing_api_origin a)"
    "commit_author_name m = Some (am_commit_author_name a)" "commit_author_email m = Some (am_commit_author_email a)"
    "commit_committer_name m = Some (am_commit_committer_name a)" "commit_committer_email m = Some (am_commit_committer_email a)"
    "map_option (\<lambda>s. casefold (strip s)) (publishing_login m) = Some (am_publishing_login a)"
proof -
  from assms obtain c base info p where m: "candidate m = Some c" "base_sha m = Some base" "repository m = Some info" "proposal m = Some p"
    by (auto simp: build_approval_manifest_def split: option.splits)
  from assms have k: "missing_context m = []"
    by (simp add: build_approval_manifest_def m split: if_splits)
  obtain fp login api an ae cn ce where x: "preparation_fingerprint m = Some fp" "publishing_login m = Some login"
    "publishing_api_origin m = Some api" "commit_author_name m = Some an" "commit_author_email m = Some ae"
    "commit_committer_name m = Some cn" "commit_committer_email m = Some ce"
    using k unfolding missing_context_Nil by auto
  from assms obtain a0 where n: "new_approval_manifest a0 = Inr a" and a0: "a0 = \<lparr>am_schema_version = (if head_repository m = None then 4 else 5),
       am_repository = issue_repository c, am_head_repository = head_repository m, am_issue_number = issue_number c,
       am_base_sha = base, am_preparation_fingerprint = fp, am_publishing_login = login, am_publishing_api_origin = api,
       am_commit_author_name = an, am_commit_author_email = ae, am_commit_committer_name = cn, am_commit_committer_email = ce,
       am_base_branch = repo_default_branch info, am_draft = draft, am_ready_for_review = ready, am_diff_sha256 = H patch,
       am_commit_message = prop_commit_message p, am_pull_request_title = prop_pull_request_title p,
       am_pull_request_body = prop_pull_request_body p, am_disclosure = prop_disclosure p\<rparr>"
    unfolding build_approval_manifest_def m k x by simp
  from new_approval_manifest_Inr [OF n] have v: "valid_manifest a" and a: "a = normal_manifest a0" by blast+
  show "valid_manifest a" by (rule v)
  show "draft = am_draft a" "ready = am_ready_for_review a" "casefold (H patch) = am_diff_sha256 a"
    "map_option (\<lambda>c. (issue_repository c, issue_number c)) (candidate m) = Some (am_repository a, am_issue_number a)"
    "map_option casefold (base_sha m) = Some (am_base_sha a)"
    "map_option repo_default_branch (repository m) = Some (am_base_branch a)"
    "map_option (\<lambda>p. (prop_commit_message p, prop_pull_request_title p, prop_pull_request_body p, prop_disclosure p)) (proposal m)
      = Some (am_commit_message a, am_pull_request_title a, am_pull_request_body a, am_disclosure a)"
    "head_repository m = am_head_repository a" "publishing_api_origin m = Some (am_publishing_api_origin a)"
    "commit_author_name m = Some (am_commit_author_name a)" "commit_author_email m = Some (am_commit_author_email a)"
    "commit_committer_name m = Some (am_commit_committer_name a)" "commit_committer_email m = Some (am_commit_committer_email a)"
    "map_option (\<lambda>s. casefold (strip s)) (publishing_login m) = Some (am_publishing_login a)"
    by (simp_all add: a a0 normal_manifest_def m x)
qed

text \<open>Two runs, patches and flags that publish the same contribution.\<close>

definition publishes_same :: "run_manifest \<Rightarrow> string \<Rightarrow> bool \<Rightarrow> bool \<Rightarrow> run_manifest \<Rightarrow> string \<Rightarrow> bool \<Rightarrow> bool \<Rightarrow> bool" where
  "publishes_same m patch draft ready m' patch' draft' ready' \<longleftrightarrow> patch' = patch \<and> draft' = draft \<and> ready' = ready
     \<and> map_option (\<lambda>c. (issue_repository c, issue_number c)) (candidate m') = map_option (\<lambda>c. (issue_repository c, issue_number c)) (candidate m)
     \<and> map_option casefold (base_sha m') = map_option casefold (base_sha m)
     \<and> map_option repo_default_branch (repository m') = map_option repo_default_branch (repository m)
     \<and> map_option (\<lambda>p. (prop_commit_message p, prop_pull_request_title p, prop_pull_request_body p, prop_disclosure p)) (proposal m')
        = map_option (\<lambda>p. (prop_commit_message p, prop_pull_request_title p, prop_pull_request_body p, prop_disclosure p)) (proposal m)
     \<and> head_repository m' = head_repository m \<and> publishing_api_origin m' = publishing_api_origin m
     \<and> commit_author_name m' = commit_author_name m \<and> commit_author_email m' = commit_author_email m
     \<and> commit_committer_name m' = commit_committer_name m \<and> commit_committer_email m' = commit_committer_email m"

lemma build_publishes_same:
  assumes "build_approval_manifest H m patch draft ready = Inr a" and "build_approval_manifest H m' patch' draft' ready' = Inr a"
    and "inj_on (\<lambda>s. casefold (H s)) {patch, patch'}"
  shows "publishes_same m patch draft ready m' patch' draft' ready'"
proof -
  note s = build_shape [OF assms(1)] and s' = build_shape [OF assms(2)]
  have "patch = patch'" by (rule inj_onD [OF assms(3)]) (simp_all add: s(4) s'(4))
  then show ?thesis
    unfolding publishes_same_def s(5-14) s'(5-14) by (simp add: s(2,3) s'(2,3))
qed

lemma approve_run_Inr:
  assumes "approve_run H J wr rm d m patch draft ready actor attestation reviewed source hours now clock clock' = (d', m', Inr ())"
  obtains a x where "status m = READY_FOR_APPROVAL" "build_approval_manifest H m patch draft ready = Inr a"
    "fingerprint_matches reviewed (manifest_fingerprint H a)"
    "create_approval H hours a actor (case source of None \<Rightarrow> attestation | Some url \<Rightarrow> attestation @ '' Source: '' @ url) (Aware now) = Inr x"
    "transition_run H J wr rm d (m\<lparr>approval := Some x\<rparr>) APPROVED (''approved by '' @ actor) (approval_events x source) clock clock'
      = (d', m', Inr ())"
proof -
  from assms obtain a fp where r: "approval_review H m patch draft ready = Inr (a, fp)" and f: "fingerprint_matches reviewed fp"
    and k: "(case create_approval H hours a actor (case source of None \<Rightarrow> attestation | Some url \<Rightarrow> attestation @ '' Source: '' @ url)
          (Aware now) of Inl e \<Rightarrow> (d, m, Inl e)
        | Inr x \<Rightarrow> transition_run H J wr rm d (m\<lparr>approval := Some x\<rparr>) APPROVED (''approved by '' @ actor)
            (approval_events x source) clock clock') = (d', m', Inr ())"
    unfolding approve_run_def by (auto split: if_splits sum.splits prod.splits)
  from r have "status m = READY_FOR_APPROVAL" "build_approval_manifest H m patch draft ready = Inr a" "fp = manifest_fingerprint H a"
    by (auto simp: approval_review_def bind_r_Inr_iff split: if_splits)
  with f k show thesis by (cases "create_approval H hours a actor
    (case source of None \<Rightarrow> attestation | Some url \<Rightarrow> attestation @ '' Source: '' @ url) (Aware now)") (auto intro: that)
qed

lemma transition_saves:
  assumes "transition_run H J wr rm d m target reason evidence clock clock' = (d', m', Inr ())" and "status m \<noteq> target"
    and "store_wf H J d"
  shows "\<exists>r'. find_run d' (run_id m) = Some r' \<and> row_manifest r' = m' \<and> row_status r' = target
    \<and> updated_at m < updated_at m' \<and> m' = m\<lparr>status := target, updated_at := updated_at m'\<rparr>"
proof -
  define evs where "evs = evidence @ [(''run.transitioned'', transition_details (status m) target reason)]"
  from assms(1,2) have "save_run H J wr rm d (m\<lparr>status := target\<rparr>) (fst (hd evs)) (snd (hd evs)) (tl evs) clock clock' = (d', m', Inr ())"
    unfolding transition_run_def Let_def evs_def [symmetric]
    by (auto split: if_splits prod.splits sum.splits error.splits)
  from save_run_row [OF this assms(3)] show ?thesis by auto
qed

text \<open>
  Approving needs the fingerprint that was reviewed, and stores an approval of exactly the manifest it names.
\<close>
theorem approval_is_exact:
  assumes "store_wf H J d"
    and "approve_run H J wr rm d m patch draft ready actor attestation reviewed source hours now clock clock' = (d', m', Inr ())"
  shows "\<exists>a x r'. build_approval_manifest H m patch draft ready = Inr a \<and> 12 \<le> length reviewed
    \<and> reviewed = take (length reviewed) (manifest_fingerprint H a)
    \<and> appr_actor x = actor \<and> appr_approved_at x = now \<and> appr_expires_at x = now + hours * 3600 * second
    \<and> appr_manifest_hash x = manifest_fingerprint H a
    \<and> find_run d' (run_id m) = Some r' \<and> row_status r' = APPROVED \<and> row_manifest r' = m'
    \<and> m' = m\<lparr>approval := Some x, status := APPROVED, updated_at := updated_at m'\<rparr>"
  using assms(2)
proof (cases rule: approve_run_Inr)
  case (1 a x)
  from transition_saves [OF 1(5) _ assms(1)] 1(1)
  have t: "\<exists>r'. find_run d' (run_id m) = Some r' \<and> row_manifest r' = m' \<and> row_status r' = APPROVED
      \<and> m' = m\<lparr>approval := Some x, status := APPROVED, updated_at := updated_at m'\<rparr>"
    by auto
  from 1(4) have "appr_actor x = actor" "appr_approved_at x = now" "appr_expires_at x = now + hours * 3600 * second"
    "appr_manifest_hash x = manifest_fingerprint H a"
    unfolding create_approval_Inr by (auto simp: shift_def split: if_splits)
  with t 1(2,3) show ?thesis unfolding fingerprint_matches_def is_fingerprint_prefix_def by blast
qed

text \<open>
  C11. When approve_run has returned for a run and the approval it stored is accepted for
  another run, patch and pair of flags, then these publish what was approved: the same patch,
  issue, base commit and branch, commit message, title, body, disclosure, head repository, API
  origin and commit identities; and the moment is within the window of the approval and the
  account is the one that approved. The digest must not collide on the two fingerprint texts and
  the two patches.
\<close>

theorem published_is_approved:
  assumes "store_wf H J d"
    and "approve_run H J wr rm d m patch draft ready actor attestation reviewed source hours now clock clock' = (d1, m1, Inr ())"
    and "approval m1 = Some x" and "build_approval_manifest H m patch draft ready = Inr a"
    and "build_approval_manifest H m' patch' draft' ready' = Inr b" and "validate_approval H x b (Aware u) = Inr ()"
    and "inj_on H {fingerprint_text a, fingerprint_text b}" and "inj_on (\<lambda>s. casefold (H s)) {patch, patch'}"
  shows "publishes_same m patch draft ready m' patch' draft' ready' \<and> now \<le> u \<and> u < now + hours * 3600 * second
    \<and> map_option (\<lambda>s. casefold (strip s)) (publishing_login m') = Some (casefold (strip actor))"
  using assms(2)
proof (cases rule: approve_run_Inr)
  case (1 a' x')
  from 1(2) assms(4) have a: "a' = a" by simp
  from transition_saves [OF 1(5) _ assms(1)] 1(1) obtain u' where "m1 = m\<lparr>approval := Some x', status := APPROVED, updated_at := u'\<rparr>"
    by auto
  with assms(3) have x: "x' = x" by simp
  from 1(4) have c: "appr_actor x = actor" "appr_approved_at x = now" "appr_expires_at x = now + hours * 3600 * second"
    "appr_manifest_hash x = manifest_fingerprint H a"
    unfolding create_approval_Inr a x by (auto simp: shift_def split: if_splits)
  note v = assms(6) [unfolded validate_approval_Inr]
  have "manifest_fingerprint H a = manifest_fingerprint H b" using v compare_digest_Inr c(4) by metis
  then have "a = b" by (rule fingerprint_inj [OF _ assms(7) build_shape(1) [OF assms(4)] build_shape(1) [OF assms(5)]])
  with assms(5) have b: "build_approval_manifest H m' patch' draft' ready' = Inr a" by simp
  show ?thesis
    using build_publishes_same [OF assms(4) b assms(8)] v c build_shape(15) [OF b] \<open>a = b\<close> by simp
qed

section \<open>What the ledger proves of an approval\<close>

text \<open>The declarative reading: one approval event, then one intent event, both canonical and in time.\<close>

definition shows_approval :: "run_manifest \<Rightarrow> event_row list \<Rightarrow> instant \<Rightarrow> bool" where
  "shows_approval m es t \<longleftrightarrow> (\<exists>x before e between f after kvs. approval m = Some x \<and> es = before @ [e] @ between @ [f] @ after
     \<and> (\<forall>g\<in>set (before @ between @ after). ev_type g \<notin> {''approval.created'', ''publication.intent.begun''})
     \<and> ev_type e = ''approval.created'' \<and> ev_type f = ''publication.intent.begun''
     \<and> event_texts e = Some kvs \<and> approval_recorded x m e kvs \<and> event_time f = Some t
     \<and> appr_approved_at x \<le> t \<and> t < appr_expires_at x \<and> is_sha256 (ev_hash e) \<and> is_sha256 (ev_hash f))"

lemma enumerate_append: "enumerate n (xs @ ys) = enumerate n xs @ enumerate (n + length xs) ys"
  by (induction xs arbitrary: n) auto

lemma event_positions_none: "filter (\<lambda>(i, e). ev_type e = t) (enumerate n es) = [] \<longleftrightarrow> (\<forall>g\<in>set es. ev_type g \<noteq> t)"
  by (induction es arbitrary: n) auto

lemma event_positions_one:
  "filter (\<lambda>(i, e). ev_type e = t) (enumerate n es) = [(i, e)] \<longleftrightarrow>
     (\<exists>xs ys. es = xs @ [e] @ ys \<and> i = n + length xs \<and> ev_type e = t \<and> (\<forall>g\<in>set (xs @ ys). ev_type g \<noteq> t))"
proof (induction es arbitrary: n)
  case (Cons g es)
  show ?case
  proof (cases "ev_type g = t")
    case True
    then show ?thesis by (auto simp: event_positions_none Cons_eq_append_conv)
  next
    case False
    have "(\<exists>xs ys. g # es = xs @ [e] @ ys \<and> i = n + length xs \<and> ev_type e = t \<and> (\<forall>g\<in>set (xs @ ys). ev_type g \<noteq> t)) \<longleftrightarrow>
      (\<exists>xs ys. es = xs @ [e] @ ys \<and> i = Suc n + length xs \<and> ev_type e = t \<and> (\<forall>g\<in>set (xs @ ys). ev_type g \<noteq> t))"
      (is "?l \<longleftrightarrow> ?r")
    proof
      assume ?l
      then obtain xs ys where l: "g # es = xs @ [e] @ ys" "i = n + length xs" "ev_type e = t" "\<forall>g\<in>set (xs @ ys). ev_type g \<noteq> t" by blast
      with False obtain xs' where "xs = g # xs'" by (cases xs) auto
      with l show ?r by (intro exI [of _ xs'] exI [of _ ys]) simp
    next
      assume ?r
      then obtain xs ys where "es = xs @ [e] @ ys" "i = Suc n + length xs" "ev_type e = t" "\<forall>g\<in>set (xs @ ys). ev_type g \<noteq> t" by blast
      with False show ?l by (intro exI [of _ "g # xs"] exI [of _ ys]) simp
    qed
    with False Cons.IH [of "Suc n"] show ?thesis by simp
  qed
qed simp

lemma classify_iff: "classify_exact_human_approval m es = Some t \<longleftrightarrow> shows_approval m es t"
proof
  assume c: "classify_exact_human_approval m es = Some t"
  then obtain x i e kvs j f where x: "approval m = Some x" and i: "event_positions ''approval.created'' es = [(i, e)]"
    and kvs: "event_texts e = Some kvs" "approval_recorded x m e kvs" and j: "event_positions ''publication.intent.begun'' es = [(j, f)]"
    and t: "event_time f = Some t" "i < j" "appr_approved_at x \<le> t" "t < appr_expires_at x" "is_sha256 (ev_hash e)" "is_sha256 (ev_hash f)"
    by (auto simp: classify_exact_human_approval_def split: option.splits list.splits prod.splits if_splits)
  from i obtain before rest where b: "es = before @ [e] @ rest" "i = length before" "ev_type e = ''approval.created''"
    "\<forall>g\<in>set (before @ rest). ev_type g \<noteq> ''approval.created''"
    unfolding event_positions_def event_positions_one by auto
  from j obtain front after where f: "es = front @ [f] @ after" "j = length front" "ev_type f = ''publication.intent.begun''"
    "\<forall>g\<in>set (front @ after). ev_type g \<noteq> ''publication.intent.begun''"
    unfolding event_positions_def event_positions_one by auto
  from b(1,2) f(1,2) t(2) have "\<exists>between. front = before @ [e] @ between \<and> rest = between @ [f] @ after"
    by (auto simp: append_eq_append_conv2 Cons_eq_append_conv append_eq_Cons_conv)
  then obtain between where m: "front = before @ [e] @ between" "rest = between @ [f] @ after" by blast
  show "shows_approval m es t"
    unfolding shows_approval_def using x kvs t b f m
    by (intro exI [of _ x] exI [of _ before] exI [of _ e] exI [of _ between] exI [of _ f] exI [of _ after] exI [of _ kvs]) auto
next
  assume "shows_approval m es t"
  then obtain x before e between f after kvs where x: "approval m = Some x" and es: "es = before @ [e] @ between @ [f] @ after"
    and o: "\<forall>g\<in>set (before @ between @ after). ev_type g \<notin> {''approval.created'', ''publication.intent.begun''}"
    and ty: "ev_type e = ''approval.created''" "ev_type f = ''publication.intent.begun''"
    and r: "event_texts e = Some kvs" "approval_recorded x m e kvs" "event_time f = Some t"
     "appr_approved_at x \<le> t" "t < appr_expires_at x" "is_sha256 (ev_hash e)" "is_sha256 (ev_hash f)"
    unfolding shows_approval_def by blast
  have i: "event_positions ''approval.created'' es = [(length before, e)]"
    unfolding event_positions_def event_positions_one
    by (intro exI [of _ before] exI [of _ "between @ [f] @ after"]) (use es o ty in auto)
  have j: "event_positions ''publication.intent.begun'' es = [(length before + 1 + length between, f)]"
    unfolding event_positions_def event_positions_one
    by (intro exI [of _ "before @ [e] @ between"] exI [of _ after]) (use es o ty in auto)
  show "classify_exact_human_approval m es = Some t"
    by (simp add: classify_exact_human_approval_def x i j r)
qed

text \<open>The event that \<open>approve_run\<close> records is read back as written.\<close>

lemma approval_details_sorted: "sort_key fst (approval_details x) = approval_details x"
  by (simp add: approval_details_def less_eq_char_def)

lemma approval_event_texts:
  assumes "ev_details e = canonical_details (approval_details x)"
  shows "event_texts e = Some (approval_details x)"
proof -
  have "loads_details (ev_details e) = Some (sort_key fst (approval_details x))"
    unfolding assms canonical_details_def by (rule loads_dumps') (simp add: approval_details_def)
  then show ?thesis by (simp add: event_texts_def approval_details_sorted assms canonical_details_def)
qed

text \<open>
  C13. The approval that create_approval makes, recorded by its event and followed by one
  publication intent within its window, is recognised when the ledger is read during recovery,
  at the time of the intent, whatever other events lie around the two.
\<close>

theorem recorded_approval_recognised:
  assumes "create_approval H hours a actor attestation (Aware now) = Inr x" and "approval m = Some x"
    and "publishing_login m = Some (casefold (strip actor))" and "\<And>s. is_sha256 (H s)"
    and "es = before @ [new_event H p rid ''approval.created'' (approval_details x) t] @ between
      @ [new_event H q rid ''publication.intent.begun'' dts u] @ after"
    and "\<forall>g\<in>set (before @ between @ after). ev_type g \<notin> {''approval.created'', ''publication.intent.begun''}"
    and "supported t" "now \<le> t" "t < now + hours * 3600 * second" and "supported u" "now \<le> u" "u < now + hours * 3600 * second"
  shows "classify_exact_human_approval m es = Some u"
proof -
  let ?e = "new_event H p rid ''approval.created'' (approval_details x) t"
  let ?f = "new_event H q rid ''publication.intent.begun'' dts u"
  from assms(1) have x: "strip (appr_actor x) \<noteq> []" "strip (appr_attestation x) \<noteq> []" "appr_actor x = actor" "appr_approved_at x = now"
    "appr_expires_at x = now + hours * 3600 * second" "is_sha256 (appr_manifest_hash x)"
    unfolding create_approval_Inr by (auto simp: shift_def manifest_fingerprint_def assms(4) split: if_splits)
  have time: "event_time ?e = Some t" "event_time ?f = Some u"
    using isoformat_read_back' assms(7,10) by (simp_all add: event_time_def)
  have r: "approval_recorded x m ?e (approval_details x)"
    unfolding approval_recorded_def using x time assms(3,8,9) by (simp add: approval_details_def)
  have "shows_approval m es u"
    unfolding shows_approval_def
    by (rule exI [of _ x], rule exI [of _ before], rule exI [of _ ?e], rule exI [of _ between], rule exI [of _ ?f],
        rule exI [of _ after], rule exI [of _ "approval_details x"])
      (use assms(2,5,6,11,12) approval_event_texts [of ?e x] r time x assms(4) in simp)
  then show ?thesis by (rule classify_iff [THEN iffD2])
qed

section \<open>Examples\<close>

text \<open>A run that waits for the approval of its one-line fix.\<close>

definition waiting_manifest :: run_manifest where
  "waiting_manifest = (new_manifest ''r'' READY_FOR_APPROVAL 0 0)\<lparr>candidate := Some sample_issue,
     base_sha := Some (replicate 40 (CHR ''A'')),
     repository := Some \<lparr>repo_full_name = ''o/n'', repo_html_url = [], repo_clone_url = [], repo_default_branch = ''main'',
       repo_stars = 0, repo_archived = False, repo_disabled = False, repo_private = False, repo_pushed_at = None,
       repo_license_spdx = None, repo_has_pull_requests = True, repo_pull_request_creation_policy = None\<rparr>,
     proposal := Some \<lparr>prop_summary = ''s'', prop_commit_message = ''fix'', prop_pull_request_title = ''t'', prop_pull_request_body = ''b'',
       prop_test_files = [], prop_test_command = None, prop_disclosure = ''d''\<rparr>,
     quality := Some \<lparr>qual_ready = True, qual_gates = [], qual_review_rounds = 1, qual_review_summary = [], qual_review_notes = []\<rparr>,
     preparation_fingerprint := Some (replicate 64 (CHR ''a'')), publishing_login := Some ''l'',
     publishing_api_origin := Some ''https://api.github.com'', commit_author_name := Some ''l'', commit_author_email := Some ''l@e'',
     commit_committer_name := Some ''l'', commit_committer_email := Some ''l@e''\<rparr>"

definition shown_manifest :: approval_manifest where
  "shown_manifest = \<lparr>am_schema_version = 4, am_repository = ''o/n'', am_head_repository = None, am_issue_number = 1,
     am_base_sha = replicate 40 (CHR ''a''), am_preparation_fingerprint = replicate 64 (CHR ''a''), am_publishing_login = ''l'',
     am_publishing_api_origin = ''https://api.github.com'', am_commit_author_name = ''l'', am_commit_author_email = ''l@e'',
     am_commit_committer_name = ''l'', am_commit_committer_email = ''l@e'', am_base_branch = ''main'', am_draft = True,
     am_ready_for_review = False, am_diff_sha256 = tagged_hash (CHR ''9''), am_commit_message = ''fix'', am_pull_request_title = ''t'',
     am_pull_request_body = ''b'', am_disclosure = ''d''\<rparr>"

definition given_approval :: approval_record where
  "given_approval = \<lparr>appr_actor = ''L'', appr_approved_at = 0, appr_expires_at = 72 * 3600 * second,
     appr_manifest_hash = tagged_hash (CHR ''9''), appr_attestation = ''reviewed''\<rparr>"

definition waiting_events :: "event_row list" where
  "waiting_events = [chain_event (CHR ''0'') (CHR ''1'') ''run.created'' [(''status'', ''queued'')]]"

definition approved_events :: "event_row list" where
  "approved_events = [chain_event (CHR ''1'') (CHR ''2'') ''approval.created'' (approval_details given_approval),
     chain_event (CHR ''2'') (CHR ''3'') ''run.transitioned'' (transition_details READY_FOR_APPROVAL APPROVED ''approved by L'')]"

definition waiting_sha :: digest where
  "waiting_sha = chain_sha (waiting_events @ approved_events)"

definition waiting_db :: db where
  "waiting_db = pub_db (chain_row waiting_sha waiting_manifest READY_FOR_APPROVAL 0 1 (CHR ''1'')) waiting_events []"

lemma shown_valid: "valid_manifest (normal_manifest (shown_manifest\<lparr>am_base_sha := replicate 40 (CHR ''A'')\<rparr>))"
  "normal_manifest (shown_manifest\<lparr>am_base_sha := replicate 40 (CHR ''A'')\<rparr>) = shown_manifest" "valid_manifest shown_manifest"
  by code_simp+

lemma waiting_hashes:
  "\<forall>e\<in>set (waiting_events @ approved_events). waiting_sha (payload_of e) = ev_hash e" "is_sha256 (waiting_sha s)"
proof -
  have d: "distinct (map ev_type (waiting_events @ approved_events))" by (simp add: waiting_events_def approved_events_def)
  show "\<forall>e\<in>set (waiting_events @ approved_events). waiting_sha (payload_of e) = ev_hash e"
    using chain_sha_known [OF d] unfolding waiting_sha_def by blast
  show "is_sha256 (waiting_sha s)"
    unfolding waiting_sha_def by (rule chain_sha_sha) (simp add: waiting_events_def approved_events_def is_lower_hex_def is_digit_def)
qed

lemma waiting_other: "s = [] \<or> hd s \<noteq> CHR ''{'' \<Longrightarrow> waiting_sha s = tagged_hash (CHR ''9'')"
proof -
  assume s: "s = [] \<or> hd s \<noteq> CHR ''{''"
  have "payload_of e \<noteq> s" for e
    using s dumps_text_object_head by (auto simp: payload_of_def event_payload_def) (metis list.sel(1) list.discI)+
  then have "List.find (\<lambda>e. payload_of e = s) es = None" for es by (simp add: find_None_iff)
  then show ?thesis by (simp add: waiting_sha_def chain_sha_def)
qed

lemma waiting_simps [simp]:
  "run_id waiting_manifest = ''r''" "status waiting_manifest = READY_FOR_APPROVAL" "updated_at waiting_manifest = 0"
  "candidate waiting_manifest = Some sample_issue" "publishing_login waiting_manifest = Some ''l''"
  by (simp_all add: waiting_manifest_def)

lemma waiting_build: "build_approval_manifest waiting_sha waiting_manifest ''diff'' True False = Inr shown_manifest"
proof -
  have k: "missing_context waiting_manifest = []"
    by (simp add: missing_context_def required_context_def waiting_manifest_def replicate_numeral)
  have h: "waiting_sha ''diff'' = tagged_hash (CHR ''9'')" by (rule waiting_other) simp
  have n: "new_approval_manifest (shown_manifest\<lparr>am_base_sha := replicate 40 (CHR ''A'')\<rparr>) = Inr shown_manifest"
    unfolding new_approval_manifest_def using shown_valid by simp
  show ?thesis
    using n unfolding build_approval_manifest_def k
    by (simp add: h waiting_manifest_def new_manifest_def shown_manifest_def)
qed

lemma waiting_fingerprint: "manifest_fingerprint waiting_sha a = tagged_hash (CHR ''9'')"
  unfolding manifest_fingerprint_def by (rule waiting_other) (simp add: fingerprint_text_def fingerprint_domain_def)

lemma waiting_approval:
  "create_approval waiting_sha 72 a ''L'' ''reviewed'' (Aware 0) = Inr given_approval"
  by (simp add: create_approval_def policy_utc_def shift_def second_def max_instant_def day_def waiting_fingerprint given_approval_def
      strip_def rstrip_def is_space_def)

lemma waiting_wf: "store_wf waiting_sha J waiting_db"
proof -
  have h: "waiting_sha (payload_of (chain_event (CHR ''0'') (CHR ''1'') ''run.created'' [(''status'', ''queued'')])) = tagged_hash (CHR ''1'')"
    using waiting_hashes(1) by (simp add: waiting_events_def)
  have "anchored waiting_sha waiting_db (chain_row waiting_sha waiting_manifest READY_FOR_APPROVAL 0 1 (CHR ''1''))"
    by (simp add: waiting_db_def anchored_def run_events_def waiting_events_def zeros_tag h is_lower_hex_def is_digit_def)
  then show ?thesis
    using chain_row_ok(1) [of waiting_sha 1 "CHR ''1''" waiting_manifest READY_FOR_APPROVAL 0] waiting_hashes(2)
    by (simp add: waiting_db_def store_wf_def ledger_sound_def row_agrees_def marker_ok_def Let_def)
       (simp add: waiting_events_def)
qed

lemma waiting_appends:
  "append_events waiting_sha (pub_db (chain_row waiting_sha m APPROVED 1 1 (CHR ''1'')) waiting_events [])
      ''r'' [(''approval.created'', approval_details given_approval),
        (''run.transitioned'', transition_details READY_FOR_APPROVAL APPROVED ''approved by L'')] 0
   = Inr (pub_db (chain_row waiting_sha m APPROVED 1 3 (CHR ''3'')) (waiting_events @ approved_events) [])"
proof -
  let ?e = "chain_event (CHR ''1'') (CHR ''2'') ''approval.created'' (approval_details given_approval)"
  have h: "waiting_sha (payload_of ?e) = tagged_hash (CHR ''2'')"
    "waiting_sha (payload_of (chain_event (CHR ''2'') (CHR ''3'') ''run.transitioned''
      (transition_details READY_FOR_APPROVAL APPROVED ''approved by L''))) = tagged_hash (CHR ''3'')"
    using waiting_hashes(1) by (simp_all add: approved_events_def)
  note a = chain_append [where H = waiting_sha, OF waiting_hashes(2) h(1), of waiting_events 1 m APPROVED 1]
    chain_append [where H = waiting_sha, OF waiting_hashes(2) h(2), of "waiting_events @ [?e]" 2 m APPROVED 1]
  show ?thesis using a by (simp add: waiting_events_def approved_events_def)
qed

lemma waiting_approve:
  "\<exists>d' m'. approve_run waiting_sha (\<lambda>_. []) (\<lambda>_. None) (\<lambda>_. False) waiting_db waiting_manifest ''diff'' True False ''L'' ''reviewed''
     (replicate 12 (CHR ''0'')) None 72 0 1 0 = (d', m', Inr ())"
proof -
  let ?m = "waiting_manifest\<lparr>approval := Some given_approval, status := APPROVED, updated_at := 1\<rparr>"
  let ?r = "chain_row waiting_sha waiting_manifest READY_FOR_APPROVAL 0 1 (CHR ''1'')"
  let ?r1 = "chain_row waiting_sha ?m APPROVED 1 1 (CHR ''1'')"
  let ?r3 = "chain_row waiting_sha ?m APPROVED 1 3 (CHR ''3'')"
  let ?d = "(pub_db ?r3 (waiting_events @ approved_events) [])\<lparr>manifest_artifact_sync :=
      [''r'' \<mapsto> \<lparr>sync_updated_at = 1, sync_manifest_sha256 = waiting_sha []\<rparr>]\<rparr>"
  have v: "validate_manifest ?m = Inr ?m"
    by (simp add: validate_manifest_def fields_valid_def remote_identity_complete_def waiting_manifest_def new_manifest_def opt_all_def
        is_sha256_def is_lower_hex_def is_digit_def list_all_iff)
  have sv: "saved_row waiting_sha ?m ?r = ?r1" by (simp add: saved_row_def chain_row_def)
  have g: "save_guard 0 (Some (compute_issue_revision waiting_sha sample_issue)) ?r" by (simp add: save_guard_def)
  have ok: "runs_ok [?r1]" by (rule chain_row_ok(1)) (simp_all add: waiting_hashes(2) is_lower_hex_def is_digit_def)
  have t: "save_transaction waiting_sha (\<lambda>_. []) waiting_db ?m 0
      [(''approval.created'', approval_details given_approval),
        (''run.transitioned'', transition_details READY_FOR_APPROVAL APPROVED ''approved by L'')] 0 = Inr ?d"
    using g by (simp add: save_transaction_def waiting_db_def pub_find update_run_def sv write_runs_def ok waiting_appends
        mark_manifest_artifact_sync_def del: append_events.simps)
  have "publish_artifact waiting_sha (\<lambda>_. []) (\<lambda>_. None) ?d ''r'' 1 (waiting_sha [])
      = Inr (?d\<lparr>manifest_files := (manifest_files ?d)(''r'' \<mapsto> ?m), manifest_artifact_sync := (manifest_artifact_sync ?d)(''r'' := None)\<rparr>, True)"
    using v by (simp add: publish_artifact_def find_run_def)
  then have y: "synchronize_manifest_artifact waiting_sha (\<lambda>_. []) (\<lambda>_. None) ?d ''r'' 1 (waiting_sha [])
      = Inr (?d\<lparr>manifest_files := (manifest_files ?d)(''r'' \<mapsto> ?m), manifest_artifact_sync := (manifest_artifact_sync ?d)(''r'' := None)\<rparr>, True)"
    by (simp only: synchronize_Inr)
  have "\<exists>d'. save_run waiting_sha (\<lambda>_. []) (\<lambda>_. None) (\<lambda>_. False) waiting_db
      (waiting_manifest\<lparr>approval := Some given_approval, status := APPROVED\<rparr>) ''approval.created'' (approval_details given_approval)
      [(''run.transitioned'', transition_details READY_FOR_APPROVAL APPROVED ''approved by L'')] 1 0 = (d', ?m, Inr ())"
    unfolding save_run_def
    by (simp add: selection_details_def next_run_update_time_def t y Let_def terminal_statuses_def)
  then obtain d' where s: "save_run waiting_sha (\<lambda>_. []) (\<lambda>_. None) (\<lambda>_. False) waiting_db
      (waiting_manifest\<lparr>approval := Some given_approval, status := APPROVED\<rparr>) ''approval.created'' (approval_details given_approval)
      [(''run.transitioned'', transition_details READY_FOR_APPROVAL APPROVED ''approved by L'')] 1 0 = (d', ?m, Inr ())" by blast
  have p: "is_fingerprint_prefix (replicate 12 (CHR ''0''))" "fingerprint_matches (replicate 12 (CHR ''0'')) (tagged_hash (CHR ''9''))"
    by code_simp+
  have q: "(case quality waiting_manifest of None \<Rightarrow> True | Some q \<Rightarrow> \<not> qual_ready q) = False"
    by (simp add: waiting_manifest_def)
  have r: "approval_review waiting_sha waiting_manifest ''diff'' True False = Inr (shown_manifest, tagged_hash (CHR ''9''))"
    unfolding approval_review_def q by (simp add: waiting_build waiting_fingerprint)
  have e: "approval_events given_approval None = [(''approval.created'', approval_details given_approval)]" by (simp add: approval_events_def)
  show ?thesis
    unfolding approve_run_def r using p s
    by (simp add: waiting_approval transition_run_def e del: replicate_numeral)
qed

lemma waiting_ascii: "list_all (\<lambda>c. code c < 128) (waiting_sha s)"
  using waiting_hashes(2) [of s] by (auto simp: is_sha256_def is_lower_hex_def is_digit_def list_all_iff)

lemma approval_validates_iff_witness: "validate_approval waiting_sha given_approval shown_manifest (Aware 5) = Inr ()"
proof -
  have l: "casefold (strip ''L'') = am_publishing_login shown_manifest" by code_simp
  show ?thesis
    using approval_validates_iff [OF waiting_approval shown_valid(3) shown_valid(3) _ waiting_ascii, of 5] l
    by (simp add: second_def)
qed

lemma approval_is_exact_witness:
  "\<exists>d' m' r'. approve_run waiting_sha (\<lambda>_. []) (\<lambda>_. None) (\<lambda>_. False) waiting_db waiting_manifest ''diff'' True False ''L'' ''reviewed''
     (replicate 12 (CHR ''0'')) None 72 0 1 0 = (d', m', Inr ()) \<and> find_run d' ''r'' = Some r' \<and> row_status r' = APPROVED"
proof -
  obtain d' m' where a: "approve_run waiting_sha (\<lambda>_. []) (\<lambda>_. None) (\<lambda>_. False) waiting_db waiting_manifest ''diff'' True False
    ''L'' ''reviewed'' (replicate 12 (CHR ''0'')) None 72 0 1 0 = (d', m', Inr ())" using waiting_approve by blast
  from approval_is_exact [OF waiting_wf a] a show ?thesis unfolding waiting_simps by blast
qed

lemma published_is_approved_witness:
  "\<exists>d' m' x. approve_run waiting_sha (\<lambda>_. []) (\<lambda>_. None) (\<lambda>_. False) waiting_db waiting_manifest ''diff'' True False ''L'' ''reviewed''
     (replicate 12 (CHR ''0'')) None 72 0 1 0 = (d', m', Inr ()) \<and> approval m' = Some x
     \<and> validate_approval waiting_sha x shown_manifest (Aware 5) = Inr ()
     \<and> publishes_same waiting_manifest ''diff'' True False waiting_manifest ''diff'' True False"
proof -
  obtain d' m' where a: "approve_run waiting_sha (\<lambda>_. []) (\<lambda>_. None) (\<lambda>_. False) waiting_db waiting_manifest ''diff'' True False
    ''L'' ''reviewed'' (replicate 12 (CHR ''0'')) None 72 0 1 0 = (d', m', Inr ())" using waiting_approve by blast
  from a obtain x where x: "approval m' = Some x" "create_approval waiting_sha 72 shown_manifest ''L'' ''reviewed'' (Aware 0) = Inr x"
  proof (cases rule: approve_run_Inr)
    case (1 b y)
    then have b: "b = shown_manifest" using waiting_build by simp
    from transition_saves [OF 1(5) _ waiting_wf] obtain u where
      "m' = waiting_manifest\<lparr>approval := Some y, status := APPROVED, updated_at := u\<rparr>" by auto
    then have "approval m' = Some y" by simp
    then show thesis by (rule that) (use 1(4) b in simp)
  qed
  have l: "casefold (strip ''L'') = am_publishing_login shown_manifest" by code_simp
  have g: "x = given_approval" using x(2) waiting_approval by simp
  have v: "validate_approval waiting_sha x shown_manifest (Aware 5) = Inr ()"
    unfolding validate_approval_Inr g waiting_fingerprint
    using compare_digest_same [OF waiting_ascii, of "[]"] waiting_other [of "[]"] l
    by (simp add: given_approval_def second_def strip_def rstrip_def is_space_def)
  have "publishes_same waiting_manifest ''diff'' True False waiting_manifest ''diff'' True False \<and> 0 \<le> (5 :: int)
    \<and> (5 :: int) < 0 + 72 * 3600 * second
    \<and> map_option (\<lambda>s. casefold (strip s)) (publishing_login waiting_manifest) = Some (casefold (strip ''L''))"
    by (rule published_is_approved [OF waiting_wf a x(1) waiting_build waiting_build v]) simp_all
  with a x v show ?thesis by blast
qed

lemma recorded_approval_recognised_witness:
  "classify_exact_human_approval (waiting_manifest\<lparr>approval := Some given_approval\<rparr>)
     [new_event waiting_sha zeros ''r'' ''approval.created'' (approval_details given_approval) 3,
      new_event waiting_sha zeros ''r'' ''publication.intent.begun'' [] 4] = Some 4"
proof -
  have l: "publishing_login (waiting_manifest\<lparr>approval := Some given_approval\<rparr>) = Some (casefold (strip ''L''))"
  proof -
    have "casefold (strip ''L'') = ''l''" by code_simp
    then show ?thesis by simp
  qed
  show ?thesis
    by (rule recorded_approval_recognised [OF waiting_approval _ l waiting_hashes(2),
        where t = 3 and u = 4 and before = "[]" and between = "[]" and after = "[]" and p = zeros and q = zeros and rid = "''r''" and dts = "[]"])
      (simp_all add: supported_def second_def max_instant_def day_def)
qed

end
