(* ===== verification/Spec2Isabelle.thy ===== *)
theory Spec2Isabelle
  imports Coordination Solver SessionTools Compensation Synchronization Approving
begin

text \<open>
  autocontribute finds open issues, lets a language model fix them in a sandbox, and publishes a
  checked fix as a pull request after a human has approved it.  This development models the parts of
  \<open>src/autocontribute\<close> that decide whether that happens safely: the durable state and its evidence, the
  model budget, the loop that drives the model, and the tools the model runs.

  \<^bold>\<open>The program and its parts.\<close>  A run is a row of a SQLite database with a manifest.  The store
  (\<open>store.py\<close>) creates runs, binds each to one issue (\<open>claim_candidate\<close>), moves it through the statuses
  of \<open>domain.py\<close>, reserves publication capacity and begins the publication; every step appends to a
  hash-chained event ledger, under a fenced lease, unless a safety stop holds it back.  While a run
  prepares its fix, \<open>agent_loop.py\<close> sends a transcript (\<open>transcript.py\<close>) to the provider turn by turn;
  \<open>budget.py\<close> reserves each request at its worst case in the run's manifest before it is sent, and
  \<open>agent_tools.py\<close> answers the calls of a turn with commands in a container and edits of the workspace
  (\<open>edit_tools.py\<close>, \<open>apply_diff.py\<close>, \<open>workspace_files.py\<close>).  A submitted fix is checked and confirmed by
  the solver before the loop ends.  A human approves the finished contribution by the fingerprint of its
  approval manifest (\<open>approval.py\<close>, \<open>approve_run\<close> in \<open>publication.py\<close>).  A publication that went wrong is compensated: \<open>store.py\<close> closes its run
  only with the events that show what was cleaned up.  Published pull requests are observed by
  \<open>lifecycle.py\<close>, which turns what GitHub shows into stops and into attention for the human.

  \<^bold>\<open>Theories, in the order of their imports.\<close>
  \<^item> \<open>Prelude\<close>: exceptions and results, loops that raise, the locale of append-only logs.
  \<^item> \<open>PyText\<close>, \<open>Timestamps\<close>, \<open>Calendar\<close>, \<open>Loads\<close>: what the source uses of Python's \<open>str\<close>, \<open>json\<close> and
    \<open>datetime\<close>.  A string is a list of code points below 256; an instant is a number of microseconds.
  \<^item> \<open>Domain\<close>, \<open>Pricing\<close>, \<open>Tables\<close>: the values of a run with the validation of its manifest, the model
    table with prices as rationals, and the schema: one record per table row, one record \<open>db\<close> for the
    state root with its files.
  \<^item> \<open>Ledger\<close>, \<open>Leases\<close>, \<open>Safety\<close>, \<open>Runs\<close>, \<open>Claims\<close>, \<open>Evidence\<close>, \<open>Reservations\<close>, \<open>Publication\<close>:
    \<open>RunStore\<close>, one theory for each group of its methods, and \<open>Coordination\<close> the lease guard over it.
  \<^item> \<open>Patterns\<close>, \<open>Url\<close>: regular expressions with the texts that turn automation away (\<open>stop_text.py\<close>), and the
    URLs that \<open>github_origin.py\<close> and \<open>lifecycle.py\<close> read.
  \<^item> \<open>Compensation\<close>: the two ways \<open>store.py\<close> finalizes a compensated publication.
  \<^item> \<open>Approval\<close>, \<open>Approving\<close>: the manifest a human approves, its fingerprint over canonical JSON and its
    validation; how \<open>approve_run\<close> stores an approval and how recovery recognises one in the ledger.
  \<^item> \<open>Lifecycle\<close>, \<open>Observation\<close>, \<open>Synchronization\<close>: the classification of a pull request's evidence, the
    observer and the synchronization over the store, and what the synchronization promises.
  \<^item> \<open>Budget\<close>, \<open>ModelRetry\<close>: reservations, settlement and charges of a run, and the retry decision.
  \<^item> \<open>Transcript\<close>, \<open>AgentLoop\<close>, \<open>Untrusted\<close>, \<open>Solver\<close>: the conversation, the loop with its limits, and
    the submits of a fix.
  \<^item> \<open>Workspace\<close>, \<open>ApplyDiff\<close>, \<open>EditTools\<close>, \<open>Answering\<close>, \<open>SessionTools\<close>: the workspace tree, the diff
    parser, the edit calls, what a result must look like, and the calls of a session.

  \<^bold>\<open>State and operations.\<close>  An operation of the store takes the database and returns it with an outcome
  whose left values are the exceptions.  Inside a transaction (\<open>db \<times> 'a result\<close> under a sum) an exception
  returns no database: the rollback.  Where effects come before an exception the operation returns the
  state in both cases, and where the caller's manifest is changed in place it is returned as well.
  Histories are \<open>inductive\<close> relations whose steps are these operations, interleaved in any order.
  Manifests are stored parsed; \<open>J\<close> is their JSON text.

  \<^bold>\<open>Parameters.\<close>  What is outside \<open>src\<close> is an argument: the SHA-256 digest \<open>H\<close>, the text \<open>J\<close> of a
  manifest, the file writer, the readings of clocks and uuids, the provider, GitHub, the container and the fix
  checker (automata on a state of their own that may answer in any way), and pydantic's validation of tool
  arguments.  Assumptions about them (that a digest does not collide on two given texts, that a
  provider stays within the limits of its request) stand in the statements that need them, with a witness
  at concrete functions.

  \<^bold>\<open>What the lemmas show.\<close>  The ledger theories show that verification accepts exactly the chains that
  were appended; the lease theories that a lease has one owner and that a lost one is fenced out; the
  safety theories that stops persist until they are reviewed; the run and claim theories that no update
  is lost, that statuses follow their graph, that an issue has one active run, and that the evidence checked
  when a database is opened stays complete; the reservation and publication theories that capacity is
  respected and that a publication is durable before any remote write and final after it.  The compensation
  theory shows that a run is adopted or failed only on the evidence the code names; the approval
  theories that the fingerprint text determines every field of the manifest, so that an approval is accepted
  for the manifest it was given for and no other, that what is published under it is what was approved, and
  that the recorded event is recognised again; and the lifecycle
  theories that a synchronization looks at every published run, records every stop it finds, never takes the
  tool's own push for a maintainer's, and keeps the store well formed however it ends.  The budget
  theory bounds the cost of every history; the loop theory bounds turns and requests and shows that the
  loop ends; the solver theory that an accepted fix was checked; the tool theories that paths stay inside
  the workspace, that an edit changes what it reports, and that every call of a turn gets a result the
  transcript accepts.

  \<^bold>\<open>Interfaces.\<close>  The locales are \<open>append_only_log\<close> (interpreted on the ledger), the contracts of leases and of
  the store that the guard and the claims rely on, \<open>submit_contract\<close> (the handler of a submission,
  interpreted on the solver), \<open>prefix_code\<close> with its extension \<open>terminated_code\<close> (encodings of
  characters that can be read back, interpreted on UTF-8 and on the characters of a JSON string),
  \<open>kept_by_store\<close> (what recording a stop or an observation keeps, interpreted on
  the store invariant and on the stops on record) and \<open>answering_tools\<close> (tools whose results fit, interpreted on the session).

  \<^bold>\<open>Bounds.\<close>  Loops are structural recursions or \<open>function\<close>s with a measure, so no fuel is used: the
  loop of a transcript decreases the turns left, a request the attempts left, a parser the text left.
  The bounds of the source (10,000 runs, 300 second commands, 10,000 characters of output and so on) are the
  constants of the model.

  \<^bold>\<open>Not modelled.\<close>  The GitHub client and the publication sequence over it with git, the command line, discovery
  over search results, repository and container plumbing, and provider adapters: their behaviour is mostly that of
  external services, processes and file systems.  Within the modelled files: SQLite itself beyond its
  constraints and transactions, thread start and join, races between the container and a host-side check of
  the same path, floating-point rounding (seconds and amounts are rationals), text beyond code point 255,
  and exceptions that the declared types exclude.
\<close>

end
